(* ===== verification/Prelude.thy ===== *)
theory Prelude
  imports Main "HOL-Library.Word" "HOL-Library.AList"
begin

text \<open>
  Shared vocabulary of the development: Python exceptions as values, a result type for pure code
  that may raise, a state-and-exception monad for code that mutates an object and may raise
  half way, dictionaries in insertion order as association lists, and byte strings with the
  big-endian conversions of \<open>int.from_bytes\<close> and \<open>int.to_bytes\<close>.
\<close>

unbundle bit_operations_syntax

section \<open>Rule collections\<close>

named_theorems sem_simps \<open>unfolding rules of the state-and-exception monad\<close>
named_theorems dict_simps \<open>lookup and domain laws of dictionaries\<close>
named_theorems tri_rules \<open>Hoare triples of the primitive operations\<close>

section \<open>Python exceptions and pure code that may raise\<close>

text \<open>The builtin exception classes the modelled code raises itself. Messages are not kept.\<close>

datatype py_error =
    ValueError | TypeError | OverflowError | ZeroDivisionError
  | KeyError | IndexError | LookupError | AssertionError

type_synonym ('e, 'a) result = "'e + 'a"

definition bindR :: "('e, 'a) result \<Rightarrow> ('a \<Rightarrow> ('e, 'b) result) \<Rightarrow> ('e, 'b) result" where
  "bindR r f = (case r of Inl e \<Rightarrow> Inl e | Inr x \<Rightarrow> f x)"

lemma bindR_simps [simp]:
  "bindR (Inl e) f = Inl e" "bindR (Inr x) f = f x"
  by (simp_all add: bindR_def)

lemma bindR_eq_Inr [simp]: "bindR r f = Inr y \<longleftrightarrow> (\<exists>x. r = Inr x \<and> f x = Inr y)"
  by (cases r) auto

lemma bindR_eq_Inl: "bindR r f = Inl e \<longleftrightarrow> r = Inl e \<or> (\<exists>x. r = Inr x \<and> f x = Inl e)"
  by (cases r) auto

text \<open>\<open>if not cond: raise e\<close>.\<close>

definition guardR :: "bool \<Rightarrow> 'e \<Rightarrow> ('e, unit) result" where
  "guardR b e = (if b then Inr () else Inl e)"

lemma guardR_simps [simp]:
  "guardR True e = Inr ()" "guardR False e = Inl e"
  "guardR b e = Inr u \<longleftrightarrow> b" "guardR b e = Inl e' \<longleftrightarrow> \<not> b \<and> e' = e"
  by (auto simp: guardR_def)

primrec mapR :: "('a \<Rightarrow> ('e, 'b) result) \<Rightarrow> 'a list \<Rightarrow> ('e, 'b list) result" where
  "mapR f [] = Inr []"
| "mapR f (x # xs) = bindR (f x) (\<lambda>y. bindR (mapR f xs) (\<lambda>ys. Inr (y # ys)))"

lemma mapR_Inr: "mapR f xs = Inr ys \<Longrightarrow> list_all2 (\<lambda>x y. f x = Inr y) xs ys"
  by (induction xs arbitrary: ys) auto

lemma mapR_InrI: "(\<And>x. x \<in> set xs \<Longrightarrow> f x = Inr (g x)) \<Longrightarrow> mapR f xs = Inr (map g xs)"
  by (induction xs) auto

lemma mapR_length: "mapR f xs = Inr ys \<Longrightarrow> length ys = length xs"
  using mapR_Inr list_all2_lengthD by metis

text \<open>\<open>except E as exc: raise F from exc\<close>: exceptions renamed, values kept.\<close>

definition mapE :: "('e \<Rightarrow> 'f) \<Rightarrow> ('e, 'a) result \<Rightarrow> ('f, 'a) result" where
  "mapE h r = (case r of Inl e \<Rightarrow> Inl (h e) | Inr x \<Rightarrow> Inr x)"

lemma mapE_simps [simp]:
  "mapE h (Inl e) = Inl (h e)" "mapE h (Inr x) = Inr x"
  "mapE h r = Inr y \<longleftrightarrow> r = Inr y" "mapE h r = Inl f \<longleftrightarrow> (\<exists>e. r = Inl e \<and> f = h e)"
  by (auto simp: mapE_def split: sum.splits)

lemma mapR_map: "mapR f (map g xs) = mapR (\<lambda>x. f (g x)) xs"
  by (induction xs) auto

section \<open>Stateful code that may raise\<close>

text \<open>
  A method that mutates an object of state \<open>'s\<close> and returns an \<open>'a\<close> or raises an \<open>'e\<close>. The
  state is returned in both cases: what was mutated before the raise stays mutated, as in Python.
\<close>

type_synonym ('s, 'e, 'a) sem = "'s \<Rightarrow> ('e + 'a) \<times> 's"

definition retM :: "'a \<Rightarrow> ('s, 'e, 'a) sem" where
  "retM x = (\<lambda>s. (Inr x, s))"

definition raiseM :: "'e \<Rightarrow> ('s, 'e, 'a) sem" where
  "raiseM e = (\<lambda>s. (Inl e, s))"

definition bindM :: "('s, 'e, 'a) sem \<Rightarrow> ('a \<Rightarrow> ('s, 'e, 'b) sem) \<Rightarrow> ('s, 'e, 'b) sem" where
  "bindM m f = (\<lambda>s. case m s of (Inl e, s') \<Rightarrow> (Inl e, s') | (Inr x, s') \<Rightarrow> f x s')"

definition seqM :: "('s, 'e, unit) sem \<Rightarrow> ('s, 'e, 'b) sem \<Rightarrow> ('s, 'e, 'b) sem" where
  "seqM m k = bindM m (\<lambda>_. k)"

definition getM :: "('s \<Rightarrow> 'a) \<Rightarrow> ('s, 'e, 'a) sem" where
  "getM f = (\<lambda>s. (Inr (f s), s))"

definition modM :: "('s \<Rightarrow> 's) \<Rightarrow> ('s, 'e, unit) sem" where
  "modM f = (\<lambda>s. (Inr (), f s))"

definition liftR :: "('e, 'a) result \<Rightarrow> ('s, 'e, 'a) sem" where
  "liftR r = (\<lambda>s. (r, s))"

definition guardM :: "bool \<Rightarrow> 'e \<Rightarrow> ('s, 'e, unit) sem" where
  "guardM b e = (if b then retM () else raiseM e)"

definition whenM :: "bool \<Rightarrow> ('s, 'e, unit) sem \<Rightarrow> ('s, 'e, unit) sem" where
  "whenM b m = (if b then m else retM ())"

lemmas sem_defs [sem_simps] =
  retM_def raiseM_def bindM_def seqM_def getM_def modM_def liftR_def guardM_def whenM_def

subsection \<open>Triples\<close>

text \<open>
  \<open>tri E P m V Q\<close>: from a state with \<open>P\<close>, the code \<open>m\<close> either returns a value with \<open>V\<close> in a
  state with \<open>Q\<close>, or raises an exception \<open>e\<close> in a state with \<open>E e\<close>. The value is described by
  a predicate of its own, so that it is an ordinary fact for the rest of the code.
\<close>

definition tri ::
  "('e \<Rightarrow> 's \<Rightarrow> bool) \<Rightarrow> ('s \<Rightarrow> bool) \<Rightarrow> ('s, 'e, 'a) sem \<Rightarrow> ('a \<Rightarrow> bool) \<Rightarrow> ('s \<Rightarrow> bool) \<Rightarrow> bool" where
  "tri E P m V Q \<longleftrightarrow>
     (\<forall>s. P s \<longrightarrow> (case m s of (Inl e, s') \<Rightarrow> E e s' | (Inr x, s') \<Rightarrow> V x \<and> Q s'))"

lemma triI:
  "(\<And>s. P s \<Longrightarrow> case m s of (Inl e, s') \<Rightarrow> E e s' | (Inr x, s') \<Rightarrow> V x \<and> Q s') \<Longrightarrow> tri E P m V Q"
  by (simp add: tri_def)

lemma triD_Inr: "tri E P m V Q \<Longrightarrow> P s \<Longrightarrow> m s = (Inr x, s') \<Longrightarrow> V x \<and> Q s'"
  by (force simp: tri_def)

lemma triD_Inl: "tri E P m V Q \<Longrightarrow> P s \<Longrightarrow> m s = (Inl e, s') \<Longrightarrow> E e s'"
  by (force simp: tri_def)

lemma tri_bind:
  "tri E P m V Q \<Longrightarrow> (\<And>x. V x \<Longrightarrow> tri E Q (f x) U R) \<Longrightarrow> tri E P (bindM m f) U R"
  unfolding tri_def bindM_def by (fastforce split: prod.splits sum.splits)

lemma tri_seq:
  "tri E P m V Q \<Longrightarrow> tri E Q k U R \<Longrightarrow> tri E P (seqM m k) U R"
  unfolding seqM_def by (rule tri_bind)

lemma tri_conseq:
  "tri E P m V Q \<Longrightarrow> (\<And>s. P' s \<Longrightarrow> P s) \<Longrightarrow> (\<And>x. V x \<Longrightarrow> V' x) \<Longrightarrow> (\<And>s. Q s \<Longrightarrow> Q' s)
   \<Longrightarrow> (\<And>e s. E e s \<Longrightarrow> E' e s) \<Longrightarrow> tri E' P' m V' Q'"
  unfolding tri_def by (fastforce split: prod.splits sum.splits)

lemma tri_ret: "V x \<Longrightarrow> tri E P (retM x) V P"
  by (simp add: tri_def retM_def)

lemma tri_raise: "(\<And>s. P s \<Longrightarrow> E e s) \<Longrightarrow> tri E P (raiseM e) V Q"
  by (simp add: tri_def raiseM_def)

lemma tri_get: "(\<And>s. P s \<Longrightarrow> V (f s)) \<Longrightarrow> tri E P (getM f) V P"
  by (simp add: tri_def getM_def)

lemma tri_mod: "(\<And>s. P s \<Longrightarrow> Q (f s)) \<Longrightarrow> tri E P (modM f) (\<lambda>_. True) Q"
  by (simp add: tri_def modM_def)

lemma tri_lift:
  "(\<And>x. r = Inr x \<Longrightarrow> V x) \<Longrightarrow> (\<And>e s. r = Inl e \<Longrightarrow> P s \<Longrightarrow> E e s) \<Longrightarrow> tri E P (liftR r) V P"
  by (cases r) (auto simp: tri_def liftR_def)

lemma tri_guard:
  "(\<And>s. P s \<Longrightarrow> \<not> b \<Longrightarrow> E e s) \<Longrightarrow> tri E P (guardM b e) (\<lambda>_. b) P"
  by (cases b) (auto simp: tri_def guardM_def retM_def raiseM_def)

lemma tri_when:
  "(b \<Longrightarrow> tri E P m V P) \<Longrightarrow> tri E P (whenM b m) (\<lambda>_. True) P"
  by (cases b) (auto simp: whenM_def intro: tri_ret elim: tri_conseq)

lemma tri_if:
  "(b \<Longrightarrow> tri E P m V Q) \<Longrightarrow> (\<not> b \<Longrightarrow> tri E P k V Q) \<Longrightarrow> tri E P (if b then m else k) V Q"
  by simp

text \<open>The same with a postcondition that relates value and state.\<close>

definition trd ::
  "('e \<Rightarrow> 's \<Rightarrow> bool) \<Rightarrow> ('s \<Rightarrow> bool) \<Rightarrow> ('s, 'e, 'a) sem \<Rightarrow> ('a \<Rightarrow> 's \<Rightarrow> bool) \<Rightarrow> bool" where
  "trd E P m R \<longleftrightarrow> (\<forall>s. P s \<longrightarrow> (case m s of (Inl e, s') \<Rightarrow> E e s' | (Inr x, s') \<Rightarrow> R x s'))"

lemma trd_bind: "tri E P m V Q \<Longrightarrow> (\<And>x. V x \<Longrightarrow> trd E Q (f x) R) \<Longrightarrow> trd E P (bindM m f) R"
  unfolding tri_def trd_def bindM_def by (fastforce split: prod.splits sum.splits)

lemma trd_seq: "tri E P m V Q \<Longrightarrow> trd E Q k R \<Longrightarrow> trd E P (seqM m k) R"
  unfolding seqM_def by (rule trd_bind)

lemma tri_bind_trd: "trd E P m R \<Longrightarrow> (\<And>x. tri E (R x) (f x) U Q) \<Longrightarrow> tri E P (bindM m f) U Q"
  unfolding tri_def trd_def bindM_def by (fastforce split: prod.splits sum.splits)

lemma trd_ret: "(\<And>s. P s \<Longrightarrow> R x s) \<Longrightarrow> trd E P (retM x) R"
  by (simp add: trd_def retM_def)

lemma trd_of_tri: "tri E P m V Q \<Longrightarrow> (\<And>x s. V x \<Longrightarrow> Q s \<Longrightarrow> R x s) \<Longrightarrow> trd E P m R"
  unfolding tri_def trd_def by (fastforce split: prod.splits sum.splits)

lemma trd_conseq:
  "trd E P m R \<Longrightarrow> (\<And>s. P' s \<Longrightarrow> P s) \<Longrightarrow> (\<And>x s. R x s \<Longrightarrow> R' x s) \<Longrightarrow> (\<And>e s. E e s \<Longrightarrow> E' e s) \<Longrightarrow> trd E' P' m R'"
  unfolding trd_def by (fastforce split: prod.splits sum.splits)

lemma trd_if: "(b \<Longrightarrow> trd E P m R) \<Longrightarrow> (\<not> b \<Longrightarrow> trd E P k R) \<Longrightarrow> trd E P (if b then m else k) R"
  by simp

section \<open>Dictionaries\<close>

text \<open>
  A Python \<open>dict\<close> keeps its keys in insertion order. It is modelled by an association list with
  distinct keys: assignment updates in place or appends, deletion removes. \<open>map_of\<close> is lookup.
\<close>

type_synonym ('k, 'v) dict = "('k \<times> 'v) list"

abbreviation dict_get :: "('k, 'v) dict \<Rightarrow> 'k \<Rightarrow> 'v option" where
  "dict_get d k \<equiv> map_of d k"

abbreviation dict_put :: "'k \<Rightarrow> 'v \<Rightarrow> ('k, 'v) dict \<Rightarrow> ('k, 'v) dict" where
  "dict_put \<equiv> AList.update"

abbreviation dict_pop :: "'k \<Rightarrow> ('k, 'v) dict \<Rightarrow> ('k, 'v) dict" where
  "dict_pop \<equiv> AList.delete"

abbreviation dict_wf :: "('k, 'v) dict \<Rightarrow> bool" where
  "dict_wf d \<equiv> distinct (map fst d)"

lemma dict_get_put [dict_simps]: "dict_get (dict_put k v d) = (dict_get d)(k \<mapsto> v)"
  by (rule update_conv')

lemma dict_get_pop [dict_simps]: "dict_get (dict_pop k d) = (dict_get d)(k := None)"
  by (rule delete_conv')

lemma dict_wf_put [simp]: "dict_wf d \<Longrightarrow> dict_wf (dict_put k v d)"
  by (rule distinct_update)

lemma dict_wf_pop [simp]: "dict_wf d \<Longrightarrow> dict_wf (dict_pop k d)"
  by (rule distinct_delete)

lemma dict_set_put: "dict_wf d \<Longrightarrow> set (dict_put k v d) = {(k, v)} \<union> {p \<in> set d. fst p \<noteq> k}"
  by (induction d) (auto, force+)

lemma dict_get_in: "dict_wf d \<Longrightarrow> dict_get d k = Some v \<longleftrightarrow> (k, v) \<in> set d"
  by simp

text \<open>Sums over the values of a dictionary.\<close>

definition dict_sum :: "('v \<Rightarrow> int) \<Rightarrow> ('k, 'v) dict \<Rightarrow> int" where
  "dict_sum f d = sum_list (map (\<lambda>(k, v). f v) d)"

lemma dict_sum_simps [simp]:
  "dict_sum f [] = 0" "dict_sum f ((k, v) # d) = f v + dict_sum f d"
  by (simp_all add: dict_sum_def)

lemma dict_sum_put:
  "dict_sum f (dict_put k v d) = dict_sum f d + f v - (case dict_get d k of None \<Rightarrow> 0 | Some w \<Rightarrow> f w)"
  by (induction d) auto

lemma dict_sum_nonneg: "(\<And>k v. (k, v) \<in> set d \<Longrightarrow> 0 \<le> f v) \<Longrightarrow> 0 \<le> dict_sum f d"
  by (induction d) (auto, fastforce)

lemma dict_sum_ge:
  "(\<And>k v. (k, v) \<in> set d \<Longrightarrow> 0 \<le> f v) \<Longrightarrow> dict_get d k = Some v \<Longrightarrow> f v \<le> dict_sum f d"
proof (induction d)
  case (Cons p d)
  have nonneg: "0 \<le> dict_sum f d"
    using Cons.prems(1) by (intro dict_sum_nonneg) auto
  show ?case
  proof (cases "fst p = k")
    case True
    with Cons.prems(2) nonneg show ?thesis by (cases p) auto
  next
    case False
    with Cons.prems(2) have "dict_get d k = Some v" by (cases p) auto
    then have "f v \<le> dict_sum f d" using Cons.IH Cons.prems(1) by auto
    moreover have "0 \<le> f (snd p)" using Cons.prems(1)[of "fst p" "snd p"] by simp
    ultimately show ?thesis by (cases p) auto
  qed
qed simp

lemma dict_sum_ge2:
  assumes nonneg: "\<And>k v. (k, v) \<in> set d \<Longrightarrow> 0 \<le> f v"
    and "dict_get d k = Some v" "dict_get d l = Some w" "k \<noteq> l"
  shows "f v + f w \<le> dict_sum f d"
  using assms
proof (induction d)
  case (Cons p d)
  obtain a b where p: "p = (a, b)" by (cases p)
  have nn: "\<And>k v. (k, v) \<in> set d \<Longrightarrow> 0 \<le> f v"
    using Cons.prems(1) p by auto
  have nb: "0 \<le> f b"
    using Cons.prems(1)[of a b] p by simp
  consider "a = k" | "a = l" | "a \<noteq> k" "a \<noteq> l" by blast
  then show ?case
  proof cases
    case 1
    then have "b = v" "dict_get d l = Some w" using Cons.prems p by auto
    with dict_sum_ge[OF nn] p show ?thesis by fastforce
  next
    case 2
    then have "b = w" "dict_get d k = Some v" using Cons.prems p by auto
    with dict_sum_ge[OF nn] p show ?thesis by fastforce
  next
    case 3
    then have "dict_get d k = Some v" "dict_get d l = Some w" using Cons.prems p by auto
    then have "f v + f w \<le> dict_sum f d" using Cons.IH nn Cons.prems(4) by blast
    with p nb show ?thesis by simp
  qed
qed simp

lemma dict_sum_mono_filter: "dict_sum f (filter P d) = dict_sum f d - dict_sum f (filter (\<lambda>p. \<not> P p) d)"
  by (induction d) auto

section \<open>Byte strings\<close>

type_synonym byte = "8 word"
type_synonym bytes = "byte list"

text \<open>\<open>int.from_bytes(bs, byteorder="big", signed=False)\<close>.\<close>

definition be_int :: "bytes \<Rightarrow> int" where
  "be_int bs = foldl (\<lambda>acc b. acc * 256 + uint b) 0 bs"

text \<open>\<open>v.to_bytes(n, byteorder="big", signed=False)\<close> for \<open>0 \<le> v < 256 ^ n\<close>.\<close>

primrec be_bytes :: "nat \<Rightarrow> int \<Rightarrow> bytes" where
  "be_bytes 0 v = []"
| "be_bytes (Suc n) v = be_bytes n (v div 256) @ [word_of_int v]"

text \<open>\<open>int.bit_length\<close>.\<close>

fun bit_length :: "int \<Rightarrow> nat" where
  "bit_length v = (if v = 0 then 0 else Suc (bit_length (\<bar>v\<bar> div 2)))"

declare bit_length.simps [simp del]

text \<open>The number of bytes the callers pass to \<open>to_bytes\<close>: \<open>(v.bit_length() + 7) // 8\<close>.\<close>

definition byte_length :: "int \<Rightarrow> nat" where
  "byte_length v = (bit_length v + 7) div 8"

text \<open>Slices \<open>xs[i:j]\<close> with non-negative bounds.\<close>

definition slice :: "'a list \<Rightarrow> int \<Rightarrow> int \<Rightarrow> 'a list" where
  "slice xs i j = take (nat j - nat i) (drop (nat i) xs)"

lemma length_slice: "length (slice xs i j) = min (nat j - nat i) (length xs - nat i)"
  by (simp add: slice_def min.commute)

lemma be_int_Nil [simp]: "be_int [] = 0"
  by (simp add: be_int_def)

lemma be_int_snoc [simp]: "be_int (bs @ [b]) = be_int bs * 256 + uint b"
  by (simp add: be_int_def)

lemma be_int_nonneg [simp]: "0 \<le> be_int bs"
  by (induction bs rule: rev_induct) auto

lemma uint_byte_lt: "uint (b :: byte) < 256"
  using uint_lt2p[of b] by simp

lemma be_int_bound: "be_int bs < 256 ^ length bs"
proof (induction bs rule: rev_induct)
  case (snoc b bs)
  have "be_int bs * 256 + uint b < (be_int bs + 1) * 256"
    using uint_byte_lt[of b] by simp
  also have "\<dots> \<le> 256 ^ length bs * 256"
    using snoc by simp
  finally show ?case by simp
qed simp

lemma be_bytes_length [simp]: "length (be_bytes n v) = n"
  by (induction n arbitrary: v) auto

lemma uint_word_of_int_byte: "uint (word_of_int v :: byte) = v mod 256"
  by (simp add: uint_word_of_int)

lemma be_int_be_bytes: "be_int (be_bytes n v) = v mod 256 ^ n"
proof (induction n arbitrary: v)
  case (Suc n)
  have "v mod (256 * 256 ^ n) = 256 * (v div 256 mod 256 ^ n) + v mod 256"
    by (rule zmod_zmult2_eq) simp
  then show ?case by (simp add: Suc uint_word_of_int_byte)
qed simp

lemma be_int_be_bytes_id: "0 \<le> v \<Longrightarrow> v < 256 ^ n \<Longrightarrow> be_int (be_bytes n v) = v"
  by (simp add: be_int_be_bytes)

lemma be_bytes_be_int: "be_bytes (length bs) (be_int bs) = bs"
proof (induction bs rule: rev_induct)
  case (snoc b bs)
  have "(be_int bs * 256 + uint b) div 256 = be_int bs"
    using uint_byte_lt[of b] by simp
  moreover have "(word_of_int (be_int bs * 256 + uint b) :: byte) = b"
  proof -
    have "uint (word_of_int (be_int bs * 256 + uint b) :: byte) = uint b"
      using uint_byte_lt[of b] by (simp only: uint_word_of_int_byte) simp
    then show ?thesis by (simp only: word_uint_eq_iff)
  qed
  ultimately show ?case by (simp add: snoc)
qed simp

lemma be_int_append: "be_int (as @ bs) = be_int as * 256 ^ length bs + be_int bs"
  by (induction bs rule: rev_induct) (simp_all add: append_assoc[symmetric] algebra_simps del: append_assoc)

lemma be_int_Cons: "be_int (b # bs) = uint b * 256 ^ length bs + be_int bs"
  using be_int_append[of "[b]" bs] by (simp add: be_int_def)

lemma be_int_inj: "length as = length bs \<Longrightarrow> be_int as = be_int bs \<Longrightarrow> as = bs"
  by (metis be_bytes_be_int)

subsection \<open>Bit lengths\<close>

lemma bit_length_pos: "0 < v \<Longrightarrow> bit_length v = Suc (bit_length (v div 2))"
  by (subst bit_length.simps) simp

lemma bit_length_zero [simp]: "bit_length 0 = 0"
  by (subst bit_length.simps) simp

lemma bit_length_upper: "0 \<le> v \<Longrightarrow> v < 2 ^ bit_length v"
proof (induction "nat v" arbitrary: v rule: less_induct)
  case less
  show ?case
  proof (cases "v = 0")
    case False
    with less.prems have pos: "0 < v" by simp
    then have "v div 2 < 2 ^ bit_length (v div 2)"
      by (intro less.hyps) auto
    with pos show ?thesis by (simp add: bit_length_pos)
  qed simp
qed

lemma bit_length_lower: "0 < v \<Longrightarrow> 2 ^ (bit_length v - 1) \<le> v"
proof (induction "nat v" arbitrary: v rule: less_induct)
  case less
  show ?case
  proof (cases "v div 2 = 0")
    case True
    with less.prems show ?thesis by (simp add: bit_length_pos)
  next
    case False
    with less.prems have pos: "0 < v div 2" by linarith
    then have "2 ^ (bit_length (v div 2) - 1) \<le> v div 2"
      using less.prems by (intro less.hyps) auto
    moreover obtain k where "bit_length (v div 2) = Suc k"
      using pos by (metis bit_length_pos)
    ultimately show ?thesis using less.prems by (simp add: bit_length_pos)
  qed
qed

lemma byte_length_upper: "0 \<le> v \<Longrightarrow> v < 256 ^ byte_length v"
proof -
  assume v: "0 \<le> v"
  have "bit_length v \<le> 8 * byte_length v"
    by (simp add: byte_length_def)
  then have "(2::int) ^ bit_length v \<le> 2 ^ (8 * byte_length v)"
    by (rule power_increasing) simp
  also have "\<dots> = 256 ^ byte_length v"
    by (simp add: power_mult)
  finally show ?thesis using bit_length_upper[OF v] by simp
qed

lemma byte_length_lower: "0 < v \<Longrightarrow> 256 ^ (byte_length v - 1) \<le> v"
proof -
  assume v: "0 < v"
  then have pos: "0 < bit_length v" by (simp add: bit_length_pos)
  then have "8 * (byte_length v - 1) \<le> bit_length v - 1"
    by (simp add: byte_length_def)
  then have "(2::int) ^ (8 * (byte_length v - 1)) \<le> 2 ^ (bit_length v - 1)"
    by (rule power_increasing) simp
  also have "\<dots> \<le> v" by (rule bit_length_lower[OF v])
  finally show ?thesis by (simp add: power_mult)
qed

lemma byte_length_zero [simp]: "byte_length 0 = 0"
  by (simp add: byte_length_def)

lemma byte_length_pos: "0 < v \<Longrightarrow> 0 < byte_length v"
  by (simp add: byte_length_def bit_length_pos)

lemma byte_length_le: "0 \<le> v \<Longrightarrow> v < 256 ^ n \<Longrightarrow> byte_length v \<le> n"
proof (rule ccontr)
  assume v: "0 \<le> v" "v < 256 ^ n" and "\<not> byte_length v \<le> n"
  then have n: "n \<le> byte_length v - 1" and pos: "0 < v"
    by (cases "v = 0"; simp)+
  have "(256::int) ^ n \<le> 256 ^ (byte_length v - 1)"
    using n by (rule power_increasing) simp
  also have "\<dots> \<le> v" by (rule byte_length_lower[OF pos])
  finally show False using v by simp
qed

lemma byte_length_eq:
  assumes "256 ^ n \<le> v" "v < 256 ^ Suc n"
  shows "byte_length v = Suc n"
proof -
  have pos: "0 < v" using assms(1) by (smt (verit) zero_less_power)
  have "byte_length v \<le> Suc n" using assms(2) pos by (intro byte_length_le) auto
  moreover have "\<not> byte_length v \<le> n"
  proof
    assume "byte_length v \<le> n"
    then have "(256::int) ^ byte_length v \<le> 256 ^ n" by (rule power_increasing) simp
    with byte_length_upper[of v] pos assms(1) show False by simp
  qed
  ultimately show ?thesis by simp
qed

lemma byte_length_be_int:
  assumes "bs \<noteq> []" "hd bs \<noteq> 0"
  shows "byte_length (be_int bs) = length bs"
proof -
  obtain b cs where bs: "bs = b # cs" using assms(1) by (cases bs) auto
  have "uint b \<noteq> 0" using assms(2) bs by (simp add: uint_0_iff)
  then have "1 \<le> uint b" using uint_ge_0[of b] by linarith
  then have "256 ^ length cs \<le> uint b * 256 ^ length cs"
    using mult_right_mono[of 1 "uint b" "256 ^ length cs"] by simp
  then have "256 ^ length cs \<le> be_int bs"
    using be_int_nonneg[of cs] unfolding bs be_int_Cons by linarith
  moreover have "be_int bs < 256 ^ Suc (length cs)"
    using be_int_bound[of bs] bs by simp
  ultimately show ?thesis using bs byte_length_eq by auto
qed

text \<open>A minimal big-endian encoding has no leading zero byte.\<close>

lemma hd_be_bytes_minimal:
  assumes "0 < v"
  shows "hd (be_bytes (byte_length v) v) \<noteq> 0"
proof
  let ?n = "byte_length v"
  assume hd0: "hd (be_bytes ?n v) = 0"
  obtain m where m: "?n = Suc m" using byte_length_pos[OF assms] by (cases ?n) auto
  obtain cs where cs: "be_bytes ?n v = 0 # cs"
    using hd0 m by (cases "be_bytes ?n v") (auto simp del: be_bytes.simps dest: arg_cong[of _ _ length])
  then have "length cs = m" using m be_bytes_length[of ?n v] by simp
  have "v = be_int (be_bytes ?n v)"
    using assms byte_length_upper[of v] by (simp add: be_int_be_bytes_id)
  also have "\<dots> = be_int cs" using cs by (simp add: be_int_Cons)
  also have "\<dots> < 256 ^ m" using be_int_bound[of cs] \<open>length cs = m\<close> by simp
  finally show False using byte_length_lower[OF assms] m by simp
qed

section \<open>Masks\<close>

lemma and_mask_int: "(v::int) AND (2 ^ n - 1) = v mod 2 ^ n"
  by (simp add: mask_eq_exp_minus_1[symmetric] take_bit_eq_mask[symmetric] take_bit_eq_mod)

end
