(* ===== verification/Primitives.thy ===== *)
theory Primitives
  imports Prelude
begin

text \<open>
  The crate \<open>primitives\<close> (\<open>primitives/types.py\<close>). A \<open>U256\<close> holds an integer in \<open>[0, 2^256)\<close>
  and is a \<open>256 word\<close>, whose \<open>uint\<close> is \<open>_value\<close>; every operation is written on Python's unbounded
  integers, as in the code, with \<open>_wrap\<close> (mask, then construct) or the checking constructor at the
  end. \<open>Address\<close> and \<open>Hash\<close> are byte strings of length 20 and 32, read big-endian as words.
  The lemmas relate each operation to the word operation and give the byte and hex round trips.
\<close>

section \<open>Unsigned 256-bit integers\<close>

type_synonym u256 = "256 word"

definition U256_MODULUS :: int where
  "U256_MODULUS = push_bit 256 1"

definition U256_MAX_VALUE :: int where
  "U256_MAX_VALUE = U256_MODULUS - 1"

lemma U256_MODULUS_eq: "U256_MODULUS = 2 ^ 256"
  by (simp add: U256_MODULUS_def push_bit_eq_mult)

lemma U256_MAX_VALUE_eq: "U256_MAX_VALUE = 2 ^ 256 - 1"
  by (simp add: U256_MAX_VALUE_def U256_MODULUS_eq)

text \<open>The constructor with its range check (\<open>__post_init__\<close>).\<close>

definition mk_u256 :: "int \<Rightarrow> (py_error, u256) result" where
  "mk_u256 v = (if 0 \<le> v \<and> v \<le> U256_MAX_VALUE then Inr (word_of_int v) else Inl ValueError)"

definition u256_zero :: u256 where "u256_zero = 0"
definition u256_one :: u256 where "u256_one = 1"

definition u256_wrap :: "int \<Rightarrow> u256" where
  "u256_wrap v = word_of_int (v AND U256_MAX_VALUE)"

lemma mk_u256_uint: "mk_u256 v = Inr w \<Longrightarrow> uint w = v"
  by (auto simp: mk_u256_def U256_MAX_VALUE_eq uint_word_of_int split: if_splits)

lemma mk_u256_Inr_iff: "(\<exists>w. mk_u256 v = Inr w) \<longleftrightarrow> 0 \<le> v \<and> v < 2 ^ 256"
  by (auto simp: mk_u256_def U256_MAX_VALUE_eq)

lemma mk_u256_of_uint [simp]: "mk_u256 (uint w) = Inr w"
  using uint_lt2p[of w] by (simp add: mk_u256_def U256_MAX_VALUE_eq)

lemma U256_MAX_VALUE_mask: "U256_MAX_VALUE = mask 256"
  by (simp add: U256_MAX_VALUE_eq mask_eq_exp_minus_1)

lemma u256_wrap_eq: "u256_wrap v = word_of_int v"
  by (rule bit_word_eqI)
    (simp add: u256_wrap_def U256_MAX_VALUE_mask bit_word_of_int_iff bit_and_iff bit_mask_iff)

text \<open>
  \<open>_coerce_other\<close>: the right operand is a \<open>U256\<close>, a Python integer, or something else, for which
  it returns \<open>NotImplemented\<close> (\<open>None\<close> here; the operators then end in \<open>TypeError\<close>).
\<close>

datatype operand = OpU256 u256 | OpInt int | OpOther

fun coerce_other :: "operand \<Rightarrow> int option" where
  "coerce_other (OpU256 w) = Some (uint w)"
| "coerce_other (OpInt v) = Some v"
| "coerce_other OpOther = None"

definition with_other :: "operand \<Rightarrow> (int \<Rightarrow> (py_error, 'a) result) \<Rightarrow> (py_error, 'a) result" where
  "with_other y f = (case coerce_other y of None \<Rightarrow> Inl TypeError | Some v \<Rightarrow> f v)"

definition overflowing_add :: "u256 \<Rightarrow> operand \<Rightarrow> (py_error, u256 \<times> bool) result" where
  "overflowing_add x y = with_other y (\<lambda>v.
     let r = uint x + v in Inr (u256_wrap r, r > U256_MAX_VALUE))"

definition checked_add :: "u256 \<Rightarrow> operand \<Rightarrow> (py_error, u256) result" where
  "checked_add x y = bindR (overflowing_add x y) (\<lambda>(r, overflowed).
     if overflowed then Inl OverflowError else Inr r)"

definition overflowing_sub :: "u256 \<Rightarrow> operand \<Rightarrow> (py_error, u256 \<times> bool) result" where
  "overflowing_sub x y = with_other y (\<lambda>v.
     let r = uint x - v in Inr (u256_wrap r, r < 0))"

definition checked_sub :: "u256 \<Rightarrow> operand \<Rightarrow> (py_error, u256) result" where
  "checked_sub x y = bindR (overflowing_sub x y) (\<lambda>(r, overflowed).
     if overflowed then Inl OverflowError else Inr r)"

definition overflowing_mul :: "u256 \<Rightarrow> operand \<Rightarrow> (py_error, u256 \<times> bool) result" where
  "overflowing_mul x y = with_other y (\<lambda>v.
     let r = uint x * v in Inr (u256_wrap r, r > U256_MAX_VALUE))"

definition checked_mul :: "u256 \<Rightarrow> operand \<Rightarrow> (py_error, u256) result" where
  "checked_mul x y = bindR (overflowing_mul x y) (\<lambda>(r, overflowed).
     if overflowed then Inl OverflowError else Inr r)"

definition u256_add :: "u256 \<Rightarrow> operand \<Rightarrow> (py_error, u256) result" where
  "u256_add x y = with_other y (\<lambda>v. Inr (u256_wrap (uint x + v)))"

definition u256_sub :: "u256 \<Rightarrow> operand \<Rightarrow> (py_error, u256) result" where
  "u256_sub x y = with_other y (\<lambda>v. Inr (u256_wrap (uint x - v)))"

definition u256_rsub :: "u256 \<Rightarrow> operand \<Rightarrow> (py_error, u256) result" where
  "u256_rsub x y = with_other y (\<lambda>v. Inr (u256_wrap (v - uint x)))"

definition u256_mul :: "u256 \<Rightarrow> operand \<Rightarrow> (py_error, u256) result" where
  "u256_mul x y = with_other y (\<lambda>v. Inr (u256_wrap (uint x * v)))"

definition u256_floordiv :: "u256 \<Rightarrow> operand \<Rightarrow> (py_error, u256) result" where
  "u256_floordiv x y = with_other y (\<lambda>v.
     if v = 0 then Inl ZeroDivisionError else mk_u256 (uint x div v))"

definition u256_mod :: "u256 \<Rightarrow> operand \<Rightarrow> (py_error, u256) result" where
  "u256_mod x y = with_other y (\<lambda>v.
     if v = 0 then Inl ZeroDivisionError else mk_u256 (uint x mod v))"

definition u256_divmod :: "u256 \<Rightarrow> operand \<Rightarrow> (py_error, u256 \<times> u256) result" where
  "u256_divmod x y = with_other y (\<lambda>v.
     if v = 0 then Inl ZeroDivisionError
     else bindR (mk_u256 (uint x div v)) (\<lambda>q. bindR (mk_u256 (uint x mod v)) (\<lambda>r. Inr (q, r))))"

definition u256_and :: "u256 \<Rightarrow> operand \<Rightarrow> (py_error, u256) result" where
  "u256_and x y = with_other y (\<lambda>v. mk_u256 (uint x AND v))"

definition u256_or :: "u256 \<Rightarrow> operand \<Rightarrow> (py_error, u256) result" where
  "u256_or x y = with_other y (\<lambda>v. mk_u256 (uint x OR v))"

definition u256_xor :: "u256 \<Rightarrow> operand \<Rightarrow> (py_error, u256) result" where
  "u256_xor x y = with_other y (\<lambda>v. mk_u256 (uint x XOR v))"

definition u256_invert :: "u256 \<Rightarrow> (py_error, u256) result" where
  "u256_invert x = mk_u256 (U256_MAX_VALUE XOR uint x)"

text \<open>Shifts take a plain integer only.\<close>

definition u256_lshift :: "u256 \<Rightarrow> int \<Rightarrow> (py_error, u256) result" where
  "u256_lshift x k = (if k < 0 then Inl ValueError else Inr (u256_wrap (push_bit (nat k) (uint x))))"

definition u256_rshift :: "u256 \<Rightarrow> int \<Rightarrow> (py_error, u256) result" where
  "u256_rshift x k = (if k < 0 then Inl ValueError else mk_u256 (drop_bit (nat k) (uint x)))"

definition u256_lt :: "u256 \<Rightarrow> operand \<Rightarrow> (py_error, bool) result" where
  "u256_lt x y = with_other y (\<lambda>v. Inr (uint x < v))"

definition u256_le :: "u256 \<Rightarrow> operand \<Rightarrow> (py_error, bool) result" where
  "u256_le x y = with_other y (\<lambda>v. Inr (uint x \<le> v))"

definition u256_is_zero :: "u256 \<Rightarrow> bool" where
  "u256_is_zero x \<longleftrightarrow> uint x = 0"

subsection \<open>Agreement with the arithmetic of 256-bit words\<close>

lemma with_other_simps [simp]:
  "with_other (OpU256 w) f = f (uint w)" "with_other (OpInt v) f = f v"
  "with_other OpOther f = Inl TypeError"
  by (simp_all add: with_other_def)

lemma u256_ring_ops:
  "u256_add x (OpU256 y) = Inr (x + y)"
  "u256_sub x (OpU256 y) = Inr (x - y)"
  "u256_rsub x (OpU256 y) = Inr (y - x)"
  "u256_mul x (OpU256 y) = Inr (x * y)"
  by (simp_all add: u256_add_def u256_sub_def u256_rsub_def u256_mul_def u256_wrap_eq)

lemma mk_u256_word: "0 \<le> v \<Longrightarrow> v < 2 ^ 256 \<Longrightarrow> mk_u256 v = Inr (word_of_int v)"
  by (simp add: mk_u256_def U256_MAX_VALUE_eq)

lemma u256_div_mod_ops:
  assumes "y \<noteq> 0"
  shows "u256_floordiv x (OpU256 y) = Inr (x div y)" "u256_mod x (OpU256 y) = Inr (x mod y)"
proof -
  have "uint y \<noteq> 0" using assms by (simp add: uint_0_iff)
  moreover have "mk_u256 (uint x div uint y) = Inr (x div y)"
    using mk_u256_of_uint[of "x div y"] by (simp add: uint_div)
  moreover have "mk_u256 (uint x mod uint y) = Inr (x mod y)"
    using mk_u256_of_uint[of "x mod y"] by (simp add: uint_mod)
  ultimately show "u256_floordiv x (OpU256 y) = Inr (x div y)" "u256_mod x (OpU256 y) = Inr (x mod y)"
    by (simp_all add: u256_floordiv_def u256_mod_def)
qed

lemma u256_bit_ops:
  "u256_and x (OpU256 y) = Inr (x AND y)"
  "u256_or x (OpU256 y) = Inr (x OR y)"
  "u256_xor x (OpU256 y) = Inr (x XOR y)"
  using mk_u256_of_uint[of "x AND y"] mk_u256_of_uint[of "x OR y"] mk_u256_of_uint[of "x XOR y"]
  by (simp_all add: u256_and_def u256_or_def u256_xor_def uint_and uint_or uint_xor)

lemma u256_invert_op: "u256_invert x = Inr (NOT x)"
proof -
  have "uint (NOT x) = U256_MAX_VALUE XOR uint x"
  proof (rule bit_eqI)
    fix n
    show "bit (uint (NOT x)) n = bit (U256_MAX_VALUE XOR uint x) n"
      by (cases "n < 256")
        (auto simp: U256_MAX_VALUE_mask bit_xor_iff bit_mask_iff bit_uint_iff bit_not_iff)
  qed
  then show ?thesis using mk_u256_of_uint[of "NOT x"] by (simp add: u256_invert_def)
qed

lemma u256_shift_ops:
  assumes "0 \<le> k"
  shows "u256_lshift x k = Inr (push_bit (nat k) x)" "u256_rshift x k = Inr (drop_bit (nat k) x)"
proof -
  have "(word_of_int (push_bit n (uint x)) :: u256) = push_bit n x" for n
    by (rule bit_word_eqI) (auto simp: bit_word_of_int_iff bit_push_bit_iff bit_uint_iff)
  with assms show "u256_lshift x k = Inr (push_bit (nat k) x)"
    by (simp add: u256_lshift_def u256_wrap_eq)
  have "drop_bit n (uint x) = uint (drop_bit n x)" for n
    using uint_lt2p[of x] by (simp add: unsigned_drop_bit_eq take_bit_int_eq_self)
  with assms show "u256_rshift x k = Inr (drop_bit (nat k) x)"
    by (simp add: u256_rshift_def)
qed

text \<open>The checked operations succeed exactly when the mathematical result is representable.\<close>

lemma checked_add_int:
  assumes "0 \<le> v"
  shows "checked_add x (OpInt v) =
    (if uint x + v < 2 ^ 256 then Inr (word_of_int (uint x + v)) else Inl OverflowError)"
  by (simp add: checked_add_def overflowing_add_def u256_wrap_eq U256_MAX_VALUE_eq Let_def)

lemma checked_sub_int:
  assumes "0 \<le> v"
  shows "checked_sub x (OpInt v) =
    (if v \<le> uint x then Inr (word_of_int (uint x - v)) else Inl OverflowError)"
  by (simp add: checked_sub_def overflowing_sub_def u256_wrap_eq Let_def)

lemma checked_mul_int:
  assumes "0 \<le> v"
  shows "checked_mul x (OpInt v) =
    (if uint x * v < 2 ^ 256 then Inr (word_of_int (uint x * v)) else Inl OverflowError)"
  by (simp add: checked_mul_def overflowing_mul_def u256_wrap_eq U256_MAX_VALUE_eq Let_def)

section \<open>Byte conversions\<close>

datatype byteorder = BigEndian | LittleEndian | BadOrder

definition u256_from_bytes :: "bytes \<Rightarrow> byteorder \<Rightarrow> (py_error, u256) result" where
  "u256_from_bytes data ord =
     (if length data > 32 then Inl ValueError
      else case ord of
        BadOrder \<Rightarrow> Inl ValueError
      | BigEndian \<Rightarrow> mk_u256 (be_int data)
      | LittleEndian \<Rightarrow> mk_u256 (be_int (rev data)))"

definition u256_to_bytes :: "u256 \<Rightarrow> int \<Rightarrow> byteorder \<Rightarrow> (py_error, bytes) result" where
  "u256_to_bytes x len ord =
     (if len < 0 then Inl ValueError
      else if ord = BadOrder then Inl ValueError
      else if int (bit_length (uint x)) > len * 8 then Inl OverflowError
      else if ord = BigEndian then Inr (be_bytes (nat len) (uint x))
      else Inr (rev (be_bytes (nat len) (uint x))))"

definition u256_bytes32 :: "u256 \<Rightarrow> bytes" where
  "u256_bytes32 x = be_bytes 32 (uint x)"

lemma be_int_lt_u256: "length bs \<le> 32 \<Longrightarrow> be_int bs < 2 ^ 256"
proof -
  assume "length bs \<le> 32"
  then have "(256::int) ^ length bs \<le> 256 ^ 32" by (rule power_increasing) simp
  then show ?thesis using be_int_bound[of bs] by simp
qed

lemma uint_lt_of_bit_length:
  assumes "int (bit_length (uint x)) \<le> len * 8"
  shows "uint (x::u256) < 256 ^ nat len"
proof -
  have "bit_length (uint x) \<le> 8 * nat len" using assms by linarith
  then have "(2::int) ^ bit_length (uint x) \<le> 2 ^ (8 * nat len)" by (rule power_increasing) simp
  also have "\<dots> = 256 ^ nat len" by (simp add: power_mult)
  finally show ?thesis using bit_length_upper[of "uint x"] by simp
qed

lemma u256_bytes_roundtrip:
  assumes "u256_to_bytes x len ord = Inr bs" "len \<le> 32"
  shows "u256_from_bytes bs ord = Inr x"
proof -
  have fits: "uint x < 256 ^ nat len"
    using assms by (intro uint_lt_of_bit_length) (auto simp: u256_to_bytes_def split: if_splits)
  then have "be_int (be_bytes (nat len) (uint x)) = uint x"
    by (intro be_int_be_bytes_id) auto
  with assms show ?thesis
    by (cases ord) (auto simp: u256_to_bytes_def u256_from_bytes_def split: if_splits)
qed

lemma u256_to_bytes_32: "u256_to_bytes x 32 BigEndian = Inr (u256_bytes32 x)"
proof -
  have "bit_length (uint x) \<le> 256"
  proof (rule ccontr)
    assume "\<not> bit_length (uint x) \<le> 256"
    then have "256 \<le> bit_length (uint x) - 1" and "0 < uint x"
      by (auto simp: not_le intro: ccontr) (metis bit_length_zero not_less_zero order_le_imp_less_or_eq uint_ge_0)
    then have "(2::int) ^ 256 \<le> 2 ^ (bit_length (uint x) - 1)"
      by (intro power_increasing) auto
    with bit_length_lower[OF \<open>0 < uint x\<close>] uint_lt2p[of x] show False by simp
  qed
  then show ?thesis by (simp add: u256_to_bytes_def u256_bytes32_def)
qed

section \<open>Addresses and hashes\<close>

type_synonym address = "160 word"
type_synonym hash = "256 word"

definition ADDRESS_SIZE :: nat where "ADDRESS_SIZE = 20"
definition HASH_SIZE :: nat where "HASH_SIZE = 32"

definition mk_address :: "bytes \<Rightarrow> (py_error, address) result" where
  "mk_address raw = (if length raw \<noteq> ADDRESS_SIZE then Inl ValueError else Inr (word_of_int (be_int raw)))"

definition address_bytes :: "address \<Rightarrow> bytes" where
  "address_bytes a = be_bytes ADDRESS_SIZE (uint a)"

definition mk_hash :: "bytes \<Rightarrow> (py_error, hash) result" where
  "mk_hash raw = (if length raw \<noteq> HASH_SIZE then Inl ValueError else Inr (word_of_int (be_int raw)))"

definition hash_bytes :: "hash \<Rightarrow> bytes" where
  "hash_bytes h = be_bytes HASH_SIZE (uint h)"

lemma address_bytes_length [simp]: "length (address_bytes a) = 20"
  by (simp add: address_bytes_def ADDRESS_SIZE_def)

lemma hash_bytes_length [simp]: "length (hash_bytes h) = 32"
  by (simp add: hash_bytes_def HASH_SIZE_def)

lemma uint_address_lt: "uint (a::address) < 256 ^ 20"
  using uint_lt2p[of a] by simp

lemma uint_hash_lt: "uint (h::hash) < 256 ^ 32"
  using uint_lt2p[of h] by simp

lemma mk_address_bytes [simp]: "mk_address (address_bytes a) = Inr a"
  using uint_address_lt[of a] by (simp add: mk_address_def address_bytes_def ADDRESS_SIZE_def be_int_be_bytes_id)

lemma mk_hash_bytes [simp]: "mk_hash (hash_bytes h) = Inr h"
  using uint_hash_lt[of h] by (simp add: mk_hash_def hash_bytes_def HASH_SIZE_def be_int_be_bytes_id)

lemma address_bytes_mk: "mk_address raw = Inr a \<Longrightarrow> address_bytes a = raw"
proof -
  assume "mk_address raw = Inr a"
  then have len: "length raw = 20" and a: "a = word_of_int (be_int raw)"
    by (auto simp: mk_address_def ADDRESS_SIZE_def split: if_splits)
  have "uint a = be_int raw"
    using be_int_bound[of raw] len by (simp add: a uint_word_of_int)
  then show ?thesis using be_bytes_be_int[of raw] len by (simp add: address_bytes_def ADDRESS_SIZE_def)
qed

lemma hash_bytes_mk: "mk_hash raw = Inr h \<Longrightarrow> hash_bytes h = raw"
proof -
  assume "mk_hash raw = Inr h"
  then have len: "length raw = 32" and h: "h = word_of_int (be_int raw)"
    by (auto simp: mk_hash_def HASH_SIZE_def split: if_splits)
  have "uint h = be_int raw"
    using be_int_bound[of raw] len by (simp add: h uint_word_of_int)
  then show ?thesis using be_bytes_be_int[of raw] len by (simp add: hash_bytes_def HASH_SIZE_def)
qed

lemma address_bytes_inj: "address_bytes a = address_bytes b \<longleftrightarrow> a = b"
  by (metis mk_address_bytes sum.inject(2))

subsection \<open>Hexadecimal\<close>

definition hex_char :: "int \<Rightarrow> char" where
  "hex_char d = ''0123456789abcdef'' ! nat d"

definition hex_value :: "char \<Rightarrow> int option" where
  "hex_value c = map_of (zip ''0123456789abcdefABCDEF''
     [0,1,2,3,4,5,6,7,8,9,10,11,12,13,14,15,10,11,12,13,14,15]) c"

fun bytes_hex :: "bytes \<Rightarrow> string" where
  "bytes_hex [] = ''''"
| "bytes_hex (b # bs) = hex_char (uint b div 16) # hex_char (uint b mod 16) # bytes_hex bs"

fun bytes_fromhex :: "string \<Rightarrow> (py_error, bytes) result" where
  "bytes_fromhex [] = Inr []"
| "bytes_fromhex [c] = Inl ValueError"
| "bytes_fromhex (c # d # cs) =
     (case (hex_value c, hex_value d) of
        (Some h, Some l) \<Rightarrow> bindR (bytes_fromhex cs) (\<lambda>bs. Inr (word_of_int (16 * h + l) # bs))
      | _ \<Rightarrow> Inl ValueError)"

definition strip_0x :: "string \<Rightarrow> string" where
  "strip_0x s = (if take 2 s \<in> {''0x'', ''0X''} then drop 2 s else s)"

definition to_hex :: "bytes \<Rightarrow> bool \<Rightarrow> string" where
  "to_hex raw pfx = (if pfx then ''0x'' @ bytes_hex raw else bytes_hex raw)"

definition address_from_hex :: "string \<Rightarrow> (py_error, address) result" where
  "address_from_hex s =
     (let normalized = strip_0x s in
      if length normalized \<noteq> 2 * ADDRESS_SIZE then Inl ValueError
      else bindR (bytes_fromhex normalized) mk_address)"

definition hash_from_hex :: "string \<Rightarrow> (py_error, hash) result" where
  "hash_from_hex s =
     (let normalized = strip_0x s in
      if length normalized \<noteq> 2 * HASH_SIZE then Inl ValueError
      else bindR (bytes_fromhex normalized) mk_hash)"

definition u256_to_hex :: "u256 \<Rightarrow> bool \<Rightarrow> string" where
  "u256_to_hex x pfx = to_hex (u256_bytes32 x) pfx"

lemma hex_value_char: "0 \<le> d \<Longrightarrow> d < 16 \<Longrightarrow> hex_value (hex_char d) = Some d"
proof -
  assume "0 \<le> d" "d < 16"
  then have "d \<in> {0,1,2,3,4,5,6,7,8,9,10,11,12,13,14,15}"
    by (simp only: insert_iff empty_iff) presburger
  then show ?thesis by (auto simp: hex_value_def hex_char_def)
qed

lemma bytes_fromhex_hex: "bytes_fromhex (bytes_hex bs) = Inr bs"
proof (induction bs)
  case (Cons b bs)
  have "hex_value (hex_char (uint b div 16)) = Some (uint b div 16)"
    and "hex_value (hex_char (uint b mod 16)) = Some (uint b mod 16)"
    using uint_byte_lt[of b] by (auto intro!: hex_value_char div_int_pos_iff[THEN iffD2])
  with Cons show ?case by simp
qed simp

lemma length_bytes_hex [simp]: "length (bytes_hex bs) = 2 * length bs"
  by (induction bs) auto

lemma hex_char_not_x: "0 \<le> d \<Longrightarrow> d < 16 \<Longrightarrow> hex_char d \<notin> {CHR ''x'', CHR ''X''}"
  using hex_value_char[of d] by (auto simp: hex_value_def)

lemma strip_0x_bytes_hex [simp]: "strip_0x (bytes_hex bs) = bytes_hex bs"
proof (cases bs)
  case (Cons b cs)
  have "hex_char (uint b mod 16) \<notin> {CHR ''x'', CHR ''X''}"
    by (rule hex_char_not_x) auto
  with Cons show ?thesis by (auto simp: strip_0x_def)
qed (simp add: strip_0x_def)

lemma strip_0x_to_hex [simp]: "strip_0x (to_hex bs pfx) = bytes_hex bs"
  by (cases pfx) (simp_all add: to_hex_def, simp add: strip_0x_def)

lemma address_hex_roundtrip: "address_from_hex (to_hex (address_bytes a) pfx) = Inr a"
  by (simp add: address_from_hex_def ADDRESS_SIZE_def bytes_fromhex_hex)

lemma hash_hex_roundtrip: "hash_from_hex (to_hex (hash_bytes h) pfx) = Inr h"
  by (simp add: hash_from_hex_def HASH_SIZE_def bytes_fromhex_hex)

end
