(* ===== verification/Rlp.thy ===== *)
theory Rlp
  imports Primitives
begin

text \<open>
  The crate \<open>encoding\<close> (\<open>encoding/rlp.py\<close>): recursive length prefix encoding of Python objects and
  the strict decoder. The decoder is a mutually recursive total function on offsets into the
  payload, terminating because every decoded item ends behind its start. The section on the round
  trip shows what the pair of functions guarantees: a decoded payload is the encoding of its value
  (the encoding is canonical), and the encoding of a value decodes to it except when some node of
  the value has a payload of exactly 55 bytes, where the decoder rejects the encoder's output.
\<close>

section \<open>Values and errors\<close>

text \<open>\<open>RlpValue\<close>: what the decoder returns.\<close>

datatype rlp = RBytes bytes | RList "rlp list"

text \<open>What \<open>encode\<close> accepts; a string is its code points, \<open>ObjIntLike\<close> has an \<open>__int__\<close> method.\<close>

datatype rlp_obj =
    ObjBool bool | ObjStr "int list" | ObjBytes bytes | ObjInt int
  | ObjList "rlp_obj list" | ObjIntLike int | ObjOther

datatype rlp_error = RlpDecodingError

section \<open>Encoder\<close>

definition big_endian_length :: "nat \<Rightarrow> bytes" where
  "big_endian_length value =
     (if value = 0 then [0] else be_bytes (byte_length (int value)) (int value))"

definition rlp_encode_bytes :: "bytes \<Rightarrow> bytes" where
  "rlp_encode_bytes payload =
     (let len = length payload in
      if len = 1 \<and> uint (payload ! 0) < 0x80 then payload
      else if len \<le> 55 then [word_of_int (0x80 + int len)] @ payload
      else let length_bytes = big_endian_length len in
        [word_of_int (0xB7 + int (length length_bytes))] @ length_bytes @ payload)"

definition rlp_encode_int :: "int \<Rightarrow> (py_error, bytes) result" where
  "rlp_encode_int value =
     (if value < 0 then Inl ValueError
      else if value = 0 then Inr (rlp_encode_bytes [])
      else Inr (rlp_encode_bytes (be_bytes (byte_length value) value)))"

definition rlp_wrap_list :: "bytes \<Rightarrow> bytes" where
  "rlp_wrap_list payload =
     (let len = length payload in
      if len \<le> 55 then [word_of_int (0xC0 + int len)] @ payload
      else let length_bytes = big_endian_length len in
        [word_of_int (0xF7 + int (length length_bytes))] @ length_bytes @ payload)"

text \<open>\<open>str.encode("utf-8")\<close> of one code point; surrogates raise \<open>UnicodeEncodeError\<close>.\<close>

definition utf8_char :: "int \<Rightarrow> (py_error, bytes) result" where
  "utf8_char c =
     (if c < 0x80 then Inr [word_of_int c]
      else if c < 0x800 then Inr [word_of_int (0xC0 + c div 64), word_of_int (0x80 + c mod 64)]
      else if 0xD800 \<le> c \<and> c < 0xE000 then Inl ValueError
      else if c < 0x10000 then
        Inr [word_of_int (0xE0 + c div 4096), word_of_int (0x80 + c div 64 mod 64), word_of_int (0x80 + c mod 64)]
      else Inr [word_of_int (0xF0 + c div 262144), word_of_int (0x80 + c div 4096 mod 64),
             word_of_int (0x80 + c div 64 mod 64), word_of_int (0x80 + c mod 64)])"

definition utf8_encode :: "int list \<Rightarrow> (py_error, bytes) result" where
  "utf8_encode cs = bindR (mapR utf8_char cs) (\<lambda>bss. Inr (concat bss))"

fun rlp_encode :: "rlp_obj \<Rightarrow> (py_error, bytes) result"
  and rlp_encode_items :: "rlp_obj list \<Rightarrow> (py_error, bytes) result" where
  "rlp_encode (ObjBool b) = Inl TypeError"
| "rlp_encode (ObjStr s) = bindR (utf8_encode s) (\<lambda>bs. Inr (rlp_encode_bytes bs))"
| "rlp_encode (ObjBytes bs) = Inr (rlp_encode_bytes bs)"
| "rlp_encode (ObjInt v) = rlp_encode_int v"
| "rlp_encode (ObjList xs) = bindR (rlp_encode_items xs) (\<lambda>payload. Inr (rlp_wrap_list payload))"
| "rlp_encode (ObjIntLike v) = rlp_encode_int v"
| "rlp_encode ObjOther = Inl TypeError"
| "rlp_encode_items [] = Inr []"
| "rlp_encode_items (x # xs) =
     bindR (rlp_encode x) (\<lambda>a. bindR (rlp_encode_items xs) (\<lambda>b. Inr (a @ b)))"

section \<open>Decoder\<close>

definition rlp_decode_length ::
  "bytes \<Rightarrow> nat \<Rightarrow> nat \<Rightarrow> nat \<Rightarrow> nat \<Rightarrow> (rlp_error, nat \<times> nat) result" where
  "rlp_decode_length data offset prefix short_base long_base =
     (if prefix < long_base then Inr (prefix - short_base, offset + 1)
      else
        let length_of_length = prefix - long_base;
            start = offset + 1;
            endp = start + length_of_length in
        if endp > length data then Inl RlpDecodingError
        else
          let length_bytes = take length_of_length (drop start data) in
          if length_bytes = [] \<or> hd length_bytes = 0 then Inl RlpDecodingError
          else Inr (nat (be_int length_bytes), endp))"

lemma bindR_cong [fundef_cong]:
  "r = r' \<Longrightarrow> (\<And>x. r' = Inr x \<Longrightarrow> f x = g x) \<Longrightarrow> bindR r f = bindR r' g"
  by (cases r') auto

function (domintros) rlp_decode_item :: "bytes \<Rightarrow> nat \<Rightarrow> (rlp_error, rlp \<times> nat) result"
  and rlp_decode_items :: "bytes \<Rightarrow> nat \<Rightarrow> nat \<Rightarrow> (rlp_error, rlp list \<times> nat) result" where
  "rlp_decode_item data offset =
     (if offset \<ge> length data then Inl RlpDecodingError
      else
        let prefix = unat (data ! offset) in
        if prefix \<le> 0x7F then Inr (RBytes [data ! offset], offset + 1)
        else if prefix \<le> 0xBF then
          bindR (rlp_decode_length data offset prefix 0x80 0xB7) (\<lambda>(payload_length, payload_offset).
            if prefix > 0xB7 \<and> payload_length \<le> 55 then Inl RlpDecodingError
            else if payload_offset + payload_length > length data then Inl RlpDecodingError
            else
              let payload = take payload_length (drop payload_offset data) in
              if prefix \<le> 0xB7 \<and> payload_length = 1 \<and> uint (payload ! 0) < 0x80
              then Inl RlpDecodingError
              else Inr (RBytes payload, payload_offset + payload_length))
        else
          bindR (rlp_decode_length data offset prefix 0xC0 0xF7) (\<lambda>(payload_length, payload_offset).
            if prefix > 0xF7 \<and> payload_length \<le> 55 then Inl RlpDecodingError
            else if payload_offset + payload_length > length data then Inl RlpDecodingError
            else
              bindR (rlp_decode_items data payload_offset (payload_offset + payload_length))
                (\<lambda>(items, cursor).
                  if cursor \<noteq> payload_offset + payload_length then Inl RlpDecodingError
                  else Inr (RList items, payload_offset + payload_length))))"
| "rlp_decode_items data cursor endp =
     (if cursor < endp then
        bindR (rlp_decode_item data cursor) (\<lambda>(item, cursor').
          bindR (rlp_decode_items data cursor' endp) (\<lambda>(items, c). Inr (item # items, c)))
      else Inr ([], cursor))"
  by pat_completeness auto

lemma rlp_decode_length_offset:
  "rlp_decode_length data offset prefix sb lb = Inr (n, p) \<Longrightarrow> offset < p"
  by (auto simp: rlp_decode_length_def Let_def split: if_splits)

text \<open>An item ends behind its start: what the loop over a list's items terminates by.\<close>

lemma rlp_decode_item_progress:
  assumes "rlp_decode_item_rlp_decode_items_dom (Inl (data, offset))"
    and "rlp_decode_item data offset = Inr (v, c)"
  shows "offset < c \<and> offset < length data"
  using assms(2)
  by (auto simp: rlp_decode_item.psimps[OF assms(1)] Let_def
      dest: rlp_decode_length_offset split: if_splits)

termination rlp_decode_item
proof (relation "measure (\<lambda>x. case x of Inl (data, off) \<Rightarrow> 2 * (length data - off)
    | Inr (data, cur, e) \<Rightarrow> 2 * (length data - cur) + 1)", goal_cases)
  case 1 then show ?case by simp
next
  case (2 data offset prefix x payload_length payload_offset)
  then have "offset < payload_offset" by (auto dest: rlp_decode_length_offset)
  with 2 show ?case by auto
next
  case (3 data cursor endp) then show ?case by simp
next
  case (4 data cursor endp x item cursor')
  then have "cursor < cursor' \<and> cursor < length data"
    by (intro rlp_decode_item_progress) auto
  then show ?case by auto
qed

definition rlp_decode :: "bytes \<Rightarrow> (rlp_error, rlp) result" where
  "rlp_decode raw =
     (if raw = [] then Inl RlpDecodingError
      else bindR (rlp_decode_item raw 0) (\<lambda>(value, endp).
        if endp \<noteq> length raw then Inl RlpDecodingError else Inr value))"

definition rlp_decode_bytes :: "bytes \<Rightarrow> (rlp_error, bytes) result" where
  "rlp_decode_bytes raw = bindR (rlp_decode raw) (\<lambda>value.
     case value of RList _ \<Rightarrow> Inl RlpDecodingError | RBytes bs \<Rightarrow> Inr bs)"

definition rlp_decode_int :: "bytes \<Rightarrow> (rlp_error, int) result" where
  "rlp_decode_int raw = bindR (rlp_decode_bytes raw) (\<lambda>payload.
     if payload = [] then Inr 0
     else if hd payload = 0 then Inl RlpDecodingError
     else Inr (be_int payload))"

declare rlp_decode_item.simps [simp del] rlp_decode_items.simps [simp del]

section \<open>Round trip\<close>

text \<open>A decoded value as an argument of \<open>encode\<close>, and its encoding as a total function.\<close>

fun obj_of_rlp :: "rlp \<Rightarrow> rlp_obj" where
  "obj_of_rlp (RBytes bs) = ObjBytes bs"
| "obj_of_rlp (RList vs) = ObjList (map obj_of_rlp vs)"

fun rlp_ref :: "rlp \<Rightarrow> bytes" where
  "rlp_ref (RBytes bs) = rlp_encode_bytes bs"
| "rlp_ref (RList vs) = rlp_wrap_list (concat (map rlp_ref vs))"

lemma rlp_encode_ref: "rlp_encode (obj_of_rlp v) = Inr (rlp_ref v)"
proof (induction v)
  case (RList vs)
  have "rlp_encode_items (map obj_of_rlp ws) = Inr (concat (map rlp_ref ws))"
    if "set ws \<subseteq> set vs" for ws
    using that by (induction ws) (auto simp: RList.IH)
  from this[OF subset_refl] show ?case by simp
qed simp

text \<open>Payload sizes below \<open>256^8\<close>: eight length bytes, far above what Python can hold.\<close>

fun rlp_fits :: "rlp \<Rightarrow> bool" where
  "rlp_fits (RBytes bs) \<longleftrightarrow> length bs < 256 ^ 8"
| "rlp_fits (RList vs) \<longleftrightarrow> list_all rlp_fits vs \<and> length (concat (map rlp_ref vs)) < 256 ^ 8"

text \<open>Some node has a payload of exactly 55 bytes.\<close>

fun rlp_has55 :: "rlp \<Rightarrow> bool" where
  "rlp_has55 (RBytes bs) \<longleftrightarrow> length bs = 55"
| "rlp_has55 (RList vs) \<longleftrightarrow> length (concat (map rlp_ref vs)) = 55 \<or> list_ex rlp_has55 vs"

subsection \<open>Headers\<close>

lemma big_endian_length_pos:
  assumes "0 < n" "n < 256 ^ 8"
  shows "length (big_endian_length n) \<in> {1..8}" "big_endian_length n \<noteq> []"
    "hd (big_endian_length n) \<noteq> 0" "be_int (big_endian_length n) = int n"
proof -
  have bl: "big_endian_length n = be_bytes (byte_length (int n)) (int n)"
    using assms by (simp add: big_endian_length_def)
  have "byte_length (int n) \<le> 8"
    using assms by (intro byte_length_le) (auto simp flip: of_nat_less_iff)
  moreover have pos: "0 < byte_length (int n)" using assms by (intro byte_length_pos) simp
  ultimately show "length (big_endian_length n) \<in> {1..8}" by (simp add: bl)
  then show "big_endian_length n \<noteq> []" by auto
  show "hd (big_endian_length n) \<noteq> 0"
    unfolding bl using assms by (intro hd_be_bytes_minimal) simp
  show "be_int (big_endian_length n) = int n"
    unfolding bl using byte_length_upper[of "int n"] by (intro be_int_be_bytes_id) auto
qed

lemma unat_word_of_int_byte: "0 \<le> v \<Longrightarrow> v < 256 \<Longrightarrow> unat (word_of_int v :: byte) = nat v"
  by (simp add: unat_eq_nat_uint uint_word_of_int_byte)

text \<open>A long header, as the encoder writes it, is read back by \<open>_decode_length\<close>.\<close>

lemma decode_length_long:
  assumes "55 < n" "n < 256 ^ 8"
  shows "rlp_decode_length (pre @ b # big_endian_length n @ post) (length pre)
      (long_base + length (big_endian_length n)) sb long_base
    = Inr (n, length pre + 1 + length (big_endian_length n))"
proof -
  let ?l = "big_endian_length n"
  have l: "1 \<le> length ?l" "hd ?l \<noteq> 0" "be_int ?l = int n" "?l \<noteq> []"
    using big_endian_length_pos[of n] assms by auto
  have take: "take (length ?l) (drop (length pre + 1) (pre @ b # ?l @ post)) = ?l"
    by simp
  have "\<not> long_base + length ?l < long_base"
    "\<not> length pre + 1 + length ?l > length (pre @ b # ?l @ post)"
    by auto
  then show ?thesis
    unfolding rlp_decode_length_def Let_def using l(2,3,4) by (simp only: diff_add_inverse take) simp
qed

lemma nth_pre: "(pre @ b # post) ! length pre = b"
  by simp

subsection \<open>Decoding the encoder's output\<close>

lemma decode_item_bytes:
  assumes "length bs < 256 ^ 8"
  shows "rlp_decode_item (pre @ rlp_encode_bytes bs @ post) (length pre) =
    (if length bs = 55 then Inl RlpDecodingError
     else Inr (RBytes bs, length pre + length (rlp_encode_bytes bs)))"
proof -
  consider (single) "length bs = 1" "uint (bs ! 0) < 0x80"
    | (short) "\<not> (length bs = 1 \<and> uint (bs ! 0) < 0x80)" "length bs \<le> 55"
    | (long) "55 < length bs" by linarith
  then show ?thesis
  proof cases
    case single
    then obtain b where bs: "bs = [b]" by (cases bs) auto
    have enc: "rlp_encode_bytes bs = [b]"
      using single bs by (simp add: rlp_encode_bytes_def)
    have "int (unat b) < 128" using single bs by simp
    then have b: "unat b \<le> 127" by linarith
    show ?thesis
      by (subst rlp_decode_item.simps) (simp add: enc b, simp add: bs)
  next
    case short
    let ?b = "word_of_int (0x80 + int (length bs)) :: byte"
    have enc: "rlp_encode_bytes bs = ?b # bs"
      using short by (auto simp: rlp_encode_bytes_def Let_def)
    have b: "unat ?b = 0x80 + length bs"
      using short by (subst unat_word_of_int_byte) auto
    show ?thesis
      using short b
      by (subst rlp_decode_item.simps) (auto simp: enc Let_def rlp_decode_length_def)
  next
    case long
    let ?l = "big_endian_length (length bs)"
    let ?b = "word_of_int (0xB7 + int (length ?l)) :: byte"
    have enc: "rlp_encode_bytes bs = ?b # ?l @ bs"
      using long by (auto simp: rlp_encode_bytes_def Let_def)
    have len: "length ?l \<in> {1..8}" using long assms by (intro big_endian_length_pos) auto
    have b: "unat ?b = 0xB7 + length ?l"
      using len by (subst unat_word_of_int_byte) auto
    have dl: "rlp_decode_length (pre @ ?b # ?l @ (bs @ post)) (length pre) (0xB7 + length ?l) 0x80 0xB7
        = Inr (length bs, length pre + 1 + length ?l)"
      using long assms by (intro decode_length_long) auto
    show ?thesis
      using long len b dl
      by (subst rlp_decode_item.simps) (simp add: enc Let_def)
  qed
qed

lemma decode_items_concat:
  assumes "\<And>v pre post. v \<in> set vs \<Longrightarrow>
      rlp_decode_item (pre @ rlp_ref v @ post) (length pre) =
      (if rlp_has55 v then Inl RlpDecodingError else Inr (v, length pre + length (rlp_ref v)))"
    and "\<And>v. v \<in> set vs \<Longrightarrow> rlp_ref v \<noteq> []"
  shows "rlp_decode_items (pre @ concat (map rlp_ref vs) @ post) (length pre)
      (length pre + length (concat (map rlp_ref vs))) =
    (if list_ex rlp_has55 vs then Inl RlpDecodingError
     else Inr (vs, length pre + length (concat (map rlp_ref vs))))"
  using assms
proof (induction vs arbitrary: pre)
  case Nil
  show ?case by (simp add: rlp_decode_items.simps)
next
  case (Cons v vs)
  let ?data = "pre @ rlp_ref v @ concat (map rlp_ref vs) @ post"
  have ne: "rlp_ref v \<noteq> []" using Cons.prems(2) by simp
  have item: "rlp_decode_item ?data (length pre) =
      (if rlp_has55 v then Inl RlpDecodingError else Inr (v, length pre + length (rlp_ref v)))"
    using Cons.prems(1)[of v pre "concat (map rlp_ref vs) @ post"] by simp
  have rest: "rlp_decode_items ?data (length pre + length (rlp_ref v))
      (length pre + length (rlp_ref v) + length (concat (map rlp_ref vs))) =
    (if list_ex rlp_has55 vs then Inl RlpDecodingError
     else Inr (vs, length pre + length (rlp_ref v) + length (concat (map rlp_ref vs))))"
    using Cons.IH[of "pre @ rlp_ref v"] Cons.prems by simp
  show ?case
    using ne item rest by (subst rlp_decode_items.simps) (auto simp: add.assoc)
qed

lemma rlp_ref_nonempty: "rlp_ref v \<noteq> []"
  by (cases v) (auto simp: rlp_encode_bytes_def rlp_wrap_list_def Let_def)

lemma decode_item_ref:
  assumes "rlp_fits v"
  shows "rlp_decode_item (pre @ rlp_ref v @ post) (length pre) =
    (if rlp_has55 v then Inl RlpDecodingError else Inr (v, length pre + length (rlp_ref v)))"
  using assms
proof (induction v arbitrary: pre post)
  case (RBytes bs)
  then show ?case using decode_item_bytes by simp
next
  case (RList vs)
  let ?p = "concat (map rlp_ref vs)"
  have fits: "length ?p < 256 ^ 8" and each: "\<And>v. v \<in> set vs \<Longrightarrow> rlp_fits v"
    using RList.prems by (auto simp: list_all_iff)
  note items = decode_items_concat[of vs, OF RList.IH[OF _ each] rlp_ref_nonempty]
  show ?case
  proof (cases "length ?p \<le> 55")
    case True
    let ?b = "word_of_int (0xC0 + int (length ?p)) :: byte"
    have enc: "rlp_ref (RList vs) = ?b # ?p" using True by (simp add: rlp_wrap_list_def Let_def)
    have b: "unat ?b = 0xC0 + length ?p"
      using True by (subst unat_word_of_int_byte) auto
    show ?thesis
      using True b items[of "pre @ [?b]" post]
      by (subst rlp_decode_item.simps)
        (auto simp: enc Let_def rlp_decode_length_def simp del: rlp_ref.simps length_concat)
  next
    case False
    let ?l = "big_endian_length (length ?p)"
    let ?b = "word_of_int (0xF7 + int (length ?l)) :: byte"
    have enc: "rlp_ref (RList vs) = ?b # ?l @ ?p" using False by (simp add: rlp_wrap_list_def Let_def)
    have "0 < length ?p" using False by linarith
    then have len: "length ?l \<in> {1..8}" using fits by (rule big_endian_length_pos)
    have b: "unat ?b = 0xF7 + length ?l"
      using len by (subst unat_word_of_int_byte) auto
    have dl: "rlp_decode_length (pre @ ?b # ?l @ (?p @ post)) (length pre) (0xF7 + length ?l) 0xC0 0xF7
        = Inr (length ?p, length pre + 1 + length ?l)"
      using False fits by (intro decode_length_long) auto
    show ?thesis
      using False len b dl items[of "pre @ ?b # ?l" post]
      by (subst rlp_decode_item.simps) (auto simp: enc Let_def simp del: rlp_ref.simps length_concat)
  qed
qed

lemma rlp_decode_ref:
  assumes "rlp_fits v"
  shows "rlp_decode (rlp_ref v) = (if rlp_has55 v then Inl RlpDecodingError else Inr v)"
  using decode_item_ref[OF assms, of "[]" "[]"] rlp_ref_nonempty[of v]
  by (auto simp: rlp_decode_def)

subsection \<open>Canonicity: a decoded payload is the encoding of its value\<close>

lemma big_endian_length_be_int:
  assumes "bs \<noteq> []" "hd bs \<noteq> 0"
  shows "big_endian_length (nat (be_int bs)) = bs"
proof -
  have "byte_length (be_int bs) = length bs" using assms by (rule byte_length_be_int)
  moreover have "be_int bs \<noteq> 0"
    using calculation assms(1) by (metis byte_length_zero length_0_conv)
  ultimately show ?thesis
    using be_bytes_be_int[of bs] be_int_nonneg[of bs] by (simp add: big_endian_length_def nat_eq_iff)
qed

lemma take_drop_split:
  "i \<le> j \<Longrightarrow> j \<le> k \<Longrightarrow> take (k - i) (drop i xs) = take (j - i) (drop i xs) @ take (k - j) (drop j xs)"
  using take_add[of "j - i" "k - j" "drop i xs"] by simp

lemma take1_drop: "i < length xs \<Longrightarrow> take (Suc 0) (drop i xs) = [xs ! i]"
  by (metis One_nat_def append_Nil hd_drop_conv_nth take_Suc_Cons take_eq_Nil2 drop_eq_Nil linorder_not_le list.exhaust_sel take0)

text \<open>A long header that \<open>_decode_length\<close> accepts is the one the encoder writes for the length.\<close>

lemma decode_length_long_inv:
  assumes "rlp_decode_length data off (unat (data ! off)) sb lb = Inr (n, p)"
    and "lb \<le> unat (data ! off)" "off < length data"
  shows "off < p" "p \<le> length data"
    "take (p - off) (drop off data) = word_of_int (int lb + int (length (big_endian_length n))) # big_endian_length n"
proof -
  let ?L = "unat (data ! off) - lb"
  let ?l = "take ?L (drop (off + 1) data)"
  have l: "off + 1 + ?L \<le> length data" "?l \<noteq> []" "hd ?l \<noteq> 0" "n = nat (be_int ?l)" "p = off + 1 + ?L"
    using assms(1,2) by (auto simp: rlp_decode_length_def Let_def split: if_splits)
  show "off < p" "p \<le> length data" using l by auto
  have bel: "big_endian_length n = ?l" unfolding l(4) using l(2,3) by (rule big_endian_length_be_int)
  have "length ?l = ?L" using l(1) by simp
  then have "(word_of_int (int lb + int (length (big_endian_length n))) :: byte) = data ! off"
    using assms(2) by (simp add: bel)
  moreover have "take (p - off) (drop off data) = data ! off # ?l"
    using take_drop_split[of off "off + 1" p data] assms(3) l(5) by (simp add: take1_drop)
  ultimately show "take (p - off) (drop off data)
      = word_of_int (int lb + int (length (big_endian_length n))) # big_endian_length n"
    using bel by simp
qed

lemma decode_length_short_inv:
  assumes "rlp_decode_length data off prefix sb lb = Inr (n, p)" "prefix < lb"
  shows "n = prefix - sb" "p = off + 1"
  using assms by (auto simp: rlp_decode_length_def)

text \<open>The header of a decoded item, in either form, together with a payload of length \<open>n\<close>.\<close>

lemma decode_header_inv:
  assumes dl: "rlp_decode_length data off (unat (data ! off)) sb lb = Inr (n, p)"
    and off: "off < length data" and base: "sb \<le> unat (data ! off)" "lb = sb + 55"
    and canon: "\<not> (unat (data ! off) > lb \<and> n \<le> 55)" and fits: "p + n \<le> length data"
    and payload: "payload = take n (drop p data)"
  shows "off < p" "take (p + n - off) (drop off data) =
    (if n \<le> 55 then [word_of_int (int sb + int n)] @ payload
     else [word_of_int (int lb + int (length (big_endian_length n)))] @ big_endian_length n @ payload)"
    "length payload = n"
proof -
  show len: "length payload = n" using fits payload by simp
  show op: "off < p" using dl by (rule rlp_decode_length_offset)
  have split: "take (p + n - off) (drop off data) = take (p - off) (drop off data) @ payload"
    using take_drop_split[of off p "p + n" data] op payload by simp
  show "take (p + n - off) (drop off data) =
    (if n \<le> 55 then [word_of_int (int sb + int n)] @ payload
     else [word_of_int (int lb + int (length (big_endian_length n)))] @ big_endian_length n @ payload)"
  proof (cases "unat (data ! off) < lb")
    case True
    note short = decode_length_short_inv[OF dl True]
    have "(word_of_int (int sb + int n) :: byte) = data ! off" using short base by simp
    moreover have "n \<le> 55" using short True base by linarith
    ultimately show ?thesis using short(2) split off by (simp add: take1_drop)
  next
    case False
    then have "lb \<le> unat (data ! off)" by simp
    note long = decode_length_long_inv[OF dl this off]
    have "lb \<noteq> unat (data ! off)" using dl by (auto simp: rlp_decode_length_def Let_def split: if_splits)
    with False canon have "\<not> n \<le> 55" by simp
    with long split show ?thesis by simp
  qed
qed

lemma decode_item_sound:
  "rlp_decode_item data off = Inr (v, c) \<Longrightarrow>
     off < c \<and> c \<le> length data \<and> take (c - off) (drop off data) = rlp_ref v"
  "rlp_decode_items data cur e = Inr (vs, c) \<Longrightarrow> cur \<le> c \<and>
     (cur \<le> length data \<longrightarrow> c \<le> length data \<and> take (c - cur) (drop cur data) = concat (map rlp_ref vs))"
proof (induction data off and data cur e arbitrary: v c and vs c
    rule: rlp_decode_item_rlp_decode_items.induct)
  case (1 data off)
  let ?x = "unat (data ! off)"
  have off: "off < length data" using "1.prems" by (subst (asm) rlp_decode_item.simps) (auto split: if_splits)
  consider (single) "?x \<le> 127" | (str) "127 < ?x" "?x \<le> 191" | (lst) "191 < ?x" by linarith
  then show ?case
  proof cases
    case single
    then have "v = RBytes [data ! off]" "c = off + 1"
      using "1.prems" off by (subst (asm) rlp_decode_item.simps, simp)+
    moreover have "uint (data ! off) < 128"
    proof -
      have "int ?x < 128" using single by linarith
      then show ?thesis by simp
    qed
    ultimately show ?thesis using off by (simp add: take1_drop rlp_encode_bytes_def)
  next
    case str
    obtain n p where dl: "rlp_decode_length data off ?x 128 183 = Inr (n, p)"
      and canon: "\<not> (?x > 183 \<and> n \<le> 55)" and fits: "p + n \<le> length data"
      and single: "\<not> (?x \<le> 183 \<and> n = 1 \<and> uint (take n (drop p data) ! 0) < 128)"
      and v: "v = RBytes (take n (drop p data))" and c: "c = p + n"
      using "1.prems" off str
      by (subst (asm) rlp_decode_item.simps) (auto simp: Let_def split: if_splits)
    note h = decode_header_inv[OF dl off _ _ canon fits refl]
    have notsingle: "\<not> (length (take n (drop p data)) = 1 \<and> uint (take n (drop p data) ! 0) < 128)"
      using single canon fits by auto
    have "rlp_encode_bytes (take n (drop p data)) = take (p + n - off) (drop off data)"
      using h notsingle str by (simp add: rlp_encode_bytes_def Let_def)
    then show ?thesis using h(1) str v c fits by simp
  next
    case lst
    obtain n p items where dl: "rlp_decode_length data off ?x 192 247 = Inr (n, p)"
      and canon: "\<not> (?x > 247 \<and> n \<le> 55)" and fits: "p + n \<le> length data"
      and items: "rlp_decode_items data p (p + n) = Inr (items, p + n)"
      and v: "v = RList items" and c: "c = p + n"
      using "1.prems" off lst
      by (subst (asm) rlp_decode_item.simps) (auto simp: Let_def split: if_splits)
    have "p \<le> length data" using fits by simp
    then have payload: "take n (drop p data) = concat (map rlp_ref items)"
      using "1.IH"[OF _ refl _ _ dl refl _ _ items] off lst canon fits by auto
    note h = decode_header_inv[OF dl off _ _ canon fits payload[symmetric]]
    have "rlp_ref v = take (p + n - off) (drop off data)"
      using h lst by (simp add: v rlp_wrap_list_def Let_def del: length_concat)
    then show ?thesis using h(1) lst c fits by simp
  qed
next
  case (2 data cur e)
  show ?case
  proof (cases "cur < e")
    case True
    obtain item c1 items where item: "rlp_decode_item data cur = Inr (item, c1)"
      and items: "rlp_decode_items data c1 e = Inr (items, c)" and vs: "vs = item # items"
      using "2.prems" True by (subst (asm) rlp_decode_items.simps) (auto split: prod.splits)
    have a: "cur < c1 \<and> c1 \<le> length data \<and> take (c1 - cur) (drop cur data) = rlp_ref item"
      by (rule "2.IH"(1)[OF True item])
    have b: "c1 \<le> c \<and> (c1 \<le> length data \<longrightarrow>
        c \<le> length data \<and> take (c - c1) (drop c1 data) = concat (map rlp_ref items))"
      by (rule "2.IH"(2)[OF True item refl items])
    show ?thesis using a b take_drop_split[of cur c1 c data] vs by auto
  next
    case False
    then show ?thesis using "2.prems" by (subst (asm) rlp_decode_items.simps) auto
  qed
qed

lemma rlp_decode_sound: "rlp_decode bs = Inr v \<Longrightarrow> rlp_ref v = bs"
  using decode_item_sound(1)[of bs 0] by (auto simp: rlp_decode_def split: if_splits)

subsection \<open>Integers\<close>

lemma rlp_encode_bytes_length: "length bs < 256 ^ 8 \<Longrightarrow> rlp_fits (RBytes bs)"
  by simp

lemma rlp_decode_encode_bytes:
  "length bs < 256 ^ 8 \<Longrightarrow> length bs \<noteq> 55 \<Longrightarrow> rlp_decode_bytes (rlp_encode_bytes bs) = Inr bs"
  using rlp_decode_ref[of "RBytes bs"] by (simp add: rlp_decode_bytes_def)

lemma rlp_int_roundtrip:
  assumes "0 \<le> v" "v < 2 ^ 256"
  shows "\<exists>bs. rlp_encode_int v = Inr bs \<and> rlp_decode_int bs = Inr v"
proof (cases "v = 0")
  case True
  then show ?thesis using rlp_decode_encode_bytes[of "[]"] by (simp add: rlp_encode_int_def rlp_decode_int_def)
next
  case False
  with assms have pos: "0 < v" by simp
  have len: "byte_length v \<le> 32" using assms by (intro byte_length_le) auto
  have "be_bytes (byte_length v) v \<noteq> []" using byte_length_pos[OF pos] by (metis be_bytes_length length_0_conv not_less_zero)
  moreover have "be_int (be_bytes (byte_length v) v) = v"
    using byte_length_upper[of v] assms(1) by (intro be_int_be_bytes_id) auto
  moreover have "rlp_decode_bytes (rlp_encode_bytes (be_bytes (byte_length v) v)) = Inr (be_bytes (byte_length v) v)"
    using len by (intro rlp_decode_encode_bytes) auto
  ultimately show ?thesis
    using pos hd_be_bytes_minimal[OF pos] by (simp add: rlp_encode_int_def rlp_decode_int_def)
qed

section \<open>Objects and their decoded images\<close>

text \<open>
  The containers of the execution layer encode lists of byte strings and integers. \<open>rlp_image\<close> is
  the value such an object decodes to, and \<open>rlp_ok\<close> says that \<open>encode\<close> accepts it.
\<close>

abbreviation int_bytes :: "int \<Rightarrow> bytes" where
  "int_bytes v \<equiv> be_bytes (byte_length v) v"

fun rlp_image :: "rlp_obj \<Rightarrow> rlp" where
  "rlp_image (ObjBytes bs) = RBytes bs"
| "rlp_image (ObjInt v) = RBytes (int_bytes v)"
| "rlp_image (ObjList xs) = RList (map rlp_image xs)"
| "rlp_image _ = RBytes []"

fun rlp_ok :: "rlp_obj \<Rightarrow> bool" where
  "rlp_ok (ObjBytes bs) \<longleftrightarrow> True"
| "rlp_ok (ObjInt v) \<longleftrightarrow> 0 \<le> v"
| "rlp_ok (ObjList xs) \<longleftrightarrow> list_all rlp_ok xs"
| "rlp_ok _ \<longleftrightarrow> False"

lemma rlp_encode_image: "rlp_ok x \<Longrightarrow> rlp_encode x = Inr (rlp_ref (rlp_image x))"
proof (induction x)
  case (ObjInt v)
  then show ?case by (cases "v = 0") (auto simp: rlp_encode_int_def)
next
  case (ObjList xs)
  have "rlp_encode_items ys = Inr (concat (map rlp_ref (map rlp_image ys)))" if "set ys \<subseteq> set xs" for ys
    using that ObjList by (induction ys) (auto simp: list_all_iff)
  from this[OF subset_refl] show ?case by simp
qed auto

lemma rlp_decode_image:
  assumes "rlp_ok x" "rlp_fits (rlp_image x)"
  shows "\<exists>bs. rlp_encode x = Inr bs
    \<and> rlp_decode bs = (if rlp_has55 (rlp_image x) then Inl RlpDecodingError else Inr (rlp_image x))"
  using rlp_encode_image[OF assms(1)] rlp_decode_ref[OF assms(2)] by auto

lemma be_int_int_bytes: "0 \<le> v \<Longrightarrow> be_int (int_bytes v) = v"
  using byte_length_upper[of v] by (intro be_int_be_bytes_id) auto

lemma int_bytes_Nil [simp]: "0 \<le> v \<Longrightarrow> int_bytes v = [] \<longleftrightarrow> v = 0"
  using byte_length_pos[of v] by (cases "v = 0") (auto simp: simp flip: length_0_conv)

text \<open>The first byte tells lists from strings.\<close>

lemma rlp_ref_list_head:
  assumes "length (concat (map rlp_ref vs)) < 256 ^ 8"
  shows "0xC0 \<le> uint (hd (rlp_ref (RList vs)))"
proof -
  let ?n = "length (concat (map rlp_ref vs))"
  have "length (big_endian_length ?n) \<le> 8" if "55 < ?n"
    using big_endian_length_pos(1)[of ?n, OF order.strict_trans[OF _ that] assms] by auto
  moreover have byte: "0xC0 \<le> uint (word_of_int v :: byte)" if "0xC0 \<le> v" "v < 256" for v
    using that by (simp add: uint_word_of_int_byte)
  ultimately show ?thesis
    unfolding rlp_ref.simps rlp_wrap_list_def Let_def append_Cons
    by (cases "?n \<le> 55") (simp_all only: if_True if_False list.sel, (intro byte; linarith)+)
qed

end
