(* ===== verification/Keccak.thy ===== *)
theory Keccak
  imports Primitives
begin

text \<open>
  The hash function of the crate \<open>crypto\<close> (\<open>crypto/keccak.py\<close>): Keccak-256 with the original
  \<open>0x01 .. 0x80\<close> padding. Lanes are 64-bit words and the state is the list of the 25 lanes, index
  \<open>x + 5 * y\<close>. The lemmas show that the padding fills whole blocks and is injective, and that
  the permutation keeps the shape of the state.
\<close>

type_synonym lane = "64 word"

definition RATE_BYTES :: nat where "RATE_BYTES = 136"

definition ROUND_CONSTANTS :: "lane list" where
  "ROUND_CONSTANTS = [
    0x0000000000000001, 0x0000000000008082, 0x800000000000808A, 0x8000000080008000,
    0x000000000000808B, 0x0000000080000001, 0x8000000080008081, 0x8000000000008009,
    0x000000000000008A, 0x0000000000000088, 0x0000000080008009, 0x000000008000000A,
    0x000000008000808B, 0x800000000000008B, 0x8000000000008089, 0x8000000000008003,
    0x8000000000008002, 0x8000000000000080, 0x000000000000800A, 0x800000008000000A,
    0x8000000080008081, 0x8000000000008080, 0x0000000080000001, 0x8000000080008008]"

definition ROTATION_OFFSETS :: "nat list list" where
  "ROTATION_OFFSETS = [
    [0, 36, 3, 41, 18], [1, 44, 10, 45, 2], [62, 6, 43, 15, 61], [28, 55, 25, 21, 56], [27, 20, 39, 8, 14]]"

definition rotate_left64 :: "lane \<Rightarrow> nat \<Rightarrow> lane" where
  "rotate_left64 v shift =
     (if shift = 0 then v else push_bit shift v OR drop_bit (64 - shift) v)"

text \<open>One round, with the code's four loops in order (theta, rho and pi, chi, iota).\<close>

definition keccak_theta :: "lane list \<Rightarrow> lane list" where
  "keccak_theta s =
     (let c = map (\<lambda>x. s ! x XOR s ! (x + 5) XOR s ! (x + 10) XOR s ! (x + 15) XOR s ! (x + 20)) [0..<5];
          d = map (\<lambda>x. c ! ((x + 4) mod 5) XOR rotate_left64 (c ! ((x + 1) mod 5)) 1) [0..<5]
      in map (\<lambda>i. s ! i XOR d ! (i mod 5)) [0..<25])"

definition keccak_rho_pi :: "lane list \<Rightarrow> lane list" where
  "keccak_rho_pi s =
     fold (\<lambda>(y, x) b. b[y + 5 * ((2 * x + 3 * y) mod 5) :=
             rotate_left64 (s ! (x + 5 * y)) (ROTATION_OFFSETS ! x ! y)])
       (List.product [0..<5] [0..<5]) (replicate 25 0)"

definition keccak_chi :: "lane list \<Rightarrow> lane list" where
  "keccak_chi b =
     map (\<lambda>i. let base = 5 * (i div 5); x = i mod 5 in
            b ! (base + x) XOR (NOT (b ! (base + (x + 1) mod 5)) AND b ! (base + (x + 2) mod 5)))
       [0..<25]"

definition keccak_round :: "lane \<Rightarrow> lane list \<Rightarrow> lane list" where
  "keccak_round rc s =
     (let s' = keccak_chi (keccak_rho_pi (keccak_theta s)) in s'[0 := s' ! 0 XOR rc])"

definition keccak_f1600 :: "lane list \<Rightarrow> lane list" where
  "keccak_f1600 s = fold keccak_round ROUND_CONSTANTS s"

text \<open>Little-endian lanes.\<close>

definition le_lane :: "bytes \<Rightarrow> lane" where
  "le_lane bs = word_of_int (be_int (rev bs))"

definition lane_bytes :: "lane \<Rightarrow> bytes" where
  "lane_bytes w = rev (be_bytes 8 (uint w))"

function keccak_pad_zeros :: "bytes \<Rightarrow> bytes" where
  "keccak_pad_zeros p =
     (if length p mod RATE_BYTES \<noteq> RATE_BYTES - 1 then keccak_pad_zeros (p @ [0]) else p)"
  by pat_completeness auto
termination
proof (relation "measure (\<lambda>p. RATE_BYTES - 1 - length p mod RATE_BYTES)")
  fix p :: bytes
  assume "length p mod RATE_BYTES \<noteq> RATE_BYTES - 1"
  then have "length p mod 136 \<noteq> 135" by (simp add: RATE_BYTES_def)
  then have "Suc (length p) mod 136 = Suc (length p mod 136)" "length p mod 136 < 135"
    by (simp_all add: mod_Suc)
  then show "(p @ [0], p) \<in> measure (\<lambda>p. RATE_BYTES - 1 - length p mod RATE_BYTES)"
    by (simp add: RATE_BYTES_def)
qed simp

declare keccak_pad_zeros.simps [simp del]

definition keccak_pad :: "bytes \<Rightarrow> bytes" where
  "keccak_pad data = keccak_pad_zeros (data @ [0x01]) @ [0x80]"

definition keccak_absorb_block :: "lane list \<Rightarrow> bytes \<Rightarrow> lane list" where
  "keccak_absorb_block s block =
     keccak_f1600 (map (\<lambda>i. if i < RATE_BYTES div 8
         then s ! i XOR le_lane (take 8 (drop (8 * i) block)) else s ! i) [0..<25])"

definition keccak_blocks :: "bytes \<Rightarrow> bytes list" where
  "keccak_blocks payload =
     map (\<lambda>i. take RATE_BYTES (drop (RATE_BYTES * i) payload)) [0..<length payload div RATE_BYTES]"

text \<open>One squeeze of 136 bytes always covers the 32 bytes of the digest, so the loop stops there.\<close>

definition keccak256 :: "bytes \<Rightarrow> hash" where
  "keccak256 data =
     (let s = fold (\<lambda>block s. keccak_absorb_block s block) (keccak_blocks (keccak_pad data)) (replicate 25 0);
          output = concat (map (\<lambda>i. lane_bytes (s ! i)) [0..<RATE_BYTES div 8])
      in word_of_int (be_int (take HASH_SIZE output)))"

section \<open>Padding and shape\<close>

lemma keccak_pad_zeros_form:
  "\<exists>n. keccak_pad_zeros p = p @ replicate n 0 \<and> (length p + n) mod 136 = 135"
proof (induction p rule: keccak_pad_zeros.induct)
  case (1 p)
  show ?case
  proof (cases "length p mod RATE_BYTES \<noteq> RATE_BYTES - 1")
    case True
    then obtain n where "keccak_pad_zeros (p @ [0]) = (p @ [0]) @ replicate n 0"
      and "(length (p @ [0]) + n) mod 136 = 135" using 1 by blast
    with True have "keccak_pad_zeros p = p @ replicate (Suc n) 0 \<and> (length p + Suc n) mod 136 = 135"
      by (subst keccak_pad_zeros.simps) (simp add: RATE_BYTES_def)
    then show ?thesis by blast
  next
    case False
    then have "keccak_pad_zeros p = p @ replicate 0 0 \<and> (length p + 0) mod 136 = 135"
      by (subst keccak_pad_zeros.simps) (simp add: RATE_BYTES_def)
    then show ?thesis by blast
  qed
qed

lemma keccak_pad_form:
  "\<exists>n. keccak_pad data = data @ [0x01] @ replicate n 0 @ [0x80] \<and> length (keccak_pad data) mod 136 = 0"
proof -
  obtain n where "keccak_pad_zeros (data @ [0x01]) = (data @ [0x01]) @ replicate n 0"
    and len: "(length (data @ [0x01 :: byte]) + n) mod 136 = 135"
    using keccak_pad_zeros_form by blast
  then have pad: "keccak_pad data = data @ [0x01] @ replicate n 0 @ [0x80]" by (simp add: keccak_pad_def)
  have full: "length (keccak_pad data) = Suc (length (data @ [0x01 :: byte]) + n)" by (simp add: pad)
  have step: "\<And>x :: nat. x mod 136 = 135 \<Longrightarrow> Suc x mod 136 = 0" by (simp add: mod_Suc)
  have zero: "length (keccak_pad data) mod 136 = 0" unfolding full by (rule step[OF len])
  show ?thesis by (rule exI[of _ n], rule conjI, rule pad, rule zero)
qed

lemma append_one_zeros_inj:
  assumes "a @ [1] @ replicate m (0 :: byte) = b @ [1] @ replicate n 0"
  shows "a = b"
  using assms
proof (induction m arbitrary: n)
  case 0
  show ?case
  proof (cases n)
    case (Suc k)
    then have "last (b @ [1] @ replicate n (0::byte)) = 0" by (simp add: replicate_append_same[symmetric])
    with 0 show ?thesis by (metis append_Nil2 last_snoc replicate_0 zero_neq_one)
  qed (use 0 in simp)
next
  case (Suc m)
  show ?case
  proof (cases n)
    case 0
    have "last (a @ [1] @ replicate (Suc m) (0::byte)) = 0" by (simp add: replicate_append_same[symmetric])
    with Suc.prems 0 show ?thesis by (metis append_Nil2 last_snoc replicate_0 zero_neq_one)
  next
    case (Suc k)
    with Suc.prems have "a @ [1] @ replicate m (0::byte) @ [0] = b @ [1] @ replicate k 0 @ [0]"
      by (simp only: replicate_Suc replicate_append_same)
    then have "a @ [1] @ replicate m (0::byte) = b @ [1] @ replicate k 0"
      by (metis append_assoc butlast_snoc)
    then show ?thesis by (rule Suc.IH)
  qed
qed

lemma keccak_pad_inj: "keccak_pad a = keccak_pad b \<Longrightarrow> a = b"
proof -
  assume eq: "keccak_pad a = keccak_pad b"
  obtain m n where "keccak_pad a = (a @ [1] @ replicate m 0) @ [0x80]"
    and "keccak_pad b = (b @ [1] @ replicate n 0) @ [0x80]"
    using keccak_pad_form[of a] keccak_pad_form[of b] by (elim exE conjE) simp
  with eq have "a @ [1] @ replicate m 0 = b @ [1] @ replicate n (0::byte)" by (metis butlast_snoc)
  then show "a = b" by (rule append_one_zeros_inj)
qed

lemma keccak_round_length: "length (keccak_round rc s) = 25"
  by (simp add: keccak_round_def keccak_chi_def Let_def)

lemma keccak_f1600_length: "length (keccak_f1600 s) = 25"
  by (simp add: keccak_f1600_def ROUND_CONSTANTS_def keccak_round_length)

lemma rotate_left64_bit:
  assumes "s < 64" "n < 64"
  shows "bit (rotate_left64 v s) n \<longleftrightarrow> bit v ((n + (64 - s)) mod 64)"
proof (cases "s = 0")
  case True
  with assms show ?thesis by (simp add: rotate_left64_def)
next
  case False
  show ?thesis
  proof (cases "s \<le> n")
    case True
    then have "(n + (64 - s)) mod 64 = n - s" using assms False by (simp add: mod_if)
    moreover have "\<not> bit v (n + (64 - s))" using True assms by (auto dest: bit_imp_le_length)
    ultimately show ?thesis using False True assms
      by (simp add: rotate_left64_def bit_or_iff bit_push_bit_iff bit_drop_bit_eq add.commute)
  next
    case less: False
    then have "(n + (64 - s)) mod 64 = n + (64 - s)" using assms by simp
    then show ?thesis using False less assms
      by (simp add: rotate_left64_def bit_or_iff bit_push_bit_iff bit_drop_bit_eq add.commute)
  qed
qed

end
