(* ===== verification/Secp256k1.thy ===== *)
theory Secp256k1
  imports Keccak
begin

text \<open>
  The elliptic-curve code of the crate \<open>crypto\<close> (\<open>crypto/secp256k1.py\<close>, \<open>crypto/address.py\<close>):
  modular inverses and powers, points, scalar multiplication, public keys, signatures, signature
  verification and public-key recovery. The generation of nonces and signatures (HMAC streams and
  the operating system's randomness) is not here. The lemmas show that the inverse is an inverse,
  that modular powers by squaring are powers, that keys and signatures survive their byte formats,
  and that recovery raises no other exception than \<open>ValueError\<close> and returns points of the curve.
\<close>

section \<open>Field arithmetic\<close>

definition SECP256K1_P :: int where
  "SECP256K1_P = 0xFFFFFFFFFFFFFFFFFFFFFFFFFFFFFFFFFFFFFFFFFFFFFFFFFFFFFFFEFFFFFC2F"
definition SECP256K1_N :: int where
  "SECP256K1_N = 0xFFFFFFFFFFFFFFFFFFFFFFFFFFFFFFFEBAAEDCE6AF48A03BBFD25E8CD0364141"
definition SECP256K1_HALF_N :: int where "SECP256K1_HALF_N = SECP256K1_N div 2"
definition curve_A :: int where "curve_A = 0"
definition curve_B :: int where "curve_B = 7"
definition GX :: int where
  "GX = 0x79BE667EF9DCBBAC55A06295CE870B07029BFCDB2DCE28D959F2815B16F81798"
definition GY :: int where
  "GY = 0x483ADA7726A3C4655DA4FBFC0E1108A8FD17B448A68554199C47D08FFB10D4B8"

text \<open>Python's \<open>pow(value, -1, modulus)\<close> raises \<open>ValueError\<close> when there is no inverse.\<close>

definition mod_inverse :: "int \<Rightarrow> int \<Rightarrow> (py_error, int) result" where
  "mod_inverse value modulus =
     (let v = value mod modulus in
      if gcd v modulus = 1 then Inr (fst (bezw (nat v) (nat modulus)) mod modulus) else Inl ValueError)"

text \<open>Python's \<open>pow(base, exponent, modulus)\<close> for a non-negative exponent.\<close>

fun pow_mod :: "int \<Rightarrow> nat \<Rightarrow> int \<Rightarrow> int" where
  "pow_mod b e m =
     (if e = 0 then 1 mod m
      else
        let h = pow_mod (b * b mod m) (e div 2) m
        in if odd e then b * h mod m else h)"

declare pow_mod.simps [simp del]

lemma pow_mod_eq: "pow_mod b e m = b ^ e mod m"
proof (induction b e m rule: pow_mod.induct)
  case (1 b e m)
  show ?case
  proof (cases "e = 0")
    case True
    then show ?thesis by (subst pow_mod.simps) simp
  next
    case False
    then have "pow_mod (b * b mod m) (e div 2) m = (b * b mod m) ^ (e div 2) mod m" by (rule 1)
    also have "\<dots> = b ^ (2 * (e div 2)) mod m"
      by (simp add: power_mod power_mult power2_eq_square)
    finally have h: "pow_mod (b * b mod m) (e div 2) m = b ^ (2 * (e div 2)) mod m" .
    show ?thesis
    proof (cases "odd e")
      case True
      then have "b ^ e = b * b ^ (2 * (e div 2))"
        by (metis odd_two_times_div_two_succ power_Suc Suc_eq_plus1)
      with True False h show ?thesis by (subst pow_mod.simps) (simp add: Let_def mod_mult_right_eq)
    next
      case even: False
      with False h show ?thesis by (subst pow_mod.simps) (simp add: Let_def)
    qed
  qed
qed

lemma mod_inverse_mult:
  assumes "1 < m" "mod_inverse v m = Inr i"
  shows "(v * i) mod m = 1" "0 \<le> i" "i < m"
proof -
  let ?r = "v mod m"
  have g: "gcd ?r m = 1" and i: "i = fst (bezw (nat ?r) (nat m)) mod m"
    using assms(2) by (auto simp: mod_inverse_def Let_def split: if_splits)
  have r: "0 \<le> ?r" using assms(1) by simp
  then have "int (gcd (nat ?r) (nat m)) = 1" using g assms(1) by (simp add: gcd_int_int_eq[symmetric])
  then have "1 = fst (bezw (nat ?r) (nat m)) * ?r + snd (bezw (nat ?r) (nat m)) * m"
    using bezw_aux[of "nat ?r" "nat m"] r assms(1) by simp
  then have "(fst (bezw (nat ?r) (nat m)) * ?r) mod m = 1"
    using assms(1) by (metis mod_mult_self2 mod_pos_pos_trivial zero_le_one mult.commute)
  then show "(v * i) mod m = 1"
    by (simp add: i mod_mult_right_eq mod_mult_left_eq mult.commute)
  show "0 \<le> i" "i < m" using assms(1) by (simp_all add: i)
qed

section \<open>Points\<close>

text \<open>A point is a pair of coordinates; \<open>None\<close> is the point at infinity.\<close>

type_synonym point = "(int \<times> int) option"

definition G_point :: point where "G_point = Some (GX, GY)"

fun is_on_curve :: "point \<Rightarrow> bool" where
  "is_on_curve None = True"
| "is_on_curve (Some (x, y)) =
     ((pow_mod y 2 SECP256K1_P - (pow_mod x 3 SECP256K1_P + curve_A * x + curve_B)) mod SECP256K1_P = 0)"

fun point_neg :: "point \<Rightarrow> point" where
  "point_neg None = None"
| "point_neg (Some (x, y)) = Some (x, (- y) mod SECP256K1_P)"

fun point_add :: "point \<Rightarrow> point \<Rightarrow> (py_error, point) result" where
  "point_add None second = Inr second"
| "point_add (Some first) None = Inr (Some first)"
| "point_add (Some (x1, y1)) (Some (x2, y2)) =
     (if x1 = x2 \<and> (y1 + y2) mod SECP256K1_P = 0 then Inr None
      else if (x1, y1) = (x2, y2) \<and> y1 = 0 then Inr None
      else
        bindR (if (x1, y1) = (x2, y2)
               then bindR (mod_inverse (2 * y1) SECP256K1_P) (\<lambda>inv. Inr ((3 * x1 * x1) * inv))
               else bindR (mod_inverse (x2 - x1) SECP256K1_P) (\<lambda>inv. Inr ((y2 - y1) * inv)))
          (\<lambda>slope.
            let slope = slope mod SECP256K1_P;
                x3 = (slope * slope - x1 - x2) mod SECP256K1_P;
                y3 = (slope * (x1 - x3) - y1) mod SECP256K1_P
            in Inr (Some (x3, y3))))"

function scalar_loop :: "int \<Rightarrow> point \<Rightarrow> point \<Rightarrow> (py_error, point) result" where
  "scalar_loop current res addend =
     (if current \<le> 0 then Inr res
      else
        bindR (if current AND 1 \<noteq> 0 then point_add res addend else Inr res) (\<lambda>res.
        bindR (point_add addend addend) (\<lambda>addend.
        scalar_loop (drop_bit 1 current) res addend)))"
  by pat_completeness auto
termination by (relation "measure (\<lambda>(c, _, _). nat c)") (auto simp: drop_bit_eq_div)

declare scalar_loop.simps [simp del]

text \<open>A negative scalar is negated once, with the point.\<close>

definition scalar_mult :: "int \<Rightarrow> point \<Rightarrow> (py_error, point) result" where
  "scalar_mult scalar p =
     (if p = None \<or> scalar mod SECP256K1_N = 0 then Inr None
      else if scalar < 0 then scalar_loop (- scalar) None (point_neg p)
      else scalar_loop scalar None p)"

definition lift_x :: "int \<Rightarrow> bool \<Rightarrow> (py_error, int \<times> int) result" where
  "lift_x x_coordinate is_odd =
     (if \<not> (0 \<le> x_coordinate \<and> x_coordinate < SECP256K1_P) then Inl ValueError
      else
        let alpha = (pow_mod x_coordinate 3 SECP256K1_P + curve_B) mod SECP256K1_P;
            beta = pow_mod alpha (nat ((SECP256K1_P + 1) div 4)) SECP256K1_P in
        if pow_mod beta 2 SECP256K1_P \<noteq> alpha then Inl ValueError
        else
          let y_coordinate = (if (beta AND 1 \<noteq> 0) = is_odd then beta else SECP256K1_P - beta) in
          if \<not> is_on_curve (Some (x_coordinate, y_coordinate)) then Inl ValueError
          else Inr (x_coordinate, y_coordinate))"

section \<open>Keys and signatures\<close>

definition normalize_private_key_int :: "int \<Rightarrow> (py_error, int) result" where
  "normalize_private_key_int scalar =
     (if 1 \<le> scalar \<and> scalar < SECP256K1_N then Inr scalar else Inl ValueError)"

definition normalize_private_key :: "bytes \<Rightarrow> (py_error, int) result" where
  "normalize_private_key raw =
     (if length raw \<noteq> 32 then Inl ValueError else normalize_private_key_int (be_int raw))"

definition normalize_message_hash :: "bytes \<Rightarrow> (py_error, bytes \<times> int) result" where
  "normalize_message_hash raw = (if length raw \<noteq> 32 then Inl ValueError else Inr (raw, be_int raw))"

record public_key =
  pk_x :: int
  pk_y :: int

definition mk_public_key :: "int \<Rightarrow> int \<Rightarrow> (py_error, public_key) result" where
  "mk_public_key x y =
     (if \<not> (0 \<le> x \<and> x < SECP256K1_P \<and> 0 \<le> y \<and> y < SECP256K1_P) then Inl ValueError
      else if \<not> is_on_curve (Some (x, y)) then Inl ValueError
      else Inr \<lparr>pk_x = x, pk_y = y\<rparr>)"

definition public_key_from_point :: "point \<Rightarrow> (py_error, public_key) result" where
  "public_key_from_point p = (case p of None \<Rightarrow> Inl ValueError | Some (x, y) \<Rightarrow> mk_public_key x y)"

definition public_key_from_raw64 :: "bytes \<Rightarrow> (py_error, public_key) result" where
  "public_key_from_raw64 raw = mk_public_key (be_int (take 32 raw)) (be_int (drop 32 raw))"

definition public_key_from_bytes :: "bytes \<Rightarrow> (py_error, public_key) result" where
  "public_key_from_bytes raw =
     (if length raw = 64 then public_key_from_raw64 raw
      else if length raw = 65 \<and> hd raw = 0x04 then public_key_from_raw64 (tl raw)
      else if length raw = 33 \<and> (hd raw = 0x02 \<or> hd raw = 0x03) then
        bindR (lift_x (be_int (tl raw)) (hd raw AND 1 \<noteq> 0)) (\<lambda>p. public_key_from_point (Some p))
      else Inl ValueError)"

definition public_key_to_bytes :: "public_key \<Rightarrow> bool \<Rightarrow> bool \<Rightarrow> bytes" where
  "public_key_to_bytes pk compressed include_prefix =
     (let x_bytes = be_bytes 32 (pk_x pk); y_bytes = be_bytes 32 (pk_y pk) in
      if compressed then [if pk_y pk AND 1 \<noteq> 0 then 0x03 else 0x02] @ x_bytes
      else if include_prefix then [0x04] @ x_bytes @ y_bytes
      else x_bytes @ y_bytes)"

record signature =
  sig_r :: int
  sig_s :: int
  sig_recovery_id :: int

definition mk_signature :: "int \<Rightarrow> int \<Rightarrow> int \<Rightarrow> (py_error, signature) result" where
  "mk_signature r s recovery_id =
     (if \<not> (1 \<le> r \<and> r < SECP256K1_N) then Inl ValueError
      else if \<not> (1 \<le> s \<and> s < SECP256K1_N) then Inl ValueError
      else if \<not> (0 \<le> recovery_id \<and> recovery_id < 4) then Inl ValueError
      else Inr \<lparr>sig_r = r, sig_s = s, sig_recovery_id = recovery_id\<rparr>)"

definition signature_from_bytes :: "bytes \<Rightarrow> (py_error, signature) result" where
  "signature_from_bytes raw =
     (if length raw = 64 then mk_signature (be_int (take 32 raw)) (be_int (drop 32 raw)) 0
      else if length raw = 65
      then mk_signature (be_int (take 32 raw)) (be_int (slice raw 32 64)) (uint (raw ! 64))
      else Inl ValueError)"

definition signature_to_bytes :: "signature \<Rightarrow> bool \<Rightarrow> bytes" where
  "signature_to_bytes sg include_recovery_id =
     (let payload = be_bytes 32 (sig_r sg) @ be_bytes 32 (sig_s sg)
      in if include_recovery_id then payload @ [word_of_int (sig_recovery_id sg)] else payload)"

definition ethereum_v :: "signature \<Rightarrow> int" where
  "ethereum_v sg = 27 + sig_recovery_id sg"

definition public_key_from_private_key :: "int \<Rightarrow> (py_error, public_key) result" where
  "public_key_from_private_key private_key =
     bindR (normalize_private_key_int private_key) (\<lambda>scalar.
     bindR (scalar_mult scalar G_point) public_key_from_point)"

definition verify_message_hash :: "bytes \<Rightarrow> signature \<Rightarrow> public_key \<Rightarrow> (py_error, bool) result" where
  "verify_message_hash message_hash sg pk =
     bindR (normalize_message_hash message_hash) (\<lambda>(_, hash_int).
     bindR (mod_inverse (sig_s sg) SECP256K1_N) (\<lambda>inverse.
     let u1 = (hash_int * inverse) mod SECP256K1_N;
         u2 = (sig_r sg * inverse) mod SECP256K1_N in
     bindR (scalar_mult u1 G_point) (\<lambda>a.
     bindR (scalar_mult u2 (Some (pk_x pk, pk_y pk))) (\<lambda>b.
     bindR (point_add a b) (\<lambda>p.
     case p of None \<Rightarrow> Inr False | Some (x, _) \<Rightarrow> Inr (x mod SECP256K1_N = sig_r sg))))))"

definition recover_public_key :: "bytes \<Rightarrow> signature \<Rightarrow> (py_error, public_key) result" where
  "recover_public_key message_hash sg =
     bindR (normalize_message_hash message_hash) (\<lambda>(_, hash_int).
     let x_coordinate = sig_r sg + drop_bit 1 (sig_recovery_id sg) * SECP256K1_N in
     if x_coordinate \<ge> SECP256K1_P then Inl ValueError
     else
       bindR (lift_x x_coordinate (sig_recovery_id sg AND 1 \<noteq> 0)) (\<lambda>point_r.
       bindR (scalar_mult SECP256K1_N (Some point_r)) (\<lambda>order.
       if order \<noteq> None then Inl ValueError
       else
         bindR (mod_inverse (sig_r sg) SECP256K1_N) (\<lambda>r_inverse.
         let z_neg = (- hash_int) mod SECP256K1_N in
         bindR (scalar_mult (sig_s sg) (Some point_r)) (\<lambda>a.
         bindR (scalar_mult z_neg G_point) (\<lambda>b.
         bindR (point_add a b) (\<lambda>candidate.
         if candidate = None then Inl ValueError
         else bindR (scalar_mult r_inverse candidate) public_key_from_point)))))))"

definition address_from_public_key :: "public_key \<Rightarrow> (py_error, address) result" where
  "address_from_public_key pk =
     (let digest = keccak256 (public_key_to_bytes pk False False);
          raw = hash_bytes digest
      in mk_address (drop (length raw - 20) raw))"

definition address_from_private_key :: "int \<Rightarrow> (py_error, address) result" where
  "address_from_private_key private_key =
     bindR (public_key_from_private_key private_key) address_from_public_key"

section \<open>The group law stays on the curve\<close>

lemma P_gt_1 [simp]: "1 < SECP256K1_P" "0 < SECP256K1_P" by (simp_all add: SECP256K1_P_def)
lemma N_gt_1 [simp]: "1 < SECP256K1_N" "0 < SECP256K1_N" by (simp_all add: SECP256K1_N_def)

definition eqP :: "int \<Rightarrow> int \<Rightarrow> bool" where
  "eqP a b \<longleftrightarrow> a mod SECP256K1_P = b mod SECP256K1_P"

lemma eqP_refl: "eqP a a" by (simp add: eqP_def)
lemma eqP_mod: "eqP (a mod SECP256K1_P) a" by (simp add: eqP_def)
lemma eqP_add: "eqP a b \<Longrightarrow> eqP c d \<Longrightarrow> eqP (a + c) (b + d)" unfolding eqP_def by (rule mod_add_cong)
lemma eqP_diff: "eqP a b \<Longrightarrow> eqP c d \<Longrightarrow> eqP (a - c) (b - d)" unfolding eqP_def by (rule mod_diff_cong)
lemma eqP_mult: "eqP a b \<Longrightarrow> eqP c d \<Longrightarrow> eqP (a * c) (b * d)" unfolding eqP_def by (rule mod_mult_cong)
lemma eqP_power: "eqP a b \<Longrightarrow> eqP (a ^ n) (b ^ n)" by (induction n) (simp_all add: eqP_refl eqP_mult)
lemma eqP_dvd: "eqP a b \<Longrightarrow> SECP256K1_P dvd a \<longleftrightarrow> SECP256K1_P dvd b"
  by (simp add: eqP_def dvd_eq_mod_eq_0)

lemmas eqP_intros = eqP_mod eqP_add eqP_diff eqP_mult eqP_power eqP_refl

lemma is_on_curve_dvd: "is_on_curve (Some (x, y)) \<longleftrightarrow> SECP256K1_P dvd x ^ 3 + 7 - y\<^sup>2"
proof -
  let ?p = SECP256K1_P
  have "eqP (y\<^sup>2 mod ?p - (x ^ 3 mod ?p + 7)) (y\<^sup>2 - (x ^ 3 + 7))" by (intro eqP_intros)
  then have "is_on_curve (Some (x, y)) \<longleftrightarrow> ?p dvd y\<^sup>2 - (x ^ 3 + 7)"
    by (simp add: pow_mod_eq curve_A_def curve_B_def eqP_dvd mod_eq_0_iff_dvd)
  also have "\<dots> \<longleftrightarrow> ?p dvd x ^ 3 + 7 - y\<^sup>2" by (rule dvd_diff_commute)
  finally show ?thesis .
qed

lemma on_curve_mod: "is_on_curve (Some (x mod SECP256K1_P, y mod SECP256K1_P)) \<longleftrightarrow> is_on_curve (Some (x, y))"
  unfolding is_on_curve_dvd by (intro eqP_dvd eqP_intros)

text \<open>The line with slope \<open>s\<close> through two points meets the curve a third time.\<close>

lemma chord_identity:
  fixes x1 x2 y1 s :: int
  defines "x3 \<equiv> s\<^sup>2 - x1 - x2"
  defines "f \<equiv> \<lambda>x. x ^ 3 + 7 - (y1 + s * (x - x1))\<^sup>2"
  shows "(x2 - x1) * f x3 = (x2 - x3) * f x1 + (x3 - x1) * f x2"
  unfolding f_def x3_def by (simp add: algebra_simps power2_eq_square power3_eq_cube)

lemma tangent_identity:
  fixes x1 y1 s :: int
  defines "x3 \<equiv> s\<^sup>2 - x1 - x1"
  defines "f \<equiv> \<lambda>x. x ^ 3 + 7 - (y1 + s * (x - x1))\<^sup>2"
  shows "f x3 = f x1 + (x3 - x1) * (3 * x1 * x1 - 2 * y1 * s)"
  unfolding f_def x3_def by (simp add: algebra_simps power2_eq_square power3_eq_cube)

lemma third_point_on_curve:
  fixes s x1 x2 y1 :: int
  defines "x3 \<equiv> s\<^sup>2 - x1 - x2"
  assumes "SECP256K1_P dvd x3 ^ 3 + 7 - (y1 + s * (x3 - x1))\<^sup>2"
    and x3': "x3' = (s * s - x1 - x2) mod SECP256K1_P"
  shows "is_on_curve (Some (x3', (s * (x1 - x3') - y1) mod SECP256K1_P))"
proof -
  let ?p = SECP256K1_P
  have "(s * (x1 - x3') - y1) mod ?p = (s * (x1 - x3) - y1) mod ?p"
    unfolding x3' x3_def power2_eq_square eqP_def[symmetric] by (intro eqP_intros)
  moreover have "x3' = x3 mod ?p" by (simp add: x3' x3_def power2_eq_square)
  moreover have "(y1 + s * (x3 - x1))\<^sup>2 = (s * (x1 - x3) - y1)\<^sup>2"
    by (simp add: algebra_simps power2_eq_square)
  ultimately have "is_on_curve (Some (x3', (s * (x1 - x3') - y1) mod ?p)) =
      (?p dvd x3 ^ 3 + 7 - (y1 + s * (x3 - x1))\<^sup>2)"
    by (simp only: on_curve_mod) (simp only: is_on_curve_dvd)
  then show ?thesis using assms(2) by simp
qed

lemma slope_dvd:
  assumes "mod_inverse d SECP256K1_P = Inr i" "s = (c * i) mod SECP256K1_P"
  shows "SECP256K1_P dvd s * d - c"
proof -
  have "(d * i) mod SECP256K1_P = 1" using mod_inverse_mult(1)[OF _ assms(1)] by simp
  then have "(c * (d * i)) mod SECP256K1_P = c mod SECP256K1_P"
    by (metis mod_mult_right_eq mult.right_neutral)
  moreover have "(s * d) mod SECP256K1_P = (c * (d * i)) mod SECP256K1_P"
    unfolding assms(2) by (simp add: mod_simps ac_simps)
  ultimately have "(s * d) mod SECP256K1_P = c mod SECP256K1_P" by (rule trans[rotated])
  then show ?thesis by (simp only: mod_eq_dvd_iff)
qed

lemma dvd_cancel_inverse:
  assumes "mod_inverse d SECP256K1_P = Inr i" "SECP256K1_P dvd d * c"
  shows "SECP256K1_P dvd c"
proof -
  have "(d * i) mod SECP256K1_P = 1" using mod_inverse_mult(1)[OF _ assms(1)] by simp
  then have "(i * (d * c)) mod SECP256K1_P = c mod SECP256K1_P"
    by (metis mod_mult_left_eq mult.assoc mult.commute mult_1)
  with assms(2) show ?thesis by (metis dvd_mult mod_eq_0_iff_dvd)
qed

lemma point_add_on_curve:
  assumes "is_on_curve p" "is_on_curve q" "point_add p q = Inr r"
  shows "is_on_curve r"
proof (cases "p = None \<or> q = None \<or> r = None")
  case True
  with assms show ?thesis by (cases p; cases q) auto
next
  case False
  then obtain x1 y1 x2 y2 where pq: "p = Some (x1, y1)" "q = Some (x2, y2)" by auto
  let ?p = SECP256K1_P
  let ?f = "\<lambda>s x. x ^ 3 + 7 - (y1 + s * (x - x1))\<^sup>2"
  note c1 = assms(1)[unfolded pq is_on_curve_dvd] and c2 = assms(2)[unfolded pq is_on_curve_dvd]
  have f1: "?p dvd ?f s x1" for s using c1 by simp
  show ?thesis
  proof (cases "(x1, y1) = (x2, y2)")
    case True
    then obtain i where i: "mod_inverse (2 * y1) ?p = Inr i"
      and r: "r = (let s = (3 * x1 * x1 * i) mod ?p; x3 = (s * s - x1 - x2) mod ?p
                   in Some (x3, (s * (x1 - x3) - y1) mod ?p))"
      using False assms(3) pq by (auto simp: Let_def split: if_splits)
    define s where "s = (3 * x1 * x1 * i) mod ?p"
    have "?p dvd 3 * x1 * x1 - 2 * y1 * s"
      using slope_dvd[OF i s_def] by (simp add: dvd_diff_commute ac_simps)
    then have "?p dvd ?f s (s\<^sup>2 - x1 - x1)"
      unfolding tangent_identity using f1 by (intro dvd_add dvd_mult)
    then show ?thesis
      using True third_point_on_curve[of s x1 x2 y1 "(s * s - x1 - x2) mod ?p"]
      by (simp add: r[folded s_def] Let_def del: is_on_curve.simps)
  next
    case diff: False
    then obtain i where i: "mod_inverse (x2 - x1) ?p = Inr i"
      and r: "r = (let s = ((y2 - y1) * i) mod ?p; x3 = (s * s - x1 - x2) mod ?p
                   in Some (x3, (s * (x1 - x3) - y1) mod ?p))"
      using False assms(3) pq by (auto simp: Let_def split: if_splits)
    define s where "s = ((y2 - y1) * i) mod ?p"
    have "?p dvd s * (x2 - x1) - (y2 - y1)" by (rule slope_dvd[OF i s_def])
    then have "?p dvd (y1 + s * (x2 - x1) - y2) * (y1 + s * (x2 - x1) + y2)"
      by (intro dvd_mult2) (simp add: algebra_simps)
    then have "?p dvd (x2 ^ 3 + 7 - y2\<^sup>2) - (y1 + s * (x2 - x1) - y2) * (y1 + s * (x2 - x1) + y2)"
      by (intro dvd_diff c2)
    then have "?p dvd ?f s x2" by (simp add: algebra_simps power2_eq_square)
    then have "?p dvd (x2 - x1) * ?f s (s\<^sup>2 - x1 - x2)"
      unfolding chord_identity using f1 by (intro dvd_add dvd_mult)
    then have "?p dvd ?f s (s\<^sup>2 - x1 - x2)" by (rule dvd_cancel_inverse[OF i])
    then show ?thesis
      using third_point_on_curve[of s x1 x2 y1 "(s * s - x1 - x2) mod ?p"]
      by (simp add: r[folded s_def] Let_def del: is_on_curve.simps)
  qed
qed

lemma scalar_loop_on_curve:
  "is_on_curve res \<Longrightarrow> is_on_curve addend \<Longrightarrow> scalar_loop c res addend = Inr r \<Longrightarrow> is_on_curve r"
proof (induction c res addend rule: scalar_loop.induct)
  case (1 c res addend)
  show ?case
  proof (cases "c \<le> 0")
    case True
    with 1 show ?thesis by (simp add: scalar_loop.simps)
  next
    case False
    then obtain res' add' where
      res: "(if c AND 1 \<noteq> 0 then point_add res addend else Inr res) = Inr res'"
      and add: "point_add addend addend = Inr add'" and rest: "scalar_loop (drop_bit 1 c) res' add' = Inr r"
      using "1.prems"(3) by (subst (asm) scalar_loop.simps) (simp, blast)
    have "is_on_curve res'"
      using res "1.prems"(1) point_add_on_curve[OF "1.prems"(1,2), of res'] by (simp split: if_split_asm)
    moreover have "is_on_curve add'" by (rule point_add_on_curve[OF "1.prems"(2,2) add])
    ultimately show ?thesis using "1.IH"[OF False _ _ rest] by simp
  qed
qed

lemma point_neg_on_curve: "is_on_curve p \<Longrightarrow> is_on_curve (point_neg p)"
proof (cases p)
  case (Some xy)
  obtain x y where xy: "p = Some (x, y)" using Some by (cases xy) auto
  assume "is_on_curve p"
  moreover have "eqP (x ^ 3 + 7 - ((- y) mod SECP256K1_P)\<^sup>2) (x ^ 3 + 7 - (- y)\<^sup>2)" by (intro eqP_intros)
  ultimately show ?thesis unfolding xy point_neg.simps is_on_curve_dvd by (simp add: eqP_dvd)
qed simp

lemma scalar_mult_closed: "is_on_curve p \<Longrightarrow> scalar_mult k p = Inr r \<Longrightarrow> is_on_curve r"
  using scalar_loop_on_curve[of None p k r] scalar_loop_on_curve[of None "point_neg p" "- k" r]
    point_neg_on_curve[of p]
  unfolding scalar_mult_def by (simp split: if_split_asm)

lemma G_on_curve: "is_on_curve G_point"
  by (simp add: G_point_def is_on_curve_dvd GX_def GY_def SECP256K1_P_def del: is_on_curve.simps)

lemma scalar_mult_order: "scalar_mult SECP256K1_N p = Inr None"
  by (simp add: scalar_mult_def)

section \<open>Formats and errors\<close>

lemma field_bytes: "0 \<le> v \<Longrightarrow> v < SECP256K1_P \<Longrightarrow> be_int (be_bytes 32 v) = v"
  "0 \<le> v \<Longrightarrow> v < SECP256K1_N \<Longrightarrow> be_int (be_bytes 32 v) = v"
  by (simp_all add: be_int_be_bytes SECP256K1_P_def SECP256K1_N_def del: be_bytes.simps)

definition public_key_wf :: "public_key \<Rightarrow> bool" where
  "public_key_wf pk \<longleftrightarrow> mk_public_key (pk_x pk) (pk_y pk) = Inr pk"

definition signature_wf :: "signature \<Rightarrow> bool" where
  "signature_wf sg \<longleftrightarrow> mk_signature (sig_r sg) (sig_s sg) (sig_recovery_id sg) = Inr sg"

lemma mk_public_key_wf: "mk_public_key x y = Inr pk \<Longrightarrow> public_key_wf pk \<and> is_on_curve (Some (pk_x pk, pk_y pk))"
  by (auto simp: mk_public_key_def public_key_wf_def split: if_splits)

lemma public_key_from_point_wf:
  "public_key_from_point p = Inr pk \<Longrightarrow> public_key_wf pk \<and> p = Some (pk_x pk, pk_y pk)"
  by (auto simp: public_key_from_point_def public_key_wf_def mk_public_key_def
      split: option.splits prod.splits if_splits)

lemma public_key_raw_roundtrip:
  assumes "public_key_wf pk"
  shows "public_key_from_bytes (public_key_to_bytes pk False prefixed) = Inr pk"
proof -
  have "0 \<le> pk_x pk" "pk_x pk < SECP256K1_P" "0 \<le> pk_y pk" "pk_y pk < SECP256K1_P"
    using assms by (auto simp: public_key_wf_def mk_public_key_def split: if_splits)
  then show ?thesis
    using assms by (cases prefixed)
      (simp_all add: public_key_to_bytes_def public_key_from_bytes_def public_key_from_raw64_def field_bytes
        public_key_wf_def del: be_bytes.simps)
qed

lemma signature_roundtrip:
  assumes "signature_wf sg"
  shows "signature_from_bytes (signature_to_bytes sg True) = Inr sg"
proof -
  have "0 \<le> sig_r sg" "sig_r sg < SECP256K1_N" "0 \<le> sig_s sg" "sig_s sg < SECP256K1_N"
    "0 \<le> sig_recovery_id sg" "sig_recovery_id sg < 4"
    using assms by (auto simp: signature_wf_def mk_signature_def split: if_splits)
  then show ?thesis
    using assms by (simp add: signature_to_bytes_def signature_from_bytes_def slice_def field_bytes
        signature_wf_def nth_append uint_word_of_int_byte del: be_bytes.simps)
qed

text \<open>Every exception of the curve code is a \<open>ValueError\<close>, which its callers catch.\<close>

lemma curve_errors:
  "mod_inverse v m = Inl e \<Longrightarrow> e = ValueError"
  "lift_x x b = Inl e \<Longrightarrow> e = ValueError"
  "mk_public_key x y = Inl e \<Longrightarrow> e = ValueError"
  "public_key_from_point p = Inl e \<Longrightarrow> e = ValueError"
  "mk_signature x y z = Inl e \<Longrightarrow> e = ValueError"
  "normalize_message_hash h = Inl e \<Longrightarrow> e = ValueError"
  by (auto simp: mod_inverse_def lift_x_def mk_public_key_def public_key_from_point_def mk_signature_def
      normalize_message_hash_def Let_def split: if_splits option.splits prod.splits)

lemma point_add_error: "point_add p q = Inl e \<Longrightarrow> e = ValueError"
  by (cases "(p, q)" rule: point_add.cases)
    (auto simp: bindR_eq_Inl Let_def curve_errors split: if_splits)

lemma scalar_loop_error: "scalar_loop c res addend = Inl e \<Longrightarrow> e = ValueError"
proof (induction c res addend rule: scalar_loop.induct)
  case (1 c res addend)
  then show ?case
    by (subst (asm) (2) scalar_loop.simps) (auto simp: bindR_eq_Inl point_add_error split: if_splits)
qed

lemma scalar_mult_error: "scalar_mult k p = Inl e \<Longrightarrow> e = ValueError"
  by (auto simp: scalar_mult_def scalar_loop_error split: if_splits)

lemma signature_from_bytes_error: "signature_from_bytes raw = Inl e \<Longrightarrow> e = ValueError"
  by (auto simp: signature_from_bytes_def curve_errors split: if_splits)

lemma recover_error: "recover_public_key h sg = Inl e \<Longrightarrow> e = ValueError"
  by (auto simp: recover_public_key_def bindR_eq_Inl Let_def curve_errors point_add_error scalar_mult_error
      split: if_splits)

lemma address_from_public_key_ok: "\<exists>a. address_from_public_key pk = Inr a"
  by (simp add: address_from_public_key_def Let_def mk_address_def ADDRESS_SIZE_def)

end
