(* ===== verification/Base_Props.thy ===== *)
theory Base_Props
  imports Rlp Secp256k1
begin

text \<open>
  What the base crates promise: the checked forms of \<open>U256\<close> arithmetic fail exactly on overflow,
  byte and hex formats round-trip, RLP decoding inverts encoding and accepts canonical input only,
  the Keccak padding is injective, and the curve operations stay on the curve.
\<close>

section \<open>Integers and byte formats\<close>

text \<open>
  The checked operations return the mathematical result when it is a 256-bit unsigned integer and
  raise \<open>OverflowError\<close> otherwise.
\<close>

theorem u256_checked_operations:
  assumes "0 \<le> v"
  shows "checked_add x (OpInt v) = (if uint x + v < 2 ^ 256 then Inr (word_of_int (uint x + v)) else Inl OverflowError)
    \<and> checked_sub x (OpInt v) = (if v \<le> uint x then Inr (word_of_int (uint x - v)) else Inl OverflowError)
    \<and> checked_mul x (OpInt v) = (if uint x * v < 2 ^ 256 then Inr (word_of_int (uint x * v)) else Inl OverflowError)"
  using assms by (simp only: checked_add_int checked_sub_int checked_mul_int simp_thms)

theorem u256_checked_operations_witness:
  "checked_add 5 (OpInt 7) = Inr 12 \<and> checked_sub 5 (OpInt 7) = Inl OverflowError
   \<and> checked_mul 5 (OpInt (2 ^ 255)) = Inl OverflowError"
  using u256_checked_operations[of 7 5] u256_checked_operations[of "2 ^ 255" 5] by simp

text \<open>
  Byte formats round-trip: a \<open>U256\<close> written to at most 32 bytes in either byte order is read back
  unchanged, and addresses and hashes are read back from their hexadecimal form, with or without the
  prefix.
\<close>

theorem byte_formats_roundtrip:
  assumes "u256_to_bytes x len ord = Inr bs" "len \<le> 32"
  shows "u256_from_bytes bs ord = Inr x \<and> address_from_hex (to_hex (address_bytes a) pfx) = Inr a
    \<and> hash_from_hex (to_hex (hash_bytes h) pfx) = Inr h"
  using u256_bytes_roundtrip[OF assms] address_hex_roundtrip hash_hex_roundtrip by blast

theorem byte_formats_roundtrip_witness:
  "u256_from_bytes [2, 1] LittleEndian = Inr (258 :: u256)"
proof -
  have "bit_length 258 = 9" by (simp add: bit_length_pos)
  moreover have "be_bytes 2 258 = [1, 2]" by code_simp
  ultimately have "u256_to_bytes 258 2 LittleEndian = Inr [2, 1]"
    by (simp add: u256_to_bytes_def)
  from byte_formats_roundtrip[OF this, of 0 True 0] show ?thesis by simp
qed

section \<open>RLP\<close>

text \<open>
  C25. Decoding what was encoded gives the value back, for every nested value whose payloads are
  shorter than \<open>2 ^ 64\<close> bytes, except when some string or list has a payload of exactly 55 bytes: such
  an encoding is rejected (the decoder takes the prefixes \<open>0xB7\<close> and \<open>0xF7\<close> for long forms).
\<close>

theorem rlp_decode_after_encode:
  assumes "rlp_fits v"
  shows "bindR (case rlp_encode (obj_of_rlp v) of Inl _ \<Rightarrow> Inl RlpDecodingError | Inr bs \<Rightarrow> Inr bs) rlp_decode =
    (if rlp_has55 v then Inl RlpDecodingError else Inr v)"
  using rlp_decode_ref[OF assms] by (simp add: rlp_encode_ref)

theorem rlp_decode_after_encode_witness:
  "rlp_decode (rlp_ref (RList [RBytes [1, 2], RList []])) = Inr (RList [RBytes [1, 2], RList []])
   \<and> rlp_decode (rlp_ref (RBytes (replicate 55 0))) = Inl RlpDecodingError"
  using rlp_decode_after_encode[of "RList [RBytes [1, 2], RList []]"]
    rlp_decode_after_encode[of "RBytes (replicate 55 0)"]
  by (simp add: rlp_encode_ref) (simp add: rlp_encode_bytes_def rlp_wrap_list_def Let_def)

text \<open>
  C26. The decoder accepts canonical encodings only: whatever it accepts is, byte for byte, the encoding
  of the value it returns.
\<close>

theorem rlp_decode_canonical:
  assumes "rlp_decode bs = Inr v"
  shows "rlp_encode (obj_of_rlp v) = Inr bs"
  using rlp_decode_sound[OF assms] by (simp add: rlp_encode_ref)

theorem rlp_decode_canonical_witness:
  "rlp_encode (obj_of_rlp (RBytes [5])) = Inr [5]"
proof -
  have "rlp_decode [5] = Inr (RBytes [5])" by (simp add: rlp_decode_def rlp_decode_item.simps)
  then show ?thesis by (rule rlp_decode_canonical)
qed

text \<open>
  Every integer of at most 256 bits is encoded, and its encoding decodes to it; a negative integer
  is refused with \<open>ValueError\<close>.
\<close>

theorem rlp_integers_roundtrip:
  "(0 \<le> v \<and> v < 2 ^ 256 \<longrightarrow> (\<exists>bs. rlp_encode (ObjInt v) = Inr bs \<and> rlp_decode_int bs = Inr v))
   \<and> (v < 0 \<longrightarrow> rlp_encode (ObjInt v) = Inl ValueError)"
  using rlp_int_roundtrip[of v] by (simp add: rlp_encode_int_def)

theorem rlp_integers_roundtrip_witness:
  "\<exists>bs. rlp_encode (ObjInt 1024) = Inr bs \<and> rlp_decode_int bs = Inr 1024"
  using rlp_integers_roundtrip[of 1024] by simp

section \<open>Hashing and signatures\<close>

text \<open>
  The Keccak padding is a whole number of blocks and injective: two messages with the same padded
  form are the same message.
\<close>

theorem keccak_padding:
  "length (keccak_pad data) mod RATE_BYTES = 0 \<and> (keccak_pad data = keccak_pad data' \<longleftrightarrow> data = data')"
  using keccak_pad_form[of data] keccak_pad_inj[of data data'] by (auto simp: RATE_BYTES_def)

text \<open>
  Scalar multiplication stays on the curve: whenever it returns for a point of secp256k1, the
  result is the point at infinity or satisfies the curve equation again.
\<close>

theorem scalar_mult_on_curve:
  assumes "is_on_curve p" "scalar_mult k p = Inr r"
  shows "is_on_curve r"
  by (rule scalar_mult_closed[OF assms])

theorem scalar_mult_on_curve_witness: "is_on_curve G_point \<and> is_on_curve None"
proof -
  have "scalar_mult 0 G_point = Inr None" by (simp add: scalar_mult_def)
  then show ?thesis using scalar_mult_on_curve[OF G_on_curve] G_on_curve by blast
qed

text \<open>
  Public-key recovery either raises \<open>ValueError\<close> or returns a key that the constructor of
  \<open>PublicKey\<close> accepts: coordinates in the field, on the curve, and equal to what its own uncompressed
  byte form decodes to.
\<close>

theorem recover_public_key_sound:
  "case recover_public_key message_hash sg of
     Inl e \<Rightarrow> e = ValueError
   | Inr pk \<Rightarrow> mk_public_key (pk_x pk) (pk_y pk) = Inr pk \<and> is_on_curve (Some (pk_x pk, pk_y pk))
       \<and> public_key_from_bytes (public_key_to_bytes pk False pfx) = Inr pk"
proof (cases "recover_public_key message_hash sg")
  case (Inl e)
  then show ?thesis by (simp add: recover_error)
next
  case (Inr pk)
  then obtain p where "public_key_from_point p = Inr pk"
    by (auto simp: recover_public_key_def Let_def split: if_splits)
  then have "public_key_wf pk" by (simp add: public_key_from_point_wf)
  then show ?thesis
    using Inr public_key_raw_roundtrip[of pk pfx] mk_public_key_wf[of "pk_x pk" "pk_y pk" pk]
    by (simp add: public_key_wf_def del: is_on_curve.simps)
qed

end
