(* ===== verification/Evm_Base.thy ===== *)
theory Evm_Base
  imports Keccak Rlp
begin

text \<open>
  The tables and helpers of the crate \<open>evm\<close>: opcode classes (\<open>evm/opcodes.py\<close>), gas constants and
  cost formulas (\<open>evm/gas.py\<close>), word arithmetic, buffer reads, jump destinations and contract
  addresses (\<open>evm/utils.py\<close>) and the exception classes (\<open>evm/exceptions.py\<close>). The lemmas bound the
  costs, characterise the jump destinations by instruction boundaries, and relate the helpers on
  Python integers to the arithmetic of words.
\<close>

section \<open>Exceptions\<close>

text \<open>
  The subclasses of \<open>EVMError\<close> that the code raises, a builtin exception (\<open>PyError\<close>), and the
  artificial outcome of an interpreter run whose fuel ends.
\<close>

datatype evm_exn =
    StackUnderflowError | StackOverflowError | InvalidOpcodeError | InvalidJumpDestinationError
  | OutOfGasError | WriteProtectionError | CallDepthExceededError | ReturnDataBoundsError
  | ExecutionReturn bytes | ExecutionRevert bytes
  | PyError py_error | FuelExhausted

fun is_evm_error :: "evm_exn \<Rightarrow> bool" where
  "is_evm_error (PyError _) = False"
| "is_evm_error FuelExhausted = False"
| "is_evm_error _ = True"

definition py :: "(py_error, 'a) result \<Rightarrow> (evm_exn, 'a) result" where
  "py r = (case r of Inl e \<Rightarrow> Inl (PyError e) | Inr x \<Rightarrow> Inr x)"

lemma py_simps [simp]: "py (Inl e) = Inl (PyError e)" "py (Inr x) = Inr x"
  "py r = Inr x \<longleftrightarrow> r = Inr x"
  by (auto simp: py_def split: sum.splits)

section \<open>Opcodes\<close>

definition OPCODE_NAMES :: "(int, string) dict" where
  "OPCODE_NAMES = [
     (0x00, ''STOP''), (0x01, ''ADD''), (0x02, ''MUL''), (0x03, ''SUB''), (0x04, ''DIV''),
     (0x06, ''MOD''), (0x10, ''LT''), (0x11, ''GT''), (0x14, ''EQ''), (0x15, ''ISZERO''),
     (0x16, ''AND''), (0x17, ''OR''), (0x18, ''XOR''), (0x19, ''NOT''), (0x1A, ''BYTE''),
     (0x1B, ''SHL''), (0x1C, ''SHR''), (0x1D, ''SAR''), (0x20, ''KECCAK256''), (0x30, ''ADDRESS''),
     (0x31, ''BALANCE''), (0x32, ''ORIGIN''), (0x33, ''CALLER''), (0x34, ''CALLVALUE''), (0x35, ''CALLDATALOAD''),
     (0x36, ''CALLDATASIZE''), (0x37, ''CALLDATACOPY''), (0x38, ''CODESIZE''), (0x39, ''CODECOPY''), (0x3A, ''GASPRICE''),
     (0x3D, ''RETURNDATASIZE''), (0x3E, ''RETURNDATACOPY''), (0x46, ''CHAINID''), (0x50, ''POP''), (0x51, ''MLOAD''),
     (0x52, ''MSTORE''), (0x53, ''MSTORE8''), (0x54, ''SLOAD''), (0x55, ''SSTORE''), (0x56, ''JUMP''),
     (0x57, ''JUMPI''), (0x58, ''PC''), (0x59, ''MSIZE''), (0x5A, ''GAS''), (0x5B, ''JUMPDEST''),
     (0x5F, ''PUSH0''), (0xF0, ''CREATE''), (0xF1, ''CALL''), (0xF3, ''RETURN''), (0xF4, ''DELEGATECALL''),
     (0xF5, ''CREATE2''), (0xFA, ''STATICCALL''), (0xFD, ''REVERT''), (0xFE, ''INVALID'')]"

definition PUSH0 :: int where "PUSH0 = 0x5F"
definition LOG0 :: int where "LOG0 = 0xA0"
definition LOG4 :: int where "LOG4 = 0xA4"

definition is_push :: "int \<Rightarrow> bool" where
  "is_push opcode \<longleftrightarrow> opcode = PUSH0 \<or> (0x60 \<le> opcode \<and> opcode \<le> 0x7F)"

definition push_size :: "int \<Rightarrow> (py_error, int) result" where
  "push_size opcode =
     (if opcode = PUSH0 then Inr 0
      else if 0x60 \<le> opcode \<and> opcode \<le> 0x7F then Inr (opcode - 0x5F)
      else Inl ValueError)"

definition is_dup :: "int \<Rightarrow> bool" where
  "is_dup opcode \<longleftrightarrow> 0x80 \<le> opcode \<and> opcode \<le> 0x8F"

definition dup_index :: "int \<Rightarrow> int" where "dup_index opcode = opcode - 0x7F"

definition is_swap :: "int \<Rightarrow> bool" where
  "is_swap opcode \<longleftrightarrow> 0x90 \<le> opcode \<and> opcode \<le> 0x9F"

definition swap_index :: "int \<Rightarrow> int" where "swap_index opcode = opcode - 0x8F"

definition is_log :: "int \<Rightarrow> bool" where
  "is_log opcode \<longleftrightarrow> LOG0 \<le> opcode \<and> opcode \<le> LOG4"

definition log_topic_count :: "int \<Rightarrow> int" where "log_topic_count opcode = opcode - LOG0"

section \<open>Gas\<close>

definition GAS_ZERO :: int where "GAS_ZERO = 0"
definition GAS_BASE :: int where "GAS_BASE = 2"
definition GAS_VERYLOW :: int where "GAS_VERYLOW = 3"
definition GAS_LOW :: int where "GAS_LOW = 5"
definition GAS_MID :: int where "GAS_MID = 8"
definition GAS_HIGH :: int where "GAS_HIGH = 10"
definition GAS_JUMPDEST :: int where "GAS_JUMPDEST = 1"
definition GAS_SLOAD :: int where "GAS_SLOAD = 100"
definition GAS_BALANCE :: int where "GAS_BALANCE = 100"
definition GAS_SSTORE_SET :: int where "GAS_SSTORE_SET = 20000"
definition GAS_SSTORE_RESET :: int where "GAS_SSTORE_RESET = 5000"
definition GAS_SSTORE_CLEAR_REFUND :: int where "GAS_SSTORE_CLEAR_REFUND = 4800"
definition GAS_MEMORY :: int where "GAS_MEMORY = 3"
definition GAS_COPY :: int where "GAS_COPY = 3"
definition GAS_KECCAK256 :: int where "GAS_KECCAK256 = 30"
definition GAS_KECCAK256_WORD :: int where "GAS_KECCAK256_WORD = 6"
definition GAS_LOG :: int where "GAS_LOG = 375"
definition GAS_LOG_TOPIC :: int where "GAS_LOG_TOPIC = 375"
definition GAS_LOG_DATA :: int where "GAS_LOG_DATA = 8"
definition GAS_CALL :: int where "GAS_CALL = 700"
definition GAS_CALL_VALUE :: int where "GAS_CALL_VALUE = 9000"
definition GAS_NEW_ACCOUNT :: int where "GAS_NEW_ACCOUNT = 25000"
definition GAS_CALL_STIPEND :: int where "GAS_CALL_STIPEND = 2300"
definition GAS_CREATE :: int where "GAS_CREATE = 32000"
definition GAS_CREATE2_WORD :: int where "GAS_CREATE2_WORD = 6"
definition GAS_SHA256 :: int where "GAS_SHA256 = 60"
definition GAS_SHA256_WORD :: int where "GAS_SHA256_WORD = 12"
definition GAS_RIPEMD160 :: int where "GAS_RIPEMD160 = 600"
definition GAS_RIPEMD160_WORD :: int where "GAS_RIPEMD160_WORD = 120"
definition GAS_IDENTITY :: int where "GAS_IDENTITY = 15"
definition GAS_IDENTITY_WORD :: int where "GAS_IDENTITY_WORD = 3"
definition GAS_ECRECOVER :: int where "GAS_ECRECOVER = 3000"

lemmas gas_defs =
  GAS_ZERO_def GAS_BASE_def GAS_VERYLOW_def GAS_LOW_def GAS_MID_def GAS_HIGH_def GAS_JUMPDEST_def
  GAS_SLOAD_def GAS_BALANCE_def GAS_SSTORE_SET_def GAS_SSTORE_RESET_def
  GAS_SSTORE_CLEAR_REFUND_def GAS_MEMORY_def GAS_COPY_def GAS_KECCAK256_def
  GAS_KECCAK256_WORD_def GAS_LOG_def GAS_LOG_TOPIC_def GAS_LOG_DATA_def GAS_CALL_def
  GAS_CALL_VALUE_def GAS_NEW_ACCOUNT_def GAS_CALL_STIPEND_def GAS_CREATE_def GAS_CREATE2_WORD_def
  GAS_SHA256_def GAS_SHA256_WORD_def GAS_RIPEMD160_def GAS_RIPEMD160_WORD_def GAS_IDENTITY_def
  GAS_IDENTITY_WORD_def GAS_ECRECOVER_def

definition BASE_OPCODE_GAS :: "(int, int) dict" where
  "BASE_OPCODE_GAS = [
     (0x00, GAS_ZERO), (0x01, GAS_VERYLOW), (0x02, GAS_LOW), (0x03, GAS_VERYLOW),
     (0x04, GAS_LOW), (0x06, GAS_LOW), (0x10, GAS_VERYLOW), (0x11, GAS_VERYLOW),
     (0x14, GAS_VERYLOW), (0x15, GAS_VERYLOW), (0x16, GAS_VERYLOW), (0x17, GAS_VERYLOW),
     (0x18, GAS_VERYLOW), (0x19, GAS_VERYLOW), (0x1A, GAS_VERYLOW), (0x1B, GAS_VERYLOW),
     (0x1C, GAS_VERYLOW), (0x1D, GAS_VERYLOW), (0x20, GAS_KECCAK256), (0x30, GAS_BASE),
     (0x31, GAS_BALANCE), (0x32, GAS_BASE), (0x33, GAS_BASE), (0x34, GAS_BASE),
     (0x35, GAS_VERYLOW), (0x36, GAS_BASE), (0x37, GAS_VERYLOW), (0x38, GAS_BASE),
     (0x39, GAS_VERYLOW), (0x3A, GAS_BASE), (0x3D, GAS_BASE), (0x3E, GAS_VERYLOW),
     (0x46, GAS_BASE), (0x50, GAS_BASE), (0x51, GAS_VERYLOW), (0x52, GAS_VERYLOW),
     (0x53, GAS_VERYLOW), (0x54, GAS_SLOAD), (0x56, GAS_MID), (0x57, GAS_HIGH),
     (0x58, GAS_BASE), (0x59, GAS_BASE), (0x5A, GAS_BASE), (0x5B, GAS_JUMPDEST),
     (0x5F, GAS_BASE), (0xF1, 0), (0xF0, 0), (0xF3, 0),
     (0xF4, 0), (0xF5, 0), (0xFA, 0), (0xFD, 0)]
     @ map (\<lambda>opcode. (opcode, GAS_VERYLOW)) [0x60..0x7F]
     @ map (\<lambda>opcode. (opcode, GAS_VERYLOW)) [0x80..0x9F]"

definition base_opcode_gas :: "int \<Rightarrow> int" where
  "base_opcode_gas opcode = (case dict_get BASE_OPCODE_GAS opcode of Some g \<Rightarrow> g | None \<Rightarrow> 0)"

definition memory_cost :: "int \<Rightarrow> int" where
  "memory_cost word_count = (GAS_MEMORY * word_count) + (word_count * word_count div 512)"

definition memory_expansion_cost :: "int \<Rightarrow> int \<Rightarrow> int" where
  "memory_expansion_cost current_words new_words =
     (if new_words \<le> current_words then 0 else memory_cost new_words - memory_cost current_words)"

definition copy_cost :: "int \<Rightarrow> int" where
  "copy_cost sz = ((sz + 31) div 32) * GAS_COPY"

lemma base_opcode_gas_nonneg: "0 \<le> base_opcode_gas opcode"
proof -
  have "list_all (\<lambda>(k, g). 0 \<le> g) BASE_OPCODE_GAS"
    by (simp add: BASE_OPCODE_GAS_def gas_defs list_all_iff)
  then show ?thesis
    by (auto simp: base_opcode_gas_def list_all_iff dest!: map_of_SomeD split: option.splits)
qed

lemma base_gas_jump: "base_opcode_gas 0x56 = 8" "base_opcode_gas 0x57 = 10"
  by (simp_all add: base_opcode_gas_def BASE_OPCODE_GAS_def gas_defs)

lemma memory_cost_mono: "0 \<le> a \<Longrightarrow> a \<le> b \<Longrightarrow> memory_cost a \<le> memory_cost b"
  unfolding memory_cost_def gas_defs
  by (intro add_mono mult_mono zdiv_mono1) auto

lemma memory_expansion_cost_nonneg: "0 \<le> a \<Longrightarrow> 0 \<le> memory_expansion_cost a b"
  using memory_cost_mono[of a b] by (simp add: memory_expansion_cost_def)

text \<open>Growing in two steps costs what growing at once costs.\<close>

lemma memory_expansion_cost_add:
  "0 \<le> a \<Longrightarrow> a \<le> b \<Longrightarrow> b \<le> c \<Longrightarrow>
   memory_expansion_cost a b + memory_expansion_cost b c = memory_expansion_cost a c"
  by (auto simp: memory_expansion_cost_def)

lemma copy_cost_nonneg: "0 \<le> s \<Longrightarrow> 0 \<le> copy_cost s"
  by (simp add: copy_cost_def gas_defs)

section \<open>Word arithmetic\<close>

definition UINT256_MODULUS :: int where "UINT256_MODULUS = push_bit 256 1"
definition UINT256_MASK :: int where "UINT256_MASK = UINT256_MODULUS - 1"
definition MAX_CALL_DEPTH :: int where "MAX_CALL_DEPTH = 1024"
definition MAX_STACK_DEPTH :: nat where "MAX_STACK_DEPTH = 1024"
definition ZERO_ADDRESS :: address where "ZERO_ADDRESS = 0"

definition to_uint256 :: "int \<Rightarrow> int" where
  "to_uint256 value = value AND UINT256_MASK"

definition ceil32 :: "int \<Rightarrow> (py_error, int) result" where
  "ceil32 value =
     (if value < 0 then Inl ValueError
      else if value = 0 then Inr 0
      else Inr (((value + 31) div 32) * 32))"

definition words_for_size :: "int \<Rightarrow> (py_error, int) result" where
  "words_for_size sz = bindR (ceil32 sz) (\<lambda>c. Inr (c div 32))"

definition to_signed :: "int \<Rightarrow> int" where
  "to_signed value =
     (let normalized = to_uint256 value in
      if normalized \<ge> push_bit 255 1 then normalized - UINT256_MODULUS else normalized)"

definition from_signed :: "int \<Rightarrow> int" where
  "from_signed value = value AND UINT256_MASK"

definition int_to_bytes32 :: "int \<Rightarrow> bytes" where
  "int_to_bytes32 value = be_bytes 32 (to_uint256 value)"

definition address_to_int :: "address \<Rightarrow> int" where
  "address_to_int a = be_int (address_bytes a)"

definition last20 :: "bytes \<Rightarrow> bytes" where
  "last20 bs = drop (length bs - 20) bs"

definition int_to_address :: "int \<Rightarrow> address" where
  "int_to_address value = word_of_int (be_int (last20 (be_bytes 32 (to_uint256 value))))"

definition buffer_read :: "bytes \<Rightarrow> int \<Rightarrow> int \<Rightarrow> (py_error, bytes) result" where
  "buffer_read raw offset sz =
     (if offset < 0 \<or> sz < 0 then Inl ValueError
      else if sz = 0 then Inr []
      else if offset \<ge> int (length raw) then Inr (replicate (nat sz) 0)
      else
        let chunk = slice raw offset (offset + sz) in
        Inr (if int (length chunk) < sz
             then chunk @ replicate (nat (sz - int (length chunk))) 0 else chunk))"

lemma to_uint256_eq: "to_uint256 v = v mod 2 ^ 256"
  unfolding to_uint256_def UINT256_MASK_def UINT256_MODULUS_def
  using and_mask_int[of v 256] by (simp add: push_bit_eq_mult)

lemma from_signed_eq: "from_signed v = v mod 2 ^ 256"
  using to_uint256_eq by (simp add: from_signed_def to_uint256_def)

lemma to_uint256_range [simp]: "0 \<le> to_uint256 v" "to_uint256 v < 2 ^ 256"
  by (simp_all add: to_uint256_eq)

lemma words_for_size_eq: "0 \<le> s \<Longrightarrow> words_for_size s = Inr ((s + 31) div 32)"
  by (auto simp: words_for_size_def ceil32_def)

lemma to_signed_word: "to_signed v = sint (word_of_int v :: 256 word)"
proof -
  have half: "push_bit 255 (1::int) = 2 ^ 255" and full: "UINT256_MODULUS = 2 ^ 256"
    by (simp_all add: push_bit_eq_mult UINT256_MODULUS_def)
  have u: "uint (word_of_int v :: 256 word) = v mod 2 ^ 256" by (simp add: uint_word_of_int)
  define r where "r = v mod 2 ^ 256"
  have r: "0 \<le> r" "r < 2 ^ 256" by (simp_all add: r_def)
  have "sint (word_of_int v :: 256 word) = (r + 2 ^ 255) mod 2 ^ 256 - 2 ^ 255"
    by (simp add: sint_uint u signed_take_bit_eq_take_bit_shift take_bit_eq_mod r_def)
  also have "\<dots> = (if r < 2 ^ 255 then r else r - 2 ^ 256)"
  proof (cases "r < 2 ^ 255")
    case True
    then have "(r + 2 ^ 255) mod 2 ^ 256 = r + 2 ^ 255"
      using r by (intro mod_pos_pos_trivial) auto
    with True show ?thesis by simp
  next
    case False
    have "(r + 2 ^ 255) mod 2 ^ 256 = (r - 2 ^ 255 + 2 ^ 256) mod 2 ^ 256"
      by (rule arg_cong[of _ _ "\<lambda>x. x mod 2 ^ 256"]) simp
    also have "\<dots> = r - 2 ^ 255"
      using False r unfolding mod_add_self2 by (intro mod_pos_pos_trivial) auto
    finally show ?thesis using False by simp
  qed
  finally have "sint (word_of_int v :: 256 word) = (if r < 2 ^ 255 then r else r - 2 ^ 256)" .
  then show ?thesis by (simp add: to_signed_def Let_def to_uint256_eq half full r_def not_less)
qed

lemma to_signed_from_signed: "- (2 ^ 255) \<le> v \<Longrightarrow> v < 2 ^ 255 \<Longrightarrow> to_signed (from_signed v) = v"
  by (simp add: to_signed_word from_signed_eq sint_uint uint_word_of_int
      signed_take_bit_eq_take_bit_shift take_bit_eq_mod mod_add_left_eq)

lemma address_to_int_eq: "address_to_int a = uint a"
  using uint_address_lt[of a]
  by (simp add: address_to_int_def address_bytes_def ADDRESS_SIZE_def be_int_be_bytes_id)

lemma int_to_address_eq: "int_to_address v = word_of_int v"
proof -
  let ?b = "be_bytes 32 (to_uint256 v)"
  have "be_int ?b = be_int (take 12 ?b @ drop 12 ?b)" by simp
  then have split: "be_int ?b = be_int (take 12 ?b) * 256 ^ 20 + be_int (drop 12 ?b)"
    by (simp only: be_int_append) simp
  have full: "be_int ?b = v mod 2 ^ 256"
    using to_uint256_range(1,2)[of v] by (simp add: be_int_be_bytes to_uint256_eq)
  have "be_int (drop 12 ?b) mod 2 ^ 160 = v mod 2 ^ 256 mod 2 ^ 160"
    unfolding full[symmetric] split by simp
  also have "\<dots> = v mod 2 ^ 160" by (rule mod_mod_cancel, rule le_imp_power_dvd) simp
  finally show ?thesis
    by (simp add: int_to_address_def last20_def word_of_int_eq_iff take_bit_eq_mod)
qed

lemma address_int_roundtrip: "int_to_address (address_to_int a) = a"
  by (simp add: int_to_address_eq address_to_int_eq)

lemma length_pad_zeros:
  "int (length (c :: bytes)) \<le> sz \<Longrightarrow>
   length (if int (length c) < sz then c @ replicate (nat (sz - int (length c))) 0 else c) = nat sz"
  by (auto simp: nat_diff_distrib')

lemma length_buffer_read:
  assumes "buffer_read raw offset sz = Inr bs"
  shows "length bs = nat sz"
proof -
  have ok: "0 \<le> offset" "0 \<le> sz" using assms by (auto simp: buffer_read_def split: if_splits)
  have "int (length (slice raw offset (offset + sz))) \<le> sz"
    using ok by (simp add: length_slice nat_add_distrib min_le_iff_disj)
  then show ?thesis
    using assms length_pad_zeros[of "slice raw offset (offset + sz)" sz] ok
    by (auto simp: buffer_read_def Let_def split: if_split_asm)
qed

lemma buffer_read_ok: "0 \<le> offset \<Longrightarrow> 0 \<le> sz \<Longrightarrow>
  \<exists>bs. buffer_read raw offset sz = Inr bs \<and> length bs = nat sz"
proof -
  assume "0 \<le> offset" "0 \<le> sz"
  then have "\<exists>bs. buffer_read raw offset sz = Inr bs" by (auto simp: buffer_read_def Let_def)
  then show ?thesis using length_buffer_read by blast
qed

section \<open>Jump destinations\<close>

function jumpdests_from :: "bytes \<Rightarrow> nat \<Rightarrow> int set" where
  "jumpdests_from code index =
     (if index < length code then
        let opcode = uint (code ! index) in
        if opcode = 0x5B then insert (int index) (jumpdests_from code (index + 1))
        else if 0x60 \<le> opcode \<and> opcode \<le> 0x7F
        then jumpdests_from code (index + 1 + nat (opcode - 0x5F))
        else jumpdests_from code (index + 1)
      else {})"
  by pat_completeness auto
termination by (relation "measure (\<lambda>(code, index). length code - index)") auto

declare jumpdests_from.simps [simp del]

definition collect_jumpdest_offsets :: "bytes \<Rightarrow> int set" where
  "collect_jumpdest_offsets code = jumpdests_from code 0"

text \<open>The reference: positions where an instruction starts when the code is read from \<open>i\<close>.\<close>

definition instr_length :: "byte \<Rightarrow> nat" where
  "instr_length b = (if 0x60 \<le> uint b \<and> uint b \<le> 0x7F then 1 + nat (uint b - 0x5F) else 1)"

inductive instr_start :: "bytes \<Rightarrow> nat \<Rightarrow> nat \<Rightarrow> bool" for code where
  here: "instr_start code i i"
| later: "i < length code \<Longrightarrow> instr_start code (i + instr_length (code ! i)) j \<Longrightarrow> instr_start code i j"

lemma instr_start_le: "instr_start code i j \<Longrightarrow> i \<le> j"
  by (induction rule: instr_start.induct) auto

lemma instr_start_unfold: "instr_start code i j \<longleftrightarrow>
  i = j \<or> (i < length code \<and> instr_start code (i + instr_length (code ! i)) j)"
  by (subst instr_start.simps) auto

lemma jumpdests_from_iff:
  "d \<in> jumpdests_from code i \<longleftrightarrow>
     (\<exists>j. d = int j \<and> instr_start code i j \<and> j < length code \<and> uint (code ! j) = 0x5B)"
proof (induction code i rule: jumpdests_from.induct)
  case (1 code i)
  show ?case
  proof (cases "i < length code")
    case True
    let ?op = "uint (code ! i)"
    have len: "instr_length (code ! i) =
        (if 0x60 \<le> ?op \<and> ?op \<le> 0x7F then i + 1 + nat (?op - 0x5F) else i + 1) - i"
      by (simp add: instr_length_def)
    have step: "instr_start code i j \<longleftrightarrow> i = j \<or>
        instr_start code (if 0x60 \<le> ?op \<and> ?op \<le> 0x7F then i + 1 + nat (?op - 0x5F) else i + 1) j" for j
      using True by (subst instr_start_unfold) (auto simp: instr_length_def add.assoc)
    consider "?op = 0x5B" | "0x60 \<le> ?op \<and> ?op \<le> 0x7F" | "?op \<noteq> 0x5B" "\<not> (0x60 \<le> ?op \<and> ?op \<le> 0x7F)"
      by linarith
    then show ?thesis
    proof cases
      case 1
      then have "jumpdests_from code i = insert (int i) (jumpdests_from code (i + 1))"
        using True by (subst jumpdests_from.simps) simp
      with "1.IH"(1)[OF True refl 1] 1 True step show ?thesis by auto
    next
      case 2
      then have "jumpdests_from code i = jumpdests_from code (i + 1 + nat (?op - 0x5F))"
        using True by (subst jumpdests_from.simps) simp
      with "1.IH"(2)[OF True refl] 2 step show ?thesis by auto
    next
      case 3
      then have "jumpdests_from code i = jumpdests_from code (i + 1)"
        using True by (subst jumpdests_from.simps) auto
      with "1.IH"(3)[OF True refl 3] 3 step show ?thesis by auto
    qed
  next
    case False
    then show ?thesis
      by (subst jumpdests_from.simps) (auto dest: instr_start_le)
  qed
qed

lemma collect_jumpdest_bounds:
  "d \<in> collect_jumpdest_offsets code \<Longrightarrow> 0 \<le> d \<and> d < int (length code)"
  by (auto simp: collect_jumpdest_offsets_def jumpdests_from_iff)

section \<open>Contract addresses\<close>

definition compute_create_address :: "address \<Rightarrow> int \<Rightarrow> (py_error, address) result" where
  "compute_create_address sender nonce =
     bindR (rlp_encode (ObjList [ObjBytes (address_bytes sender), ObjInt nonce])) (\<lambda>encoded.
     mk_address (last20 (hash_bytes (keccak256 encoded))))"

definition compute_create2_address :: "address \<Rightarrow> int \<Rightarrow> bytes \<Rightarrow> (py_error, address) result" where
  "compute_create2_address sender salt init_code =
     (let salt_bytes = be_bytes 32 (to_uint256 salt);
          payload = [0xFF] @ address_bytes sender @ salt_bytes @ hash_bytes (keccak256 init_code)
      in mk_address (last20 (hash_bytes (keccak256 payload))))"

lemma mk_address_last20_hash: "\<exists>a. mk_address (last20 (hash_bytes h)) = Inr a"
  by (simp add: mk_address_def last20_def ADDRESS_SIZE_def)

lemma compute_create_address_ok: "0 \<le> nonce \<Longrightarrow> \<exists>a. compute_create_address sender nonce = Inr a"
  using mk_address_last20_hash by (simp add: compute_create_address_def rlp_encode_int_def)

lemma compute_create2_address_ok: "\<exists>a. compute_create2_address sender salt init_code = Inr a"
  using mk_address_last20_hash by (simp add: compute_create2_address_def Let_def)

end
