(* ===== verification/Evm_State.thy ===== *)
theory Evm_State
  imports Evm_Base
begin

text \<open>
  The world state of the crate \<open>evm\<close>: \<open>StorageSlot\<close> and \<open>Storage\<close> (\<open>evm/storage.py\<close>),
  \<open>Account\<close> (\<open>evm/account.py\<close>), \<open>StateDB\<close> (\<open>evm/state.py\<close>) and the \<open>StateJournal\<close> of the
  crate \<open>execution\<close> (\<open>execution/journal.py\<close>). The lemmas give the laws of storage (the last write
  wins, path independence of the metering of writes), well-formedness of accounts, conservation of
  the total balance by transfers, and that a journal checkpoint brings back the state it saw.
\<close>

section \<open>Storage\<close>

record slot =
  slot_original :: int
  slot_current :: int

type_synonym storage = "(int, slot) dict"

definition empty_slot :: slot where
  "empty_slot = \<lparr>slot_original = 0, slot_current = 0\<rparr>"

definition storage_normalize :: "int \<Rightarrow> int" where
  "storage_normalize value = value AND UINT256_MASK"

definition storage_slot :: "storage \<Rightarrow> int \<Rightarrow> slot" where
  "storage_slot st key =
     (case dict_get st (storage_normalize key) of None \<Rightarrow> empty_slot | Some slot \<Rightarrow> slot)"

definition storage_get :: "storage \<Rightarrow> int \<Rightarrow> int" where
  "storage_get st key = slot_current (storage_slot st key)"

definition storage_original :: "storage \<Rightarrow> int \<Rightarrow> int" where
  "storage_original st key = slot_original (storage_slot st key)"

definition estimate_sstore_cost :: "storage \<Rightarrow> int \<Rightarrow> int \<Rightarrow> int \<times> int" where
  "estimate_sstore_cost st key new_value =
     (let normalized_key = storage_normalize key;
          normalized_new_value = storage_normalize new_value;
          (current, original) =
            (case dict_get st normalized_key of
               None \<Rightarrow> (0, 0)
             | Some slot \<Rightarrow> (slot_current slot, slot_original slot)) in
      if normalized_new_value = current then (GAS_SLOAD, 0)
      else if original = current then
        (if original = 0 then (GAS_SSTORE_SET, 0)
         else if normalized_new_value = 0 then (GAS_SSTORE_RESET, GAS_SSTORE_CLEAR_REFUND)
         else (GAS_SSTORE_RESET, 0))
      else
        let refund = 0;
            refund = (if original \<noteq> 0 \<and> current = 0 then refund - GAS_SSTORE_CLEAR_REFUND else refund);
            refund = (if original \<noteq> 0 \<and> normalized_new_value = 0
                      then refund + GAS_SSTORE_CLEAR_REFUND else refund);
            refund = (if original = normalized_new_value then
                        (if original = 0 then refund + (GAS_SSTORE_SET - GAS_SLOAD)
                         else refund + (GAS_SSTORE_RESET - GAS_SLOAD))
                      else refund)
        in (GAS_SLOAD, refund))"

definition storage_set :: "int \<Rightarrow> int \<Rightarrow> storage \<Rightarrow> (int \<times> int) \<times> storage" where
  "storage_set key value st =
     (let normalized_key = storage_normalize key;
          normalized_value = storage_normalize value;
          cost_refund = estimate_sstore_cost st normalized_key normalized_value;
          slot = (case dict_get st normalized_key of None \<Rightarrow> empty_slot | Some slot \<Rightarrow> slot)
      in (cost_refund, dict_put normalized_key (slot\<lparr>slot_current := normalized_value\<rparr>) st))"

definition storage_items :: "bool \<Rightarrow> storage \<Rightarrow> (int \<times> int) list" where
  "storage_items include_zero st =
     sort_key fst [(key, slot_current slot). (key, slot) \<leftarrow> st, include_zero \<or> slot_current slot \<noteq> 0]"

definition storage_commit :: "storage \<Rightarrow> storage" where
  "storage_commit st =
     [(key, \<lparr>slot_original = slot_current slot, slot_current = slot_current slot\<rparr>).
        (key, slot) \<leftarrow> st, slot_current slot \<noteq> 0]"

definition storage_clone :: "storage \<Rightarrow> storage" where
  "storage_clone st =
     map (\<lambda>(key, slot). (key, \<lparr>slot_original = slot_original slot, slot_current = slot_current slot\<rparr>)) st"

subsection \<open>Laws of storage\<close>

definition word_range :: "int \<Rightarrow> bool" where
  "word_range v \<longleftrightarrow> 0 \<le> v \<and> v < 2 ^ 256"

definition storage_wf :: "storage \<Rightarrow> bool" where
  "storage_wf st \<longleftrightarrow> dict_wf st \<and>
     (\<forall>(k, s) \<in> set st. word_range k \<and> word_range (slot_current s) \<and> word_range (slot_original s))"

lemma storage_normalize_eq: "storage_normalize v = v mod 2 ^ 256"
  using to_uint256_eq by (simp add: storage_normalize_def to_uint256_def)

lemma storage_normalize_idem [simp]: "storage_normalize (storage_normalize v) = storage_normalize v"
  by (simp add: storage_normalize_eq)

lemma word_range_normalize [simp]: "word_range (storage_normalize v)" "word_range (to_uint256 v)"
  by (simp_all add: word_range_def storage_normalize_eq to_uint256_eq)

lemma normalize_word_range: "word_range v \<Longrightarrow> storage_normalize v = v" "word_range v \<Longrightarrow> to_uint256 v = v"
  by (simp_all add: word_range_def storage_normalize_eq to_uint256_eq)

lemma word_range_consts [simp]: "word_range 0" "word_range 1"
  by (simp_all add: word_range_def)

lemma storage_clone_id [simp]: "storage_clone st = st"
  by (auto simp: storage_clone_def intro: map_idI)

text \<open>
  An interface for word-addressed stores: a read sees the last write to its key, keys and values
  being reduced by \<open>norm\<close>. The client lemma is about a whole sequence of writes.
\<close>

locale word_store =
  fixes get :: "'s \<Rightarrow> int \<Rightarrow> int" and put :: "int \<Rightarrow> int \<Rightarrow> 's \<Rightarrow> 's" and norm :: "int \<Rightarrow> int"
  assumes get_put: "get (put k v s) k' = (if norm k = norm k' then norm v else get s k')"
    and get_norm: "norm k = norm k' \<Longrightarrow> get s k = get s k'"
begin

fun last_write :: "(int \<times> int) list \<Rightarrow> int \<Rightarrow> int option" where
  "last_write [] k = None"
| "last_write ((k', v) # ws) k =
     (case last_write ws k of Some u \<Rightarrow> Some u
      | None \<Rightarrow> if norm k' = norm k then Some (norm v) else None)"

definition writes :: "(int \<times> int) list \<Rightarrow> 's \<Rightarrow> 's" where
  "writes ws s = fold (\<lambda>(k, v). put k v) ws s"

lemma get_writes: "get (writes ws s) k = (case last_write ws k of Some v \<Rightarrow> v | None \<Rightarrow> get s k)"
  by (induction ws arbitrary: s) (auto simp: writes_def get_put split: option.splits)

lemma get_put_same: "get (put k v s) k = norm v"
  by (simp add: get_put)

lemma put_put_get: "get (put k v (put k u s)) k' = get (put k v s) k'"
  by (simp add: get_put)

end

lemma storage_slot_set:
  "storage_slot (snd (storage_set key value st)) key' =
     (if storage_normalize key = storage_normalize key'
      then (storage_slot st key)\<lparr>slot_current := storage_normalize value\<rparr> else storage_slot st key')"
  by (simp add: storage_slot_def storage_set_def Let_def dict_simps)

interpretation storage_words: word_store storage_get "\<lambda>k v st. snd (storage_set k v st)" storage_normalize
  by unfold_locales (auto simp: storage_get_def storage_slot_set, simp add: storage_slot_def)

lemma storage_original_set: "storage_original (snd (storage_set k v st)) k' = storage_original st k'"
  by (simp add: storage_original_def storage_slot_set) (simp add: storage_slot_def)

lemma storage_wf_slot: "storage_wf st \<Longrightarrow> word_range (slot_current (storage_slot st k)) \<and>
    word_range (slot_original (storage_slot st k))"
  by (auto simp: storage_wf_def storage_slot_def empty_slot_def split: option.splits dest: map_of_SomeD)

lemma storage_wf_set: "storage_wf st \<Longrightarrow> storage_wf (snd (storage_set k v st))"
  using storage_wf_slot[of st k]
  by (auto simp: storage_wf_def storage_set_def Let_def dict_set_put storage_slot_def)

lemma storage_wf_commit: "storage_wf st \<Longrightarrow> storage_wf (storage_commit st)"
proof -
  assume wf: "storage_wf st"
  have "map fst (storage_commit st) = map fst (filter (\<lambda>(k, s). slot_current s \<noteq> 0) st)"
    by (induction st) (auto simp: storage_commit_def)
  then show ?thesis
    using wf by (auto simp: storage_wf_def distinct_map_filter storage_commit_def)
qed

lemma storage_get_commit: "dict_wf st \<Longrightarrow> storage_get (storage_commit st) k = storage_get st k"
proof (induction st)
  case (Cons p st)
  obtain key slot where p: "p = (key, slot)" by (cases p)
  have none: "dict_get (storage_commit st) key = None"
    using Cons.prems p by (force simp: storage_commit_def map_of_eq_None_iff)
  with Cons p show ?case
    by (auto simp: storage_get_def storage_slot_def storage_commit_def empty_slot_def split: option.splits)
qed (simp add: storage_commit_def)

text \<open>
  Metering. The net price of a write (cost minus refund) is a flat \<open>GAS_SLOAD\<close> plus the change of a
  potential that depends only on the slot's original and current value.
\<close>

definition sstore_potential :: "int \<Rightarrow> int \<Rightarrow> int" where
  "sstore_potential original current =
     (if current = original then 0
      else (if original = 0 then GAS_SSTORE_SET - GAS_SLOAD else GAS_SSTORE_RESET - GAS_SLOAD)
        - (if original \<noteq> 0 \<and> current = 0 then GAS_SSTORE_CLEAR_REFUND else 0))"

lemma sstore_net_price:
  "fst (estimate_sstore_cost st k v) - snd (estimate_sstore_cost st k v) =
     GAS_SLOAD + sstore_potential (storage_original st k) (storage_normalize v)
       - sstore_potential (storage_original st k) (storage_get st k)"
  by (cases "dict_get st (storage_normalize k)")
    (auto simp: estimate_sstore_cost_def Let_def sstore_potential_def storage_original_def
      storage_get_def storage_slot_def empty_slot_def gas_defs)

lemma sstore_cost_bounds: "100 \<le> fst (estimate_sstore_cost st k v)" "fst (estimate_sstore_cost st k v) \<le> 20000"
  by (auto simp: estimate_sstore_cost_def Let_def gas_defs split: option.splits)

section \<open>Accounts\<close>

record account =
  acc_nonce :: int
  acc_balance :: int
  acc_code :: bytes
  acc_storage :: storage

text \<open>The dataclass constructor runs \<open>__post_init__\<close>, which masks nonce and balance.\<close>

definition mk_account :: "int \<Rightarrow> int \<Rightarrow> bytes \<Rightarrow> storage \<Rightarrow> account" where
  "mk_account n b c st =
     \<lparr>acc_nonce = n AND UINT256_MASK, acc_balance = b AND UINT256_MASK, acc_code = c, acc_storage = st\<rparr>"

definition new_account :: account where
  "new_account = mk_account 0 0 [] []"

definition account_clone :: "account \<Rightarrow> account" where
  "account_clone a = mk_account (acc_nonce a) (acc_balance a) (acc_code a) (storage_clone (acc_storage a))"

definition has_code :: "account \<Rightarrow> bool" where
  "has_code a \<longleftrightarrow> acc_code a \<noteq> []"

definition account_is_empty :: "account \<Rightarrow> bool" where
  "account_is_empty a \<longleftrightarrow>
     acc_nonce a = 0 \<and> acc_balance a = 0 \<and> acc_code a = [] \<and> storage_items False (acc_storage a) = []"

definition account_wf :: "account \<Rightarrow> bool" where
  "account_wf a \<longleftrightarrow> word_range (acc_nonce a) \<and> word_range (acc_balance a) \<and> storage_wf (acc_storage a)"

lemma masked_word_range [simp]: "word_range (v AND UINT256_MASK)"
  using word_range_normalize(1) by (simp add: storage_normalize_def)

lemma mask_eq: "v AND UINT256_MASK = v mod 2 ^ 256"
  using storage_normalize_eq by (simp add: storage_normalize_def)

lemma mask_word_range: "word_range v \<Longrightarrow> v AND UINT256_MASK = v"
  using normalize_word_range(1) by (simp add: storage_normalize_def)

lemma mask_zero [simp]: "0 AND UINT256_MASK = 0"
  by (simp add: mask_word_range)

lemma new_account_wf [simp]: "account_wf new_account"
  by (simp add: account_wf_def new_account_def mk_account_def storage_wf_def)

lemma new_account_fields [simp]:
  "acc_nonce new_account = 0" "acc_balance new_account = 0" "acc_code new_account = []" "acc_storage new_account = []"
  by (simp_all add: new_account_def mk_account_def)

lemma account_clone_id: "account_wf a \<Longrightarrow> account_clone a = a"
  by (simp add: account_clone_def mk_account_def account_wf_def mask_word_range)

section \<open>The state database\<close>

type_synonym statedb = "(address, account) dict"

definition statedb_snapshot :: "statedb \<Rightarrow> statedb" where
  "statedb_snapshot db = map (\<lambda>(a, acc). (a, account_clone acc)) db"

definition statedb_clone :: "statedb \<Rightarrow> statedb" where
  "statedb_clone db = map (\<lambda>(a, acc). (a, account_clone acc)) db"

definition statedb_restore :: "statedb \<Rightarrow> statedb \<Rightarrow> statedb" where
  "statedb_restore snapshot db = map (\<lambda>(a, acc). (a, account_clone acc)) snapshot"

definition commit_transaction :: "statedb \<Rightarrow> statedb" where
  "commit_transaction db =
     (let committed = map (\<lambda>(a, acc). (a, acc\<lparr>acc_storage := storage_commit (acc_storage acc)\<rparr>)) db;
          empty_accounts = [a. (a, acc) \<leftarrow> committed, account_is_empty acc]
      in fold dict_pop empty_accounts committed)"

text \<open>Sorted by the address bytes: big-endian byte strings of one length compare as their integers.\<close>

definition statedb_accounts :: "bool \<Rightarrow> statedb \<Rightarrow> (address \<times> account) list" where
  "statedb_accounts include_empty db =
     sort_key (\<lambda>(a, acc). be_int (address_bytes a))
       [(a, account_clone acc). (a, acc) \<leftarrow> db, include_empty \<or> \<not> account_is_empty acc]"

definition account_exists :: "statedb \<Rightarrow> address \<Rightarrow> bool" where
  "account_exists db a \<longleftrightarrow> dict_get db a \<noteq> None"

definition get_account :: "statedb \<Rightarrow> address \<Rightarrow> account option" where
  "get_account db a = dict_get db a"

definition get_or_create_account :: "address \<Rightarrow> statedb \<Rightarrow> account \<times> statedb" where
  "get_or_create_account a db =
     (case dict_get db a of
        None \<Rightarrow> (new_account, dict_put a new_account db)
      | Some acc \<Rightarrow> (acc, db))"

text \<open>\<open>get_or_create_account(a)\<close> followed by an update of the object it returns.\<close>

definition update_account :: "address \<Rightarrow> (account \<Rightarrow> account) \<Rightarrow> statedb \<Rightarrow> statedb" where
  "update_account a f db = (let (acc, db') = get_or_create_account a db in dict_put a (f acc) db')"

definition can_deploy_to :: "statedb \<Rightarrow> address \<Rightarrow> bool" where
  "can_deploy_to db a =
     (case dict_get db a of None \<Rightarrow> True | Some acc \<Rightarrow> acc_nonce acc = 0 \<and> acc_code acc = [])"

definition get_balance :: "statedb \<Rightarrow> address \<Rightarrow> int" where
  "get_balance db a = (case dict_get db a of None \<Rightarrow> 0 | Some acc \<Rightarrow> acc_balance acc)"

definition set_balance :: "address \<Rightarrow> int \<Rightarrow> statedb \<Rightarrow> statedb" where
  "set_balance a value = update_account a (\<lambda>acc. acc\<lparr>acc_balance := value AND UINT256_MASK\<rparr>)"

definition add_balance :: "address \<Rightarrow> int \<Rightarrow> statedb \<Rightarrow> statedb" where
  "add_balance a value db = set_balance a (get_balance db a + value) db"

definition subtract_balance :: "address \<Rightarrow> int \<Rightarrow> statedb \<Rightarrow> bool \<times> statedb" where
  "subtract_balance a value db =
     (let current = get_balance db a in
      if current < value then (False, db) else (True, set_balance a (current - value) db))"

definition transfer :: "address \<Rightarrow> address \<Rightarrow> int \<Rightarrow> statedb \<Rightarrow> bool \<times> statedb" where
  "transfer sender recipient value db =
     (if value = 0 then (True, snd (get_or_create_account recipient db))
      else
        let (ok, db') = subtract_balance sender value db in
        if \<not> ok then (False, db') else (True, add_balance recipient value db'))"

definition get_nonce :: "statedb \<Rightarrow> address \<Rightarrow> int" where
  "get_nonce db a = (case dict_get db a of None \<Rightarrow> 0 | Some acc \<Rightarrow> acc_nonce acc)"

definition increment_nonce :: "address \<Rightarrow> statedb \<Rightarrow> statedb" where
  "increment_nonce a = update_account a (\<lambda>acc. acc\<lparr>acc_nonce := (acc_nonce acc + 1) AND UINT256_MASK\<rparr>)"

text \<open>\<open>state.get_or_create_account(address).nonce = value\<close>, as the creation of a contract does.\<close>

definition assign_nonce :: "address \<Rightarrow> int \<Rightarrow> statedb \<Rightarrow> statedb" where
  "assign_nonce a value = update_account a (\<lambda>acc. acc\<lparr>acc_nonce := value\<rparr>)"

definition get_code :: "statedb \<Rightarrow> address \<Rightarrow> bytes" where
  "get_code db a = (case dict_get db a of None \<Rightarrow> [] | Some acc \<Rightarrow> acc_code acc)"

definition set_code :: "address \<Rightarrow> bytes \<Rightarrow> statedb \<Rightarrow> statedb" where
  "set_code a code = update_account a (\<lambda>acc. acc\<lparr>acc_code := code\<rparr>)"

definition get_storage :: "statedb \<Rightarrow> address \<Rightarrow> int \<Rightarrow> int" where
  "get_storage db a key = (case dict_get db a of None \<Rightarrow> 0 | Some acc \<Rightarrow> storage_get (acc_storage acc) key)"

definition estimate_sstore :: "address \<Rightarrow> int \<Rightarrow> int \<Rightarrow> statedb \<Rightarrow> (int \<times> int) \<times> statedb" where
  "estimate_sstore a key value db =
     (let (acc, db') = get_or_create_account a db
      in (estimate_sstore_cost (acc_storage acc) key value, db'))"

definition set_storage :: "address \<Rightarrow> int \<Rightarrow> int \<Rightarrow> statedb \<Rightarrow> (int \<times> int) \<times> statedb" where
  "set_storage a key value db =
     (let (acc, db') = get_or_create_account a db;
          (cr, st) = storage_set key value (acc_storage acc)
      in (cr, dict_put a (acc\<lparr>acc_storage := st\<rparr>) db'))"

section \<open>The journal\<close>

record journal =
  j_state :: statedb
  j_snapshots :: "statedb list"

definition journal_checkpoint :: "journal \<Rightarrow> int \<times> journal" where
  "journal_checkpoint j =
     (let snaps = j_snapshots j @ [statedb_snapshot (j_state j)]
      in (int (length snaps) - 1, j\<lparr>j_snapshots := snaps\<rparr>))"

text \<open>
  \<open>_snapshots[checkpoint]\<close> accepts negative indices down to \<open>-len\<close> and the slice deletion
  \<open>del _snapshots[checkpoint:]\<close> clips them.
\<close>

definition journal_revert :: "int \<Rightarrow> journal \<Rightarrow> (py_error, journal) result" where
  "journal_revert checkpoint j =
     (let snaps = j_snapshots j; n = int (length snaps);
          i = (if checkpoint < 0 then checkpoint + n else checkpoint) in
      if i < 0 \<or> n \<le> i then Inl ValueError
      else Inr (j\<lparr>j_state := statedb_restore (snaps ! nat i) (j_state j), j_snapshots := take (nat i) snaps\<rparr>))"

definition journal_commit :: "int \<Rightarrow> journal \<Rightarrow> (py_error, journal) result" where
  "journal_commit checkpoint j =
     (if checkpoint < 0 \<or> checkpoint \<ge> int (length (j_snapshots j)) then Inl ValueError
      else Inr (j\<lparr>j_snapshots := take (nat checkpoint) (j_snapshots j)\<rparr>))"

section \<open>Laws of the state database\<close>

definition acct :: "statedb \<Rightarrow> address \<Rightarrow> account" where
  "acct db a = (case dict_get db a of None \<Rightarrow> new_account | Some acc \<Rightarrow> acc)"

definition db_wf :: "statedb \<Rightarrow> bool" where
  "db_wf db \<longleftrightarrow> dict_wf db \<and> (\<forall>(a, acc) \<in> set db. account_wf acc)"

definition total_balance :: "statedb \<Rightarrow> int" where
  "total_balance db = dict_sum acc_balance db"

named_theorems db_simps \<open>readers and writers of the state database through \<open>acct\<close>\<close>

lemma db_readers:
  "get_balance db a = acc_balance (acct db a)" "get_nonce db a = acc_nonce (acct db a)"
  "get_code db a = acc_code (acct db a)" "get_storage db a k = storage_get (acc_storage (acct db a)) k"
  "can_deploy_to db a \<longleftrightarrow> acc_nonce (acct db a) = 0 \<and> acc_code (acct db a) = []"
  "fst (get_or_create_account a db) = acct db a"
  by (simp_all add: get_balance_def get_nonce_def get_code_def get_storage_def can_deploy_to_def acct_def
      get_or_create_account_def storage_get_def storage_slot_def empty_slot_def split: option.splits)

lemma update_account_get: "dict_get (update_account a f db) = (dict_get db)(a \<mapsto> f (acct db a))"
  by (auto simp: update_account_def get_or_create_account_def acct_def dict_simps split: option.splits)

lemma acct_update [db_simps]: "acct (update_account a f db) b = (if a = b then f (acct db a) else acct db b)"
  by (simp add: acct_def[of "update_account a f db"] update_account_get) (simp add: acct_def)

lemma get_or_create_as_update: "snd (get_or_create_account a db) = update_account a (\<lambda>acc. acc) db"
  by (auto simp: get_or_create_account_def update_account_def update_triv split: option.splits)

lemma set_storage_as_update:
  "snd (set_storage a k v db) =
     update_account a (\<lambda>acc. acc\<lparr>acc_storage := snd (storage_set k v (acc_storage acc))\<rparr>) db"
  by (simp add: set_storage_def update_account_def split: prod.splits)

lemma db_wf_acct: "db_wf db \<Longrightarrow> account_wf (acct db a)"
  by (auto simp: db_wf_def acct_def split: option.splits dest: map_of_SomeD)

lemma db_wf_iff:
  "db_wf db \<longleftrightarrow> dict_wf db \<and> (\<forall>a acc. dict_get db a = Some acc \<longrightarrow> account_wf acc)"
  unfolding db_wf_def by (metis (mono_tags, lifting) case_prodI2 case_prod_conv dict_get_in)

lemma dict_wf_update_account: "dict_wf db \<Longrightarrow> dict_wf (update_account a f db)"
  by (simp add: update_account_def get_or_create_account_def split: option.splits)

lemma db_wf_update: "db_wf db \<Longrightarrow> account_wf (f (acct db a)) \<Longrightarrow> db_wf (update_account a f db)"
  by (auto simp: db_wf_iff update_account_get dict_wf_update_account split: if_splits)

lemma db_wf_balance: "db_wf db \<Longrightarrow> word_range (get_balance db a)"
  using db_wf_acct[of db a] by (simp add: db_readers account_wf_def)

lemma db_wf_nonce: "db_wf db \<Longrightarrow> word_range (get_nonce db a)"
  using db_wf_acct[of db a] by (simp add: db_readers account_wf_def)

lemma db_wf_set_balance: "db_wf db \<Longrightarrow> db_wf (set_balance a v db)"
  using db_wf_acct[of db a] by (simp add: set_balance_def db_wf_update account_wf_def)

lemma db_wf_goc: "db_wf db \<Longrightarrow> db_wf (snd (get_or_create_account a db))"
  using db_wf_acct[of db a] by (simp add: get_or_create_as_update db_wf_update)

lemma db_wf_transfer: "db_wf db \<Longrightarrow> db_wf (snd (transfer s r v db))"
  by (simp add: transfer_def subtract_balance_def add_balance_def db_wf_set_balance db_wf_goc Let_def)

lemma db_wf_increment: "db_wf db \<Longrightarrow> db_wf (increment_nonce a db)"
  using db_wf_acct[of db a] by (simp add: increment_nonce_def db_wf_update account_wf_def)

lemma db_wf_assign_nonce: "db_wf db \<Longrightarrow> word_range v \<Longrightarrow> db_wf (assign_nonce a v db)"
  using db_wf_acct[of db a] by (simp add: assign_nonce_def db_wf_update account_wf_def)

lemma db_wf_set_code: "db_wf db \<Longrightarrow> db_wf (set_code a c db)"
  using db_wf_acct[of db a] by (simp add: set_code_def db_wf_update account_wf_def)

lemma db_wf_set_storage: "db_wf db \<Longrightarrow> db_wf (snd (set_storage a k v db))"
  using db_wf_acct[of db a]
  by (simp add: set_storage_as_update db_wf_update account_wf_def storage_wf_set)

lemma db_wf_estimate: "db_wf db \<Longrightarrow> db_wf (snd (estimate_sstore a k v db))"
  using db_wf_goc[of db a] by (simp add: estimate_sstore_def case_prod_beta)

lemmas db_wf_ops = db_wf_set_balance db_wf_goc db_wf_transfer db_wf_increment db_wf_assign_nonce
  db_wf_set_code db_wf_set_storage db_wf_estimate

text \<open>Copies are exact on well-formed states, so restoring a snapshot brings the state back.\<close>

lemma snapshot_id: "db_wf db \<Longrightarrow> statedb_snapshot db = db"
  by (auto simp: statedb_snapshot_def db_wf_def account_clone_id intro!: map_idI)

lemma restore_id: "db_wf snap \<Longrightarrow> statedb_restore snap db = snap"
  using snapshot_id[of snap] by (simp add: statedb_restore_def statedb_snapshot_def)

subsection \<open>Total balance\<close>

lemma total_balance_update:
  "total_balance (update_account a f db) =
     total_balance db + acc_balance (f (acct db a)) - acc_balance (acct db a)"
  by (auto simp: total_balance_def update_account_def get_or_create_account_def acct_def dict_sum_put
      dict_simps split: option.splits)

lemma balances_nonneg: "db_wf db \<Longrightarrow> (a, acc) \<in> set db \<Longrightarrow> 0 \<le> acc_balance acc"
  by (auto simp: db_wf_def account_wf_def word_range_def)

lemma balance_le_total: "db_wf db \<Longrightarrow> get_balance db a \<le> total_balance db"
  using dict_sum_ge[of db acc_balance a] dict_sum_nonneg[of db acc_balance] balances_nonneg[of db]
  by (auto simp: get_balance_def total_balance_def split: option.splits)

lemma total_balance_set:
  "total_balance (set_balance a v db) = total_balance db + v mod 2 ^ 256 - get_balance db a"
  by (simp add: set_balance_def total_balance_update mask_eq db_readers)

lemma get_balance_set: "get_balance (set_balance a v db) b = (if a = b then v mod 2 ^ 256 else get_balance db b)"
  by (simp add: set_balance_def db_readers acct_update mask_eq)

lemma total_balance_add:
  assumes "db_wf db" "0 \<le> v" "total_balance db + v < 2 ^ 256"
  shows "total_balance (add_balance a v db) = total_balance db + v"
proof -
  have "0 \<le> get_balance db a" "get_balance db a \<le> total_balance db"
    using assms(1) db_wf_balance balance_le_total by (auto simp: word_range_def)
  then have "(get_balance db a + v) mod 2 ^ 256 = get_balance db a + v"
    using assms by (intro mod_pos_pos_trivial) auto
  then show ?thesis by (simp add: add_balance_def total_balance_set)
qed

lemma total_balance_subtract:
  assumes "db_wf db" "0 \<le> v" "subtract_balance a v db = (True, db')"
  shows "total_balance db' = total_balance db - v"
proof -
  have "v \<le> get_balance db a" "get_balance db a < 2 ^ 256" "db' = set_balance a (get_balance db a - v) db"
    using assms db_wf_balance[of db a]
    by (auto simp: subtract_balance_def Let_def word_range_def split: if_splits)
  moreover from this have "(get_balance db a - v) mod 2 ^ 256 = get_balance db a - v"
    using assms(2) by (intro mod_pos_pos_trivial) auto
  ultimately show ?thesis by (simp add: total_balance_set)
qed

lemma subtract_balance_False: "subtract_balance a v db = (False, db') \<Longrightarrow> db' = db"
  by (auto simp: subtract_balance_def Let_def split: if_splits)

lemma db_wf_subtract: "db_wf db \<Longrightarrow> db_wf (snd (subtract_balance a v db))"
  by (simp add: subtract_balance_def Let_def db_wf_set_balance)

lemma total_balance_goc: "total_balance (snd (get_or_create_account a db)) = total_balance db"
  by (simp add: get_or_create_as_update total_balance_update)

lemma total_balance_transfer:
  assumes wf: "db_wf db" and v: "0 \<le> v" and small: "total_balance db < 2 ^ 256"
  shows "total_balance (snd (transfer s r v db)) = total_balance db"
proof (cases "subtract_balance s v db")
  case (Pair ok db')
  show ?thesis
  proof (cases "v = 0 \<or> \<not> ok")
    case True
    with Pair show ?thesis
      by (auto simp: transfer_def total_balance_goc dest: subtract_balance_False)
  next
    case False
    then have sub: "total_balance db' = total_balance db - v"
      using total_balance_subtract[OF wf v] Pair by simp
    have "db_wf db'" using db_wf_subtract[OF wf, of s v] Pair by simp
    with sub v small have "total_balance (add_balance r v db') = total_balance db"
      by (subst total_balance_add) auto
    with False Pair show ?thesis by (simp add: transfer_def)
  qed
qed

lemma total_balance_keep [simp]:
  "total_balance (increment_nonce a db) = total_balance db"
  "total_balance (assign_nonce a n db) = total_balance db"
  "total_balance (set_code a c db) = total_balance db"
  "total_balance (snd (set_storage a k v db)) = total_balance db"
  "total_balance (snd (estimate_sstore a k v db)) = total_balance db"
  by (simp_all add: increment_nonce_def assign_nonce_def set_code_def set_storage_as_update
      total_balance_update estimate_sstore_def total_balance_goc case_prod_beta)

text \<open>A transfer between different accounts moves exactly its value.\<close>

lemma balance2_le_total:
  assumes wf: "db_wf db" and ne: "a \<noteq> b"
  shows "get_balance db a + get_balance db b \<le> total_balance db"
proof (cases "dict_get db a = None \<or> dict_get db b = None")
  case True
  then have "get_balance db a = 0 \<or> get_balance db b = 0" by (auto simp: get_balance_def)
  with balance_le_total[OF wf] show ?thesis by auto
next
  case False
  then obtain x y where "dict_get db a = Some x" "dict_get db b = Some y" by auto
  with dict_sum_ge2[of db acc_balance a x b y] balances_nonneg[OF wf] ne show ?thesis
    by (simp add: get_balance_def total_balance_def)
qed

lemma transfer_ok_iff: "0 \<le> v \<Longrightarrow> fst (transfer s r v db) \<longleftrightarrow> v = 0 \<or> v \<le> get_balance db s"
  by (auto simp: transfer_def subtract_balance_def Let_def)

lemma transfer_failed: "transfer s r v db = (False, db') \<Longrightarrow> db' = db"
  by (auto simp: transfer_def subtract_balance_def Let_def split: if_splits)

lemma get_balance_goc: "get_balance (snd (get_or_create_account a db)) b = get_balance db b"
  by (simp add: get_or_create_as_update db_readers acct_update)

lemma transfer_moves:
  assumes wf: "db_wf db" and v: "0 \<le> v" and ne: "s \<noteq> r" and small: "total_balance db < 2 ^ 256"
    and ok: "transfer s r v db = (True, db')"
  shows "get_balance db' a =
     get_balance db a - (if a = s then v else 0) + (if a = r then v else 0)"
proof (cases "v = 0")
  case True
  with ok have "db' = snd (get_or_create_account r db)" by (simp add: transfer_def)
  with True show ?thesis by (simp add: get_balance_goc)
next
  case False
  have le: "v \<le> get_balance db s" using transfer_ok_iff[OF v, of s r db] ok False by simp
  have db': "db' = add_balance r v (set_balance s (get_balance db s - v) db)"
    using ok False le by (simp add: transfer_def subtract_balance_def Let_def)
  have s: "(get_balance db s - v) mod 2 ^ 256 = get_balance db s - v"
    using le v db_wf_balance[OF wf, of s] by (intro mod_pos_pos_trivial) (auto simp: word_range_def)
  have r: "(get_balance db r + v) mod 2 ^ 256 = get_balance db r + v"
    using le v small balance2_le_total[OF wf ne] db_wf_balance[OF wf, of r]
    by (intro mod_pos_pos_trivial) (auto simp: word_range_def)
  consider "a = s" | "a = r" | "a \<noteq> s" "a \<noteq> r" by blast
  then show ?thesis using ne s r by cases (simp_all add: db' add_balance_def get_balance_set)
qed

text \<open>Storage of one account inside the database is a word store too.\<close>

lemma get_storage_set:
  "get_storage (snd (set_storage a k v db)) b k' =
     (if a = b \<and> storage_normalize k = storage_normalize k' then storage_normalize v else get_storage db b k')"
  by (simp add: db_readers set_storage_as_update acct_update storage_words.get_put)

interpretation db_words: word_store "\<lambda>db k. get_storage db a k" "\<lambda>k v db. snd (set_storage a k v db)"
  storage_normalize for a
proof unfold_locales
  fix k k' :: int and db :: statedb
  assume "storage_normalize k = storage_normalize k'"
  then show "get_storage db a k = get_storage db a k'"
    unfolding db_readers by (rule storage_words.get_norm)
qed (simp add: get_storage_set)

subsection \<open>Commit of a transaction\<close>

definition commit_account :: "account \<Rightarrow> account" where
  "commit_account acc = acc\<lparr>acc_storage := storage_commit (acc_storage acc)\<rparr>"

lemma fold_dict_pop: "fold dict_pop ks d = filter (\<lambda>(k, v). k \<notin> set ks) d"
  by (induction ks arbitrary: d) (auto simp: AList.delete_eq filter_filter split_def conj_commute intro: filter_cong)

lemma commit_transaction_eq:
  assumes "dict_wf db"
  shows "commit_transaction db =
    filter (\<lambda>(a, acc). \<not> account_is_empty acc) (map (\<lambda>(a, acc). (a, commit_account acc)) db)"
proof -
  define c where "c = map (\<lambda>(a, acc). (a, commit_account acc)) db"
  have "map fst c = map fst db" by (simp add: c_def comp_def split_def)
  then have wf: "dict_wf c" using assms by simp
  define es where "es = [a. (a, acc) \<leftarrow> c, account_is_empty acc]"
  have es: "a \<in> set es \<longleftrightarrow> (\<exists>acc. (a, acc) \<in> set c \<and> account_is_empty acc)" for a
    by (auto simp: es_def)
  have "(case p of (k, v) \<Rightarrow> k \<notin> set es) = (case p of (a, acc) \<Rightarrow> \<not> account_is_empty acc)"
    if "p \<in> set c" for p
  proof -
    obtain k v where p: "p = (k, v)" by (cases p)
    have kv: "(k, v) \<in> set c" using that p by simp
    have uniq: "w = v" if "(k, w) \<in> set c" for w
      by (rule eq_key_imp_eq_value[OF wf that kv])
    have "k \<in> set es \<longleftrightarrow> account_is_empty v" unfolding es using kv uniq by blast
    then show ?thesis by (simp add: p)
  qed
  then have "filter (\<lambda>(k, v). k \<notin> set es) c = filter (\<lambda>(a, acc). \<not> account_is_empty acc) c"
    by (intro filter_cong refl)
  then show ?thesis
    unfolding commit_transaction_def Let_def fold_dict_pop commit_account_def[symmetric] c_def es_def .
qed

lemma account_wf_commit: "account_wf acc \<Longrightarrow> account_wf (commit_account acc)"
  by (simp add: account_wf_def commit_account_def storage_wf_commit)

lemma db_wf_commit: "db_wf db \<Longrightarrow> db_wf (commit_transaction db)"
  by (auto simp: db_wf_def commit_transaction_eq account_wf_commit distinct_map_filter comp_def split_def)

lemma total_balance_commit:
  assumes "dict_wf db"
  shows "total_balance (commit_transaction db) = total_balance db"
  unfolding total_balance_def commit_transaction_eq[OF assms]
  by (induction db) (auto simp: account_is_empty_def commit_account_def)

lemma storage_commit_idem: "storage_commit (storage_commit st) = storage_commit st"
  by (induction st) (auto simp: storage_commit_def)

lemma commit_account_idem: "commit_account (commit_account acc) = commit_account acc"
  by (simp add: commit_account_def storage_commit_idem)

lemma commit_transaction_idem:
  assumes wf: "dict_wf db"
  shows "commit_transaction (commit_transaction db) = commit_transaction db"
proof -
  have "dict_wf (commit_transaction db)"
    using wf by (simp add: commit_transaction_eq distinct_map_filter comp_def split_def)
  moreover have "filter (\<lambda>(a, acc). \<not> account_is_empty acc) (map (\<lambda>(a, acc). (a, commit_account acc))
      (filter (\<lambda>(a, acc). \<not> account_is_empty acc) (map (\<lambda>(a, acc). (a, commit_account acc)) db))) =
      filter (\<lambda>(a, acc). \<not> account_is_empty acc) (map (\<lambda>(a, acc). (a, commit_account acc)) db)"
    by (induction db) (auto simp: commit_account_idem)
  ultimately show ?thesis using wf by (simp add: commit_transaction_eq)
qed

lemma storage_original_commit:
  "storage_original (storage_commit st) k = storage_get (storage_commit st) k"
  by (auto simp: storage_original_def storage_get_def storage_slot_def empty_slot_def storage_commit_def
      split: option.splits dest!: map_of_SomeD)

section \<open>Properties\<close>

text \<open>The writes of a list of values to one key, with their net price.\<close>

primrec sstore_run :: "int \<Rightarrow> int list \<Rightarrow> storage \<Rightarrow> int \<times> storage" where
  "sstore_run k [] st = (0, st)"
| "sstore_run k (v # vs) st =
     (let ((cost, refund), st') = storage_set k v st; (net, st'') = sstore_run k vs st'
      in (cost - refund + net, st''))"

text \<open>
  C22. Metering of storage writes does not depend on the path: for any sequence of values written to
  one key, what the writes cost minus what they refund is \<open>GAS_SLOAD\<close> per write plus the change of
  a potential of the slot (zero when the slot is back at its original value), whatever values were
  written in between.
\<close>

theorem sstore_net_metering:
  "fst (sstore_run k vs st) =
     int (length vs) * GAS_SLOAD
     + sstore_potential (storage_original st k) (storage_get (snd (sstore_run k vs st)) k)
     - sstore_potential (storage_original st k) (storage_get st k)"
proof (induction vs arbitrary: st)
  case (Cons v vs)
  let ?st = "snd (storage_set k v st)"
  have price: "fst (fst (storage_set k v st)) - snd (fst (storage_set k v st)) =
      GAS_SLOAD + sstore_potential (storage_original st k) (storage_get ?st k)
        - sstore_potential (storage_original st k) (storage_get st k)"
    using sstore_net_price[of st "storage_normalize k" "storage_normalize v"]
    by (simp add: storage_set_def Let_def storage_get_def storage_original_def storage_slot_def dict_simps)
  with Cons[of ?st] show ?case
    by (simp add: Let_def case_prod_beta storage_original_set algebra_simps)
qed simp

lemma find_append: "find P (xs @ ys) = (case find P xs of Some x \<Rightarrow> Some x | None \<Rightarrow> find P ys)"
  by (induction xs) auto

text \<open>
  A storage read after any sequence of writes returns the last value written to a key that is
  equal to it modulo \<open>2 ^ 256\<close>, and the old value when there was no such write.
\<close>

theorem storage_last_write_wins:
  "get_storage (fold (\<lambda>(k, v) db. snd (set_storage a k v db)) ws db) a key =
     (case find (\<lambda>(k, v). storage_normalize k = storage_normalize key) (rev ws) of
        Some (k, v) \<Rightarrow> storage_normalize v | None \<Rightarrow> get_storage db a key)"
proof -
  have "db_words.last_write ws key =
      map_option (\<lambda>(k, v). storage_normalize v) (find (\<lambda>(k, v). storage_normalize k = storage_normalize key) (rev ws))"
    by (induction ws key rule: db_words.last_write.induct) (auto simp: find_append split: option.splits)
  then show ?thesis
    using db_words.get_writes[of a ws db key] by (auto simp: db_words.writes_def split: option.splits)
qed

text \<open>
  C23. A value transfer between two accounts of a well-formed state whose total supply fits a word
  succeeds exactly when the sender can pay; it then moves exactly the value and touches no other
  balance, and a failed transfer changes nothing. The total supply is the same either way.
\<close>

theorem transfer_correct:
  assumes "db_wf db" "0 \<le> v" "s \<noteq> r" "total_balance db < 2 ^ 256"
  shows "case transfer s r v db of (ok, db') \<Rightarrow>
     (ok \<longleftrightarrow> v \<le> get_balance db s) \<and>
     (\<not> ok \<longrightarrow> db' = db) \<and>
     (ok \<longrightarrow> (\<forall>a. get_balance db' a = get_balance db a - (if a = s then v else 0) + (if a = r then v else 0))) \<and>
     db_wf db' \<and> total_balance db' = total_balance db"
proof (cases "transfer s r v db")
  case (Pair ok db')
  have "0 \<le> get_balance db s" using db_wf_balance[OF assms(1)] by (simp add: word_range_def)
  then have "ok \<longleftrightarrow> v \<le> get_balance db s"
    using transfer_ok_iff[OF assms(2), of s r db] Pair by auto
  then show ?thesis
    using Pair transfer_failed[of s r v db] transfer_moves[OF assms] db_wf_transfer[OF assms(1), of s r v]
      total_balance_transfer[OF assms(1,2,4), of s r] by auto
qed

theorem transfer_correct_witness:
  "case transfer 1 2 30 [(1, mk_account 0 100 [] [])] of (ok, db') \<Rightarrow>
     ok \<and> get_balance db' 1 = 70 \<and> get_balance db' 2 = 30 \<and> total_balance db' = 100"
proof -
  let ?db = "[(1, mk_account 0 100 [] [])] :: statedb"
  have m: "100 AND UINT256_MASK = 100" by (simp add: mask_word_range word_range_def)
  have wf: "db_wf ?db" by (simp add: db_wf_def account_wf_def mk_account_def storage_wf_def)
  have b: "get_balance ?db 1 = 100" "get_balance ?db 2 = 0" "total_balance ?db = 100"
    by (simp_all add: get_balance_def mk_account_def total_balance_def m)
  then show ?thesis using transfer_correct[OF wf, of 30 1 2] by (auto split: prod.splits)
qed

text \<open>
  C24. Reverting a journal to a checkpoint brings back exactly the state and the checkpoints of the
  moment it was taken, whatever happened to the state since then and however many inner checkpoints
  are still open.
\<close>

theorem journal_revert_restores:
  assumes "db_wf (j_state j)" "journal_checkpoint j = (cp, ja)" "j_snapshots jb = j_snapshots ja @ inner"
  shows "journal_revert cp jb = Inr j"
proof -
  have cp: "cp = int (length (j_snapshots j))" "j_snapshots ja = j_snapshots j @ [j_state j]"
    using assms(1,2) by (auto simp: journal_checkpoint_def Let_def snapshot_id)
  then show ?thesis
    using assms(1,3) by (simp add: journal_revert_def Let_def nth_append restore_id)
qed

theorem journal_revert_restores_witness:
  "journal_revert 0 \<lparr>j_state = [(1, new_account)], j_snapshots = [[], [(1, new_account)]]\<rparr>
   = Inr \<lparr>j_state = [], j_snapshots = []\<rparr>"
  by (rule journal_revert_restores[where ja = "\<lparr>j_state = [], j_snapshots = [[]]\<rparr>"
        and inner = "[[(1, new_account)]]"])
    (simp_all add: db_wf_def journal_checkpoint_def statedb_snapshot_def Let_def)

end
