(* ===== verification/Evm_Machine.thy ===== *)
theory Evm_Machine
  imports Evm_State Secp256k1
begin

text \<open>
  The parts of a running call frame: \<open>Stack\<close> (\<open>evm/stack.py\<close>), \<open>Memory\<close> (\<open>evm/memory.py\<close>),
  \<open>GasMeter\<close> (\<open>evm/gas.py\<close>), \<open>ExecutionContext\<close> and \<open>ExecutionResult\<close> (\<open>evm/context.py\<close>),
  \<open>LogEntry\<close> (\<open>evm/logs.py\<close>), \<open>CallFrame\<close> (\<open>evm/callframe.py\<close>) and the precompiled contracts
  (\<open>evm/precompiles.py\<close>). A machine is the interpreter's state database with the frame that runs;
  the operations on the parts are lifted to it. The lemmas give the laws of stack and memory and
  the triples of the lifted operations for the machine invariant.
\<close>

section \<open>Stack\<close>

text \<open>The top of the stack is the last element, as in \<open>Stack._values\<close>.\<close>

type_synonym stack = "int list"

definition stack_push :: "int \<Rightarrow> stack \<Rightarrow> (evm_exn, unit \<times> stack) result" where
  "stack_push value st =
     (if length st \<ge> MAX_STACK_DEPTH then Inl StackOverflowError
      else Inr ((), st @ [value AND UINT256_MASK]))"

definition stack_pop :: "stack \<Rightarrow> (evm_exn, int \<times> stack) result" where
  "stack_pop st = (if st = [] then Inl StackUnderflowError else Inr (last st, butlast st))"

definition stack_peek :: "int \<Rightarrow> stack \<Rightarrow> (evm_exn, int) result" where
  "stack_peek depth st =
     (if depth \<le> 0 \<or> depth > int (length st) then Inl StackUnderflowError
      else Inr (st ! (length st - nat depth)))"

definition stack_dup :: "int \<Rightarrow> stack \<Rightarrow> (evm_exn, unit \<times> stack) result" where
  "stack_dup depth st = bindR (stack_peek depth st) (\<lambda>v. stack_push v st)"

definition stack_swap :: "int \<Rightarrow> stack \<Rightarrow> (evm_exn, unit \<times> stack) result" where
  "stack_swap depth st =
     (if depth \<le> 0 \<or> int (length st) \<le> depth then Inl StackUnderflowError
      else
        let top_index = length st - 1; swap_index = length st - 1 - nat depth
        in Inr ((), st[top_index := st ! swap_index, swap_index := st ! top_index]))"

definition stack_wf :: "stack \<Rightarrow> bool" where
  "stack_wf st \<longleftrightarrow> length st \<le> MAX_STACK_DEPTH \<and> (\<forall>v \<in> set st. word_range v)"

lemma stack_wf_push: "stack_wf st \<Longrightarrow> stack_push v st = Inr (u, st') \<Longrightarrow> stack_wf st'"
  by (auto simp: stack_wf_def stack_push_def split: if_splits)

lemma stack_wf_pop: "stack_wf st \<Longrightarrow> stack_pop st = Inr (v, st') \<Longrightarrow> word_range v \<and> stack_wf st'"
  by (auto simp: stack_wf_def stack_pop_def dest: in_set_butlastD split: if_splits)

lemma stack_wf_dup: "stack_wf st \<Longrightarrow> stack_dup d st = Inr (u, st') \<Longrightarrow> stack_wf st'"
  by (auto simp: stack_dup_def intro: stack_wf_push)

lemma stack_wf_swap: "stack_wf st \<Longrightarrow> stack_swap d st = Inr (u, st') \<Longrightarrow> stack_wf st'"
  by (auto simp: stack_wf_def stack_swap_def Let_def split: if_splits dest!: set_update_subset_insert[THEN subsetD])

lemma stack_pop_push: "stack_push v st = Inr (u, st') \<Longrightarrow> stack_pop st' = Inr (v AND UINT256_MASK, st)"
  by (auto simp: stack_push_def stack_pop_def split: if_splits)

lemma stack_swap_swap:
  assumes "stack_swap d st = Inr (u, st')"
  shows "stack_swap d st' = Inr ((), st)"
proof -
  have d: "0 < d" "d < int (length st)" and
    st': "st' = st[length st - 1 := st ! (length st - 1 - nat d), length st - 1 - nat d := st ! (length st - 1)]"
    using assms by (auto simp: stack_swap_def Let_def split: if_splits)
  let ?i = "length st - 1" and ?j = "length st - 1 - nat d"
  have ij: "?i < length st" "?j < length st" "?i \<noteq> ?j" using d by auto
  then have "st'[?i := st' ! ?j, ?j := st' ! ?i] = st"
    unfolding st' by (intro nth_equalityI) (auto simp: nth_list_update)
  with d st' show ?thesis by (simp add: stack_swap_def Let_def)
qed

lemma stack_errors:
  "stack_push v st = Inl e \<Longrightarrow> e = StackOverflowError" "stack_pop st = Inl e \<Longrightarrow> e = StackUnderflowError"
  "stack_swap d st = Inl e \<Longrightarrow> e = StackUnderflowError"
  "stack_dup d st = Inl e \<Longrightarrow> e = StackUnderflowError \<or> e = StackOverflowError"
  by (auto simp: stack_push_def stack_pop_def stack_swap_def stack_dup_def stack_peek_def Let_def bindR_eq_Inl
      split: if_splits)

section \<open>Memory\<close>

type_synonym memory = bytes

definition size_words :: "memory \<Rightarrow> (py_error, int) result" where
  "size_words mem = words_for_size (int (length mem))"

definition expansion_cost :: "int \<Rightarrow> int \<Rightarrow> memory \<Rightarrow> (py_error, int) result" where
  "expansion_cost offset sz mem =
     (if offset < 0 \<or> sz < 0 then Inl ValueError
      else if sz = 0 then Inr 0
      else
        bindR (words_for_size (offset + sz)) (\<lambda>new_words.
        bindR (size_words mem) (\<lambda>words. Inr (memory_expansion_cost words new_words))))"

definition expand_for_access :: "int \<Rightarrow> int \<Rightarrow> memory \<Rightarrow> (py_error, int \<times> memory) result" where
  "expand_for_access offset sz mem =
     bindR (expansion_cost offset sz mem) (\<lambda>cost.
     if sz = 0 then Inr (cost, mem)
     else
       let stop = offset + sz in
       Inr (cost, if stop > int (length mem) then mem @ replicate (nat (stop - int (length mem))) 0 else mem))"

definition memory_read :: "int \<Rightarrow> int \<Rightarrow> memory \<Rightarrow> (py_error, bytes \<times> memory) result" where
  "memory_read offset sz mem =
     bindR (expand_for_access offset sz mem) (\<lambda>(_, mem).
     if sz = 0 then Inr ([], mem) else Inr (slice mem offset (offset + sz), mem))"

definition memory_write :: "int \<Rightarrow> bytes \<Rightarrow> memory \<Rightarrow> (py_error, unit \<times> memory) result" where
  "memory_write offset raw mem =
     bindR (expand_for_access offset (int (length raw)) mem) (\<lambda>(_, mem).
     Inr ((), take (nat offset) mem @ raw @ drop (nat offset + length raw) mem))"

definition read_word :: "int \<Rightarrow> memory \<Rightarrow> (py_error, int \<times> memory) result" where
  "read_word offset mem = bindR (memory_read offset 32 mem) (\<lambda>(bs, mem). Inr (be_int bs, mem))"

definition write_word :: "int \<Rightarrow> int \<Rightarrow> memory \<Rightarrow> (py_error, unit \<times> memory) result" where
  "write_word offset value mem = memory_write offset (int_to_bytes32 value) mem"

lemma expansion_cost_ok:
  "0 \<le> offset \<Longrightarrow> 0 \<le> sz \<Longrightarrow> \<exists>c. expansion_cost offset sz mem = Inr c \<and> 0 \<le> c"
  by (simp add: expansion_cost_def size_words_def words_for_size_eq memory_expansion_cost_nonneg)

text \<open>The memory after an access: extended with zeros up to the end of the range.\<close>

definition touched :: "int \<Rightarrow> int \<Rightarrow> memory \<Rightarrow> memory" where
  "touched offset sz mem = (if sz = 0 then mem else mem @ replicate (nat (offset + sz - int (length mem))) 0)"

lemma expand_for_access_ok:
  assumes "0 \<le> offset" "0 \<le> sz"
  shows "\<exists>c. expand_for_access offset sz mem = Inr (c, touched offset sz mem) \<and> 0 \<le> c"
  using expansion_cost_ok[OF assms, of mem] by (auto simp: expand_for_access_def touched_def Let_def)

lemma memory_read_ok:
  assumes "0 \<le> offset" "0 \<le> sz"
  shows "memory_read offset sz mem = Inr (slice (touched offset sz mem) offset (offset + sz), touched offset sz mem)"
  using expand_for_access_ok[OF assms, of mem] by (auto simp: memory_read_def slice_def)

lemma memory_write_ok:
  assumes "0 \<le> offset"
  shows "memory_write offset raw mem =
    (let mem' = touched offset (int (length raw)) mem
     in Inr ((), take (nat offset) mem' @ raw @ drop (nat offset + length raw) mem'))"
  using expand_for_access_ok[OF assms, of "int (length raw)" mem] by (auto simp: memory_write_def Let_def)

lemma length_touched: "0 \<le> offset \<Longrightarrow> 0 < sz \<Longrightarrow> nat offset + nat sz \<le> length (touched offset sz mem)"
  by (simp add: touched_def)

text \<open>The abstract view: an infinite memory that is zero beyond what was touched.\<close>

definition mem_at :: "memory \<Rightarrow> nat \<Rightarrow> byte" where
  "mem_at mem i = (if i < length mem then mem ! i else 0)"

lemma mem_at_touched: "mem_at (touched offset sz mem) = mem_at mem"
  by (rule ext) (simp add: mem_at_def touched_def nth_append)

lemma memory_read_abs:
  assumes "0 \<le> offset" "0 \<le> sz" "memory_read offset sz mem = Inr (bs, mem')"
  shows "bs = map (mem_at mem) [nat offset..<nat (offset + sz)]" "mem_at mem' = mem_at mem"
proof -
  have mem': "mem' = touched offset sz mem" and bs: "bs = slice mem' offset (offset + sz)"
    using assms memory_read_ok[OF assms(1,2), of mem] by auto
  have "nat offset + nat sz \<le> length mem'" if "0 < sz" using length_touched[OF assms(1) that] mem' by simp
  then have len: "length bs = nat sz" using assms(1,2) by (cases "sz = 0") (auto simp: bs length_slice nat_add_distrib)
  show "mem_at mem' = mem_at mem" by (simp add: mem' mem_at_touched)
  then show "bs = map (mem_at mem) [nat offset..<nat (offset + sz)]"
    using len assms(1,2) by (intro nth_equalityI)
      (auto simp: nat_add_distrib bs slice_def mem_at_def[of mem'] simp flip: \<open>mem_at mem' = mem_at mem\<close>)
qed

lemma memory_write_abs:
  assumes "0 \<le> offset" "memory_write offset raw mem = Inr (u, mem')"
  shows "mem_at mem' i =
    (if nat offset \<le> i \<and> i < nat offset + length raw then raw ! (i - nat offset) else mem_at mem i)"
proof -
  define t where "t = touched offset (int (length raw)) mem"
  have mem': "mem' = take (nat offset) t @ raw @ drop (nat offset + length raw) t"
    using assms memory_write_ok[OF assms(1), of raw mem] by (simp add: Let_def t_def)
  have len: "nat offset + length raw \<le> length t" if "raw \<noteq> []"
    using that length_touched[OF assms(1), of "int (length raw)" mem] by (simp add: t_def)
  have "mem_at mem' i = (if nat offset \<le> i \<and> i < nat offset + length raw then raw ! (i - nat offset) else mem_at t i)"
  proof (cases "raw = []")
    case True
    then show ?thesis by (auto simp: mem' mem_at_def)
  next
    case False
    with len show ?thesis by (auto simp: mem' mem_at_def nth_append min_def)
  qed
  then show ?thesis by (simp add: t_def mem_at_touched)
qed

section \<open>Gas meter, contexts, frames\<close>

record gas_meter =
  gm_remaining :: int
  gm_refund :: int

definition gas_charge :: "int \<Rightarrow> gas_meter \<Rightarrow> (evm_exn, unit \<times> gas_meter) result" where
  "gas_charge amount gm =
     (if amount < 0 then Inl (PyError ValueError)
      else if gm_remaining gm < amount then Inl OutOfGasError
      else Inr ((), gm\<lparr>gm_remaining := gm_remaining gm - amount\<rparr>))"

definition add_refund :: "int \<Rightarrow> gas_meter \<Rightarrow> (evm_exn, unit \<times> gas_meter) result" where
  "add_refund amount gm = Inr ((), gm\<lparr>gm_refund := gm_refund gm + amount\<rparr>)"

definition return_gas :: "int \<Rightarrow> gas_meter \<Rightarrow> (evm_exn, unit \<times> gas_meter) result" where
  "return_gas amount gm =
     (if amount < 0 then Inl (PyError ValueError)
      else Inr ((), gm\<lparr>gm_remaining := gm_remaining gm + amount\<rparr>))"

definition consume_all :: "gas_meter \<Rightarrow> gas_meter" where
  "consume_all gm = gm\<lparr>gm_remaining := 0\<rparr>"

record log_entry =
  log_address :: address
  log_topics :: "u256 list"
  log_data :: bytes

record exec_context =
  cx_address :: address
  cx_caller :: address
  cx_origin :: address
  cx_value :: int
  cx_calldata :: bytes
  cx_code :: bytes
  cx_gas :: int
  cx_static :: bool
  cx_depth :: int
  cx_gas_price :: int
  cx_chain_id :: int
  cx_code_address :: address

record exec_result =
  r_success :: bool
  r_gas_remaining :: int
  r_gas_refund :: int
  r_output :: bytes
  r_logs :: "log_entry list"
  r_error :: "evm_exn option"
  r_reverted :: bool
  r_created_address :: "address option"

text \<open>\<open>ExecutionResult\<close> with the defaults of the dataclass.\<close>

definition exec_result_default :: "bool \<Rightarrow> int \<Rightarrow> exec_result" where
  "exec_result_default success gas_remaining =
     \<lparr>r_success = success, r_gas_remaining = gas_remaining, r_gas_refund = 0, r_output = [], r_logs = [],
      r_error = None, r_reverted = False, r_created_address = None\<rparr>"

record frame =
  f_context :: exec_context
  f_stack :: stack
  f_memory :: memory
  f_pc :: int
  f_last_return_data :: bytes
  f_logs :: "log_entry list"
  f_gas_meter :: gas_meter
  f_jumpdests :: "int set"

definition mk_frame :: "exec_context \<Rightarrow> frame" where
  "mk_frame context =
     \<lparr>f_context = context, f_stack = [], f_memory = [], f_pc = 0, f_last_return_data = [], f_logs = [],
      f_gas_meter = \<lparr>gm_remaining = cx_gas context, gm_refund = 0\<rparr>,
      f_jumpdests = collect_jumpdest_offsets (cx_code context)\<rparr>"

record machine =
  m_db :: statedb
  m_frame :: frame

type_synonym 'a evm = "(machine, evm_exn, 'a) sem"

section \<open>Lifting to the machine\<close>

definition zoom :: "('s \<Rightarrow> 'v) \<Rightarrow> ('v \<Rightarrow> 's \<Rightarrow> 's) \<Rightarrow> ('v \<Rightarrow> ('e, 'a \<times> 'v) result) \<Rightarrow> ('s, 'e, 'a) sem" where
  "zoom get put f = (\<lambda>s. case f (get s) of Inl e \<Rightarrow> (Inl e, s) | Inr (x, v) \<Rightarrow> (Inr x, put v s))"

definition upd_frame :: "(frame \<Rightarrow> frame) \<Rightarrow> machine \<Rightarrow> machine" where
  "upd_frame f m = m\<lparr>m_frame := f (m_frame m)\<rparr>"

definition on_stack :: "(stack \<Rightarrow> (evm_exn, 'a \<times> stack) result) \<Rightarrow> 'a evm" where
  "on_stack = zoom (\<lambda>m. f_stack (m_frame m)) (\<lambda>st. upd_frame (\<lambda>fr. fr\<lparr>f_stack := st\<rparr>))"

definition on_memory :: "(memory \<Rightarrow> (py_error, 'a \<times> memory) result) \<Rightarrow> 'a evm" where
  "on_memory f =
     zoom (\<lambda>m. f_memory (m_frame m)) (\<lambda>mem. upd_frame (\<lambda>fr. fr\<lparr>f_memory := mem\<rparr>)) (\<lambda>mem. py (f mem))"

definition on_gas :: "(gas_meter \<Rightarrow> (evm_exn, 'a \<times> gas_meter) result) \<Rightarrow> 'a evm" where
  "on_gas = zoom (\<lambda>m. f_gas_meter (m_frame m)) (\<lambda>gm. upd_frame (\<lambda>fr. fr\<lparr>f_gas_meter := gm\<rparr>))"

definition on_state :: "(statedb \<Rightarrow> 'a \<times> statedb) \<Rightarrow> 'a evm" where
  "on_state f = zoom m_db (\<lambda>db m. m\<lparr>m_db := db\<rparr>) (\<lambda>db. Inr (f db))"

definition push :: "int \<Rightarrow> unit evm" where "push value = on_stack (stack_push value)"
definition pop :: "int evm" where "pop = on_stack stack_pop"
definition charge :: "int \<Rightarrow> unit evm" where "charge amount = on_gas (gas_charge amount)"

definition get_frame :: "(frame \<Rightarrow> 'a) \<Rightarrow> 'a evm" where
  "get_frame f = getM (\<lambda>m. f (m_frame m))"

definition get_context :: "(exec_context \<Rightarrow> 'a) \<Rightarrow> 'a evm" where
  "get_context f = getM (\<lambda>m. f (f_context (m_frame m)))"

definition get_state :: "(statedb \<Rightarrow> 'a) \<Rightarrow> 'a evm" where
  "get_state f = getM (\<lambda>m. f (m_db m))"

definition set_frame :: "(frame \<Rightarrow> frame) \<Rightarrow> unit evm" where
  "set_frame f = modM (upd_frame f)"

lemmas [sem_simps] = zoom_def upd_frame_def on_stack_def on_memory_def on_gas_def on_state_def push_def pop_def
  charge_def get_frame_def get_context_def get_state_def set_frame_def

section \<open>Precompiled contracts\<close>

text \<open>The digests of \<open>hashlib\<close> the precompiles call, as functions on byte strings.\<close>

record hashlib =
  hl_sha256 :: "bytes \<Rightarrow> bytes"
  hl_ripemd160 :: "bytes \<Rightarrow> bytes"

datatype precompile = ECRecoverPrecompile | SHA256Precompile | RIPEMD160Precompile | IdentityPrecompile

text \<open>\<open>words_for_size(len(data))\<close> cannot fail.\<close>

definition word_count :: "bytes \<Rightarrow> int" where
  "word_count data = (case words_for_size (int (length data)) of Inr n \<Rightarrow> n | Inl _ \<Rightarrow> 0)"

fun precompile_gas_cost :: "precompile \<Rightarrow> bytes \<Rightarrow> int" where
  "precompile_gas_cost ECRecoverPrecompile input_data = GAS_ECRECOVER"
| "precompile_gas_cost SHA256Precompile input_data = GAS_SHA256 + word_count input_data * GAS_SHA256_WORD"
| "precompile_gas_cost RIPEMD160Precompile input_data = GAS_RIPEMD160 + word_count input_data * GAS_RIPEMD160_WORD"
| "precompile_gas_cost IdentityPrecompile input_data = GAS_IDENTITY + word_count input_data * GAS_IDENTITY_WORD"

text \<open>\<open>bytes.ljust\<close>.\<close>

definition ljust :: "bytes \<Rightarrow> nat \<Rightarrow> bytes" where
  "ljust bs n = bs @ replicate (n - length bs) 0"

definition ecrecover_run :: "bytes \<Rightarrow> bytes" where
  "ecrecover_run input_data =
     (let padded = ljust input_data 128;
          message_hash = take 32 padded;
          v_value = be_int (slice padded 32 64);
          r_value = be_int (slice padded 64 96);
          s_value = be_int (slice padded 96 128);
          recovery_id = (if v_value = 27 \<or> v_value = 28 then Some (v_value - 27)
                         else if v_value = 0 \<or> v_value = 1 then Some v_value
                         else None)
      in case recovery_id of
           None \<Rightarrow> replicate 32 0
         | Some rid \<Rightarrow>
             if \<not> (1 \<le> r_value \<and> r_value < SECP256K1_N \<and> 1 \<le> s_value \<and> s_value < SECP256K1_N) then replicate 32 0
             else
               let signature = be_bytes 32 r_value @ be_bytes 32 s_value @ [word_of_int rid] in
               (case bindR (signature_from_bytes signature) (\<lambda>sg.
                     bindR (recover_public_key message_hash sg) address_from_public_key) of
                  Inr a \<Rightarrow> replicate 12 0 @ address_bytes a
                | Inl _ \<Rightarrow> replicate 32 0))"

fun precompile_run :: "hashlib \<Rightarrow> precompile \<Rightarrow> bytes \<Rightarrow> bytes" where
  "precompile_run hl ECRecoverPrecompile input_data = ecrecover_run input_data"
| "precompile_run hl SHA256Precompile input_data = hl_sha256 hl input_data"
| "precompile_run hl RIPEMD160Precompile input_data = replicate 12 0 @ hl_ripemd160 hl input_data"
| "precompile_run hl IdentityPrecompile input_data = input_data"

definition precompile_registry :: "(int, precompile) dict" where
  "precompile_registry =
     [(1, ECRecoverPrecompile), (2, SHA256Precompile), (3, RIPEMD160Precompile), (4, IdentityPrecompile)]"

definition precompile_get :: "address \<Rightarrow> precompile option" where
  "precompile_get a = dict_get precompile_registry (address_to_int a)"

lemma word_count_eq: "word_count data = (int (length data) + 31) div 32"
  by (simp add: word_count_def words_for_size_eq)

lemma precompile_gas_cost_nonneg: "0 \<le> precompile_gas_cost p data"
  by (cases p) (simp_all add: word_count_eq gas_defs)

text \<open>
  \<open>except ValueError\<close> in the code catches every exception that can arise there: the curve code
  raises nothing else (\<open>curve_errors\<close>), and so the handler \<open>Inl _\<close> above is exact.
\<close>

lemma ecrecover_only_value_error:
  "bindR (signature_from_bytes s) (\<lambda>sg. bindR (recover_public_key h sg) address_from_public_key) = Inl e
   \<Longrightarrow> e = ValueError"
  using address_from_public_key_ok
  by (auto simp: bindR_eq_Inl signature_from_bytes_error recover_error) (metis Inl_Inr_False)

lemma ecrecover_run_length: "length (ecrecover_run data) = 32"
  by (simp add: ecrecover_run_def Let_def ADDRESS_SIZE_def address_bytes_def del: be_bytes.simps split: option.split sum.split)

section \<open>The machine invariant\<close>

text \<open>
  \<open>mach S cx g p\<close>: the database satisfies \<open>S\<close>, the frame runs in context \<open>cx\<close> with its jump
  destinations, the stack is well formed, the gas left lies between 0 and \<open>g\<close> and the program
  counter is at least \<open>p\<close>. \<open>halt fu S g\<close> is what remains of it when an exception stops the
  frame: the exception is an \<open>EVMError\<close> (or, if \<open>fu\<close> allows it, the end of the fuel), never a
  builtin one.
\<close>

definition mach :: "(statedb \<Rightarrow> bool) \<Rightarrow> exec_context \<Rightarrow> int \<Rightarrow> int \<Rightarrow> machine \<Rightarrow> bool" where
  "mach S cx g p m \<longleftrightarrow> S (m_db m) \<and> f_context (m_frame m) = cx \<and>
     f_jumpdests (m_frame m) = collect_jumpdest_offsets (cx_code cx) \<and> stack_wf (f_stack (m_frame m)) \<and>
     0 \<le> gm_remaining (f_gas_meter (m_frame m)) \<and> gm_remaining (f_gas_meter (m_frame m)) \<le> g \<and>
     p \<le> f_pc (m_frame m)"

definition halt :: "bool \<Rightarrow> (statedb \<Rightarrow> bool) \<Rightarrow> int \<Rightarrow> evm_exn \<Rightarrow> machine \<Rightarrow> bool" where
  "halt fu S g e m \<longleftrightarrow> (is_evm_error e \<or> fu \<and> e = FuelExhausted) \<and> S (m_db m) \<and>
     0 \<le> gm_remaining (f_gas_meter (m_frame m)) \<and> gm_remaining (f_gas_meter (m_frame m)) \<le> g"

lemma mach_halt: "mach S cx g p m \<Longrightarrow> is_evm_error e \<or> fu \<and> e = FuelExhausted \<Longrightarrow> halt fu S g e m"
  by (auto simp: mach_def halt_def)

lemma mach_mono: "mach S cx g p m \<Longrightarrow> g \<le> g' \<Longrightarrow> p' \<le> p \<Longrightarrow> mach S cx g' p' m"
  by (auto simp: mach_def)

lemma halt_mono: "halt fu S g e m \<Longrightarrow> g \<le> g' \<Longrightarrow> halt fu S g' e m"
  by (auto simp: halt_def)

lemma tri_zoom:
  assumes "\<And>s x v. P s \<Longrightarrow> f (get s) = Inr (x, v) \<Longrightarrow> V x \<and> Q (put v s)"
    and "\<And>s e. P s \<Longrightarrow> f (get s) = Inl e \<Longrightarrow> E e s"
  shows "tri E P (zoom get put f) V Q"
proof (rule triI)
  fix s assume P: "P s"
  show "case zoom get put f s of (Inl e, s') \<Rightarrow> E e s' | (Inr x, s') \<Rightarrow> V x \<and> Q s'"
    using assms[OF P] by (cases "f (get s)") (auto simp: zoom_def split: prod.splits)
qed

lemma tri_push [tri_rules]: "tri (halt fu S g) (mach S cx g p) (push v) (\<lambda>_. True) (mach S cx g p)"
  unfolding push_def on_stack_def
  by (rule tri_zoom) (auto simp: mach_def upd_frame_def dest: stack_wf_push stack_errors intro!: mach_halt[unfolded mach_def])

lemma tri_pop [tri_rules]: "tri (halt fu S g) (mach S cx g p) pop word_range (mach S cx g p)"
  unfolding pop_def on_stack_def
  by (rule tri_zoom) (auto simp: mach_def upd_frame_def halt_def dest: stack_wf_pop stack_errors)

lemma tri_dup [tri_rules]: "tri (halt fu S g) (mach S cx g p) (on_stack (stack_dup d)) (\<lambda>_. True) (mach S cx g p)"
  unfolding on_stack_def
  by (rule tri_zoom) (auto simp: mach_def upd_frame_def halt_def dest: stack_wf_dup stack_errors)

lemma tri_swap [tri_rules]: "tri (halt fu S g) (mach S cx g p) (on_stack (stack_swap d)) (\<lambda>_. True) (mach S cx g p)"
  unfolding on_stack_def
  by (rule tri_zoom) (auto simp: mach_def upd_frame_def halt_def dest: stack_wf_swap stack_errors)

lemma tri_charge_exact:
  "0 \<le> amount \<Longrightarrow> tri (halt fu S g) (mach S cx g p) (charge amount) (\<lambda>_. amount \<le> g) (mach S cx (g - amount) p)"
  unfolding charge_def on_gas_def
  by (rule tri_zoom) (auto simp: mach_def upd_frame_def halt_def gas_charge_def split: if_splits)

lemma tri_charge [tri_rules]:
  "0 \<le> amount \<Longrightarrow> tri (halt fu S g) (mach S cx g p) (charge amount) (\<lambda>_. True) (mach S cx g p)"
  by (rule tri_conseq[OF tri_charge_exact]) (auto intro: mach_mono)

lemma tri_refund [tri_rules]: "tri (halt fu S g) (mach S cx g p) (on_gas (add_refund r)) (\<lambda>_. True) (mach S cx g p)"
  unfolding on_gas_def by (rule tri_zoom) (auto simp: mach_def upd_frame_def add_refund_def)

lemma tri_return_gas:
  "0 \<le> amount \<Longrightarrow>
   tri (halt fu S (g + amount)) (mach S cx g p) (on_gas (return_gas amount)) (\<lambda>_. True) (mach S cx (g + amount) p)"
  unfolding on_gas_def by (rule tri_zoom) (auto simp: mach_def upd_frame_def return_gas_def)

lemma tri_on_memory:
  "(\<And>mem. \<exists>r. f mem = Inr r) \<Longrightarrow>
   tri (halt fu S g) (mach S cx g p) (on_memory f) (\<lambda>x. \<exists>mem mem'. f mem = Inr (x, mem')) (mach S cx g p)"
  unfolding on_memory_def
  by (rule tri_zoom) (auto simp: mach_def upd_frame_def, metis Inl_Inr_False py_simps(2) sum.sel(2))

lemma tri_expand [tri_rules]:
  "0 \<le> o' \<Longrightarrow> 0 \<le> z \<Longrightarrow>
   tri (halt fu S g) (mach S cx g p) (on_memory (expand_for_access o' z)) (\<lambda>_. True) (mach S cx g p)"
  by (rule tri_conseq[OF tri_on_memory]) (use expand_for_access_ok in \<open>blast+\<close>)

lemma tri_read [tri_rules]:
  "0 \<le> o' \<Longrightarrow> 0 \<le> z \<Longrightarrow>
   tri (halt fu S g) (mach S cx g p) (on_memory (memory_read o' z)) (\<lambda>bs. length bs = nat z) (mach S cx g p)"
proof (rule tri_conseq[OF tri_on_memory])
  assume nn: "0 \<le> o'" "0 \<le> z"
  show "\<exists>r. memory_read o' z mem = Inr r" for mem using memory_read_ok[OF nn] by blast
  show "length bs = nat z" if "\<exists>mem mem'. memory_read o' z mem = Inr (bs, mem')" for bs
    using that memory_read_abs(1)[OF nn] nn by (fastforce simp: nat_add_distrib)
qed

lemma tri_write [tri_rules]:
  "0 \<le> o' \<Longrightarrow> tri (halt fu S g) (mach S cx g p) (on_memory (memory_write o' bs)) (\<lambda>_. True) (mach S cx g p)"
  by (rule tri_conseq[OF tri_on_memory]) (auto simp: memory_write_ok Let_def)

lemma tri_read_word [tri_rules]:
  "0 \<le> o' \<Longrightarrow> tri (halt fu S g) (mach S cx g p) (on_memory (read_word o')) (\<lambda>_. True) (mach S cx g p)"
  by (rule tri_conseq[OF tri_on_memory]) (auto simp: read_word_def memory_read_ok)

lemma tri_write_word [tri_rules]:
  "0 \<le> o' \<Longrightarrow> tri (halt fu S g) (mach S cx g p) (on_memory (write_word o' v)) (\<lambda>_. True) (mach S cx g p)"
  unfolding write_word_def by (rule tri_write)

lemma tri_get_frame: "(\<And>m. mach S cx g p m \<Longrightarrow> V (f (m_frame m))) \<Longrightarrow>
  tri (halt fu S g) (mach S cx g p) (get_frame f) V (mach S cx g p)"
  unfolding get_frame_def by (rule tri_get)

lemma tri_get_frame_any [tri_rules]: "tri (halt fu S g) (mach S cx g p) (get_frame f) (\<lambda>_. True) (mach S cx g p)"
  by (rule tri_get_frame) simp

lemma tri_get_context [tri_rules]:
  "tri (halt fu S g) (mach S cx g p) (get_context f) (\<lambda>x. x = f cx) (mach S cx g p)"
  unfolding get_context_def by (rule tri_get) (simp add: mach_def)

lemma tri_get_state: "(\<And>db. S db \<Longrightarrow> V (f db)) \<Longrightarrow>
  tri (halt fu S g) (mach S cx g p) (get_state f) V (mach S cx g p)"
  unfolding get_state_def by (rule tri_get) (simp add: mach_def)

lemma tri_get_state_any [tri_rules]: "tri (halt fu S g) (mach S cx g p) (get_state f) (\<lambda>_. True) (mach S cx g p)"
  by (rule tri_get_state) simp

lemma tri_on_state:
  "(\<And>db. S db \<Longrightarrow> V (fst (f db)) \<and> S (snd (f db))) \<Longrightarrow>
   tri (halt fu S g) (mach S cx g p) (on_state f) V (mach S cx g p)"
  unfolding on_state_def by (rule tri_zoom) (auto simp: mach_def, metis fst_conv, metis snd_conv)

lemma tri_set_logs [tri_rules]:
  "tri (halt fu S g) (mach S cx g p) (set_frame (\<lambda>fr. fr\<lparr>f_logs := h fr\<rparr>)) (\<lambda>_. True) (mach S cx g p)"
  "tri (halt fu S g) (mach S cx g p) (set_frame (\<lambda>fr. fr\<lparr>f_last_return_data := bs\<rparr>)) (\<lambda>_. True) (mach S cx g p)"
  unfolding set_frame_def by (rule tri_mod, simp add: mach_def upd_frame_def)+

lemma tri_set_pc: "tri (halt fu S g) (mach S cx g p) (set_frame (\<lambda>fr. fr\<lparr>f_pc := q\<rparr>)) (\<lambda>_. True) (mach S cx g q)"
  unfolding set_frame_def by (rule tri_mod) (simp add: mach_def upd_frame_def)

lemma tri_add_pc [tri_rules]: "0 \<le> n \<Longrightarrow>
  tri (halt fu S g) (mach S cx g p) (set_frame (\<lambda>fr. fr\<lparr>f_pc := f_pc fr + n\<rparr>)) (\<lambda>_. True) (mach S cx g p)"
  unfolding set_frame_def by (rule tri_mod) (simp add: mach_def upd_frame_def)

lemma tri_raise_halt [tri_rules]: "is_evm_error e \<Longrightarrow>
  tri (halt fu S g) (mach S cx g p) (raiseM e) V Q"
  by (rule tri_raise) (erule mach_halt, simp)

lemma tri_guard_halt [tri_rules]: "is_evm_error e \<Longrightarrow>
  tri (halt fu S g) (mach S cx g p) (guardM b e) (\<lambda>_. b) (mach S cx g p)"
  by (rule tri_guard) (erule mach_halt, simp)

lemma tri_lift_ok: "r = Inr x \<Longrightarrow> tri E P (liftR (py r)) (\<lambda>y. y = x) P"
  by (rule tri_lift) auto

lemma word_range_nonneg: "word_range v \<Longrightarrow> 0 \<le> v"
  by (simp add: word_range_def)

end
