(* ===== verification/Interpreter.thy ===== *)
theory Interpreter
  imports Evm_Machine
begin

text \<open>
  The bytecode interpreter (\<open>evm/interpreter.py\<close>): one definition per opcode handler, the message
  calls and contract creations, the dispatch table, the frame loop and the entry points \<open>execute\<close>
  and \<open>call\<close>. A handler is a computation over the machine (state database and frame) that may
  raise; a child frame is run by the function \<open>child\<close> that the loop passes down. The loop takes
  fuel, one unit for every instruction and for every level of nesting; \<open>Interpreter_Term\<close> shows
  that enough fuel always exists. Trace sinks only observe the run and are left out.
\<close>

section \<open>Charging\<close>

definition charge_base :: "int \<Rightarrow> unit evm" where
  "charge_base opcode = charge (base_opcode_gas opcode)"

definition charge_memory :: "int \<Rightarrow> int \<Rightarrow> unit evm" where
  "charge_memory offset sz =
     bindM (get_frame (\<lambda>fr. expansion_cost offset sz (f_memory fr))) (\<lambda>r.
     bindM (liftR (py r)) (\<lambda>cost.
     seqM (charge cost)
     (bindM (on_memory (expand_for_access offset sz)) (\<lambda>_. retM ()))))"

definition memory_view :: "int \<Rightarrow> int \<Rightarrow> bytes evm" where
  "memory_view offset sz =
     bindM (get_frame (\<lambda>fr. expansion_cost offset sz (f_memory fr))) (\<lambda>r.
     bindM (liftR (py r)) (\<lambda>cost.
     seqM (charge cost)
     (bindM (on_memory (expand_for_access offset sz)) (\<lambda>_.
     on_memory (memory_read offset sz)))))"

definition read_memory :: "int \<Rightarrow> int \<Rightarrow> bytes evm" where
  "read_memory offset sz = on_memory (memory_read offset sz)"

definition write_memory :: "int \<Rightarrow> bytes \<Rightarrow> unit evm" where
  "write_memory offset raw = on_memory (memory_write offset raw)"

section \<open>Arithmetic, comparison and bit opcodes\<close>

definition op_push :: "int \<Rightarrow> unit evm" where
  "op_push opcode =
     bindM (liftR (py (push_size opcode))) (\<lambda>sz.
     bindM (get_frame (\<lambda>fr. if sz = 0 then 0
                            else be_int (slice (cx_code (f_context fr)) (f_pc fr) (f_pc fr + sz)))) (\<lambda>value.
     seqM (set_frame (\<lambda>fr. fr\<lparr>f_pc := f_pc fr + sz\<rparr>))
     (push value)))"

definition binary_op :: "(int \<Rightarrow> int \<Rightarrow> int) \<Rightarrow> unit evm" where
  "binary_op operation =
     bindM pop (\<lambda>top.
     bindM pop (\<lambda>next_value.
     push (operation next_value top)))"

definition op_stop :: "unit evm" where "op_stop = raiseM (ExecutionReturn [])"

definition op_add :: "unit evm" where "op_add = binary_op (\<lambda>a b. a + b)"
definition op_mul :: "unit evm" where "op_mul = binary_op (\<lambda>a b. a * b)"
definition op_sub :: "unit evm" where "op_sub = binary_op (\<lambda>a b. a - b)"
definition op_div :: "unit evm" where "op_div = binary_op (\<lambda>a b. if b = 0 then 0 else a div b)"
definition op_mod :: "unit evm" where "op_mod = binary_op (\<lambda>a b. if b = 0 then 0 else a mod b)"
definition op_lt :: "unit evm" where "op_lt = binary_op (\<lambda>a b. if a < b then 1 else 0)"
definition op_gt :: "unit evm" where "op_gt = binary_op (\<lambda>a b. if a > b then 1 else 0)"
definition op_eq :: "unit evm" where "op_eq = binary_op (\<lambda>a b. if a = b then 1 else 0)"
definition op_iszero :: "unit evm" where "op_iszero = bindM pop (\<lambda>v. push (if v = 0 then 1 else 0))"
definition op_and :: "unit evm" where "op_and = binary_op (\<lambda>a b. a AND b)"
definition op_or :: "unit evm" where "op_or = binary_op (\<lambda>a b. a OR b)"
definition op_xor :: "unit evm" where "op_xor = binary_op (\<lambda>a b. a XOR b)"
definition op_not :: "unit evm" where "op_not = bindM pop (\<lambda>v. push (NOT v))"

definition op_byte :: "unit evm" where
  "op_byte =
     bindM pop (\<lambda>index.
     bindM pop (\<lambda>value.
     if index \<ge> 32 then push 0
     else
       let shift = (31 - index) * 8
       in push (drop_bit (nat shift) value AND 0xFF)))"

definition op_shl :: "unit evm" where
  "op_shl =
     bindM pop (\<lambda>shift.
     bindM pop (\<lambda>value.
     push (if shift \<ge> 256 then 0 else push_bit (nat shift) value)))"

definition op_shr :: "unit evm" where
  "op_shr =
     bindM pop (\<lambda>shift.
     bindM pop (\<lambda>value.
     push (if shift \<ge> 256 then 0 else drop_bit (nat shift) value)))"

definition op_sar :: "unit evm" where
  "op_sar =
     bindM pop (\<lambda>shift.
     bindM pop (\<lambda>value.
     if shift \<ge> 256 then push (if value AND push_bit 255 1 \<noteq> 0 then push_bit 256 1 - 1 else 0)
     else
       let signed_value = to_signed value
       in push (from_signed (drop_bit (nat shift) signed_value))))"

definition op_keccak256 :: "unit evm" where
  "op_keccak256 =
     bindM pop (\<lambda>offset.
     bindM pop (\<lambda>sz.
     seqM (charge_memory offset sz)
     (bindM (liftR (py (words_for_size sz))) (\<lambda>words.
     seqM (charge (words * GAS_KECCAK256_WORD))
     (bindM (read_memory offset sz) (\<lambda>data.
     push (be_int (hash_bytes (keccak256 data)))))))))"

section \<open>Environment opcodes\<close>

definition op_address :: "unit evm" where
  "op_address = bindM (get_context (\<lambda>cx. address_to_int (cx_address cx))) push"

definition op_balance :: "unit evm" where
  "op_balance =
     bindM pop (\<lambda>v.
     bindM (get_state (\<lambda>db. get_balance db (int_to_address v))) push)"

definition op_origin :: "unit evm" where
  "op_origin = bindM (get_context (\<lambda>cx. address_to_int (cx_origin cx))) push"

definition op_caller :: "unit evm" where
  "op_caller = bindM (get_context (\<lambda>cx. address_to_int (cx_caller cx))) push"

definition op_callvalue :: "unit evm" where
  "op_callvalue = bindM (get_context cx_value) push"

definition op_calldataload :: "unit evm" where
  "op_calldataload =
     bindM pop (\<lambda>offset.
     bindM (get_context cx_calldata) (\<lambda>calldata.
     bindM (liftR (py (buffer_read calldata offset 32))) (\<lambda>bs.
     push (be_int bs))))"

definition op_calldatasize :: "unit evm" where
  "op_calldatasize = bindM (get_context (\<lambda>cx. int (length (cx_calldata cx)))) push"

definition op_calldatacopy :: "unit evm" where
  "op_calldatacopy =
     bindM pop (\<lambda>memory_offset.
     bindM pop (\<lambda>data_offset.
     bindM pop (\<lambda>sz.
     seqM (charge_memory memory_offset sz)
     (seqM (charge (copy_cost sz))
     (bindM (get_context cx_calldata) (\<lambda>calldata.
     bindM (liftR (py (buffer_read calldata data_offset sz))) (\<lambda>bs.
     write_memory memory_offset bs)))))))"

definition op_codesize :: "unit evm" where
  "op_codesize = bindM (get_context (\<lambda>cx. int (length (cx_code cx)))) push"

definition op_codecopy :: "unit evm" where
  "op_codecopy =
     bindM pop (\<lambda>memory_offset.
     bindM pop (\<lambda>code_offset.
     bindM pop (\<lambda>sz.
     seqM (charge_memory memory_offset sz)
     (seqM (charge (copy_cost sz))
     (bindM (get_context cx_code) (\<lambda>code.
     bindM (liftR (py (buffer_read code code_offset sz))) (\<lambda>bs.
     write_memory memory_offset bs)))))))"

definition op_gasprice :: "unit evm" where
  "op_gasprice = bindM (get_context cx_gas_price) push"

definition op_returndatasize :: "unit evm" where
  "op_returndatasize = bindM (get_frame (\<lambda>fr. int (length (f_last_return_data fr)))) push"

definition op_returndatacopy :: "unit evm" where
  "op_returndatacopy =
     bindM pop (\<lambda>memory_offset.
     bindM pop (\<lambda>data_offset.
     bindM pop (\<lambda>sz.
     bindM (get_frame f_last_return_data) (\<lambda>last_return_data.
     seqM (guardM (\<not> (data_offset + sz > int (length last_return_data))) ReturnDataBoundsError)
     (seqM (charge_memory memory_offset sz)
     (seqM (charge (copy_cost sz))
     (write_memory memory_offset (slice last_return_data data_offset (data_offset + sz)))))))))"

definition op_chainid :: "unit evm" where
  "op_chainid = bindM (get_context cx_chain_id) push"

section \<open>Stack, memory, storage and flow opcodes\<close>

definition op_pop :: "unit evm" where
  "op_pop = bindM pop (\<lambda>_. retM ())"

definition op_mload :: "unit evm" where
  "op_mload =
     bindM pop (\<lambda>offset.
     seqM (charge_memory offset 32)
     (bindM (on_memory (read_word offset)) push))"

definition op_mstore :: "unit evm" where
  "op_mstore =
     bindM pop (\<lambda>offset.
     bindM pop (\<lambda>value.
     seqM (charge_memory offset 32)
     (on_memory (write_word offset value))))"

definition op_mstore8 :: "unit evm" where
  "op_mstore8 =
     bindM pop (\<lambda>offset.
     bindM pop (\<lambda>value.
     seqM (charge_memory offset 1)
     (write_memory offset [word_of_int (value AND 0xFF)])))"

definition op_sload :: "unit evm" where
  "op_sload =
     bindM pop (\<lambda>key.
     bindM (get_context cx_address) (\<lambda>a.
     bindM (get_state (\<lambda>db. get_storage db a key)) push))"

definition op_sstore :: "unit evm" where
  "op_sstore =
     bindM (get_context cx_static) (\<lambda>static.
     seqM (guardM (\<not> static) WriteProtectionError)
     (bindM pop (\<lambda>key.
     bindM pop (\<lambda>value.
     bindM (get_context cx_address) (\<lambda>a.
     bindM (on_state (estimate_sstore a key value)) (\<lambda>(cost, refund).
     seqM (charge cost)
     (bindM (on_state (set_storage a key value)) (\<lambda>_.
     whenM (refund \<noteq> 0) (on_gas (add_refund refund))))))))))"

definition jump_to :: "int \<Rightarrow> unit evm" where
  "jump_to destination =
     bindM (get_frame f_jumpdests) (\<lambda>jumpdests.
     seqM (guardM (destination \<in> jumpdests) InvalidJumpDestinationError)
     (set_frame (\<lambda>fr. fr\<lparr>f_pc := destination\<rparr>)))"

definition op_jump :: "unit evm" where
  "op_jump = bindM pop jump_to"

definition op_jumpi :: "unit evm" where
  "op_jumpi =
     bindM pop (\<lambda>destination.
     bindM pop (\<lambda>condition.
     whenM (condition \<noteq> 0) (jump_to destination)))"

definition op_pc :: "unit evm" where
  "op_pc = bindM (get_frame (\<lambda>fr. f_pc fr - 1)) push"

definition op_msize :: "unit evm" where
  "op_msize = bindM (get_frame (\<lambda>fr. int (length (f_memory fr)))) push"

definition op_gas :: "unit evm" where
  "op_gas = bindM (get_frame (\<lambda>fr. gm_remaining (f_gas_meter fr))) push"

definition op_jumpdest :: "unit evm" where
  "op_jumpdest = retM ()"

definition op_return :: "unit evm" where
  "op_return =
     bindM pop (\<lambda>offset.
     bindM pop (\<lambda>sz.
     seqM (charge_memory offset sz)
     (bindM (read_memory offset sz) (\<lambda>data. raiseM (ExecutionReturn data)))))"

definition op_revert :: "unit evm" where
  "op_revert =
     bindM pop (\<lambda>offset.
     bindM pop (\<lambda>sz.
     seqM (charge_memory offset sz)
     (bindM (read_memory offset sz) (\<lambda>data. raiseM (ExecutionRevert data)))))"

definition op_invalid :: "unit evm" where
  "op_invalid = raiseM InvalidOpcodeError"

primrec pop_topics :: "nat \<Rightarrow> u256 list evm" where
  "pop_topics 0 = retM []"
| "pop_topics (Suc n) =
     bindM pop (\<lambda>v.
     bindM (liftR (py (mk_u256 v))) (\<lambda>topic.
     bindM (pop_topics n) (\<lambda>topics. retM (topic # topics))))"

definition op_log :: "int \<Rightarrow> unit evm" where
  "op_log opcode =
     bindM (get_context cx_static) (\<lambda>static.
     seqM (guardM (\<not> static) WriteProtectionError)
     (bindM pop (\<lambda>offset.
     bindM pop (\<lambda>sz.
     let topic_count = log_topic_count opcode in
     bindM (pop_topics (nat topic_count)) (\<lambda>topics.
     seqM (charge_memory offset sz)
     (seqM (charge (GAS_LOG + (topic_count * GAS_LOG_TOPIC) + (sz * GAS_LOG_DATA)))
     (bindM (get_context cx_address) (\<lambda>a.
     bindM (read_memory offset sz) (\<lambda>data.
     set_frame (\<lambda>fr. fr\<lparr>f_logs := f_logs fr @
       [\<lparr>log_address = a, log_topics = topics, log_data = data\<rparr>]\<rparr>))))))))))"

section \<open>Message calls\<close>

type_synonym child = "exec_context \<Rightarrow> statedb \<Rightarrow> (evm_exn + exec_result) \<times> statedb"

definition run_child :: "child \<Rightarrow> exec_context \<Rightarrow> exec_result evm" where
  "run_child child cx = (\<lambda>m. case child cx (m_db m) of (r, db) \<Rightarrow> (r, m\<lparr>m_db := db\<rparr>))"

text \<open>
  \<open>_call_common\<close> up to the point where the result is known or a child frame has to run:
  \<open>CallDone r\<close> is an early return of \<open>r\<close>; \<open>CallSettled\<close> has the result of a precompile or of an
  account without code; \<open>CallSpawn\<close> has the context of the child frame. The latter two carry the
  snapshot and the forwarded gas to the common end of the function.
\<close>

datatype call_plan =
    CallDone exec_result
  | CallSettled statedb int exec_result
  | CallSpawn statedb int exec_context

record call_args =
  ca_gas_requested :: int
  ca_target :: address
  ca_calldata :: bytes
  ca_out_offset :: int
  ca_out_size :: int
  ca_value :: int
  ca_address :: address
  ca_caller :: address
  ca_static :: bool
  ca_code_address :: address

definition failed_call :: exec_result where
  "failed_call = exec_result_default False 0"

definition call_base_cost :: "call_args \<Rightarrow> statedb \<Rightarrow> int" where
  "call_base_cost ca db =
     (if ca_value ca \<noteq> 0
      then GAS_CALL + GAS_CALL_VALUE + (if \<not> account_exists db (ca_target ca) then GAS_NEW_ACCOUNT else 0)
      else GAS_CALL)"

text \<open>The end of the preparation: pick the precompile, the empty account or the child frame.\<close>

definition call_target :: "hashlib \<Rightarrow> call_args \<Rightarrow> statedb \<Rightarrow> int \<Rightarrow> int \<Rightarrow> call_plan evm" where
  "call_target hl ca snapshot forwarded_gas child_gas =
     (case precompile_get (ca_code_address ca) of
        Some pc \<Rightarrow>
          let gas_cost = precompile_gas_cost pc (ca_calldata ca) in
          if child_gas < gas_cost
          then bindM (on_state (\<lambda>db. ((), statedb_restore snapshot db))) (\<lambda>_. retM (CallDone failed_call))
          else
            let output = precompile_run hl pc (ca_calldata ca)
            in retM (CallSettled snapshot forwarded_gas
                 ((exec_result_default True (child_gas - gas_cost))\<lparr>r_output := output\<rparr>))
      | None \<Rightarrow>
          bindM (get_state (\<lambda>db. get_code db (ca_code_address ca))) (\<lambda>code.
          if code = [] then retM (CallSettled snapshot forwarded_gas (exec_result_default True child_gas))
          else
            bindM (get_context (\<lambda>cx. cx)) (\<lambda>cx.
            retM (CallSpawn snapshot forwarded_gas
              \<lparr>cx_address = ca_address ca, cx_caller = ca_caller ca, cx_origin = cx_origin cx,
               cx_value = ca_value ca, cx_calldata = ca_calldata ca, cx_code = code, cx_gas = child_gas,
               cx_static = ca_static ca, cx_depth = cx_depth cx + 1, cx_gas_price = cx_gas_price cx,
               cx_chain_id = cx_chain_id cx, cx_code_address = ca_code_address ca\<rparr>))))"

definition call_forward :: "hashlib \<Rightarrow> call_args \<Rightarrow> call_plan evm" where
  "call_forward hl ca =
     bindM (get_frame (\<lambda>fr. gm_remaining (f_gas_meter fr))) (\<lambda>remaining.
     let available_for_child = remaining - (remaining div 64);
         forwarded_gas = min (ca_gas_requested ca) (max available_for_child 0);
         child_gas = forwarded_gas + (if ca_value ca \<noteq> 0 then GAS_CALL_STIPEND else 0) in
     seqM (charge forwarded_gas)
     (bindM (get_state statedb_snapshot) (\<lambda>snapshot.
     bindM (get_context cx_address) (\<lambda>self_address.
     bindM (if ca_value ca \<noteq> 0 then on_state (transfer self_address (ca_target ca) (ca_value ca))
            else retM True) (\<lambda>transferred.
     if \<not> transferred
     then bindM (on_state (\<lambda>db. ((), statedb_restore snapshot db))) (\<lambda>_. retM (CallDone failed_call))
     else call_target hl ca snapshot forwarded_gas child_gas)))))"

definition call_prepare :: "hashlib \<Rightarrow> call_args \<Rightarrow> call_plan evm" where
  "call_prepare hl ca =
     bindM (get_context (\<lambda>cx. cx)) (\<lambda>cx.
     if cx_depth cx + 1 \<ge> MAX_CALL_DEPTH
     then retM (CallDone ((exec_result_default False 0)\<lparr>r_error := Some CallDepthExceededError\<rparr>))
     else
       seqM (guardM (\<not> (ca_static ca \<and> ca_value ca \<noteq> 0)) WriteProtectionError)
       (seqM (guardM (\<not> (ca_value ca \<noteq> 0 \<and> cx_static cx)) WriteProtectionError)
       (seqM (charge_memory (ca_out_offset ca) (ca_out_size ca))
       (bindM (get_state (call_base_cost ca)) (\<lambda>call_cost.
       seqM (charge call_cost)
       (bindM (get_state (\<lambda>db. get_balance db (cx_address cx))) (\<lambda>balance.
       if ca_value ca \<noteq> 0 \<and> balance < ca_value ca then retM (CallDone failed_call)
       else call_forward hl ca)))))))"

definition call_conclude :: "call_args \<Rightarrow> statedb \<Rightarrow> int \<Rightarrow> exec_result \<Rightarrow> exec_result evm" where
  "call_conclude ca snapshot forwarded_gas result =
     seqM (if \<not> r_success result then bindM (on_state (\<lambda>db. ((), statedb_restore snapshot db))) retM
           else whenM (r_gas_refund result \<noteq> 0) (on_gas (add_refund (r_gas_refund result))))
     (seqM (on_gas (return_gas (min (r_gas_remaining result) forwarded_gas)))
     (seqM (set_frame (\<lambda>fr. fr\<lparr>f_last_return_data := r_output result\<rparr>))
     (let copied = take (nat (ca_out_size ca)) (r_output result) in
      seqM (whenM (copied \<noteq> []) (write_memory (ca_out_offset ca) copied))
      (retM result))))"

definition call_common :: "hashlib \<Rightarrow> child \<Rightarrow> call_args \<Rightarrow> exec_result evm" where
  "call_common hl child ca =
     bindM (call_prepare hl ca) (\<lambda>plan.
     case plan of
       CallDone r \<Rightarrow> retM r
     | CallSettled snapshot forwarded_gas r \<Rightarrow> call_conclude ca snapshot forwarded_gas r
     | CallSpawn snapshot forwarded_gas cx \<Rightarrow>
         bindM (run_child child cx) (call_conclude ca snapshot forwarded_gas))"

text \<open>The common end of the three call handlers.\<close>

definition call_finish :: "exec_result \<Rightarrow> unit evm" where
  "call_finish result =
     seqM (push (if r_success result then 1 else 0))
     (whenM (r_success result) (set_frame (\<lambda>fr. fr\<lparr>f_logs := f_logs fr @ r_logs result\<rparr>)))"

definition op_call :: "hashlib \<Rightarrow> child \<Rightarrow> unit evm" where
  "op_call hl child =
     bindM pop (\<lambda>gas_requested.
     bindM pop (\<lambda>target_word.
     let target = int_to_address target_word in
     bindM pop (\<lambda>value.
     bindM pop (\<lambda>in_offset.
     bindM pop (\<lambda>in_size.
     bindM pop (\<lambda>out_offset.
     bindM pop (\<lambda>out_size.
     seqM (charge_memory in_offset in_size)
     (bindM (read_memory in_offset in_size) (\<lambda>calldata.
     bindM (get_context (\<lambda>cx. cx)) (\<lambda>cx.
     bindM (call_common hl child
       \<lparr>ca_gas_requested = gas_requested, ca_target = target, ca_calldata = calldata,
        ca_out_offset = out_offset, ca_out_size = out_size, ca_value = value, ca_address = target,
        ca_caller = cx_address cx, ca_static = cx_static cx, ca_code_address = target\<rparr>)
     call_finish))))))))))"

definition op_delegatecall :: "hashlib \<Rightarrow> child \<Rightarrow> unit evm" where
  "op_delegatecall hl child =
     bindM pop (\<lambda>gas_requested.
     bindM pop (\<lambda>target_word.
     let target = int_to_address target_word in
     bindM pop (\<lambda>in_offset.
     bindM pop (\<lambda>in_size.
     bindM pop (\<lambda>out_offset.
     bindM pop (\<lambda>out_size.
     seqM (charge_memory in_offset in_size)
     (bindM (read_memory in_offset in_size) (\<lambda>calldata.
     bindM (get_context (\<lambda>cx. cx)) (\<lambda>cx.
     bindM (call_common hl child
       \<lparr>ca_gas_requested = gas_requested, ca_target = target, ca_calldata = calldata,
        ca_out_offset = out_offset, ca_out_size = out_size, ca_value = cx_value cx,
        ca_address = cx_address cx, ca_caller = cx_caller cx, ca_static = cx_static cx,
        ca_code_address = target\<rparr>)
     call_finish)))))))))"

definition op_staticcall :: "hashlib \<Rightarrow> child \<Rightarrow> unit evm" where
  "op_staticcall hl child =
     bindM pop (\<lambda>gas_requested.
     bindM pop (\<lambda>target_word.
     let target = int_to_address target_word in
     bindM pop (\<lambda>in_offset.
     bindM pop (\<lambda>in_size.
     bindM pop (\<lambda>out_offset.
     bindM pop (\<lambda>out_size.
     seqM (charge_memory in_offset in_size)
     (bindM (read_memory in_offset in_size) (\<lambda>calldata.
     bindM (get_context (\<lambda>cx. cx)) (\<lambda>cx.
     bindM (call_common hl child
       \<lparr>ca_gas_requested = gas_requested, ca_target = target, ca_calldata = calldata,
        ca_out_offset = out_offset, ca_out_size = out_size, ca_value = 0, ca_address = target,
        ca_caller = cx_address cx, ca_static = True, ca_code_address = target\<rparr>)
     call_finish)))))))))"

section \<open>Contract creation\<close>

text \<open>\<open>_create_common\<close> up to the child frame, and its end after the child frame.\<close>

datatype create_plan =
    CreateDone exec_result
  | CreateSpawn statedb address exec_context

definition create_address :: "address \<Rightarrow> int \<Rightarrow> int option \<Rightarrow> bytes \<Rightarrow> (py_error, address) result" where
  "create_address creator creator_nonce salt init_code =
     (case salt of
        None \<Rightarrow> compute_create_address creator creator_nonce
      | Some sl \<Rightarrow> compute_create2_address creator sl init_code)"

text \<open>From the nonce increment on: the new account, the endowment and the child's context.\<close>

definition create_deploy :: "int \<Rightarrow> bytes \<Rightarrow> address \<Rightarrow> create_plan evm" where
  "create_deploy value init_code new_address =
     bindM (get_context (\<lambda>cx. cx)) (\<lambda>cx.
     bindM (on_state (\<lambda>db. ((), increment_nonce (cx_address cx) db))) (\<lambda>_.
     bindM (get_state (\<lambda>db. can_deploy_to db new_address)) (\<lambda>free.
     if \<not> free then retM (CreateDone failed_call)
     else
       bindM (get_state statedb_snapshot) (\<lambda>snapshot.
       bindM (on_state (\<lambda>db. ((), assign_nonce new_address 1 db))) (\<lambda>_.
       bindM (on_state (transfer (cx_address cx) new_address value)) (\<lambda>ok.
       if \<not> ok
       then bindM (on_state (\<lambda>db. ((), statedb_restore snapshot db))) (\<lambda>_. retM (CreateDone failed_call))
       else
         bindM (get_frame (\<lambda>fr. gm_remaining (f_gas_meter fr))) (\<lambda>remaining.
         let available_for_child = remaining - (remaining div 64);
             child_gas = max available_for_child 0 in
         seqM (charge child_gas)
         (retM (CreateSpawn snapshot new_address
           \<lparr>cx_address = new_address, cx_caller = cx_address cx, cx_origin = cx_origin cx,
            cx_value = value, cx_calldata = [], cx_code = init_code, cx_gas = child_gas,
            cx_static = False, cx_depth = cx_depth cx + 1, cx_gas_price = cx_gas_price cx,
            cx_chain_id = cx_chain_id cx, cx_code_address = new_address\<rparr>))))))))) "

definition create_prepare :: "int \<Rightarrow> int \<Rightarrow> int \<Rightarrow> int option \<Rightarrow> create_plan evm" where
  "create_prepare value offset sz salt =
     bindM (get_context (\<lambda>cx. cx)) (\<lambda>cx.
     seqM (guardM (\<not> cx_static cx) WriteProtectionError)
     (if cx_depth cx + 1 \<ge> MAX_CALL_DEPTH then retM (CreateDone failed_call)
      else
        seqM (charge_memory offset sz)
        (bindM (read_memory offset sz) (\<lambda>init_code.
        bindM (liftR (py (words_for_size (int (length init_code))))) (\<lambda>words.
        let extra_cost = (if salt = None then 0 else words * GAS_CREATE2_WORD) in
        seqM (charge (GAS_CREATE + extra_cost))
        (bindM (get_state (\<lambda>db. get_balance db (cx_address cx))) (\<lambda>balance.
        if balance < value then retM (CreateDone failed_call)
        else
          bindM (get_state (\<lambda>db. get_nonce db (cx_address cx))) (\<lambda>creator_nonce.
          bindM (liftR (py (create_address (cx_address cx) creator_nonce salt init_code))) (\<lambda>new_address.
          create_deploy value init_code new_address)))))))))"

definition create_conclude :: "statedb \<Rightarrow> address \<Rightarrow> exec_result \<Rightarrow> exec_result evm" where
  "create_conclude snapshot new_address result =
     seqM (if r_success result
           then bindM (on_state (\<lambda>db. ((), set_code new_address (r_output result) db))) (\<lambda>_.
                whenM (r_gas_refund result \<noteq> 0) (on_gas (add_refund (r_gas_refund result))))
           else bindM (on_state (\<lambda>db. ((), statedb_restore snapshot db))) retM)
     (seqM (on_gas (return_gas (r_gas_remaining result)))
     (seqM (set_frame (\<lambda>fr. fr\<lparr>f_last_return_data := r_output result\<rparr>))
     (retM
       \<lparr>r_success = r_success result, r_gas_remaining = r_gas_remaining result, r_gas_refund = 0,
        r_output = r_output result, r_logs = r_logs result, r_error = r_error result,
        r_reverted = r_reverted result,
        r_created_address = (if r_success result then Some new_address else None)\<rparr>)))"

definition create_common :: "child \<Rightarrow> int \<Rightarrow> int \<Rightarrow> int \<Rightarrow> int option \<Rightarrow> exec_result evm" where
  "create_common child value offset sz salt =
     bindM (create_prepare value offset sz salt) (\<lambda>plan.
     case plan of
       CreateDone r \<Rightarrow> retM r
     | CreateSpawn snapshot new_address cx \<Rightarrow>
         bindM (run_child child cx) (create_conclude snapshot new_address))"

definition create_finish :: "exec_result \<Rightarrow> unit evm" where
  "create_finish result =
     seqM (push (if \<not> r_success result then 0
                 else case r_created_address result of None \<Rightarrow> 0 | Some a \<Rightarrow> address_to_int a))
     (whenM (r_success result) (set_frame (\<lambda>fr. fr\<lparr>f_logs := f_logs fr @ r_logs result\<rparr>)))"

definition op_create :: "child \<Rightarrow> unit evm" where
  "op_create child =
     bindM pop (\<lambda>value.
     bindM pop (\<lambda>offset.
     bindM pop (\<lambda>sz.
     bindM (create_common child value offset sz None) create_finish)))"

definition op_create2 :: "child \<Rightarrow> unit evm" where
  "op_create2 child =
     bindM pop (\<lambda>value.
     bindM pop (\<lambda>offset.
     bindM pop (\<lambda>sz.
     bindM pop (\<lambda>salt.
     bindM (create_common child value offset sz (Some salt)) create_finish))))"

section \<open>Dispatch and the frame loop\<close>

definition dispatch :: "hashlib \<Rightarrow> child \<Rightarrow> (int, unit evm) dict" where
  "dispatch hl child =
     [(0x00, op_stop), (0x01, op_add), (0x02, op_mul), (0x03, op_sub), (0x04, op_div), (0x06, op_mod),
      (0x10, op_lt), (0x11, op_gt), (0x14, op_eq), (0x15, op_iszero), (0x16, op_and), (0x17, op_or),
      (0x18, op_xor), (0x19, op_not), (0x1A, op_byte), (0x1B, op_shl), (0x1C, op_shr), (0x1D, op_sar),
      (0x20, op_keccak256), (0x30, op_address), (0x31, op_balance), (0x32, op_origin),
      (0x33, op_caller), (0x34, op_callvalue), (0x35, op_calldataload), (0x36, op_calldatasize),
      (0x37, op_calldatacopy), (0x38, op_codesize), (0x39, op_codecopy), (0x3A, op_gasprice),
      (0x3D, op_returndatasize), (0x3E, op_returndatacopy), (0x46, op_chainid), (0x50, op_pop),
      (0x51, op_mload), (0x52, op_mstore), (0x53, op_mstore8), (0x54, op_sload), (0x55, op_sstore),
      (0x56, op_jump), (0x57, op_jumpi), (0x58, op_pc), (0x59, op_msize), (0x5A, op_gas),
      (0x5B, op_jumpdest), (0xF0, op_create child), (0xF1, op_call hl child), (0xF3, op_return),
      (0xF4, op_delegatecall hl child), (0xF5, op_create2 child), (0xFA, op_staticcall hl child),
      (0xFD, op_revert), (0xFE, op_invalid)]"

definition execute_opcode :: "hashlib \<Rightarrow> child \<Rightarrow> int \<Rightarrow> unit evm" where
  "execute_opcode hl child opcode =
     (if is_push opcode then seqM (charge_base opcode) (op_push opcode)
      else if is_dup opcode then seqM (charge_base opcode) (on_stack (stack_dup (dup_index opcode)))
      else if is_swap opcode then seqM (charge_base opcode) (on_stack (stack_swap (swap_index opcode)))
      else if is_log opcode then op_log opcode
      else
        seqM (charge_base opcode)
        (case dict_get (dispatch hl child) opcode of
           None \<Rightarrow> raiseM InvalidOpcodeError
         | Some handler \<Rightarrow> handler))"

text \<open>The \<open>except\<close> clauses of \<open>_execute_frame\<close>.\<close>

definition frame_result :: "(evm_exn + unit) \<times> machine \<Rightarrow> (evm_exn + exec_result) \<times> statedb" where
  "frame_result rm =
     (case rm of (r, m) \<Rightarrow>
        let fr = m_frame m; gm = f_gas_meter fr in
        (case r of
           Inr _ \<Rightarrow> Inr ((exec_result_default True (gm_remaining gm))
             \<lparr>r_gas_refund := gm_refund gm, r_logs := f_logs fr\<rparr>)
         | Inl e \<Rightarrow>
             (case e of
                ExecutionReturn data \<Rightarrow> Inr ((exec_result_default True (gm_remaining gm))
                  \<lparr>r_gas_refund := gm_refund gm, r_output := data, r_logs := f_logs fr\<rparr>)
              | ExecutionRevert data \<Rightarrow> Inr ((exec_result_default False (gm_remaining gm))
                  \<lparr>r_output := data, r_reverted := True\<rparr>)
              | _ \<Rightarrow> if is_evm_error e then Inr ((exec_result_default False 0)\<lparr>r_error := Some e\<rparr>) else Inl e),
         m_db m))"

definition more_code :: "frame \<Rightarrow> bool" where
  "more_code fr \<longleftrightarrow> f_pc fr < int (length (cx_code (f_context fr)))"

definition fetch_opcode :: "int evm" where
  "fetch_opcode =
     bindM (get_frame (\<lambda>fr. uint (cx_code (f_context fr) ! nat (f_pc fr)))) (\<lambda>opcode.
     seqM (set_frame (\<lambda>fr. fr\<lparr>f_pc := f_pc fr + 1\<rparr>))
     (retM opcode))"

definition start_frame :: "exec_context \<Rightarrow> statedb \<Rightarrow> machine" where
  "start_frame cx db = \<lparr>m_db = db, m_frame = mk_frame cx\<rparr>"

primrec frame_loop :: "hashlib \<Rightarrow> nat \<Rightarrow> unit evm" where
  "frame_loop hl 0 = raiseM FuelExhausted"
| "frame_loop hl (Suc n) =
     bindM (get_frame more_code) (\<lambda>more.
     if \<not> more then retM ()
     else
       bindM fetch_opcode (\<lambda>opcode.
       seqM (execute_opcode hl (\<lambda>cx db. frame_result (frame_loop hl n (start_frame cx db))) opcode)
       (frame_loop hl n)))"

definition execute_frame :: "hashlib \<Rightarrow> nat \<Rightarrow> child" where
  "execute_frame hl n cx db = frame_result (frame_loop hl n (start_frame cx db))"

definition execute :: "hashlib \<Rightarrow> nat \<Rightarrow> exec_context \<Rightarrow> statedb \<Rightarrow> (evm_exn + exec_result) \<times> statedb" where
  "execute hl n context db =
     (let snapshot = statedb_snapshot db in
      case execute_frame hl n context db of
        (Inl e, db') \<Rightarrow> (Inl e, db')
      | (Inr result, db') \<Rightarrow> (Inr result, if \<not> r_success result then statedb_restore snapshot db' else db'))"

text \<open>\<open>call\<close> after the value transfer: a precompile, or the code of the account.\<close>

definition call_account ::
  "hashlib \<Rightarrow> nat \<Rightarrow> statedb \<Rightarrow> address \<Rightarrow> address \<Rightarrow> address option \<Rightarrow> int \<Rightarrow> bytes \<Rightarrow> int \<Rightarrow> bool \<Rightarrow> int \<Rightarrow> int
   \<Rightarrow> statedb \<Rightarrow> (evm_exn + exec_result) \<times> statedb" where
  "call_account hl n snapshot a caller origin value calldata gas static gas_price chain_id db =
     (let code = get_code db a in
      case (if code = [] then precompile_get a else None) of
        Some pc \<Rightarrow>
          let gas_cost = precompile_gas_cost pc calldata in
          if gas_cost > gas
          then (Inr ((exec_result_default False 0)\<lparr>r_error := Some OutOfGasError\<rparr>), statedb_restore snapshot db)
          else (Inr ((exec_result_default True (gas - gas_cost))\<lparr>r_output := precompile_run hl pc calldata\<rparr>), db)
      | None \<Rightarrow>
          let context =
            \<lparr>cx_address = a, cx_caller = caller,
             cx_origin = (case origin of None \<Rightarrow> caller | Some o' \<Rightarrow> o'), cx_value = value,
             cx_calldata = calldata, cx_code = code, cx_gas = gas, cx_static = static, cx_depth = 0,
             cx_gas_price = gas_price, cx_chain_id = chain_id, cx_code_address = a\<rparr> in
          (case execute hl n context db of
             (Inl e, db') \<Rightarrow> (Inl e, db')
           | (Inr result, db') \<Rightarrow>
               (Inr result, if \<not> r_success result then statedb_restore snapshot db' else db')))"

definition interpreter_call ::
  "hashlib \<Rightarrow> nat \<Rightarrow> address \<Rightarrow> address \<Rightarrow> address option \<Rightarrow> int \<Rightarrow> bytes \<Rightarrow> int \<Rightarrow> bool \<Rightarrow> int \<Rightarrow> int
   \<Rightarrow> statedb \<Rightarrow> (evm_exn + exec_result) \<times> statedb" where
  "interpreter_call hl n a caller origin value calldata gas static gas_price chain_id db =
     (let snapshot = statedb_snapshot db in
      if value \<noteq> 0 \<and> static
      then (Inr ((exec_result_default False 0)\<lparr>r_error := Some WriteProtectionError\<rparr>), db)
      else
        let (ok, db1) = (if value \<noteq> 0 then transfer caller a value db else (True, db)) in
        if \<not> ok then (Inr failed_call, statedb_restore snapshot db1)
        else call_account hl n snapshot a caller origin value calldata gas static gas_price chain_id db1)"

section \<open>The loop, one instruction at a time\<close>

lemma frame_loop_Suc:
  "frame_loop hl (Suc n) =
     bindM (get_frame more_code) (\<lambda>more.
     if \<not> more then retM ()
     else seqM (bindM fetch_opcode (execute_opcode hl (execute_frame hl n))) (frame_loop hl n))"
  by (simp add: execute_frame_def[abs_def] seqM_def bindM_def fun_eq_iff if_distrib[of "\<lambda>f. f _"]
      split: sum.splits prod.splits cong: if_cong)

end
