(* ===== verification/Interpreter_Inv.thy ===== *)
theory Interpreter_Inv
  imports Interpreter
begin

text \<open>
  One invariant argument for the whole interpreter. The locale \<open>state_invariant\<close> is the contract a
  predicate on state databases has to meet (it survives every operation the interpreter performs
  outside of static calls); inside it, every handler, the frame loop and the entry points are shown
  to keep the machine invariant: the predicate, the well-formed stack, the gas bounds, and that
  only \<open>EVMError\<close>s are raised. The interpretations at the end give well-formedness, conservation
  of the total balance, immutability of deployed code and the purity of static calls.
\<close>

section \<open>Steps through a handler\<close>

text \<open>Rules that take the first action off a handler and leave its side conditions and the rest.\<close>

lemma tri_seq_fact: "tri E P m V Q \<Longrightarrow> (V () \<Longrightarrow> tri E Q k U R) \<Longrightarrow> tri E P (seqM m k) U R"
  unfolding seqM_def by (rule tri_bind[of E P m V Q]) simp_all

lemma tri_split:
  assumes "\<And>q. A q \<Longrightarrow> tri E (\<lambda>s. P s \<and> h s = q) m V Q" "\<And>s. P s \<Longrightarrow> A (h s)"
  shows "tri E P m V Q"
proof (rule triI)
  fix s assume P: "P s"
  show "case m s of (Inl e, s') \<Rightarrow> E e s' | (Inr x, s') \<Rightarrow> V x \<and> Q s'"
    using assms(1)[OF assms(2)[OF P]] P by (simp add: tri_def)
qed

lemmas tri_steps =
  tri_bind[OF tri_pop] tri_seq[OF tri_push] tri_seq[OF tri_charge] tri_bind[OF tri_get_frame_any]
  tri_bind[OF tri_get_context] tri_bind[OF tri_get_state_any] tri_seq_fact[OF tri_guard_halt]
  tri_bind[OF tri_read] tri_bind[OF tri_read_word] tri_bind[OF tri_expand] tri_seq[OF tri_add_pc]
  tri_seq[OF tri_set_logs(1)] tri_seq[OF tri_set_logs(2)] tri_seq[OF tri_refund] tri_if tri_ret

lemmas tri_ends = tri_push tri_charge tri_write tri_write_word tri_set_logs tri_add_pc tri_raise_halt
  tri_dup tri_swap tri_refund

section \<open>The contract\<close>

locale state_invariant =
  fixes S :: "statedb \<Rightarrow> bool" and stat :: bool
  assumes S_snapshot: "S db \<Longrightarrow> S (statedb_snapshot db)"
    and S_restore: "S snap \<Longrightarrow> S (statedb_restore snap db)"
    and S_nonce: "S db \<Longrightarrow> 0 \<le> get_nonce db a"
    and S_transfer: "\<not> stat \<Longrightarrow> S db \<Longrightarrow> 0 \<le> v \<Longrightarrow> S (snd (transfer a b v db))"
    and S_estimate: "\<not> stat \<Longrightarrow> S db \<Longrightarrow> S (snd (estimate_sstore a k v db))"
    and S_set_storage: "\<not> stat \<Longrightarrow> S db \<Longrightarrow> S (snd (set_storage a k v db))"
    and S_increment: "\<not> stat \<Longrightarrow> S db \<Longrightarrow> S (increment_nonce a db)"
    and S_assign: "\<not> stat \<Longrightarrow> S db \<Longrightarrow> can_deploy_to db a \<Longrightarrow> S (assign_nonce a 1 db)"
    and S_set_code: "\<not> stat \<Longrightarrow> S snap \<Longrightarrow> can_deploy_to snap a \<Longrightarrow> S db \<Longrightarrow> S (set_code a c db)"
begin

definition ctx_ok :: "exec_context \<Rightarrow> bool" where
  "ctx_ok cx \<longleftrightarrow> 0 \<le> cx_gas cx \<and> 0 \<le> cx_value cx \<and> (stat \<longrightarrow> cx_static cx)"

definition child_of :: "exec_context \<Rightarrow> exec_context \<Rightarrow> bool" where
  "child_of cx cx' \<longleftrightarrow> ctx_ok cx' \<and> cx_depth cx' = cx_depth cx + 1 \<and> cx_depth cx' < MAX_CALL_DEPTH"

definition child_ok :: "bool \<Rightarrow> child \<Rightarrow> bool" where
  "child_ok fu child \<longleftrightarrow> (\<forall>cx db. ctx_ok cx \<longrightarrow> S db \<longrightarrow>
     (case child cx db of
        (Inl e, db') \<Rightarrow> fu \<and> e = FuelExhausted \<and> S db'
      | (Inr r, db') \<Rightarrow> S db' \<and> 0 \<le> r_gas_remaining r \<and> r_gas_remaining r \<le> cx_gas cx))"

abbreviation keeps :: "bool \<Rightarrow> exec_context \<Rightarrow> int \<Rightarrow> int \<Rightarrow> 'a evm \<Rightarrow> bool" where
  "keeps fu cx g p m \<equiv> tri (halt fu S g) (mach S cx g p) m (\<lambda>_. True) (mach S cx g p)"

lemma weaken: "tri E P m V Q \<Longrightarrow> tri E P m (\<lambda>_. True) Q"
  by (erule tri_conseq) auto

subsection \<open>Opcodes without children\<close>

lemma tri_charge_memory: "0 \<le> o' \<Longrightarrow> 0 \<le> z \<Longrightarrow> keeps fu cx g p (charge_memory o' z)"
  unfolding charge_memory_def
  by (rule tri_bind, rule tri_get_frame[where V = "\<lambda>r. \<exists>c. r = Inr c \<and> 0 \<le> c"], rule expansion_cost_ok)
    (auto intro!: tri_bind[OF tri_lift_ok] tri_steps)

lemma tri_read_memory: "0 \<le> o' \<Longrightarrow> 0 \<le> z \<Longrightarrow>
    tri (halt fu S g) (mach S cx g p) (read_memory o' z) (\<lambda>bs. length bs = nat z) (mach S cx g p)"
  unfolding read_memory_def by (rule tri_read)

lemma tri_write_memory: "0 \<le> o' \<Longrightarrow> keeps fu cx g p (write_memory o' bs)"
  unfolding write_memory_def by (rule tri_write)

lemma tri_charge_base: "keeps fu cx g p (charge_base opcode)"
  unfolding charge_base_def by (rule tri_charge) (rule base_opcode_gas_nonneg)

lemma tri_buffer_read: "0 \<le> o' \<Longrightarrow> 0 \<le> z \<Longrightarrow> keeps fu cx g p (liftR (py (buffer_read raw o' z)))"
  using buffer_read_ok[of o' z raw] by (auto intro!: tri_lift)

lemma tri_words: "0 \<le> z \<Longrightarrow>
    tri (halt fu S g) (mach S cx g p) (liftR (py (words_for_size z))) (\<lambda>w. 0 \<le> w) (mach S cx g p)"
  by (rule tri_lift) (auto simp: words_for_size_eq)

lemmas steps = tri_steps tri_seq[OF tri_charge_memory] tri_bind[OF tri_read_memory] tri_seq[OF tri_write_memory]
  tri_seq[OF tri_charge_base] tri_bind[OF tri_buffer_read] tri_bind[OF tri_words]
  tri_charge_memory tri_write_memory tri_ends

lemma tri_binary_op: "keeps fu cx g p (binary_op f)"
  unfolding binary_op_def by (intro steps)

lemma tri_pure_ops:
  "keeps fu cx g p op_add" "keeps fu cx g p op_mul" "keeps fu cx g p op_sub" "keeps fu cx g p op_div"
  "keeps fu cx g p op_mod" "keeps fu cx g p op_lt" "keeps fu cx g p op_gt" "keeps fu cx g p op_eq"
  "keeps fu cx g p op_and" "keeps fu cx g p op_or" "keeps fu cx g p op_xor"
  by (simp_all only: op_add_def op_mul_def op_sub_def op_div_def op_mod_def op_lt_def op_gt_def op_eq_def
      op_and_def op_or_def op_xor_def tri_binary_op)

lemma tri_bit_ops:
  "keeps fu cx g p op_iszero" "keeps fu cx g p op_not" "keeps fu cx g p op_byte"
  "keeps fu cx g p op_shl" "keeps fu cx g p op_shr" "keeps fu cx g p op_sar"
  unfolding op_iszero_def op_not_def op_byte_def op_shl_def op_shr_def op_sar_def Let_def
  by (intro steps)+

lemma tri_flow_ops:
  "keeps fu cx g p op_stop" "keeps fu cx g p op_invalid" "keeps fu cx g p op_jumpdest" "keeps fu cx g p op_pop"
  "keeps fu cx g p op_pc" "keeps fu cx g p op_msize" "keeps fu cx g p op_gas"
  unfolding op_stop_def op_invalid_def op_jumpdest_def op_pop_def op_pc_def op_msize_def op_gas_def
  by (intro steps; simp)+

lemma tri_env_ops:
  "keeps fu cx g p op_address" "keeps fu cx g p op_balance" "keeps fu cx g p op_origin"
  "keeps fu cx g p op_caller" "keeps fu cx g p op_callvalue" "keeps fu cx g p op_calldatasize"
  "keeps fu cx g p op_codesize" "keeps fu cx g p op_gasprice" "keeps fu cx g p op_returndatasize"
  "keeps fu cx g p op_chainid" "keeps fu cx g p op_sload"
  unfolding op_address_def op_balance_def op_origin_def op_caller_def op_callvalue_def op_calldatasize_def
    op_codesize_def op_gasprice_def op_returndatasize_def op_chainid_def op_sload_def
  by (intro steps)+

lemma tri_memory_ops:
  "keeps fu cx g p op_keccak256" "keeps fu cx g p op_calldataload" "keeps fu cx g p op_calldatacopy"
  "keeps fu cx g p op_codecopy" "keeps fu cx g p op_returndatacopy" "keeps fu cx g p op_mload"
  "keeps fu cx g p op_mstore" "keeps fu cx g p op_mstore8" "keeps fu cx g p op_return" "keeps fu cx g p op_revert"
  unfolding op_keccak256_def op_calldataload_def op_calldatacopy_def op_codecopy_def op_returndatacopy_def
    op_mload_def op_mstore_def op_mstore8_def op_return_def op_revert_def
  by (intro steps; simp add: word_range_nonneg copy_cost_nonneg gas_defs)+

lemma tri_op_push: "is_push opcode \<Longrightarrow> keeps fu cx g p (op_push opcode)"
  unfolding op_push_def
  by (rule tri_bind[where V = "\<lambda>n. 0 \<le> n", OF tri_lift])
    (auto simp: push_size_def is_push_def split: if_splits intro!: steps)

lemma tri_pop_topics: "keeps fu cx g p (pop_topics n)"
proof (induction n)
  case (Suc n)
  have topic: "keeps fu cx g p (liftR (py (mk_u256 v)))" if "word_range v" for v
    using that mk_u256_Inr_iff[of v] by (auto intro!: tri_lift simp: word_range_def)
  show ?case
    unfolding pop_topics.simps by (intro steps tri_bind[OF topic] tri_bind[OF Suc]; simp)
qed (simp add: tri_ret)

lemma tri_op_log: "is_log opcode \<Longrightarrow> keeps fu cx g p (op_log opcode)"
  unfolding op_log_def Let_def
  by (intro steps tri_bind[OF tri_pop_topics];
      simp add: word_range_nonneg gas_defs log_topic_count_def is_log_def)

lemma tri_estimate: "\<not> stat \<Longrightarrow>
    tri (halt fu S g) (mach S cx g p) (on_state (estimate_sstore a k v)) (\<lambda>cr. 0 \<le> fst cr) (mach S cx g p)"
  using S_estimate sstore_cost_bounds(1)
  by (intro tri_on_state) (simp add: estimate_sstore_def case_prod_beta, meson order_trans zero_le_numeral)

lemma tri_set_storage: "\<not> stat \<Longrightarrow> keeps fu cx g p (on_state (set_storage a k v))"
  using S_set_storage by (intro tri_on_state) simp

lemma tri_op_sstore: "ctx_ok cx \<Longrightarrow> keeps fu cx g p op_sstore"
  unfolding op_sstore_def case_prod_beta
  by (intro steps tri_bind[OF tri_estimate] tri_bind[OF tri_set_storage] tri_when[OF tri_refund])
    (auto simp: ctx_ok_def)

lemma tri_jump_to: "tri (halt fu S g) (mach S cx g p) (jump_to d) (\<lambda>_. True) (mach S cx g 0)"
proof -
  have pc: "tri (halt fu S g) (mach S cx g p) (set_frame (\<lambda>fr. fr\<lparr>f_pc := d\<rparr>)) (\<lambda>_. True) (mach S cx g 0)"
    if "d \<in> collect_jumpdest_offsets (cx_code cx)"
    by (rule tri_conseq[OF tri_set_pc]) (use collect_jumpdest_bounds[OF that] in \<open>auto intro: mach_mono\<close>)
  show ?thesis
    unfolding jump_to_def
    by (rule tri_bind, rule tri_get_frame[where V = "\<lambda>j. j = collect_jumpdest_offsets (cx_code cx)"])
      (auto simp: mach_def intro!: tri_seq_fact[OF tri_guard_halt] pc)
qed

lemma tri_op_jump: "tri (halt fu S g) (mach S cx g p) op_jump (\<lambda>_. True) (mach S cx g 0)"
  unfolding op_jump_def by (intro steps tri_jump_to)

lemma tri_op_jumpi: "0 \<le> p \<Longrightarrow> tri (halt fu S g) (mach S cx g p) op_jumpi (\<lambda>_. True) (mach S cx g 0)"
  unfolding op_jumpi_def whenM_def
  by (intro steps tri_jump_to, rule tri_conseq[OF tri_ret[where V = "\<lambda>_. True"]]) (auto intro: mach_mono)

subsection \<open>Message calls\<close>

lemma tri_restore: "S snap \<Longrightarrow> keeps fu cx g p (on_state (\<lambda>db. ((), statedb_restore snap db)))"
  using S_restore by (intro tri_on_state) simp

lemma tri_run_child:
  assumes "child_ok fu child" "ctx_ok cx'"
  shows "tri (halt fu S g) (mach S cx g p) (run_child child cx')
    (\<lambda>r. 0 \<le> r_gas_remaining r \<and> r_gas_remaining r \<le> cx_gas cx') (mach S cx g p)"
proof (rule triI)
  fix m assume m: "mach S cx g p m"
  then have "case child cx' (m_db m) of
        (Inl e, db') \<Rightarrow> fu \<and> e = FuelExhausted \<and> S db'
      | (Inr r, db') \<Rightarrow> S db' \<and> 0 \<le> r_gas_remaining r \<and> r_gas_remaining r \<le> cx_gas cx'"
    using assms by (simp add: child_ok_def mach_def)
  then show "case run_child child cx' m of (Inl e, m') \<Rightarrow> halt fu S g e m'
      | (Inr r, m') \<Rightarrow> (0 \<le> r_gas_remaining r \<and> r_gas_remaining r \<le> cx_gas cx') \<and> mach S cx g p m'"
    using m by (auto simp: run_child_def mach_def halt_def split: prod.splits sum.splits)
qed

text \<open>Reading the gas meter fixes the exact amount for the rest of the code.\<close>

lemma trd_gas_exact:
  assumes "\<And>G. 0 \<le> G \<Longrightarrow> G \<le> g \<Longrightarrow> trd (halt fu S g) (mach S cx G p) (k G) R"
  shows "trd (halt fu S g) (mach S cx g p) (bindM (get_frame (\<lambda>fr. gm_remaining (f_gas_meter fr))) k) R"
proof -
  have "case k (gm_remaining (f_gas_meter (m_frame m))) m of (Inl e, s') \<Rightarrow> halt fu S g e s' | (Inr x, s') \<Rightarrow> R x s'"
    if m: "mach S cx g p m" for m
  proof -
    let ?G = "gm_remaining (f_gas_meter (m_frame m))"
    have "0 \<le> ?G" "?G \<le> g" "mach S cx ?G p m" using m by (auto simp: mach_def)
    then show ?thesis using assms[of ?G] by (simp add: trd_def)
  qed
  then show ?thesis by (simp add: trd_def bindM_def get_frame_def getM_def)
qed

definition args_ok :: "exec_context \<Rightarrow> call_args \<Rightarrow> bool" where
  "args_ok cx ca \<longleftrightarrow> 0 \<le> ca_gas_requested ca \<and> 0 \<le> ca_out_offset ca \<and> 0 \<le> ca_out_size ca \<and> 0 \<le> ca_value ca
     \<and> (cx_static cx \<longrightarrow> ca_static ca)"

definition plan_facts :: "exec_context \<Rightarrow> int \<Rightarrow> call_plan \<Rightarrow> bool" where
  "plan_facts cx f plan \<longleftrightarrow>
     (case plan of
        CallDone r \<Rightarrow> True
      | CallSettled snap f' r \<Rightarrow> f' = f \<and> S snap \<and> 0 \<le> r_gas_remaining r
      | CallSpawn snap f' cx' \<Rightarrow> f' = f \<and> S snap \<and> child_of cx cx')"

definition plan_post :: "exec_context \<Rightarrow> int \<Rightarrow> int \<Rightarrow> call_plan \<Rightarrow> machine \<Rightarrow> bool" where
  "plan_post cx g p plan m \<longleftrightarrow> (\<exists>f. 0 \<le> f \<and> plan_facts cx f plan \<and> mach S cx (g - f) p m)"

lemma tri_call_target:
  assumes "ctx_ok cx" "args_ok cx ca" "S snap" "0 \<le> child_gas" "cx_depth cx + 1 < MAX_CALL_DEPTH"
  shows "tri (halt fu S g) (mach S cx g p) (call_target hl ca snap f child_gas) (plan_facts cx f) (mach S cx g p)"
proof -
  have plan: "plan_facts cx f (CallSpawn snap f
      \<lparr>cx_address = x1, cx_caller = x2, cx_origin = x3, cx_value = ca_value ca, cx_calldata = x4, cx_code = x5,
       cx_gas = child_gas, cx_static = ca_static ca, cx_depth = cx_depth cx + 1, cx_gas_price = x6,
       cx_chain_id = x7, cx_code_address = x8\<rparr>)" for x1 x2 x3 x4 x5 x6 x7 x8
    using assms by (auto simp: plan_facts_def child_of_def ctx_ok_def args_ok_def)
  show ?thesis
  proof (cases "precompile_get (ca_code_address ca)")
    case (Some pc)
    then show ?thesis
      unfolding call_target_def Let_def option.simps Some
      by (intro steps tri_bind[OF tri_restore[OF assms(3)]])
        (auto simp: plan_facts_def exec_result_default_def assms(3))
  next
    case None
    show ?thesis
      unfolding call_target_def option.simps None
      by (intro steps) (auto simp: plan assms(3,4), auto simp: plan_facts_def exec_result_default_def assms(3,4))
  qed
qed

lemma tri_snapshot: "tri (halt fu S g) (mach S cx g p) (get_state statedb_snapshot) S (mach S cx g p)"
  using S_snapshot by (rule tri_get_state)

lemma tri_call_transfer:
  assumes "ca_value ca \<noteq> 0 \<Longrightarrow> \<not> stat" "0 \<le> ca_value ca"
  shows "keeps fu cx g p (if ca_value ca \<noteq> 0 then on_state (transfer a b (ca_value ca)) else retM True)"
  using assms S_transfer by (intro tri_if tri_on_state tri_ret) auto

text \<open>A charge of \<open>f\<close> followed by code that keeps the invariant under what is left.\<close>

lemma tri_after_charge:
  assumes "0 \<le> f" "G \<le> g"
    and "tri (halt fu S (G - f)) (mach S cx (G - f) p) k V (mach S cx (G - f) p)"
  shows "tri (halt fu S g) (mach S cx G p) (seqM (charge f) k) V (mach S cx (G - f) p)"
proof (rule tri_seq)
  show "tri (halt fu S g) (mach S cx G p) (charge f) (\<lambda>_. True) (mach S cx (G - f) p)"
    by (rule tri_conseq[OF tri_charge_exact[OF assms(1), of fu S G cx p]])
      (use assms(2) in \<open>auto intro: halt_mono\<close>)
  show "tri (halt fu S g) (mach S cx (G - f) p) k V (mach S cx (G - f) p)"
    by (rule tri_conseq[OF assms(3)]) (use assms(1,2) in \<open>auto intro: halt_mono\<close>)
qed

lemma trd_call_forward:
  assumes ok: "ctx_ok cx" "args_ok cx ca" "cx_depth cx + 1 < MAX_CALL_DEPTH"
    and free: "ca_value ca \<noteq> 0 \<Longrightarrow> \<not> stat"
  shows "trd (halt fu S g) (mach S cx g p) (call_forward hl ca) (plan_post cx g p)"
  unfolding call_forward_def Let_def
proof (rule trd_gas_exact)
  fix G assume G: "0 \<le> G" "G \<le> g"
  define f where "f = min (ca_gas_requested ca) (max (G - G div 64) 0)"
  define cg where "cg = f + (if ca_value ca \<noteq> 0 then GAS_CALL_STIPEND else 0)"
  have f: "0 \<le> f" "0 \<le> cg" using ok by (auto simp: f_def cg_def args_ok_def gas_defs)
  have nonneg: "0 \<le> ca_value ca" using ok by (simp add: args_ok_def)
  have post: "plan_post cx g p plan m" if "plan_facts cx f plan" "mach S cx (G - f) p m" for plan m
    using that G f by (auto simp: plan_post_def intro!: exI[of _ f] elim: mach_mono)
  show "trd (halt fu S g) (mach S cx G p)
     (seqM (charge (min (ca_gas_requested ca) (max (G - G div 64) 0)))
     (bindM (get_state statedb_snapshot) (\<lambda>snapshot.
     bindM (get_context cx_address) (\<lambda>self_address.
     bindM (if ca_value ca \<noteq> 0 then on_state (transfer self_address (ca_target ca) (ca_value ca))
            else retM True) (\<lambda>transferred.
     if \<not> transferred
     then bindM (on_state (\<lambda>db. ((), statedb_restore snapshot db))) (\<lambda>_. retM (CallDone failed_call))
     else call_target hl ca snapshot (min (ca_gas_requested ca) (max (G - G div 64) 0))
       (min (ca_gas_requested ca) (max (G - G div 64) 0)
        + (if ca_value ca \<noteq> 0 then GAS_CALL_STIPEND else 0)))))))
     (plan_post cx g p)"
    unfolding f_def[symmetric] cg_def[symmetric]
    by (rule trd_of_tri[where V = "plan_facts cx f"], rule tri_after_charge[OF f(1) G(2)],
        intro tri_bind[OF tri_snapshot] tri_bind[OF tri_get_context] tri_bind[OF tri_call_transfer] tri_if
        tri_bind[OF tri_restore] tri_call_target ok f nonneg free tri_ret)
      (auto simp: plan_facts_def intro: post)
qed

lemma trd_guard: "is_evm_error e \<Longrightarrow> (b \<Longrightarrow> trd (halt fu S g) (mach S cx g p) k R) \<Longrightarrow>
    trd (halt fu S g) (mach S cx g p) (seqM (guardM b e) k) R"
  unfolding seqM_def by (rule trd_bind[OF tri_guard_halt])

lemmas dsteps = trd_bind[OF tri_get_context] trd_seq[OF tri_charge_memory] trd_bind[OF tri_get_state_any]
  trd_seq[OF tri_charge] trd_if trd_guard

lemma call_base_cost_nonneg: "0 \<le> call_base_cost ca db"
  by (simp add: call_base_cost_def gas_defs)

lemma trd_call_done: "trd (halt fu S g) (mach S cx g p) (retM (CallDone r)) (plan_post cx g p)"
  by (rule trd_ret) (auto simp: plan_post_def plan_facts_def intro!: exI[of _ 0])

lemma trd_call_prepare:
  assumes ok: "ctx_ok cx" "args_ok cx ca"
  shows "trd (halt fu S g) (mach S cx g p) (call_prepare hl ca) (plan_post cx g p)"
  unfolding call_prepare_def
  by (rule dsteps, simp only:, rule trd_if[OF trd_call_done], intro dsteps trd_call_done trd_call_forward ok
      trd_bind[OF tri_get_state[of S "\<lambda>c. 0 \<le> c"]] call_base_cost_nonneg)
    (use ok in \<open>auto simp: args_ok_def ctx_ok_def\<close>)

lemma tri_give_back:
  assumes "0 \<le> a" "g' + a \<le> g"
  shows "tri (halt fu S g) (mach S cx g' p) (on_gas (return_gas a)) (\<lambda>_. True) (mach S cx g p)"
  by (rule tri_conseq[OF tri_return_gas[OF assms(1), of fu S g' cx p]])
    (use assms in \<open>auto intro: mach_mono halt_mono\<close>)

lemma tri_low:
  assumes "g' \<le> g" "tri (halt fu S g') (mach S cx g' p) m V Q"
  shows "tri (halt fu S g) (mach S cx g' p) m V Q"
  by (rule tri_conseq[OF assms(2)]) (use assms(1) in \<open>auto intro: halt_mono\<close>)

lemma tri_call_conclude:
  assumes "S snap" "0 \<le> f" "0 \<le> r_gas_remaining r" "args_ok cx ca"
  shows "tri (halt fu S g) (mach S cx (g - f) p) (call_conclude ca snap f r) (\<lambda>_. True) (mach S cx g p)"
proof -
  have settle: "tri (halt fu S (g - f)) (mach S cx (g - f) p)
      (if \<not> r_success r then bindM (on_state (\<lambda>db. ((), statedb_restore snap db))) retM
       else whenM (r_gas_refund r \<noteq> 0) (on_gas (add_refund (r_gas_refund r)))) (\<lambda>_. True) (mach S cx (g - f) p)"
    by (intro tri_if tri_bind[OF tri_restore[OF assms(1)]] tri_ret tri_when[OF tri_refund] TrueI)
  show ?thesis
    unfolding call_conclude_def Let_def
    by (rule tri_seq[OF tri_low[OF _ settle]], use assms(2) in simp, rule tri_seq[OF tri_give_back])
      (use assms in \<open>auto intro!: tri_seq[OF tri_when[OF tri_write_memory]] steps simp: args_ok_def\<close>)
qed

lemma tri_call_common:
  assumes "child_ok fu child" "ctx_ok cx" "args_ok cx ca"
  shows "keeps fu cx g p (call_common hl child ca)"
  unfolding call_common_def
proof (rule tri_bind_trd[OF trd_call_prepare[OF assms(2,3)]])
  fix plan
  have pre: "tri E (plan_post cx g p plan) m V Q"
    if "\<And>f. 0 \<le> f \<Longrightarrow> plan_facts cx f plan \<Longrightarrow> tri E (mach S cx (g - f) p) m V Q" for E m V Q
    using that by (fastforce simp: tri_def plan_post_def)
  show "tri (halt fu S g) (plan_post cx g p plan)
     (case plan of CallDone r \<Rightarrow> retM r
      | CallSettled snapshot forwarded_gas r \<Rightarrow> call_conclude ca snapshot forwarded_gas r
      | CallSpawn snapshot forwarded_gas cx \<Rightarrow> bindM (run_child child cx) (call_conclude ca snapshot forwarded_gas))
     (\<lambda>_. True) (mach S cx g p)"
  proof (rule pre)
    fix f assume f: "0 \<le> f" and facts: "plan_facts cx f plan"
    have low: "tri (halt fu S g) (mach S cx (g - f) p) (retM r) (\<lambda>_. True) (mach S cx g p)" for r
      by (rule tri_conseq[OF tri_ret[where V = "\<lambda>_. True"]]) (use f in \<open>auto intro: mach_mono\<close>)
    show "tri (halt fu S g) (mach S cx (g - f) p)
     (case plan of CallDone r \<Rightarrow> retM r
      | CallSettled snapshot forwarded_gas r \<Rightarrow> call_conclude ca snapshot forwarded_gas r
      | CallSpawn snapshot forwarded_gas cx \<Rightarrow> bindM (run_child child cx) (call_conclude ca snapshot forwarded_gas))
     (\<lambda>_. True) (mach S cx g p)"
      using facts f assms
      by (cases plan)
        (auto simp: plan_facts_def child_of_def intro!: low tri_call_conclude tri_bind[OF tri_low[OF _ tri_run_child]])
  qed
qed

lemma tri_call_finish: "keeps fu cx g p (call_finish r)"
  unfolding call_finish_def by (intro steps tri_when[OF tri_set_logs(1)])

lemma tri_call_ops:
  assumes "child_ok fu child" "ctx_ok cx"
  shows "keeps fu cx g p (op_call hl child)" "keeps fu cx g p (op_delegatecall hl child)"
    "keeps fu cx g p (op_staticcall hl child)"
  using assms(2) unfolding op_call_def op_delegatecall_def op_staticcall_def Let_def
  by (intro steps tri_bind[OF tri_call_common[OF assms]] tri_call_finish;
      simp add: args_ok_def ctx_ok_def word_range_nonneg)+

subsection \<open>Contract creation\<close>

definition create_post :: "exec_context \<Rightarrow> int \<Rightarrow> int \<Rightarrow> create_plan \<Rightarrow> machine \<Rightarrow> bool" where
  "create_post cx g p plan m \<longleftrightarrow>
     (case plan of
        CreateDone r \<Rightarrow> mach S cx g p m
      | CreateSpawn snap a cx' \<Rightarrow>
          \<not> stat \<and> S snap \<and> can_deploy_to snap a \<and> child_of cx cx' \<and> mach S cx (g - cx_gas cx') p m)"

lemma trd_create_done: "trd (halt fu S g) (mach S cx g p) (retM (CreateDone r)) (create_post cx g p)"
  by (rule trd_ret) (simp add: create_post_def)

lemma can_deploy_snapshot: "can_deploy_to db a \<Longrightarrow> can_deploy_to (statedb_snapshot db) a"
proof -
  have "dict_get (statedb_snapshot db) a = map_option account_clone (dict_get db a)"
    by (simp add: statedb_snapshot_def map_of_map)
  then show "can_deploy_to db a \<Longrightarrow> can_deploy_to (statedb_snapshot db) a"
    by (auto simp: can_deploy_to_def account_clone_def mk_account_def split: option.splits)
qed

lemma trd_reserve:
  assumes "\<not> stat" and fail: "trd E (mach S cx g p) k0 R"
    and rest: "\<And>snap. S snap \<Longrightarrow> can_deploy_to snap a \<Longrightarrow> trd E (mach S cx g p) (k snap) R"
  shows "trd E (mach S cx g p)
     (bindM (get_state (\<lambda>db. can_deploy_to db a)) (\<lambda>free.
      if \<not> free then k0
      else
        bindM (get_state statedb_snapshot) (\<lambda>snapshot.
        bindM (on_state (\<lambda>db. ((), assign_nonce a 1 db))) (\<lambda>_. k snapshot)))) R"
proof -
  let ?c = "bindM (get_state (\<lambda>db. can_deploy_to db a)) (\<lambda>free.
      if \<not> free then k0
      else
        bindM (get_state statedb_snapshot) (\<lambda>snapshot.
        bindM (on_state (\<lambda>db. ((), assign_nonce a 1 db))) (\<lambda>_. k snapshot)))"
  have "case ?c m of (Inl e, s') \<Rightarrow> E e s' | (Inr x, s') \<Rightarrow> R x s'" if m: "mach S cx g p m" for m
  proof (cases "can_deploy_to (m_db m) a")
    case True
    let ?m = "m\<lparr>m_db := assign_nonce a 1 (m_db m)\<rparr>" and ?snap = "statedb_snapshot (m_db m)"
    have "mach S cx g p ?m" using m True S_assign[OF assms(1)] by (simp add: mach_def)
    moreover have "S ?snap" "can_deploy_to ?snap a"
      using m True S_snapshot can_deploy_snapshot by (auto simp: mach_def)
    ultimately have "case k ?snap ?m of (Inl e, s') \<Rightarrow> E e s' | (Inr x, s') \<Rightarrow> R x s'"
      using rest[of ?snap] by (simp add: trd_def)
    with True show ?thesis by (simp add: bindM_def get_state_def getM_def on_state_def zoom_def)
  next
    case False
    with fail m show ?thesis by (simp add: trd_def bindM_def get_state_def getM_def)
  qed
  then show ?thesis by (simp add: trd_def)
qed

lemma create_post_spawnI:
  "\<not> stat \<Longrightarrow> S snap \<Longrightarrow> can_deploy_to snap a \<Longrightarrow> 0 \<le> cx_gas cx' \<Longrightarrow> 0 \<le> cx_value cx' \<Longrightarrow>
   cx_depth cx' = cx_depth cx + 1 \<Longrightarrow> cx_depth cx + 1 < MAX_CALL_DEPTH \<Longrightarrow>
   mach S cx (G - cx_gas cx') p m \<Longrightarrow> G \<le> g \<Longrightarrow> create_post cx g p (CreateSpawn snap a cx') m"
  unfolding create_post_def child_of_def ctx_ok_def by (auto intro: mach_mono)

lemma trd_create_deploy:
  assumes "ctx_ok cx" "\<not> stat" "0 \<le> v" "cx_depth cx + 1 < MAX_CALL_DEPTH"
  shows "trd (halt fu S g) (mach S cx g p) (create_deploy v code a) (create_post cx g p)"
proof -
  have inc: "keeps fu cx g p (on_state (\<lambda>db. ((), increment_nonce b db)))" for b
    using S_increment[OF assms(2)] by (intro tri_on_state) simp
  have move: "keeps fu cx g p (on_state (transfer b a v))" for b
    using S_transfer[OF assms(2)] assms(3) by (intro tri_on_state) simp
  have spawn: "trd (halt fu S g) (mach S cx G p) (seqM (charge (max (G - G div 64) 0)) (retM (CreateSpawn snap a
        \<lparr>cx_address = a, cx_caller = cx_address cx, cx_origin = cx_origin cx, cx_value = v, cx_calldata = [],
         cx_code = code, cx_gas = max (G - G div 64) 0, cx_static = False, cx_depth = cx_depth cx + 1,
         cx_gas_price = cx_gas_price cx, cx_chain_id = cx_chain_id cx, cx_code_address = a\<rparr>))) (create_post cx g p)"
    if "S snap" "can_deploy_to snap a" "0 \<le> G" "G \<le> g" for snap G
    by (rule trd_of_tri[OF tri_after_charge[OF _ that(4) tri_ret[where V = "\<lambda>x. x = _"]]])
      (auto intro!: create_post_spawnI[OF assms(2) that(1,2), where G = G] simp: assms(3,4) that(4))
  show ?thesis
    unfolding create_deploy_def Let_def
    by (rule trd_bind[OF tri_get_context], simp only:)
      (intro trd_bind[OF inc] trd_reserve[OF assms(2)] trd_create_done trd_bind[OF move] trd_if
        trd_bind[OF tri_restore] trd_gas_exact spawn; assumption)
qed

lemma tri_create_address:
  "0 \<le> n \<Longrightarrow> keeps fu cx g p (liftR (py (create_address b n salt code)))"
proof -
  assume "0 \<le> n"
  then obtain a where "create_address b n salt code = Inr a"
    using compute_create_address_ok[of n b] compute_create2_address_ok[of b _ code]
    by (cases salt) (auto simp: create_address_def)
  then show ?thesis by (auto intro!: tri_lift)
qed

lemma trd_create_prepare:
  assumes ok: "ctx_ok cx" "0 \<le> v" "0 \<le> o'" "0 \<le> z"
  shows "trd (halt fu S g) (mach S cx g p) (create_prepare v o' z salt) (create_post cx g p)"
  unfolding create_prepare_def Let_def
  by (rule dsteps, simp only:,
      intro dsteps trd_create_done trd_bind[OF tri_read_memory] trd_bind[OF tri_words] trd_create_deploy ok
        trd_bind[OF tri_get_state[of S "\<lambda>n. 0 \<le> n"]] trd_bind[OF tri_create_address])
    (use ok S_nonce in \<open>auto simp: gas_defs ctx_ok_def\<close>)

lemma tri_create_conclude:
  assumes snap: "\<not> stat" "S snap" "can_deploy_to snap a" and r: "0 \<le> r_gas_remaining r" "r_gas_remaining r \<le> c"
  shows "tri (halt fu S g) (mach S cx (g - c) p) (create_conclude snap a r) (\<lambda>_. True) (mach S cx g p)"
proof -
  have code: "keeps fu cx (g - c) p (on_state (\<lambda>db. ((), set_code a (r_output r) db)))"
    using S_set_code[OF snap] by (intro tri_on_state) simp
  have settle: "keeps fu cx (g - c) p
      (if r_success r
       then bindM (on_state (\<lambda>db. ((), set_code a (r_output r) db)))
              (\<lambda>_. whenM (r_gas_refund r \<noteq> 0) (on_gas (add_refund (r_gas_refund r))))
       else bindM (on_state (\<lambda>db. ((), statedb_restore snap db))) retM)"
    by (intro tri_if tri_bind[OF code] tri_bind[OF tri_restore[OF snap(2)]] tri_ret tri_when[OF tri_refund] TrueI)
  show ?thesis
    unfolding create_conclude_def
    by (rule tri_seq[OF tri_low[OF _ settle]], use r in simp, rule tri_seq[OF tri_give_back])
      (use r in \<open>auto intro!: steps\<close>)
qed

lemma tri_create_common:
  assumes child: "child_ok fu child" and ok: "ctx_ok cx" "0 \<le> v" "0 \<le> o'" "0 \<le> z"
  shows "keeps fu cx g p (create_common child v o' z salt)"
  unfolding create_common_def
proof (rule tri_bind_trd[OF trd_create_prepare[OF ok]])
  fix plan
  show "tri (halt fu S g) (create_post cx g p plan)
     (case plan of CreateDone r \<Rightarrow> retM r
      | CreateSpawn snapshot new_address cx \<Rightarrow> bindM (run_child child cx) (create_conclude snapshot new_address))
     (\<lambda>_. True) (mach S cx g p)"
  proof (cases plan)
    case (CreateDone r)
    then have "create_post cx g p plan = mach S cx g p" by (simp add: create_post_def fun_eq_iff)
    with CreateDone show ?thesis by (simp add: tri_ret)
  next
    case (CreateSpawn snap a cx')
    show ?thesis
    proof (cases "\<not> stat \<and> S snap \<and> can_deploy_to snap a \<and> child_of cx cx'")
      case True
      then have "child_of cx cx'" by blast
      then have c: "ctx_ok cx'" "0 \<le> cx_gas cx'" by (auto simp: child_of_def ctx_ok_def)
      have "create_post cx g p plan = mach S cx (g - cx_gas cx') p"
        unfolding create_post_def CreateSpawn create_plan.case by (rule ext) (use True in blast)
      moreover have "tri (halt fu S g) (mach S cx (g - cx_gas cx') p)
          (bindM (run_child child cx') (create_conclude snap a)) (\<lambda>_. True) (mach S cx g p)"
        by (rule tri_bind[OF tri_low[OF _ tri_run_child[OF child c(1)]]])
          (use c True tri_create_conclude in auto)
      ultimately show ?thesis using CreateSpawn by simp
    next
      case False
      then show ?thesis unfolding tri_def create_post_def CreateSpawn create_plan.case by blast
    qed
  qed
qed

lemma tri_create_finish: "keeps fu cx g p (create_finish r)"
  unfolding create_finish_def by (intro steps tri_when[OF tri_set_logs(1)])

lemma tri_create_ops:
  assumes "child_ok fu child" "ctx_ok cx"
  shows "keeps fu cx g p (op_create child)" "keeps fu cx g p (op_create2 child)"
  unfolding op_create_def op_create2_def
  by (intro steps tri_bind[OF tri_create_common[OF assms]] tri_create_finish; simp add: word_range_nonneg)+

subsection \<open>Instructions and frames\<close>

lemma tri_handler:
  assumes "child_ok fu child" "ctx_ok cx" "dict_get (dispatch hl child) opcode = Some h" "opcode \<notin> {0x56, 0x57}"
  shows "keeps fu cx g p h"
proof -
  have "\<forall>kh \<in> set (dispatch hl child). fst kh \<notin> {0x56, 0x57} \<longrightarrow> keeps fu cx g p (snd kh)"
    using assms(1,2)
    by (simp add: dispatch_def tri_pure_ops tri_bit_ops tri_flow_ops tri_env_ops tri_memory_ops tri_op_sstore
        tri_call_ops tri_create_ops)
  with assms(3,4) show ?thesis by (auto dest!: map_of_SomeD)
qed

abbreviation progress :: "exec_context \<Rightarrow> int \<Rightarrow> int \<Rightarrow> machine \<Rightarrow> bool" where
  "progress cx g p m \<equiv> mach S cx g p m \<or> mach S cx (g - 8) 0 m"

lemma tri_progress: "keeps fu cx g p m \<Longrightarrow> tri (halt fu S g) (mach S cx g p) m (\<lambda>_. True) (progress cx g p)"
  by (erule tri_conseq) auto

lemma tri_jump_op:
  assumes "tri (halt fu S (g - c)) (mach S cx (g - c) p) h (\<lambda>_. True) (mach S cx (g - c) 0)"
    and "base_opcode_gas opcode = c" "8 \<le> c"
  shows "tri (halt fu S g) (mach S cx g p) (seqM (charge_base opcode) h) (\<lambda>_. True) (progress cx g p)"
proof -
  have "tri (halt fu S g) (mach S cx g p) (charge_base opcode) (\<lambda>_. c \<le> g) (mach S cx (g - c) p)"
    unfolding charge_base_def assms(2) using assms(3) by (intro tri_charge_exact) simp
  then show ?thesis
    by (rule tri_seq) (rule tri_conseq[OF assms(1)], use assms(3) in \<open>auto intro: mach_mono halt_mono\<close>)
qed

lemma tri_execute_opcode:
  assumes "child_ok fu child" "ctx_ok cx" "0 \<le> p"
  shows "tri (halt fu S g) (mach S cx g p) (execute_opcode hl child opcode) (\<lambda>_. True) (progress cx g p)"
proof -
  consider "is_push opcode \<or> is_dup opcode \<or> is_swap opcode \<or> is_log opcode"
    | "\<not> (is_push opcode \<or> is_dup opcode \<or> is_swap opcode \<or> is_log opcode)" "opcode \<notin> {0x56, 0x57}"
    | "opcode = 0x56" | "opcode = 0x57" by blast
  then show ?thesis
  proof cases
    case 1
    then show ?thesis
      unfolding execute_opcode_def
      by (intro tri_progress tri_if steps tri_op_push tri_op_log) auto
  next
    case 2
    then show ?thesis
      unfolding execute_opcode_def
      by (intro tri_progress) (auto intro!: steps intro: tri_handler[OF assms(1,2)] split: option.splits)
  next
    case 3
    then have "execute_opcode hl child opcode = seqM (charge_base 0x56) op_jump"
      by (simp add: execute_opcode_def is_push_def is_dup_def is_swap_def is_log_def PUSH0_def LOG0_def LOG4_def
          dispatch_def)
    then show ?thesis by (auto intro: tri_jump_op[OF tri_op_jump base_gas_jump(1)])
  next
    case 4
    then have "execute_opcode hl child opcode = seqM (charge_base 0x57) op_jumpi"
      by (simp add: execute_opcode_def is_push_def is_dup_def is_swap_def is_log_def PUSH0_def LOG0_def LOG4_def
          dispatch_def)
    then show ?thesis by (auto intro: tri_jump_op[OF tri_op_jumpi[OF assms(3)] base_gas_jump(2)])
  qed
qed

lemma tri_fetch: "tri (halt fu S g) (\<lambda>m. mach S cx g p m \<and> f_pc (m_frame m) = q) fetch_opcode
    (\<lambda>_. True) (\<lambda>m. mach S cx g (q + 1) m)"
  by (auto simp: tri_def fetch_opcode_def bindM_def get_frame_def getM_def seqM_def set_frame_def modM_def retM_def
      upd_frame_def mach_def)

lemma frame_result_ok:
  assumes "case rm of (Inl e, m) \<Rightarrow> halt fu S g e m | (Inr x, m) \<Rightarrow> mach S cx g p m" "0 \<le> g"
  shows "case frame_result rm of
      (Inl e, db') \<Rightarrow> fu \<and> e = FuelExhausted \<and> S db'
    | (Inr r, db') \<Rightarrow> S db' \<and> 0 \<le> r_gas_remaining r \<and> r_gas_remaining r \<le> g"
  using assms
  by (auto simp: frame_result_def exec_result_default_def halt_def mach_def Let_def
      split: prod.splits sum.splits evm_exn.splits)

lemma mach_start: "ctx_ok cx \<Longrightarrow> S db \<Longrightarrow> mach S cx (cx_gas cx) 0 (start_frame cx db)"
  by (simp add: mach_def start_frame_def mk_frame_def stack_wf_def ctx_ok_def)

lemma child_ok_frame:
  assumes "\<And>cx g. ctx_ok cx \<Longrightarrow> keeps True cx g 0 (frame_loop hl n)"
  shows "child_ok True (execute_frame hl n)"
  unfolding child_ok_def
proof (intro allI impI)
  fix cx db assume ok: "ctx_ok cx" and db: "S db"
  have "case frame_loop hl n (start_frame cx db) of (Inl e, m) \<Rightarrow> halt True S (cx_gas cx) e m
      | (Inr x, m) \<Rightarrow> mach S cx (cx_gas cx) 0 m"
    using assms[OF ok, of "cx_gas cx"] mach_start[OF ok db] by (auto simp: tri_def split: prod.splits sum.splits)
  moreover have "0 \<le> cx_gas cx" using ok by (simp add: ctx_ok_def)
  ultimately show "case execute_frame hl n cx db of (Inl e, db') \<Rightarrow> True \<and> e = FuelExhausted \<and> S db'
      | (Inr r, db') \<Rightarrow> S db' \<and> 0 \<le> r_gas_remaining r \<and> r_gas_remaining r \<le> cx_gas cx"
    unfolding execute_frame_def by (rule frame_result_ok)
qed

lemma frame_loop_step:
  assumes child: "child_ok fu child" and ok: "ctx_ok cx"
  shows "tri (halt fu S g) (\<lambda>m. mach S cx g 0 m \<and> f_pc (m_frame m) = q)
      (bindM fetch_opcode (execute_opcode hl child)) (\<lambda>_. True) (progress cx g (q + 1))"
proof (cases "0 \<le> q")
  case True
  then show ?thesis by (intro tri_bind[OF tri_fetch] tri_execute_opcode[OF child ok]) simp
next
  case False
  then show ?thesis by (auto simp: tri_def mach_def)
qed

lemma frame_loop_keeps: "ctx_ok cx \<Longrightarrow> keeps True cx g 0 (frame_loop hl n)"
proof (induction n arbitrary: cx g)
  case 0
  show ?case by (auto simp: tri_def raiseM_def intro: mach_halt)
next
  case (Suc n)
  note child = child_ok_frame[OF Suc.IH]
  have "keeps True cx g 0 (bindM fetch_opcode (execute_opcode hl (execute_frame hl n)))"
  proof (rule tri_split[where h = "\<lambda>m. f_pc (m_frame m)" and A = "\<lambda>q. 0 \<le> q"])
    fix q :: int assume "0 \<le> q"
    then show "tri (halt True S g) (\<lambda>m. mach S cx g 0 m \<and> f_pc (m_frame m) = q)
        (bindM fetch_opcode (execute_opcode hl (execute_frame hl n))) (\<lambda>_. True) (mach S cx g 0)"
      by (intro tri_conseq[OF frame_loop_step[OF child Suc.prems, where q = q]]) (auto elim: mach_mono)
  qed (simp add: mach_def)
  then show ?case
    unfolding frame_loop_Suc
    by (intro tri_bind[OF tri_get_frame_any] tri_if tri_ret tri_seq[OF _ Suc.IH[OF Suc.prems]]) auto
qed

lemma execute_frame_ok: "child_ok True (execute_frame hl n)"
  by (rule child_ok_frame) (rule frame_loop_keeps)

subsection \<open>Entry points\<close>

lemma S_snapshot_restore: "S db \<Longrightarrow> S (statedb_restore (statedb_snapshot db) db')"
  by (intro S_restore S_snapshot)

lemma execute_ok:
  assumes "ctx_ok cx" "S db"
  shows "case execute hl n cx db of
      (Inl e, db') \<Rightarrow> e = FuelExhausted
    | (Inr r, db') \<Rightarrow> S db' \<and> 0 \<le> r_gas_remaining r \<and> r_gas_remaining r \<le> cx_gas cx"
  using execute_frame_ok[unfolded child_ok_def, rule_format, OF assms, of hl n]
    S_snapshot_restore[OF assms(2)]
  by (auto simp: execute_def Let_def split: prod.splits sum.splits)

lemma call_account_ok:
  assumes "S db" "S snap" "0 \<le> v" "0 \<le> gas" "stat \<longrightarrow> static"
  shows "case call_account hl n snap a caller origin v calldata gas static gas_price chain_id db of
      (Inl e, db') \<Rightarrow> e = FuelExhausted
    | (Inr r, db') \<Rightarrow> S db' \<and> 0 \<le> r_gas_remaining r \<and> r_gas_remaining r \<le> gas"
proof -
  define cx where "cx = \<lparr>cx_address = a, cx_caller = caller,
      cx_origin = (case origin of None \<Rightarrow> caller | Some o' \<Rightarrow> o'), cx_value = v, cx_calldata = calldata,
      cx_code = get_code db a, cx_gas = gas, cx_static = static, cx_depth = 0, cx_gas_price = gas_price,
      cx_chain_id = chain_id, cx_code_address = a\<rparr>"
  have "ctx_ok cx" "cx_gas cx = gas" using assms by (simp_all add: ctx_ok_def cx_def)
  note ex = execute_ok[OF this(1) assms(1), of hl n, unfolded this(2)]
  show ?thesis
    unfolding call_account_def Let_def cx_def[symmetric]
    using assms ex S_restore[OF assms(2)] precompile_gas_cost_nonneg[of _ calldata]
    by (auto simp: exec_result_default_def split: option.splits prod.splits sum.splits)
qed

lemma interpreter_call_ok:
  assumes "S db" "0 \<le> v" "0 \<le> gas" "stat \<longrightarrow> static"
  shows "case interpreter_call hl n a caller origin v calldata gas static gas_price chain_id db of
      (Inl e, db') \<Rightarrow> e = FuelExhausted
    | (Inr r, db') \<Rightarrow> S db' \<and> 0 \<le> r_gas_remaining r \<and> r_gas_remaining r \<le> gas"
proof -
  obtain ok db1 where t: "(if v \<noteq> 0 then transfer caller a v db else (True, db)) = (ok, db1)"
    by (cases "if v \<noteq> 0 then transfer caller a v db else (True, db)")
  show ?thesis
  proof (cases "v \<noteq> 0 \<and> static")
    case True
    then show ?thesis using assms by (simp add: interpreter_call_def exec_result_default_def)
  next
    case False
    have "S db1"
      using t False assms S_transfer[of db v caller a] by (cases "v = 0") auto
    note run = call_account_ok[OF this S_snapshot[OF assms(1)] assms(2-4)]
    show ?thesis
      unfolding interpreter_call_def Let_def t prod.case
      using False assms run S_snapshot_restore[OF assms(1)]
      by (auto simp: exec_result_default_def failed_call_def split: if_split)
  qed
qed

end

section \<open>Instances\<close>

lemma db_wf_restore: "db_wf snap \<Longrightarrow> db_wf (statedb_restore snap db)"
  by (simp add: restore_id)

interpretation wf_inv: state_invariant db_wf False
  using db_wf_nonce by unfold_locales (simp_all add: snapshot_id db_wf_restore db_wf_ops word_range_def)

definition supply_is :: "int \<Rightarrow> statedb \<Rightarrow> bool" where
  "supply_is T db \<longleftrightarrow> db_wf db \<and> total_balance db = T \<and> T < 2 ^ 256"

interpretation supply_inv: state_invariant "supply_is T" False for T
proof unfold_locales
  fix db :: statedb and a b :: address and v :: int
  assume "supply_is T db" "0 \<le> v"
  then show "supply_is T (snd (transfer a b v db))"
    using total_balance_transfer[of db v a b] by (simp add: supply_is_def db_wf_ops)
qed (use db_wf_nonce in \<open>auto simp: supply_is_def snapshot_id restore_id db_wf_ops word_range_def\<close>)

definition code_is :: "address \<Rightarrow> bytes \<Rightarrow> statedb \<Rightarrow> bool" where
  "code_is a c db \<longleftrightarrow> db_wf db \<and> get_code db a = c \<and> c \<noteq> []"

lemma get_code_keep:
  "get_code (snd (transfer s r v db)) a = get_code db a"
  "get_code (snd (estimate_sstore b k w db)) a = get_code db a"
  "get_code (snd (set_storage b k w db)) a = get_code db a"
  "get_code (increment_nonce b db) a = get_code db a"
  "get_code (assign_nonce b n db) a = get_code db a"
  by (simp_all add: db_readers transfer_def subtract_balance_def add_balance_def set_balance_def
      get_or_create_as_update set_storage_as_update increment_nonce_def assign_nonce_def estimate_sstore_def
      case_prod_beta acct_update Let_def)

interpretation code_inv: state_invariant "code_is a c" False for a c
proof unfold_locales
  fix snap db :: statedb and b :: address and d :: bytes
  assume "code_is a c snap" "can_deploy_to snap b" "code_is a c db"
  moreover from this have "b \<noteq> a" by (auto simp: code_is_def db_readers)
  moreover from this have "get_code (set_code b d db) a = get_code db a"
    by (simp add: db_readers set_code_def acct_update)
  ultimately show "code_is a c (set_code b d db)" by (simp add: code_is_def db_wf_ops)
qed (use db_wf_nonce in \<open>auto simp: code_is_def snapshot_id restore_id db_wf_ops word_range_def get_code_keep\<close>)

definition frozen :: "statedb \<Rightarrow> statedb \<Rightarrow> bool" where
  "frozen db0 db \<longleftrightarrow> db = db0 \<and> db_wf db0"

interpretation static_inv: state_invariant "frozen db0" True for db0
  using db_wf_nonce[of db0]
  by unfold_locales (simp_all add: frozen_def snapshot_id restore_id word_range_def)

end
