(* ===== verification/Interpreter_Term.thy ===== *)
theory Interpreter_Term
  imports Interpreter_Inv
begin

text \<open>
  The fuel of the interpreter: more fuel never changes a result, and for every context with a
  non-negative gas limit on a well-formed state there is enough fuel. The measure is lexicographic:
  the levels of call depth left, the gas left (a jump costs at least 8), and the distance of the
  program counter to the end of the code.
\<close>

section \<open>More fuel refines\<close>

definition nofuel :: "(evm_exn + 'a) \<times> 's \<Rightarrow> bool" where
  "nofuel r \<longleftrightarrow> fst r \<noteq> Inl FuelExhausted"

definition le_out :: "(evm_exn + 'a) \<times> 's \<Rightarrow> (evm_exn + 'a) \<times> 's \<Rightarrow> bool" where
  "le_out r r' \<longleftrightarrow> nofuel r \<longrightarrow> r' = r"

definition le_sem :: "('s, evm_exn, 'a) sem \<Rightarrow> ('s, evm_exn, 'a) sem \<Rightarrow> bool" where
  "le_sem m m' \<longleftrightarrow> (\<forall>s. le_out (m s) (m' s))"

definition le_child :: "child \<Rightarrow> child \<Rightarrow> bool" where
  "le_child c c' \<longleftrightarrow> (\<forall>cx db. le_out (c cx db) (c' cx db))"

lemma le_out_refl: "le_out r r" by (simp add: le_out_def)

lemma le_refl: "le_sem m m" by (simp add: le_sem_def le_out_refl)

lemma le_trans: "le_sem a b \<Longrightarrow> le_sem b c \<Longrightarrow> le_sem a c"
  by (simp add: le_sem_def le_out_def)

lemma le_bind:
  assumes m: "le_sem m m'" and f: "\<And>x. le_sem (f x) (f' x)"
  shows "le_sem (bindM m f) (bindM m' f')"
  unfolding le_sem_def le_out_def
proof (intro allI impI)
  fix s assume nofuel: "nofuel (bindM m f s)"
  then have "nofuel (m s)" by (auto simp: nofuel_def bindM_def split: prod.splits)
  then have "m' s = m s" using m by (simp add: le_sem_def le_out_def)
  with nofuel f show "bindM m' f' s = bindM m f s"
    by (auto simp: bindM_def le_sem_def le_out_def split: prod.splits sum.splits)
qed

lemma le_seq: "le_sem m m' \<Longrightarrow> le_sem k k' \<Longrightarrow> le_sem (seqM m k) (seqM m' k')"
  unfolding seqM_def by (rule le_bind)

lemma le_run_child: "le_child c c' \<Longrightarrow> le_sem (run_child c cx) (run_child c' cx)"
  by (auto simp: le_child_def le_sem_def le_out_def nofuel_def run_child_def case_prod_beta)

lemma le_call_common: "le_child c c' \<Longrightarrow> le_sem (call_common hl c ca) (call_common hl c' ca)"
  unfolding call_common_def
  by (rule le_bind[OF le_refl]) (auto split: call_plan.split intro: le_refl le_bind le_run_child)

lemma le_create_common: "le_child c c' \<Longrightarrow> le_sem (create_common c v o' z s) (create_common c' v o' z s)"
  unfolding create_common_def
  by (rule le_bind[OF le_refl]) (auto split: create_plan.split intro: le_refl le_bind le_run_child)

lemma le_child_ops:
  assumes "le_child c c'"
  shows "le_sem (op_call hl c) (op_call hl c')" "le_sem (op_delegatecall hl c) (op_delegatecall hl c')"
    "le_sem (op_staticcall hl c) (op_staticcall hl c')" "le_sem (op_create c) (op_create c')"
    "le_sem (op_create2 c) (op_create2 c')"
  unfolding op_call_def op_delegatecall_def op_staticcall_def op_create_def op_create2_def Let_def
  by (intro le_bind le_seq le_refl le_call_common[OF assms] le_create_common[OF assms])+

lemma map_of_rel:
  "list_all2 (\<lambda>p q. fst p = fst q \<and> R (snd p) (snd q)) xs ys \<Longrightarrow> rel_option R (map_of xs k) (map_of ys k)"
  by (induction xs ys rule: list_all2_induct) auto

lemma le_dispatch: "le_child c c' \<Longrightarrow> rel_option le_sem (dict_get (dispatch hl c) op) (dict_get (dispatch hl c') op)"
  by (rule map_of_rel) (simp add: dispatch_def le_refl le_child_ops)

lemma le_execute_opcode: "le_child c c' \<Longrightarrow> le_sem (execute_opcode hl c op) (execute_opcode hl c' op)"
  using le_dispatch[of c c' hl op] unfolding execute_opcode_def
  by (auto intro!: le_seq le_refl simp: rel_option_iff split: option.splits)

lemma le_frame_result: "le_out r r' \<Longrightarrow> le_out (frame_result r) (frame_result r')"
  by (cases r) (auto simp: le_out_def nofuel_def frame_result_def Let_def split: sum.splits evm_exn.splits)

lemma le_execute_frame: "le_sem (frame_loop hl n) (frame_loop hl n') \<Longrightarrow> le_child (execute_frame hl n) (execute_frame hl n')"
  by (simp add: le_child_def execute_frame_def le_frame_result le_sem_def)

lemma le_loop_body:
  "le_child c c' \<Longrightarrow> le_sem k k' \<Longrightarrow>
   le_sem
     (bindM (get_frame more_code) (\<lambda>more.
      if \<not> more then retM () else seqM (bindM fetch_opcode (execute_opcode hl c)) k))
     (bindM (get_frame more_code) (\<lambda>more.
      if \<not> more then retM () else seqM (bindM fetch_opcode (execute_opcode hl c')) k'))"
  by (rule le_bind[OF le_refl]) (simp add: le_refl le_seq le_bind le_execute_opcode)

lemma frame_loop_mono1: "le_sem (frame_loop hl n) (frame_loop hl (Suc n))"
proof (induction n)
  case 0
  show ?case by (simp add: le_sem_def le_out_def nofuel_def raiseM_def)
next
  case (Suc n)
  show ?case
    using le_loop_body[OF le_execute_frame[OF Suc] Suc, of hl] by (simp only: frame_loop_Suc[symmetric])
qed

lemma frame_loop_mono: "n \<le> n' \<Longrightarrow> le_sem (frame_loop hl n) (frame_loop hl n')"
  by (induction n' rule: dec_induct) (auto intro: le_refl le_trans frame_loop_mono1 simp del: frame_loop.simps)

lemma execute_frame_mono: "n \<le> n' \<Longrightarrow> le_child (execute_frame hl n) (execute_frame hl n')"
  by (intro le_execute_frame frame_loop_mono)

section \<open>What an instruction asks of its child\<close>

text \<open>
  \<open>asks P C F\<close>: from a machine with \<open>P\<close>, the code \<open>F\<close> (which is given a child runner) can exhaust
  the fuel only through one call of its child, whose arguments satisfy \<open>C\<close>.
\<close>

definition asks ::
  "(machine \<Rightarrow> bool) \<Rightarrow> (exec_context \<Rightarrow> statedb \<Rightarrow> bool) \<Rightarrow> (child \<Rightarrow> 'a evm) \<Rightarrow> bool" where
  "asks P C F \<longleftrightarrow> (\<forall>m. P m \<longrightarrow> (\<forall>c. nofuel (F c m)) \<or>
     (\<exists>cx db. C cx db \<and> (\<forall>c. nofuel (c cx db) \<longrightarrow> nofuel (F c m))))"

definition nf :: "('s, evm_exn, 'a) sem \<Rightarrow> bool" where
  "nf m \<longleftrightarrow> (\<forall>s. nofuel (m s))"

lemma nf_bind: "nf m \<Longrightarrow> (\<And>x. nf (f x)) \<Longrightarrow> nf (bindM m f)"
  by (auto simp: nf_def nofuel_def bindM_def split: prod.splits sum.splits) (metis fst_conv)

lemma nf_seq: "nf m \<Longrightarrow> nf k \<Longrightarrow> nf (seqM m k)"
  unfolding seqM_def by (rule nf_bind)

lemma nf_ret: "nf (retM x)" by (simp add: nf_def nofuel_def retM_def)

lemma nf_when: "nf m \<Longrightarrow> nf (whenM b m)" by (simp add: whenM_def nf_ret)

lemma nf_zoom: "(\<And>v. f v \<noteq> Inl FuelExhausted) \<Longrightarrow> nf (zoom get put f)"
  by (auto simp: nf_def nofuel_def zoom_def split: sum.splits prod.splits)

lemma nf_prims: "nf (push v)" "nf (on_gas (add_refund r))" "nf (on_gas (return_gas r))" "nf (set_frame h)"
  "nf (write_memory o' bs)" "nf (on_state k)"
  by (auto simp: push_def on_stack_def on_gas_def write_memory_def on_memory_def on_state_def add_refund_def
      return_gas_def py_def stack_push_def split: sum.splits if_splits intro!: nf_zoom)
    (simp add: nf_def nofuel_def set_frame_def modM_def)

lemmas nf_rules = nf_bind nf_seq nf_ret nf_when nf_prims

lemma nf_concludes: "nf (call_conclude ca snap f r)" "nf (create_conclude snap a r)" "nf (call_finish r)"
  "nf (create_finish r)"
  unfolding call_conclude_def create_conclude_def call_finish_def create_finish_def Let_def
  by (auto intro!: nf_rules)

lemma asks_nf: "nf m \<Longrightarrow> asks P C (\<lambda>c. m)"
  by (simp add: asks_def nf_def)

lemma asks_free: "tri (halt False S g) P m V Q \<Longrightarrow> asks P C (\<lambda>c. m)"
  unfolding asks_def tri_def nofuel_def halt_def by (fastforce split: prod.splits sum.splits)

lemma asks_bind_trd:
  assumes "trd (halt False S g) P m R" "\<And>x. asks (R x) C (\<lambda>c. F c x)"
  shows "asks P C (\<lambda>c. bindM m (F c))"
  unfolding asks_def
proof (intro allI impI)
  fix s assume P: "P s"
  show "(\<forall>c. nofuel (bindM m (F c) s)) \<or>
      (\<exists>cx db. C cx db \<and> (\<forall>c. nofuel (c cx db) \<longrightarrow> nofuel (bindM m (F c) s)))"
  proof (cases "m s")
    case (Pair r s')
    show ?thesis
    proof (cases r)
      case (Inl e)
      then have "halt False S g e s'" using assms(1) P Pair by (force simp: trd_def)
      then show ?thesis using Pair Inl by (auto simp: bindM_def nofuel_def halt_def)
    next
      case (Inr x)
      then have "R x s'" using assms(1) P Pair by (force simp: trd_def)
      moreover have "bindM m (F c) s = F c x s'" for c using Pair Inr by (simp add: bindM_def)
      ultimately show ?thesis using assms(2)[of x] by (simp add: asks_def)
    qed
  qed
qed

lemma asks_bind:
  assumes "tri (halt False S g) P m V Q" "\<And>x. V x \<Longrightarrow> asks Q C (\<lambda>c. F c x)"
  shows "asks P C (\<lambda>c. bindM m (F c))"
proof (rule asks_bind_trd)
  show "trd (halt False S g) P m (\<lambda>x s. V x \<and> Q s)" by (rule trd_of_tri[OF assms(1)]) simp
  show "asks (\<lambda>s. V x \<and> Q s) C (\<lambda>c. F c x)" for x using assms(2)[of x] by (auto simp: asks_def)
qed

lemma asks_seq: "tri (halt False S g) P m V Q \<Longrightarrow> asks Q C F \<Longrightarrow> asks P C (\<lambda>c. seqM m (F c))"
  unfolding seqM_def by (rule asks_bind)

lemma asks_then: "asks P C F \<Longrightarrow> (\<And>x. nf (k x)) \<Longrightarrow> asks P C (\<lambda>c. bindM (F c) k)"
proof -
  assume F: "asks P C F" and k: "\<And>x. nf (k x)"
  have "nofuel (F c m) \<Longrightarrow> nofuel (bindM (F c) k m)" for c m
    using k by (auto simp: nf_def nofuel_def bindM_def split: prod.splits sum.splits)
  then show ?thesis using F unfolding asks_def by fast
qed

lemma asks_run_child: "(\<And>m. P m \<Longrightarrow> C cx (m_db m)) \<Longrightarrow> asks P C (\<lambda>c. run_child c cx)"
  by (auto simp: asks_def nofuel_def run_child_def case_prod_beta)

subsection \<open>Every instruction asks at most once\<close>

abbreviation child_req :: "exec_context \<Rightarrow> exec_context \<Rightarrow> statedb \<Rightarrow> bool" where
  "child_req cx cx' db \<equiv> wf_inv.child_of cx cx' \<and> db_wf db"

lemma asks_call_common:
  assumes "wf_inv.ctx_ok cx" "wf_inv.args_ok cx ca"
  shows "asks (mach db_wf cx g p) (child_req cx) (\<lambda>c. call_common hl c ca)"
  unfolding call_common_def
proof (rule asks_bind_trd[OF wf_inv.trd_call_prepare[OF assms]])
  fix plan
  show "asks (wf_inv.plan_post cx g p plan) (child_req cx)
     (\<lambda>c. case plan of CallDone r \<Rightarrow> retM r
      | CallSettled snapshot forwarded_gas r \<Rightarrow> call_conclude ca snapshot forwarded_gas r
      | CallSpawn snapshot forwarded_gas cx \<Rightarrow> bindM (run_child c cx) (call_conclude ca snapshot forwarded_gas))"
  proof (cases plan)
    case (CallSpawn snap f cx')
    then show ?thesis
      by (auto intro!: asks_then[OF asks_run_child] nf_concludes
          simp: wf_inv.plan_post_def wf_inv.plan_facts_def mach_def)
  qed (auto intro: asks_nf nf_ret nf_concludes)
qed

lemma asks_create_common:
  assumes "wf_inv.ctx_ok cx" "0 \<le> v" "0 \<le> o'" "0 \<le> z"
  shows "asks (mach db_wf cx g p) (child_req cx) (\<lambda>c. create_common c v o' z s)"
  unfolding create_common_def
proof (rule asks_bind_trd[OF wf_inv.trd_create_prepare[OF assms]])
  fix plan
  show "asks (wf_inv.create_post cx g p plan) (child_req cx)
     (\<lambda>c. case plan of CreateDone r \<Rightarrow> retM r
      | CreateSpawn snapshot new_address cx \<Rightarrow> bindM (run_child c cx) (create_conclude snapshot new_address))"
  proof (cases plan)
    case (CreateSpawn snap a cx')
    then show ?thesis
      by (auto intro!: asks_then[OF asks_run_child] nf_concludes simp: wf_inv.create_post_def mach_def)
  qed (auto intro: asks_nf nf_ret)
qed

lemmas asks_steps = asks_bind[OF tri_pop] asks_bind[OF wf_inv.tri_read_memory] asks_bind[OF tri_get_context]
  asks_seq[OF wf_inv.tri_charge_memory]

lemma asks_child_ops:
  assumes "wf_inv.ctx_ok cx"
  shows "asks (mach db_wf cx g p) (child_req cx) (op_call hl)"
    "asks (mach db_wf cx g p) (child_req cx) (op_delegatecall hl)"
    "asks (mach db_wf cx g p) (child_req cx) (op_staticcall hl)"
    "asks (mach db_wf cx g p) (child_req cx) op_create"
    "asks (mach db_wf cx g p) (child_req cx) op_create2"
  using assms
  unfolding op_call_def[abs_def] op_delegatecall_def[abs_def] op_staticcall_def[abs_def] op_create_def[abs_def]
    op_create2_def[abs_def] Let_def
  by (intro asks_steps asks_then[OF asks_call_common] asks_then[OF asks_create_common] nf_concludes;
      simp add: wf_inv.args_ok_def wf_inv.ctx_ok_def word_range_nonneg)+

definition stop_child :: child where
  "stop_child cx db = (Inr (exec_result_default False 0), db)"

lemma stop_child_ok: "wf_inv.child_ok False stop_child"
  by (simp add: wf_inv.child_ok_def wf_inv.ctx_ok_def stop_child_def exec_result_default_def)

lemma dispatch_child_free:
  "opcode \<notin> {0xF0, 0xF1, 0xF4, 0xF5, 0xFA} \<Longrightarrow>
   dict_get (dispatch hl c) opcode = dict_get (dispatch hl c') opcode"
  by (simp add: dispatch_def)

lemma asks_handler:
  assumes ok: "wf_inv.ctx_ok cx" and p: "0 \<le> p"
  shows "asks (mach db_wf cx g p) (child_req cx)
    (\<lambda>c. case dict_get (dispatch hl c) opcode of None \<Rightarrow> raiseM InvalidOpcodeError | Some handler \<Rightarrow> handler)"
    (is "asks _ _ ?F")
proof (cases "opcode \<in> {0xF0, 0xF1, 0xF4, 0xF5, 0xFA}")
  case True
  then show ?thesis by (auto simp: dispatch_def asks_child_ops[OF ok])
next
  case False
  let ?h = "?F stop_child"
  have const: "?F = (\<lambda>c. ?h)" by (rule ext) (subst dispatch_child_free[OF False, of hl _ stop_child], rule refl)
  have "\<exists>Q. tri (halt False db_wf g) (mach db_wf cx g p) ?h (\<lambda>_. True) Q"
  proof (cases "dict_get (dispatch hl stop_child) opcode")
    case None
    then show ?thesis by (auto intro!: exI tri_raise_halt)
  next
    case (Some h)
    consider "opcode = 0x56" | "opcode = 0x57" | "opcode \<notin> {0x56, 0x57}" by blast
    then show ?thesis
    proof cases
      case 1
      then show ?thesis using wf_inv.tri_op_jump[of False g cx p] by (auto simp: dispatch_def)
    next
      case 2
      then show ?thesis using wf_inv.tri_op_jumpi[OF p, of False g cx] by (auto simp: dispatch_def)
    next
      case 3
      then show ?thesis using wf_inv.tri_handler[OF stop_child_ok ok Some, of g p] Some by auto
    qed
  qed
  then show ?thesis unfolding const by (auto intro: asks_free)
qed

lemma asks_execute_opcode:
  assumes ok: "wf_inv.ctx_ok cx" and p: "0 \<le> p"
  shows "asks (mach db_wf cx g p) (child_req cx) (\<lambda>c. execute_opcode hl c opcode)"
proof (cases "is_push opcode \<or> is_dup opcode \<or> is_swap opcode \<or> is_log opcode")
  case True
  then have "(\<lambda>c. execute_opcode hl c opcode) = (\<lambda>c. execute_opcode hl stop_child opcode)"
    by (auto simp: execute_opcode_def fun_eq_iff)
  then show ?thesis
    using asks_free[OF wf_inv.tri_execute_opcode[OF stop_child_ok ok p]] by simp
next
  case False
  then show ?thesis
    unfolding execute_opcode_def using asks_seq[OF wf_inv.tri_charge_base asks_handler[OF ok p]] by simp
qed

lemma asks_step:
  assumes ok: "wf_inv.ctx_ok cx"
  shows "asks (mach db_wf cx g 0) (child_req cx) (\<lambda>c. bindM fetch_opcode (execute_opcode hl c))"
proof -
  have "asks (\<lambda>m. mach db_wf cx g 0 m \<and> f_pc (m_frame m) = q) (child_req cx)
      (\<lambda>c. bindM fetch_opcode (execute_opcode hl c))" if "0 \<le> q" for q
    by (rule asks_bind[OF wf_inv.tri_fetch]) (rule asks_execute_opcode[OF ok], use that in simp)
  then show ?thesis unfolding asks_def by (metis mach_def)
qed

section \<open>Enough fuel exists\<close>

lemma bind_get_frame: "bindM (get_frame f) k m = k (f (m_frame m)) m"
  by (simp add: bindM_def get_frame_def getM_def)

lemma step_terminates:
  assumes m: "mach db_wf cx g 0 m" and ok: "wf_inv.ctx_ok cx"
    and children: "\<And>cx' db. child_req cx cx' db \<Longrightarrow> \<exists>n. nofuel (execute_frame hl n cx' db)"
  shows "\<exists>n. nofuel (bindM fetch_opcode (execute_opcode hl (execute_frame hl n)) m)"
  using asks_step[OF ok, of g hl] m children unfolding asks_def by meson

lemma step_stable:
  assumes "nofuel (bindM fetch_opcode (execute_opcode hl (execute_frame hl n)) m)" "n \<le> n'"
  shows "bindM fetch_opcode (execute_opcode hl (execute_frame hl n')) m =
    bindM fetch_opcode (execute_opcode hl (execute_frame hl n)) m"
  using le_bind[OF le_refl le_execute_opcode[OF execute_frame_mono[OF assms(2)]]] assms(1)
  by (fastforce simp: le_sem_def le_out_def)

lemma loop_terminates:
  assumes ok: "wf_inv.ctx_ok cx"
    and children: "\<And>cx' db. child_req cx cx' db \<Longrightarrow> \<exists>n. nofuel (execute_frame hl n cx' db)"
  shows "mach db_wf cx g 0 m \<Longrightarrow> \<exists>n. nofuel (frame_loop hl n m)"
proof (induction "(nat (gm_remaining (f_gas_meter (m_frame m))), nat (int (length (cx_code cx)) - f_pc (m_frame m)))"
    arbitrary: m g rule: wf_induct_rule[OF wf_lex_prod[OF wf_less_than wf_less_than]])
  case (1 m)
  let ?step = "\<lambda>n. bindM fetch_opcode (execute_opcode hl (execute_frame hl n))"
  let ?gas = "gm_remaining (f_gas_meter (m_frame m))" and ?pc = "f_pc (m_frame m)"
  have cx: "f_context (m_frame m) = cx" and pc: "0 \<le> ?pc" and exact: "mach db_wf cx ?gas 0 m"
    using "1.prems" by (auto simp: mach_def)
  show ?case
  proof (cases "more_code (m_frame m)")
    case False
    then have "nofuel (frame_loop hl (Suc 0) m)"
      by (simp add: nofuel_def bindM_def get_frame_def getM_def retM_def)
    then show ?thesis by blast
  next
    case True
    then have loop: "frame_loop hl (Suc n) m = seqM (?step n) (frame_loop hl n) m" for n
      by (simp only: frame_loop_Suc bind_get_frame) simp
    obtain n1 where n1: "nofuel (?step n1 m)" using step_terminates[OF exact ok children] by blast
    obtain r m2 where r: "?step n1 m = (r, m2)" by (cases "?step n1 m")
    show ?thesis
    proof (cases r)
      case (Inl e)
      then have "nofuel (frame_loop hl (Suc n1) m)"
        using n1 r by (simp add: loop seqM_def bindM_def[of "?step n1"] nofuel_def del: frame_loop.simps)
      then show ?thesis by blast
    next
      case (Inr u)
      have "wf_inv.progress cx ?gas (?pc + 1) m2"
        using triD_Inr[OF wf_inv.frame_loop_step[OF wf_inv.execute_frame_ok ok, where q = ?pc and g = ?gas], of m]
          exact r Inr by blast
      then have m2: "mach db_wf cx ?gas 0 m2" and
        less: "((nat (gm_remaining (f_gas_meter (m_frame m2))), nat (int (length (cx_code cx)) - f_pc (m_frame m2))),
          nat ?gas, nat (int (length (cx_code cx)) - ?pc)) \<in> less_than <*lex*> less_than"
        using pc True cx by (auto simp: mach_def more_code_def)
      obtain n2 where n2: "nofuel (frame_loop hl n2 m2)" using "1.hyps"[OF less m2] by blast
      let ?n = "max n1 n2"
      have "?step ?n m = (Inr u, m2)" using step_stable[OF n1, of ?n] r Inr by simp
      then have "frame_loop hl (Suc ?n) m = frame_loop hl ?n m2"
        by (simp add: loop seqM_def bindM_def[of "?step ?n"] del: frame_loop.simps)
      also have "\<dots> = frame_loop hl n2 m2"
        using frame_loop_mono[of n2 ?n hl] n2 by (simp add: le_sem_def le_out_def)
      finally show ?thesis using n2 by (intro exI[of _ "Suc ?n"]) simp
    qed
  qed
qed

lemma execute_frame_terminates:
  "wf_inv.ctx_ok cx \<Longrightarrow> db_wf db \<Longrightarrow> \<exists>n. nofuel (execute_frame hl n cx db)"
proof (induction "nat (MAX_CALL_DEPTH - cx_depth cx)" arbitrary: cx db rule: less_induct)
  case less
  have "\<exists>n. nofuel (execute_frame hl n cx' db')" if "child_req cx cx' db'" for cx' db'
    using that by (intro less.hyps) (auto simp: wf_inv.child_of_def)
  then obtain n where n: "nofuel (frame_loop hl n (start_frame cx db))"
    using loop_terminates[OF less.prems(1), where g = "cx_gas cx"] wf_inv.mach_start[OF less.prems] by blast
  have "nofuel (execute_frame hl n cx db)"
    using n by (cases "frame_loop hl n (start_frame cx db)")
      (auto simp: execute_frame_def nofuel_def frame_result_def Let_def split: sum.splits evm_exn.splits)
  then show ?case by blast
qed

end
