(* ===== verification/Evm_Props.thy ===== *)
theory Evm_Props
  imports Interpreter_Term
begin

text \<open>
  What the interpreter promises to its callers: every call has an outcome, within its gas and
  without a builtin exception; failures roll back; static calls change nothing; calls neither create
  nor destroy balance; deployed code stays; arithmetic opcodes compute on 256-bit words; memory is
  an infinite zero-initialised byte array; jumps land on instruction boundaries.
\<close>

section \<open>A concrete machine\<close>

text \<open>The inputs at which the properties are applied: digest stubs, a small state, a short program.\<close>

definition demo_hashlib :: hashlib where
  "demo_hashlib = \<lparr>hl_sha256 = \<lambda>_. [], hl_ripemd160 = \<lambda>_. []\<rparr>"

definition demo_code :: bytes where
  "demo_code = [0x60, 2, 0x60, 3, 0x01, 0x00]"

definition demo_db :: statedb where
  "demo_db = [(0x10, mk_account 1 1000 [] []), (0x20, mk_account 1 5 demo_code [])]"

definition demo_context :: "bool \<Rightarrow> exec_context" where
  "demo_context static =
     \<lparr>cx_address = 0x20, cx_caller = 0x10, cx_origin = 0x10, cx_value = 0, cx_calldata = [],
      cx_code = demo_code, cx_gas = 100, cx_static = static, cx_depth = 0, cx_gas_price = 0,
      cx_chain_id = 1, cx_code_address = 0x20\<rparr>"

lemma mask_small: "0 \<le> v \<Longrightarrow> v < 2 ^ 256 \<Longrightarrow> v AND UINT256_MASK = v"
  by (simp add: mask_word_range word_range_def)

lemma demo_db_wf [simp]: "db_wf demo_db"
  by (simp add: demo_db_def db_wf_def account_wf_def mk_account_def storage_wf_def)

lemma demo_db_total [simp]: "total_balance demo_db = 1005"
  by (simp add: demo_db_def total_balance_def mk_account_def mask_small)

lemma demo_db_code: "get_code demo_db 0x20 = demo_code" "demo_code \<noteq> []"
  by (simp_all add: demo_db_def get_code_def mk_account_def demo_code_def)

section \<open>Outcomes\<close>

lemma outcome_of_fuel:
  assumes "nofuel (execute_frame hl n cx db)" "n \<le> n'"
  shows "execute_frame hl n' cx db = execute_frame hl n cx db"
  using execute_frame_mono[OF assms(2), of hl] assms(1) by (simp add: le_child_def le_out_def)

lemma execute_outcome:
  assumes "wf_inv.ctx_ok cx" "db_wf db"
  shows "\<exists>n r db'. \<forall>n' \<ge> n. execute hl n' cx db = (Inr r, db')"
proof -
  obtain n where n: "nofuel (execute_frame hl n cx db)" using execute_frame_terminates[OF assms] by blast
  have "case execute_frame hl n cx db of (Inl e, db') \<Rightarrow> e = FuelExhausted | (Inr r, db') \<Rightarrow> True"
    using wf_inv.execute_frame_ok[unfolded wf_inv.child_ok_def, rule_format, OF assms, of hl n]
    by (auto split: prod.splits sum.splits)
  then obtain r db' where r: "execute_frame hl n cx db = (Inr r, db')"
    using n by (auto simp: nofuel_def split: prod.splits sum.splits)
  have same: "execute hl n' cx db = execute hl n cx db" if "n \<le> n'" for n'
    unfolding execute_def outcome_of_fuel[OF n that] ..
  obtain r' db'' where out: "execute hl n cx db = (Inr r', db'')"
    using r by (simp add: execute_def Let_def)
  have "\<forall>n' \<ge> n. execute hl n' cx db = (Inr r', db'')"
    by (intro allI impI, rule trans[OF same out])
  then show ?thesis by (intro exI)
qed

lemma call_account_outcome:
  assumes "db_wf db" "0 \<le> v" "0 \<le> gas"
  shows "\<exists>n r db'. \<forall>n' \<ge> n. call_account hl n' snap a caller origin v calldata gas static gas_price chain_id db = (Inr r, db')"
proof -
  define cx where "cx = \<lparr>cx_address = a, cx_caller = caller,
      cx_origin = (case origin of None \<Rightarrow> caller | Some o' \<Rightarrow> o'), cx_value = v, cx_calldata = calldata,
      cx_code = get_code db a, cx_gas = gas, cx_static = static, cx_depth = 0, cx_gas_price = gas_price,
      cx_chain_id = chain_id, cx_code_address = a\<rparr>"
  have "wf_inv.ctx_ok cx" using assms by (simp add: wf_inv.ctx_ok_def cx_def)
  then obtain n r db' where ex: "\<And>n'. n \<le> n' \<Longrightarrow> execute hl n' cx db = (Inr r, db')"
    using execute_outcome[OF _ assms(1)] by blast
  show ?thesis
  proof (cases "if get_code db a = [] then precompile_get a else None")
    case None
    then have "\<forall>n' \<ge> n. call_account hl n' snap a caller origin v calldata gas static gas_price chain_id db =
        (Inr r, if \<not> r_success r then statedb_restore snap db' else db')"
      unfolding call_account_def Let_def cx_def[symmetric] None using ex by simp
    then show ?thesis by blast
  next
    case (Some pc)
    then show ?thesis unfolding call_account_def Let_def Some by (cases "gas < precompile_gas_cost pc calldata") auto
  qed
qed

lemma call_outcome:
  assumes "db_wf db" "0 \<le> v" "0 \<le> gas"
  shows "\<exists>n r db'. \<forall>n' \<ge> n. interpreter_call hl n' a caller origin v calldata gas static gas_price chain_id db = (Inr r, db')"
proof -
  obtain ok db1 where t: "(if v \<noteq> 0 then transfer caller a v db else (True, db)) = (ok, db1)"
    by (cases "if v \<noteq> 0 then transfer caller a v db else (True, db)")
  then have db1: "db_wf db1" using assms(1) db_wf_transfer[of db caller a v] by (auto split: if_splits)
  note run = call_account_outcome[OF this assms(2,3)]
  show ?thesis
  proof (cases "v \<noteq> 0 \<and> static \<or> \<not> ok")
    case True
    then show ?thesis unfolding interpreter_call_def Let_def t prod.case by (cases "v \<noteq> 0 \<and> static") auto
  next
    case False
    then have "(v \<noteq> 0 \<and> static) = False" "ok = True" by auto
    then show ?thesis unfolding interpreter_call_def Let_def t prod.case by (simp only: if_False not_True_eq_False run)
  qed
qed

lemma call_failure_restores:
  assumes "db_wf db"
    and "interpreter_call hl n a caller origin v calldata gas static gas_price chain_id db = (Inr r, db')"
    and "\<not> r_success r"
  shows "db' = db"
proof -
  have restored: "statedb_restore (statedb_snapshot db) d = db" for d
    using assms(1) by (simp add: snapshot_id restore_id)
  have run: "d' = db" if "call_account hl n (statedb_snapshot db) a caller origin v calldata gas static gas_price chain_id d
      = (Inr r, d')" for d d'
    using that assms(3)
    by (auto simp: call_account_def Let_def restored exec_result_default_def
        split: if_splits option.splits prod.splits sum.splits)
  show ?thesis
    using assms(2,3) run
    by (auto simp: interpreter_call_def Let_def restored case_prod_beta split: if_splits)
qed

section \<open>Properties\<close>

text \<open>
  C1. Every message call has an outcome. For a well-formed state, a non-negative value and gas limit
  there is an amount of fuel from which on the interpreter always ends with the same result (it
  terminates, and no builtin Python exception escapes); the gas left lies between 0 and the limit,
  the state stays well formed, and a failed call leaves the state exactly as it was.
\<close>

theorem interpreter_call_total:
  assumes "db_wf db" "0 \<le> v" "0 \<le> gas"
  shows "\<exists>n r db'. (\<forall>n' \<ge> n. interpreter_call hl n' a caller origin v calldata gas static gas_price chain_id db = (Inr r, db'))
    \<and> 0 \<le> r_gas_remaining r \<and> r_gas_remaining r \<le> gas \<and> db_wf db' \<and> (\<not> r_success r \<longrightarrow> db' = db)"
proof -
  obtain n r db' where out: "\<And>n'. n \<le> n' \<Longrightarrow>
      interpreter_call hl n' a caller origin v calldata gas static gas_price chain_id db = (Inr r, db')"
    using call_outcome[OF assms] by blast
  have "db_wf db' \<and> 0 \<le> r_gas_remaining r \<and> r_gas_remaining r \<le> gas"
    using wf_inv.interpreter_call_ok[OF assms, of static hl n a caller origin calldata gas_price chain_id] out[of n]
    by simp
  moreover have "\<not> r_success r \<longrightarrow> db' = db"
    using call_failure_restores[OF assms(1) out[of n]] by simp
  ultimately show ?thesis using out by blast
qed

theorem interpreter_call_total_witness:
  "\<exists>n r db'. (\<forall>n' \<ge> n. interpreter_call demo_hashlib n' 0x20 0x10 None 7 [] 100 False 0 1 demo_db = (Inr r, db'))
    \<and> 0 \<le> r_gas_remaining r \<and> r_gas_remaining r \<le> 100 \<and> db_wf db' \<and> (\<not> r_success r \<longrightarrow> db' = demo_db)"
  using interpreter_call_total[of demo_db 7 100 demo_hashlib "0x20" "0x10" None "[]" False 0 1] by simp

text \<open>
  C2. Conservation. Whatever code a message call runs, whatever it calls and creates in turn, the
  sum of all balances of a well-formed state is the same afterwards, provided it fits a word.
\<close>

theorem interpreter_call_conserves_supply:
  assumes "db_wf db" "total_balance db < 2 ^ 256" "0 \<le> v" "0 \<le> gas"
    and "interpreter_call hl n a caller origin v calldata gas static gas_price chain_id db = (Inr r, db')"
  shows "total_balance db' = total_balance db"
  using supply_inv.interpreter_call_ok[of "total_balance db" db v gas static hl n a caller origin calldata
      gas_price chain_id] assms
  by (simp add: supply_is_def)

theorem interpreter_call_conserves_supply_witness:
  "\<exists>n r db'. interpreter_call demo_hashlib n 0x20 0x10 None 7 [] 100 False 0 1 demo_db = (Inr r, db')
     \<and> total_balance db' = 1005"
proof -
  obtain n r db' where run: "interpreter_call demo_hashlib n 0x20 0x10 None 7 [] 100 False 0 1 demo_db = (Inr r, db')"
    using call_outcome[of demo_db 7 100 demo_hashlib "0x20" "0x10" None "[]" False 0 1] by fastforce
  have "total_balance db' = 1005"
    using interpreter_call_conserves_supply[OF _ _ _ _ run] by simp
  with run show ?thesis by blast
qed

text \<open>
  C6. Static calls are pure: a frame executed in a static context, with all frames below it, leaves
  the state database exactly as it found it, however it ends.
\<close>

theorem static_execution_pure:
  assumes "db_wf db" "cx_static cx" "0 \<le> cx_gas cx" "0 \<le> cx_value cx"
    and "execute hl n cx db = (Inr r, db')"
  shows "db' = db"
  using static_inv.execute_ok[of cx db db hl n] assms by (simp add: static_inv.ctx_ok_def frozen_def)

theorem static_execution_pure_witness:
  "\<exists>n r db'. execute demo_hashlib n (demo_context True) demo_db = (Inr r, db') \<and> db' = demo_db"
proof -
  have "wf_inv.ctx_ok (demo_context True)" by (simp add: wf_inv.ctx_ok_def demo_context_def)
  then obtain n r db' where run: "execute demo_hashlib n (demo_context True) demo_db = (Inr r, db')"
    using execute_outcome[OF _ demo_db_wf, of "demo_context True" demo_hashlib] by fastforce
  have "db' = demo_db"
    by (rule static_execution_pure[OF _ _ _ _ run]) (simp_all add: demo_context_def)
  with run show ?thesis by blast
qed

text \<open>
  C7. Deployed code is immutable: an account with code keeps exactly this code through any message
  call, contract creations at colliding addresses included.
\<close>

theorem deployed_code_immutable:
  assumes "db_wf db" "get_code db b \<noteq> []" "0 \<le> v" "0 \<le> gas"
    and "interpreter_call hl n a caller origin v calldata gas static gas_price chain_id db = (Inr r, db')"
  shows "get_code db' b = get_code db b"
  using code_inv.interpreter_call_ok[of b "get_code db b" db v gas static hl n a caller origin calldata
      gas_price chain_id] assms
  by (simp add: code_is_def)

theorem deployed_code_immutable_witness:
  "\<exists>n r db'. interpreter_call demo_hashlib n 0x20 0x10 None 7 [] 100 False 0 1 demo_db = (Inr r, db')
     \<and> get_code db' 0x20 = demo_code"
proof -
  obtain n r db' where run: "interpreter_call demo_hashlib n 0x20 0x10 None 7 [] 100 False 0 1 demo_db = (Inr r, db')"
    using call_outcome[of demo_db 7 100 demo_hashlib "0x20" "0x10" None "[]" False 0 1] by fastforce
  have "get_code db' 0x20 = demo_code"
    using deployed_code_immutable[OF _ _ _ _ run, of "0x20"] demo_db_code by simp
  with run show ?thesis by blast
qed

text \<open>A handler that replaces the two topmost words by one.\<close>

definition with_stack :: "stack \<Rightarrow> machine \<Rightarrow> machine" where
  "with_stack st = upd_frame (\<lambda>fr. fr\<lparr>f_stack := st\<rparr>)"

definition word_result :: "unit evm \<Rightarrow> u256 \<Rightarrow> u256 \<Rightarrow> u256 \<Rightarrow> bool" where
  "word_result h x y z \<longleftrightarrow>
     (\<forall>st m. length st < 1023 \<longrightarrow> h (with_stack (st @ [uint x, uint y]) m) = (Inr (), with_stack (st @ [uint z]) m))"

lemma binary_op_run:
  "length st < 1023 \<Longrightarrow> binary_op f (with_stack (st @ [a, b]) m) = (Inr (), with_stack (st @ [f a b AND UINT256_MASK]) m)"
  by (simp add: binary_op_def bindM_def pop_def push_def on_stack_def zoom_def with_stack_def upd_frame_def
      stack_pop_def stack_push_def MAX_STACK_DEPTH_def butlast_append)

lemma uint_of_mask: "v AND UINT256_MASK = uint (word_of_int v :: u256)"
  by (simp add: mask_eq uint_word_of_int)

lemma word_resultI: "word_of_int (f (uint x) (uint y)) = z \<Longrightarrow> word_result (binary_op f) x y z"
  by (simp add: word_result_def binary_op_run uint_of_mask)

text \<open>
  The two-operand opcodes compute on 256-bit words. From a stack whose two topmost values are
  the words \<open>x\<close> (below) and \<open>y\<close> (top), each handler replaces them by the word operation applied
  to \<open>x\<close> and \<open>y\<close> in this order, which for \<open>SUB\<close>, \<open>DIV\<close>, \<open>MOD\<close>, \<open>LT\<close> and \<open>GT\<close> is the reverse of the
  order of the EVM; division and remainder by zero give zero.
\<close>

lemma binary_opcodes_on_words:
  "word_result op_add x y (x + y) \<and> word_result op_mul x y (x * y) \<and> word_result op_sub x y (x - y)
   \<and> word_result op_div x y (if y = 0 then 0 else x div y) \<and> word_result op_mod x y (if y = 0 then 0 else x mod y)
   \<and> word_result op_lt x y (if x < y then 1 else 0) \<and> word_result op_gt x y (if y < x then 1 else 0)
   \<and> word_result op_eq x y (if x = y then 1 else 0)
   \<and> word_result op_and x y (x AND y) \<and> word_result op_or x y (x OR y) \<and> word_result op_xor x y (x XOR y)"
  unfolding op_add_def op_mul_def op_sub_def op_div_def op_mod_def op_lt_def op_gt_def op_eq_def op_and_def op_or_def
    op_xor_def
  by (intro conjI word_resultI)
    (auto simp: uint_0_iff word_less_def word_uint_eq_iff[of x y] word_div_def word_mod_def
      simp flip: uint_and uint_or uint_xor)

text \<open>
  C20. Memory behaves as an infinite array of zero bytes: a read of any range after a write of any bytes
  succeeds and returns the written bytes inside the written range and the old contents (zero where
  nothing was written) elsewhere.
\<close>

theorem memory_refines_byte_array:
  assumes "0 \<le> offset" "0 \<le> start" "0 \<le> sz"
  shows "\<exists>mem' mem''. memory_write offset raw mem = Inr ((), mem') \<and>
    memory_read start sz mem' =
      Inr (map (\<lambda>i. if nat offset \<le> i \<and> i < nat offset + length raw then raw ! (i - nat offset) else mem_at mem i)
             [nat start..<nat (start + sz)], mem'')"
proof -
  obtain mem' where w: "memory_write offset raw mem = Inr ((), mem')"
    using memory_write_ok[OF assms(1), of raw mem] by (auto simp: Let_def)
  obtain bs mem'' where r: "memory_read start sz mem' = Inr (bs, mem'')"
    using memory_read_ok[OF assms(2,3), of mem'] by blast
  have "bs = map (mem_at mem') [nat start..<nat (start + sz)]" by (rule memory_read_abs(1)[OF assms(2,3) r])
  then show ?thesis using w r memory_write_abs[OF assms(1) w] by simp
qed

theorem memory_refines_byte_array_witness:
  "\<exists>mem' mem''. memory_write 2 [7, 8] [] = Inr ((), mem') \<and> memory_read 1 4 mem' = Inr ([0, 7, 8, 0], mem'')"
  using memory_refines_byte_array[of 2 1 4 "[7, 8]" "[]"] by (simp add: upt_conv_Cons mem_at_def)

text \<open>
  C21. The jump table is exact: an offset is a jump destination of a code exactly when an instruction
  starts there (reading the code from its beginning and skipping push data) and this instruction is
  \<open>JUMPDEST\<close>.
\<close>

theorem jump_targets_exact:
  "d \<in> collect_jumpdest_offsets code \<longleftrightarrow>
     (\<exists>j. d = int j \<and> instr_start code 0 j \<and> j < length code \<and> uint (code ! j) = 0x5B)"
  by (simp add: collect_jumpdest_offsets_def jumpdests_from_iff)

end
