(* ===== verification/Signing.thy ===== *)
theory Signing
  imports Secp256k1
begin

text \<open>
  Deterministic signatures (\<open>crypto/secp256k1.py\<close>, \<open>_rfc6979_nonce_stream\<close> and
  \<open>sign_message_hash\<close>). The keyed hash \<open>hmac.digest(key, msg, "sha256")\<close> is a parameter of the
  model. The nonce stream never ends by itself, so the two loops are partial functions in the
  option monad: \<open>None\<close> is a run that does not return. The lemmas show that signing returns as soon as
  the stream offers a usable nonce, and what a returned signature satisfies.
\<close>

type_synonym keyed_hash = "bytes \<Rightarrow> bytes \<Rightarrow> bytes"

definition private_key_to_bytes :: "int \<Rightarrow> bytes" where
  "private_key_to_bytes private_key = be_bytes 32 private_key"

definition bits2octets :: "bytes \<Rightarrow> bytes" where
  "bits2octets message_hash = be_bytes 32 (be_int message_hash mod SECP256K1_N)"

section \<open>Nonce stream\<close>

text \<open>The state \<open>(k, v)\<close> of the generator when it enters its loop.\<close>

definition nonce_seed :: "keyed_hash \<Rightarrow> int \<Rightarrow> bytes \<Rightarrow> bytes \<times> bytes" where
  "nonce_seed hmac private_key message_hash =
     (let key_bytes = private_key_to_bytes private_key;
          hash_bs = bits2octets message_hash;
          v = replicate 32 1;
          k = replicate 32 0;
          k = hmac k (v @ [0] @ key_bytes @ hash_bs);
          v = hmac k v;
          k = hmac k (v @ [1] @ key_bytes @ hash_bs);
          v = hmac k v
      in (k, v))"

text \<open>The inner loop: extend the candidate until it has 32 bytes.\<close>

partial_function (option) nonce_candidate ::
  "keyed_hash \<Rightarrow> bytes \<Rightarrow> bytes \<Rightarrow> bytes \<Rightarrow> (bytes \<times> bytes) option" where
  "nonce_candidate hmac k v candidate =
     (if length candidate < 32
      then let v' = hmac k v in nonce_candidate hmac k v' (candidate @ v')
      else Some (candidate, v))"

definition nonce_advance :: "keyed_hash \<Rightarrow> bytes \<Rightarrow> bytes \<Rightarrow> bytes \<times> bytes" where
  "nonce_advance hmac k v = (let k' = hmac k (v @ [0]) in (k', hmac k' v))"

section \<open>Signing\<close>

text \<open>The recovery identifier and the low-\<open>s\<close> rule.\<close>

definition sign_finish :: "int \<Rightarrow> int \<Rightarrow> int \<Rightarrow> int \<Rightarrow> (py_error, signature) result" where
  "sign_finish x_coordinate y_coordinate r_value s_value =
     (let recovery_id = (if x_coordinate \<ge> SECP256K1_N then 2 else 0) OR (y_coordinate AND 1) in
      if s_value > SECP256K1_N div 2
      then mk_signature r_value (SECP256K1_N - s_value) (recovery_id XOR 1)
      else mk_signature r_value s_value recovery_id)"

text \<open>The body of the loop over the nonces: \<open>None\<close> is \<open>continue\<close>.\<close>

definition sign_attempt :: "int \<Rightarrow> int \<Rightarrow> int \<Rightarrow> (py_error, signature option) result" where
  "sign_attempt hash_int private_scalar nonce =
     bindR (scalar_mult nonce G_point) (\<lambda>p.
     case p of None \<Rightarrow> Inr None
     | Some (x_coordinate, y_coordinate) \<Rightarrow>
         let r_value = x_coordinate mod SECP256K1_N in
         if r_value = 0 then Inr None
         else bindR (mod_inverse nonce SECP256K1_N) (\<lambda>inverse.
           let s_value = (inverse * (hash_int + r_value * private_scalar)) mod SECP256K1_N in
           if s_value = 0 then Inr None
           else bindR (sign_finish x_coordinate y_coordinate r_value s_value) (\<lambda>sg. Inr (Some sg))))"

partial_function (option) sign_loop ::
  "keyed_hash \<Rightarrow> int \<Rightarrow> int \<Rightarrow> bytes \<Rightarrow> bytes \<Rightarrow> (py_error, signature) result option" where
  "sign_loop hmac hash_int private_scalar k v =
     Option.bind (nonce_candidate hmac k v []) (\<lambda>(candidate, v').
       let nonce = be_int (take 32 candidate);
           (k2, v2) = nonce_advance hmac k v'
       in if 1 \<le> nonce \<and> nonce < SECP256K1_N then
            (case sign_attempt hash_int private_scalar nonce of
               Inl e \<Rightarrow> Some (Inl e)
             | Inr (Some sg) \<Rightarrow> Some (Inr sg)
             | Inr None \<Rightarrow> sign_loop hmac hash_int private_scalar k2 v2)
          else sign_loop hmac hash_int private_scalar k2 v2)"

definition sign_message_hash :: "keyed_hash \<Rightarrow> bytes \<Rightarrow> int \<Rightarrow> (py_error, signature) result option" where
  "sign_message_hash hmac message_hash private_key =
     (case normalize_message_hash message_hash of
        Inl e \<Rightarrow> Some (Inl e)
      | Inr (hash_bs, hash_int) \<Rightarrow>
          (case normalize_private_key_int private_key of
             Inl e \<Rightarrow> Some (Inl e)
           | Inr private_scalar \<Rightarrow>
               let (k, v) = nonce_seed hmac private_scalar hash_bs
               in sign_loop hmac hash_int private_scalar k v))"

section \<open>What a signature satisfies\<close>

text \<open>The equation of ECDSA, up to the sign that the low-\<open>s\<close> rule chooses.\<close>

definition sign_equation :: "int \<Rightarrow> int \<Rightarrow> int \<Rightarrow> signature \<Rightarrow> bool" where
  "sign_equation hash_int d nonce sg \<longleftrightarrow>
     (sig_s sg * nonce - (hash_int + sig_r sg * d)) mod SECP256K1_N = 0
     \<or> (sig_s sg * nonce + (hash_int + sig_r sg * d)) mod SECP256K1_N = 0"

lemma inverse_cancel:
  assumes "mod_inverse nonce SECP256K1_N = Inr i"
  shows "((i * a) mod SECP256K1_N * nonce - a) mod SECP256K1_N = 0"
proof -
  have ni: "(nonce * i) mod SECP256K1_N = 1" by (rule mod_inverse_mult(1)[OF N_gt_1(1) assms])
  have "((i * a) mod SECP256K1_N * nonce) mod SECP256K1_N = (i * a * nonce) mod SECP256K1_N"
    by (rule mod_mult_left_eq)
  also have "i * a * nonce = nonce * i * a" by (simp add: ac_simps)
  also have "(nonce * i * a) mod SECP256K1_N = ((nonce * i) mod SECP256K1_N * a) mod SECP256K1_N"
    by (rule mod_mult_left_eq[symmetric])
  finally have "((i * a) mod SECP256K1_N * nonce) mod SECP256K1_N = a mod SECP256K1_N" by (simp add: ni)
  then show ?thesis by (simp add: mod_eq_dvd_iff dvd_eq_mod_eq_0[symmetric])
qed

lemma mk_signature_fields:
  "mk_signature r s rid = Inr sg \<Longrightarrow> signature_wf sg \<and> sig_r sg = r \<and> sig_s sg = s"
  by (auto simp: mk_signature_def signature_wf_def split: if_splits)

lemma sign_finish_sound:
  assumes "sign_finish x y r s = Inr sg"
  shows "signature_wf sg" "sig_s sg \<le> SECP256K1_HALF_N" "sig_r sg = r"
    "sig_s sg = s \<or> sig_s sg = SECP256K1_N - s"
proof -
  have low: "SECP256K1_N - u \<le> SECP256K1_HALF_N" if "u > SECP256K1_N div 2" for u
    using that unfolding SECP256K1_HALF_N_def by linarith
  show "signature_wf sg" "sig_s sg \<le> SECP256K1_HALF_N" "sig_r sg = r"
    "sig_s sg = s \<or> sig_s sg = SECP256K1_N - s"
    using assms low[of s]
    by (auto simp: sign_finish_def Let_def SECP256K1_HALF_N_def dest!: mk_signature_fields split: if_splits)
qed

lemma sign_attempt_Some:
  assumes "sign_attempt hash_int d nonce = Inr (Some sg)"
  obtains x y i where "mod_inverse nonce SECP256K1_N = Inr i"
    "sign_finish x y (x mod SECP256K1_N) ((i * (hash_int + x mod SECP256K1_N * d)) mod SECP256K1_N) = Inr sg"
proof -
  obtain p where p: "scalar_mult nonce G_point = Inr p" using assms by (auto simp: sign_attempt_def)
  obtain x y where xy: "p = Some (x, y)" using assms p by (cases p) (auto simp: sign_attempt_def)
  show thesis
    using assms p xy by (auto simp: sign_attempt_def Let_def split: if_splits intro: that)
qed

lemma sign_attempt_sound:
  assumes "sign_attempt hash_int d nonce = Inr (Some sg)"
  shows "signature_wf sg" "sig_s sg \<le> SECP256K1_HALF_N" "sign_equation hash_int d nonce sg"
proof -
  from assms obtain x y i where inv: "mod_inverse nonce SECP256K1_N = Inr i"
    and fin: "sign_finish x y (x mod SECP256K1_N) ((i * (hash_int + x mod SECP256K1_N * d)) mod SECP256K1_N) = Inr sg"
    by (rule sign_attempt_Some)
  note sound = sign_finish_sound[OF fin]
  let ?a = "hash_int + sig_r sg * d"
  have eq: "((i * ?a) mod SECP256K1_N * nonce - ?a) mod SECP256K1_N = 0" by (rule inverse_cancel[OF inv])
  let ?u = "(i * ?a) mod SECP256K1_N * nonce - ?a"
  have "(SECP256K1_N - (i * ?a) mod SECP256K1_N) * nonce + ?a = SECP256K1_N * nonce - ?u"
    by (simp add: algebra_simps)
  moreover have "SECP256K1_N dvd ?u" using eq by (simp add: dvd_eq_mod_eq_0)
  ultimately have neg: "((SECP256K1_N - (i * ?a) mod SECP256K1_N) * nonce + ?a) mod SECP256K1_N = 0"
    by (metis dvd_diff dvd_triv_left dvd_eq_mod_eq_0)
  show "signature_wf sg" "sig_s sg \<le> SECP256K1_HALF_N" by (fact sound)+
  show "sign_equation hash_int d nonce sg"
    using sound(4) eq neg unfolding sign_equation_def sound(3)[symmetric] by metis
qed

section \<open>The signing loop\<close>

lemma sign_loop_sound_aux:
  "sign_loop hmac z d k v = Some y \<Longrightarrow> y = Inr sg \<longrightarrow>
     (\<exists>nonce. 1 \<le> nonce \<and> nonce < SECP256K1_N \<and> sign_attempt z d nonce = Inr (Some sg))"
proof (rule sign_loop.raw_induct[where P = "\<lambda>hmac z d k v y. y = Inr sg \<longrightarrow>
     (\<exists>nonce. 1 \<le> nonce \<and> nonce < SECP256K1_N \<and> sign_attempt z d nonce = Inr (Some sg))"], goal_cases)
  case (1 loop hmac z d k v y)
  from 1(3) obtain c v' where c: "nonce_candidate hmac k v [] = Some (c, v')" by (auto split: bind_splits)
  show ?case
    using 1(3) c by (auto simp: Let_def split: if_splits sum.splits option.splits prod.splits dest!: 1(2))
qed

lemma sign_loop_sound:
  "sign_loop hmac z d k v = Some (Inr sg) \<Longrightarrow>
     \<exists>nonce. 1 \<le> nonce \<and> nonce < SECP256K1_N \<and> sign_attempt z d nonce = Inr (Some sg)"
  using sign_loop_sound_aux by blast

text \<open>
  For a keyed hash with digests of 32 bytes the inner loop runs once. \<open>nonce_nth\<close> is the \<open>n\<close>-th value
  the generator considers, and \<open>usable\<close> says that the signing loop stops at it.
\<close>

fun nonce_nth :: "keyed_hash \<Rightarrow> bytes \<Rightarrow> bytes \<Rightarrow> nat \<Rightarrow> int" where
  "nonce_nth hmac k v 0 = be_int (hmac k v)"
| "nonce_nth hmac k v (Suc n) = (let (k', v') = nonce_advance hmac k (hmac k v) in nonce_nth hmac k' v' n)"

definition usable :: "int \<Rightarrow> int \<Rightarrow> int \<Rightarrow> bool" where
  "usable z d nonce \<longleftrightarrow> 1 \<le> nonce \<and> nonce < SECP256K1_N \<and> sign_attempt z d nonce \<noteq> Inr None"

lemma nonce_candidate_once:
  "(\<And>k m. length (hmac k m) = 32) \<Longrightarrow> nonce_candidate hmac k v [] = Some (hmac k v, hmac k v)"
  by (subst nonce_candidate.simps, simp add: Let_def, subst nonce_candidate.simps, simp)

lemma sign_loop_returns:
  assumes "\<And>k m. length (hmac k m) = 32" "usable z d (nonce_nth hmac k v n)"
  shows "\<exists>y. sign_loop hmac z d k v = Some y"
  using assms(2)
proof (induction n arbitrary: k v)
  case 0
  then show ?case
    by (subst sign_loop.simps)
      (auto simp: nonce_candidate_once[OF assms(1)] assms(1) usable_def Let_def split: sum.splits option.splits prod.splits)
next
  case (Suc n)
  obtain k' v' where adv: "nonce_advance hmac k (hmac k v) = (k', v')" by (cases "nonce_advance hmac k (hmac k v)") auto
  then obtain y where "sign_loop hmac z d k' v' = Some y" using Suc.IH[of k' v'] Suc.prems by auto
  then show ?case
    by (subst sign_loop.simps)
      (auto simp: nonce_candidate_once[OF assms(1)] assms(1) adv Let_def split: sum.splits option.splits)
qed

lemma sign_message_hash_sound:
  assumes "sign_message_hash hmac h key = Some (Inr sg)"
  shows "signature_wf sg \<and> sig_s sg \<le> SECP256K1_HALF_N \<and> length h = 32 \<and> 1 \<le> key \<and> key < SECP256K1_N
    \<and> (\<exists>nonce. 1 \<le> nonce \<and> nonce < SECP256K1_N \<and> sign_equation (be_int h) key nonce sg)"
proof -
  have h: "length h = 32" "1 \<le> key" "key < SECP256K1_N"
    and loop: "\<exists>k v. sign_loop hmac (be_int h) key k v = Some (Inr sg)"
    using assms by (auto simp: sign_message_hash_def normalize_message_hash_def normalize_private_key_int_def
        split: if_splits prod.splits)
  then show ?thesis using sign_loop_sound sign_attempt_sound by metis
qed

lemma sign_message_hash_returns:
  assumes "\<And>k m. length (hmac k m) = 32"
    and "usable (be_int h) key (nonce_nth hmac (fst (nonce_seed hmac key h)) (snd (nonce_seed hmac key h)) n)"
  shows "\<exists>y. sign_message_hash hmac h key = Some y"
  using sign_loop_returns[OF assms]
  by (auto simp: sign_message_hash_def normalize_message_hash_def normalize_private_key_int_def split: prod.splits)

section \<open>A worked example\<close>

text \<open>
  A keyed hash whose stream offers the nonces 1 and 2. With the private key 1 at least one of them gives
  a signature of every hash, whatever the hash is: if \<open>s\<close> vanishes for the first, it does not for the second.
\<close>

lemma mod_inverse_eqI:
  assumes "1 < m" "(v * i) mod m = 1" "0 \<le> i" "i < m"
  shows "mod_inverse v m = Inr i"
proof -
  have m: "(1::int) mod m = 1" using assms(1) by simp
  have "coprime (v * i) m"
    using assms(2) by (metis coprime_1_left coprime_mod_left_iff assms(1) not_one_less_zero)
  then have "coprime v m" by simp
  then have "gcd (v mod m) m = 1" using assms(1) by (simp add: coprime_mod_left_iff coprime_iff_gcd_eq_1[symmetric])
  then obtain j where j: "mod_inverse v m = Inr j" by (auto simp: mod_inverse_def Let_def)
  note props = mod_inverse_mult[OF assms(1) j]
  have "j mod m = (j * ((v * i) mod m)) mod m" by (simp add: assms(2))
  also have "\<dots> = (i * ((v * j) mod m)) mod m" by (simp add: mod_mult_right_eq mult.commute mult.left_commute)
  also have "\<dots> = i mod m" by (simp add: props(1))
  finally show ?thesis using props assms j by simp
qed
definition demo_hmac :: keyed_hash where
  "demo_hmac k m = be_bytes 32 (if length m = 33 \<or> k = be_bytes 32 2 then 2 else 1)"

definition G2x :: int where "G2x = 0xC6047F9441ED7D6D3045406E95C07CD85C778E4B8CEF3CA7ABAC09B95C709EE5"
definition G2y :: int where "G2y = 0x1AE168FEA63DC339A3C58419466CEAEEF7F632653266D0E1236431A950CFE52A"
definition G4x :: int where "G4x = 0xE493DBF1C10D80F3581E4904930B1404CC6C13900EE0758474FA94ABE8C4CD13"
definition G4y :: int where "G4y = 0x51ED993EA0D455B75642E2098EA51448D967AE33BFBDFE40CFE97BDC47739922"

lemma point_double:
  assumes "y \<noteq> 0" "(y + y) mod SECP256K1_P \<noteq> 0" "mod_inverse (2 * y) SECP256K1_P = Inr i"
    and "(3 * x * x * i) mod SECP256K1_P = m"
    and "(m * m - x - x) mod SECP256K1_P = u" "(m * (x - u) - y) mod SECP256K1_P = w"
  shows "point_add (Some (x, y)) (Some (x, y)) = Inr (Some (u, w))"
proof -
  have "m * m - x - x = m * m - 2 * x" by simp
  with assms(5) have u: "(m * m - 2 * x) mod SECP256K1_P = u" by simp
  show ?thesis using assms(1,2,3) by (simp add: Let_def assms(4,6) u)
qed

lemma mod_by_quot: "a = m * q + r \<Longrightarrow> 0 \<le> r \<Longrightarrow> r < m \<Longrightarrow> a mod m = (r :: int)"
  by simp

lemma double_G: "point_add G_point G_point = Inr (Some (G2x, G2y))"
proof -
  have nz: "GY \<noteq> 0" "(GY + GY) mod SECP256K1_P \<noteq> 0" by (simp_all add: GY_def SECP256K1_P_def)
  have inv: "mod_inverse (2 * GY) SECP256K1_P = Inr 0xB7E31A064ED74D314DE79011C5F0A46AC155602353DC3D340FBEAEEC9767A6A6"
    by (rule mod_inverse_eqI, simp, rule mod_by_quot[where q = "0x67C44B654C2C763114CFD32A47C1FB6C755CEC58BB467CAB5D8470DD8293D891"]) (simp_all add: GX_def GY_def G2x_def G2y_def G4x_def G4y_def SECP256K1_P_def)
  have "(3 * GX * GX * 0xB7E31A064ED74D314DE79011C5F0A46AC155602353DC3D340FBEAEEC9767A6A6) mod SECP256K1_P = 0xCB35B28428101A303EB9D1235992AC63F58857C2F631EE6936D3AEBBEDDCD1B1"
    by (rule mod_by_quot[where q = "0x7CC3574ADF0A27CDD76ABD64D1C85301A8755ED144EF0103EC1563183BF332FB0CFD8C7C5F7EEFE66371C5DC3337F4604BC29379673C022C491039F657337F61"]) (simp_all add: GX_def GY_def G2x_def G2y_def G4x_def G4y_def SECP256K1_P_def)
  moreover have "(0xCB35B28428101A303EB9D1235992AC63F58857C2F631EE6936D3AEBBEDDCD1B1 * 0xCB35B28428101A303EB9D1235992AC63F58857C2F631EE6936D3AEBBEDDCD1B1 - GX - GX) mod SECP256K1_P = G2x"
    by (rule mod_by_quot[where q = "0xA14E3460FEBE2C2316BFCCCC1B764790C3B7D9FF92663EA740240F16B583E774"]) (simp_all add: GX_def GY_def G2x_def G2y_def G4x_def G4y_def SECP256K1_P_def)
  moreover have "(0xCB35B28428101A303EB9D1235992AC63F58857C2F631EE6936D3AEBBEDDCD1B1 * (GX - G2x) - GY) mod SECP256K1_P = G2y"
    by (rule mod_by_quot[where q = "- 0x3C8B95972F12B04B3CA25330B2BD449E8E938229D1FD14F76CAE42249CE0DC11"]) (simp_all add: GX_def GY_def G2x_def G2y_def G4x_def G4y_def SECP256K1_P_def)
  ultimately show ?thesis
    unfolding G_point_def by (rule point_double[OF nz inv])
qed

lemma double_2G: "point_add (Some (G2x, G2y)) (Some (G2x, G2y)) = Inr (Some (G4x, G4y))"
proof -
  have nz: "G2y \<noteq> 0" "(G2y + G2y) mod SECP256K1_P \<noteq> 0" by (simp_all add: G2y_def SECP256K1_P_def)
  have inv: "mod_inverse (2 * G2y) SECP256K1_P = Inr 0xCF3CF3942EE431A7AFFA84A6D5E2FFAA2ED9A10974617A4D8A2B9F1AF744363D"
    by (rule mod_inverse_eqI, simp, rule mod_by_quot[where q = "0x2B85549C140392603C7AE97AD5E804B9C6189757692EB045687106E13D0CD26D"]) (simp_all add: GX_def GY_def G2x_def G2y_def G4x_def G4y_def SECP256K1_P_def)
  have "(3 * G2x * G2x * 0xCF3CF3942EE431A7AFFA84A6D5E2FFAA2ED9A10974617A4D8A2B9F1AF744363D) mod SECP256K1_P = 0x6AD2CB95963C033328D4857D4F8711DEFF557DD9FAAA673B400442833F0EFB64"
    by (rule mod_by_quot[where q = "0x173FA9CC4AC3F2F0585EEEFD23D0A84283D4AF9067FD88F8D9889394505CCB6F19F1AF31BFE894AF74A157F1054285D2BC0F23E7BE77508F670ED53AA0A7CBC35"]) (simp_all add: GX_def GY_def G2x_def G2y_def G4x_def G4y_def SECP256K1_P_def)
  moreover have "(0x6AD2CB95963C033328D4857D4F8711DEFF557DD9FAAA673B400442833F0EFB64 * 0x6AD2CB95963C033328D4857D4F8711DEFF557DD9FAAA673B400442833F0EFB64 - G2x - G2x) mod SECP256K1_P = G4x"
    by (rule mod_by_quot[where q = "0x2C933E2A83BAC0C704D83956CE68E1A07920F532E04E27FF098C8C712D51733D"]) (simp_all add: GX_def GY_def G2x_def G2y_def G4x_def G4y_def SECP256K1_P_def)
  moreover have "(0x6AD2CB95963C033328D4857D4F8711DEFF557DD9FAAA673B400442833F0EFB64 * (G2x - G4x) - G2y) mod SECP256K1_P = G4y"
    by (rule mod_by_quot[where q = "- 0xCC0862604F39A0C08E4CE0B1D06B205A54268B6C11E626473E3A3A21A84DCFC"]) (simp_all add: GX_def GY_def G2x_def G2y_def G4x_def G4y_def SECP256K1_P_def)
  ultimately show ?thesis
    by (rule point_double[OF nz inv])
qed

lemma scalar_mult_1: "scalar_mult 1 G_point = Inr G_point"
  by (simp add: scalar_mult_def scalar_loop.simps double_G)

lemma scalar_mult_2: "scalar_mult 2 G_point = Inr (Some (G2x, G2y))"
  by (simp add: scalar_mult_def scalar_loop.simps double_G double_2G SECP256K1_N_def del: point_add.simps(3))
    (simp add: G_point_def)

text \<open>A nonce whose point has the abscissa \<open>x < N\<close> is refused only when \<open>s\<close> is zero.\<close>

lemma sign_attempt_demo:
  assumes "scalar_mult nonce G_point = Inr (Some (x, y))" "mod_inverse nonce SECP256K1_N = Inr i"
    and "0 < x" "x < SECP256K1_N" "(i * (z + x)) mod SECP256K1_N \<noteq> 0"
  shows "\<exists>sg. sign_attempt z 1 nonce = Inr (Some sg) \<and> sig_recovery_id sg < 2"
proof -
  let ?s = "(i * (z + x)) mod SECP256K1_N"
  have s: "0 < ?s" "?s < SECP256K1_N" using assms(5) pos_mod_sign[OF N_gt_1(2)] pos_mod_bound[OF N_gt_1(2)]
    by (simp_all add: order_less_le)
  have s': "1 \<le> SECP256K1_N - ?s" using s by linarith
  have rid: "y AND 1 = 0 \<or> y AND 1 = 1" by (simp add: and_one_eq mod_2_eq_odd)
  have "\<exists>sg. sign_finish x y x ?s = Inr sg \<and> sig_recovery_id sg < 2"
    using s s' rid assms(3,4) by (auto simp: sign_finish_def mk_signature_def Let_def)
  then show ?thesis
    using assms by (auto simp: sign_attempt_def Let_def mod_pos_pos_trivial)
qed

lemma demo_hmac_length: "length (demo_hmac k m) = 32"
  by (simp add: demo_hmac_def del: be_bytes.simps)

lemma be_bytes_1_2: "be_bytes 32 2 \<noteq> be_bytes 32 1" "be_int (be_bytes 32 1) = 1" "be_int (be_bytes 32 2) = 2"
proof -
  show 1: "be_int (be_bytes 32 1) = 1" "be_int (be_bytes 32 2) = 2"
    by (simp_all add: be_int_be_bytes del: be_bytes.simps)
  then show "be_bytes 32 2 \<noteq> be_bytes 32 1" by auto
qed

lemma demo_seed: "length h = 32 \<Longrightarrow> nonce_seed demo_hmac 1 h = (be_bytes 32 1, be_bytes 32 1)"
proof -
  have "be_int (replicate 32 0) = 0" by (simp add: be_int_def eval_nat_numeral)
  then have "replicate 32 0 \<noteq> be_bytes 32 2" using be_bytes_1_2(3) by (metis zero_neq_numeral)
  moreover have "be_bytes 32 v \<noteq> []" for v by (simp del: be_bytes.simps flip: length_0_conv)
  ultimately show ?thesis
    using be_bytes_1_2(1)
    by (simp add: nonce_seed_def demo_hmac_def private_key_to_bytes_def bits2octets_def Let_def del: be_bytes.simps)
qed

lemma demo_nonces:
  "nonce_nth demo_hmac (be_bytes 32 1) (be_bytes 32 1) 0 = 1"
  "nonce_nth demo_hmac (be_bytes 32 1) (be_bytes 32 1) 1 = 2"
  using be_bytes_1_2
  by (simp_all add: nonce_advance_def demo_hmac_def Let_def del: be_bytes.simps)

lemma demo_attempts:
  "(\<exists>sg. sign_attempt z 1 1 = Inr (Some sg) \<and> sig_recovery_id sg < 2)
   \<or> sign_attempt z 1 1 = Inr None \<and> (\<exists>sg. sign_attempt z 1 2 = Inr (Some sg) \<and> sig_recovery_id sg < 2)"
proof -
  define h2 :: int where "h2 = (SECP256K1_N + 1) div 2"
  have inv1: "mod_inverse 1 SECP256K1_N = Inr 1" by (rule mod_inverse_eqI) (simp_all add: SECP256K1_N_def)
  have inv2: "mod_inverse 2 SECP256K1_N = Inr h2" by (rule mod_inverse_eqI) (simp_all add: h2_def SECP256K1_N_def)
  have gx: "0 < GX" "GX < SECP256K1_N" "0 < G2x" "G2x < SECP256K1_N" "(GX - G2x) mod SECP256K1_N \<noteq> 0"
    by (simp_all add: GX_def G2x_def SECP256K1_N_def)
  have m1: "scalar_mult 1 G_point = Inr (Some (GX, GY))" using scalar_mult_1 by (simp add: G_point_def)
  show ?thesis
  proof (cases "(1 * (z + GX)) mod SECP256K1_N = 0")
    case False
    from sign_attempt_demo[OF m1 inv1 gx(1,2) this] show ?thesis by blast
  next
    case True
    then have none: "sign_attempt z 1 1 = Inr None"
      using m1 inv1 gx by (simp add: sign_attempt_def Let_def mod_pos_pos_trivial)
    have "(h2 * (z + G2x)) mod SECP256K1_N \<noteq> 0"
    proof
      assume "(h2 * (z + G2x)) mod SECP256K1_N = 0"
      then have "SECP256K1_N dvd 2 * (h2 * (z + G2x))" by (simp add: dvd_eq_mod_eq_0[symmetric])
      moreover have "2 * (h2 * (z + G2x)) = (z + G2x) + SECP256K1_N * (z + G2x)"
        by (simp add: h2_def SECP256K1_N_def algebra_simps)
      ultimately have "SECP256K1_N dvd z + G2x" by (metis dvd_add_left_iff dvd_triv_left)
      moreover have "SECP256K1_N dvd z + GX" using True by (simp add: dvd_eq_mod_eq_0)
      ultimately have "SECP256K1_N dvd GX - G2x" by (metis add_diff_cancel_left dvd_diff)
      with gx(5) show False by (simp add: dvd_eq_mod_eq_0)
    qed
    from sign_attempt_demo[OF scalar_mult_2 inv2 gx(3,4) this] none show ?thesis by blast
  qed
qed

lemma demo_signs:
  assumes "length h = 32"
  shows "\<exists>sg. sign_message_hash demo_hmac h 1 = Some (Inr sg) \<and> sig_recovery_id sg < 2"
proof -
  let ?b = "be_bytes 32 1" and ?c = "be_bytes 32 2"
  note once = nonce_candidate_once[OF demo_hmac_length]
  have N: "(1::int) < SECP256K1_N" "(2::int) < SECP256K1_N" by (simp_all add: SECP256K1_N_def)
  have hm: "demo_hmac ?b ?b = ?b" "demo_hmac ?c m = ?c" "nonce_advance demo_hmac ?b ?b = (?c, ?c)" for m
    using be_bytes_1_2 by (simp_all add: demo_hmac_def nonce_advance_def Let_def del: be_bytes.simps)
  have loop1: "sign_loop demo_hmac z 1 ?b ?b = (case sign_attempt z 1 1 of
      Inl e \<Rightarrow> Some (Inl e) | Inr (Some sg) \<Rightarrow> Some (Inr sg) | Inr None \<Rightarrow> sign_loop demo_hmac z 1 ?c ?c)" for z
    by (subst sign_loop.simps) (simp add: once hm Let_def be_bytes_1_2 N del: be_bytes.simps)
  have loop2: "sign_attempt z 1 2 = Inr (Some sg) \<Longrightarrow> sign_loop demo_hmac z 1 ?c ?c = Some (Inr sg)" for z sg
    by (subst sign_loop.simps) (simp add: once hm Let_def be_bytes_1_2 N del: be_bytes.simps split: prod.splits)
  have run: "sign_message_hash demo_hmac h 1 = sign_loop demo_hmac (be_int h) 1 ?b ?b"
    using assms N demo_seed[OF assms]
    by (simp add: sign_message_hash_def normalize_message_hash_def normalize_private_key_int_def del: be_bytes.simps)
  show ?thesis
    using demo_attempts[of "be_int h"] loop2 unfolding run loop1 by (auto simp del: be_bytes.simps)
qed

section \<open>Which nonce is used, and the signature it gives\<close>

text \<open>
  What the standard asks of a signature with the nonce \<open>k\<close>, stated without the code: \<open>(x, y)\<close> is the
  point of the nonce, \<open>r\<close> its abscissa modulo \<open>N\<close>; \<open>s\<close> is low and solves the equation, or its
  negation does; the recovery identifier holds the overflow of \<open>x\<close> and the parity of \<open>y\<close>, and the
  parity is turned over exactly with the sign of \<open>s\<close>. A nonce is refused when it is out of range or
  would give a zero.
\<close>

definition ecdsa_signature :: "int \<Rightarrow> int \<Rightarrow> int \<Rightarrow> int \<Rightarrow> int \<Rightarrow> signature \<Rightarrow> bool" where
  "ecdsa_signature z d nonce x y sg \<longleftrightarrow>
     1 \<le> sig_r sg \<and> sig_r sg < SECP256K1_N \<and> 1 \<le> sig_s sg \<and> 2 * sig_s sg < SECP256K1_N
     \<and> sig_r sg = x mod SECP256K1_N
     \<and> ((sig_s sg * nonce) mod SECP256K1_N = (z + sig_r sg * d) mod SECP256K1_N
          \<and> sig_recovery_id sg = (if x \<ge> SECP256K1_N then 2 else 0) + y mod 2
        \<or> (sig_s sg * nonce) mod SECP256K1_N = (- (z + sig_r sg * d)) mod SECP256K1_N
          \<and> sig_recovery_id sg = (if x \<ge> SECP256K1_N then 2 else 0) + (1 - y mod 2))"

definition refused_nonce :: "int \<Rightarrow> int \<Rightarrow> int \<Rightarrow> bool" where
  "refused_nonce z d nonce \<longleftrightarrow> \<not> (1 \<le> nonce \<and> nonce < SECP256K1_N)
     \<or> (case scalar_mult nonce G_point of Inl e \<Rightarrow> False | Inr None \<Rightarrow> True
        | Inr (Some (x, y)) \<Rightarrow> x mod SECP256K1_N = 0 \<or> (z + x mod SECP256K1_N * d) mod SECP256K1_N = 0)"

definition rfc6979_nonce :: "keyed_hash \<Rightarrow> int \<Rightarrow> bytes \<Rightarrow> nat \<Rightarrow> int" where
  "rfc6979_nonce hmac key h n = (let (k, v) = nonce_seed hmac key h in nonce_nth hmac k v n)"

lemma recovery_bits:
  fixes y :: int
  shows "(if b then 2 else 0) OR (y AND 1) = (if b then 2 else 0) + y mod 2"
    "((if b then 2 else 0) + y mod 2) XOR 1 = (if b then 2 else 0) + (1 - y mod 2)"
proof -
  have "y mod 2 = 0 \<or> y mod 2 = 1" by presburger
  then show "(if b then 2 else 0) OR (y AND 1) = (if b then 2 else 0) + y mod 2"
    "((if b then 2 else 0) + y mod 2) XOR 1 = (if b then 2 else 0) + (1 - y mod 2)"
    by (auto simp: and_one_eq)
qed

lemma sign_attempt_None:
  assumes "1 \<le> nonce" "nonce < SECP256K1_N" "sign_attempt z d nonce = Inr None"
  shows "refused_nonce z d nonce"
proof -
  obtain p where p: "scalar_mult nonce G_point = Inr p" using assms(3) by (auto simp: sign_attempt_def)
  show ?thesis
  proof (cases p)
    case (Some q)
    then obtain x y where xy: "scalar_mult nonce G_point = Inr (Some (x, y))" using p by (cases q) simp
    show ?thesis
    proof (cases "x mod SECP256K1_N = 0")
      case False
      let ?a = "z + x mod SECP256K1_N * d"
      obtain i where i: "mod_inverse nonce SECP256K1_N = Inr i" and s: "(i * ?a) mod SECP256K1_N = 0"
        using assms(3) xy False by (auto simp: sign_attempt_def Let_def split: if_splits)
      have "SECP256K1_N dvd 0 * nonce - ?a" using inverse_cancel[OF i, of ?a] unfolding s by (rule mod_0_imp_dvd)
      then have "SECP256K1_N dvd ?a" by (metis dvd_minus_iff diff_0 mult_zero_left)
      then show ?thesis using xy by (simp add: refused_nonce_def mod_eq_0_iff_dvd)
    qed (use xy in \<open>simp add: refused_nonce_def\<close>)
  qed (use p in \<open>simp add: refused_nonce_def\<close>)
qed

lemma sign_attempt_Inl:
  assumes "sign_attempt z d nonce = Inl e"
  shows "scalar_mult nonce G_point = Inl e \<or> mod_inverse nonce SECP256K1_N = Inl e"
proof -
  have low: "1 \<le> SECP256K1_N - u" "SECP256K1_N - u < SECP256K1_N" if "0 < u" "u < SECP256K1_N" for u
    using that by linarith+
  have range: "0 \<le> u mod SECP256K1_N" "u mod SECP256K1_N < SECP256K1_N" for u by (simp_all add: SECP256K1_N_def)
  have bit: "0 \<le> y mod 2" "y mod 2 \<le> 1" for y :: int by simp_all
  have fin: "sign_finish x y (u mod SECP256K1_N) (w mod SECP256K1_N) \<noteq> Inl e"
    if "u mod SECP256K1_N \<noteq> 0" "w mod SECP256K1_N \<noteq> 0" for x y u w
  proof -
    have r: "1 \<le> u mod SECP256K1_N" "1 \<le> w mod SECP256K1_N" using that range[of u] range[of w] by linarith+
    moreover have "1 \<le> SECP256K1_N - w mod SECP256K1_N" "SECP256K1_N - w mod SECP256K1_N < SECP256K1_N"
      using low[of "w mod SECP256K1_N"] r(2) range(2)[of w] by linarith+
    moreover have "0 \<le> (if b then 2 else 0) + y mod 2" "(if b then 2 else 0) + y mod 2 < 4"
      "0 \<le> (if b then 2 else 0) + (1 - y mod 2)" "(if b then 2 else 0) + (1 - y mod 2) < 4" for b
      using bit[of y] by (auto split: if_splits)
    ultimately show ?thesis
      using range(2)[of u] range(2)[of w] unfolding sign_finish_def Let_def recovery_bits mk_signature_def
      by (simp only: if_True if_False simp_thms sum.simps split: if_split)
  qed
  show ?thesis
    using assms fin by (cases "scalar_mult nonce G_point"; cases "mod_inverse nonce SECP256K1_N")
      (auto simp: sign_attempt_def Let_def bindR_def split: sum.splits option.splits if_splits)
qed

lemma low_half: "half < u \<Longrightarrow> n = 2 * half + 1 \<Longrightarrow> 2 * (n - u) < (n :: int)"
  by presburger

lemma sign_attempt_signature:
  assumes "sign_attempt z d nonce = Inr (Some sg)"
  obtains x y where "scalar_mult nonce G_point = Inr (Some (x, y))" "ecdsa_signature z d nonce x y sg"
proof -
  obtain x y where xy: "scalar_mult nonce G_point = Inr (Some (x, y))"
    using assms by (auto simp: sign_attempt_def split: sum.splits option.splits)
  let ?a = "z + x mod SECP256K1_N * d"
  obtain i where i: "mod_inverse nonce SECP256K1_N = Inr i"
    and fin: "sign_finish x y (x mod SECP256K1_N) ((i * ?a) mod SECP256K1_N) = Inr sg"
    using assms xy by (auto simp: sign_attempt_def Let_def split: if_splits)
  define u where "u = (i * ?a) mod SECP256K1_N"
  have dv: "SECP256K1_N dvd u * nonce - ?a" using inverse_cancel[OF i, of ?a] by (simp add: u_def mod_eq_0_iff_dvd)
  have "(SECP256K1_N - u) * nonce - (- ?a) = SECP256K1_N * nonce - (u * nonce - ?a)" by (simp add: algebra_simps)
  with dv have dv': "SECP256K1_N dvd (SECP256K1_N - u) * nonce - (- ?a)" by (metis dvd_diff dvd_triv_left)
  define half where "half = SECP256K1_N div 2"
  have odd: "SECP256K1_N = 2 * half + 1" by (simp add: half_def SECP256K1_N_def)
  have "ecdsa_signature z d nonce x y sg"
  proof (cases "u > half")
    case True
    then have "2 * (SECP256K1_N - u) < SECP256K1_N" by (rule low_half[OF _ odd])
    with True fin dv' show ?thesis
      by (auto simp: ecdsa_signature_def sign_finish_def mk_signature_def u_def[symmetric] half_def[symmetric] Let_def recovery_bits
          mod_eq_dvd_iff split: if_splits)
  next
    case False
    then have "2 * u < SECP256K1_N" using odd by linarith
    with False fin dv show ?thesis
      by (auto simp: ecdsa_signature_def sign_finish_def mk_signature_def u_def[symmetric] half_def[symmetric] Let_def recovery_bits
          mod_eq_dvd_iff split: if_splits)
  qed
  with xy show thesis by (rule that)
qed

lemma sign_loop_first:
  assumes "\<And>k m. length (hmac k m) = 32" "\<not> refused_nonce z d (nonce_nth hmac k v n)"
  shows "\<exists>i \<le> n. (\<forall>j < i. refused_nonce z d (nonce_nth hmac k v j))
    \<and> 1 \<le> nonce_nth hmac k v i \<and> nonce_nth hmac k v i < SECP256K1_N
    \<and> ((\<exists>e. sign_attempt z d (nonce_nth hmac k v i) = Inl e \<and> sign_loop hmac z d k v = Some (Inl e))
      \<or> (\<exists>sg. sign_attempt z d (nonce_nth hmac k v i) = Inr (Some sg) \<and> sign_loop hmac z d k v = Some (Inr sg)))"
  using assms(2)
proof (induction n arbitrary: k v)
  case 0
  then have "1 \<le> be_int (hmac k v)" "be_int (hmac k v) < SECP256K1_N" "sign_attempt z d (be_int (hmac k v)) \<noteq> Inr None"
    using sign_attempt_None by (auto simp: refused_nonce_def)
  then show ?case
    by (subst (1 2) sign_loop.simps)
      (auto simp: nonce_candidate_once[OF assms(1)] assms(1) Let_def split: sum.splits option.splits prod.splits)
next
  case (Suc n)
  obtain k' v' where adv: "nonce_advance hmac k (hmac k v) = (k', v')" by (cases "nonce_advance hmac k (hmac k v)") auto
  let ?c = "be_int (hmac k v)"
  have loop: "sign_loop hmac z d k v = (if 1 \<le> ?c \<and> ?c < SECP256K1_N then
      (case sign_attempt z d ?c of Inl e \<Rightarrow> Some (Inl e) | Inr (Some sg) \<Rightarrow> Some (Inr sg) | Inr None \<Rightarrow> sign_loop hmac z d k' v')
      else sign_loop hmac z d k' v')"
    by (subst sign_loop.simps) (simp add: nonce_candidate_once[OF assms(1)] assms(1) adv Let_def)
  show ?case
  proof (cases "1 \<le> ?c \<and> ?c < SECP256K1_N \<and> sign_attempt z d ?c \<noteq> Inr None")
    case True
    then show ?thesis by (intro exI[of _ 0]) (auto simp: loop split: sum.splits option.splits)
  next
    case False
    have tail: "nonce_nth hmac k v (Suc j) = nonce_nth hmac k' v' j" for j by (simp add: adv)
    have first: "refused_nonce z d ?c" "sign_loop hmac z d k v = sign_loop hmac z d k' v'"
      using False sign_attempt_None by (auto simp: loop refused_nonce_def)
    obtain i where i: "i \<le> n" "\<forall>j < i. refused_nonce z d (nonce_nth hmac k' v' j)"
      and used: "1 \<le> nonce_nth hmac k' v' i \<and> nonce_nth hmac k' v' i < SECP256K1_N
        \<and> ((\<exists>e. sign_attempt z d (nonce_nth hmac k' v' i) = Inl e \<and> sign_loop hmac z d k' v' = Some (Inl e))
          \<or> (\<exists>sg. sign_attempt z d (nonce_nth hmac k' v' i) = Inr (Some sg) \<and> sign_loop hmac z d k' v' = Some (Inr sg)))"
      using Suc.IH[of k' v'] Suc.prems unfolding tail by blast
    have "\<forall>j < Suc i. refused_nonce z d (nonce_nth hmac k v j)"
      using i(2) first(1) tail by (metis less_Suc_eq_0_disj nonce_nth.simps(1))
    then show ?thesis using i(1) used unfolding first(2) by (intro exI[of _ "Suc i"]) (simp add: adv)
  qed
qed

section \<open>Property\<close>

text \<open>
  C27. For a keyed hash with 32-byte digests whose nonce stream has some nonce that is not refused, signing a
  32-byte hash with a private key in range returns, and uses the first nonce of the stream that is not
  refused. The result is a signature of ECDSA with that nonce: \<open>r\<close> is the abscissa of the nonce's point
  modulo \<open>N\<close>, \<open>s\<close> is low and satisfies \<open>s * k = \<plusminus>(z + r * d)\<close> modulo \<open>N\<close>, and the recovery
  identifier carries the overflow of the abscissa and the parity of the ordinate, turned over exactly
  when the sign is minus. Otherwise the exception is that of the point arithmetic for this nonce.
\<close>

theorem sign_message_hash_correct:
  assumes "\<And>k m. length (hmac k m) = 32" "length h = 32" "1 \<le> key" "key < SECP256K1_N"
    and "\<not> refused_nonce (be_int h) key (rfc6979_nonce hmac key h n)"
  shows "\<exists>i \<le> n. (\<forall>j < i. refused_nonce (be_int h) key (rfc6979_nonce hmac key h j))
    \<and> (case sign_message_hash hmac h key of
         None \<Rightarrow> False
       | Some (Inl e) \<Rightarrow> scalar_mult (rfc6979_nonce hmac key h i) G_point = Inl e
           \<or> mod_inverse (rfc6979_nonce hmac key h i) SECP256K1_N = Inl e
       | Some (Inr sg) \<Rightarrow> \<exists>x y. scalar_mult (rfc6979_nonce hmac key h i) G_point = Inr (Some (x, y))
           \<and> ecdsa_signature (be_int h) key (rfc6979_nonce hmac key h i) x y sg)"
proof -
  obtain k v where seed: "nonce_seed hmac key h = (k, v)" by (cases "nonce_seed hmac key h")
  have run: "sign_message_hash hmac h key = sign_loop hmac (be_int h) key k v"
    using assms(2-4) seed by (simp add: sign_message_hash_def normalize_message_hash_def normalize_private_key_int_def)
  have raised: "scalar_mult c G_point = Inl e \<or> mod_inverse c SECP256K1_N = Inl e"
    if "sign_attempt (be_int h) key c = Inl e" for c e
    using that sign_attempt_Inl by blast
  have stream: "rfc6979_nonce hmac key h j = nonce_nth hmac k v j" for j by (simp add: rfc6979_nonce_def seed)
  obtain i where i: "i \<le> n" "\<forall>j < i. refused_nonce (be_int h) key (nonce_nth hmac k v j)"
    and used: "(\<exists>e. sign_attempt (be_int h) key (nonce_nth hmac k v i) = Inl e \<and> sign_loop hmac (be_int h) key k v = Some (Inl e))
      \<or> (\<exists>sg. sign_attempt (be_int h) key (nonce_nth hmac k v i) = Inr (Some sg) \<and> sign_loop hmac (be_int h) key k v = Some (Inr sg))"
    using sign_loop_first[where hmac = hmac and z = "be_int h" and d = key and k = k and v = v and n = n, OF assms(1)]
      assms(5) unfolding stream by blast
  from used show ?thesis
    unfolding run stream using i by (intro exI[of _ i]) (auto dest: raised elim: sign_attempt_signature)
qed

theorem sign_message_hash_correct_witness:
  "\<exists>sg. sign_message_hash demo_hmac (replicate 32 0) 1 = Some (Inr sg)
     \<and> sig_r sg = GX \<and> sig_s sg = GX \<and> sig_recovery_id sg = GY mod 2"
proof -
  let ?h = "replicate 32 (0 :: byte)"
  have z: "be_int ?h = 0" by (simp add: be_int_def eval_nat_numeral)
  have one: "rfc6979_nonce demo_hmac 1 ?h 0 = 1"
    using demo_seed[of ?h] demo_nonces(1) by (simp add: rfc6979_nonce_def del: be_bytes.simps nonce_nth.simps)
  have G: "scalar_mult 1 G_point = Inr (Some (GX, GY))" using scalar_mult_1 by (simp add: G_point_def)
  have ok: "\<not> refused_nonce (be_int ?h) 1 (rfc6979_nonce demo_hmac 1 ?h 0)"
    by (simp add: one z refused_nonce_def G) (simp add: GX_def SECP256K1_N_def)
  obtain sg where sg: "sign_message_hash demo_hmac ?h 1 = Some (Inr sg)" using demo_signs[of ?h] by auto
  have e: "ecdsa_signature 0 1 1 GX GY sg"
    using sign_message_hash_correct[OF demo_hmac_length _ _ _ ok] sg one G z by (simp add: SECP256K1_N_def)
  have s: "1 \<le> sig_s sg" "2 * sig_s sg < SECP256K1_N" "sig_r sg = GX"
    using e by (simp_all add: ecdsa_signature_def) (simp add: GX_def SECP256K1_N_def)
  have "sig_s sg mod SECP256K1_N = sig_s sg" using s(1,2) by (intro mod_pos_pos_trivial) linarith+
  moreover have "GX mod SECP256K1_N = GX" "(- GX) mod SECP256K1_N = SECP256K1_N - GX" "\<not> 2 * (SECP256K1_N - GX) < SECP256K1_N"
    "\<not> GX \<ge> SECP256K1_N"
    by (simp_all add: GX_def SECP256K1_N_def)
  ultimately have "sig_s sg = GX \<and> sig_recovery_id sg = GY mod 2"
    using e s by (auto simp: ecdsa_signature_def)
  with sg s(3) show ?thesis by blast
qed

end
