(* ===== verification/Zk.thy ===== *)
theory Zk
  imports Primitives
begin

text \<open>
  The crate \<open>zk\<close>: proof types and proofs (\<open>zk/proofs.py\<close>), the gas charged for verifying a proof
  and the registry of verifiers (\<open>zk/verifiers.py\<close>). A verifier is a protocol the program only
  calls: it is a function from a proof and its public inputs to a truth value.
\<close>

datatype proof_type = GROTH16 | PLONK | STARK

fun proof_type_int :: "proof_type \<Rightarrow> int" where
  "proof_type_int GROTH16 = 0"
| "proof_type_int PLONK = 1"
| "proof_type_int STARK = 2"

text \<open>The enum call \<open>ProofType(n)\<close>.\<close>

definition mk_proof_type :: "int \<Rightarrow> (py_error, proof_type) result" where
  "mk_proof_type n =
     (if n = 0 then Inr GROTH16 else if n = 1 then Inr PLONK else if n = 2 then Inr STARK else Inl ValueError)"

lemma mk_proof_type_int [simp]: "mk_proof_type (proof_type_int t) = Inr t"
  by (cases t) (simp_all add: mk_proof_type_def)

lemma mk_proof_type_Inr: "mk_proof_type n = Inr t \<longleftrightarrow> proof_type_int t = n"
  by (cases t) (auto simp: mk_proof_type_def)

lemma proof_type_int_nonneg [simp]: "0 \<le> proof_type_int t"
  by (cases t) simp_all

record zk_proof =
  zkp_type :: proof_type
  zkp_data :: bytes

section \<open>Gas\<close>

record zk_gas_model =
  base_costs :: "(proof_type, int) dict"
  per_byte_costs :: "(proof_type, int) dict"

definition default_base_costs :: "(proof_type, int) dict" where
  "default_base_costs = [(GROTH16, 180000), (PLONK, 220000), (STARK, 350000)]"

definition default_per_byte_costs :: "(proof_type, int) dict" where
  "default_per_byte_costs = [(GROTH16, 8), (PLONK, 10), (STARK, 12)]"

definition default_zk_gas_model :: zk_gas_model where
  "default_zk_gas_model = \<lparr>base_costs = default_base_costs, per_byte_costs = default_per_byte_costs\<rparr>"

text \<open>\<open>d[k]\<close>.\<close>

definition dict_index :: "('k, 'v) dict \<Rightarrow> 'k \<Rightarrow> (py_error, 'v) result" where
  "dict_index d k = (case dict_get d k of None \<Rightarrow> Inl KeyError | Some v \<Rightarrow> Inr v)"

definition verification_gas :: "zk_gas_model \<Rightarrow> zk_proof \<Rightarrow> (py_error, int) result" where
  "verification_gas m p =
     bindR (dict_index (base_costs m) (zkp_type p)) (\<lambda>base.
     bindR (dict_index (per_byte_costs m) (zkp_type p)) (\<lambda>per_byte.
       Inr (base + per_byte * int (length (zkp_data p)))))"

text \<open>A gas model that prices every proof type, and never below zero.\<close>

definition zk_gas_ok :: "zk_gas_model \<Rightarrow> bool" where
  "zk_gas_ok m \<longleftrightarrow> list_all (\<lambda>t. case (dict_get (base_costs m) t, dict_get (per_byte_costs m) t) of
     (Some b, Some p) \<Rightarrow> 0 \<le> b \<and> 0 \<le> p | _ \<Rightarrow> False) [GROTH16, PLONK, STARK]"

lemma default_zk_gas_ok: "zk_gas_ok default_zk_gas_model"
  by (simp add: zk_gas_ok_def default_zk_gas_model_def default_base_costs_def default_per_byte_costs_def)

lemma verification_gas_nonneg:
  assumes "zk_gas_ok m"
  shows "\<exists>g. verification_gas m p = Inr g \<and> 0 \<le> g"
  using assms by (cases "zkp_type p")
    (auto simp: zk_gas_ok_def verification_gas_def dict_index_def split: option.splits)

section \<open>Verifiers\<close>

type_synonym zk_verifier = "zk_proof \<Rightarrow> u256 list \<Rightarrow> bool"
type_synonym zk_registry = "(proof_type, zk_verifier) dict"

definition registry_register :: "proof_type \<Rightarrow> zk_verifier \<Rightarrow> zk_registry \<Rightarrow> zk_registry" where
  "registry_register t v reg = dict_put t v reg"

definition registry_get :: "zk_registry \<Rightarrow> proof_type \<Rightarrow> (py_error, zk_verifier) result" where
  "registry_get reg t = mapE (\<lambda>_. LookupError) (dict_index reg t)"

definition registry_verify :: "zk_registry \<Rightarrow> zk_proof \<Rightarrow> u256 list \<Rightarrow> (py_error, bool) result" where
  "registry_verify reg p inputs =
     bindR (registry_get reg (zkp_type p)) (\<lambda>verifier. Inr (verifier p inputs))"

lemma registry_verify_register:
  "registry_verify (registry_register t v reg) p inputs =
     (if zkp_type p = t then Inr (v p inputs) else registry_verify reg p inputs)"
  by (simp add: registry_verify_def registry_get_def registry_register_def dict_index_def dict_simps)

end
