(* ===== verification/Transactions.thy ===== *)
theory Transactions
  imports Signing Rlp Zk
begin

text \<open>
  The crate \<open>transactions\<close> (\<open>transactions/constants.py\<close>, \<open>transactions/models.py\<close>): legacy,
  EIP-1559 and zero-knowledge transactions, their constructors, signing payloads, wire encodings,
  sender recovery, intrinsic gas and the decoder of raw transactions. The lemmas show the round
  trip between the encoder and the decoder, with the payloads the RLP decoder refuses as the only
  exception, and how \<open>v\<close> carries the chain identifier of a replay-protected legacy transaction.
\<close>

section \<open>Constants and errors\<close>

definition EIP1559_TRANSACTION_TYPE :: int where "EIP1559_TRANSACTION_TYPE = 0x02"
definition ZK_TRANSACTION_TYPE :: int where "ZK_TRANSACTION_TYPE = 0x7E"
definition LEGACY_V_OFFSET :: int where "LEGACY_V_OFFSET = 27"
definition EIP155_CHAIN_ID_OFFSET :: int where "EIP155_CHAIN_ID_OFFSET = 35"
definition INTRINSIC_GAS_BASE :: int where "INTRINSIC_GAS_BASE = 21000"
definition INTRINSIC_GAS_CONTRACT_CREATION :: int where "INTRINSIC_GAS_CONTRACT_CREATION = 32000"
definition INTRINSIC_GAS_ZERO_DATA_BYTE :: int where "INTRINSIC_GAS_ZERO_DATA_BYTE = 4"
definition INTRINSIC_GAS_NON_ZERO_DATA_BYTE :: int where "INTRINSIC_GAS_NON_ZERO_DATA_BYTE = 16"
definition INTRINSIC_GAS_ACCESS_LIST_ADDRESS :: int where "INTRINSIC_GAS_ACCESS_LIST_ADDRESS = 2400"
definition INTRINSIC_GAS_ACCESS_LIST_STORAGE_KEY :: int where "INTRINSIC_GAS_ACCESS_LIST_STORAGE_KEY = 1900"

text \<open>The transaction exceptions, and the builtin ones that pass through.\<close>

datatype tx_error =
    TransactionDecodeError | TransactionEncodingError | TransactionSignatureError | TxPy py_error

abbreviation txpy :: "(py_error, 'a) result \<Rightarrow> (tx_error, 'a) result" where
  "txpy \<equiv> mapE TxPy"

section \<open>Coercions\<close>

definition coerce_u256 :: "operand \<Rightarrow> (py_error, u256) result" where
  "coerce_u256 v = (case v of OpU256 w \<Rightarrow> Inr w | OpInt n \<Rightarrow> mk_u256 n | OpOther \<Rightarrow> Inl TypeError)"

definition coerce_optional_u256 :: "operand option \<Rightarrow> (py_error, u256 option) result" where
  "coerce_optional_u256 v = (case v of None \<Rightarrow> Inr None | Some x \<Rightarrow> bindR (coerce_u256 x) (\<lambda>w. Inr (Some w)))"

datatype address_arg = ArgAddress address | ArgRaw bytes

definition coerce_address :: "address_arg option \<Rightarrow> (py_error, address option) result" where
  "coerce_address v =
     (case v of
        None \<Rightarrow> Inr None
      | Some (ArgAddress a) \<Rightarrow> Inr (Some a)
      | Some (ArgRaw raw) \<Rightarrow>
          if length raw \<noteq> ADDRESS_SIZE then Inl ValueError else bindR (mk_address raw) (\<lambda>a. Inr (Some a)))"

lemma coerce_simps [simp]:
  "coerce_u256 (OpU256 w) = Inr w" "coerce_u256 (OpInt n) = mk_u256 n"
  "coerce_optional_u256 None = Inr None" "coerce_optional_u256 (Some (OpU256 w)) = Inr (Some w)"
  "coerce_address None = Inr None" "coerce_address (Some (ArgAddress a)) = Inr (Some a)"
  by (simp_all add: coerce_u256_def coerce_optional_u256_def coerce_address_def)

definition tx_decode_u256 :: "bytes \<Rightarrow> (py_error, u256) result" where
  "tx_decode_u256 raw = (if raw = [] then Inr u256_zero else mk_u256 (be_int raw))"

definition tx_decode_int :: "bytes \<Rightarrow> int" where
  "tx_decode_int raw = (if raw = [] then 0 else be_int raw)"

definition encode_destination :: "address option \<Rightarrow> bytes" where
  "encode_destination d = (case d of None \<Rightarrow> [] | Some a \<Rightarrow> address_bytes a)"

definition decode_destination :: "bytes \<Rightarrow> (tx_error, address option) result" where
  "decode_destination raw =
     (if raw = [] then Inr None
      else if length raw \<noteq> ADDRESS_SIZE then Inl TransactionDecodeError
      else txpy (bindR (mk_address raw) (\<lambda>a. Inr (Some a))))"

section \<open>Access lists\<close>

record access_entry =
  al_address :: address
  al_storage_keys :: "u256 list"

definition mk_access_entry :: "address_arg option \<Rightarrow> operand list \<Rightarrow> (py_error, access_entry) result" where
  "mk_access_entry addr keys =
     bindR (coerce_address addr) (\<lambda>normalized.
       case normalized of None \<Rightarrow> Inl ValueError
       | Some a \<Rightarrow> bindR (mapR coerce_u256 keys) (\<lambda>ks. Inr \<lparr>al_address = a, al_storage_keys = ks\<rparr>))"

definition access_entry_to_rlp :: "access_entry \<Rightarrow> rlp_obj" where
  "access_entry_to_rlp e =
     ObjList [ObjBytes (address_bytes (al_address e)),
       ObjList (map (\<lambda>k. ObjBytes (u256_bytes32 k)) (al_storage_keys e))]"

definition encode_access_list :: "access_entry list \<Rightarrow> rlp_obj" where
  "encode_access_list es = ObjList (map access_entry_to_rlp es)"

definition decode_storage_key :: "rlp \<Rightarrow> (tx_error, u256) result" where
  "decode_storage_key k =
     (case k of
        RBytes bs \<Rightarrow> if length bs \<noteq> 32 then Inl TransactionDecodeError else txpy (u256_from_bytes bs BigEndian)
      | RList _ \<Rightarrow> Inl TransactionDecodeError)"

definition decode_access_entry :: "rlp \<Rightarrow> (tx_error, access_entry) result" where
  "decode_access_entry item =
     (case item of
        RList [RBytes address_raw, RList keys_raw] \<Rightarrow>
          bindR (mapR decode_storage_key keys_raw) (\<lambda>storage_keys.
          bindR (decode_destination address_raw) (\<lambda>decoded_address.
            case decoded_address of None \<Rightarrow> Inl TransactionDecodeError
            | Some a \<Rightarrow> txpy (mk_access_entry (Some (ArgAddress a)) (map OpU256 storage_keys))))
      | _ \<Rightarrow> Inl TransactionDecodeError)"

definition decode_access_list :: "rlp list \<Rightarrow> (tx_error, access_entry list) result" where
  "decode_access_list raw = mapR decode_access_entry raw"

section \<open>Sender recovery from signature values\<close>

definition signature_from_values ::
  "hash \<Rightarrow> int \<Rightarrow> u256 \<Rightarrow> u256 \<Rightarrow> bool \<Rightarrow> (tx_error, address) result" where
  "signature_from_values message_hash v r s enforce_low_s =
     (if uint r = 0 \<or> uint s = 0 then Inl TransactionSignatureError
      else if uint r \<ge> SECP256K1_N \<or> uint s \<ge> SECP256K1_N then Inl TransactionSignatureError
      else if enforce_low_s \<and> uint s > SECP256K1_HALF_N then Inl TransactionSignatureError
      else if v \<noteq> 0 \<and> v \<noteq> 1 then Inl TransactionSignatureError
      else txpy
        (bindR (signature_from_bytes (u256_bytes32 r @ u256_bytes32 s @ [word_of_int v])) (\<lambda>sg.
         bindR (recover_public_key (hash_bytes message_hash) sg) address_from_public_key)))"

text \<open>\<open>sum(4 if byte == 0 else 16 for byte in data)\<close>.\<close>

definition data_gas :: "bytes \<Rightarrow> int" where
  "data_gas data = sum_list (map (\<lambda>b.
     if b = 0 then INTRINSIC_GAS_ZERO_DATA_BYTE else INTRINSIC_GAS_NON_ZERO_DATA_BYTE) data)"

lemma data_gas_bounds:
  "4 * int (length data) \<le> data_gas data" "data_gas data \<le> 16 * int (length data)"
  by (induction data)
    (auto simp: data_gas_def INTRINSIC_GAS_ZERO_DATA_BYTE_def INTRINSIC_GAS_NON_ZERO_DATA_BYTE_def)

section \<open>Legacy transactions\<close>

record legacy_tx =
  lt_nonce :: u256
  lt_gas_price :: u256
  lt_gas_limit :: u256
  lt_to :: "address option"
  lt_value :: u256
  lt_data :: bytes
  lt_chain_id :: "int option"
  lt_v :: "int option"
  lt_r :: "u256 option"
  lt_s :: "u256 option"

definition mk_legacy_tx ::
  "operand \<Rightarrow> operand \<Rightarrow> operand \<Rightarrow> address_arg option \<Rightarrow> operand \<Rightarrow> bytes \<Rightarrow> int option
   \<Rightarrow> int option \<Rightarrow> operand option \<Rightarrow> operand option \<Rightarrow> (py_error, legacy_tx) result" where
  "mk_legacy_tx nonce gas_price gas_limit dest val data chain_id v r s =
     bindR (coerce_u256 nonce) (\<lambda>nonce'.
     bindR (coerce_u256 gas_price) (\<lambda>gas_price'.
     bindR (coerce_u256 gas_limit) (\<lambda>gas_limit'.
     bindR (coerce_address dest) (\<lambda>dest'.
     bindR (coerce_u256 val) (\<lambda>val'.
     bindR (coerce_optional_u256 r) (\<lambda>r'.
     bindR (coerce_optional_u256 s) (\<lambda>s'.
     if (case chain_id of Some c \<Rightarrow> c < 1 | None \<Rightarrow> False) then Inl ValueError
     else Inr \<lparr>lt_nonce = nonce', lt_gas_price = gas_price', lt_gas_limit = gas_limit', lt_to = dest',
       lt_value = val', lt_data = data, lt_chain_id = chain_id, lt_v = v, lt_r = r', lt_s = s'\<rparr>)))))))"

definition legacy_is_signed :: "legacy_tx \<Rightarrow> bool" where
  "legacy_is_signed t \<longleftrightarrow> lt_v t \<noteq> None \<and> lt_r t \<noteq> None \<and> lt_s t \<noteq> None"

text \<open>\<open>replace(self, ...)\<close> runs the constructor again.\<close>

definition legacy_replace :: "legacy_tx \<Rightarrow> (py_error, legacy_tx) result" where
  "legacy_replace t = mk_legacy_tx (OpU256 (lt_nonce t)) (OpU256 (lt_gas_price t)) (OpU256 (lt_gas_limit t))
     (map_option ArgAddress (lt_to t)) (OpU256 (lt_value t)) (lt_data t) (lt_chain_id t) (lt_v t)
     (map_option OpU256 (lt_r t)) (map_option OpU256 (lt_s t))"

definition legacy_with_signature ::
  "legacy_tx \<Rightarrow> int \<Rightarrow> operand \<Rightarrow> operand \<Rightarrow> (py_error, legacy_tx) result" where
  "legacy_with_signature t v r s =
     bindR (coerce_u256 r) (\<lambda>r'. bindR (coerce_u256 s) (\<lambda>s'.
       legacy_replace (t\<lparr>lt_v := Some v, lt_r := Some r', lt_s := Some s'\<rparr>)))"

definition legacy_base_fields :: "legacy_tx \<Rightarrow> rlp_obj list" where
  "legacy_base_fields t =
     [ObjInt (uint (lt_nonce t)), ObjInt (uint (lt_gas_price t)), ObjInt (uint (lt_gas_limit t)),
      ObjBytes (encode_destination (lt_to t)), ObjInt (uint (lt_value t)), ObjBytes (lt_data t)]"

definition legacy_unsigned_rlp_fields :: "legacy_tx \<Rightarrow> rlp_obj list" where
  "legacy_unsigned_rlp_fields t = legacy_base_fields t @
     (case lt_chain_id t of None \<Rightarrow> [] | Some c \<Rightarrow> [ObjInt c, ObjInt 0, ObjInt 0])"

definition legacy_signing_payload :: "legacy_tx \<Rightarrow> (py_error, bytes) result" where
  "legacy_signing_payload t = rlp_encode (ObjList (legacy_unsigned_rlp_fields t))"

definition legacy_signing_hash :: "legacy_tx \<Rightarrow> (py_error, hash) result" where
  "legacy_signing_hash t = bindR (legacy_signing_payload t) (\<lambda>p. Inr (keccak256 p))"

definition legacy_encode :: "legacy_tx \<Rightarrow> (tx_error, bytes) result" where
  "legacy_encode t =
     (case (lt_v t, lt_r t, lt_s t) of
        (Some v, Some r, Some s) \<Rightarrow>
          txpy (rlp_encode (ObjList (legacy_base_fields t @ [ObjInt v, ObjInt (uint r), ObjInt (uint s)])))
      | _ \<Rightarrow> Inl TransactionEncodingError)"

definition legacy_tx_hash :: "legacy_tx \<Rightarrow> (tx_error, hash) result" where
  "legacy_tx_hash t = bindR (legacy_encode t) (\<lambda>bs. Inr (keccak256 bs))"

definition legacy_recovery_id :: "legacy_tx \<Rightarrow> (tx_error, int \<times> int option) result" where
  "legacy_recovery_id t =
     (if \<not> legacy_is_signed t then Inl TransactionSignatureError
      else case lt_v t of None \<Rightarrow> Inl (TxPy AssertionError)
      | Some v \<Rightarrow>
          if v \<in> {27, 28} then Inr (v - LEGACY_V_OFFSET, None)
          else if v \<ge> EIP155_CHAIN_ID_OFFSET then
            (let chain_id = (v - EIP155_CHAIN_ID_OFFSET) div 2;
                 recovery_id = v - EIP155_CHAIN_ID_OFFSET - 2 * chain_id in
             if chain_id < 1 \<or> recovery_id \<notin> {0, 1} then Inl TransactionSignatureError
             else Inr (recovery_id, Some chain_id))
          else Inl TransactionSignatureError)"

definition legacy_sender :: "legacy_tx \<Rightarrow> bool \<Rightarrow> (tx_error, address) result" where
  "legacy_sender t enforce_low_s =
     (if \<not> legacy_is_signed t then Inl TransactionSignatureError
      else bindR (legacy_recovery_id t) (\<lambda>(recovery_id, embedded_chain_id).
        bindR (txpy (rlp_encode (ObjList (legacy_base_fields t @
            (case embedded_chain_id of None \<Rightarrow> [] | Some c \<Rightarrow> [ObjInt c, ObjInt 0, ObjInt 0]))))) (\<lambda>payload.
        case (lt_r t, lt_s t) of
          (Some r, Some s) \<Rightarrow> signature_from_values (keccak256 payload) recovery_id r s enforce_low_s
        | _ \<Rightarrow> Inl (TxPy AssertionError))))"

definition legacy_intrinsic_gas :: "legacy_tx \<Rightarrow> int" where
  "legacy_intrinsic_gas t =
     INTRINSIC_GAS_BASE + (if lt_to t = None then INTRINSIC_GAS_CONTRACT_CREATION else 0) + data_gas (lt_data t)"

section \<open>EIP-1559 transactions\<close>

record eip1559_tx =
  et_chain_id :: int
  et_nonce :: u256
  et_max_priority_fee_per_gas :: u256
  et_max_fee_per_gas :: u256
  et_gas_limit :: u256
  et_to :: "address option"
  et_value :: u256
  et_data :: bytes
  et_access_list :: "access_entry list"
  et_v :: "int option"
  et_r :: "u256 option"
  et_s :: "u256 option"

definition mk_eip1559_tx ::
  "int \<Rightarrow> operand \<Rightarrow> operand \<Rightarrow> operand \<Rightarrow> operand \<Rightarrow> address_arg option \<Rightarrow> operand \<Rightarrow> bytes
   \<Rightarrow> access_entry list \<Rightarrow> int option \<Rightarrow> operand option \<Rightarrow> operand option \<Rightarrow> (py_error, eip1559_tx) result" where
  "mk_eip1559_tx chain_id nonce max_priority max_fee gas_limit dest val data access_list v r s =
     (if chain_id < 1 then Inl ValueError
      else
        bindR (coerce_u256 nonce) (\<lambda>nonce'.
        bindR (coerce_u256 max_priority) (\<lambda>max_priority'.
        bindR (coerce_u256 max_fee) (\<lambda>max_fee'.
        bindR (coerce_u256 gas_limit) (\<lambda>gas_limit'.
        bindR (coerce_address dest) (\<lambda>dest'.
        bindR (coerce_u256 val) (\<lambda>val'.
        bindR (coerce_optional_u256 r) (\<lambda>r'.
        bindR (coerce_optional_u256 s) (\<lambda>s'.
        if uint max_fee' < uint max_priority' then Inl ValueError
        else Inr \<lparr>et_chain_id = chain_id, et_nonce = nonce', et_max_priority_fee_per_gas = max_priority',
          et_max_fee_per_gas = max_fee', et_gas_limit = gas_limit', et_to = dest', et_value = val',
          et_data = data, et_access_list = access_list, et_v = v, et_r = r', et_s = s'\<rparr>)))))))))"

definition eip1559_is_signed :: "eip1559_tx \<Rightarrow> bool" where
  "eip1559_is_signed t \<longleftrightarrow> et_v t \<noteq> None \<and> et_r t \<noteq> None \<and> et_s t \<noteq> None"

definition eip1559_replace :: "eip1559_tx \<Rightarrow> (py_error, eip1559_tx) result" where
  "eip1559_replace t = mk_eip1559_tx (et_chain_id t) (OpU256 (et_nonce t))
     (OpU256 (et_max_priority_fee_per_gas t)) (OpU256 (et_max_fee_per_gas t)) (OpU256 (et_gas_limit t))
     (map_option ArgAddress (et_to t)) (OpU256 (et_value t)) (et_data t) (et_access_list t) (et_v t)
     (map_option OpU256 (et_r t)) (map_option OpU256 (et_s t))"

definition eip1559_with_signature ::
  "eip1559_tx \<Rightarrow> int \<Rightarrow> operand \<Rightarrow> operand \<Rightarrow> (py_error, eip1559_tx) result" where
  "eip1559_with_signature t v r s =
     bindR (coerce_u256 r) (\<lambda>r'. bindR (coerce_u256 s) (\<lambda>s'.
       eip1559_replace (t\<lparr>et_v := Some v, et_r := Some r', et_s := Some s'\<rparr>)))"

definition eip1559_unsigned_rlp_fields :: "eip1559_tx \<Rightarrow> rlp_obj list" where
  "eip1559_unsigned_rlp_fields t =
     [ObjInt (et_chain_id t), ObjInt (uint (et_nonce t)), ObjInt (uint (et_max_priority_fee_per_gas t)),
      ObjInt (uint (et_max_fee_per_gas t)), ObjInt (uint (et_gas_limit t)),
      ObjBytes (encode_destination (et_to t)), ObjInt (uint (et_value t)), ObjBytes (et_data t),
      encode_access_list (et_access_list t)]"

definition eip1559_signing_payload :: "eip1559_tx \<Rightarrow> (py_error, bytes) result" where
  "eip1559_signing_payload t =
     bindR (rlp_encode (ObjList (eip1559_unsigned_rlp_fields t))) (\<lambda>bs.
       Inr (word_of_int EIP1559_TRANSACTION_TYPE # bs))"

definition eip1559_signing_hash :: "eip1559_tx \<Rightarrow> (py_error, hash) result" where
  "eip1559_signing_hash t = bindR (eip1559_signing_payload t) (\<lambda>p. Inr (keccak256 p))"

definition eip1559_encode :: "eip1559_tx \<Rightarrow> (tx_error, bytes) result" where
  "eip1559_encode t =
     (case (et_v t, et_r t, et_s t) of
        (Some v, Some r, Some s) \<Rightarrow>
          txpy (bindR (rlp_encode (ObjList (eip1559_unsigned_rlp_fields t @
              [ObjInt v, ObjInt (uint r), ObjInt (uint s)])))
            (\<lambda>bs. Inr (word_of_int EIP1559_TRANSACTION_TYPE # bs)))
      | _ \<Rightarrow> Inl TransactionEncodingError)"

definition eip1559_tx_hash :: "eip1559_tx \<Rightarrow> (tx_error, hash) result" where
  "eip1559_tx_hash t = bindR (eip1559_encode t) (\<lambda>bs. Inr (keccak256 bs))"

definition eip1559_sender :: "eip1559_tx \<Rightarrow> bool \<Rightarrow> (tx_error, address) result" where
  "eip1559_sender t enforce_low_s =
     (case (et_v t, et_r t, et_s t) of
        (Some v, Some r, Some s) \<Rightarrow>
          bindR (txpy (eip1559_signing_hash t)) (\<lambda>h. signature_from_values h v r s enforce_low_s)
      | _ \<Rightarrow> Inl TransactionSignatureError)"

definition eip1559_intrinsic_gas :: "eip1559_tx \<Rightarrow> int" where
  "eip1559_intrinsic_gas t =
     INTRINSIC_GAS_BASE + (if et_to t = None then INTRINSIC_GAS_CONTRACT_CREATION else 0) + data_gas (et_data t)
     + int (length (et_access_list t)) * INTRINSIC_GAS_ACCESS_LIST_ADDRESS
     + sum_list (map (\<lambda>e. int (length (al_storage_keys e)) * INTRINSIC_GAS_ACCESS_LIST_STORAGE_KEY) (et_access_list t))"

section \<open>Zero-knowledge transactions\<close>

record zk_tx =
  zt_base_tx :: eip1559_tx
  zt_proof :: zk_proof
  zt_public_inputs :: "u256 list"

definition mk_zk_tx :: "eip1559_tx \<Rightarrow> zk_proof \<Rightarrow> operand list \<Rightarrow> (py_error, zk_tx) result" where
  "mk_zk_tx base p inputs =
     bindR (mapR coerce_u256 inputs) (\<lambda>ws.
       Inr \<lparr>zt_base_tx = base, zt_proof = p, zt_public_inputs = ws\<rparr>)"

definition zk_with_signature :: "zk_tx \<Rightarrow> int \<Rightarrow> operand \<Rightarrow> operand \<Rightarrow> (py_error, zk_tx) result" where
  "zk_with_signature t v r s =
     bindR (eip1559_with_signature (zt_base_tx t) v r s) (\<lambda>base.
       mk_zk_tx base (zt_proof t) (map OpU256 (zt_public_inputs t)))"

definition zk_unsigned_rlp_fields :: "zk_tx \<Rightarrow> rlp_obj list" where
  "zk_unsigned_rlp_fields t =
     (let b = zt_base_tx t in
      [ObjInt (et_chain_id b), ObjInt (uint (et_nonce b)), ObjInt (uint (et_max_priority_fee_per_gas b)),
       ObjInt (uint (et_max_fee_per_gas b)), ObjInt (uint (et_gas_limit b)),
       ObjBytes (encode_destination (et_to b)), ObjInt (uint (et_value b)), ObjBytes (et_data b),
       encode_access_list (et_access_list b), ObjInt (proof_type_int (zkp_type (zt_proof t))),
       ObjBytes (zkp_data (zt_proof t)), ObjList (map (\<lambda>w. ObjInt (uint w)) (zt_public_inputs t))])"

definition zk_signing_payload :: "zk_tx \<Rightarrow> (py_error, bytes) result" where
  "zk_signing_payload t =
     bindR (rlp_encode (ObjList (zk_unsigned_rlp_fields t))) (\<lambda>bs. Inr (word_of_int ZK_TRANSACTION_TYPE # bs))"

definition zk_signing_hash :: "zk_tx \<Rightarrow> (py_error, hash) result" where
  "zk_signing_hash t = bindR (zk_signing_payload t) (\<lambda>p. Inr (keccak256 p))"

definition zk_encode :: "zk_tx \<Rightarrow> (tx_error, bytes) result" where
  "zk_encode t =
     (case (et_v (zt_base_tx t), et_r (zt_base_tx t), et_s (zt_base_tx t)) of
        (Some v, Some r, Some s) \<Rightarrow>
          txpy (bindR (rlp_encode (ObjList (zk_unsigned_rlp_fields t @
              [ObjInt v, ObjInt (uint r), ObjInt (uint s)])))
            (\<lambda>bs. Inr (word_of_int ZK_TRANSACTION_TYPE # bs)))
      | _ \<Rightarrow> Inl TransactionEncodingError)"

definition zk_tx_hash :: "zk_tx \<Rightarrow> (tx_error, hash) result" where
  "zk_tx_hash t = bindR (zk_encode t) (\<lambda>bs. Inr (keccak256 bs))"

definition zk_sender :: "zk_tx \<Rightarrow> bool \<Rightarrow> (tx_error, address) result" where
  "zk_sender t enforce_low_s =
     (case (et_v (zt_base_tx t), et_r (zt_base_tx t), et_s (zt_base_tx t)) of
        (Some v, Some r, Some s) \<Rightarrow>
          bindR (txpy (zk_signing_hash t)) (\<lambda>h. signature_from_values h v r s enforce_low_s)
      | _ \<Rightarrow> Inl TransactionSignatureError)"

definition zk_intrinsic_gas :: "zk_tx \<Rightarrow> int" where
  "zk_intrinsic_gas t = eip1559_intrinsic_gas (zt_base_tx t)"

section \<open>Transactions\<close>

text \<open>The union \<open>Transaction\<close>, with the attributes and methods its three classes share.\<close>

datatype transaction = Legacy legacy_tx | Eip1559 eip1559_tx | Zk zk_tx

primrec tx_type_byte :: "transaction \<Rightarrow> int option" where
  "tx_type_byte (Legacy t) = None"
| "tx_type_byte (Eip1559 t) = Some EIP1559_TRANSACTION_TYPE"
| "tx_type_byte (Zk t) = Some ZK_TRANSACTION_TYPE"

primrec tx_chain_id :: "transaction \<Rightarrow> int option" where
  "tx_chain_id (Legacy t) = lt_chain_id t"
| "tx_chain_id (Eip1559 t) = Some (et_chain_id t)"
| "tx_chain_id (Zk t) = Some (et_chain_id (zt_base_tx t))"

primrec tx_nonce :: "transaction \<Rightarrow> u256" where
  "tx_nonce (Legacy t) = lt_nonce t"
| "tx_nonce (Eip1559 t) = et_nonce t"
| "tx_nonce (Zk t) = et_nonce (zt_base_tx t)"

primrec tx_gas_limit :: "transaction \<Rightarrow> u256" where
  "tx_gas_limit (Legacy t) = lt_gas_limit t"
| "tx_gas_limit (Eip1559 t) = et_gas_limit t"
| "tx_gas_limit (Zk t) = et_gas_limit (zt_base_tx t)"

primrec tx_to :: "transaction \<Rightarrow> address option" where
  "tx_to (Legacy t) = lt_to t"
| "tx_to (Eip1559 t) = et_to t"
| "tx_to (Zk t) = et_to (zt_base_tx t)"

primrec tx_value :: "transaction \<Rightarrow> u256" where
  "tx_value (Legacy t) = lt_value t"
| "tx_value (Eip1559 t) = et_value t"
| "tx_value (Zk t) = et_value (zt_base_tx t)"

primrec tx_data :: "transaction \<Rightarrow> bytes" where
  "tx_data (Legacy t) = lt_data t"
| "tx_data (Eip1559 t) = et_data t"
| "tx_data (Zk t) = et_data (zt_base_tx t)"

primrec tx_encode :: "transaction \<Rightarrow> (tx_error, bytes) result" where
  "tx_encode (Legacy t) = legacy_encode t"
| "tx_encode (Eip1559 t) = eip1559_encode t"
| "tx_encode (Zk t) = zk_encode t"

primrec tx_hash :: "transaction \<Rightarrow> (tx_error, hash) result" where
  "tx_hash (Legacy t) = legacy_tx_hash t"
| "tx_hash (Eip1559 t) = eip1559_tx_hash t"
| "tx_hash (Zk t) = zk_tx_hash t"

primrec tx_sender :: "transaction \<Rightarrow> bool \<Rightarrow> (tx_error, address) result" where
  "tx_sender (Legacy t) low = legacy_sender t low"
| "tx_sender (Eip1559 t) low = eip1559_sender t low"
| "tx_sender (Zk t) low = zk_sender t low"

primrec tx_intrinsic_gas :: "transaction \<Rightarrow> int" where
  "tx_intrinsic_gas (Legacy t) = legacy_intrinsic_gas t"
| "tx_intrinsic_gas (Eip1559 t) = eip1559_intrinsic_gas t"
| "tx_intrinsic_gas (Zk t) = zk_intrinsic_gas t"

subsection \<open>Signing\<close>

primrec tx_signing_hash :: "transaction \<Rightarrow> (py_error, hash) result" where
  "tx_signing_hash (Legacy t) = legacy_signing_hash t"
| "tx_signing_hash (Eip1559 t) = eip1559_signing_hash t"
| "tx_signing_hash (Zk t) = zk_signing_hash t"

primrec tx_with_signature :: "transaction \<Rightarrow> int \<Rightarrow> operand \<Rightarrow> operand \<Rightarrow> (py_error, transaction) result" where
  "tx_with_signature (Legacy t) v r s = bindR (legacy_with_signature t v r s) (\<lambda>t. Inr (Legacy t))"
| "tx_with_signature (Eip1559 t) v r s = bindR (eip1559_with_signature t v r s) (\<lambda>t. Inr (Eip1559 t))"
| "tx_with_signature (Zk t) v r s = bindR (zk_with_signature t v r s) (\<lambda>t. Inr (Zk t))"

text \<open>The \<open>v\<close> that \<open>sign\<close> stores for a recovery identifier.\<close>

primrec tx_sign_v :: "transaction \<Rightarrow> int \<Rightarrow> int" where
  "tx_sign_v (Legacy t) recovery_id =
     (case lt_chain_id t of None \<Rightarrow> recovery_id + LEGACY_V_OFFSET
      | Some c \<Rightarrow> recovery_id + EIP155_CHAIN_ID_OFFSET + 2 * c)"
| "tx_sign_v (Eip1559 t) recovery_id = recovery_id"
| "tx_sign_v (Zk t) recovery_id = recovery_id"

definition tx_sign :: "keyed_hash \<Rightarrow> transaction \<Rightarrow> int \<Rightarrow> (py_error, transaction) result option" where
  "tx_sign hmac t private_key =
     (case tx_signing_hash t of
        Inl e \<Rightarrow> Some (Inl e)
      | Inr h \<Rightarrow>
          Option.bind (sign_message_hash hmac (hash_bytes h) private_key) (\<lambda>r.
            Some (bindR r (\<lambda>sg.
              tx_with_signature t (tx_sign_v t (sig_recovery_id sg)) (OpInt (sig_r sg)) (OpInt (sig_s sg))))))"

section \<open>Decoder\<close>

definition expect_rlp_list :: "rlp \<Rightarrow> nat \<Rightarrow> (tx_error, rlp list) result" where
  "expect_rlp_list v n =
     (case v of RList xs \<Rightarrow> if length xs \<noteq> n then Inl TransactionDecodeError else Inr xs
      | RBytes _ \<Rightarrow> Inl TransactionDecodeError)"

definition expect_bytes :: "rlp \<Rightarrow> (tx_error, bytes) result" where
  "expect_bytes v = (case v of RBytes bs \<Rightarrow> Inr bs | RList _ \<Rightarrow> Inl TransactionDecodeError)"

text \<open>\<open>_expect_rlp_list(value, len(value), label)\<close>: any list.\<close>

definition expect_any_list :: "rlp \<Rightarrow> (tx_error, rlp list) result" where
  "expect_any_list v = expect_rlp_list v (case v of RList xs \<Rightarrow> length xs | RBytes bs \<Rightarrow> length bs)"

definition expect_u256 :: "rlp \<Rightarrow> (tx_error, u256) result" where
  "expect_u256 v = bindR (expect_bytes v) (\<lambda>bs. txpy (tx_decode_u256 bs))"

definition tx_rlp_fields :: "bytes \<Rightarrow> nat \<Rightarrow> (tx_error, rlp list) result" where
  "tx_rlp_fields raw n = bindR (mapE (\<lambda>_. TransactionDecodeError) (rlp_decode raw)) (\<lambda>v. expect_rlp_list v n)"

definition decode_legacy :: "bytes \<Rightarrow> (tx_error, legacy_tx) result" where
  "decode_legacy raw =
     bindR (tx_rlp_fields raw 9) (\<lambda>fields.
     bindR (mapR expect_bytes fields) (\<lambda>bs.
     bindR (txpy (tx_decode_u256 (bs ! 0))) (\<lambda>nonce.
     bindR (txpy (tx_decode_u256 (bs ! 1))) (\<lambda>gas_price.
     bindR (txpy (tx_decode_u256 (bs ! 2))) (\<lambda>gas_limit.
     bindR (decode_destination (bs ! 3)) (\<lambda>dest.
     bindR (txpy (tx_decode_u256 (bs ! 4))) (\<lambda>val.
     bindR (txpy (tx_decode_u256 (bs ! 7))) (\<lambda>r.
     bindR (txpy (tx_decode_u256 (bs ! 8))) (\<lambda>s.
     bindR (txpy (mk_legacy_tx (OpU256 nonce) (OpU256 gas_price) (OpU256 gas_limit)
       (map_option ArgAddress dest) (OpU256 val) (bs ! 5) None (Some (tx_decode_int (bs ! 6)))
       (Some (OpU256 r)) (Some (OpU256 s)))) (\<lambda>t.
     bindR (legacy_recovery_id t) (\<lambda>(_, chain_id).
     case chain_id of None \<Rightarrow> Inr t
     | Some c \<Rightarrow> txpy (legacy_replace (t\<lparr>lt_chain_id := Some c\<rparr>)))))))))))))"

text \<open>The twelve arguments that the two typed decoders pass to \<open>EIP1559Transaction\<close>, in their order.\<close>

definition decode_base_tx ::
  "rlp \<Rightarrow> rlp \<Rightarrow> rlp \<Rightarrow> rlp \<Rightarrow> rlp \<Rightarrow> rlp \<Rightarrow> rlp \<Rightarrow> rlp \<Rightarrow> rlp \<Rightarrow> rlp \<Rightarrow> rlp \<Rightarrow> rlp
   \<Rightarrow> (tx_error, eip1559_tx) result" where
  "decode_base_tx chain_id nonce max_priority max_fee gas_limit dest val data access_list v r s =
     bindR (bindR (expect_bytes chain_id) (\<lambda>bs. Inr (tx_decode_int bs))) (\<lambda>chain_id'.
     bindR (expect_u256 nonce) (\<lambda>nonce'.
     bindR (expect_u256 max_priority) (\<lambda>max_priority'.
     bindR (expect_u256 max_fee) (\<lambda>max_fee'.
     bindR (expect_u256 gas_limit) (\<lambda>gas_limit'.
     bindR (bindR (expect_bytes dest) decode_destination) (\<lambda>dest'.
     bindR (expect_u256 val) (\<lambda>val'.
     bindR (expect_bytes data) (\<lambda>data'.
     bindR (bindR (expect_any_list access_list) decode_access_list) (\<lambda>access_list'.
     bindR (bindR (expect_bytes v) (\<lambda>bs. Inr (tx_decode_int bs))) (\<lambda>v'.
     bindR (expect_u256 r) (\<lambda>r'.
     bindR (expect_u256 s) (\<lambda>s'.
       txpy (mk_eip1559_tx chain_id' (OpU256 nonce') (OpU256 max_priority') (OpU256 max_fee')
         (OpU256 gas_limit') (map_option ArgAddress dest') (OpU256 val') data' access_list' (Some v')
         (Some (OpU256 r')) (Some (OpU256 s')))))))))))))))"

definition decode_eip1559_payload :: "bytes \<Rightarrow> (tx_error, eip1559_tx) result" where
  "decode_eip1559_payload payload =
     bindR (tx_rlp_fields payload 12) (\<lambda>f.
       decode_base_tx (f ! 0) (f ! 1) (f ! 2) (f ! 3) (f ! 4) (f ! 5) (f ! 6) (f ! 7) (f ! 8)
         (f ! 9) (f ! 10) (f ! 11))"

definition decode_zk_payload :: "bytes \<Rightarrow> (tx_error, zk_tx) result" where
  "decode_zk_payload payload =
     bindR (tx_rlp_fields payload 15) (\<lambda>f.
     case f ! 11 of RBytes _ \<Rightarrow> Inl TransactionDecodeError
     | RList public_inputs \<Rightarrow>
         bindR (mapR expect_u256 public_inputs) (\<lambda>parsed_public_inputs.
         bindR (decode_base_tx (f ! 0) (f ! 1) (f ! 2) (f ! 3) (f ! 4) (f ! 5) (f ! 6) (f ! 7) (f ! 8)
           (f ! 12) (f ! 13) (f ! 14)) (\<lambda>base_tx.
         bindR (expect_bytes (f ! 9)) (\<lambda>pt.
         bindR (txpy (mk_proof_type (tx_decode_int pt))) (\<lambda>proof_type.
         bindR (expect_bytes (f ! 10)) (\<lambda>proof_data.
           txpy (mk_zk_tx base_tx \<lparr>zkp_type = proof_type, zkp_data = proof_data\<rparr>
             (map OpU256 parsed_public_inputs))))))))"

definition decode_transaction :: "bytes \<Rightarrow> (tx_error, transaction) result" where
  "decode_transaction payload =
     (case payload of [] \<Rightarrow> Inl TransactionDecodeError
      | b # rest \<Rightarrow>
          if uint b \<ge> 0xC0 then bindR (decode_legacy payload) (\<lambda>t. Inr (Legacy t))
          else if uint b = EIP1559_TRANSACTION_TYPE then bindR (decode_eip1559_payload rest) (\<lambda>t. Inr (Eip1559 t))
          else if uint b = ZK_TRANSACTION_TYPE then bindR (decode_zk_payload rest) (\<lambda>t. Inr (Zk t))
          else Inl TransactionDecodeError)"

section \<open>Constructor invariants\<close>

definition legacy_wf :: "legacy_tx \<Rightarrow> bool" where
  "legacy_wf t \<longleftrightarrow> (case lt_chain_id t of Some c \<Rightarrow> 1 \<le> c | None \<Rightarrow> True)"

definition eip1559_wf :: "eip1559_tx \<Rightarrow> bool" where
  "eip1559_wf t \<longleftrightarrow> 1 \<le> et_chain_id t \<and> uint (et_max_priority_fee_per_gas t) \<le> uint (et_max_fee_per_gas t)"

primrec tx_wf :: "transaction \<Rightarrow> bool" where
  "tx_wf (Legacy t) = legacy_wf t"
| "tx_wf (Eip1559 t) = eip1559_wf t"
| "tx_wf (Zk t) = eip1559_wf (zt_base_tx t)"

lemma mk_legacy_wf: "mk_legacy_tx n p g d v dat c sv r s = Inr t \<Longrightarrow> legacy_wf t"
  by (auto simp: mk_legacy_tx_def legacy_wf_def split: if_splits option.splits)

lemma mk_eip1559_wf: "mk_eip1559_tx c n mp mf g d v dat al sv r s = Inr t \<Longrightarrow> eip1559_wf t"
  by (auto simp: mk_eip1559_tx_def eip1559_wf_def split: if_splits)

lemma legacy_replace_wf: "legacy_wf t \<Longrightarrow> legacy_replace t = Inr t"
  by (cases "lt_to t"; cases "lt_r t"; cases "lt_s t"; cases "lt_chain_id t")
    (simp_all add: legacy_replace_def mk_legacy_tx_def legacy_wf_def)

lemma eip1559_replace_wf: "eip1559_wf t \<Longrightarrow> eip1559_replace t = Inr t"
  by (cases "et_to t"; cases "et_r t"; cases "et_s t")
    (simp_all add: eip1559_replace_def mk_eip1559_tx_def eip1559_wf_def)

lemma mk_zk_tx_words: "mk_zk_tx b p (map OpU256 ws) = Inr \<lparr>zt_base_tx = b, zt_proof = p, zt_public_inputs = ws\<rparr>"
  by (simp add: mk_zk_tx_def mapR_map mapR_InrI[of ws _ "\<lambda>w. w"])

lemma mk_zk_wf: "eip1559_wf b \<Longrightarrow> mk_zk_tx b p ws = Inr t \<Longrightarrow> eip1559_wf (zt_base_tx t)"
  by (auto simp: mk_zk_tx_def)

text \<open>Every decoded transaction satisfies the invariant of its class.\<close>

lemma decode_base_tx_wf: "decode_base_tx c n mp mf g d v dat al sv r s = Inr t \<Longrightarrow> eip1559_wf t"
  by (auto simp: decode_base_tx_def dest: mk_eip1559_wf)

lemma decode_legacy_wf: "decode_legacy raw = Inr t \<Longrightarrow> legacy_wf t"
  by (auto simp: decode_legacy_def legacy_replace_def split: option.splits dest: mk_legacy_wf)

lemma decode_zk_wf: "decode_zk_payload raw = Inr t \<Longrightarrow> eip1559_wf (zt_base_tx t)"
proof -
  assume dec: "decode_zk_payload raw = Inr t"
  then obtain f where f: "tx_rlp_fields raw 15 = Inr f" by (auto simp: decode_zk_payload_def)
  show ?thesis
  proof (cases "f ! 11")
    case (RList xs)
    then show ?thesis
      using dec f by (auto simp: decode_zk_payload_def mk_zk_tx_words dest: decode_base_tx_wf)
  qed (use dec f in \<open>simp add: decode_zk_payload_def\<close>)
qed

lemma decode_transaction_wf: "decode_transaction raw = Inr t \<Longrightarrow> tx_wf t"
  by (auto simp: decode_transaction_def decode_eip1559_payload_def
      split: list.splits if_splits dest: decode_legacy_wf decode_base_tx_wf decode_zk_wf)

section \<open>Round trip\<close>

subsection \<open>Fields\<close>

lemma tx_decode_u256_int [simp]: "tx_decode_u256 (int_bytes (uint w)) = Inr w"
  by (auto simp: tx_decode_u256_def u256_zero_def be_int_int_bytes uint_0_iff)

lemma tx_decode_int_int [simp]: "0 \<le> v \<Longrightarrow> tx_decode_int (int_bytes v) = v"
  by (simp add: tx_decode_int_def be_int_int_bytes)

lemma decode_destination_encode [simp]: "decode_destination (encode_destination d) = Inr d"
  by (cases d)
    (auto simp: decode_destination_def encode_destination_def ADDRESS_SIZE_def simp flip: length_0_conv)

lemma u256_from_bytes32 [simp]: "u256_from_bytes (u256_bytes32 k) BigEndian = Inr k"
  using uint_lt2p[of k] by (simp add: u256_from_bytes_def u256_bytes32_def be_int_be_bytes_id)

lemma length_u256_bytes32 [simp]: "length (u256_bytes32 k) = 32"
  by (simp add: u256_bytes32_def)

lemma decode_storage_key_image: "decode_storage_key (RBytes (u256_bytes32 k)) = Inr k"
  by (simp add: decode_storage_key_def u256_from_bytes32)

lemma decode_access_entry_image: "decode_access_entry (rlp_image (access_entry_to_rlp e)) = Inr e"
  using decode_destination_encode[of "Some (al_address e)"]
  by (simp add: decode_access_entry_def access_entry_to_rlp_def mapR_map encode_destination_def
      mk_access_entry_def mapR_InrI[where g = "\<lambda>k. k"] decode_storage_key_image)

lemma decode_access_list_image:
  "bindR (expect_any_list (rlp_image (encode_access_list es))) decode_access_list = Inr es"
  by (simp add: expect_any_list_def expect_rlp_list_def encode_access_list_def decode_access_list_def
      mapR_map decode_access_entry_image mapR_InrI[where g = "\<lambda>e. e"])

lemma access_list_ok [simp]: "rlp_ok (encode_access_list es)"
  by (auto simp: encode_access_list_def access_entry_to_rlp_def list_all_iff)

subsection \<open>Whole transactions\<close>

text \<open>The list a transaction is encoded as, behind its type byte.\<close>

primrec tx_rlp_obj :: "transaction \<Rightarrow> rlp_obj" where
  "tx_rlp_obj (Legacy t) = ObjList (legacy_base_fields t @
     [ObjInt (the (lt_v t)), ObjInt (uint (the (lt_r t))), ObjInt (uint (the (lt_s t)))])"
| "tx_rlp_obj (Eip1559 t) = ObjList (eip1559_unsigned_rlp_fields t @
     [ObjInt (the (et_v t)), ObjInt (uint (the (et_r t))), ObjInt (uint (the (et_s t)))])"
| "tx_rlp_obj (Zk t) = ObjList (zk_unsigned_rlp_fields t @
     [ObjInt (the (et_v (zt_base_tx t))), ObjInt (uint (the (et_r (zt_base_tx t)))),
      ObjInt (uint (the (et_s (zt_base_tx t))))])"

text \<open>
  What the round trip needs: the invariant of the constructor, all three signature values, a \<open>v\<close>
  that is not negative, and for a legacy transaction a \<open>v\<close> that carries its chain identifier.
\<close>

primrec tx_encodable :: "transaction \<Rightarrow> bool" where
  "tx_encodable (Legacy t) \<longleftrightarrow> legacy_wf t \<and>
     (case legacy_recovery_id t of Inr (_, c) \<Rightarrow> c = lt_chain_id t | Inl _ \<Rightarrow> False)"
| "tx_encodable (Eip1559 t) \<longleftrightarrow> eip1559_wf t \<and> eip1559_is_signed t \<and> 0 \<le> the (et_v t)"
| "tx_encodable (Zk t) \<longleftrightarrow> eip1559_wf (zt_base_tx t) \<and> eip1559_is_signed (zt_base_tx t)
     \<and> 0 \<le> the (et_v (zt_base_tx t))"

lemma tx_rlp_fields_ref:
  assumes "rlp_ok (ObjList fs)" "rlp_fits (rlp_image (ObjList fs))" "length fs = n"
  shows "tx_rlp_fields (rlp_ref (rlp_image (ObjList fs))) n =
    (if rlp_has55 (rlp_image (ObjList fs)) then Inl TransactionDecodeError else Inr (map rlp_image fs))"
  unfolding tx_rlp_fields_def rlp_decode_ref[OF assms(2)] using assms(3) by (simp add: expect_rlp_list_def)

lemma legacy_recovery_v:
  assumes "legacy_recovery_id t = Inr (rid, c)"
  shows "\<exists>v r s. lt_v t = Some v \<and> lt_r t = Some r \<and> lt_s t = Some s \<and> 0 \<le> v \<and> rid \<in> {0, 1}
    \<and> v = (case c of None \<Rightarrow> 27 + rid | Some k \<Rightarrow> 35 + 2 * k + rid) \<and> (\<forall>k. c = Some k \<longrightarrow> 1 \<le> k)"
  using assms
  by (auto simp: legacy_recovery_id_def legacy_is_signed_def Let_def LEGACY_V_OFFSET_def
      EIP155_CHAIN_ID_OFFSET_def split: if_splits)

lemma legacy_recovery_update [simp]:
  "legacy_recovery_id (t\<lparr>lt_chain_id := c\<rparr>) = legacy_recovery_id t"
  by (simp add: legacy_recovery_id_def legacy_is_signed_def)

lemma decode_legacy_ref:
  assumes enc: "tx_encodable (Legacy t)" and fits: "rlp_fits (rlp_image (tx_rlp_obj (Legacy t)))"
  shows "decode_legacy (rlp_ref (rlp_image (tx_rlp_obj (Legacy t)))) =
    (if rlp_has55 (rlp_image (tx_rlp_obj (Legacy t))) then Inl TransactionDecodeError else Inr t)"
proof -
  obtain rid where rid: "legacy_recovery_id t = Inr (rid, lt_chain_id t)" and wf: "legacy_wf t"
    using enc by (auto split: sum.splits)
  from legacy_recovery_v[OF rid] obtain v r s where
    sig: "lt_v t = Some v" "lt_r t = Some r" "lt_s t = Some s" "0 \<le> v" by blast
  let ?fs = "legacy_base_fields t @ [ObjInt v, ObjInt (uint r), ObjInt (uint s)]"
  let ?t = "t\<lparr>lt_chain_id := None\<rparr>"
  have fields: "tx_rlp_fields (rlp_ref (rlp_image (ObjList ?fs))) 9 =
      (if rlp_has55 (rlp_image (ObjList ?fs)) then Inl TransactionDecodeError else Inr (map rlp_image ?fs))"
    using fits sig by (intro tx_rlp_fields_ref) (auto simp: legacy_base_fields_def)
  have bytes: "mapR expect_bytes (map rlp_image ?fs) =
      Inr [int_bytes (uint (lt_nonce t)), int_bytes (uint (lt_gas_price t)), int_bytes (uint (lt_gas_limit t)),
        encode_destination (lt_to t), int_bytes (uint (lt_value t)), lt_data t, int_bytes v,
        int_bytes (uint r), int_bytes (uint s)]"
    by (simp add: legacy_base_fields_def expect_bytes_def)
  have mk: "mk_legacy_tx (OpU256 (lt_nonce t)) (OpU256 (lt_gas_price t)) (OpU256 (lt_gas_limit t))
      (map_option ArgAddress (lt_to t)) (OpU256 (lt_value t)) (lt_data t) None (Some v)
      (Some (OpU256 r)) (Some (OpU256 s)) = Inr ?t"
    using legacy_replace_wf[of ?t] sig by (simp add: legacy_replace_def legacy_wf_def)
  have restore: "(case lt_chain_id t of None \<Rightarrow> Inr ?t
      | Some c \<Rightarrow> txpy (legacy_replace (?t\<lparr>lt_chain_id := Some c\<rparr>))) = Inr t"
    using legacy_replace_wf[OF wf] by (cases "lt_chain_id t") (auto, metis legacy_tx.surjective legacy_tx.update_convs(7))
  have dec: "decode_legacy (rlp_ref (rlp_image (ObjList ?fs))) =
      (if rlp_has55 (rlp_image (ObjList ?fs)) then Inl TransactionDecodeError
       else case lt_chain_id t of None \<Rightarrow> Inr ?t | Some c \<Rightarrow> txpy (legacy_replace (?t\<lparr>lt_chain_id := Some c\<rparr>)))"
    unfolding decode_legacy_def fields
    by (simp add: bytes mk rid sig del: rlp_has55.simps rlp_image.simps map_append list.map split: option.split)
  show ?thesis
    using dec restore sig by (simp del: rlp_has55.simps rlp_image.simps rlp_ref.simps)
qed

lemma expect_image [simp]:
  "expect_u256 (RBytes (int_bytes (uint w))) = Inr w" "expect_bytes (RBytes bs) = Inr bs"
  by (simp_all add: expect_u256_def expect_bytes_def)

lemma decode_base_tx_image:
  assumes "eip1559_wf t" "et_v t = Some v" "et_r t = Some r" "et_s t = Some s" "0 \<le> v"
  shows "decode_base_tx (RBytes (int_bytes (et_chain_id t))) (RBytes (int_bytes (uint (et_nonce t))))
     (RBytes (int_bytes (uint (et_max_priority_fee_per_gas t)))) (RBytes (int_bytes (uint (et_max_fee_per_gas t))))
     (RBytes (int_bytes (uint (et_gas_limit t)))) (RBytes (encode_destination (et_to t)))
     (RBytes (int_bytes (uint (et_value t)))) (RBytes (et_data t)) (rlp_image (encode_access_list (et_access_list t)))
     (RBytes (int_bytes v)) (RBytes (int_bytes (uint r))) (RBytes (int_bytes (uint s))) = Inr t"
proof -
  have "0 \<le> et_chain_id t" using assms(1) by (simp add: eip1559_wf_def)
  then show ?thesis
    using eip1559_replace_wf[OF assms(1)] assms(2-5)
    by (simp add: decode_base_tx_def decode_access_list_image eip1559_replace_def)
qed

lemma decode_eip1559_ref:
  assumes enc: "tx_encodable (Eip1559 t)" and fits: "rlp_fits (rlp_image (tx_rlp_obj (Eip1559 t)))"
  shows "decode_eip1559_payload (rlp_ref (rlp_image (tx_rlp_obj (Eip1559 t)))) =
    (if rlp_has55 (rlp_image (tx_rlp_obj (Eip1559 t))) then Inl TransactionDecodeError else Inr t)"
proof -
  obtain v r s where sig: "et_v t = Some v" "et_r t = Some r" "et_s t = Some s" "0 \<le> v" and wf: "eip1559_wf t"
    using enc by (auto simp: eip1559_is_signed_def)
  let ?fs = "eip1559_unsigned_rlp_fields t @ [ObjInt v, ObjInt (uint r), ObjInt (uint s)]"
  have fields: "tx_rlp_fields (rlp_ref (rlp_image (ObjList ?fs))) 12 =
      (if rlp_has55 (rlp_image (ObjList ?fs)) then Inl TransactionDecodeError else Inr (map rlp_image ?fs))"
    using fits sig wf by (intro tx_rlp_fields_ref) (auto simp: eip1559_unsigned_rlp_fields_def eip1559_wf_def)
  have image: "map rlp_image ?fs = [RBytes (int_bytes (et_chain_id t)), RBytes (int_bytes (uint (et_nonce t))),
     RBytes (int_bytes (uint (et_max_priority_fee_per_gas t))), RBytes (int_bytes (uint (et_max_fee_per_gas t))),
     RBytes (int_bytes (uint (et_gas_limit t))), RBytes (encode_destination (et_to t)),
     RBytes (int_bytes (uint (et_value t))), RBytes (et_data t), rlp_image (encode_access_list (et_access_list t)),
     RBytes (int_bytes v), RBytes (int_bytes (uint r)), RBytes (int_bytes (uint s))]"
    by (simp add: eip1559_unsigned_rlp_fields_def)
  have obj: "tx_rlp_obj (Eip1559 t) = ObjList ?fs" using sig by simp
  show ?thesis
    unfolding obj decode_eip1559_payload_def fields image
    using decode_base_tx_image[OF wf sig] by (simp add: image del: rlp_has55.simps rlp_image.simps)
qed

lemma decode_zk_ref:
  assumes enc: "tx_encodable (Zk t)" and fits: "rlp_fits (rlp_image (tx_rlp_obj (Zk t)))"
  shows "decode_zk_payload (rlp_ref (rlp_image (tx_rlp_obj (Zk t)))) =
    (if rlp_has55 (rlp_image (tx_rlp_obj (Zk t))) then Inl TransactionDecodeError else Inr t)"
proof -
  let ?b = "zt_base_tx t"
  obtain v r s where sig: "et_v ?b = Some v" "et_r ?b = Some r" "et_s ?b = Some s" "0 \<le> v" and wf: "eip1559_wf ?b"
    using enc by (auto simp: eip1559_is_signed_def)
  let ?fs = "zk_unsigned_rlp_fields t @ [ObjInt v, ObjInt (uint r), ObjInt (uint s)]"
  let ?in = "map (\<lambda>w. RBytes (int_bytes (uint w))) (zt_public_inputs t)"
  have fields: "tx_rlp_fields (rlp_ref (rlp_image (ObjList ?fs))) 15 =
      (if rlp_has55 (rlp_image (ObjList ?fs)) then Inl TransactionDecodeError else Inr (map rlp_image ?fs))"
    using fits sig wf
    by (intro tx_rlp_fields_ref) (auto simp: zk_unsigned_rlp_fields_def eip1559_wf_def Let_def list_all_iff)
  have image: "map rlp_image ?fs = [RBytes (int_bytes (et_chain_id ?b)), RBytes (int_bytes (uint (et_nonce ?b))),
     RBytes (int_bytes (uint (et_max_priority_fee_per_gas ?b))), RBytes (int_bytes (uint (et_max_fee_per_gas ?b))),
     RBytes (int_bytes (uint (et_gas_limit ?b))), RBytes (encode_destination (et_to ?b)),
     RBytes (int_bytes (uint (et_value ?b))), RBytes (et_data ?b), rlp_image (encode_access_list (et_access_list ?b)),
     RBytes (int_bytes (proof_type_int (zkp_type (zt_proof t)))), RBytes (zkp_data (zt_proof t)), RList ?in,
     RBytes (int_bytes v), RBytes (int_bytes (uint r)), RBytes (int_bytes (uint s))]"
    by (simp add: zk_unsigned_rlp_fields_def Let_def)
  have inputs: "mapR expect_u256 ?in = Inr (zt_public_inputs t)"
    by (simp add: mapR_map mapR_InrI[where g = "\<lambda>w. w"])
  have obj: "tx_rlp_obj (Zk t) = ObjList ?fs" using sig by simp
  show ?thesis
    unfolding obj decode_zk_payload_def fields image
    using decode_base_tx_image[OF wf sig]
    by (simp add: image inputs mk_zk_tx_words del: rlp_has55.simps rlp_image.simps)
qed

lemma tx_encode_ref:
  assumes "tx_encodable t"
  shows "tx_encode t = Inr ((case tx_type_byte t of None \<Rightarrow> [] | Some b \<Rightarrow> [word_of_int b])
    @ rlp_ref (rlp_image (tx_rlp_obj t)))"
proof (cases t)
  case (Legacy l)
  then obtain rid where rid: "legacy_recovery_id l = Inr (rid, lt_chain_id l)"
    using assms by (auto split: sum.splits)
  from legacy_recovery_v[OF rid] obtain v r s where
    sig: "lt_v l = Some v" "lt_r l = Some r" "lt_s l = Some s" "0 \<le> v" by blast
  have "rlp_ok (tx_rlp_obj t)" using Legacy sig by (simp add: legacy_base_fields_def)
  from rlp_encode_image[OF this] show ?thesis
    using Legacy sig by (simp add: legacy_encode_def del: rlp_image.simps rlp_encode.simps)
next
  case (Eip1559 e)
  then obtain v r s where sig: "et_v e = Some v" "et_r e = Some r" "et_s e = Some s" "0 \<le> v" "eip1559_wf e"
    using assms by (auto simp: eip1559_is_signed_def)
  then have "rlp_ok (tx_rlp_obj t)" using Eip1559 by (simp add: eip1559_unsigned_rlp_fields_def eip1559_wf_def)
  from rlp_encode_image[OF this] show ?thesis
    using Eip1559 sig by (simp add: eip1559_encode_def del: rlp_image.simps rlp_encode.simps)
next
  case (Zk z)
  let ?e = "zt_base_tx z"
  obtain v r s where sig: "et_v ?e = Some v" "et_r ?e = Some r" "et_s ?e = Some s" "0 \<le> v" "eip1559_wf ?e"
    using assms Zk by (auto simp: eip1559_is_signed_def)
  then have "rlp_ok (tx_rlp_obj t)"
    using Zk by (simp add: zk_unsigned_rlp_fields_def eip1559_wf_def Let_def list_all_iff)
  from rlp_encode_image[OF this] show ?thesis
    using Zk sig by (simp add: zk_encode_def del: rlp_image.simps rlp_encode.simps)
qed

lemma decode_encoded_transaction:
  assumes "tx_encodable t" "rlp_fits (rlp_image (tx_rlp_obj t))"
  shows "\<exists>bs. tx_encode t = Inr bs \<and> decode_transaction bs =
    (if rlp_has55 (rlp_image (tx_rlp_obj t)) then Inl TransactionDecodeError else Inr t)"
proof -
  let ?w = "rlp_ref (rlp_image (tx_rlp_obj t))"
  note enc = tx_encode_ref[OF assms(1)]
  show ?thesis
  proof (cases t)
    case (Legacy l)
    obtain vs where vs: "rlp_image (tx_rlp_obj t) = RList vs" using Legacy by simp
    then have "length (concat (map rlp_ref vs)) < 256 ^ 8" using assms(2) by simp
    from rlp_ref_list_head[OF this] have "0xC0 \<le> uint (hd ?w)" by (simp only: vs)
    moreover obtain b w where "?w = b # w" using rlp_ref_nonempty[of "rlp_image (tx_rlp_obj t)"] by (cases ?w) auto
    ultimately have "decode_transaction ?w = bindR (decode_legacy ?w) (\<lambda>t. Inr (Legacy t))"
      by (simp add: decode_transaction_def)
    then show ?thesis
      using enc decode_legacy_ref[of l] assms Legacy by (simp del: rlp_has55.simps tx_rlp_obj.simps)
  next
    case (Eip1559 e)
    then show ?thesis
      using enc decode_eip1559_ref[of e] assms
      by (simp add: decode_transaction_def EIP1559_TRANSACTION_TYPE_def del: rlp_has55.simps tx_rlp_obj.simps)
  next
    case (Zk z)
    then show ?thesis
      using enc decode_zk_ref[of z] assms
      by (simp add: decode_transaction_def EIP1559_TRANSACTION_TYPE_def ZK_TRANSACTION_TYPE_def
          del: rlp_has55.simps tx_rlp_obj.simps)
  qed
qed

text \<open>
  C9. A signed transaction of any of the three kinds is encoded, and the decoder of raw transactions gives
  back the transaction itself, unless a string or list of its encoding has a payload of exactly 55 bytes:
  then it raises \<open>TransactionDecodeError\<close>.
\<close>

theorem decode_transaction_after_encode:
  assumes "tx_encodable t" "rlp_fits (rlp_image (tx_rlp_obj t))"
  shows "\<exists>bs. tx_encode t = Inr bs \<and> decode_transaction bs =
    (if rlp_has55 (rlp_image (tx_rlp_obj t)) then Inl TransactionDecodeError else Inr t)"
  by (rule decode_encoded_transaction[OF assms])

section \<open>Signing and sender recovery\<close>

lemma signing_hash_update [simp]:
  "legacy_signing_hash (t\<lparr>lt_v := v, lt_r := r, lt_s := s\<rparr>) = legacy_signing_hash t"
  "eip1559_signing_hash (e\<lparr>et_v := v, et_r := r, et_s := s\<rparr>) = eip1559_signing_hash e"
  by (simp_all add: legacy_signing_hash_def legacy_signing_payload_def legacy_unsigned_rlp_fields_def
      legacy_base_fields_def eip1559_signing_hash_def eip1559_signing_payload_def eip1559_unsigned_rlp_fields_def)

lemma signature_from_values_sg:
  assumes "signature_wf sg" "sig_s sg \<le> SECP256K1_HALF_N" "sig_recovery_id sg < 2"
    and "uint r = sig_r sg" "uint s = sig_s sg"
  shows "signature_from_values h (sig_recovery_id sg) r s low =
    txpy (bindR (recover_public_key (hash_bytes h) sg) address_from_public_key)"
proof -
  have sg: "1 \<le> sig_r sg" "sig_r sg < SECP256K1_N" "1 \<le> sig_s sg" "sig_s sg < SECP256K1_N" "0 \<le> sig_recovery_id sg"
    using assms(1) by (auto simp: signature_wf_def mk_signature_def split: if_splits)
  have "signature_from_bytes (u256_bytes32 r @ u256_bytes32 s @ [word_of_int (sig_recovery_id sg)]) = Inr sg"
    using signature_roundtrip[OF assms(1)] by (simp add: signature_to_bytes_def u256_bytes32_def assms(4,5))
  moreover have "sig_recovery_id sg = 0 \<or> sig_recovery_id sg = 1" using sg(5) assms(3) by linarith
  ultimately show ?thesis
    using sg assms by (auto simp: signature_from_values_def)
qed

lemma sig_words:
  assumes "signature_wf sg"
  obtains r s where "mk_u256 (sig_r sg) = Inr r" "mk_u256 (sig_s sg) = Inr s" "uint r = sig_r sg" "uint s = sig_s sg"
proof -
  have "0 \<le> sig_r sg" "sig_r sg < 2 ^ 256" "0 \<le> sig_s sg" "sig_s sg < 2 ^ 256"
    using assms by (auto simp: signature_wf_def mk_signature_def SECP256K1_N_def split: if_splits)
  then show thesis using that mk_u256_Inr_iff mk_u256_uint by metis
qed

lemma legacy_signed_sender:
  assumes wf: "legacy_wf t" and sg: "signature_wf sg" "sig_s sg \<le> SECP256K1_HALF_N" "sig_recovery_id sg < 2"
    and r: "uint r = sig_r sg" and s: "uint s = sig_s sg" and h: "legacy_signing_hash t = Inr h"
    and t': "t' = t\<lparr>lt_v := Some (tx_sign_v (Legacy t) (sig_recovery_id sg)), lt_r := Some r, lt_s := Some s\<rparr>"
  shows "legacy_recovery_id t' = Inr (sig_recovery_id sg, lt_chain_id t)"
    "legacy_sender t' low = txpy (bindR (recover_public_key (hash_bytes h) sg) address_from_public_key)"
proof -
  have rid: "sig_recovery_id sg = 0 \<or> sig_recovery_id sg = 1"
    using sg(1,3) by (auto simp: signature_wf_def mk_signature_def split: if_splits)
  show rec: "legacy_recovery_id t' = Inr (sig_recovery_id sg, lt_chain_id t)"
    using rid wf by (cases "lt_chain_id t")
      (auto simp: t' legacy_recovery_id_def legacy_is_signed_def legacy_wf_def Let_def LEGACY_V_OFFSET_def
        EIP155_CHAIN_ID_OFFSET_def)
  obtain p where p: "legacy_signing_payload t = Inr p" "h = keccak256 p"
    using h by (auto simp: legacy_signing_hash_def)
  have "legacy_base_fields t' = legacy_base_fields t" by (simp add: t' legacy_base_fields_def)
  then have "rlp_encode (ObjList (legacy_base_fields t' @
      (case lt_chain_id t of None \<Rightarrow> [] | Some c \<Rightarrow> [ObjInt c, ObjInt 0, ObjInt 0]))) = Inr p"
    using p(1) by (simp add: legacy_signing_payload_def legacy_unsigned_rlp_fields_def)
  then show "legacy_sender t' low = txpy (bindR (recover_public_key (hash_bytes h) sg) address_from_public_key)"
    using signature_from_values_sg[OF sg r s] p(2) rec
    by (simp add: legacy_sender_def legacy_is_signed_def t' del: rlp_encode.simps)
qed

text \<open>
  C8. Signing and sender recovery fit together: when \<open>sign\<close> returns a transaction, its signing hash is the
  one that was signed, the transaction can be encoded, and \<open>sender\<close> passes every check on the signature
  values (with the low-\<open>s\<close> rule or without) and returns the address of the public key recovered from
  that signature, for the two recovery identifiers that Ethereum transactions can carry.
\<close>

theorem signed_transaction_sender:
  assumes "tx_wf t" "tx_sign hmac t private_key = Some (Inr t')"
  shows "\<exists>h sg. tx_signing_hash t = Inr h \<and> tx_signing_hash t' = Inr h
    \<and> sign_message_hash hmac (hash_bytes h) private_key = Some (Inr sg)
    \<and> (sig_recovery_id sg < 2 \<longrightarrow> tx_encodable t' \<and>
        tx_sender t' low = txpy (bindR (recover_public_key (hash_bytes h) sg) address_from_public_key))"
proof -
  obtain h sg where h: "tx_signing_hash t = Inr h" and sg: "sign_message_hash hmac (hash_bytes h) private_key = Some (Inr sg)"
    and w: "tx_with_signature t (tx_sign_v t (sig_recovery_id sg)) (OpInt (sig_r sg)) (OpInt (sig_s sg)) = Inr t'"
    using assms(2) by (auto simp: tx_sign_def split: sum.splits bind_splits)
  note sound = sign_message_hash_sound[OF sg]
  obtain r s where rs: "mk_u256 (sig_r sg) = Inr r" "mk_u256 (sig_s sg) = Inr s" "uint r = sig_r sg" "uint s = sig_s sg"
    using sound sig_words by blast
  have rid: "0 \<le> sig_recovery_id sg"
    using sound by (auto simp: signature_wf_def mk_signature_def split: if_splits)
  have "tx_signing_hash t' = Inr h \<and> (sig_recovery_id sg < 2 \<longrightarrow> tx_encodable t' \<and>
      tx_sender t' low = txpy (bindR (recover_public_key (hash_bytes h) sg) address_from_public_key))"
  proof (cases t)
    case (Legacy l)
    let ?l = "l\<lparr>lt_v := Some (tx_sign_v (Legacy l) (sig_recovery_id sg)), lt_r := Some r, lt_s := Some s\<rparr>"
    have wf: "legacy_wf l" "legacy_wf ?l" using assms(1) Legacy by (simp_all add: legacy_wf_def)
    then have t': "t' = Legacy ?l"
      using w Legacy rs by (simp add: legacy_with_signature_def legacy_replace_wf)
    have "legacy_signing_hash l = Inr h" using h Legacy by simp
    from legacy_signed_sender[OF wf(1) _ _ _ rs(3,4) this refl] show ?thesis
      using sound h Legacy wf by (simp add: t' del: tx_sign_v.simps)
  next
    case (Eip1559 e)
    let ?e = "e\<lparr>et_v := Some (sig_recovery_id sg), et_r := Some r, et_s := Some s\<rparr>"
    have wf: "eip1559_wf ?e" using assms(1) Eip1559 by (simp add: eip1559_wf_def)
    then have t': "t' = Eip1559 ?e"
      using w Eip1559 rs by (simp add: eip1559_with_signature_def eip1559_replace_wf)
    show ?thesis
      using sound h Eip1559 wf rid signature_from_values_sg[OF _ _ _ rs(3,4)]
      by (simp add: t' eip1559_sender_def eip1559_is_signed_def)
  next
    case (Zk z)
    let ?e = "(zt_base_tx z)\<lparr>et_v := Some (sig_recovery_id sg), et_r := Some r, et_s := Some s\<rparr>"
    have wf: "eip1559_wf ?e" using assms(1) Zk by (simp add: eip1559_wf_def)
    then have t': "t' = Zk (z\<lparr>zt_base_tx := ?e\<rparr>)"
      using w Zk rs
      by (cases z) (auto simp: zk_with_signature_def eip1559_with_signature_def eip1559_replace_wf mk_zk_tx_words)
    have "zk_signing_hash (z\<lparr>zt_base_tx := ?e\<rparr>) = zk_signing_hash z"
      by (simp add: zk_signing_hash_def zk_signing_payload_def zk_unsigned_rlp_fields_def Let_def del: rlp_encode.simps)
    then show ?thesis
      using sound h Zk wf rid signature_from_values_sg[OF _ _ _ rs(3,4)]
      by (simp add: t' zk_sender_def eip1559_is_signed_def)
  qed
  with h sg show ?thesis by blast
qed

subsection \<open>Witnesses\<close>

definition demo_tx :: eip1559_tx where
  "demo_tx = \<lparr>et_chain_id = 1, et_nonce = 0, et_max_priority_fee_per_gas = 1, et_max_fee_per_gas = 2,
     et_gas_limit = 3, et_to = None, et_value = 4, et_data = [5, 6], et_access_list = [],
     et_v = None, et_r = None, et_s = None\<rparr>"

theorem signed_transaction_sender_witness:
  "\<exists>t' h sg. tx_sign demo_hmac (Eip1559 demo_tx) 1 = Some (Inr t') \<and> tx_signing_hash t' = Inr h
     \<and> tx_encodable t'
     \<and> tx_sender t' True = txpy (bindR (recover_public_key (hash_bytes h) sg) address_from_public_key)"
proof -
  have wf: "eip1559_wf demo_tx" by (simp add: eip1559_wf_def demo_tx_def)
  have "rlp_ok (ObjList (eip1559_unsigned_rlp_fields demo_tx))"
    by (simp add: eip1559_unsigned_rlp_fields_def demo_tx_def)
  then obtain h where h: "eip1559_signing_hash demo_tx = Inr h"
    using rlp_encode_image[of "ObjList (eip1559_unsigned_rlp_fields demo_tx)"]
    by (auto simp: eip1559_signing_hash_def eip1559_signing_payload_def simp del: rlp_encode.simps)
  obtain sg where sg: "sign_message_hash demo_hmac (hash_bytes h) 1 = Some (Inr sg)" "sig_recovery_id sg < 2"
    using demo_signs[of "hash_bytes h"] by auto
  obtain r s where rs: "mk_u256 (sig_r sg) = Inr r" "mk_u256 (sig_s sg) = Inr s"
    using sign_message_hash_sound[OF sg(1)] sig_words by metis
  let ?e = "demo_tx\<lparr>et_v := Some (sig_recovery_id sg), et_r := Some r, et_s := Some s\<rparr>"
  have "eip1559_wf ?e" using wf by (simp add: eip1559_wf_def)
  then have t': "tx_sign demo_hmac (Eip1559 demo_tx) 1 = Some (Inr (Eip1559 ?e))"
    using h sg(1) rs by (simp add: tx_sign_def eip1559_with_signature_def eip1559_replace_wf)
  from signed_transaction_sender[OF _ this, of True] wf sg h show ?thesis
    by (auto intro!: exI[of _ "Eip1559 ?e"] t')
qed

lemma int_bytes_small: "0 < n \<Longrightarrow> n < 256 \<Longrightarrow> int_bytes n = [word_of_int n]"
  using byte_length_eq[of 0 n] by simp

theorem decode_transaction_after_encode_witness:
  "\<exists>bs. tx_encode (Eip1559 (demo_tx\<lparr>et_v := Some 1, et_r := Some 7, et_s := Some 8\<rparr>)) = Inr bs
     \<and> decode_transaction bs = Inr (Eip1559 (demo_tx\<lparr>et_v := Some 1, et_r := Some 7, et_s := Some 8\<rparr>))"
proof -
  let ?t = "Eip1559 (demo_tx\<lparr>et_v := Some 1, et_r := Some 7, et_s := Some 8\<rparr>)"
  have enc: "tx_encodable ?t" by (simp add: eip1559_wf_def eip1559_is_signed_def demo_tx_def)
  have img: "rlp_image (tx_rlp_obj ?t) = RList [RBytes [1], RBytes [], RBytes [1], RBytes [2], RBytes [3],
      RBytes [], RBytes [4], RBytes [5, 6], RList [], RBytes [1], RBytes [7], RBytes [8]]"
    by (simp add: eip1559_unsigned_rlp_fields_def demo_tx_def int_bytes_small encode_destination_def
        encode_access_list_def)
  have "rlp_fits (rlp_image (tx_rlp_obj ?t)) \<and> \<not> rlp_has55 (rlp_image (tx_rlp_obj ?t))"
    unfolding img by (simp add: rlp_encode_bytes_def rlp_wrap_list_def Let_def)
  with decode_transaction_after_encode[OF enc] show ?thesis by auto
qed

text \<open>
  The converse of the round trip fails: integers with leading zero bytes are accepted, so that two
  different payloads decode to the same transaction, although their hashes differ in general.
\<close>

lemma decode_transaction_not_injective:
  "\<exists>raw raw' t. raw \<noteq> raw' \<and> decode_transaction raw = Inr t \<and> decode_transaction raw' = Inr t"
proof -
  let ?v = "\<lambda>nonce. RList [RBytes [1], RBytes nonce, RBytes [1], RBytes [2], RBytes [3],
      RBytes [], RBytes [4], RBytes [5, 6], RList [], RBytes [1], RBytes [7], RBytes [8]]"
  let ?t = "Eip1559 (demo_tx\<lparr>et_v := Some 1, et_r := Some 7, et_s := Some 8\<rparr>)"
  have dec: "decode_transaction (0x02 # rlp_ref (?v nonce)) = Inr ?t" if "nonce = [] \<or> nonce = [0]" for nonce
  proof -
    have "rlp_fits (?v nonce)" "\<not> rlp_has55 (?v nonce)"
      using that by (auto simp: rlp_encode_bytes_def rlp_wrap_list_def Let_def)
    then have "rlp_decode (rlp_ref (?v nonce)) = Inr (?v nonce)" by (simp only: rlp_decode_ref if_False)
    then show ?thesis
      using that
      by (auto simp: decode_transaction_def EIP1559_TRANSACTION_TYPE_def decode_eip1559_payload_def
          tx_rlp_fields_def expect_rlp_list_def decode_base_tx_def expect_u256_def expect_any_list_def
          decode_access_list_def decode_destination_def tx_decode_u256_def tx_decode_int_def be_int_def
          mk_u256_word u256_zero_def mk_eip1559_tx_def demo_tx_def simp del: rlp_ref.simps)
  qed
  have "rlp_ref (?v []) \<noteq> rlp_ref (?v [0])"
    by (simp add: rlp_encode_bytes_def rlp_wrap_list_def Let_def)
  then show ?thesis using dec[of "[]"] dec[of "[0]"] by blast
qed

end
