(* ===== verification/Fees.thy ===== *)
theory Fees
  imports Transactions Evm_Base
begin

text \<open>
  The fee rules of the execution layer: the base-fee controller (\<open>execution/base_fee.py\<close>), the chain
  configuration and block environment (\<open>execution/block.py\<close>), the exceptions
  (\<open>execution/exceptions.py\<close>), the fee market (\<open>execution/fee_market.py\<close>) and the intrinsic gas
  (\<open>execution/intrinsic_gas.py\<close>). The lemmas bound the movement of the base fee and show how a
  transaction's price splits into the burned base fee and the tip.
\<close>

section \<open>Base fee\<close>

definition DEFAULT_BASE_FEE_MAX_CHANGE_DENOMINATOR :: int where "DEFAULT_BASE_FEE_MAX_CHANGE_DENOMINATOR = 8"
definition DEFAULT_ELASTICITY_MULTIPLIER :: int where "DEFAULT_ELASTICITY_MULTIPLIER = 2"
definition DEFAULT_GAS_LIMIT_BOUND_DIVISOR :: int where "DEFAULT_GAS_LIMIT_BOUND_DIVISOR = 1024"
definition DEFAULT_INITIAL_BASE_FEE :: int where "DEFAULT_INITIAL_BASE_FEE = 1000000000"

definition compute_gas_target :: "int \<Rightarrow> int \<Rightarrow> (py_error, int) result" where
  "compute_gas_target gas_limit elasticity_multiplier =
     (if gas_limit < 0 then Inl ValueError
      else if elasticity_multiplier < 1 then Inl ValueError
      else Inr (gas_limit div elasticity_multiplier))"

definition compute_next_base_fee :: "int \<Rightarrow> int \<Rightarrow> int \<Rightarrow> int \<Rightarrow> (py_error, int) result" where
  "compute_next_base_fee parent_base_fee parent_gas_used parent_gas_target denominator =
     (if parent_base_fee < 0 then Inl ValueError
      else if parent_gas_used < 0 then Inl ValueError
      else if parent_gas_target \<le> 0 then Inl ValueError
      else if denominator \<le> 0 then Inl ValueError
      else if parent_gas_used = parent_gas_target then Inr parent_base_fee
      else if parent_gas_used > parent_gas_target then
        (let gas_used_delta = parent_gas_used - parent_gas_target;
             base_fee_delta = max (parent_base_fee * gas_used_delta div parent_gas_target div denominator) 1
         in Inr (parent_base_fee + base_fee_delta))
      else
        (let gas_used_delta = parent_gas_target - parent_gas_used;
             base_fee_delta = parent_base_fee * gas_used_delta div parent_gas_target div denominator
         in Inr (max (parent_base_fee - base_fee_delta) 0)))"

section \<open>Configuration and environment\<close>

datatype fee_model = LEGACY | EIP1559
datatype zk_timing = PRE_EXECUTION | DURING_EXECUTION

record chain_config =
  cfg_chain_id :: int
  cfg_fee_model :: fee_model
  cfg_support_legacy_transactions :: bool
  cfg_support_eip1559_transactions :: bool
  cfg_support_zk_transactions :: bool
  cfg_allow_unprotected_legacy_transactions :: bool
  cfg_enforce_low_s :: bool
  cfg_gas_refund_quotient :: int
  cfg_burn_base_fee :: bool
  cfg_zk_verification_timing :: zk_timing
  cfg_zk_gas_model :: zk_gas_model
  cfg_elasticity_multiplier :: int
  cfg_base_fee_max_change_denominator :: int
  cfg_gas_limit_bound_divisor :: int
  cfg_initial_base_fee_per_gas :: int
  cfg_max_extra_data_bytes :: int

definition mk_chain_config :: "chain_config \<Rightarrow> (py_error, chain_config) result" where
  "mk_chain_config c =
     (if cfg_chain_id c < 1 then Inl ValueError
      else if cfg_gas_refund_quotient c < 1 then Inl ValueError
      else if cfg_elasticity_multiplier c < 1 then Inl ValueError
      else if cfg_base_fee_max_change_denominator c < 1 then Inl ValueError
      else if cfg_gas_limit_bound_divisor c < 1 then Inl ValueError
      else if cfg_initial_base_fee_per_gas c < 0 then Inl ValueError
      else if cfg_max_extra_data_bytes c < 0 then Inl ValueError
      else Inr c)"

definition default_chain_config :: chain_config where
  "default_chain_config =
     \<lparr>cfg_chain_id = 1, cfg_fee_model = EIP1559, cfg_support_legacy_transactions = True,
      cfg_support_eip1559_transactions = True, cfg_support_zk_transactions = True,
      cfg_allow_unprotected_legacy_transactions = True, cfg_enforce_low_s = True,
      cfg_gas_refund_quotient = 5, cfg_burn_base_fee = True, cfg_zk_verification_timing = PRE_EXECUTION,
      cfg_zk_gas_model = default_zk_gas_model, cfg_elasticity_multiplier = DEFAULT_ELASTICITY_MULTIPLIER,
      cfg_base_fee_max_change_denominator = DEFAULT_BASE_FEE_MAX_CHANGE_DENOMINATOR,
      cfg_gas_limit_bound_divisor = DEFAULT_GAS_LIMIT_BOUND_DIVISOR,
      cfg_initial_base_fee_per_gas = DEFAULT_INITIAL_BASE_FEE, cfg_max_extra_data_bytes = 32\<rparr>"

record block_env =
  env_block_number :: int
  env_timestamp :: int
  env_gas_limit :: int
  env_coinbase :: address
  env_base_fee :: "int option"
  env_chain_id :: int
  env_prev_randao :: "hash option"

section \<open>Exceptions\<close>

text \<open>
  The exceptions of the execution layer with their attributes, and those of the layers below that
  pass through: of the transaction crate, builtin ones, and of the interpreter.
\<close>

datatype exec_error =
    InvalidTransactionError | InvalidSignatureError | UnsupportedTransactionTypeError
  | FeeRuleViolationError | IntrinsicGasTooLowError | InvalidZKProofError
  | NonceTooLowError address int int | NonceTooHighError address int int
  | InsufficientBalanceError address int int
  | BlockValidationError | BlockGasExceededError
  | ExecTx tx_error | ExecPy py_error | ExecEvm evm_exn

section \<open>Fee market\<close>

record gas_pricing =
  max_upfront_gas_price :: int
  effective_gas_price :: int
  priority_fee_per_gas :: int
  base_fee_per_gas :: int

definition max_gas_cost :: "gas_pricing \<Rightarrow> int \<Rightarrow> int" where
  "max_gas_cost p gas_limit = max_upfront_gas_price p * gas_limit"
definition prepaid_gas_cost :: "gas_pricing \<Rightarrow> int \<Rightarrow> int" where
  "prepaid_gas_cost p gas_limit = effective_gas_price p * gas_limit"
definition refund_amount :: "gas_pricing \<Rightarrow> int \<Rightarrow> int" where
  "refund_amount p gas_units = effective_gas_price p * gas_units"
definition tip_reward :: "gas_pricing \<Rightarrow> int \<Rightarrow> int" where
  "tip_reward p gas_used = priority_fee_per_gas p * gas_used"
definition base_fee_burn :: "gas_pricing \<Rightarrow> int \<Rightarrow> int" where
  "base_fee_burn p gas_used = base_fee_per_gas p * gas_used"

definition legacy_pricing :: "chain_config \<Rightarrow> legacy_tx \<Rightarrow> block_env \<Rightarrow> (exec_error, gas_pricing) result" where
  "legacy_pricing cfg t env =
     (let gas_price = uint (lt_gas_price t) in
      if gas_price < 0 then Inl FeeRuleViolationError
      else if cfg_fee_model cfg = EIP1559 then
        (case env_base_fee env of
           None \<Rightarrow> Inl FeeRuleViolationError
         | Some base_fee \<Rightarrow>
             if gas_price < base_fee then Inl FeeRuleViolationError
             else Inr \<lparr>max_upfront_gas_price = gas_price, effective_gas_price = gas_price,
               priority_fee_per_gas = gas_price - base_fee, base_fee_per_gas = base_fee\<rparr>)
      else Inr \<lparr>max_upfront_gas_price = gas_price, effective_gas_price = gas_price,
        priority_fee_per_gas = gas_price, base_fee_per_gas = 0\<rparr>)"

definition eip1559_pricing :: "eip1559_tx \<Rightarrow> block_env \<Rightarrow> (exec_error, gas_pricing) result" where
  "eip1559_pricing t env =
     (case env_base_fee env of
        None \<Rightarrow> Inl FeeRuleViolationError
      | Some base_fee \<Rightarrow>
          let max_priority = uint (et_max_priority_fee_per_gas t);
              max_fee = uint (et_max_fee_per_gas t) in
          if max_fee < max_priority then Inl FeeRuleViolationError
          else if max_fee < base_fee then Inl FeeRuleViolationError
          else
            let priority = min max_priority (max_fee - base_fee);
                effective = base_fee + priority
            in Inr \<lparr>max_upfront_gas_price = max_fee, effective_gas_price = effective,
              priority_fee_per_gas = priority, base_fee_per_gas = base_fee\<rparr>)"

primrec pricing_for_transaction ::
  "chain_config \<Rightarrow> transaction \<Rightarrow> block_env \<Rightarrow> (exec_error, gas_pricing) result" where
  "pricing_for_transaction cfg (Legacy t) env = legacy_pricing cfg t env"
| "pricing_for_transaction cfg (Eip1559 t) env = eip1559_pricing t env"
| "pricing_for_transaction cfg (Zk t) env = eip1559_pricing (zt_base_tx t) env"

section \<open>Intrinsic gas\<close>

definition calculate_intrinsic_gas :: "transaction \<Rightarrow> int" where
  "calculate_intrinsic_gas t =
     (case t of Zk z \<Rightarrow> eip1559_intrinsic_gas (zt_base_tx z) | _ \<Rightarrow> tx_intrinsic_gas t)"

definition calculate_zk_verification_gas :: "transaction \<Rightarrow> zk_gas_model \<Rightarrow> (py_error, int) result" where
  "calculate_zk_verification_gas t gas_model =
     (case t of Zk z \<Rightarrow> verification_gas gas_model (zt_proof z) | _ \<Rightarrow> Inr 0)"

section \<open>Laws\<close>

lemma pricing_split:
  assumes "pricing_for_transaction cfg t env = Inr p" "\<And>b. env_base_fee env = Some b \<Longrightarrow> 0 \<le> b"
  shows "effective_gas_price p = base_fee_per_gas p + priority_fee_per_gas p"
    "0 \<le> priority_fee_per_gas p" "0 \<le> base_fee_per_gas p" "effective_gas_price p \<le> max_upfront_gas_price p"
  using assms by (cases t; auto simp: legacy_pricing_def eip1559_pricing_def Let_def split: if_splits option.splits)+

lemma intrinsic_gas_min: "21000 \<le> calculate_intrinsic_gas t"
proof -
  have keys: "0 \<le> sum_list (map (\<lambda>e. int (length (al_storage_keys e)) * INTRINSIC_GAS_ACCESS_LIST_STORAGE_KEY) es)" for es
    by (induction es) (auto simp: INTRINSIC_GAS_ACCESS_LIST_STORAGE_KEY_def)
  have data: "0 \<le> data_gas d" for d
    using data_gas_bounds(1)[of d] by (rule order.trans[rotated]) simp
  have "21000 \<le> eip1559_intrinsic_gas e" for e
    using data[of "et_data e"] keys[of "et_access_list e"]
    by (simp add: eip1559_intrinsic_gas_def INTRINSIC_GAS_BASE_def INTRINSIC_GAS_CONTRACT_CREATION_def
        INTRINSIC_GAS_ACCESS_LIST_ADDRESS_def)
  moreover have "21000 \<le> legacy_intrinsic_gas l" for l
    using data[of "lt_data l"]
    by (simp add: legacy_intrinsic_gas_def INTRINSIC_GAS_BASE_def INTRINSIC_GAS_CONTRACT_CREATION_def)
  ultimately show ?thesis by (cases t) (simp_all add: calculate_intrinsic_gas_def)
qed

text \<open>The change of the base fee: at most the parent's fee over the denominator, scaled by the overshoot.\<close>

lemma base_fee_delta_bound:
  assumes "0 \<le> b" "0 < (t::int)" "0 < d" "0 \<le> u" "u \<le> k * t"
  shows "b * u div t div d \<le> k * b div d"
proof -
  have "b * u \<le> b * (k * t)" using assms by (intro mult_left_mono) auto
  then have "b * u div t \<le> b * k * t div t" using assms(2) by (intro zdiv_mono1) (simp_all add: mult.assoc)
  also have "\<dots> = k * b" using assms(2) by simp
  finally show ?thesis using assms(3) by (rule zdiv_mono1)
qed

lemma base_fee_delta_nonneg: "0 \<le> b \<Longrightarrow> 0 < t \<Longrightarrow> 0 < d \<Longrightarrow> 0 \<le> u \<Longrightarrow> 0 \<le> b * u div t div (d::int)"
  by (simp add: pos_imp_zdiv_nonneg_iff)

text \<open>
  C29. The base-fee controller, for non-negative arguments and a parent block that used at most \<open>k + 1\<close>
  times its gas target: the fee stays the same exactly on target, rises by at least one above it, never
  rises below it, never becomes negative, and moves by at most the fraction \<open>k / denominator\<close> of the
  parent's fee (or by one).
\<close>

theorem next_base_fee_controlled:
  assumes "0 \<le> fee" "0 \<le> used" "0 < target" "0 < den" "used \<le> (k + 1) * target" "1 \<le> k"
  shows "\<exists>next_fee. compute_next_base_fee fee used target den = Inr next_fee \<and> 0 \<le> next_fee
    \<and> (used = target \<longrightarrow> next_fee = fee)
    \<and> (used > target \<longrightarrow> fee + 1 \<le> next_fee \<and> next_fee \<le> fee + max (k * fee div den) 1)
    \<and> (used < target \<longrightarrow> fee - fee div den \<le> next_fee \<and> next_fee \<le> fee)"
proof -
  consider "used = target" | "used > target" | "used < target" by linarith
  then show ?thesis
  proof cases
    case 1
    then show ?thesis using assms by (simp add: compute_next_base_fee_def)
  next
    case 2
    let ?d = "fee * (used - target) div target div den"
    have "used - target \<le> k * target" using assms(5) by (simp add: algebra_simps)
    then have "?d \<le> k * fee div den" using assms 2 by (intro base_fee_delta_bound) auto
    then show ?thesis using assms 2 by (auto simp: compute_next_base_fee_def Let_def)
  next
    case 3
    let ?d = "fee * (target - used) div target div den"
    have "?d \<le> 1 * fee div den" "0 \<le> ?d"
      using assms 3 by (intro base_fee_delta_bound base_fee_delta_nonneg; simp)+
    moreover have "fee div den \<le> fee"
      using assms(1,4) by (metis div_by_1 zdiv_mono2 zero_less_one int_one_le_iff_zero_less)
    ultimately show ?thesis using assms 3 by (auto simp: compute_next_base_fee_def Let_def)
  qed
qed

theorem next_base_fee_controlled_witness:
  "\<exists>next_fee. compute_next_base_fee 1000 30 15 8 = Inr next_fee \<and> 1001 \<le> next_fee \<and> next_fee \<le> 1125"
  using next_base_fee_controlled[of 1000 30 15 8 1] by auto

text \<open>
  Whatever the transaction type, the price a transaction pays splits exactly into the block's base
  fee and a non-negative tip, and never exceeds the price whose cost the sender must be able to cover.
\<close>

theorem pricing_splits_exactly:
  assumes "pricing_for_transaction cfg t env = Inr p" "env_base_fee env = Some b" "0 \<le> b"
  shows "effective_gas_price p = base_fee_per_gas p + priority_fee_per_gas p
    \<and> base_fee_per_gas p \<in> {0, b} \<and> 0 \<le> priority_fee_per_gas p
    \<and> effective_gas_price p \<le> max_upfront_gas_price p
    \<and> (\<forall>gas. prepaid_gas_cost p gas = tip_reward p gas + base_fee_burn p gas)"
proof -
  note split = pricing_split[OF assms(1)]
  have "base_fee_per_gas p \<in> {0, b}"
    using assms by (cases t) (auto simp: legacy_pricing_def eip1559_pricing_def Let_def split: if_splits)
  then show ?thesis
    using split assms(2,3) by (auto simp: prepaid_gas_cost_def tip_reward_def base_fee_burn_def algebra_simps)
qed

theorem pricing_splits_exactly_witness:
  "\<exists>p. eip1559_pricing demo_tx \<lparr>env_block_number = 1, env_timestamp = 2, env_gas_limit = 30, env_coinbase = 0,
      env_base_fee = Some 1, env_chain_id = 1, env_prev_randao = None\<rparr> = Inr p
    \<and> effective_gas_price p = base_fee_per_gas p + priority_fee_per_gas p \<and> effective_gas_price p = 2"
proof -
  let ?env = "\<lparr>env_block_number = 1, env_timestamp = 2, env_gas_limit = 30, env_coinbase = 0,
      env_base_fee = Some 1, env_chain_id = 1, env_prev_randao = None\<rparr>"
  have "pricing_for_transaction default_chain_config (Eip1559 demo_tx) ?env =
      Inr \<lparr>max_upfront_gas_price = 2, effective_gas_price = 2, priority_fee_per_gas = 1, base_fee_per_gas = 1\<rparr>"
    by (simp add: eip1559_pricing_def demo_tx_def)
  from pricing_splits_exactly[OF this, of 1] this show ?thesis by simp
qed

end
