(* ===== verification/Receipts.thy ===== *)
theory Receipts
  imports Evm_Machine Transactions
begin

text \<open>
  Log blooms and receipts of the execution layer (\<open>execution/logs_bloom.py\<close>,
  \<open>execution/receipt.py\<close>). The lemmas show that a bloom has no false negatives, and that a receipt
  survives its serialization.
\<close>

section \<open>Log blooms\<close>

definition BLOOM_BIT_LENGTH :: int where "BLOOM_BIT_LENGTH = 2048"
definition BLOOM_BYTE_LENGTH :: nat where "BLOOM_BYTE_LENGTH = nat (BLOOM_BIT_LENGTH div 8)"

text \<open>The bit position that the bytes \<open>index\<close> and \<open>index + 1\<close> of a digest select.\<close>

definition bloom_position :: "bytes \<Rightarrow> nat \<Rightarrow> nat" where
  "bloom_position digest index =
     nat ((push_bit 8 (uint (digest ! index)) OR uint (digest ! (index + 1))) AND (BLOOM_BIT_LENGTH - 1))"

definition bloom_bits :: "bytes \<Rightarrow> int" where
  "bloom_bits raw =
     (let digest = hash_bytes (keccak256 raw)
      in fold (\<lambda>index bloom. bloom OR push_bit (bloom_position digest index) 1) [0, 2, 4] 0)"

definition bloom_for_log :: "log_entry \<Rightarrow> bytes" where
  "bloom_for_log log =
     be_bytes BLOOM_BYTE_LENGTH
       (fold (\<lambda>topic bloom. bloom OR bloom_bits (u256_bytes32 topic)) (log_topics log)
         (bloom_bits (address_bytes (log_address log))))"

fun combine_loop :: "bytes list \<Rightarrow> int \<Rightarrow> (py_error, int) result" where
  "combine_loop [] v = Inr v"
| "combine_loop (raw # blooms) v =
     (if length raw \<noteq> BLOOM_BYTE_LENGTH then Inl ValueError else combine_loop blooms (v OR be_int raw))"

definition combine_blooms :: "bytes list \<Rightarrow> (py_error, bytes) result" where
  "combine_blooms blooms = bindR (combine_loop blooms 0) (\<lambda>v. Inr (be_bytes BLOOM_BYTE_LENGTH v))"

definition logs_bloom :: "log_entry list \<Rightarrow> (py_error, bytes) result" where
  "logs_bloom logs =
     (if logs = [] then Inr (replicate BLOOM_BYTE_LENGTH 0) else combine_blooms (map bloom_for_log logs))"

section \<open>Receipts\<close>

record receipt =
  rc_status :: "int option"
  rc_cumulative_gas_used :: int
  rc_gas_used :: int
  rc_logs :: "log_entry list"
  rc_transaction_type :: "int option"
  rc_contract_address :: "address option"
  rc_transaction_hash :: "hash option"
  rc_effective_gas_price :: "int option"
  rc_post_state :: "hash option"
  rc_bloom :: bytes

text \<open>The constructor: its checks in order, then the bloom, computed from the logs when it is empty.\<close>

definition mk_receipt :: "receipt \<Rightarrow> (py_error, receipt) result" where
  "mk_receipt r =
     (if rc_cumulative_gas_used r < 0 \<or> rc_gas_used r < 0 then Inl ValueError
      else if rc_status r = None \<and> rc_post_state r = None then Inl ValueError
      else if (case rc_status r of None \<Rightarrow> False | Some st \<Rightarrow> st \<noteq> 0 \<and> st \<noteq> 1) then Inl ValueError
      else bindR (if rc_bloom r \<noteq> [] then Inr (rc_bloom r) else logs_bloom (rc_logs r)) (\<lambda>bloom.
        if length bloom \<noteq> 256 then Inl ValueError else Inr (r\<lparr>rc_bloom := bloom\<rparr>)))"

definition serialize_log :: "log_entry \<Rightarrow> rlp_obj" where
  "serialize_log log =
     ObjList [ObjBytes (address_bytes (log_address log)),
       ObjList (map (\<lambda>topic. ObjBytes (u256_bytes32 topic)) (log_topics log)), ObjBytes (log_data log)]"

definition deserialize_topic :: "rlp \<Rightarrow> (py_error, u256) result" where
  "deserialize_topic t =
     (case t of
        RBytes bs \<Rightarrow> if length bs \<noteq> 32 then Inl ValueError else u256_from_bytes bs BigEndian
      | RList _ \<Rightarrow> Inl ValueError)"

definition deserialize_log :: "rlp \<Rightarrow> (py_error, log_entry) result" where
  "deserialize_log v =
     (case v of
        RList [RBytes address_raw, RList topics_raw, data_raw] \<Rightarrow>
          if length address_raw \<noteq> ADDRESS_SIZE then Inl ValueError
          else bindR (mapR deserialize_topic topics_raw) (\<lambda>topics.
            case data_raw of RList _ \<Rightarrow> Inl ValueError
            | RBytes data \<Rightarrow> bindR (mk_address address_raw) (\<lambda>a.
                Inr \<lparr>log_address = a, log_topics = topics, log_data = data\<rparr>))
      | _ \<Rightarrow> Inl ValueError)"

definition receipt_rlp_payload :: "receipt \<Rightarrow> rlp_obj" where
  "receipt_rlp_payload r =
     ObjList
       [case rc_post_state r of
          Some h \<Rightarrow> ObjBytes (hash_bytes h)
        | None \<Rightarrow> ObjInt (case rc_status r of None \<Rightarrow> 0 | Some st \<Rightarrow> st),
        ObjInt (rc_cumulative_gas_used r), ObjBytes (rc_bloom r), ObjList (map serialize_log (rc_logs r))]"

definition receipt_rlp_encode :: "receipt \<Rightarrow> (py_error, bytes) result" where
  "receipt_rlp_encode r =
     bindR (rlp_encode (receipt_rlp_payload r)) (\<lambda>payload.
       case rc_transaction_type r of None \<Rightarrow> Inr payload
       | Some t \<Rightarrow> if 0 \<le> t \<and> t < 256 then Inr (word_of_int t # payload) else Inl ValueError)"

definition receipt_container :: "receipt \<Rightarrow> bytes \<Rightarrow> rlp_obj" where
  "receipt_container r encoded =
     ObjList
       [ObjBytes encoded, ObjInt (rc_gas_used r),
        ObjBytes (case rc_contract_address r of None \<Rightarrow> [] | Some a \<Rightarrow> address_bytes a),
        ObjBytes (case rc_transaction_hash r of None \<Rightarrow> [] | Some h \<Rightarrow> hash_bytes h),
        (case rc_effective_gas_price r of None \<Rightarrow> ObjBytes [] | Some p \<Rightarrow> ObjInt p)]"

definition receipt_serialize :: "receipt \<Rightarrow> (py_error, bytes) result" where
  "receipt_serialize r = bindR (receipt_rlp_encode r) (\<lambda>encoded. rlp_encode (receipt_container r encoded))"

definition receipt_hash :: "receipt \<Rightarrow> (py_error, hash) result" where
  "receipt_hash r = bindR (receipt_rlp_encode r) (\<lambda>bs. Inr (keccak256 bs))"

definition receipt_from_rlp_payload :: "rlp list \<Rightarrow> int option \<Rightarrow> (py_error, receipt) result" where
  "receipt_from_rlp_payload payload transaction_type =
     (case payload of
        [RBytes state_or_status, RBytes cumulative_raw, RBytes bloom_raw, RList logs_raw] \<Rightarrow>
          if length bloom_raw \<noteq> 256 then Inl ValueError
          else bindR (mapR deserialize_log logs_raw) (\<lambda>logs.
            bindR (if length state_or_status = HASH_SIZE
                   then bindR (mk_hash state_or_status) (\<lambda>h. Inr (None, Some h))
                   else Inr (Some (tx_decode_int state_or_status), None)) (\<lambda>(status, post_state).
            mk_receipt \<lparr>rc_status = status, rc_cumulative_gas_used = tx_decode_int cumulative_raw,
              rc_gas_used = 0, rc_logs = logs, rc_transaction_type = transaction_type,
              rc_contract_address = None, rc_transaction_hash = None, rc_effective_gas_price = None,
              rc_post_state = post_state, rc_bloom = bloom_raw\<rparr>))
      | _ \<Rightarrow> Inl ValueError)"

definition receipt_rlp_decode :: "bytes \<Rightarrow> (py_error, receipt) result" where
  "receipt_rlp_decode raw =
     (let (transaction_type, raw) =
        (if raw \<noteq> [] \<and> uint (hd raw) < 0x80 then (Some (uint (hd raw)), tl raw) else (None, raw)) in
      bindR (mapE (\<lambda>_. ValueError) (rlp_decode raw)) (\<lambda>decoded.
        case decoded of RBytes _ \<Rightarrow> Inl ValueError
        | RList payload \<Rightarrow> receipt_from_rlp_payload payload transaction_type))"

text \<open>An optional field of the container: falsy (empty) is \<open>None\<close>, otherwise raw bytes of a fixed width.\<close>

definition optional_field :: "rlp \<Rightarrow> (bytes \<Rightarrow> (py_error, 'a) result) \<Rightarrow> (py_error, 'a option) result" where
  "optional_field v f =
     (case v of
        RBytes bs \<Rightarrow> if bs = [] then Inr None else bindR (f bs) (\<lambda>x. Inr (Some x))
      | RList xs \<Rightarrow> if xs = [] then Inr None else Inl ValueError)"

definition receipt_deserialize :: "bytes \<Rightarrow> (py_error, receipt) result" where
  "receipt_deserialize payload =
     bindR (mapE (\<lambda>_. ValueError) (rlp_decode payload)) (\<lambda>decoded.
     case decoded of
       RList [raw_receipt, gas_used_raw, contract_address_raw, transaction_hash_raw, price_raw] \<Rightarrow>
         (case raw_receipt of RList _ \<Rightarrow> Inl ValueError
          | RBytes raw \<Rightarrow>
              bindR (receipt_rlp_decode raw) (\<lambda>r.
              bindR (case gas_used_raw of RBytes bs \<Rightarrow> Inr (tx_decode_int bs) | RList _ \<Rightarrow> Inl TypeError) (\<lambda>gas_used.
              bindR (optional_field contract_address_raw mk_address) (\<lambda>contract_address.
              bindR (optional_field transaction_hash_raw mk_hash) (\<lambda>transaction_hash.
              bindR (optional_field price_raw (\<lambda>bs. Inr (tx_decode_int bs))) (\<lambda>price.
                mk_receipt (r\<lparr>rc_gas_used := gas_used, rc_contract_address := contract_address,
                  rc_transaction_hash := transaction_hash, rc_effective_gas_price := price\<rparr>)))))))
     | _ \<Rightarrow> Inl ValueError)"

section \<open>Blooms bit by bit\<close>

lemma bit_be_int_be_bytes: "bit (be_int (be_bytes n v)) i \<longleftrightarrow> i < 8 * n \<and> bit v i"
proof -
  have "(256::int) ^ n = 2 ^ (8 * n)" by (simp add: power_mult)
  then show ?thesis by (simp add: be_int_be_bytes take_bit_eq_mod[symmetric] bit_take_bit_iff)
qed

lemma BLOOM_BYTE_LENGTH_eq [simp]: "BLOOM_BYTE_LENGTH = 256"
  by (simp add: BLOOM_BYTE_LENGTH_def BLOOM_BIT_LENGTH_def)

lemma bloom_position_bound: "bloom_position digest index < 2048"
proof -
  have "v AND (BLOOM_BIT_LENGTH - 1) = v mod 2 ^ 11" for v
    using and_mask_int[of v 11] by (simp add: BLOOM_BIT_LENGTH_def)
  moreover have "nat (v mod 2 ^ 11) < 2048" for v :: int
    using pos_mod_bound[of "2 ^ 11" v] by simp
  ultimately show ?thesis by (simp only: bloom_position_def)
qed

text \<open>The bits one item contributes.\<close>

definition item_bits :: "bytes \<Rightarrow> nat set" where
  "item_bits raw = (\<lambda>index. bloom_position (hash_bytes (keccak256 raw)) index) ` {0, 2, 4}"

definition log_items :: "log_entry \<Rightarrow> bytes set" where
  "log_items log = insert (address_bytes (log_address log)) (u256_bytes32 ` set (log_topics log))"

lemma bit_push_one: "bit (2 ^ n :: int) i \<longleftrightarrow> i = n"
  by (auto simp: bit_exp_iff)

lemma bit_bloom_bits: "bit (bloom_bits raw) i \<longleftrightarrow> i \<in> item_bits raw"
  by (auto simp: bloom_bits_def item_bits_def Let_def bit_or_iff bit_push_one)

lemma item_bits_bound: "i \<in> item_bits raw \<Longrightarrow> i < 2048"
  by (auto simp: item_bits_def bloom_position_bound)

lemma bit_fold_or:
  "bit (fold (\<lambda>x v. v OR f x) xs v) i \<longleftrightarrow> bit v i \<or> (\<exists>x\<in>set xs. bit (f x :: int) i)"
  by (induction xs arbitrary: v) (auto simp: bit_or_iff)

lemma bit_bloom_for_log: "bit (be_int (bloom_for_log log)) i \<longleftrightarrow> i \<in> \<Union> (item_bits ` log_items log)"
  by (auto simp: bloom_for_log_def bit_be_int_be_bytes bit_fold_or bit_bloom_bits log_items_def
      dest: item_bits_bound simp del: be_bytes.simps)

lemma length_bloom_for_log [simp]: "length (bloom_for_log log) = 256"
  by (simp add: bloom_for_log_def)

lemma combine_loop_ok:
  "list_all (\<lambda>b. length b = 256) bs \<Longrightarrow> combine_loop bs v = Inr (fold (\<lambda>b v. v OR be_int b) bs v)"
  by (induction bs arbitrary: v) auto

lemma combine_blooms_ok:
  assumes "list_all (\<lambda>b. length b = 256) bs"
  shows "\<exists>b. combine_blooms bs = Inr b \<and> length b = 256
    \<and> (\<forall>i. bit (be_int b) i \<longleftrightarrow> i < 2048 \<and> (\<exists>c\<in>set bs. bit (be_int c) i))"
  by (simp add: combine_blooms_def combine_loop_ok[OF assms] bit_be_int_be_bytes bit_fold_or del: be_bytes.simps)

lemma combine_blooms_error: "combine_blooms bs = Inl e \<longleftrightarrow> e = ValueError \<and> (\<exists>b\<in>set bs. length b \<noteq> 256)"
proof -
  have "combine_loop bs v = Inl e \<longleftrightarrow> e = ValueError \<and> (\<exists>b\<in>set bs. length b \<noteq> 256)" for v
    by (induction bs arbitrary: v) auto
  then show ?thesis by (simp add: combine_blooms_def bindR_eq_Inl)
qed

lemma be_int_zeros: "be_int (replicate n 0) = 0"
  by (induction n) (simp_all add: be_int_Cons)

lemma logs_bloom_len: "\<exists>b. logs_bloom logs = Inr b \<and> length b = 256"
  using combine_blooms_ok[of "map bloom_for_log logs"] by (auto simp: logs_bloom_def list_all_iff)

text \<open>
  C28. The bloom of a list of logs is exact at the level of its bits: it exists, has 256 bytes, and a bit is
  set if and only if the hash of the address or of a topic of some log selects it. In particular a bloom
  filter over these logs never misses an address or topic that occurs.
\<close>

theorem logs_bloom_exact:
  "\<exists>b. logs_bloom logs = Inr b \<and> length b = 256
     \<and> (\<forall>i. bit (be_int b) i \<longleftrightarrow> (\<exists>log\<in>set logs. \<exists>raw\<in>log_items log. i \<in> item_bits raw))"
proof (cases "logs = []")
  case False
  obtain b where "combine_blooms (map bloom_for_log logs) = Inr b" "length b = 256"
    "\<And>i. bit (be_int b) i \<longleftrightarrow> i < 2048 \<and> (\<exists>c\<in>set (map bloom_for_log logs). bit (be_int c) i)"
    using combine_blooms_ok[of "map bloom_for_log logs"] by (auto simp: list_all_iff)
  moreover have "i < 2048 \<and> (\<exists>c\<in>set (map bloom_for_log logs). bit (be_int c) i) \<longleftrightarrow>
      (\<exists>log\<in>set logs. \<exists>raw\<in>log_items log. i \<in> item_bits raw)" for i
    by (auto simp: bit_bloom_for_log dest: item_bits_bound)
  ultimately show ?thesis using False by (simp add: logs_bloom_def)
qed (simp add: logs_bloom_def be_int_zeros)

section \<open>Round trip of receipts\<close>

text \<open>An object whose encoding the RLP decoder reads back.\<close>

definition rlp_clean :: "rlp_obj \<Rightarrow> bool" where
  "rlp_clean x \<longleftrightarrow> rlp_ok x \<and> rlp_fits (rlp_image x) \<and> \<not> rlp_has55 (rlp_image x)"

lemma rlp_clean_roundtrip:
  "rlp_clean x \<Longrightarrow> rlp_encode x = Inr (rlp_ref (rlp_image x)) \<and> rlp_decode (rlp_ref (rlp_image x)) = Inr (rlp_image x)"
  by (simp add: rlp_clean_def rlp_encode_image rlp_decode_ref)

text \<open>What the format can carry: one of status and post-state, a type byte below \<open>0x80\<close>, a non-zero price.\<close>

definition receipt_storable :: "receipt \<Rightarrow> bool" where
  "receipt_storable r \<longleftrightarrow> mk_receipt r = Inr r
     \<and> (rc_post_state r = None \<or> rc_status r = None)
     \<and> (case rc_transaction_type r of None \<Rightarrow> True | Some t \<Rightarrow> 0 \<le> t \<and> t < 0x80)
     \<and> (case rc_effective_gas_price r of None \<Rightarrow> True | Some p \<Rightarrow> 0 < p)"

lemma deserialize_log_image: "deserialize_log (rlp_image (serialize_log log)) = Inr log"
  by (simp add: deserialize_log_def serialize_log_def mapR_map deserialize_topic_def ADDRESS_SIZE_def
      mapR_InrI[where g = "\<lambda>t. t"])

lemma mk_receipt_fields:
  "mk_receipt r = Inr r' \<Longrightarrow> 0 \<le> rc_cumulative_gas_used r \<and> 0 \<le> rc_gas_used r \<and> length (rc_bloom r') = 256
     \<and> (rc_status r \<noteq> None \<or> rc_post_state r \<noteq> None) \<and> (\<forall>st. rc_status r = Some st \<longrightarrow> st = 0 \<or> st = 1)"
  by (auto simp: mk_receipt_def split: if_splits option.splits)

lemma mk_receipt_clear:
  assumes "mk_receipt r = Inr r"
  shows "mk_receipt (r\<lparr>rc_gas_used := 0, rc_contract_address := c, rc_transaction_hash := h, rc_effective_gas_price := p\<rparr>)
    = Inr (r\<lparr>rc_gas_used := 0, rc_contract_address := c, rc_transaction_hash := h, rc_effective_gas_price := p\<rparr>)"
  using assms mk_receipt_fields[OF assms] by (cases "rc_bloom r") (auto simp: mk_receipt_def split: if_splits option.splits)

lemma receipt_payload_decode:
  assumes st: "receipt_storable r"
    and img: "rlp_image (receipt_rlp_payload r) = RList vs"
  shows "receipt_from_rlp_payload vs (rc_transaction_type r) =
    Inr (r\<lparr>rc_gas_used := 0, rc_contract_address := None, rc_transaction_hash := None, rc_effective_gas_price := None\<rparr>)"
proof -
  have mk: "mk_receipt r = Inr r" using st by (simp add: receipt_storable_def)
  note f = mk_receipt_fields[OF mk]
  have logs: "mapR deserialize_log (map (\<lambda>x. rlp_image (serialize_log x)) (rc_logs r)) = Inr (rc_logs r)"
    by (simp add: mapR_map deserialize_log_image mapR_InrI[where g = "\<lambda>l. l"])
  let ?r = "r\<lparr>rc_gas_used := 0, rc_contract_address := None, rc_transaction_hash := None, rc_effective_gas_price := None\<rparr>"
  show ?thesis
  proof (cases "rc_post_state r")
    case (Some h)
    then have status: "rc_status r = None" using st by (simp add: receipt_storable_def)
    have vs: "vs = [RBytes (hash_bytes h), RBytes (int_bytes (rc_cumulative_gas_used r)), RBytes (rc_bloom r),
        RList (map (\<lambda>x. rlp_image (serialize_log x)) (rc_logs r))]"
      using img Some by (simp add: receipt_rlp_payload_def comp_def)
    show ?thesis
      using mk_receipt_clear[OF mk, of None None None] Some status f logs
      by (cases r) (simp add: vs receipt_from_rlp_payload_def HASH_SIZE_def)
  next
    case None
    then obtain s where status: "rc_status r = Some s" "s = 0 \<or> s = 1" using f by auto
    have len: "length (int_bytes s) \<noteq> HASH_SIZE"
      using status(2) byte_length_eq[of 0 1] by (auto simp: HASH_SIZE_def)
    have vs: "vs = [RBytes (int_bytes s), RBytes (int_bytes (rc_cumulative_gas_used r)), RBytes (rc_bloom r),
        RList (map (\<lambda>x. rlp_image (serialize_log x)) (rc_logs r))]"
      using img None status(1) by (simp add: receipt_rlp_payload_def comp_def)
    have "tx_decode_int (int_bytes s) = s" by (rule tx_decode_int_int) (use status(2) in auto)
    then show ?thesis
      using mk_receipt_clear[OF mk, of None None None] None status(1) f len logs
      by (cases r) (simp add: vs receipt_from_rlp_payload_def)
  qed
qed

lemma receipt_rlp_decode_encode:
  assumes "receipt_storable r" "rlp_clean (receipt_rlp_payload r)"
  shows "\<exists>e. receipt_rlp_encode r = Inr e \<and> receipt_rlp_decode e =
    Inr (r\<lparr>rc_gas_used := 0, rc_contract_address := None, rc_transaction_hash := None, rc_effective_gas_price := None\<rparr>)"
proof -
  let ?p = "rlp_image (receipt_rlp_payload r)"
  obtain vs where vs: "?p = RList vs" by (simp add: receipt_rlp_payload_def)
  note rt = rlp_clean_roundtrip[OF assms(2)] and dec = receipt_payload_decode[OF assms(1) vs]
  have "length (concat (map rlp_ref vs)) < 256 ^ 8" using assms(2) vs by (simp add: rlp_clean_def)
  from rlp_ref_list_head[OF this] have hd: "0xC0 \<le> uint (hd (rlp_ref ?p))" by (simp only: vs)
  show ?thesis
  proof (cases "rc_transaction_type r")
    case None
    then show ?thesis
      using rt dec hd by (simp add: receipt_rlp_encode_def receipt_rlp_decode_def vs del: rlp_ref.simps)
  next
    case (Some t)
    then have t: "0 \<le> t" "t < 0x80" using assms(1) by (simp_all add: receipt_storable_def)
    then have "uint (word_of_int t :: byte) = t" by (simp add: uint_word_of_int_byte)
    then show ?thesis
      using Some rt dec t by (simp add: receipt_rlp_encode_def receipt_rlp_decode_def vs del: rlp_ref.simps)
  qed
qed

lemma deserialize_serialized_receipt:
  assumes "receipt_storable r" "rlp_clean (receipt_rlp_payload r)"
    and "receipt_rlp_encode r = Inr e" "rlp_clean (receipt_container r e)"
  shows "\<exists>bs. receipt_serialize r = Inr bs \<and> receipt_deserialize bs = Inr r"
proof -
  let ?c = "rlp_image (receipt_container r e)"
  note rt = rlp_clean_roundtrip[OF assms(4)]
  have mk: "mk_receipt r = Inr r" and price: "\<And>p. rc_effective_gas_price r = Some p \<Longrightarrow> 0 < p"
    using assms(1) by (auto simp: receipt_storable_def)
  have dec: "receipt_rlp_decode e =
      Inr (r\<lparr>rc_gas_used := 0, rc_contract_address := None, rc_transaction_hash := None, rc_effective_gas_price := None\<rparr>)"
    using receipt_rlp_decode_encode[OF assms(1,2)] assms(3) by auto
  let ?ca = "case rc_contract_address r of None \<Rightarrow> [] | Some a \<Rightarrow> address_bytes a"
    and ?th = "case rc_transaction_hash r of None \<Rightarrow> [] | Some h \<Rightarrow> hash_bytes h"
    and ?pr = "case rc_effective_gas_price r of None \<Rightarrow> [] | Some p \<Rightarrow> int_bytes p"
  have img: "?c = RList [RBytes e, RBytes (int_bytes (rc_gas_used r)), RBytes ?ca, RBytes ?th, RBytes ?pr]"
    by (auto simp: receipt_container_def split: option.split)
  have "optional_field (RBytes ?ca) mk_address = Inr (rc_contract_address r)"
    by (cases "rc_contract_address r") (auto simp: optional_field_def simp flip: length_0_conv)
  moreover have "optional_field (RBytes ?th) mk_hash = Inr (rc_transaction_hash r)"
    by (cases "rc_transaction_hash r") (auto simp: optional_field_def simp flip: length_0_conv)
  moreover have "optional_field (RBytes ?pr) (\<lambda>bs. Inr (tx_decode_int bs)) = Inr (rc_effective_gas_price r)"
    using price by (cases "rc_effective_gas_price r") (auto simp: optional_field_def order_less_imp_le)
  moreover have "tx_decode_int (int_bytes (rc_gas_used r)) = rc_gas_used r"
    using mk_receipt_fields[OF mk] by simp
  ultimately have "receipt_deserialize (rlp_ref ?c) = Inr r"
    unfolding receipt_deserialize_def using rt mk by (simp add: img dec del: rlp_ref.simps)
  then show ?thesis using rt assms(3) by (simp add: receipt_serialize_def)
qed

text \<open>
  A receipt that the format can carry is read back unchanged from its serialization: status or
  post-state, gas, bloom, logs with their topics, transaction type, contract address, transaction hash
  and price.
\<close>

theorem receipt_deserialize_serialize:
  assumes "receipt_storable r" "rlp_clean (receipt_rlp_payload r)"
    and "receipt_rlp_encode r = Inr e" "rlp_clean (receipt_container r e)"
  shows "\<exists>bs. receipt_serialize r = Inr bs \<and> receipt_deserialize bs = Inr r"
  by (rule deserialize_serialized_receipt[OF assms])

definition demo_receipt :: receipt where
  "demo_receipt = \<lparr>rc_status = Some 1, rc_cumulative_gas_used = 9, rc_gas_used = 5, rc_logs = [],
     rc_transaction_type = Some 2, rc_contract_address = None, rc_transaction_hash = Some 3,
     rc_effective_gas_price = Some 7, rc_post_state = None, rc_bloom = replicate 256 0\<rparr>"

lemma rlp_header_length:
  "length bs \<le> length (rlp_encode_bytes bs)" "length bs < 256 ^ 8 \<Longrightarrow> length (rlp_encode_bytes bs) \<le> length bs + 9"
  "length bs \<le> length (rlp_wrap_list bs)" "length bs < 256 ^ 8 \<Longrightarrow> length (rlp_wrap_list bs) \<le> length bs + 9"
  using big_endian_length_pos(1)[of "length bs"]
  by (cases "bs = []"; force simp: rlp_encode_bytes_def rlp_wrap_list_def Let_def)+

theorem receipt_deserialize_serialize_witness:
  "\<exists>bs. receipt_serialize demo_receipt = Inr bs \<and> receipt_deserialize bs = Inr demo_receipt"
proof -
  let ?r = demo_receipt and ?b = "replicate 256 (0 :: byte)"
  have st: "receipt_storable ?r" by (simp add: receipt_storable_def demo_receipt_def mk_receipt_def)
  have img: "rlp_image (receipt_rlp_payload ?r) = RList [RBytes [1], RBytes [9], RBytes ?b, RList []]"
    by (simp add: receipt_rlp_payload_def demo_receipt_def int_bytes_small)
  have small: "rlp_encode_bytes [x] = [x]" if "uint x < 0x80" for x using that by (simp add: rlp_encode_bytes_def)
  have lb: "256 \<le> length (rlp_encode_bytes ?b)" "length (rlp_encode_bytes ?b) \<le> 265"
    using rlp_header_length(1,2)[of ?b] by simp_all
  let ?p = "1 # 9 # rlp_encode_bytes ?b @ [0xC0]"
  have ref: "rlp_ref (RList [RBytes [1], RBytes [9], RBytes ?b, RList []]) = rlp_wrap_list ?p"
    by (simp add: small rlp_wrap_list_def Let_def)
  have clean: "rlp_clean (receipt_rlp_payload ?r)"
    using lb unfolding rlp_clean_def img
    by (simp add: receipt_rlp_payload_def demo_receipt_def small rlp_wrap_list_def Let_def)
  let ?e = "2 # rlp_wrap_list ?p"
  have e: "receipt_rlp_encode ?r = Inr ?e"
    using rlp_clean_roundtrip[OF clean] unfolding img ref by (simp add: receipt_rlp_encode_def) (simp add: demo_receipt_def)
  have le: "256 \<le> length ?e" "length ?e \<le> 300"
    using rlp_header_length(3,4)[of ?p] lb by simp_all
  have lr: "256 \<le> length (rlp_encode_bytes ?e)" "length (rlp_encode_bytes ?e) \<le> 400"
    using rlp_header_length(1,2)[of ?e] le by simp_all
  have "length (rlp_encode_bytes (hash_bytes 3)) \<le> 41" using rlp_header_length(2)[of "hash_bytes 3"] by simp
  then have "rlp_clean (receipt_container ?r ?e)"
    using le lr unfolding rlp_clean_def
    by (simp add: receipt_container_def demo_receipt_def int_bytes_small small del: length_Cons list.size)
      (simp add: rlp_encode_bytes_def)
  from receipt_deserialize_serialize[OF st clean e this] show ?thesis .
qed

end
