(* ===== verification/Programs.thy ===== *)
theory Programs
  imports Prelude
begin

text \<open>
  Relations between the states before and after a program of the state-and-exception monad, as a locale:
  a reflexive and transitive relation that the steps of a program keep is kept by the program, whether
  it returns or raises. The channels, the settlement chain and the voting nodes interpret it.
\<close>

lemma dict_get_dom: "k \<in> set (map fst d) \<longleftrightarrow> dict_get d k \<noteq> None"
  by (simp add: map_of_eq_None_iff)

section \<open>Relations that programs keep\<close>

definition upholds :: "('s \<Rightarrow> 's \<Rightarrow> bool) \<Rightarrow> ('s, 'e, 'a) sem \<Rightarrow> bool" where
  "upholds R f \<longleftrightarrow> (\<forall>s. R s (snd (f s)))"

locale kept_relation =
  fixes R :: "'s \<Rightarrow> 's \<Rightarrow> bool"
  assumes refl: "R s s"
    and trans: "R s t \<Longrightarrow> R t u \<Longrightarrow> R s u"
begin

lemma ret: "upholds R (retM x)"
  by (simp add: upholds_def retM_def refl)

lemma raise: "upholds R (raiseM e)"
  by (simp add: upholds_def raiseM_def refl)

lemma lift: "upholds R (liftR r)"
  by (simp add: upholds_def liftR_def refl)

lemma lift_reading: "upholds R (\<lambda>s. liftR (r s) s)"
  by (simp add: upholds_def liftR_def refl)

lemma get: "upholds R (getM f)"
  by (simp add: upholds_def getM_def refl)

lemma guard: "upholds R (guardM b e)"
  by (simp add: guardM_def ret raise)

lemma bind:
  assumes "upholds R f" "\<And>x s s'. f s = (Inr x, s') \<Longrightarrow> R s' (snd (g x s'))"
  shows "upholds R (bindM f g)"
  unfolding upholds_def
proof
  fix s
  obtain r s' where fs: "f s = (r, s')" by (cases "f s")
  have "R s s'" using assms(1) fs by (auto simp: upholds_def dest: spec[of _ s])
  then show "R s (snd (bindM f g s))"
    using assms(2)[of s _ s'] fs trans by (cases r) (auto simp: bindM_def)
qed

lemma bind_all: "upholds R f \<Longrightarrow> (\<And>x. upholds R (g x)) \<Longrightarrow> upholds R (bindM f g)"
  by (rule bind) (auto simp: upholds_def)

lemma seq: "upholds R f \<Longrightarrow> upholds R g \<Longrightarrow> upholds R (seqM f g)"
  unfolding seqM_def by (rule bind_all)

lemma branch: "(b \<Longrightarrow> upholds R f) \<Longrightarrow> (\<not> b \<Longrightarrow> upholds R g) \<Longrightarrow> upholds R (if b then f else g)"
  by simp

lemmas rules = ret raise lift lift_reading get guard bind_all seq

lemma guarded_by: "(b \<Longrightarrow> upholds R f) \<Longrightarrow> upholds R (seqM (guardM b e) f)"
  by (simp add: upholds_def sem_defs refl)

lemma lifted: "(\<And>x. r = Inr x \<Longrightarrow> upholds R (g x)) \<Longrightarrow> upholds R (bindM (liftR r) g)"
  by (cases r) (simp_all add: upholds_def sem_defs refl)

text \<open>The same from one state, where what the program has read is a fact for the rest of it.\<close>

lemma at_guard: "(b \<Longrightarrow> R s (snd (f s))) \<Longrightarrow> R s (snd (seqM (guardM b e) f s))"
  by (simp add: sem_defs refl)

lemma at_lift: "(\<And>x. r = Inr x \<Longrightarrow> R s (snd (g x s))) \<Longrightarrow> R s (snd (bindM (liftR r) g s))"
  by (cases r) (simp_all add: sem_defs refl)

lemma at_reading: "(\<And>x. r s = Inr x \<Longrightarrow> R s (snd (g x s))) \<Longrightarrow> R s (snd (bindM (\<lambda>s. liftR (r s) s) g s))"
  by (cases "r s") (simp_all add: sem_defs refl)

lemma at_check: "(\<And>x. r s = Inr x \<Longrightarrow> R s (snd (f s))) \<Longrightarrow> R s (snd (seqM (\<lambda>s. liftR (r s) s) f s))"
  unfolding seqM_def by (rule at_reading)

lemma at_get: "R s (snd (g (f s) s)) \<Longrightarrow> R s (snd (bindM (getM f) g s))"
  by (simp add: sem_defs)

lemma at_keeps: "upholds R f \<Longrightarrow> R s (snd (f s))"
  by (simp add: upholds_def)

lemma at_bind: "R s (snd (f s)) \<Longrightarrow> (\<And>x. upholds R (g x)) \<Longrightarrow> R s (snd (bindM f g s))"
  by (cases "f s"; cases "fst (f s)") (auto simp: sem_defs upholds_def intro: trans)

lemma at_seq: "R s (snd (f s)) \<Longrightarrow> upholds R g \<Longrightarrow> R s (snd (seqM f g s))"
  unfolding seqM_def by (rule at_bind)

lemma at_self: "R s (snd (g s s)) \<Longrightarrow> R s (snd (bindM (getM id) g s))"
  by (simp add: sem_defs)

lemma at_ret: "R s (snd (retM x s))"
  by (simp add: sem_defs refl)

lemma at_branch: "(b \<Longrightarrow> R s (snd (f s))) \<Longrightarrow> (\<not> b \<Longrightarrow> R s (snd (g s))) \<Longrightarrow> R s (snd ((if b then f else g) s))"
  by simp

lemma at_after:
  assumes "R s (snd (f s))" "\<And>x s'. f s = (Inr x, s') \<Longrightarrow> R s' (snd (g x s'))"
  shows "R s (snd (bindM f g s))"
proof (cases "f s")
  case (Pair r s')
  with assms show ?thesis by (cases r) (auto simp: sem_defs intro: trans)
qed

lemma at_then: "R s (snd (f s)) \<Longrightarrow> (\<And>s'. f s = (Inr (), s') \<Longrightarrow> R s' (snd (g s'))) \<Longrightarrow> R s (snd (seqM f g s))"
  unfolding seqM_def by (rule at_after) simp_all

end

end
