(* ===== verification/Refunds.thy ===== *)
theory Refunds
  imports Interpreter_Inv Programs
begin

text \<open>
  The refund counter of the interpreter never falls below zero in a run that starts from a state without
  pending clears. A slot whose original value is not zero and that has been cleared carries a credit; a
  storage write refunds at least the change of the credits (\<open>storage_set_credit\<close>), so the counter of a
  frame covers the credits that the frame has added, whatever its children do and restore.
\<close>

section \<open>Credits of cleared slots\<close>

definition slot_credit :: "slot \<Rightarrow> int" where
  "slot_credit s = (if slot_original s \<noteq> 0 \<and> slot_current s = 0 then GAS_SSTORE_CLEAR_REFUND else 0)"

definition pending_clears :: "statedb \<Rightarrow> int" where
  "pending_clears db = dict_sum (\<lambda>acc. dict_sum slot_credit (acc_storage acc)) db"

text \<open>What holds between transactions: no slot waits to be cleared.\<close>

definition settled_storage :: "statedb \<Rightarrow> bool" where
  "settled_storage db \<longleftrightarrow> (\<forall>(a, acc) \<in> set db. \<forall>(k, s) \<in> set (acc_storage acc). slot_original s \<noteq> 0 \<longrightarrow> slot_current s \<noteq> 0)"

lemma slot_credit_nonneg: "0 \<le> slot_credit s"
  by (simp add: slot_credit_def gas_defs)

lemma pending_clears_nonneg: "0 \<le> pending_clears db"
  unfolding pending_clears_def by (intro dict_sum_nonneg slot_credit_nonneg)

lemma dict_sum_zero: "(\<And>k v. (k, v) \<in> set d \<Longrightarrow> f v = 0) \<Longrightarrow> dict_sum f d = 0"
  by (induction d) (auto, force)

lemma settled_pending: "settled_storage db \<Longrightarrow> pending_clears db = 0"
  unfolding pending_clears_def by (intro dict_sum_zero) (auto simp: settled_storage_def slot_credit_def)

lemma settled_commit: "dict_wf db \<Longrightarrow> settled_storage (commit_transaction db)"
  by (auto simp: settled_storage_def commit_transaction_eq commit_account_def storage_commit_def)

lemma storage_set_credit:
  "dict_sum slot_credit (snd (storage_set k v st)) \<le> dict_sum slot_credit st + snd (estimate_sstore_cost st k v)"
  by (cases "dict_get st (storage_normalize k)")
    (auto simp: storage_set_def dict_sum_put estimate_sstore_cost_def slot_credit_def empty_slot_def Let_def gas_defs)

lemma pending_update:
  "pending_clears (update_account a f db) = pending_clears db
     + dict_sum slot_credit (acc_storage (f (acct db a))) - dict_sum slot_credit (acc_storage (acct db a))"
  by (auto simp: pending_clears_def update_account_def get_or_create_account_def acct_def dict_sum_put
      dict_simps split: option.splits)

lemma pending_keep [simp]:
  "pending_clears (set_balance a v db) = pending_clears db"
  "pending_clears (snd (get_or_create_account a db)) = pending_clears db"
  "pending_clears (increment_nonce a db) = pending_clears db"
  "pending_clears (assign_nonce a n db) = pending_clears db"
  "pending_clears (set_code a c db) = pending_clears db"
  "pending_clears (snd (estimate_sstore a k v db)) = pending_clears db"
  by (simp_all add: set_balance_def increment_nonce_def assign_nonce_def set_code_def estimate_sstore_def
      get_or_create_as_update pending_update case_prod_beta)

lemma pending_money [simp]:
  "pending_clears (add_balance a v db) = pending_clears db"
  "pending_clears (snd (subtract_balance a v db)) = pending_clears db"
  "pending_clears (snd (transfer a b v db)) = pending_clears db"
  by (simp_all add: add_balance_def subtract_balance_def transfer_def Let_def case_prod_beta)

lemma pending_set_storage:
  "pending_clears (snd (set_storage a k v db))
     \<le> pending_clears db + snd (estimate_sstore_cost (acc_storage (acct db a)) k v)"
  using storage_set_credit[of k v "acc_storage (acct db a)"]
  by (simp add: set_storage_as_update pending_update)

section \<open>Code that touches neither the state nor the counter\<close>

abbreviation m_refund :: "machine \<Rightarrow> int" where
  "m_refund m \<equiv> gm_refund (f_gas_meter (m_frame m))"

definition same_account :: "machine \<Rightarrow> machine \<Rightarrow> bool" where
  "same_account m m' \<longleftrightarrow> m_db m' = m_db m \<and> m_refund m' = m_refund m"

interpretation idle: kept_relation same_account
  by unfold_locales (simp_all add: same_account_def)

lemma idle_zoom: "(\<And>s x v. f (get s) = Inr (x, v) \<Longrightarrow> same_account s (put v s)) \<Longrightarrow> upholds same_account (zoom get put f)"
  by (auto simp: upholds_def zoom_def idle.refl split: sum.splits prod.splits)

lemma idle_prims:
  "upholds same_account (push v)" "upholds same_account pop" "upholds same_account (charge x)"
  "upholds same_account (on_stack g)" "upholds same_account (on_memory h)"
  "upholds same_account (on_gas (return_gas x))"
  "upholds same_account (get_frame f1)" "upholds same_account (get_context f2)" "upholds same_account (get_state f3)"
  unfolding push_def pop_def charge_def on_stack_def on_memory_def on_gas_def get_frame_def get_context_def get_state_def
  by (intro idle_zoom idle.get;
      auto simp: same_account_def upd_frame_def gas_charge_def return_gas_def split: if_splits)+

lemma idle_set_frame:
  "(\<And>fr. gm_refund (f_gas_meter (f fr)) = gm_refund (f_gas_meter fr)) \<Longrightarrow> upholds same_account (set_frame f)"
  by (simp add: upholds_def set_frame_def modM_def same_account_def upd_frame_def)

lemma idle_when: "upholds same_account f \<Longrightarrow> upholds same_account (whenM b f)"
  by (simp add: whenM_def idle.ret)

lemmas idle_rules = idle.ret idle.raise idle.lift idle.guard idle.bind_all idle.seq idle.branch idle_prims idle_when

lemma idle_memory:
  "upholds same_account (charge_memory o' z)" "upholds same_account (read_memory o' z)"
  "upholds same_account (write_memory o' bs)" "upholds same_account (charge_base opcode)"
  unfolding charge_memory_def read_memory_def write_memory_def charge_base_def by (intro idle_rules)+

lemma idle_binary: "upholds same_account (binary_op f)"
  unfolding binary_op_def by (intro idle_rules)

lemma idle_jump: "upholds same_account (jump_to d)"
  unfolding jump_to_def by (intro idle_rules idle_set_frame) simp

lemma idle_topics: "upholds same_account (pop_topics n)"
  by (induction n) (auto intro!: idle_rules)

lemma idle_ops:
  "upholds same_account op_stop" "upholds same_account op_add" "upholds same_account op_mul" "upholds same_account op_sub"
  "upholds same_account op_div" "upholds same_account op_mod" "upholds same_account op_lt" "upholds same_account op_gt"
  "upholds same_account op_eq" "upholds same_account op_iszero" "upholds same_account op_and" "upholds same_account op_or"
  "upholds same_account op_xor" "upholds same_account op_not" "upholds same_account op_byte" "upholds same_account op_shl"
  "upholds same_account op_shr" "upholds same_account op_sar" "upholds same_account op_keccak256"
  "upholds same_account op_address" "upholds same_account op_balance" "upholds same_account op_origin"
  "upholds same_account op_caller" "upholds same_account op_callvalue" "upholds same_account op_calldataload"
  "upholds same_account op_calldatasize" "upholds same_account op_calldatacopy" "upholds same_account op_codesize"
  "upholds same_account op_codecopy" "upholds same_account op_gasprice" "upholds same_account op_returndatasize"
  "upholds same_account op_returndatacopy" "upholds same_account op_chainid" "upholds same_account op_pop"
  "upholds same_account op_mload" "upholds same_account op_mstore" "upholds same_account op_mstore8"
  "upholds same_account op_sload" "upholds same_account op_jump" "upholds same_account op_jumpi" "upholds same_account op_pc"
  "upholds same_account op_msize" "upholds same_account op_gas" "upholds same_account op_jumpdest"
  "upholds same_account op_return" "upholds same_account op_revert" "upholds same_account op_invalid"
  unfolding op_stop_def op_add_def op_mul_def op_sub_def op_div_def op_mod_def op_lt_def op_gt_def op_eq_def
    op_iszero_def op_and_def op_or_def op_xor_def op_not_def op_byte_def op_shl_def op_shr_def op_sar_def
    op_keccak256_def op_address_def op_balance_def op_origin_def op_caller_def op_callvalue_def op_calldataload_def
    op_calldatasize_def op_calldatacopy_def op_codesize_def op_codecopy_def op_gasprice_def op_returndatasize_def
    op_returndatacopy_def op_chainid_def op_pop_def op_mload_def op_mstore_def op_mstore8_def op_sload_def
    op_jump_def op_jumpi_def op_pc_def op_msize_def op_gas_def op_jumpdest_def op_return_def op_revert_def
    op_invalid_def Let_def
  by (intro idle_rules idle_memory idle_binary idle_jump)+

lemma idle_log: "upholds same_account (op_log opcode)" "upholds same_account (op_push opcode)"
  unfolding op_log_def op_push_def Let_def by (intro idle_rules idle_memory idle_topics idle_set_frame; simp)+

section \<open>What a handler owes\<close>

text \<open>
  \<open>paid c\<close>: the counter covers the credits of the state above the level \<open>c\<close>. It has to hold when a handler
  returns and when it ends the frame with its output; any other exception discards the state and the counter.
\<close>

definition paid :: "int \<Rightarrow> machine \<Rightarrow> bool" where
  "paid c m \<longleftrightarrow> db_wf (m_db m) \<and> c + pending_clears (m_db m) \<le> m_refund m"

definition left_paid :: "int \<Rightarrow> evm_exn \<Rightarrow> machine \<Rightarrow> bool" where
  "left_paid c e m \<longleftrightarrow> (\<forall>data. e = ExecutionReturn data \<longrightarrow> paid c m)"

abbreviation pays :: "'a evm \<Rightarrow> bool" where
  "pays f \<equiv> \<forall>c. tri (left_paid c) (paid c) f (\<lambda>_. True) (paid c)"

text \<open>A snapshot that can be restored at the present value of the counter.\<close>

definition saved :: "int \<Rightarrow> statedb \<Rightarrow> machine \<Rightarrow> bool" where
  "saved c snap m \<longleftrightarrow> db_wf snap \<and> c + pending_clears snap \<le> m_refund m"

definition covered :: "exec_result \<Rightarrow> int \<Rightarrow> bool" where
  "covered r gained \<longleftrightarrow> (if r_success r then gained \<le> r_gas_refund r else r_gas_refund r = 0)"

definition child_pays :: "child \<Rightarrow> bool" where
  "child_pays child \<longleftrightarrow> (\<forall>cx db. db_wf db \<longrightarrow> (case child cx db of
     (Inl e, db') \<Rightarrow> \<forall>data. e \<noteq> ExecutionReturn data
   | (Inr r, db') \<Rightarrow> (r_success r \<longrightarrow> db_wf db') \<and> covered r (pending_clears db' - pending_clears db)))"

lemma tri_idle:
  assumes "upholds same_account f" "\<And>m m'. same_account m m' \<Longrightarrow> P m \<Longrightarrow> P m'" "\<And>e m. P m \<Longrightarrow> E e m"
  shows "tri E P f (\<lambda>_. True) P"
proof (rule triI)
  fix m assume "P m"
  moreover have "same_account m (snd (f m))" using assms(1) by (simp add: upholds_def)
  ultimately have "P (snd (f m))" using assms(2) by blast
  then show "case f m of (Inl e, m') \<Rightarrow> E e m' | (Inr x, m') \<Rightarrow> True \<and> P m'"
    using assms(3) by (auto split: prod.splits sum.splits)
qed

lemma paid_same: "same_account m m' \<Longrightarrow> paid c m \<Longrightarrow> paid c m'"
  by (simp add: paid_def same_account_def)

lemma saved_same: "same_account m m' \<Longrightarrow> saved c snap m \<Longrightarrow> saved c snap m'"
  by (simp add: saved_def same_account_def)

lemma paid_left: "paid c m \<Longrightarrow> left_paid c e m"
  by (simp add: left_paid_def)

lemma pays_idle: "upholds same_account f \<Longrightarrow> pays f"
  by (blast intro: tri_idle paid_same paid_left)

lemma pays_bind: "pays f \<Longrightarrow> (\<And>x. pays (g x)) \<Longrightarrow> pays (bindM f g)"
  by (blast intro: tri_bind)

lemma pays_seq: "pays f \<Longrightarrow> pays g \<Longrightarrow> pays (seqM f g)"
  unfolding seqM_def by (rule pays_bind)

lemma pays_first: "upholds same_account f \<Longrightarrow> (\<And>x. pays (g x)) \<Longrightarrow> pays (bindM f g)"
  by (rule pays_bind[OF pays_idle])

lemma pays_then: "upholds same_account f \<Longrightarrow> pays g \<Longrightarrow> pays (seqM f g)"
  by (rule pays_seq[OF pays_idle])

lemma pays_if: "(b \<Longrightarrow> pays f) \<Longrightarrow> (\<not> b \<Longrightarrow> pays g) \<Longrightarrow> pays (if b then f else g)"
  by simp

subsection \<open>Storage writes\<close>

text \<open>Between the estimate and the write the estimate stays the refund of the write.\<close>

lemma pays_sstore_write:
  "pays (bindM (on_state (estimate_sstore a k v)) (\<lambda>(cost, refund).
     seqM (charge cost)
     (bindM (on_state (set_storage a k v)) (\<lambda>_. whenM (refund \<noteq> 0) (on_gas (add_refund refund))))))"
proof
  fix c
  let ?Q = "\<lambda>(cr :: int \<times> int) m. paid c m \<and> snd cr = snd (estimate_sstore_cost (acc_storage (acct (m_db m) a)) k v)"
  have estimate: "trd (left_paid c) (paid c) (on_state (estimate_sstore a k v)) ?Q"
    by (auto simp: trd_def on_state_def zoom_def paid_def db_wf_estimate estimate_sstore_def get_or_create_as_update
        acct_update db_readers db_wf_update db_wf_acct pending_update case_prod_beta)
  have charged: "tri (left_paid c) (?Q cr) (charge x) (\<lambda>_. True) (?Q cr)" for cr x
    by (rule tri_idle[OF idle_prims(3)]) (auto simp: same_account_def paid_def left_paid_def)
  have stored: "tri (left_paid c) (?Q cr) (bindM (on_state (set_storage a k v)) (\<lambda>_. whenM (snd cr \<noteq> 0) (on_gas (add_refund (snd cr)))))
      (\<lambda>_. True) (paid c)" for cr
  proof (rule triI)
    fix m assume m: "?Q cr m"
    have "pending_clears (snd (set_storage a k v (m_db m))) \<le> pending_clears (m_db m) + snd cr"
      using pending_set_storage[of a k v "m_db m"] m by simp
    with m show "case bindM (on_state (set_storage a k v)) (\<lambda>_. whenM (snd cr \<noteq> 0) (on_gas (add_refund (snd cr)))) m of
        (Inl e, m') \<Rightarrow> left_paid c e m' | (Inr x, m') \<Rightarrow> True \<and> paid c m'"
      by (auto simp: paid_def db_wf_set_storage sem_defs on_state_def on_gas_def zoom_def add_refund_def upd_frame_def
          whenM_def case_prod_beta)
  qed
  show "tri (left_paid c) (paid c) (bindM (on_state (estimate_sstore a k v)) (\<lambda>(cost, refund).
     seqM (charge cost)
     (bindM (on_state (set_storage a k v)) (\<lambda>_. whenM (refund \<noteq> 0) (on_gas (add_refund refund)))))) (\<lambda>_. True) (paid c)"
    by (rule tri_bind_trd[OF estimate]) (simp only: case_prod_beta, rule tri_seq[OF charged stored])
qed

lemma pays_sstore: "pays op_sstore"
  unfolding op_sstore_def by (intro pays_first pays_then pays_sstore_write idle_rules)

section \<open>Calls and creations\<close>

abbreviation both :: "int \<Rightarrow> statedb \<Rightarrow> machine \<Rightarrow> bool" where
  "both c snap m \<equiv> paid c m \<and> saved c snap m"

lemma trd_bind_trd: "trd E P m R \<Longrightarrow> (\<And>x. trd E (R x) (f x) Q) \<Longrightarrow> trd E P (bindM m f) Q"
  unfolding trd_def bindM_def by (fastforce split: prod.splits sum.splits)

lemma trd_snapshot: "trd (left_paid c) (paid c) (get_state statedb_snapshot) (both c)"
  by (auto simp: trd_def get_state_def getM_def paid_def saved_def snapshot_id)

lemma tri_both: "upholds same_account f \<Longrightarrow> tri (left_paid c) (both c snap) f (\<lambda>_. True) (both c snap)"
  by (erule tri_idle) (auto simp: left_paid_def intro: paid_same saved_same)

lemma tri_both_state:
  assumes "\<And>db. db_wf db \<Longrightarrow> db_wf (snd (f db)) \<and> pending_clears (snd (f db)) = pending_clears db"
  shows "tri (left_paid c) (both c snap) (on_state f) (\<lambda>_. True) (both c snap)"
    and "tri (left_paid c) (paid c) (on_state f) (\<lambda>_. True) (paid c)"
  using assms by (simp_all add: tri_def on_state_def zoom_def paid_def saved_def case_prod_beta)

lemma both_restore: "tri (left_paid c) (both c snap) (on_state (\<lambda>db. ((), statedb_restore snap db))) (\<lambda>_. True) (both c snap)"
  by (auto simp: tri_def on_state_def zoom_def paid_def saved_def restore_id)

lemma both_money:
  "tri (left_paid c) (both c snap) (on_state (transfer a b v)) (\<lambda>_. True) (both c snap)"
  "tri (left_paid c) (both c snap) (on_state (\<lambda>db. ((), assign_nonce a 1 db))) (\<lambda>_. True) (both c snap)"
  "tri (left_paid c) (paid c) (on_state (\<lambda>db. ((), increment_nonce a db))) (\<lambda>_. True) (paid c)"
  by (intro tri_both_state; simp add: db_wf_ops)+

text \<open>What a child frame leaves, and how the end of a call or creation settles it.\<close>

definition owes :: "int \<Rightarrow> statedb \<Rightarrow> exec_result \<Rightarrow> machine \<Rightarrow> bool" where
  "owes c snap r m \<longleftrightarrow> saved c snap m
     \<and> (r_success r \<longrightarrow> db_wf (m_db m) \<and> c + pending_clears (m_db m) \<le> m_refund m + r_gas_refund r)"

lemma trd_run_child:
  assumes "child_pays child"
  shows "trd (left_paid c) (both c snap) (run_child child cx) (owes c snap)"
  unfolding trd_def
proof (intro allI impI)
  fix m assume m: "both c snap m"
  then have "case child cx (m_db m) of
     (Inl e, db') \<Rightarrow> \<forall>data. e \<noteq> ExecutionReturn data
   | (Inr r, db') \<Rightarrow> (r_success r \<longrightarrow> db_wf db') \<and> covered r (pending_clears db' - pending_clears (m_db m))"
    using assms by (simp add: child_pays_def paid_def)
  with m show "case run_child child cx m of (Inl e, m') \<Rightarrow> left_paid c e m' | (Inr r, m') \<Rightarrow> owes c snap r m'"
    by (auto simp: run_child_def left_paid_def owes_def saved_def paid_def covered_def split: prod.splits sum.splits if_splits)
qed

lemma settle_call:
  "tri (left_paid c) (owes c snap r) (if \<not> r_success r then bindM (on_state (\<lambda>db. ((), statedb_restore snap db))) retM
     else whenM (r_gas_refund r \<noteq> 0) (on_gas (add_refund (r_gas_refund r)))) (\<lambda>_. True) (paid c)"
  by (auto simp: tri_def owes_def saved_def paid_def on_state_def on_gas_def zoom_def sem_defs whenM_def add_refund_def
      upd_frame_def restore_id)

lemma settle_create:
  "tri (left_paid c) (owes c snap r)
     (if r_success r
      then bindM (on_state (\<lambda>db. ((), set_code a (r_output r) db))) (\<lambda>_.
           whenM (r_gas_refund r \<noteq> 0) (on_gas (add_refund (r_gas_refund r))))
      else bindM (on_state (\<lambda>db. ((), statedb_restore snap db))) retM) (\<lambda>_. True) (paid c)"
  by (auto simp: tri_def owes_def saved_def paid_def on_state_def on_gas_def zoom_def sem_defs whenM_def add_refund_def
      upd_frame_def restore_id db_wf_set_code)

lemma tri_pays: "pays f \<Longrightarrow> tri (left_paid c) (paid c) f (\<lambda>_. True) (paid c)"
  by blast

lemma call_conclude_paid: "tri (left_paid c) (owes c snap r) (call_conclude ca snap f r) (\<lambda>_. True) (paid c)"
  unfolding call_conclude_def Let_def
  by (rule tri_seq[OF settle_call], rule tri_pays)
    (intro pays_then pays_idle idle_rules idle_memory idle_set_frame; simp)

lemma create_conclude_paid: "tri (left_paid c) (owes c snap r) (create_conclude snap a r) (\<lambda>_. True) (paid c)"
  unfolding create_conclude_def Let_def
  by (rule tri_seq[OF settle_create], rule tri_pays)
    (intro pays_then pays_idle idle_rules idle_memory idle_set_frame; simp)

definition plan_paid :: "int \<Rightarrow> call_plan \<Rightarrow> machine \<Rightarrow> bool" where
  "plan_paid c plan m \<longleftrightarrow> (case plan of CallDone r \<Rightarrow> paid c m
     | CallSettled snap f r \<Rightarrow> both c snap m \<and> r_gas_refund r = 0 | CallSpawn snap f cx \<Rightarrow> both c snap m)"

lemma trd_both: "upholds same_account f \<Longrightarrow> (\<And>x. trd (left_paid c) (both c snap) (g x) R) \<Longrightarrow> trd (left_paid c) (both c snap) (bindM f g) R"
  by (rule trd_bind[OF tri_both])

lemma trd_paid: "upholds same_account f \<Longrightarrow> (\<And>x. trd (left_paid c) (paid c) (g x) R) \<Longrightarrow> trd (left_paid c) (paid c) (bindM f g) R"
  by (rule trd_bind[OF tri_pays[OF pays_idle]])

lemma trd_paid_seq: "upholds same_account f \<Longrightarrow> trd (left_paid c) (paid c) g R \<Longrightarrow> trd (left_paid c) (paid c) (seqM f g) R"
  unfolding seqM_def by (rule trd_paid)

lemma call_target_paid: "trd (left_paid c) (both c snap) (call_target hl ca snap f g) (plan_paid c)"
proof (cases "precompile_get (ca_code_address ca)")
  case (Some pc)
  then show ?thesis
    unfolding call_target_def Let_def Some option.case
    by (intro trd_if trd_bind[OF both_restore] trd_ret) (auto simp: plan_paid_def exec_result_default_def)
next
  case None
  then show ?thesis
    unfolding call_target_def None option.case
    by (intro trd_both trd_if trd_ret idle_rules) (auto simp: plan_paid_def exec_result_default_def)
qed

lemma call_prepare_paid: "trd (left_paid c) (paid c) (call_prepare hl ca) (plan_paid c)"
proof -
  have moved: "tri (left_paid c) (both c snap) (if ca_value ca \<noteq> 0 then on_state (transfer a (ca_target ca) (ca_value ca)) else retM True)
      (\<lambda>_. True) (both c snap)" for a snap
    by (intro tri_if both_money tri_ret TrueI)
  have forward: "trd (left_paid c) (paid c) (call_forward hl ca) (plan_paid c)"
    unfolding call_forward_def Let_def
    by (intro trd_paid trd_paid_seq trd_bind_trd[OF trd_snapshot] trd_both trd_bind[OF moved] trd_if trd_bind[OF both_restore]
        trd_ret call_target_paid idle_rules) (simp add: plan_paid_def)
  show ?thesis
    unfolding call_prepare_def
    by (intro trd_paid trd_paid_seq trd_if trd_ret forward idle_rules idle_memory) (simp_all add: plan_paid_def)
qed

lemma pays_call_common:
  assumes "child_pays child"
  shows "pays (call_common hl child ca)"
proof
  fix c
  have "tri (left_paid c) (plan_paid c plan)
     (case plan of CallDone r \<Rightarrow> retM r | CallSettled snap f r \<Rightarrow> call_conclude ca snap f r
      | CallSpawn snap f cx \<Rightarrow> bindM (run_child child cx) (call_conclude ca snap f)) (\<lambda>_. True) (paid c)" for plan
  proof (cases plan)
    case (CallDone r)
    then have "plan_paid c plan = paid c" by (simp add: fun_eq_iff plan_paid_def)
    with CallDone show ?thesis by (simp add: tri_ret)
  next
    case (CallSettled snap f r)
    have "tri (left_paid c) (\<lambda>m. both c snap m \<and> r_gas_refund r = 0) (call_conclude ca snap f r) (\<lambda>_. True) (paid c)"
      by (rule tri_conseq[OF call_conclude_paid[of c snap r]]) (auto simp: owes_def paid_def)
    moreover have "plan_paid c plan = (\<lambda>m. both c snap m \<and> r_gas_refund r = 0)" using CallSettled by (simp add: fun_eq_iff plan_paid_def)
    ultimately show ?thesis using CallSettled by simp
  next
    case (CallSpawn snap f cx)
    have "tri (left_paid c) (both c snap) (bindM (run_child child cx) (call_conclude ca snap f)) (\<lambda>_. True) (paid c)"
      by (rule tri_bind_trd[OF trd_run_child[OF assms] call_conclude_paid])
    moreover have "plan_paid c plan = both c snap" using CallSpawn by (simp add: fun_eq_iff plan_paid_def)
    ultimately show ?thesis using CallSpawn by simp
  qed
  then show "tri (left_paid c) (paid c) (call_common hl child ca) (\<lambda>_. True) (paid c)"
    unfolding call_common_def by (rule tri_bind_trd[OF call_prepare_paid])
qed

definition create_paid :: "int \<Rightarrow> create_plan \<Rightarrow> machine \<Rightarrow> bool" where
  "create_paid c plan m \<longleftrightarrow> (case plan of CreateDone r \<Rightarrow> paid c m | CreateSpawn snap a cx \<Rightarrow> both c snap m)"

lemma create_deploy_paid: "trd (left_paid c) (paid c) (create_deploy v code a) (create_paid c)"
  unfolding create_deploy_def Let_def seqM_def
  by (intro trd_paid trd_bind[OF both_money(3)] trd_bind_trd[OF trd_snapshot] trd_bind[OF both_money(2)]
      trd_bind[OF both_money(1)] trd_if trd_bind[OF both_restore] trd_both trd_ret idle_rules) (simp_all add: create_paid_def)

lemma create_prepare_paid: "trd (left_paid c) (paid c) (create_prepare v o' z salt) (create_paid c)"
  unfolding create_prepare_def Let_def
  by (intro trd_paid trd_paid_seq trd_if trd_ret create_deploy_paid idle_rules idle_memory) (simp_all add: create_paid_def)

lemma pays_create_common:
  assumes "child_pays child"
  shows "pays (create_common child v o' z salt)"
proof
  fix c
  have "tri (left_paid c) (create_paid c plan)
     (case plan of CreateDone r \<Rightarrow> retM r
      | CreateSpawn snap a cx \<Rightarrow> bindM (run_child child cx) (create_conclude snap a)) (\<lambda>_. True) (paid c)" for plan
  proof (cases plan)
    case (CreateDone r)
    then have "create_paid c plan = paid c" by (simp add: fun_eq_iff create_paid_def)
    with CreateDone show ?thesis by (simp add: tri_ret)
  next
    case (CreateSpawn snap a cx)
    have "tri (left_paid c) (both c snap) (bindM (run_child child cx) (create_conclude snap a)) (\<lambda>_. True) (paid c)"
      by (rule tri_bind_trd[OF trd_run_child[OF assms] create_conclude_paid])
    moreover have "create_paid c plan = both c snap" using CreateSpawn by (simp add: fun_eq_iff create_paid_def)
    ultimately show ?thesis using CreateSpawn by simp
  qed
  then show "tri (left_paid c) (paid c) (create_common child v o' z salt) (\<lambda>_. True) (paid c)"
    unfolding create_common_def by (rule tri_bind_trd[OF create_prepare_paid])
qed

lemma idle_finish: "upholds same_account (call_finish r)" "upholds same_account (create_finish r)"
  unfolding call_finish_def create_finish_def by (intro idle_rules idle_set_frame; simp)+

lemma pays_child_ops:
  assumes "child_pays child"
  shows "pays (op_call hl child)" "pays (op_delegatecall hl child)" "pays (op_staticcall hl child)"
    "pays (op_create child)" "pays (op_create2 child)"
  unfolding op_call_def op_delegatecall_def op_staticcall_def op_create_def op_create2_def Let_def
  by (intro pays_first pays_then pays_bind[OF pays_call_common[OF assms]] pays_bind[OF pays_create_common[OF assms]]
      pays_idle[OF idle_finish(1)] pays_idle[OF idle_finish(2)] idle_rules idle_memory)+

section \<open>Frames and runs\<close>

lemma pays_handler:
  assumes "child_pays child" "dict_get (dispatch hl child) opcode = Some h"
  shows "pays h"
proof -
  have "\<forall>kh \<in> set (dispatch hl child). pays (snd kh)"
    unfolding dispatch_def
    by (simp only: set_simps ball_simps snd_conv idle_ops[THEN pays_idle] pays_sstore pays_child_ops[OF assms(1)] simp_thms)
  with assms(2) show ?thesis by (auto dest!: map_of_SomeD)
qed

lemma pays_option: "r = None \<Longrightarrow> pays f \<Longrightarrow> pays (case r of None \<Rightarrow> f | Some h \<Rightarrow> g h)"
    "r = Some h \<Longrightarrow> pays (g h) \<Longrightarrow> pays (case r of None \<Rightarrow> f | Some h \<Rightarrow> g h)"
  by simp_all

lemma pays_dispatch:
  assumes "child_pays child"
  shows "pays (case dict_get (dispatch hl child) opcode of None \<Rightarrow> raiseM InvalidOpcodeError | Some handler \<Rightarrow> handler)"
proof (cases "dict_get (dispatch hl child) opcode")
  case None
  then show ?thesis by (rule pays_option(1)) (rule pays_idle[OF idle.raise])
next
  case (Some h)
  then show ?thesis by (rule pays_option(2)) (rule pays_handler[OF assms Some])
qed

lemma pays_execute_opcode: "child_pays child \<Longrightarrow> pays (execute_opcode hl child opcode)"
  unfolding execute_opcode_def
  by (intro pays_if pays_then pays_idle[OF idle_log(1)] pays_idle[OF idle_log(2)] pays_idle[OF idle_prims(4)] idle_memory pays_dispatch)

lemma idle_fetch: "upholds same_account fetch_opcode"
  unfolding fetch_opcode_def by (intro idle_rules idle_set_frame) simp

lemma frame_result_paid:
  assumes "case rm of (Inl e, m) \<Rightarrow> left_paid (- p) e m | (Inr x, m) \<Rightarrow> paid (- p) m"
  shows "case frame_result rm of (Inl e, db') \<Rightarrow> \<forall>data. e \<noteq> ExecutionReturn data
    | (Inr r, db') \<Rightarrow> (r_success r \<longrightarrow> db_wf db') \<and> covered r (pending_clears db' - p)"
  using assms
  by (auto simp: frame_result_def exec_result_default_def left_paid_def paid_def covered_def Let_def
      split: prod.splits sum.splits evm_exn.splits)

lemma child_pays_frame:
  assumes "pays (frame_loop hl n)"
  shows "child_pays (execute_frame hl n)"
  unfolding child_pays_def
proof (intro allI impI)
  fix cx db assume db: "db_wf db"
  let ?p = "pending_clears db"
  have "paid (- ?p) (start_frame cx db)" using db by (simp add: paid_def start_frame_def mk_frame_def)
  then have "case frame_loop hl n (start_frame cx db) of (Inl e, m) \<Rightarrow> left_paid (- ?p) e m | (Inr x, m) \<Rightarrow> paid (- ?p) m"
    using assms by (auto simp: tri_def split: prod.splits sum.splits)
  then show "case execute_frame hl n cx db of (Inl e, db') \<Rightarrow> \<forall>data. e \<noteq> ExecutionReturn data
      | (Inr r, db') \<Rightarrow> (r_success r \<longrightarrow> db_wf db') \<and> covered r (pending_clears db' - ?p)"
    unfolding execute_frame_def by (rule frame_result_paid)
qed

lemma pays_frame_loop: "pays (frame_loop hl n)"
proof (induction n)
  case 0
  show ?case by (simp add: pays_idle[OF idle.raise, rule_format])
next
  case (Suc n)
  have "pays (bindM fetch_opcode (execute_opcode hl (execute_frame hl n)))"
    by (intro pays_first idle_fetch pays_execute_opcode child_pays_frame Suc.IH)
  then show ?case
    unfolding frame_loop_Suc
    by (intro pays_first[OF idle_prims(7)] pays_if pays_seq[OF _ Suc.IH] pays_idle[OF idle.ret])
qed

lemma execute_paid:
  assumes "db_wf db" "execute hl n cx db = (Inr r, db')"
  shows "covered r (pending_clears db' - pending_clears db)"
proof -
  obtain db1 where run: "execute_frame hl n cx db = (Inr r, db1)"
    and db': "db' = (if \<not> r_success r then statedb_restore (statedb_snapshot db) db1 else db1)"
    using assms(2) by (auto simp: execute_def Let_def split: prod.splits sum.splits)
  have "covered r (pending_clears db1 - pending_clears db)"
    using child_pays_frame[OF pays_frame_loop, unfolded child_pays_def, rule_format, OF assms(1), of hl n cx] run by simp
  then show ?thesis using db' assms(1) by (auto simp: covered_def snapshot_id restore_id)
qed

lemma interpreter_call_paid:
  assumes "db_wf db" "interpreter_call hl n a caller origin v calldata gas static gas_price chain_id db = (Inr r, db')"
  shows "covered r (pending_clears db' - pending_clears db)"
proof -
  obtain ok db1 where t: "(if v \<noteq> 0 then transfer caller a v db else (True, db)) = (ok, db1)"
    by (cases "if v \<noteq> 0 then transfer caller a v db else (True, db)")
  have db1: "db_wf db1" "pending_clears db1 = pending_clears db"
    using t assms(1) db_wf_transfer[OF assms(1), of caller a v] pending_money(3)[of caller a v db]
    by (cases "v = 0"; simp)+
  define p where "p = pending_clears db"
  have p: "pending_clears db = p" "pending_clears db1 = p" using db1(2) by (simp_all add: p_def)
  note run = execute_paid[OF db1(1), unfolded p(2)]
  show ?thesis
    using assms(2) run p unfolding interpreter_call_def Let_def t prod.case call_account_def
    by (auto simp: snapshot_id restore_id assms(1) covered_def exec_result_default_def failed_call_def
        split: if_splits option.splits prod.splits sum.splits)
qed

section \<open>Property\<close>

text \<open>
  C40. From a well-formed state in which no slot waits to be cleared (any state that a transaction has
  committed), the refund that a message call reports is never negative, and a successful call reports at
  least the clearing refund of every slot that it leaves cleared.
\<close>

theorem call_refund_covers_clears:
  assumes "db_wf db" "settled_storage db"
  shows "case interpreter_call hl n a caller origin v calldata gas static gas_price chain_id db of
      (Inl e, db') \<Rightarrow> True
    | (Inr r, db') \<Rightarrow> 0 \<le> r_gas_refund r \<and> (r_success r \<longrightarrow> pending_clears db' \<le> r_gas_refund r)"
proof (cases "interpreter_call hl n a caller origin v calldata gas static gas_price chain_id db")
  case (Pair out db')
  then show ?thesis
    using interpreter_call_paid[OF assms(1)] settled_pending[OF assms(2)] pending_clears_nonneg[of db']
    by (cases out) (fastforce simp: covered_def split: if_splits)+
qed

subsection \<open>Witness\<close>

text \<open>A contract that clears its slot 7, in a state where that slot holds 9.\<close>

definition clear_code :: bytes where
  "clear_code = [0x60, 0, 0x60, 7, 0x55]"

definition clear_db :: statedb where
  "clear_db = [(0x20, mk_account 1 5 clear_code [(7, \<lparr>slot_original = 9, slot_current = 9\<rparr>)])]"

definition clear_cx :: exec_context where
  "clear_cx = \<lparr>cx_address = 0x20, cx_caller = 0x10, cx_origin = 0x10, cx_value = 0, cx_calldata = [],
      cx_code = clear_code, cx_gas = 10000, cx_static = False, cx_depth = 0, cx_gas_price = 0,
      cx_chain_id = 1, cx_code_address = 0x20\<rparr>"

definition clear_at :: "stack \<Rightarrow> int \<Rightarrow> int \<Rightarrow> machine" where
  "clear_at st pc g = \<lparr>m_db = clear_db, m_frame = (mk_frame clear_cx)\<lparr>f_stack := st, f_pc := pc,
     f_gas_meter := \<lparr>gm_remaining = g, gm_refund = 0\<rparr>\<rparr>\<rparr>"

lemma clear_words: "storage_normalize 0 = 0" "storage_normalize 7 = 7" "(7::int) AND UINT256_MASK = 7"
  "be_int [0] = 0" "be_int [7] = 7"
  by (simp_all add: normalize_word_range word_range_def mask_word_range be_int_def)

lemmas step_defs = sem_defs get_frame_def get_context_def on_stack_def on_gas_def on_state_def zoom_def
  upd_frame_def set_frame_def more_code_def fetch_opcode_def execute_opcode_def is_push_def is_dup_def is_swap_def
  is_log_def LOG0_def LOG4_def PUSH0_def charge_base_def charge_def gas_charge_def op_push_def push_size_def slice_def
  base_opcode_gas_def BASE_OPCODE_GAS_def gas_defs push_def pop_def stack_push_def stack_pop_def MAX_STACK_DEPTH_def
  clear_at_def mk_frame_def clear_cx_def clear_code_def clear_words

lemma clear_pushes:
  "frame_loop hl (Suc n) (clear_at [] 0 10000) = frame_loop hl n (clear_at [0] 2 9997)"
  "frame_loop hl (Suc n) (clear_at [0] 2 9997) = frame_loop hl n (clear_at [0, 7] 4 9994)"
  by (simp_all add: step_defs)

lemma clear_sstore:
  "\<exists>m. frame_loop hl (Suc (Suc n)) (clear_at [0, 7] 4 9994) = (Inr (), m) \<and> m_refund m = 4800"
  by (simp add: step_defs dispatch_def op_sstore_def estimate_sstore_def clear_db_def set_storage_def storage_set_def
      get_or_create_account_def estimate_sstore_cost_def mk_account_def mask_word_range word_range_def add_refund_def whenM_def)

lemma clear_frame: "\<exists>db' r. execute_frame hl 4 clear_cx clear_db = (Inr r, db') \<and> r_success r \<and> r_gas_refund r = 4800"
proof -
  have numeral_4: "4 = Suc (Suc (Suc (Suc 0)))" by simp
  have start: "start_frame clear_cx clear_db = clear_at [] 0 10000"
    by (simp add: start_frame_def clear_at_def mk_frame_def clear_cx_def)
  obtain m where "frame_loop hl (Suc (Suc 0)) (clear_at [0, 7] 4 9994) = (Inr (), m)" "m_refund m = 4800"
    using clear_sstore by blast
  then have "frame_loop hl 4 (start_frame clear_cx clear_db) = (Inr (), m)" "m_refund m = 4800"
    unfolding start numeral_4 by (simp_all only: clear_pushes)
  then show ?thesis by (simp add: execute_frame_def frame_result_def exec_result_default_def Let_def)
qed

lemma clear_db_ok: "db_wf clear_db" "settled_storage clear_db" "get_code clear_db 0x20 = clear_code"
  by (simp_all add: clear_db_def db_wf_def account_wf_def mk_account_def storage_wf_def settled_storage_def word_range_def
      get_code_def)

theorem call_refund_covers_clears_witness:
  "\<forall>hl. \<exists>r db'. interpreter_call hl 4 0x20 0x10 None 0 [] 10000 False 0 1 clear_db = (Inr r, db')
     \<and> r_gas_refund r = 4800 \<and> 0 \<le> r_gas_refund r \<and> pending_clears db' \<le> 4800"
proof
  fix hl
  obtain db' r where run: "execute_frame hl 4 clear_cx clear_db = (Inr r, db')" "r_success r" "r_gas_refund r = 4800"
    using clear_frame by blast
  have "interpreter_call hl 4 0x20 0x10 None 0 [] 10000 False 0 1 clear_db = (Inr r, db')"
    using run by (simp add: interpreter_call_def call_account_def clear_db_ok(3) execute_def clear_cx_def) (simp add: clear_code_def)
  with call_refund_covers_clears[OF clear_db_ok(1,2), of hl 4 "0x20" "0x10" None 0 "[]" 10000 False 0 1] run
  show "\<exists>r db'. interpreter_call hl 4 0x20 0x10 None 0 [] 10000 False 0 1 clear_db = (Inr r, db')
      \<and> r_gas_refund r = 4800 \<and> 0 \<le> r_gas_refund r \<and> pending_clears db' \<le> 4800" by auto
qed

end
