(* ===== verification/Tx_Execution.thy ===== *)
theory Tx_Execution
  imports Fees Receipts Evm_Props Refunds
begin

text \<open>
  Validation and execution of one transaction (\<open>execution/tx_validation.py\<close>,
  \<open>execution/state_transition.py\<close>, \<open>execution/transaction.py\<close>, the result class of
  \<open>execution/result.py\<close>). The interpreter is the one of the theory \<open>Interpreter\<close>, with its digest
  functions and its fuel as arguments. The lemmas show that a rejected transaction leaves the state as
  it was, that validation covers the upfront payment, and where the money of a transaction goes.
\<close>

section \<open>Validation\<close>

record validated_tx =
  vt_transaction :: transaction
  vt_sender :: address
  vt_intrinsic_gas :: int
  vt_zk_verification_gas :: int
  vt_total_pre_execution_gas :: int
  vt_pricing :: gas_pricing
  vt_max_total_cost :: int
  vt_zk_verified :: bool
  vt_zk_verification_deferred :: bool

definition validate_supported_type :: "transaction \<Rightarrow> chain_config \<Rightarrow> (exec_error, unit) result" where
  "validate_supported_type t cfg =
     (case t of
        Legacy _ \<Rightarrow> guardR (cfg_support_legacy_transactions cfg) UnsupportedTransactionTypeError
      | Eip1559 _ \<Rightarrow> guardR (cfg_support_eip1559_transactions cfg) UnsupportedTransactionTypeError
      | Zk _ \<Rightarrow>
          bindR (guardR (cfg_support_zk_transactions cfg) UnsupportedTransactionTypeError) (\<lambda>_.
            guardR (cfg_support_eip1559_transactions cfg) UnsupportedTransactionTypeError))"

definition validate_chain_id :: "transaction \<Rightarrow> chain_config \<Rightarrow> (exec_error, unit) result" where
  "validate_chain_id t cfg =
     (case t of
        Legacy l \<Rightarrow>
          (case lt_chain_id l of
             None \<Rightarrow> guardR (cfg_allow_unprotected_legacy_transactions cfg) InvalidTransactionError
           | Some c \<Rightarrow> guardR (c = cfg_chain_id cfg) InvalidTransactionError)
      | _ \<Rightarrow> guardR (tx_chain_id t = Some (cfg_chain_id cfg)) InvalidTransactionError)"

text \<open>Only \<open>TransactionSignatureError\<close> is caught; the \<open>ValueError\<close> of a failed recovery passes through.\<close>

definition recover_sender :: "transaction \<Rightarrow> chain_config \<Rightarrow> (exec_error, address) result" where
  "recover_sender t cfg =
     mapE (\<lambda>e. if e = TransactionSignatureError then InvalidSignatureError else ExecTx e)
       (tx_sender t (cfg_enforce_low_s cfg))"

definition validate_nonce :: "transaction \<Rightarrow> address \<Rightarrow> statedb \<Rightarrow> (exec_error, unit) result" where
  "validate_nonce t sender db =
     (let expected_nonce = get_nonce db sender; actual_nonce = uint (tx_nonce t) in
      if actual_nonce < expected_nonce then Inl (NonceTooLowError sender expected_nonce actual_nonce)
      else if actual_nonce > expected_nonce then Inl (NonceTooHighError sender expected_nonce actual_nonce)
      else Inr ())"

definition validate_zk_proof :: "zk_tx \<Rightarrow> zk_registry option \<Rightarrow> (exec_error, unit) result" where
  "validate_zk_proof t registry =
     (case registry of None \<Rightarrow> Inl InvalidZKProofError
      | Some reg \<Rightarrow> bindR (mapE ExecPy (registry_verify reg (zt_proof t) (zt_public_inputs t))) (\<lambda>ok.
          guardR ok InvalidZKProofError))"

definition validate_transaction ::
  "transaction \<Rightarrow> statedb \<Rightarrow> block_env \<Rightarrow> chain_config \<Rightarrow> zk_registry option \<Rightarrow> (exec_error, validated_tx) result" where
  "validate_transaction t db env cfg registry =
     bindR (validate_supported_type t cfg) (\<lambda>_.
     bindR (validate_chain_id t cfg) (\<lambda>_.
     bindR (recover_sender t cfg) (\<lambda>sender.
     bindR (validate_nonce t sender db) (\<lambda>_.
     bindR (pricing_for_transaction cfg t env) (\<lambda>pricing.
     let intrinsic_gas = calculate_intrinsic_gas t in
     bindR (mapE ExecPy (calculate_zk_verification_gas t (cfg_zk_gas_model cfg))) (\<lambda>zk_gas.
     let total_gas = intrinsic_gas + zk_gas;
         gas_limit = uint (tx_gas_limit t) in
     if gas_limit < total_gas then Inl IntrinsicGasTooLowError
     else if gas_limit > env_gas_limit env then Inl FeeRuleViolationError
     else
       let max_total_cost = max_gas_cost pricing gas_limit + uint (tx_value t);
           balance = get_balance db sender in
       if balance < max_total_cost then Inl (InsufficientBalanceError sender balance max_total_cost)
       else
         bindR
           (case t of
              Zk z \<Rightarrow>
                if cfg_zk_verification_timing cfg = PRE_EXECUTION
                then bindR (validate_zk_proof z registry) (\<lambda>_. Inr (True, False))
                else Inr (False, True)
            | _ \<Rightarrow> Inr (True, False)) (\<lambda>(zk_verified, zk_deferred).
         Inr \<lparr>vt_transaction = t, vt_sender = sender, vt_intrinsic_gas = intrinsic_gas,
           vt_zk_verification_gas = zk_gas, vt_total_pre_execution_gas = total_gas, vt_pricing = pricing,
           vt_max_total_cost = max_total_cost, vt_zk_verified = zk_verified,
           vt_zk_verification_deferred = zk_deferred\<rparr>)))))))"

section \<open>Execution\<close>

definition is_contract_creation :: "transaction \<Rightarrow> bool" where
  "is_contract_creation t \<longleftrightarrow> tx_to t = None"

text \<open>The result of an interpreter run: an exception that is no EVM error, or a result, with the state.\<close>

type_synonym run = "(evm_exn + exec_result) \<times> statedb"

definition create_context :: "address \<Rightarrow> validated_tx \<Rightarrow> block_env \<Rightarrow> int \<Rightarrow> exec_context" where
  "create_context new_address v env evm_gas =
     \<lparr>cx_address = new_address, cx_caller = vt_sender v, cx_origin = vt_sender v,
      cx_value = uint (tx_value (vt_transaction v)), cx_calldata = [], cx_code = tx_data (vt_transaction v),
      cx_gas = evm_gas, cx_static = False, cx_depth = 0,
      cx_gas_price = effective_gas_price (vt_pricing v), cx_chain_id = env_chain_id env,
      cx_code_address = new_address\<rparr>"

definition execute_create_at ::
  "hashlib \<Rightarrow> nat \<Rightarrow> validated_tx \<Rightarrow> block_env \<Rightarrow> int \<Rightarrow> address \<Rightarrow> statedb \<Rightarrow> run" where
  "execute_create_at hl n v env evm_gas new_address db =
     (let sender = vt_sender v; val = uint (tx_value (vt_transaction v)) in
      if \<not> can_deploy_to db new_address then (Inr (exec_result_default False 0), db)
      else
        let snapshot = statedb_snapshot db;
            db1 = assign_nonce new_address 1 db;
            (ok, db2) = (if val \<noteq> 0 then transfer sender new_address val db1 else (True, db1)) in
        if \<not> ok then (Inr (exec_result_default False 0), statedb_restore snapshot db2)
        else
          (case execute hl n (create_context new_address v env evm_gas) db2 of
             (Inl e, db3) \<Rightarrow> (Inl e, db3)
           | (Inr r, db3) \<Rightarrow>
               if \<not> r_success r then (Inr r, statedb_restore snapshot db3)
               else (Inr (r\<lparr>r_created_address := Some new_address\<rparr>), set_code new_address (r_output r) db3)))"

definition execute_create_transaction ::
  "hashlib \<Rightarrow> nat \<Rightarrow> validated_tx \<Rightarrow> block_env \<Rightarrow> int \<Rightarrow> statedb \<Rightarrow> run" where
  "execute_create_transaction hl n v env evm_gas db =
     (case compute_create_address (vt_sender v) (uint (tx_nonce (vt_transaction v))) of
        Inl e \<Rightarrow> (Inl (PyError e), db)
      | Inr new_address \<Rightarrow> execute_create_at hl n v env evm_gas new_address db)"

definition execute_message_transaction ::
  "hashlib \<Rightarrow> nat \<Rightarrow> validated_tx \<Rightarrow> block_env \<Rightarrow> int \<Rightarrow> address \<Rightarrow> statedb \<Rightarrow> run" where
  "execute_message_transaction hl n v env evm_gas dest db =
     interpreter_call hl n dest (vt_sender v) (Some (vt_sender v)) (uint (tx_value (vt_transaction v)))
       (tx_data (vt_transaction v)) evm_gas False (effective_gas_price (vt_pricing v)) (env_chain_id env) db"

record tx_result =
  tr_transaction :: transaction
  tr_sender :: address
  tr_success :: bool
  tr_gas_limit :: int
  tr_gas_used :: int
  tr_gas_refunded :: int
  tr_gas_remaining :: int
  tr_effective_gas_price :: int
  tr_total_fee_paid :: int
  tr_coinbase_fee :: int
  tr_base_fee_burned :: int
  tr_logs :: "log_entry list"
  tr_output :: bytes
  tr_revert_data :: bytes
  tr_contract_address :: "address option"
  tr_receipt :: receipt
  tr_error :: "evm_exn option"
  tr_zk_verified :: bool

text \<open>Gas accounting after the run: units given back, and the fees for the units used.\<close>

definition gas_refunded_units :: "chain_config \<Rightarrow> int \<Rightarrow> exec_result \<Rightarrow> int" where
  "gas_refunded_units cfg gas_limit r =
     (let gas_consumed_before_refund = gas_limit - r_gas_remaining r;
          refund_cap = (if r_success r then gas_consumed_before_refund div cfg_gas_refund_quotient cfg else 0)
      in min (r_gas_refund r) refund_cap)"

definition coinbase_share :: "chain_config \<Rightarrow> gas_pricing \<Rightarrow> int \<Rightarrow> int \<times> int" where
  "coinbase_share cfg p gas_used =
     (let coinbase_fee = tip_reward p gas_used; base_fee_burned = base_fee_burn p gas_used in
      if \<not> cfg_burn_base_fee cfg then (coinbase_fee + base_fee_burned, 0) else (coinbase_fee, base_fee_burned))"

definition settle ::
  "validated_tx \<Rightarrow> block_env \<Rightarrow> chain_config \<Rightarrow> int \<Rightarrow> exec_result \<Rightarrow> statedb
   \<Rightarrow> (exec_error, tx_result) result \<times> statedb" where
  "settle v env cfg cumulative_before r db =
     (let t = vt_transaction v; p = vt_pricing v; gas_limit = uint (tx_gas_limit t);
          gas_refunded = gas_refunded_units cfg gas_limit r;
          refunded_gas_units = r_gas_remaining r + gas_refunded;
          gas_used = gas_limit - refunded_gas_units;
          refund = refund_amount p refunded_gas_units;
          db1 = (if refund \<noteq> 0 then add_balance (vt_sender v) refund db else db);
          (coinbase_fee, base_fee_burned) = coinbase_share cfg p gas_used;
          db2 = (if coinbase_fee \<noteq> 0 then add_balance (env_coinbase env) coinbase_fee db1 else db1) in
      case bindR (mapE ExecTx (tx_hash t)) (\<lambda>h. mapE ExecPy (mk_receipt
          \<lparr>rc_status = Some (if r_success r then 1 else 0), rc_cumulative_gas_used = cumulative_before + gas_used,
           rc_gas_used = gas_used, rc_logs = r_logs r, rc_transaction_type = tx_type_byte t,
           rc_contract_address = r_created_address r, rc_transaction_hash = Some h,
           rc_effective_gas_price = Some (effective_gas_price p), rc_post_state = None, rc_bloom = []\<rparr>)) of
        Inl e \<Rightarrow> (Inl e, db2)
      | Inr receipt \<Rightarrow>
          (Inr \<lparr>tr_transaction = t, tr_sender = vt_sender v, tr_success = r_success r, tr_gas_limit = gas_limit,
            tr_gas_used = gas_used, tr_gas_refunded = gas_refunded, tr_gas_remaining = r_gas_remaining r,
            tr_effective_gas_price = effective_gas_price p, tr_total_fee_paid = gas_used * effective_gas_price p,
            tr_coinbase_fee = coinbase_fee, tr_base_fee_burned = base_fee_burned, tr_logs = r_logs r,
            tr_output = (if r_success r then r_output r else []),
            tr_revert_data = (if \<not> r_success r then r_output r else []),
            tr_contract_address = r_created_address r, tr_receipt = receipt, tr_error = r_error r,
            tr_zk_verified = vt_zk_verified v\<rparr>,
           commit_transaction db2))"

text \<open>The body of the \<open>try\<close> statement.\<close>

definition run_transaction ::
  "hashlib \<Rightarrow> nat \<Rightarrow> validated_tx \<Rightarrow> block_env \<Rightarrow> chain_config \<Rightarrow> int \<Rightarrow> statedb
   \<Rightarrow> (exec_error, tx_result) result \<times> statedb" where
  "run_transaction hl n v env cfg cumulative_before db =
     (let t = vt_transaction v; gas_limit = uint (tx_gas_limit t);
          (ok, db1) = subtract_balance (vt_sender v) (prepaid_gas_cost (vt_pricing v) gas_limit) db in
      if \<not> ok then (Inl (ExecPy AssertionError), db1)
      else
        let db2 = increment_nonce (vt_sender v) db1;
            evm_gas = gas_limit - vt_total_pre_execution_gas v in
        (case (case tx_to t of
                 None \<Rightarrow> execute_create_transaction hl n v env evm_gas db2
               | Some dest \<Rightarrow> execute_message_transaction hl n v env evm_gas dest db2) of
           (Inl e, db3) \<Rightarrow> (Inl (ExecEvm e), db3)
         | (Inr r, db3) \<Rightarrow> settle v env cfg cumulative_before r db3))"

definition deferred_zk_check ::
  "validated_tx \<Rightarrow> zk_registry option \<Rightarrow> (exec_error, validated_tx) result" where
  "deferred_zk_check v registry =
     (if vt_zk_verification_deferred v then
        (case vt_transaction v of
           Zk z \<Rightarrow> bindR (validate_zk_proof z registry) (\<lambda>_.
             Inr (v\<lparr>vt_zk_verified := True, vt_zk_verification_deferred := False\<rparr>))
         | _ \<Rightarrow> Inl (ExecPy AssertionError))
      else Inr v)"

definition apply_transaction ::
  "hashlib \<Rightarrow> nat \<Rightarrow> statedb \<Rightarrow> transaction \<Rightarrow> block_env \<Rightarrow> chain_config \<Rightarrow> zk_registry option \<Rightarrow> int
   \<Rightarrow> (exec_error, tx_result) result \<times> statedb" where
  "apply_transaction hl n db t env cfg registry cumulative_before =
     (case bindR (validate_transaction t db env cfg registry) (\<lambda>v. deferred_zk_check v registry) of
        Inl e \<Rightarrow> (Inl e, db)
      | Inr v \<Rightarrow>
          let (checkpoint, j) = journal_checkpoint \<lparr>j_state = db, j_snapshots = []\<rparr>;
              (out, db') = run_transaction hl n v env cfg cumulative_before (j_state j) in
          case bindR out (\<lambda>res. bindR (mapE ExecPy (journal_commit checkpoint (j\<lparr>j_state := db'\<rparr>))) (\<lambda>j'. Inr (res, j'))) of
            Inr (res, j') \<Rightarrow> (Inr res, j_state j')
          | Inl e \<Rightarrow>
              (case journal_revert checkpoint (j\<lparr>j_state := db'\<rparr>) of
                 Inr j' \<Rightarrow> (Inl e, j_state j')
               | Inl e' \<Rightarrow> (Inl (ExecPy e'), db')))"

section \<open>What validation guarantees\<close>

lemma validate_nonce_Inr: "validate_nonce t sender db = Inr u \<longleftrightarrow> uint (tx_nonce t) = get_nonce db sender"
  by (auto simp: validate_nonce_def Let_def)

lemma validated_facts:
  assumes "validate_transaction t db env cfg registry = Inr v"
  shows "vt_transaction v = t" "tx_sender t (cfg_enforce_low_s cfg) = Inr (vt_sender v)"
    "uint (tx_nonce t) = get_nonce db (vt_sender v)"
    "pricing_for_transaction cfg t env = Inr (vt_pricing v)"
    "calculate_zk_verification_gas t (cfg_zk_gas_model cfg) = Inr (vt_zk_verification_gas v)"
    "vt_total_pre_execution_gas v = calculate_intrinsic_gas t + vt_zk_verification_gas v"
    "vt_total_pre_execution_gas v \<le> uint (tx_gas_limit t)" "uint (tx_gas_limit t) \<le> env_gas_limit env"
    "max_gas_cost (vt_pricing v) (uint (tx_gas_limit t)) + uint (tx_value t) \<le> get_balance db (vt_sender v)"
  using assms
  by (auto simp: validate_transaction_def recover_sender_def validate_nonce_Inr Let_def not_less
      split: if_splits transaction.splits)

lemma deferred_fields:
  assumes "deferred_zk_check v registry = Inr v'"
  shows "v' = v\<lparr>vt_zk_verified := vt_zk_verified v', vt_zk_verification_deferred := vt_zk_verification_deferred v'\<rparr>"
  using assms by (cases "vt_transaction v") (auto simp: deferred_zk_check_def split: if_splits)

text \<open>The facts that execution relies on, for the transaction and its validation record.\<close>

definition vt_ok :: "chain_config \<Rightarrow> block_env \<Rightarrow> statedb \<Rightarrow> validated_tx \<Rightarrow> bool" where
  "vt_ok cfg env db v \<longleftrightarrow>
     pricing_for_transaction cfg (vt_transaction v) env = Inr (vt_pricing v)
     \<and> 0 \<le> vt_total_pre_execution_gas v \<and> vt_total_pre_execution_gas v \<le> uint (tx_gas_limit (vt_transaction v))
     \<and> uint (tx_nonce (vt_transaction v)) = get_nonce db (vt_sender v)
     \<and> max_gas_cost (vt_pricing v) (uint (tx_gas_limit (vt_transaction v))) + uint (tx_value (vt_transaction v))
         \<le> get_balance db (vt_sender v)"

lemma zk_gas_nonneg:
  assumes "zk_gas_ok (cfg_zk_gas_model cfg)" "calculate_zk_verification_gas t (cfg_zk_gas_model cfg) = Inr g"
  shows "0 \<le> g"
  using assms verification_gas_nonneg[OF assms(1)]
  by (cases t) (auto simp: calculate_zk_verification_gas_def, metis sum.inject(2))

lemma validated_ok:
  assumes "bindR (validate_transaction t db env cfg registry) (\<lambda>v. deferred_zk_check v registry) = Inr v"
    and "zk_gas_ok (cfg_zk_gas_model cfg)"
  shows "vt_ok cfg env db v" "vt_transaction v = t" "tx_sender t (cfg_enforce_low_s cfg) = Inr (vt_sender v)"
proof -
  obtain w where w: "validate_transaction t db env cfg registry = Inr w" "deferred_zk_check w registry = Inr v"
    using assms(1) by auto
  obtain a b where v: "v = w\<lparr>vt_zk_verified := a, vt_zk_verification_deferred := b\<rparr>"
    by (rule that) (rule deferred_fields[OF w(2)])
  note f = validated_facts[OF w(1)]
  have "0 \<le> vt_zk_verification_gas w" by (rule zk_gas_nonneg[OF assms(2) f(5)])
  then show "vt_ok cfg env db v" using f intrinsic_gas_min[of t] by (simp add: vt_ok_def v)
  show "vt_transaction v = t" "tx_sender t (cfg_enforce_low_s cfg) = Inr (vt_sender v)" using f v by simp_all
qed

text \<open>Validation covers the upfront payment and the value, so that the assertion cannot fail.\<close>

definition env_ok :: "block_env \<Rightarrow> bool" where
  "env_ok env \<longleftrightarrow> (case env_base_fee env of None \<Rightarrow> True | Some b \<Rightarrow> 0 \<le> b)"

lemma env_okD: "env_ok env \<Longrightarrow> env_base_fee env = Some b \<Longrightarrow> 0 \<le> b"
  by (simp add: env_ok_def)

lemmas pricing_env = pricing_split[OF _ env_okD]

lemma prepaid_covered:
  assumes "vt_ok cfg env db v" "env_ok env"
  shows "0 \<le> prepaid_gas_cost (vt_pricing v) (uint (tx_gas_limit (vt_transaction v)))"
    "prepaid_gas_cost (vt_pricing v) (uint (tx_gas_limit (vt_transaction v))) + uint (tx_value (vt_transaction v))
      \<le> get_balance db (vt_sender v)"
proof -
  have pr: "pricing_for_transaction cfg (vt_transaction v) env = Inr (vt_pricing v)"
    using assms(1) by (simp add: vt_ok_def)
  note split = pricing_env[OF pr assms(2)]
  show "0 \<le> prepaid_gas_cost (vt_pricing v) (uint (tx_gas_limit (vt_transaction v)))"
    using split by (simp add: prepaid_gas_cost_def)
  have "effective_gas_price (vt_pricing v) * uint (tx_gas_limit (vt_transaction v))
      \<le> max_upfront_gas_price (vt_pricing v) * uint (tx_gas_limit (vt_transaction v))"
    using split by (intro mult_right_mono) auto
  then show "prepaid_gas_cost (vt_pricing v) (uint (tx_gas_limit (vt_transaction v))) + uint (tx_value (vt_transaction v))
      \<le> get_balance db (vt_sender v)"
    using assms(1) by (simp add: vt_ok_def prepaid_gas_cost_def max_gas_cost_def)
qed

section \<open>The run keeps the invariants of the state\<close>

context state_invariant
begin

lemma execute_create_at_ok:
  assumes "\<not> stat" "S db" "0 \<le> evm_gas"
  shows "case execute_create_at hl n v env evm_gas a db of
      (Inl e, db') \<Rightarrow> e = FuelExhausted
    | (Inr r, db') \<Rightarrow> S db' \<and> 0 \<le> r_gas_remaining r \<and> r_gas_remaining r \<le> evm_gas"
proof (cases "can_deploy_to db a")
  case True
  let ?val = "uint (tx_value (vt_transaction v))"
  obtain ok db2 where t: "(if ?val \<noteq> 0 then transfer (vt_sender v) a ?val (assign_nonce a 1 db) else (True, assign_nonce a 1 db)) = (ok, db2)"
    by (cases "if ?val \<noteq> 0 then transfer (vt_sender v) a ?val (assign_nonce a 1 db) else (True, assign_nonce a 1 db)")
  have S2: "S db2"
    using t S_transfer[OF assms(1) S_assign[OF assms(1,2) True], of ?val "vt_sender v" a] S_assign[OF assms(1,2) True]
    by (auto split: if_splits)
  have "ctx_ok (create_context a v env evm_gas)" "cx_gas (create_context a v env evm_gas) = evm_gas"
    unfolding ctx_ok_def create_context_def using assms by simp_all
  note ex = execute_ok[OF this(1) S2, of hl n, unfolded this(2)]
  have code: "S db3 \<Longrightarrow> S (set_code a c db3)" for c db3
    by (rule S_set_code[OF assms(1) assms(2) True])
  show ?thesis
    unfolding execute_create_at_def Let_def t prod.case
    using assms(3) True ex code S_snapshot_restore[OF assms(2)]
    by (auto simp: exec_result_default_def split: prod.splits sum.splits)
qed (use assms in \<open>simp add: execute_create_at_def exec_result_default_def\<close>)

lemma tx_run_ok:
  assumes "\<not> stat" "S db" "0 \<le> evm_gas"
  shows "case (case tx_to (vt_transaction v) of None \<Rightarrow> execute_create_transaction hl n v env evm_gas db
      | Some dest \<Rightarrow> execute_message_transaction hl n v env evm_gas dest db) of
      (Inl e, db') \<Rightarrow> e = FuelExhausted
    | (Inr r, db') \<Rightarrow> S db' \<and> 0 \<le> r_gas_remaining r \<and> r_gas_remaining r \<le> evm_gas"
proof (cases "tx_to (vt_transaction v)")
  case None
  obtain a where "compute_create_address (vt_sender v) (uint (tx_nonce (vt_transaction v))) = Inr a"
    using compute_create_address_ok by fastforce
  then show ?thesis
    using None execute_create_at_ok[OF assms, of hl n v env a] by (simp add: execute_create_transaction_def)
next
  case (Some dest)
  then show ?thesis
    using interpreter_call_ok[OF assms(2) _ assms(3), of "uint (tx_value (vt_transaction v))" False hl n dest
        "vt_sender v" "Some (vt_sender v)" "tx_data (vt_transaction v)" "effective_gas_price (vt_pricing v)"
        "env_chain_id env"] assms(1)
    by (simp add: execute_message_transaction_def)
qed

end

text \<open>The refund of a run from a settled state is not negative.\<close>

lemma execute_create_at_paid:
  assumes "db_wf db" "execute_create_at hl n v env evm_gas a db = (Inr r, db')"
  shows "covered r (pending_clears db' - pending_clears db)"
proof (cases "can_deploy_to db a")
  case True
  let ?val = "uint (tx_value (vt_transaction v))" and ?db1 = "assign_nonce a 1 db"
  obtain ok db2 where t: "(if ?val \<noteq> 0 then transfer (vt_sender v) a ?val ?db1 else (True, ?db1)) = (ok, db2)"
    by (cases "if ?val \<noteq> 0 then transfer (vt_sender v) a ?val ?db1 else (True, ?db1)")
  define p where "p = pending_clears db"
  have db1: "db_wf ?db1" using assms(1) by (simp add: db_wf_ops)
  have "db2 = (if ?val \<noteq> 0 then snd (transfer (vt_sender v) a ?val ?db1) else ?db1)"
    using arg_cong[where f = snd, OF t] by (simp split: if_splits)
  then have db2: "db_wf db2" "pending_clears db2 = p"
    using db1 db_wf_transfer[OF db1, of "vt_sender v" a ?val] by (simp_all add: p_def)
  let ?cx = "create_context a v env evm_gas"
  have eq: "(if \<not> ok then (Inr (exec_result_default False 0), statedb_restore (statedb_snapshot db) db2)
      else case execute hl n ?cx db2 of
          (Inl e, db3) \<Rightarrow> (Inl e, db3)
        | (Inr r, db3) \<Rightarrow> if \<not> r_success r then (Inr r, statedb_restore (statedb_snapshot db) db3)
            else (Inr (r\<lparr>r_created_address := Some a\<rparr>), set_code a (r_output r) db3)) = (Inr r, db')"
    using assms(2) True unfolding execute_create_at_def Let_def t prod.case by simp
  have undone: "pending_clears (statedb_restore (statedb_snapshot db) d) = p" for d
    using assms(1) by (simp add: snapshot_id restore_id p_def)
  show ?thesis
  proof (cases ok)
    case False
    then show ?thesis using eq by (auto simp: covered_def exec_result_default_def)
  next
    case ok: True
    obtain r3 db3 where ex: "execute hl n ?cx db2 = (Inr r3, db3)"
      using eq ok by (auto split: prod.splits sum.splits)
    have "covered r3 (pending_clears db3 - p)" using execute_paid[OF db2(1) ex] db2(2) by simp
    then show ?thesis using eq ok undone[of db3] unfolding ex p_def[symmetric] by (auto simp: covered_def split: if_splits)
  qed
qed (use assms(2) in \<open>auto simp: execute_create_at_def covered_def exec_result_default_def\<close>)

lemma tx_run_refund:
  assumes "db_wf db" "pending_clears db = 0"
    and "(case tx_to (vt_transaction v) of None \<Rightarrow> execute_create_transaction hl n v env evm_gas db
      | Some dest \<Rightarrow> execute_message_transaction hl n v env evm_gas dest db) = (Inr r, db')"
  shows "0 \<le> r_gas_refund r"
proof -
  have "covered r (pending_clears db' - pending_clears db)"
    using assms(3) execute_create_at_paid[OF assms(1)] interpreter_call_paid[OF assms(1)]
    by (auto simp: execute_create_transaction_def execute_message_transaction_def split: option.splits sum.splits)
  then show ?thesis
    using assms(2) pending_clears_nonneg[of db'] by (auto simp: covered_def split: if_splits)
qed

section \<open>A validated transaction completes\<close>

text \<open>A transaction with a recoverable sender has a hash.\<close>

lemma signature_from_values_v: "signature_from_values h v r s low = Inr a \<Longrightarrow> v = 0 \<or> v = 1"
  by (auto simp: signature_from_values_def split: if_splits)

lemma eip1559_fields_ok:
  assumes "rlp_encode (ObjList (ObjInt c # fs)) = Inr bs"
  shows "0 \<le> c"
  using assms by (auto simp: rlp_encode_int_def split: if_splits)

lemma tx_hash_of_sender:
  assumes "tx_sender t low = Inr a"
  shows "\<exists>h. tx_hash t = Inr h"
proof (cases t)
  case (Legacy l)
  with assms obtain rid c where "legacy_recovery_id l = Inr (rid, c)" by (auto simp: legacy_sender_def split: if_splits)
  from legacy_recovery_v[OF this] obtain v r s where
    sig: "lt_v l = Some v" "lt_r l = Some r" "lt_s l = Some s" "0 \<le> v" by blast
  then have "rlp_ok (ObjList (legacy_base_fields l @ [ObjInt v, ObjInt (uint r), ObjInt (uint s)]))"
    by (simp add: legacy_base_fields_def)
  from rlp_encode_image[OF this] show ?thesis
    using Legacy sig by (simp add: legacy_tx_hash_def legacy_encode_def del: rlp_encode.simps)
next
  case (Eip1559 e)
  with assms obtain v r s h where sig: "et_v e = Some v" "et_r e = Some r" "et_s e = Some s"
    "eip1559_signing_hash e = Inr h" "signature_from_values h v r s low = Inr a"
    by (auto simp: eip1559_sender_def split: option.splits)
  have "0 \<le> et_chain_id e"
    using sig(4) eip1559_fields_ok
    by (auto simp: eip1559_signing_hash_def eip1559_signing_payload_def eip1559_unsigned_rlp_fields_def simp del: rlp_encode.simps)
  then have "rlp_ok (ObjList (eip1559_unsigned_rlp_fields e @ [ObjInt v, ObjInt (uint r), ObjInt (uint s)]))"
    using signature_from_values_v[OF sig(5)] by (auto simp: eip1559_unsigned_rlp_fields_def)
  from rlp_encode_image[OF this] show ?thesis
    using Eip1559 sig by (simp add: eip1559_tx_hash_def eip1559_encode_def del: rlp_encode.simps)
next
  case (Zk z)
  let ?e = "zt_base_tx z"
  from Zk assms obtain v r s h where sig: "et_v ?e = Some v" "et_r ?e = Some r" "et_s ?e = Some s"
    "zk_signing_hash z = Inr h" "signature_from_values h v r s low = Inr a"
    by (auto simp: zk_sender_def split: option.splits)
  have "0 \<le> et_chain_id ?e"
    using sig(4) eip1559_fields_ok
    by (auto simp: zk_signing_hash_def zk_signing_payload_def zk_unsigned_rlp_fields_def Let_def simp del: rlp_encode.simps)
  then have "rlp_ok (ObjList (zk_unsigned_rlp_fields z @ [ObjInt v, ObjInt (uint r), ObjInt (uint s)]))"
    using signature_from_values_v[OF sig(5)] by (auto simp: zk_unsigned_rlp_fields_def Let_def list_all_iff)
  from rlp_encode_image[OF this] show ?thesis
    using Zk sig by (simp add: zk_tx_hash_def zk_encode_def del: rlp_encode.simps)
qed

text \<open>With enough fuel the run returns, and more fuel changes nothing.\<close>

lemma create_at_outcome:
  assumes "db_wf db" "0 \<le> evm_gas"
  shows "\<exists>n r db'. \<forall>n' \<ge> n. execute_create_at hl n' v env evm_gas a db = (Inr r, db')"
proof (cases "can_deploy_to db a")
  case True
  let ?val = "uint (tx_value (vt_transaction v))"
  obtain ok db2 where t: "(if ?val \<noteq> 0 then transfer (vt_sender v) a ?val (assign_nonce a 1 db) else (True, assign_nonce a 1 db)) = (ok, db2)"
    by (cases "if ?val \<noteq> 0 then transfer (vt_sender v) a ?val (assign_nonce a 1 db) else (True, assign_nonce a 1 db)")
  have wf1: "db_wf (assign_nonce a 1 db)" using assms(1) by (intro db_wf_assign_nonce) (simp_all add: word_range_def)
  have wf2: "db_wf db2" using t wf1 db_wf_transfer[OF wf1] by (metis snd_conv)
  have "wf_inv.ctx_ok (create_context a v env evm_gas)"
    unfolding wf_inv.ctx_ok_def create_context_def using assms by simp
  from execute_outcome[OF this wf2, of hl] obtain n r db3 where
    "\<forall>n'\<ge>n. execute hl n' (create_context a v env evm_gas) db2 = (Inr r, db3)" by blast
  then show ?thesis
    unfolding execute_create_at_def Let_def t prod.case using True by (cases ok; cases "r_success r") (auto intro!: exI[of _ n])
qed (auto simp: execute_create_at_def)

lemma tx_run_outcome:
  assumes "db_wf db" "0 \<le> evm_gas"
  shows "\<exists>n r db'. \<forall>n' \<ge> n. (case tx_to (vt_transaction v) of
      None \<Rightarrow> execute_create_transaction hl n' v env evm_gas db
    | Some dest \<Rightarrow> execute_message_transaction hl n' v env evm_gas dest db) = (Inr r, db')"
proof (cases "tx_to (vt_transaction v)")
  case None
  obtain a where "compute_create_address (vt_sender v) (uint (tx_nonce (vt_transaction v))) = Inr a"
    using compute_create_address_ok by fastforce
  then show ?thesis using None create_at_outcome[OF assms, of hl v env a] by (simp add: execute_create_transaction_def)
next
  case (Some dest)
  then show ?thesis using call_outcome[OF assms(1) _ assms(2)] by (simp add: execute_message_transaction_def)
qed

section \<open>Settlement\<close>

text \<open>The units given back never exceed the limit, whatever the interpreter reports as its refund.\<close>

lemma refund_units_bound:
  assumes "0 \<le> r_gas_remaining r" "r_gas_remaining r \<le> gas_limit" "1 \<le> cfg_gas_refund_quotient cfg"
  shows "r_gas_remaining r + gas_refunded_units cfg gas_limit r \<le> gas_limit"
    "0 \<le> r_gas_refund r \<Longrightarrow> 0 \<le> gas_refunded_units cfg gas_limit r"
proof -
  let ?c = "gas_limit - r_gas_remaining r"
  have "?c div cfg_gas_refund_quotient cfg \<le> ?c div 1" using assms by (intro zdiv_mono2) auto
  then show "r_gas_remaining r + gas_refunded_units cfg gas_limit r \<le> gas_limit"
    using assms by (auto simp: gas_refunded_units_def Let_def)
  have "0 \<le> ?c div cfg_gas_refund_quotient cfg" using assms by (simp add: pos_imp_zdiv_nonneg_iff)
  then show "0 \<le> r_gas_refund r \<Longrightarrow> 0 \<le> gas_refunded_units cfg gas_limit r"
    by (auto simp: gas_refunded_units_def Let_def)
qed

lemma share_total: "coinbase_share cfg p g = (c, b) \<Longrightarrow> c + b = tip_reward p g + base_fee_burn p g"
  by (auto simp: coinbase_share_def Let_def split: if_splits)

lemma add_balance_opt:
  assumes "db_wf db" "0 \<le> x" "total_balance db + x < 2 ^ 256"
  shows "db_wf (if x \<noteq> 0 then add_balance a x db else db)"
    "total_balance (if x \<noteq> 0 then add_balance a x db else db) = total_balance db + x"
  using assms total_balance_add[OF assms] by (auto simp: add_balance_def db_wf_set_balance)

abbreviation vt_limit :: "validated_tx \<Rightarrow> int" where
  "vt_limit v \<equiv> uint (tx_gas_limit (vt_transaction v))"

abbreviation returned_units :: "chain_config \<Rightarrow> validated_tx \<Rightarrow> exec_result \<Rightarrow> int" where
  "returned_units cfg v r \<equiv> r_gas_remaining r + gas_refunded_units cfg (vt_limit v) r"

text \<open>The fields of the result and the two payments that \<open>settle\<close> makes.\<close>

lemma settle_fields:
  assumes "settle v env cfg cum r db = (Inr res, db')"
  obtains db1 db2 where
    "tr_gas_used res = vt_limit v - returned_units cfg v r" "tr_gas_limit res = vt_limit v"
    "tr_gas_refunded res = gas_refunded_units cfg (vt_limit v) r" "tr_gas_remaining res = r_gas_remaining r"
    "tr_success res = r_success r" "tr_sender res = vt_sender v"
    "(tr_coinbase_fee res, tr_base_fee_burned res) = coinbase_share cfg (vt_pricing v) (tr_gas_used res)"
    "tr_total_fee_paid res = tr_gas_used res * effective_gas_price (vt_pricing v)"
    "rc_cumulative_gas_used (tr_receipt res) = cum + tr_gas_used res" "rc_gas_used (tr_receipt res) = tr_gas_used res"
    "0 \<le> tr_gas_used res"
    "db1 = (let x = refund_amount (vt_pricing v) (returned_units cfg v r) in
       if x \<noteq> 0 then add_balance (vt_sender v) x db else db)"
    "db2 = (if tr_coinbase_fee res \<noteq> 0 then add_balance (env_coinbase env) (tr_coinbase_fee res) db1 else db1)"
    "db' = commit_transaction db2"
proof -
  obtain c b where cb: "coinbase_share cfg (vt_pricing v) (vt_limit v - returned_units cfg v r) = (c, b)"
    by (cases "coinbase_share cfg (vt_pricing v) (vt_limit v - returned_units cfg v r)")
  have mk: "mk_receipt x = Inr y \<Longrightarrow> rc_cumulative_gas_used y = rc_cumulative_gas_used x
      \<and> rc_gas_used y = rc_gas_used x \<and> 0 \<le> rc_gas_used x" for x y
    by (auto simp: mk_receipt_def split: if_splits)
  show thesis
    using assms unfolding settle_def Let_def cb prod.case
    by (split sum.splits) (auto simp: cb Let_def dest!: mk intro!: that)
qed

lemma settle_balances:
  assumes wf: "db_wf db" and pr: "pricing_for_transaction cfg (vt_transaction v) env = Inr (vt_pricing v)"
    and env: "env_ok env" and units: "0 \<le> returned_units cfg v r" "returned_units cfg v r \<le> vt_limit v"
    and room: "total_balance db + prepaid_gas_cost (vt_pricing v) (vt_limit v) < 2 ^ 256"
    and out: "settle v env cfg cum r db = (Inr res, db')"
  shows "db_wf db'" "tr_coinbase_fee res + tr_base_fee_burned res = tr_total_fee_paid res"
    "0 \<le> tr_coinbase_fee res" "0 \<le> tr_base_fee_burned res"
    "total_balance db' + tr_base_fee_burned res = total_balance db + prepaid_gas_cost (vt_pricing v) (vt_limit v)"
proof -
  let ?p = "vt_pricing v" and ?u = "returned_units cfg v r"
  have split: "effective_gas_price ?p = base_fee_per_gas ?p + priority_fee_per_gas ?p"
    "0 \<le> priority_fee_per_gas ?p" "0 \<le> base_fee_per_gas ?p"
    using pricing_env[OF pr env] by auto
  from out obtain db1 db2 where f: "tr_gas_used res = vt_limit v - ?u" "0 \<le> tr_gas_used res"
    "(tr_coinbase_fee res, tr_base_fee_burned res) = coinbase_share cfg ?p (tr_gas_used res)"
    "tr_total_fee_paid res = tr_gas_used res * effective_gas_price ?p"
    and db1: "db1 = (let x = refund_amount ?p ?u in if x \<noteq> 0 then add_balance (vt_sender v) x db else db)"
    and db2: "db2 = (if tr_coinbase_fee res \<noteq> 0 then add_balance (env_coinbase env) (tr_coinbase_fee res) db1 else db1)"
    and db': "db' = commit_transaction db2"
    by (rule settle_fields) blast
  show fee: "tr_coinbase_fee res + tr_base_fee_burned res = tr_total_fee_paid res"
    using share_total[OF f(3)[symmetric]] f(4) split(1) by (simp add: tip_reward_def base_fee_burn_def algebra_simps)
  show nn: "0 \<le> tr_coinbase_fee res" "0 \<le> tr_base_fee_burned res"
    using f(2,3) split by (auto simp: coinbase_share_def tip_reward_def base_fee_burn_def Let_def split: if_splits)
  have x: "0 \<le> refund_amount ?p ?u" using split units by (simp add: refund_amount_def)
  have total: "refund_amount ?p ?u + tr_total_fee_paid res = prepaid_gas_cost ?p (vt_limit v)"
    unfolding f(1,4) by (simp add: refund_amount_def prepaid_gas_cost_def algebra_simps)
  have 1: "db_wf db1" "total_balance db1 = total_balance db + refund_amount ?p ?u"
    unfolding db1 Let_def using wf x total fee nn room by (intro add_balance_opt; linarith)+
  have 2: "db_wf db2" "total_balance db2 = total_balance db1 + tr_coinbase_fee res"
    unfolding db2 using 1 nn total fee room by (intro add_balance_opt; linarith)+
  show "db_wf db'" unfolding db' by (rule db_wf_commit[OF 2(1)])
  have "total_balance db' = total_balance db2"
    unfolding db' using 2(1) by (intro total_balance_commit) (simp add: db_wf_def)
  then show "total_balance db' + tr_base_fee_burned res = total_balance db + prepaid_gas_cost ?p (vt_limit v)"
    using 1 2 fee total by linarith
qed

lemma settle_settled:
  assumes "settle v env cfg cum r db = (Inr res, db')" "db_wf db"
  shows "db_wf db' \<and> settled_storage db'"
proof -
  have wf: "db_wf d \<Longrightarrow> db_wf (if x \<noteq> 0 then add_balance a x d else d)" for d x and a :: address
    by (simp add: add_balance_def db_wf_set_balance)
  show ?thesis
    by (rule settle_fields[OF assms(1)]) (simp add: Let_def wf assms(2) db_wf_commit settled_commit db_wf_def[THEN iffD1])
qed

lemma settle_returns:
  assumes "0 \<le> cum" "returned_units cfg v r \<le> vt_limit v" "tx_hash (vt_transaction v) = Inr h"
  shows "\<exists>res db'. settle v env cfg cum r db = (Inr res, db')"
proof -
  obtain b where b: "logs_bloom (r_logs r) = Inr b" "length b = 256" using logs_bloom_len by blast
  show ?thesis
    using assms b by (auto simp: settle_def mk_receipt_def Let_def split: prod.splits)
qed

section \<open>Application of a transaction\<close>

lemma journal_restores:
  assumes "db_wf db" "journal_checkpoint \<lparr>j_state = db, j_snapshots = []\<rparr> = (cp, j)"
  shows "j_state j = db" "\<exists>j'. journal_revert cp (j\<lparr>j_state := d\<rparr>) = Inr j' \<and> j_state j' = db"
    "\<exists>j'. journal_commit cp (j\<lparr>j_state := d\<rparr>) = Inr j' \<and> j_state j' = d"
  using assms by (auto simp: journal_checkpoint_def journal_revert_def journal_commit_def Let_def snapshot_id restore_id)

text \<open>The journal around the run: exactly the outcome of the run, with the old state if it raised.\<close>

lemma apply_transaction_eq:
  assumes "db_wf db" "bindR (validate_transaction t db env cfg registry) (\<lambda>v. deferred_zk_check v registry) = Inr v"
  shows "apply_transaction hl n db t env cfg registry cum =
    (case run_transaction hl n v env cfg cum db of (Inl e, _) \<Rightarrow> (Inl e, db) | (Inr res, db') \<Rightarrow> (Inr res, db'))"
proof -
  obtain cp j where cj: "journal_checkpoint \<lparr>j_state = db, j_snapshots = []\<rparr> = (cp, j)"
    by (cases "journal_checkpoint \<lparr>j_state = db, j_snapshots = []\<rparr>")
  obtain out d where run: "run_transaction hl n v env cfg cum db = (out, d)"
    by (cases "run_transaction hl n v env cfg cum db")
  note jr = journal_restores[OF assms(1) cj]
  obtain j1 j2 where "journal_revert cp (j\<lparr>j_state := d\<rparr>) = Inr j1" "j_state j1 = db"
    "journal_commit cp (j\<lparr>j_state := d\<rparr>) = Inr j2" "j_state j2 = d"
    using jr(2,3) by blast
  then show ?thesis
    unfolding apply_transaction_def assms(2) sum.case Let_def cj prod.case jr(1) run
    by (cases out) simp_all
qed

lemma run_transaction_cases:
  assumes "db_wf db" "vt_ok cfg env db v" "env_ok env"
  obtains db2 where "db_wf db2" "pending_clears db2 = pending_clears db"
    "total_balance db2 = total_balance db - prepaid_gas_cost (vt_pricing v) (vt_limit v)"
    "0 \<le> total_balance db2" "0 \<le> vt_limit v - vt_total_pre_execution_gas v"
    "\<And>hl n cum. run_transaction hl n v env cfg cum db =
      (case (case tx_to (vt_transaction v) of
           None \<Rightarrow> execute_create_transaction hl n v env (vt_limit v - vt_total_pre_execution_gas v) db2
         | Some dest \<Rightarrow> execute_message_transaction hl n v env (vt_limit v - vt_total_pre_execution_gas v) dest db2) of
        (Inl e, db3) \<Rightarrow> (Inl (ExecEvm e), db3) | (Inr r, db3) \<Rightarrow> settle v env cfg cum r db3)"
proof -
  let ?x = "prepaid_gas_cost (vt_pricing v) (vt_limit v)"
  note pc = prepaid_covered[OF assms(2,3)]
  have "?x \<le> get_balance db (vt_sender v)" using pc(2) uint_ge_0[of "tx_value (vt_transaction v)"] by linarith
  then obtain db1 where db1: "subtract_balance (vt_sender v) ?x db = (True, db1)"
    by (simp add: subtract_balance_def Let_def)
  have wf1: "db_wf db1" using db_wf_subtract[OF assms(1), of "vt_sender v" ?x] db1 by simp
  have wf2: "db_wf (increment_nonce (vt_sender v) db1)" by (rule db_wf_increment[OF wf1])
  show thesis
  proof (rule that[OF wf2])
    show "pending_clears (increment_nonce (vt_sender v) db1) = pending_clears db"
      using pending_money(2)[of "vt_sender v" ?x db] db1 by simp
    show "total_balance (increment_nonce (vt_sender v) db1) = total_balance db - ?x"
      using total_balance_subtract[OF assms(1) pc(1) db1] by simp
    show "0 \<le> total_balance (increment_nonce (vt_sender v) db1)"
      unfolding total_balance_def using wf2 by (intro dict_sum_nonneg balances_nonneg)
    show "0 \<le> vt_limit v - vt_total_pre_execution_gas v" using assms(2) by (simp add: vt_ok_def)
  qed (simp add: run_transaction_def db1 Let_def)
qed

lemma gas_left_bound:
  assumes "vt_ok cfg env db v" "0 \<le> r_gas_remaining r" "r_gas_remaining r \<le> vt_limit v - vt_total_pre_execution_gas v"
    and "1 \<le> cfg_gas_refund_quotient cfg"
  shows "returned_units cfg v r \<le> vt_limit v"
  using assms by (intro refund_units_bound(1)) (auto simp: vt_ok_def)

lemma run_transaction_money:
  assumes ok: "db_wf db" "vt_ok cfg env db v" "env_ok env" "1 \<le> cfg_gas_refund_quotient cfg"
    and small: "total_balance db < 2 ^ 256" and settled: "settled_storage db"
    and run: "run_transaction hl n v env cfg cum db = (Inr res, db')"
  shows "db_wf db'" "settled_storage db'" "0 \<le> tr_gas_refunded res" "total_balance db' + tr_base_fee_burned res = total_balance db"
    "tr_coinbase_fee res + tr_base_fee_burned res = tr_total_fee_paid res" "0 \<le> tr_coinbase_fee res"
    "0 \<le> tr_base_fee_burned res" "0 \<le> tr_gas_used res" "tr_gas_used res \<le> tr_gas_limit res"
proof -
  let ?x = "prepaid_gas_cost (vt_pricing v) (vt_limit v)" and ?g = "vt_limit v - vt_total_pre_execution_gas v"
  obtain db2 where
    db2: "db_wf db2" "total_balance db2 = total_balance db - ?x" "0 \<le> total_balance db2" "0 \<le> ?g"
    and pending: "pending_clears db2 = pending_clears db"
    and eq: "\<And>hl n cum. run_transaction hl n v env cfg cum db =
      (case (case tx_to (vt_transaction v) of
           None \<Rightarrow> execute_create_transaction hl n v env ?g db2
         | Some dest \<Rightarrow> execute_message_transaction hl n v env ?g dest db2) of
        (Inl e, db3) \<Rightarrow> (Inl (ExecEvm e), db3) | (Inr r, db3) \<Rightarrow> settle v env cfg cum r db3)"
    by (rule run_transaction_cases[OF ok(1-3)]) (rule that; assumption)
  obtain r db3 where ex: "(case tx_to (vt_transaction v) of
        None \<Rightarrow> execute_create_transaction hl n v env ?g db2
      | Some dest \<Rightarrow> execute_message_transaction hl n v env ?g dest db2) = (Inr r, db3)"
    and st: "settle v env cfg cum r db3 = (Inr res, db')"
    using run unfolding eq by (auto split: prod.splits sum.splits)
  have pos: "0 \<le> ?x" by (rule prepaid_covered(1)[OF ok(2,3)])
  have sup: "supply_is (total_balance db2) db2" using db2 pos small by (simp add: supply_is_def)
  then have r: "supply_is (total_balance db2) db3" "0 \<le> r_gas_remaining r" "r_gas_remaining r \<le> ?g"
    using supply_inv.tx_run_ok[where v = v and hl = hl and n = n and env = env, OF _ sup db2(4)] ex by auto
  have f: "tr_gas_used res = vt_limit v - returned_units cfg v r" "tr_gas_limit res = vt_limit v"
    "tr_gas_refunded res = gas_refunded_units cfg (vt_limit v) r" "0 \<le> tr_gas_used res"
    by (rule settle_fields[OF st], assumption)+
  have "0 \<le> r_gas_refund r"
    by (rule tx_run_refund[OF db2(1) _ ex]) (simp add: pending settled_pending[OF settled])
  moreover have limit: "r_gas_remaining r \<le> vt_limit v" using r(3) ok(2) by (simp add: vt_ok_def)
  ultimately show refund: "0 \<le> tr_gas_refunded res"
    unfolding f(3) using refund_units_bound(2)[OF r(2) limit ok(4)] by simp
  have units: "0 \<le> returned_units cfg v r" "returned_units cfg v r \<le> vt_limit v"
    using refund f(3) r(2) gas_left_bound[OF ok(2) r(2,3) ok(4)] by auto
  have pr: "pricing_for_transaction cfg (vt_transaction v) env = Inr (vt_pricing v)"
    using ok(2) by (simp add: vt_ok_def)
  have db3: "db_wf db3" "total_balance db3 = total_balance db - ?x" using r(1) db2 by (auto simp: supply_is_def)
  have room: "total_balance db3 + ?x < 2 ^ 256" using db3(2) small by simp
  note sb = settle_balances[OF db3(1) pr ok(3) units room st]
  show "db_wf db'" "tr_coinbase_fee res + tr_base_fee_burned res = tr_total_fee_paid res" "0 \<le> tr_coinbase_fee res"
    "0 \<le> tr_base_fee_burned res" by (fact sb)+
  show "settled_storage db'" using settle_settled[OF st db3(1)] by simp
  show "total_balance db' + tr_base_fee_burned res = total_balance db" using sb(5) db3(2) by simp
  show "0 \<le> tr_gas_used res" "tr_gas_used res \<le> tr_gas_limit res" using f units by auto
qed

lemma run_transaction_returns:
  assumes ok: "db_wf db" "vt_ok cfg env db v" "env_ok env" "1 \<le> cfg_gas_refund_quotient cfg" "0 \<le> cum"
    and hash: "tx_hash (vt_transaction v) = Inr h"
  shows "\<exists>n res db'. \<forall>n' \<ge> n. run_transaction hl n' v env cfg cum db = (Inr res, db')"
proof -
  let ?g = "vt_limit v - vt_total_pre_execution_gas v"
  obtain db2 where db2: "db_wf db2" "0 \<le> ?g"
    and eq: "\<And>hl n cum. run_transaction hl n v env cfg cum db =
      (case (case tx_to (vt_transaction v) of
           None \<Rightarrow> execute_create_transaction hl n v env ?g db2
         | Some dest \<Rightarrow> execute_message_transaction hl n v env ?g dest db2) of
        (Inl e, db3) \<Rightarrow> (Inl (ExecEvm e), db3) | (Inr r, db3) \<Rightarrow> settle v env cfg cum r db3)"
    by (rule run_transaction_cases[OF ok(1-3)]) (rule that; assumption)
  obtain n r db3 where out: "\<And>n'. n \<le> n' \<Longrightarrow> (case tx_to (vt_transaction v) of
        None \<Rightarrow> execute_create_transaction hl n' v env ?g db2
      | Some dest \<Rightarrow> execute_message_transaction hl n' v env ?g dest db2) = (Inr r, db3)"
    using tx_run_outcome[OF db2, where v = v and hl = hl and env = env] by blast
  have r: "0 \<le> r_gas_remaining r" "r_gas_remaining r \<le> ?g"
    using wf_inv.tx_run_ok[where v = v and hl = hl and n = n and env = env, OF _ db2] out[of n] by auto
  obtain res db' where "settle v env cfg cum r db3 = (Inr res, db')"
    using settle_returns[OF ok(5) gas_left_bound[OF ok(2) r ok(4)] hash] by blast
  then have "run_transaction hl n' v env cfg cum db = (Inr res, db')" if "n \<le> n'" for n'
    unfolding eq out[OF that] by simp
  then show ?thesis by blast
qed

lemma run_transaction_settles:
  assumes "run_transaction hl n v env cfg cum db = (Inr res, db')"
  obtains r db3 where "settle v env cfg cum r db3 = (Inr res, db')"
  using assms by (auto simp: run_transaction_def Let_def split: prod.splits sum.splits if_splits)

section \<open>Properties\<close>

definition cfg_ok :: "chain_config \<Rightarrow> bool" where
  "cfg_ok cfg \<longleftrightarrow> mk_chain_config cfg = Inr cfg \<and> zk_gas_ok (cfg_zk_gas_model cfg)"

lemma cfg_ok_quotient: "cfg_ok cfg \<Longrightarrow> 1 \<le> cfg_gas_refund_quotient cfg"
  by (auto simp: cfg_ok_def mk_chain_config_def split: if_splits)

lemma apply_transaction_runs:
  assumes "db_wf db" "env_ok env" "cfg_ok cfg" "0 \<le> cum"
  shows "case bindR (validate_transaction t db env cfg registry) (\<lambda>v. deferred_zk_check v registry) of
      Inl e \<Rightarrow> apply_transaction hl n db t env cfg registry cum = (Inl e, db)
    | Inr v \<Rightarrow> \<exists>m res db'. \<forall>n' \<ge> m. apply_transaction hl n' db t env cfg registry cum = (Inr res, db')"
proof (cases "bindR (validate_transaction t db env cfg registry) (\<lambda>v. deferred_zk_check v registry)")
  case (Inl e)
  then show ?thesis by (simp add: apply_transaction_def)
next
  case (Inr v)
  have "zk_gas_ok (cfg_zk_gas_model cfg)" using assms(3) by (simp add: cfg_ok_def)
  note v = validated_ok[OF Inr this]
  obtain h where h: "tx_hash (vt_transaction v) = Inr h" using tx_hash_of_sender[OF v(3)] v(2) by auto
  obtain m res db' where "\<And>n'. m \<le> n' \<Longrightarrow> run_transaction hl n' v env cfg cum db = (Inr res, db')"
    using run_transaction_returns[OF assms(1) v(1) assms(2) cfg_ok_quotient[OF assms(3)] assms(4) h, of hl] by blast
  then have "\<forall>n' \<ge> m. apply_transaction hl n' db t env cfg registry cum = (Inr res, db')"
    by (simp add: apply_transaction_eq[OF assms(1) Inr])
  then show ?thesis unfolding Inr by auto
qed

text \<open>
  C4. A transaction is either refused by validation, with its exception and the state untouched, or it
  completes: with enough fuel the state transition returns a result, and never an exception (in
  particular the assertion on the upfront payment cannot fail and the receipt is always accepted).
\<close>

theorem apply_transaction_outcome:
  assumes "db_wf db" "env_ok env" "cfg_ok cfg" "0 \<le> cum"
  shows "case bindR (validate_transaction t db env cfg registry) (\<lambda>v. deferred_zk_check v registry) of
      Inl e \<Rightarrow> apply_transaction hl n db t env cfg registry cum = (Inl e, db)
    | Inr v \<Rightarrow> \<exists>m res db'. \<forall>n' \<ge> m. apply_transaction hl n' db t env cfg registry cum = (Inr res, db')"
  by (rule apply_transaction_runs[OF assms])

text \<open>What a transaction that was applied does to gas, fees and balances.\<close>

definition tx_balanced :: "statedb \<Rightarrow> tx_result \<Rightarrow> statedb \<Rightarrow> bool" where
  "tx_balanced db res db' \<longleftrightarrow> db_wf db' \<and> settled_storage db'
     \<and> 0 \<le> tr_gas_refunded res \<and> 0 \<le> tr_gas_used res \<and> tr_gas_used res \<le> tr_gas_limit res
     \<and> 0 \<le> tr_coinbase_fee res \<and> 0 \<le> tr_base_fee_burned res
     \<and> tr_coinbase_fee res + tr_base_fee_burned res = tr_total_fee_paid res
     \<and> total_balance db' + tr_base_fee_burned res = total_balance db"

lemma apply_transaction_money:
  assumes "db_wf db" "settled_storage db" "env_ok env" "cfg_ok cfg" "total_balance db < 2 ^ 256"
  shows "case apply_transaction hl n db t env cfg registry cum of
      (Inl e, db') \<Rightarrow> db' = db | (Inr res, db') \<Rightarrow> tx_balanced db res db'"
    and "vt_ok cfg env db v \<Longrightarrow> run_transaction hl n v env cfg cum db = (Inr res, db') \<Longrightarrow> tx_balanced db res db'"
proof -
  show run_ok: "tx_balanced db res db'"
    if "vt_ok cfg env db v" "run_transaction hl n v env cfg cum db = (Inr res, db')" for v hl n cum res db'
    using run_transaction_money[OF assms(1) that(1) assms(3) cfg_ok_quotient[OF assms(4)] assms(5,2) that(2)]
    by (simp add: tx_balanced_def)
  show "case apply_transaction hl n db t env cfg registry cum of
      (Inl e, db') \<Rightarrow> db' = db | (Inr res, db') \<Rightarrow> tx_balanced db res db'"
  proof (cases "bindR (validate_transaction t db env cfg registry) (\<lambda>v. deferred_zk_check v registry)")
    case (Inl e)
    then show ?thesis by (simp add: apply_transaction_def)
  next
    case (Inr v)
    have "zk_gas_ok (cfg_zk_gas_model cfg)" using assms(4) by (simp add: cfg_ok_def)
    note v = validated_ok[OF Inr this]
    show ?thesis using run_ok[OF v(1)] by (auto simp: apply_transaction_eq[OF assms(1) Inr] split: prod.split sum.split)
  qed
qed

text \<open>
  C3. Atomicity and conservation, from a well-formed state without pending storage clears (which every
  applied transaction leaves again) and with balances whose sum fits a word. A transaction that fails for
  any reason leaves the state as it was. One that is applied, or that is run after its validation, gets a
  refund that is not negative and uses between zero and its limit of gas; its fee is the sum of the
  coinbase's share and the burned base fee, both non-negative, and all balances together lose exactly the
  burned fee.
\<close>

theorem apply_transaction_conserves:
  assumes "db_wf db" "settled_storage db" "env_ok env" "cfg_ok cfg" "total_balance db < 2 ^ 256"
  shows "(case apply_transaction hl n db t env cfg registry cum of
      (Inl e, db') \<Rightarrow> db' = db
    | (Inr res, db') \<Rightarrow> tx_balanced db res db')
    \<and> (vt_ok cfg env db v \<longrightarrow> (case run_transaction hl n v env cfg cum db of
        (Inl e, db') \<Rightarrow> True
      | (Inr res, db') \<Rightarrow> tx_balanced db res db'))"
  using apply_transaction_money[OF assms] by (auto split: prod.split sum.split)

text \<open>What every applied transaction guarantees, whatever its refund.\<close>

lemma run_transaction_wf:
  assumes ok: "db_wf db" "vt_ok cfg env db v" "env_ok env" and run: "run_transaction hl n v env cfg cum db = (Inr res, db')"
  shows "db_wf db'" "0 \<le> tr_gas_used res" "tr_gas_limit res = vt_limit v"
    "rc_cumulative_gas_used (tr_receipt res) = cum + tr_gas_used res" "rc_gas_used (tr_receipt res) = tr_gas_used res"
proof -
  let ?g = "vt_limit v - vt_total_pre_execution_gas v"
  obtain db2 where db2: "db_wf db2" "0 \<le> ?g"
    and eq: "\<And>hl n cum. run_transaction hl n v env cfg cum db =
      (case (case tx_to (vt_transaction v) of
           None \<Rightarrow> execute_create_transaction hl n v env ?g db2
         | Some dest \<Rightarrow> execute_message_transaction hl n v env ?g dest db2) of
        (Inl e, db3) \<Rightarrow> (Inl (ExecEvm e), db3) | (Inr r, db3) \<Rightarrow> settle v env cfg cum r db3)"
    by (rule run_transaction_cases[OF ok]) (rule that; assumption)
  obtain r db3 where ex: "(case tx_to (vt_transaction v) of
        None \<Rightarrow> execute_create_transaction hl n v env ?g db2
      | Some dest \<Rightarrow> execute_message_transaction hl n v env ?g dest db2) = (Inr r, db3)"
    and st: "settle v env cfg cum r db3 = (Inr res, db')"
    using run unfolding eq by (auto split: prod.splits sum.splits)
  have wf3: "db_wf db3" using wf_inv.tx_run_ok[where v = v and hl = hl and n = n and env = env, OF _ db2] ex by auto
  show "0 \<le> tr_gas_used res" "tr_gas_limit res = vt_limit v"
    "rc_cumulative_gas_used (tr_receipt res) = cum + tr_gas_used res" "rc_gas_used (tr_receipt res) = tr_gas_used res"
    by (rule settle_fields[OF st], assumption)+
  show "db_wf db'"
    by (rule settle_fields[OF st]) (simp add: Let_def wf3 add_balance_def db_wf_set_balance db_wf_commit)
qed

lemma apply_transaction_effect:
  assumes "db_wf db" "env_ok env" "cfg_ok cfg"
    and run: "apply_transaction hl n db t env cfg registry cum = (Inr res, db')"
  shows "db_wf db'" "0 \<le> tr_gas_used res" "tr_gas_limit res = uint (tx_gas_limit t)"
    "rc_cumulative_gas_used (tr_receipt res) = cum + tr_gas_used res" "rc_gas_used (tr_receipt res) = tr_gas_used res"
proof -
  obtain v where v: "bindR (validate_transaction t db env cfg registry) (\<lambda>v. deferred_zk_check v registry) = Inr v"
    using run by (cases "bindR (validate_transaction t db env cfg registry) (\<lambda>v. deferred_zk_check v registry)")
      (auto simp: apply_transaction_def)
  have "zk_gas_ok (cfg_zk_gas_model cfg)" using assms(3) by (simp add: cfg_ok_def)
  note ok = validated_ok[OF v this]
  have "run_transaction hl n v env cfg cum db = (Inr res, db')"
    using run by (auto simp: apply_transaction_eq[OF assms(1) v] split: prod.splits sum.splits)
  note effect = run_transaction_wf[OF assms(1) ok(1) assms(2) this]
  show "db_wf db'" "0 \<le> tr_gas_used res" "tr_gas_limit res = uint (tx_gas_limit t)"
    "rc_cumulative_gas_used (tr_receipt res) = cum + tr_gas_used res" "rc_gas_used (tr_receipt res) = tr_gas_used res"
    using effect ok(2) by simp_all
qed

text \<open>
  C5. A validated transaction completes with enough fuel, and its result accounts for every unit of its gas
  limit: used, left over, and refunded, where the refund is at most the configured fraction of what was
  consumed and nothing for a failed run; the receipt carries the same usage, added to the block's.
\<close>

theorem run_transaction_accounts:
  assumes "db_wf db" "vt_ok cfg env db v" "env_ok env" "cfg_ok cfg" "0 \<le> cum"
    and "tx_hash (vt_transaction v) = Inr h"
  shows "\<exists>n res db'. (\<forall>n' \<ge> n. run_transaction hl n' v env cfg cum db = (Inr res, db'))
    \<and> tr_gas_used res + tr_gas_remaining res + tr_gas_refunded res = vt_limit v \<and> 0 \<le> tr_gas_used res
    \<and> tr_gas_refunded res \<le> (if tr_success res
         then (vt_limit v - tr_gas_remaining res) div cfg_gas_refund_quotient cfg else 0)
    \<and> tr_coinbase_fee res + tr_base_fee_burned res = tr_gas_used res * effective_gas_price (vt_pricing v)
    \<and> rc_gas_used (tr_receipt res) = tr_gas_used res
    \<and> rc_cumulative_gas_used (tr_receipt res) = cum + tr_gas_used res"
proof -
  let ?p = "vt_pricing v"
  obtain n res db' where run: "\<And>n'. n \<le> n' \<Longrightarrow> run_transaction hl n' v env cfg cum db = (Inr res, db')"
    using run_transaction_returns[OF assms(1-3) cfg_ok_quotient[OF assms(4)] assms(5,6)] by blast
  have now: "run_transaction hl n v env cfg cum db = (Inr res, db')" by (rule run[OF order_refl])
  obtain r db3 where st: "settle v env cfg cum r db3 = (Inr res, db')"
    using now by (rule run_transaction_settles)
  have f: "tr_gas_used res = vt_limit v - returned_units cfg v r"
    "tr_gas_refunded res = gas_refunded_units cfg (vt_limit v) r" "tr_gas_remaining res = r_gas_remaining r"
    "tr_success res = r_success r"
    "(tr_coinbase_fee res, tr_base_fee_burned res) = coinbase_share cfg ?p (tr_gas_used res)"
    "rc_cumulative_gas_used (tr_receipt res) = cum + tr_gas_used res" "rc_gas_used (tr_receipt res) = tr_gas_used res"
    "0 \<le> tr_gas_used res"
    by (rule settle_fields[OF st], assumption)+
  have pr: "pricing_for_transaction cfg (vt_transaction v) env = Inr ?p" using assms(2) by (simp add: vt_ok_def)
  have "tr_coinbase_fee res + tr_base_fee_burned res = tr_gas_used res * effective_gas_price ?p"
    using share_total[OF f(5)[symmetric]] pricing_env(1)[OF pr assms(3)]
    by (simp add: tip_reward_def base_fee_burn_def algebra_simps)
  moreover have "tr_gas_refunded res \<le> (if tr_success res
      then (vt_limit v - tr_gas_remaining res) div cfg_gas_refund_quotient cfg else 0)"
    unfolding f(2-4) by (simp add: gas_refunded_units_def Let_def)
  moreover have "tr_gas_used res + tr_gas_remaining res + tr_gas_refunded res = vt_limit v" using f(1-3) by simp
  ultimately show ?thesis using run f(6-8) by blast
qed

subsection \<open>Witnesses\<close>

definition demo_env :: block_env where
  "demo_env = \<lparr>env_block_number = 1, env_timestamp = 1, env_gas_limit = 100000, env_coinbase = 0x30,
     env_base_fee = Some 1, env_chain_id = 1, env_prev_randao = None\<rparr>"

definition demo_call :: eip1559_tx where
  "demo_call = \<lparr>et_chain_id = 1, et_nonce = 0, et_max_priority_fee_per_gas = 1, et_max_fee_per_gas = 2,
     et_gas_limit = 22000, et_to = Some 0x20, et_value = 4, et_data = [], et_access_list = [],
     et_v = Some 0, et_r = Some 1, et_s = Some 1\<rparr>"

definition demo_pricing :: gas_pricing where
  "demo_pricing = \<lparr>max_upfront_gas_price = 2, effective_gas_price = 2, priority_fee_per_gas = 1, base_fee_per_gas = 1\<rparr>"

definition demo_validated :: validated_tx where
  "demo_validated = \<lparr>vt_transaction = Eip1559 demo_call, vt_sender = 0x10, vt_intrinsic_gas = 21000,
     vt_zk_verification_gas = 0, vt_total_pre_execution_gas = 21000, vt_pricing = demo_pricing,
     vt_max_total_cost = 44004, vt_zk_verified = True, vt_zk_verification_deferred = False\<rparr>"

definition rich_db :: statedb where
  "rich_db = [(0x10, mk_account 0 50000 [] []), (0x20, mk_account 1 5 demo_code [])]"

lemma rich_db_wf: "db_wf rich_db"
  by (simp add: rich_db_def db_wf_def account_wf_def mk_account_def storage_wf_def)

lemma default_cfg_ok: "cfg_ok default_chain_config"
  by (simp add: cfg_ok_def mk_chain_config_def default_chain_config_def default_zk_gas_ok
      DEFAULT_ELASTICITY_MULTIPLIER_def DEFAULT_BASE_FEE_MAX_CHANGE_DENOMINATOR_def
      DEFAULT_GAS_LIMIT_BOUND_DIVISOR_def DEFAULT_INITIAL_BASE_FEE_def)

lemma demo_vt_ok: "vt_ok default_chain_config demo_env rich_db demo_validated"
  by (simp add: vt_ok_def demo_validated_def demo_env_def demo_call_def demo_pricing_def rich_db_def eip1559_pricing_def
      max_gas_cost_def get_balance_def get_nonce_def mk_account_def mask_small)

lemma demo_env_ok: "env_ok demo_env"
  by (simp add: env_ok_def demo_env_def)

lemma demo_call_hash: "\<exists>h. tx_hash (Eip1559 demo_call) = Inr h"
proof -
  have "rlp_ok (ObjList (eip1559_unsigned_rlp_fields demo_call @ [ObjInt 0, ObjInt (uint (1::u256)), ObjInt (uint (1::u256))]))"
    by (simp add: eip1559_unsigned_rlp_fields_def demo_call_def)
  from rlp_encode_image[OF this] show ?thesis
    by (simp add: eip1559_tx_hash_def eip1559_encode_def demo_call_def del: rlp_encode.simps)
qed

theorem run_transaction_accounts_witness:
  "\<exists>n res db'. (\<forall>n' \<ge> n. run_transaction demo_hashlib n' demo_validated demo_env default_chain_config 0 rich_db = (Inr res, db'))
     \<and> tr_gas_used res + tr_gas_remaining res + tr_gas_refunded res = 22000
     \<and> tr_coinbase_fee res + tr_base_fee_burned res = tr_gas_used res * 2"
proof -
  obtain h where h: "tx_hash (vt_transaction demo_validated) = Inr h"
    using demo_call_hash by (auto simp: demo_validated_def)
  from run_transaction_accounts[OF rich_db_wf demo_vt_ok demo_env_ok default_cfg_ok order_refl h, of demo_hashlib]
  show ?thesis by (auto simp: demo_validated_def demo_call_def demo_pricing_def)
qed

theorem apply_transaction_outcome_witness:
  "\<exists>r. apply_transaction demo_hashlib 0 rich_db (Eip1559 (demo_call\<lparr>et_v := None\<rparr>)) demo_env default_chain_config None 0
     = (Inl r, rich_db)"
proof -
  have "validate_transaction (Eip1559 (demo_call\<lparr>et_v := None\<rparr>)) rich_db demo_env default_chain_config None
      = Inl InvalidSignatureError"
    by (simp add: validate_transaction_def validate_supported_type_def validate_chain_id_def recover_sender_def
        eip1559_sender_def default_chain_config_def demo_call_def)
  then show ?thesis
    using apply_transaction_outcome[OF rich_db_wf demo_env_ok default_cfg_ok order_refl,
        where t = "Eip1559 (demo_call\<lparr>et_v := None\<rparr>)" and registry = None and hl = demo_hashlib] by (auto simp: apply_transaction_def)
qed

theorem apply_transaction_conserves_witness:
  "\<exists>n res db'. run_transaction demo_hashlib n demo_validated demo_env default_chain_config 0 rich_db = (Inr res, db')
     \<and> 0 \<le> tr_gas_refunded res \<and> tr_gas_used res \<le> 22000 \<and> total_balance db' + tr_base_fee_burned res = 50005"
proof -
  have facts: "total_balance rich_db = 50005" "settled_storage rich_db"
    by (simp_all add: rich_db_def total_balance_def mk_account_def mask_small settled_storage_def)
  obtain h where h: "tx_hash (vt_transaction demo_validated) = Inr h"
    using demo_call_hash by (auto simp: demo_validated_def)
  obtain n res db' where run: "run_transaction demo_hashlib n demo_validated demo_env default_chain_config 0 rich_db = (Inr res, db')"
    using run_transaction_returns[OF rich_db_wf demo_vt_ok demo_env_ok cfg_ok_quotient[OF default_cfg_ok] order_refl h] by blast
  have "tr_gas_limit res = 22000"
    using run_transaction_wf(3)[OF rich_db_wf demo_vt_ok demo_env_ok run] by (simp add: demo_validated_def demo_call_def)
  with apply_transaction_conserves[OF rich_db_wf facts(2) demo_env_ok default_cfg_ok, where v = demo_validated and hl = demo_hashlib
      and n = n and cum = 0] facts(1) run demo_vt_ok show ?thesis
    by (intro exI[of _ n] exI[of _ res] exI[of _ db']) (simp add: tx_balanced_def)
qed

end
