(* ===== verification/Merkle_Binding.thy ===== *)
theory Merkle_Binding
  imports Merkle_Trie
begin

text \<open>
  What the root of a Merkle Patricia trie commits to. The encodings of nodes are injective (they are
  lists of byte strings, and the compact encoding tells leaves from extensions), references are
  injective where the hash has no collision, so by induction over the construction equal roots come
  from equal maps; and the root depends on the map only, not on the history of its updates.
\<close>

section \<open>Lists of byte strings\<close>

abbreviation flat_ref :: "bytes list \<Rightarrow> bytes" where
  "flat_ref xs \<equiv> rlp_ref (RList (map RBytes xs))"

lemma rlp_encode_flat: "rlp_encode (ObjList (map ObjBytes xs)) = Inr (flat_ref xs)"
  using rlp_encode_ref[of "RList (map RBytes xs)"] by (simp del: rlp_encode.simps add: comp_def)

definition rlp_header :: "int \<Rightarrow> nat \<Rightarrow> bytes" where
  "rlp_header base n =
     (if n \<le> 55 then [word_of_int (base + int n)]
      else [word_of_int (base + 55 + int (length (big_endian_length n)))] @ big_endian_length n)"

lemma rlp_wrap_list_header: "rlp_wrap_list payload = rlp_header 0xC0 (length payload) @ payload"
  by (simp add: rlp_wrap_list_def rlp_header_def Let_def)

lemma rlp_encode_bytes_header:
  "rlp_encode_bytes bs =
     (if length bs = 1 \<and> uint (bs ! 0) < 0x80 then bs else rlp_header 0x80 (length bs) @ bs)"
  by (simp add: rlp_encode_bytes_def rlp_header_def Let_def)

lemma rlp_header_hd:
  assumes "base \<in> {0x80, 0xC0}" "n < 256 ^ 8"
  shows "rlp_header base n \<noteq> []"
    "uint (hd (rlp_header base n)) = base + (if n \<le> 55 then int n else 55 + int (length (big_endian_length n)))"
proof -
  show "rlp_header base n \<noteq> []" by (simp add: rlp_header_def)
  have byte: "uint (word_of_int v :: byte) = v" if "0 \<le> v" "v < 256" for v
    using that by (simp add: uint_word_of_int_byte)
  have long: "1 \<le> length (big_endian_length n)" "length (big_endian_length n) \<le> 8" if "\<not> n \<le> 55"
    using big_endian_length_pos(1)[of n] that assms(2) by auto
  show "uint (hd (rlp_header base n)) = base + (if n \<le> 55 then int n else 55 + int (length (big_endian_length n)))"
  proof (cases "n \<le> 55")
    case True
    have "uint (word_of_int (base + int n) :: byte) = base + int n" using True assms(1) by (intro byte) auto
    then show ?thesis using True by (simp only: rlp_header_def if_True list.sel)
  next
    case False
    let ?l = "int (length (big_endian_length n))"
    have "uint (word_of_int (base + 55 + ?l) :: byte) = base + 55 + ?l" using long[OF False] assms(1) by (intro byte) auto
    then show ?thesis using False by (simp only: rlp_header_def if_False list.sel append_Cons)
  qed
qed

lemma rlp_header_inj:
  assumes b: "base \<in> {0x80, 0xC0}" and fits: "n < 256 ^ 8" "m < 256 ^ 8"
    and eq: "rlp_header base n @ r = rlp_header base m @ s"
  shows "n = m \<and> r = s"
proof -
  note hn = rlp_header_hd[OF b fits(1)] and hm = rlp_header_hd[OF b fits(2)]
  have "hd (rlp_header base n) = hd (rlp_header base m)"
    using arg_cong[OF eq, of hd] hn(1) hm(1) by simp
  then have first: "(if n \<le> 55 then int n else 55 + int (length (big_endian_length n)))
      = (if m \<le> 55 then int m else 55 + int (length (big_endian_length m)))"
    using hn(2) hm(2) by simp
  have long: "1 \<le> length (big_endian_length k) \<and> be_int (big_endian_length k) = int k" if "\<not> k \<le> 55" "k < 256 ^ 8" for k
    using big_endian_length_pos[of k] that by simp
  show ?thesis
  proof (cases "n \<le> 55")
    case True
    then have "n = m" using first long[of m] fits by (cases "m \<le> 55") auto
    then show ?thesis using eq by simp
  next
    case False
    then have m: "\<not> m \<le> 55" and len: "length (big_endian_length n) = length (big_endian_length m)"
      using first long[of n] fits by (auto split: if_splits)
    have "big_endian_length n @ r = big_endian_length m @ s"
      using eq unfolding rlp_header_def if_not_P[OF False] if_not_P[OF m] by simp
    then have b: "big_endian_length n = big_endian_length m" "r = s" unfolding append_eq_append_conv[OF disjI1[OF len]] by simp_all
    have "int n = int m" using long[OF False fits(1)] long[OF m fits(2)] b(1) by argo
    then show ?thesis using b(2) by simp
  qed
qed

lemma rlp_encode_bytes_prefix_free:
  assumes "length x < 256 ^ 8" "length y < 256 ^ 8" "rlp_encode_bytes x @ r = rlp_encode_bytes y @ s"
  shows "x = y \<and> r = s"
proof -
  have hd80: "0x80 \<le> uint (hd (rlp_header 0x80 n @ p))" if "n < 256 ^ 8" for n p
    using rlp_header_hd[of "0x80" n] that by simp
  have single: "uint (hd (z @ p)) < 0x80" if "length z = 1" "uint (z ! 0) < 0x80" for z p :: bytes
    using that by (cases z) auto
  consider "length x = 1 \<and> uint (x ! 0) < 0x80" "length y = 1 \<and> uint (y ! 0) < 0x80"
    | "\<not> (length x = 1 \<and> uint (x ! 0) < 0x80)" "\<not> (length y = 1 \<and> uint (y ! 0) < 0x80)"
    | "(length x = 1 \<and> uint (x ! 0) < 0x80) \<noteq> (length y = 1 \<and> uint (y ! 0) < 0x80)" by blast
  then show ?thesis
  proof cases
    case 1
    then have "x @ r = y @ s" using assms(3) by (simp add: rlp_encode_bytes_header)
    then show ?thesis using 1 by simp
  next
    case 2
    have eq: "rlp_header 0x80 (length x) @ (x @ r) = rlp_header 0x80 (length y) @ (y @ s)"
      using assms(3) unfolding rlp_encode_bytes_header if_not_P[OF 2(1)] if_not_P[OF 2(2)] by simp
    have "length x = length y \<and> x @ r = y @ s" by (rule rlp_header_inj[OF _ assms(1,2) eq]) simp
    then show ?thesis by (meson append_eq_append_conv)
  next
    case 3
    have "uint (hd (rlp_encode_bytes x @ r)) = uint (hd (rlp_encode_bytes y @ s))" by (simp only: assms(3))
    then show ?thesis
      using 3 hd80[OF assms(1), of "x @ r"] hd80[OF assms(2), of "y @ s"] single[of x r] single[of y s]
      by (auto simp: rlp_encode_bytes_header)
  qed
qed

lemma concat_encodings_inj:
  assumes "\<forall>x \<in> set xs \<union> set ys. length x < 256 ^ 8"
    "concat (map rlp_encode_bytes xs) = concat (map rlp_encode_bytes ys)"
  shows "xs = ys"
  using assms
proof (induction xs arbitrary: ys)
  case Nil
  have "rlp_encode_bytes y \<noteq> []" for y using rlp_ref_nonempty[of "RBytes y"] by simp
  then show ?case using Nil by (cases ys) auto
next
  case (Cons x xs)
  have "rlp_encode_bytes x \<noteq> []" using rlp_ref_nonempty[of "RBytes x"] by simp
  then obtain y ys' where ys: "ys = y # ys'" using Cons.prems(2) by (cases ys) auto
  have "x = y \<and> concat (map rlp_encode_bytes xs) = concat (map rlp_encode_bytes ys')"
    using Cons.prems ys by (intro rlp_encode_bytes_prefix_free) auto
  then show ?case using Cons.IH[of ys'] Cons.prems(1) ys by auto
qed

lemma rlp_encode_bytes_length_le:
  assumes "length bs < 256 ^ 8"
  shows "length (rlp_encode_bytes bs) \<le> length bs + 9"
proof -
  have "length (big_endian_length (length bs)) \<le> 8" if "\<not> length bs \<le> 55"
    using big_endian_length_pos(1)[OF _ assms] that by (cases bs) auto
  then show ?thesis by (simp add: rlp_encode_bytes_header rlp_header_def)
qed

text \<open>Twenty items of at most \<open>2 ^ 40\<close> bytes: more than a node ever has.\<close>

definition flat_small :: "bytes list \<Rightarrow> bool" where
  "flat_small xs \<longleftrightarrow> length xs \<le> 20 \<and> (\<forall>x \<in> set xs. length x < 2 ^ 40)"

lemma flat_payload_le:
  "\<forall>x \<in> set xs. length x < 2 ^ 40 \<Longrightarrow> length (concat (map rlp_encode_bytes xs)) \<le> length xs * (2 ^ 40 + 9)"
proof (induction xs)
  case (Cons x xs)
  have "length (rlp_encode_bytes x) \<le> length x + 9" using Cons.prems by (intro rlp_encode_bytes_length_le) simp
  then show ?case using Cons by simp
qed simp

lemma flat_ref_inj:
  assumes "flat_small xs" "flat_small ys" "flat_ref xs = flat_ref ys"
  shows "xs = ys"
proof -
  have payload: "length (concat (map rlp_encode_bytes zs)) < 256 ^ 8" if "flat_small zs" for zs
  proof -
    have "length (concat (map rlp_encode_bytes zs)) \<le> length zs * (2 ^ 40 + 9)"
      using that by (intro flat_payload_le) (simp add: flat_small_def)
    also have "\<dots> \<le> 20 * (2 ^ 40 + 9)" using that by (intro mult_right_mono) (auto simp: flat_small_def)
    also have "\<dots> < 256 ^ 8" by simp
    finally show ?thesis .
  qed
  let ?c = "\<lambda>zs. concat (map rlp_encode_bytes zs)"
  have "rlp_header 0xC0 (length (?c xs)) @ ?c xs = rlp_header 0xC0 (length (?c ys)) @ ?c ys"
    using assms(3) by (simp add: rlp_wrap_list_header comp_def)
  from rlp_header_inj[OF _ payload[OF assms(1)] payload[OF assms(2)] this] have "?c xs = ?c ys" by simp
  moreover have "\<forall>x \<in> set xs \<union> set ys. length x < 256 ^ 8" using assms(1,2) by (auto simp: flat_small_def)
  ultimately show ?thesis by (intro concat_encodings_inj)
qed

lemma flat_ref_not_string: "flat_small xs \<Longrightarrow> flat_ref xs \<noteq> rlp_encode_bytes []"
proof
  assume xs: "flat_small xs" and eq: "flat_ref xs = rlp_encode_bytes []"
  have "length (concat (map rlp_encode_bytes xs)) \<le> length xs * (2 ^ 40 + 9)"
    using xs by (intro flat_payload_le) (simp add: flat_small_def)
  also have "\<dots> \<le> 20 * (2 ^ 40 + 9)" using xs by (intro mult_right_mono) (auto simp: flat_small_def)
  also have "\<dots> < 256 ^ 8" by simp
  finally have "0xC0 \<le> uint (hd (flat_ref xs))" by (intro rlp_ref_list_head) (simp add: comp_def)
  then show False unfolding eq by (simp add: rlp_encode_bytes_def)
qed

section \<open>Compact paths\<close>

lemma drop_bit_push_bit_nat: "drop_bit n (push_bit n a) = (a :: nat)"
  by (simp add: push_bit_eq_mult drop_bit_eq_div)

lemma nibble_pair:
  assumes "a < 16" "b < (16 :: nat)"
  shows "push_bit 4 a OR b = 16 * a + b"
proof -
  have "take_bit 4 b = b" "drop_bit 4 b = 0" using assms(2) by (simp_all add: take_bit_eq_mod drop_bit_eq_div)
  then have "drop_bit 4 (push_bit 4 a OR b) = a" "take_bit 4 (push_bit 4 a OR b) = b"
    by (simp_all add: take_bit_push_bit drop_bit_push_bit_nat)
  then have "(push_bit 4 a OR b) div 16 = a" "(push_bit 4 a OR b) mod 16 = b"
    by (simp_all add: drop_bit_eq_div take_bit_eq_mod)
  then show ?thesis by presburger
qed

lemma pair_bytes_inj:
  assumes "\<forall>n \<in> set xs \<union> set ys. n < 16" "even (length xs)" "even (length ys)" "pair_bytes xs = pair_bytes ys"
  shows "xs = ys"
  using assms
proof (induction xs arbitrary: ys rule: pair_bytes.induct)
  case (1 a b xs)
  obtain c d zs where ys: "ys = c # d # zs" using 1(4,5) by (cases ys rule: pair_bytes.cases) auto
  have "word_of_nat (16 * a + b) = (word_of_nat (16 * c + d) :: byte)" and rest: "pair_bytes xs = pair_bytes zs"
    using 1(2,5) ys by (simp_all add: nibble_pair)
  then have "unat (word_of_nat (16 * a + b) :: byte) = unat (word_of_nat (16 * c + d) :: byte)" by simp
  then have "(16 * a + b) mod 256 = (16 * c + d) mod 256"
    by (simp add: unat_of_nat del: of_nat_add of_nat_mult)
  then have sum: "16 * a + b = 16 * c + d" using 1(2) ys by simp
  have "a < 16" "b < 16" "c < 16" "d < 16" using 1(2) ys by auto
  then have "a = c" using arg_cong[OF sum, of "\<lambda>n. n div 16"] by simp
  then have "a = c \<and> b = d" using sum by simp
  moreover have "xs = zs" using 1(2-4) ys by (intro 1(1)[OF _ _ _ rest]) auto
  ultimately show ?case using ys by simp
next
  case "2_1"
  then show ?case by (cases ys rule: pair_bytes.cases) auto
next
  case "2_2"
  then show ?case by simp
qed

lemma pair_bytes_length: "length (pair_bytes xs) = length xs div 2"
  by (induction xs rule: pair_bytes.induct) auto

lemma compact_encode_inj:
  assumes "\<forall>n \<in> set p \<union> set q. n < 16" "compact_encode p l = compact_encode q m"
  shows "p = q \<and> l = m"
proof -
  let ?e = "\<lambda>p l. if length p mod 2 = 1 then [(if l then 2 else 0) + 1] @ p else [if l then 2 else 0, 0 :: nat] @ p"
  have "pair_bytes (?e p l) = pair_bytes (?e q m)"
    using assms(2) by (simp add: compact_encode_def Let_def)
  then have "?e p l = ?e q m" using assms(1) by (intro pair_bytes_inj) (auto simp: odd_iff_mod_2_eq_one)
  then show ?thesis by (cases l; cases m) (auto split: if_splits)
qed

lemma compact_encode_length: "length (compact_encode p l) \<le> length p + 1"
  by (auto simp: compact_encode_def Let_def pair_bytes_length)

section \<open>Nodes as values\<close>

text \<open>
  The bytes of a node do not depend on the store: \<open>node_bytes\<close> and \<open>node_ref\<close> are the encoding and the
  reference of the node built over some entries.
\<close>

definition node_bytes :: "trie_items \<Rightarrow> bytes" where
  "node_bytes items = (case fst (build_node items []) of Inl _ \<Rightarrow> [] | Inr bs \<Rightarrow> bs)"

definition node_ref :: "bytes \<Rightarrow> bytes" where
  "node_ref encoded = (if length encoded < 32 then encoded else hash_bytes (keccak256 encoded))"

definition branch_ref :: "trie_items \<Rightarrow> nat \<Rightarrow> bytes" where
  "branch_ref items nibble =
     (if child_items nibble items = [] then [] else node_ref (node_bytes (child_items nibble items)))"

lemma store_reference_value: "fst (store_reference encoded st) = Inr (node_ref encoded)"
  by (simp add: store_reference_def node_ref_def sem_simps Let_def)

lemma bindM_value: "fst (m st) = Inr x \<Longrightarrow> fst (bindM m f st) = fst (f x (snd (m st)))"
  by (cases "m st") (simp add: bindM_def)

lemma build_values:
  "\<exists>e. \<forall>st. fst (build_node items st) = Inr e"
  "\<forall>st. fst (build_branch items nibbles st) = Inr (map (branch_ref items) nibbles)"
proof (induction items and items nibbles rule: build_node_build_branch.induct)
  case (1 items)
  note IH = 1
  let ?n = "longest_common_prefix (map fst items)"
  consider "items = []" | "items \<noteq> []" "length items = 1" | "items \<noteq> []" "length items \<noteq> 1" "?n \<noteq> 0"
    | "items \<noteq> []" "length items \<noteq> 1" "?n = 0" by blast
  then show ?case
  proof cases
    case 1
    then show ?thesis by (simp add: build_node.simps liftR_def)
  next
    case 2
    then show ?thesis
      using rlp_encode_flat[of "[compact_encode (fst (hd items)) True, snd (hd items)]"]
      by (cases "hd items") (simp add: build_node.simps[of items] liftR_def del: rlp_encode.simps)
  next
    case 3
    obtain e where e: "\<And>st. fst (build_node (strip_items ?n items) st) = Inr e"
      using IH(1)[OF 3(1,2) refl refl 3(3) refl] by blast
    show ?thesis
      using 3 rlp_encode_flat[of "[compact_encode (take ?n (hd (map fst items))) False, node_ref e]"]
      by (simp add: build_node.simps[of items] bindM_value[OF e] bindM_value[OF store_reference_value]
          liftR_def Let_def del: rlp_encode.simps)
  next
    case 4
    note br = IH(2)[OF 4(1,2) refl refl] 
    have "fst (build_branch items [0..<16] st) = Inr (map (branch_ref items) [0..<16])" for st
      using br 4(3) by blast
    then show ?thesis
      using 4 rlp_encode_flat[of "map (branch_ref items) [0..<16] @ [terminal_value items]"]
      by (simp add: build_node.simps[of items] bindM_value liftR_def Let_def del: rlp_encode.simps upt_Suc upt_rec_numeral)
  qed
next
  case (2 items)
  show ?case by (simp add: retM_def)
next
  case (3 items nibble nibbles)
  have child: "fst ((if child_items nibble items = [] then retM []
      else bindM (build_node (child_items nibble items)) store_reference) st) = Inr (branch_ref items nibble)" for st
  proof (cases "child_items nibble items = []")
    case False
    obtain e where e: "\<And>st. fst (build_node (child_items nibble items) st) = Inr e"
      using 3(1)[OF refl False] by blast
    then have "node_bytes (child_items nibble items) = e" by (simp add: node_bytes_def)
    then show ?thesis using False by (simp add: bindM_value[OF e] store_reference_value branch_ref_def)
  qed (simp add: retM_def branch_ref_def)
  have rest: "fst (build_branch items nibbles st) = Inr (map (branch_ref items) nibbles)" for st
    using 3(2) by blast
  show ?case by (simp add: Let_def bindM_value[OF child] bindM_value[OF rest]) (simp add: retM_def)
qed

lemma build_node_bytes: "fst (build_node items st) = Inr (node_bytes items)"
proof -
  obtain e where e: "\<And>st. fst (build_node items st) = Inr e" using build_values(1) by blast
  then show ?thesis by (simp add: node_bytes_def)
qed

lemmas build_branch_refs = build_values(2)[THEN spec]

lemma node_bytes_Nil: "node_bytes [] = rlp_encode_bytes []"
  by (simp add: node_bytes_def build_node.simps liftR_def)

lemma node_bytes_leaf: "node_bytes [(path, value)] = flat_ref [compact_encode path True, value]"
  using rlp_encode_flat[of "[compact_encode path True, value]"]
  by (simp add: node_bytes_def build_node.simps[of "[(path, value)]"] liftR_def del: rlp_encode.simps)

lemma node_bytes_extension:
  assumes "1 < length items" "longest_common_prefix (map fst items) = n" "n \<noteq> 0"
  shows "node_bytes items =
    flat_ref [compact_encode (take n (fst (hd items))) False, node_ref (node_bytes (strip_items n items))]"
proof -
  have ne: "items \<noteq> []" "length items \<noteq> 1" "hd (map fst items) = fst (hd items)" using assms(1) by (cases items; force)+
  show ?thesis
    using ne assms rlp_encode_flat[of "[compact_encode (take n (fst (hd items))) False, node_ref (node_bytes (strip_items n items))]"]
    by (simp add: node_bytes_def[of items] build_node.simps[of items] bindM_value[OF build_node_bytes]
        bindM_value[OF store_reference_value] liftR_def Let_def del: rlp_encode.simps)
qed

lemma node_bytes_branch:
  assumes "1 < length items" "longest_common_prefix (map fst items) = 0"
  shows "node_bytes items = flat_ref (map (branch_ref items) [0..<16] @ [terminal_value items])"
proof -
  have ne: "items \<noteq> []" "length items \<noteq> 1" using assms(1) by auto
  show ?thesis
    using ne assms rlp_encode_flat[of "map (branch_ref items) [0..<16] @ [terminal_value items]"]
    by (simp add: node_bytes_def[of items] build_node.simps[of items] bindM_value[OF build_branch_refs]
        liftR_def Let_def del: rlp_encode.simps upt_Suc upt_rec_numeral)
qed

section \<open>Injectivity of the construction\<close>

text \<open>The groups of entries that the construction visits below \<open>items\<close>; their nodes are what is hashed.\<close>

inductive subnode :: "trie_items \<Rightarrow> trie_items \<Rightarrow> bool" where
  here: "subnode items items"
| extension: "1 < length items \<Longrightarrow> longest_common_prefix (map fst items) = n \<Longrightarrow> n \<noteq> 0
    \<Longrightarrow> subnode (strip_items n items) part \<Longrightarrow> subnode items part"
| branch: "1 < length items \<Longrightarrow> longest_common_prefix (map fst items) = 0 \<Longrightarrow> nibble < 16
    \<Longrightarrow> child_items nibble items \<noteq> [] \<Longrightarrow> subnode (child_items nibble items) part \<Longrightarrow> subnode items part"

inductive_cases subnode_single: "subnode [x] part"

definition trie_nodes :: "trie_items \<Rightarrow> bytes set" where
  "trie_nodes items = node_bytes ` {part. subnode items part}"

lemma trie_nodes_single: "trie_nodes [x] = {node_bytes [x]}"
  by (auto simp: trie_nodes_def intro: subnode.here elim: subnode_single)

lemma trie_nodes_here: "node_bytes items \<in> trie_nodes items"
  by (auto simp: trie_nodes_def intro: subnode.here)

lemma trie_nodes_extension:
  "1 < length items \<Longrightarrow> longest_common_prefix (map fst items) = n \<Longrightarrow> n \<noteq> 0
    \<Longrightarrow> trie_nodes (strip_items n items) \<subseteq> trie_nodes items"
  unfolding trie_nodes_def by (intro image_mono Collect_mono impI) (rule subnode.extension)

lemma trie_nodes_branch:
  "1 < length items \<Longrightarrow> longest_common_prefix (map fst items) = 0 \<Longrightarrow> nibble < 16
    \<Longrightarrow> child_items nibble items \<noteq> [] \<Longrightarrow> trie_nodes (child_items nibble items) \<subseteq> trie_nodes items"
  unfolding trie_nodes_def by (intro image_mono Collect_mono impI) (rule subnode.branch)

text \<open>Entries with distinct paths of nibbles and non-empty values of a sane size.\<close>

definition items_ok :: "trie_items \<Rightarrow> bool" where
  "items_ok items \<longleftrightarrow> distinct (map fst items) \<and>
     (\<forall>(path, value) \<in> set items. value \<noteq> [] \<and> length value < 2 ^ 32 \<and> length path < 2 ^ 32 \<and> (\<forall>n \<in> set path. n < 16))"

lemma items_okD:
  assumes "items_ok items" "(path, value) \<in> set items"
  shows "value \<noteq> []" "length value < 2 ^ 32" "length path < 2 ^ 32" "n \<in> set path \<Longrightarrow> n < 16"
  using assms by (auto simp: items_ok_def)

lemma longest_common_prefix_shared:
  assumes "path \<in> set paths"
  shows "take (longest_common_prefix paths) path = take (longest_common_prefix paths) (hd paths)"
proof -
  let ?n = "longest_common_prefix paths"
  have ne: "paths \<noteq> []" using assms by auto
  have same: "path ! i = hd paths ! i" if i: "i < ?n" "path \<in> set (tl paths)" for i path
  proof (rule ccontr)
    let ?P = "\<lambda>i. list_ex (\<lambda>path. path ! i \<noteq> hd paths ! i) (tl paths)"
    let ?l = "Min (set (map length paths))"
    assume "path ! i \<noteq> hd paths ! i"
    then have "?P i" using i(2) by (auto simp: list_ex_iff)
    moreover have "\<not> ?P i"
    proof (cases "find ?P [0..<?l]")
      case None
      then have "i < ?l" using i(1) ne by (simp add: longest_common_prefix_def Let_def)
      then show ?thesis using None unfolding find_None_iff by auto
    next
      case (Some k)
      then have "?n = k" using ne by (simp add: longest_common_prefix_def Let_def)
      then show ?thesis using Some i(1) by (auto simp: find_Some_iff)
    qed
    ultimately show False by simp
  qed
  show ?thesis
  proof (cases "path \<in> set (tl paths)")
    case True
    have "hd paths \<in> set paths" using ne by simp
    then show ?thesis
      using longest_common_prefix_le[OF assms] longest_common_prefix_le[of "hd paths" paths] same[OF _ True]
      by (intro nth_equalityI) auto
  next
    case False
    then have "path = hd paths" using assms ne by (cases paths) auto
    then show ?thesis by simp
  qed
qed

text \<open>Stripping the common prefix and descending into a branch lose nothing.\<close>

lemma strip_items_restore:
  assumes "longest_common_prefix (map fst items) = n"
  shows "items = map (\<lambda>(path, value). (take n (fst (hd items)) @ path, value)) (strip_items n items)"
proof -
  have "take n (fst (hd items)) = take n path" if "(path, v) \<in> set items" for path v
  proof -
    have "path \<in> set (map fst items)" using that by force
    from longest_common_prefix_shared[OF this] have "take n path = take n (hd (map fst items))" using assms by simp
    moreover have "hd (map fst items) = fst (hd items)" using that by (intro hd_map) auto
    ultimately show ?thesis by simp
  qed
  then have "take n (fst (hd items)) @ drop n path = path" if "(path, v) \<in> set items" for path v
    using that append_take_drop_id[of n path] by metis
  then have "map (\<lambda>(path, value). (take n (fst (hd items)) @ drop n path, value)) items = map id items"
    by (intro map_cong) auto
  then show ?thesis by (simp add: strip_items_def case_prod_unfold comp_def)
qed

lemma items_ok_strip:
  assumes "items_ok items" "longest_common_prefix (map fst items) = n"
  shows "items_ok (strip_items n items)"
proof -
  have "map fst items = map (\<lambda>path. take n (fst (hd items)) @ path) (map fst (strip_items n items))"
    by (subst strip_items_restore[OF assms(2)]) (simp add: comp_def case_prod_unfold)
  then have "distinct (map fst (strip_items n items))"
    using assms(1) by (auto simp: items_ok_def distinct_map inj_on_def)
  moreover have "v \<noteq> [] \<and> length v < 2 ^ 32 \<and> length path < 2 ^ 32 \<and> (\<forall>n \<in> set path. n < 16)"
    if "(path, v) \<in> set (strip_items n items)" for path v
    using that items_okD[OF assms(1)] by (fastforce simp: strip_items_def dest: in_set_dropD)
  ultimately show ?thesis by (auto simp: items_ok_def)
qed

lemma set_child_items: "set (child_items nibble items) = {(path, value). (nibble # path, value) \<in> set items}"
  by (force simp: child_items_def neq_Nil_conv)

lemma child_items_paths:
  "map fst (child_items nibble items) = map tl (filter (\<lambda>path. path \<noteq> [] \<and> hd path = nibble) (map fst items))"
  by (induction items) (auto simp: child_items_def)

lemma items_ok_child:
  assumes "items_ok items"
  shows "items_ok (child_items nibble items)"
proof -
  have "inj_on tl {path. path \<noteq> [] \<and> hd path = nibble}" by (auto simp: inj_on_def intro: list.expand)
  moreover have "distinct (filter (\<lambda>path. path \<noteq> [] \<and> hd path = nibble) (map fst items))"
    using assms unfolding items_ok_def by (intro distinct_filter) simp
  ultimately have "distinct (map fst (child_items nibble items))"
    unfolding child_items_paths distinct_map[of tl] by (auto elim: inj_on_subset)
  then show ?thesis using assms by (fastforce simp: items_ok_def set_child_items)
qed

lemma terminal_value_iff:
  assumes "items_ok items"
  shows "([], value) \<in> set items \<longleftrightarrow> terminal_value items = value \<and> value \<noteq> []"
proof (cases "find (\<lambda>(path, value). path = []) items")
  case None
  then have "([], value) \<notin> set items" by (auto simp: find_None_iff)
  then show ?thesis using None by (auto simp: terminal_value_def)
next
  case (Some x)
  then obtain w where x: "x = ([], w)" and mem: "([], w) \<in> set items" by (auto simp: find_Some_iff in_set_conv_nth)
  have "([], value) \<in> set items \<longleftrightarrow> value = w"
    using mem assms by (auto simp: items_ok_def dest: eq_key_imp_eq_value)
  then show ?thesis using Some x items_okD(1)[OF assms mem] by (auto simp: terminal_value_def)
qed

lemma node_ref_length: "length (node_ref e) \<le> 32"
  by (simp add: node_ref_def)

lemma hash_bytes_inj: "hash_bytes a = hash_bytes b \<Longrightarrow> a = b"
  by (metis mk_hash_bytes sum.inject(2))

lemma node_ref_inj:
  assumes "inj_on keccak256 S" "e \<in> S" "e' \<in> S" "node_ref e = node_ref e'"
  shows "e = e'"
  using assms inj_onD[OF assms(1)] hash_bytes_inj hash_bytes_length
  by (metis node_ref_def nat_less_le)

lemma node_ref_nonempty: "node_ref (node_bytes items) \<noteq> []"
proof -
  have "node_bytes items \<noteq> []"
  proof (cases "1 < length items")
    case True
    then show ?thesis
      by (cases "longest_common_prefix (map fst items) = 0")
        (simp_all only: node_bytes_branch node_bytes_extension[OF True refl] rlp_ref_nonempty not_False_eq_True)
  next
    case False
    then consider "items = []" | path v where "items = [(path, v)]"
      by (cases items rule: remdups_adj.cases) auto
    then show ?thesis
      by cases (simp add: node_bytes_Nil rlp_encode_bytes_def, simp only: node_bytes_leaf rlp_ref_nonempty not_False_eq_True)
  qed
  moreover have "hash_bytes h \<noteq> []" for h using hash_bytes_length[of h] by force
  ultimately show ?thesis by (simp add: node_ref_def)
qed

lemma node_form_cases:
  assumes "items \<noteq> []"
  obtains (leaf) path v where "items = [(path, v)]"
  | (ext) "1 < length items" "longest_common_prefix (map fst items) \<noteq> 0"
  | (branch) "1 < length items" "longest_common_prefix (map fst items) = 0"
  using assms by (cases items rule: remdups_adj.cases) auto

text \<open>The list of strings that a node encodes.\<close>

definition node_fields :: "trie_items \<Rightarrow> bytes list" where
  "node_fields items =
     (let n = longest_common_prefix (map fst items) in
      if length items \<le> 1 then [compact_encode (fst (hd items)) True, snd (hd items)]
      else if n \<noteq> 0 then [compact_encode (take n (fst (hd items))) False, node_ref (node_bytes (strip_items n items))]
      else map (branch_ref items) [0..<16] @ [terminal_value items])"

lemma node_bytes_fields: "items \<noteq> [] \<Longrightarrow> node_bytes items = flat_ref (node_fields items)"
proof (erule node_form_cases)
  fix path v
  assume "items = [(path, v)]"
  then show ?thesis by (simp add: node_fields_def node_bytes_leaf)
next
  assume "1 < length items" "longest_common_prefix (map fst items) \<noteq> 0"
  then show ?thesis using node_bytes_extension[OF _ refl, of items] by (simp add: node_fields_def Let_def)
next
  assume "1 < length items" "longest_common_prefix (map fst items) = 0"
  then show ?thesis using node_bytes_branch[of items] by (simp add: node_fields_def Let_def del: upt_rec_numeral)
qed

lemma node_fields_small:
  assumes "items_ok items" "items \<noteq> []"
  shows "flat_small (node_fields items)"
  using assms(2)
proof (cases rule: node_form_cases)
  case (leaf path v)
  have "length (compact_encode path True) \<le> length path + 1" by (rule compact_encode_length)
  then show ?thesis using items_okD[OF assms(1), of path v] leaf by (simp add: flat_small_def node_fields_def)
next
  case ext
  obtain path v where hd: "hd items = (path, v)" by (cases "hd items")
  then have mem: "(path, v) \<in> set items" using hd_in_set[OF assms(2)] by simp
  let ?n = "longest_common_prefix (map fst items)"
  have "length (compact_encode (take ?n path) False) \<le> length path + 1"
    using compact_encode_length[of "take ?n path" False] by (auto intro: order.trans)
  then show ?thesis
    using items_okD(3)[OF assms(1) mem] hd node_ref_length[of "node_bytes (strip_items ?n items)"] ext
    by (simp add: flat_small_def node_fields_def Let_def)
next
  case branch
  have "length (terminal_value items) < 2 ^ 40"
    using terminal_value_iff[OF assms(1), of "terminal_value items"] items_okD(2)[OF assms(1)]
    by (cases "terminal_value items = []") force+
  moreover have "length (branch_ref items k) < 2 ^ 40" for k
    using node_ref_length[of "node_bytes (child_items k items)"] by (simp add: branch_ref_def)
  ultimately show ?thesis using branch by (auto simp: flat_small_def node_fields_def simp del: upt_rec_numeral)
qed

lemma branch_sets:
  assumes ok: "items_ok items" "items_ok items'"
    and tv: "terminal_value items = terminal_value items'"
    and children: "\<And>k. k < 16 \<Longrightarrow> set (child_items k items) = set (child_items k items')"
  shows "set items = set items'"
proof -
  have "x \<in> set xs \<longleftrightarrow> (case x of (path, v) \<Rightarrow>
      (case path of [] \<Rightarrow> terminal_value xs = v \<and> v \<noteq> [] | k # p \<Rightarrow> k < 16 \<and> (p, v) \<in> set (child_items k xs)))"
    if "items_ok xs" for x xs
  proof -
    obtain path v where x: "x = (path, v)" by (cases x)
    show ?thesis
    proof (cases path)
      case Nil
      then show ?thesis using terminal_value_iff[OF that] x by simp
    next
      case (Cons k p)
      then show ?thesis using items_okD(4)[OF that, of path v k] x by (auto simp: set_child_items)
    qed
  qed
  from this[OF ok(1)] this[OF ok(2)] show ?thesis
    using tv children by (intro set_eqI) (auto split: prod.split list.split)
qed

lemma extension_sets:
  assumes "longest_common_prefix (map fst items) = n" "longest_common_prefix (map fst items') = m"
    "take n (fst (hd items)) = take m (fst (hd items'))" "set (strip_items n items) = set (strip_items m items')"
  shows "set items = set items'"
proof -
  have "set items = (\<lambda>(path, value). (take n (fst (hd items)) @ path, value)) ` set (strip_items n items)"
    by (subst strip_items_restore[OF assms(1)]) simp
  moreover have "set items' = (\<lambda>(path, value). (take m (fst (hd items')) @ path, value)) ` set (strip_items m items')"
    by (subst strip_items_restore[OF assms(2)]) simp
  ultimately show ?thesis using assms(3,4) by simp
qed

lemma hd_nibbles: "items_ok items \<Longrightarrow> items \<noteq> [] \<Longrightarrow> n \<in> set (fst (hd items)) \<Longrightarrow> n < 16"
  using items_okD(4)[of items "fst (hd items)" "snd (hd items)"] by simp

lemma node_bytes_inj:
  assumes H: "inj_on keccak256 S" "trie_nodes items \<subseteq> S" "trie_nodes items' \<subseteq> S"
    "items_ok items" "items_ok items'" "items \<noteq> []" "items' \<noteq> []" "node_bytes items = node_bytes items'"
  shows "set items = set items'"
  using assms(2-)
proof (induction "items_size items" arbitrary: items items' rule: less_induct)
  case less
  let ?n = "longest_common_prefix (map fst items)" and ?m = "longest_common_prefix (map fst items')"
  have eq: "node_fields items = node_fields items'"
    using flat_ref_inj[OF node_fields_small node_fields_small] less.prems(3-7) by (simp add: node_bytes_fields)
  have nib: "\<forall>n \<in> set (fst (hd items)) \<union> set (fst (hd items')). n < 16"
    using hd_nibbles less.prems(3-6) by blast
  have sub: "node_bytes g \<in> S" if "trie_nodes g \<subseteq> S" for g using that trie_nodes_here by blast
  consider (leaf) "length items \<le> 1" "length items' \<le> 1"
    | (ext) "1 < length items" "?n \<noteq> 0" "1 < length items'" "?m \<noteq> 0"
    | (branch) "1 < length items" "?n = 0" "1 < length items'" "?m = 0"
    | (mixed) "(length items \<le> 1) \<noteq> (length items' \<le> 1) \<or> (?n = 0) \<noteq> (?m = 0) \<and> 1 < length items \<and> 1 < length items'"
    by linarith
  then show ?case
  proof cases
    case leaf
    then have "compact_encode (fst (hd items)) True = compact_encode (fst (hd items')) True" "snd (hd items) = snd (hd items')"
      using eq by (simp_all add: node_fields_def)
    then have "hd items = hd items'" using compact_encode_inj[OF nib] by (auto simp: prod_eq_iff)
    moreover have "xs = [hd xs]" if "length xs \<le> 1" "xs \<noteq> []" for xs :: trie_items
      using that by (cases xs) auto
    then have "items = [hd items]" "items' = [hd items']" using leaf less.prems(5,6) by blast+
    ultimately show ?thesis by simp
  next
    case ext
    then have eqs: "compact_encode (take ?n (fst (hd items))) False = compact_encode (take ?m (fst (hd items'))) False"
      "node_ref (node_bytes (strip_items ?n items)) = node_ref (node_bytes (strip_items ?m items'))"
      using eq by (simp_all add: node_fields_def Let_def)
    have nib': "\<forall>k \<in> set (take ?n (fst (hd items))) \<union> set (take ?m (fst (hd items'))). k < 16"
      using nib by (auto dest: in_set_takeD)
    have S: "trie_nodes (strip_items ?n items) \<subseteq> S" "trie_nodes (strip_items ?m items') \<subseteq> S"
      using trie_nodes_extension[OF ext(1) refl ext(2)] trie_nodes_extension[OF ext(3) refl ext(4)] less.prems(1,2) by auto
    have "node_bytes (strip_items ?n items) = node_bytes (strip_items ?m items')"
      by (rule node_ref_inj[OF H(1) sub[OF S(1)] sub[OF S(2)] eqs(2)])
    moreover have "items_size (strip_items ?n items) < items_size items"
      using less.prems(5) ext(2) by (intro strip_items_size) (auto intro!: longest_common_prefix_le rev_image_eqI)
    moreover have "strip_items ?n items \<noteq> []" "strip_items ?m items' \<noteq> []"
      using less.prems(5,6) by (simp_all add: strip_items_def)
    ultimately have sets: "set (strip_items ?n items) = set (strip_items ?m items')"
      using less.hyps[OF _ S items_ok_strip[OF less.prems(3) refl] items_ok_strip[OF less.prems(4) refl]] by blast
    have "take ?n (fst (hd items)) = take ?m (fst (hd items'))"
      by (rule conjunct1[OF compact_encode_inj[OF nib' eqs(1)]])
    then show ?thesis using sets by (rule extension_sets[OF refl refl])
  next
    case branch
    then have "map (branch_ref items) [0..<16] @ [terminal_value items] = map (branch_ref items') [0..<16] @ [terminal_value items']"
      using eq unfolding node_fields_def Let_def by (simp only: not_le[symmetric] if_False refl not_True_eq_False)
    then have "map (branch_ref items) [0..<16] = map (branch_ref items') [0..<16]"
      and tv: "terminal_value items = terminal_value items'" by (simp_all only: append1_eq_conv)
    then have refs: "branch_ref items k = branch_ref items' k" if "k < 16" for k
      using that unfolding map_eq_conv by simp
    have "set (child_items k items) = set (child_items k items')" if k: "k < 16" for k
    proof (cases "child_items k items = [] \<or> child_items k items' = []")
      case True
      then show ?thesis
        using refs[OF k] node_ref_nonempty[of "child_items k items"] node_ref_nonempty[of "child_items k items'"]
        by (auto simp: branch_ref_def split: if_splits)
    next
      case False
      have S: "trie_nodes (child_items k items) \<subseteq> S" "trie_nodes (child_items k items') \<subseteq> S"
        using trie_nodes_branch[OF branch(1,2) k] trie_nodes_branch[OF branch(3,4) k] False less.prems(1,2) by auto
      have "node_ref (node_bytes (child_items k items)) = node_ref (node_bytes (child_items k items'))"
        using refs[OF k] False by (simp add: branch_ref_def)
      then have same: "node_bytes (child_items k items) = node_bytes (child_items k items')"
        by (rule node_ref_inj[OF H(1) sub[OF S(1)] sub[OF S(2)]])
      have ne: "child_items k items \<noteq> []" "child_items k items' \<noteq> []" using False by simp_all
      show ?thesis
        by (rule less.hyps[OF child_items_size[OF ne(1)] S items_ok_child[OF less.prems(3)]
              items_ok_child[OF less.prems(4)] ne same])
    qed
    then show ?thesis by (rule branch_sets[OF less.prems(3,4) tv])
  next
    case mixed
    have "length (node_fields xs) = (if length xs \<le> 1 \<or> longest_common_prefix (map fst xs) \<noteq> 0 then 2 else 17)" for xs
      by (simp add: node_fields_def Let_def del: upt_rec_numeral)
    from this[of items] this[of items'] have "(length items \<le> 1 \<or> ?n \<noteq> 0) = (length items' \<le> 1 \<or> ?m \<noteq> 0)"
      using eq by (auto split: if_splits)
    moreover have False if "length xs \<le> 1" "1 < length ys" "longest_common_prefix (map fst ys) \<noteq> 0"
      "node_fields xs = node_fields ys" "\<forall>n \<in> set (fst (hd xs)) \<union> set (fst (hd ys)). n < 16" for xs ys
    proof -
      have "\<forall>n \<in> set (fst (hd xs)) \<union> set (take (longest_common_prefix (map fst ys)) (fst (hd ys))). n < 16"
        using that(5) by (auto dest: in_set_takeD)
      from compact_encode_inj[OF this, of True False] show False using that(1-4) by (simp add: node_fields_def Let_def)
    qed
    ultimately show ?thesis using mixed eq nib by (metis Un_commute not_le)
  qed
qed

section \<open>The commitment\<close>

lemma unat_nibbles:
  "unat (drop_bit 4 (b :: byte)) = unat b div 16" "unat (b AND 0x0F) = unat b mod 16"
proof -
  show "unat (drop_bit 4 b) = unat b div 16" by (simp add: drop_bit_eq_div unat_div_distrib)
  have "b AND 0x0F = take_bit 4 b" by (simp add: take_bit_eq_mask mask_numeral)
  then show "unat (b AND 0x0F) = unat b mod 16" by (simp add: take_bit_eq_mod unat_mod_distrib)
qed

lemma bytes_to_nibbles_simps:
  "bytes_to_nibbles [] = []"
  "bytes_to_nibbles (b # bs) = unat b div 16 # unat b mod 16 # bytes_to_nibbles bs"
  by (simp_all add: bytes_to_nibbles_def unat_nibbles)

lemma bytes_to_nibbles_length: "length (bytes_to_nibbles bs) = 2 * length bs"
  by (induction bs) (auto simp: bytes_to_nibbles_simps)

lemma bytes_to_nibbles_lt: "n \<in> set (bytes_to_nibbles bs) \<Longrightarrow> n < 16"
proof (induction bs)
  case (Cons b bs)
  have "unat b < 256" using unsigned_less[of b] by simp
  then show ?case using Cons by (auto simp: bytes_to_nibbles_simps)
qed (simp add: bytes_to_nibbles_simps)

lemma bytes_to_nibbles_inj: "bytes_to_nibbles xs = bytes_to_nibbles ys \<Longrightarrow> xs = ys"
proof (induction xs arbitrary: ys)
  case Nil
  then show ?case by (cases ys) (auto simp: bytes_to_nibbles_simps)
next
  case (Cons x xs)
  then obtain y ys' where ys: "ys = y # ys'" by (cases ys) (auto simp: bytes_to_nibbles_simps)
  then have "unat x div 16 = unat y div 16" "unat x mod 16 = unat y mod 16"
    using Cons.prems by (simp_all add: bytes_to_nibbles_simps)
  then have "unat x = unat y" by (metis div_mult_mod_eq)
  then have "x = y" by (simp add: word_unat_eq_iff)
  then show ?case using Cons ys by (simp add: bytes_to_nibbles_simps)
qed

text \<open>
  The entries that \<open>commit\<close> hands to the construction, and the conditions under which a root is
  binding: every key can be transformed, different keys differently, and values are not empty.
\<close>

definition mpt_path_items :: "mpt \<Rightarrow> trie_items" where
  "mpt_path_items t =
     (case mpt_sorted t of Inl _ \<Rightarrow> []
      | Inr kvs \<Rightarrow> map (\<lambda>(key, value). (bytes_to_nibbles key, value)) kvs)"

definition mpt_ok :: "mpt \<Rightarrow> bool" where
  "mpt_ok t \<longleftrightarrow> dict_wf (mpt_entries t) \<and>
     (\<forall>(key, value) \<in> set (mpt_entries t). value \<noteq> [] \<and> length value < 2 ^ 32 \<and>
        (\<exists>path. mpt_key_transform t key = Inr path \<and> length path < 2 ^ 31))"

definition keys_apart :: "mpt \<Rightarrow> mpt \<Rightarrow> bool" where
  "keys_apart t t' \<longleftrightarrow>
     inj_on (mpt_key_transform t) (fst ` set (mpt_entries t) \<union> fst ` set (mpt_entries t'))"

definition mpt_path :: "mpt \<Rightarrow> bytes \<Rightarrow> bytes" where
  "mpt_path t key = (case mpt_key_transform t key of Inl _ \<Rightarrow> [] | Inr path \<Rightarrow> path)"

lemma mpt_sorted_ok:
  assumes "mpt_ok t"
  shows "mpt_sorted t = Inr (sort_key fst (map (\<lambda>(key, value). (mpt_path t key, value)) (mpt_entries t)))"
proof -
  have "mapR (\<lambda>(key, value). bindR (mpt_key_transform t key) (\<lambda>k. Inr (k, value))) (mpt_entries t)
      = Inr (map (\<lambda>(key, value). (mpt_path t key, value)) (mpt_entries t))"
    using assms by (intro mapR_InrI) (fastforce simp: mpt_ok_def mpt_path_def)
  then show ?thesis by (simp add: mpt_sorted_def)
qed

lemma mpt_commit_root:
  assumes "mpt_ok t"
  shows "fst (mpt_commit t) = Inr (keccak256 (node_bytes (mpt_path_items t)))"
proof (cases "mpt_entries t = []")
  case True
  then show ?thesis
    by (simp add: mpt_commit_def mpt_path_items_def mpt_sorted_def node_bytes_Nil EMPTY_TRIE_ROOT_def)
next
  case False
  let ?t = "t\<lparr>mpt_node_store := []\<rparr>"
  have s: "mpt_sorted ?t = mpt_sorted t" by (simp add: mpt_sorted_def)
  obtain kvs where kvs: "mpt_sorted t = Inr kvs" using mpt_sorted_ok[OF assms] by blast
  obtain store where b: "build_node (mpt_path_items t) [] = (Inr (node_bytes (mpt_path_items t)), store)"
    using build_node_bytes[of "mpt_path_items t" "[]"] by (metis prod.collapse)
  show ?thesis
    using False b by (simp add: mpt_commit_def s kvs mpt_path_items_def Let_def)
qed

lemma set_mpt_path_items:
  "mpt_ok t \<Longrightarrow> set (mpt_path_items t) = (\<lambda>(key, value). (bytes_to_nibbles (mpt_path t key), value)) ` set (mpt_entries t)"
  by (force simp: mpt_path_items_def mpt_sorted_ok)

lemma mpt_ok_key: "mpt_ok t \<Longrightarrow> key \<in> fst ` set (mpt_entries t) \<Longrightarrow> \<exists>path. mpt_key_transform t key = Inr path"
  by (fastforce simp: mpt_ok_def)

lemma mpt_path_inj:
  assumes "mpt_ok t" "mpt_ok t'" "mpt_key_transform t' = mpt_key_transform t" "keys_apart t t'"
    "k \<in> fst ` set (mpt_entries t) \<union> fst ` set (mpt_entries t')"
    "k' \<in> fst ` set (mpt_entries t) \<union> fst ` set (mpt_entries t')" "mpt_path t k = mpt_path t k'"
  shows "k = k'"
proof -
  have "\<exists>path. mpt_key_transform t x = Inr path" if "x \<in> fst ` set (mpt_entries t) \<union> fst ` set (mpt_entries t')" for x
    using that mpt_ok_key[OF assms(1), of x] mpt_ok_key[OF assms(2), of x] assms(3) by (elim UnE) simp_all
  then obtain p p' where "mpt_key_transform t k = Inr p" "mpt_key_transform t k' = Inr p'"
    using assms(5,6) by meson
  then have "mpt_key_transform t k = mpt_key_transform t k'" using assms(7) by (simp add: mpt_path_def)
  then show ?thesis by (rule inj_onD[OF assms(4)[unfolded keys_apart_def] _ assms(5,6)])
qed

lemma mpt_items_ok:
  assumes "mpt_ok t" "keys_apart t t"
  shows "items_ok (mpt_path_items t)"
proof -
  let ?f = "\<lambda>key. bytes_to_nibbles (mpt_path t key)"
  have "inj_on ?f (fst ` set (mpt_entries t))"
    using mpt_path_inj[OF assms(1,1) refl assms(2)] bytes_to_nibbles_inj by (intro inj_onI) blast
  then have "distinct (map ?f (map fst (mpt_entries t)))"
    using assms(1) by (simp only: mpt_ok_def distinct_map[of ?f] list.set_map)
  then have "distinct (map (\<lambda>p. bytes_to_nibbles (fst p)) (map (\<lambda>(key, value). (mpt_path t key, value)) (mpt_entries t)))"
    by (simp add: comp_def case_prod_unfold)
  then have "distinct (map (\<lambda>p. bytes_to_nibbles (fst p))
      (sort_key fst (map (\<lambda>(key, value). (mpt_path t key, value)) (mpt_entries t))))"
    by (simp only: distinct_map[of "\<lambda>p. bytes_to_nibbles (fst p)"] distinct_sort set_sort)
  then have "distinct (map fst (mpt_path_items t))"
    by (simp add: mpt_path_items_def mpt_sorted_ok[OF assms(1)] comp_def case_prod_unfold)
  moreover have "v \<noteq> [] \<and> length v < 2 ^ 32 \<and> length p < 2 ^ 32 \<and> (\<forall>n \<in> set p. n < 16)"
    if pv: "(p, v) \<in> set (mpt_path_items t)" for p v
  proof -
    obtain key where p: "p = ?f key" and mem: "(key, v) \<in> set (mpt_entries t)"
      using pv set_mpt_path_items[OF assms(1)] by auto
    then have "length (mpt_path t key) < 2 ^ 31" "v \<noteq> []" "length v < 2 ^ 32"
      using assms(1) by (fastforce simp: mpt_ok_def mpt_path_def)+
    then show ?thesis using p bytes_to_nibbles_lt by (auto simp: bytes_to_nibbles_length)
  qed
  ultimately show ?thesis by (auto simp: items_ok_def)
qed

lemma keys_apart_self: "keys_apart t t' \<Longrightarrow> keys_apart t t"
  unfolding keys_apart_def by (erule inj_on_subset) auto

lemma keys_apart_other:
  "mpt_key_transform t' = mpt_key_transform t \<Longrightarrow> keys_apart t t' \<Longrightarrow> keys_apart t' t'"
  unfolding keys_apart_def by (simp, erule inj_on_subset) auto

lemma equal_gets_equal_entries:
  assumes "mpt_ok t" "mpt_ok t'"
  shows "(\<forall>key. mpt_get t key = mpt_get t' key) \<longleftrightarrow> set (mpt_entries t) = set (mpt_entries t')"
proof -
  have wf: "dict_wf (mpt_entries t)" "dict_wf (mpt_entries t')" using assms by (simp_all add: mpt_ok_def)
  have "map_of (mpt_entries t) = map_of (mpt_entries t') \<longleftrightarrow> set (mpt_entries t) = set (mpt_entries t')"
    using map_of_inject_set[OF wf] by blast
  then show ?thesis by (simp add: mpt_get_def fun_eq_iff)
qed

lemma equal_entries_equal_items:
  assumes "mpt_ok t" "mpt_ok t'" "mpt_key_transform t' = mpt_key_transform t" "keys_apart t t"
    "set (mpt_entries t) = set (mpt_entries t')"
  shows "mpt_path_items t = mpt_path_items t'"
proof -
  let ?f = "\<lambda>(key, value). (mpt_path t key, value)"
  let ?s = "\<lambda>t. sort_key fst (map ?f (mpt_entries t))"
  have same: "mpt_path t' = mpt_path t" using assms(3) by (simp add: mpt_path_def fun_eq_iff)
  have inj: "inj_on (mpt_path t) (fst ` set (mpt_entries t))"
    using mpt_path_inj[OF assms(1,1) refl assms(4)] by (intro inj_onI) blast
  have dist: "distinct (map fst (?s u))" if "dict_wf (mpt_entries u)" "set (mpt_entries u) = set (mpt_entries t)" for u
  proof -
    have "distinct (map (mpt_path t) (map fst (mpt_entries u)))"
      using that inj by (simp only: distinct_map[of "mpt_path t"] list.set_map)
    then have "distinct (map fst (map ?f (mpt_entries u)))" by (simp add: comp_def case_prod_unfold)
    then show ?thesis by (simp only: distinct_map[of fst] distinct_sort set_sort)
  qed
  have wf: "dict_wf (mpt_entries t)" "dict_wf (mpt_entries t')" using assms(1,2) by (simp_all add: mpt_ok_def)
  have "?s t = ?s t'"
  proof (rule map_sorted_distinct_set_unique[of fst])
    show "set (?s t) = set (?s t')" using assms(5) by simp
    then show "inj_on fst (set (?s t) \<union> set (?s t'))" using dist[OF wf(1) refl] by (simp only: distinct_map Un_absorb)
  qed (use dist[OF wf(1) refl] dist[OF wf(2) assms(5)[symmetric]] in simp_all)
  then show ?thesis by (simp add: mpt_path_items_def mpt_sorted_ok[OF assms(1)] mpt_sorted_ok[OF assms(2)] same)
qed

lemma equal_items_equal_entries:
  assumes "mpt_ok t" "mpt_ok t'" "mpt_key_transform t' = mpt_key_transform t" "keys_apart t t'"
    "set (mpt_path_items t) = set (mpt_path_items t')"
  shows "set (mpt_entries t) = set (mpt_entries t')"
proof -
  have same: "mpt_path t' = mpt_path t" using assms(3) by (simp add: mpt_path_def fun_eq_iff)
  let ?f = "\<lambda>(key, value). (bytes_to_nibbles (mpt_path t key), value :: bytes)"
  let ?A = "set (mpt_entries t)" and ?B = "set (mpt_entries t')"
  have "?f ` ?A = ?f ` ?B"
    using assms(5) set_mpt_path_items[OF assms(1)] set_mpt_path_items[OF assms(2)] same by simp
  moreover have "inj_on ?f (?A \<union> ?B)"
  proof (rule inj_onI)
    fix x y
    assume xy: "x \<in> ?A \<union> ?B" "y \<in> ?A \<union> ?B" "?f x = ?f y"
    then have keys: "fst x \<in> fst ` ?A \<union> fst ` ?B" "fst y \<in> fst ` ?A \<union> fst ` ?B" by auto
    have "mpt_path t (fst x) = mpt_path t (fst y)" "snd x = snd y"
      using xy(3) bytes_to_nibbles_inj by (auto simp: case_prod_unfold)
    then show "x = y" using mpt_path_inj[OF assms(1-4) keys] by (simp add: prod_eq_iff)
  qed
  ultimately show ?thesis by (meson Un_upper1 Un_upper2 inj_on_image_eq_iff)
qed

lemma mpt_roots_equal_iff:
  assumes "mpt_ok t" "mpt_ok t'" "mpt_key_transform t' = mpt_key_transform t" "keys_apart t t'"
    and "inj_on keccak256 (trie_nodes (mpt_path_items t) \<union> trie_nodes (mpt_path_items t'))"
  shows "fst (mpt_commit t) = fst (mpt_commit t') \<longleftrightarrow> (\<forall>key. mpt_get t key = mpt_get t' key)"
proof -
  let ?i = "mpt_path_items t" and ?j = "mpt_path_items t'"
  let ?S = "trie_nodes ?i \<union> trie_nodes ?j"
  have ok: "items_ok ?i" "items_ok ?j"
    using mpt_items_ok[OF assms(1) keys_apart_self[OF assms(4)]] mpt_items_ok[OF assms(2) keys_apart_other[OF assms(3,4)]]
    by simp_all
  have not_empty: "node_bytes g \<noteq> node_bytes []" if "items_ok g" "g \<noteq> []" for g
    using flat_ref_not_string[OF node_fields_small[OF that]] node_bytes_fields[OF that(2)] node_bytes_Nil by simp
  have "set ?i = set ?j" if same: "node_bytes ?i = node_bytes ?j"
  proof (cases "?i = [] \<or> ?j = []")
    case True
    then show ?thesis using same not_empty[OF ok(1)] not_empty[OF ok(2)] by metis
  next
    case False
    then show ?thesis using node_bytes_inj[OF assms(5) _ _ ok _ _ same] by simp
  qed
  moreover have "node_bytes ?i = node_bytes ?j" if "keccak256 (node_bytes ?i) = keccak256 (node_bytes ?j)"
    using inj_onD[OF assms(5) that] trie_nodes_here by blast
  ultimately have "keccak256 (node_bytes ?i) = keccak256 (node_bytes ?j) \<longleftrightarrow> set (mpt_entries t) = set (mpt_entries t')"
    using equal_entries_equal_items[OF assms(1-3) keys_apart_self[OF assms(4)]] equal_items_equal_entries[OF assms(1-4)]
    by metis
  then show ?thesis
    using mpt_commit_root[OF assms(1)] mpt_commit_root[OF assms(2)] equal_gets_equal_entries[OF assms(1,2)] by simp
qed

text \<open>Two encodings of nodes with one hash.\<close>

definition nodes_collide :: "bytes set \<Rightarrow> bool" where
  "nodes_collide nodes \<longleftrightarrow> (\<exists>x \<in> nodes. \<exists>y \<in> nodes. x \<noteq> y \<and> keccak256 x = keccak256 y)"

lemma nodes_collide_inj: "\<not> nodes_collide nodes \<Longrightarrow> inj_on keccak256 nodes"
  by (auto simp: nodes_collide_def inj_on_def)

lemma mpt_equal_maps_equal_roots:
  assumes "mpt_ok t" "mpt_ok t'" "mpt_key_transform t' = mpt_key_transform t" "keys_apart t t'"
    and "\<forall>key. mpt_get t key = mpt_get t' key"
  shows "fst (mpt_commit t) = fst (mpt_commit t')"
  using equal_entries_equal_items[OF assms(1-3) keys_apart_self[OF assms(4)]] equal_gets_equal_entries[OF assms(1,2)] assms(5)
    mpt_commit_root[OF assms(1)] mpt_commit_root[OF assms(2)] by simp

text \<open>
  C30. The root of a Merkle Patricia trie commits to its map, for tries of one key transform that tells their
  keys apart and whose values are not empty (an empty value has the root of an absent key). Committing
  succeeds; tries that answer every key alike have one root, whatever the order and the history of their
  updates; and two tries with one root answer every key alike, unless two different node encodings
  of the tries with the same hash are at hand.
\<close>

theorem mpt_root_binding:
  assumes "mpt_ok t" "mpt_ok t'" "mpt_key_transform t' = mpt_key_transform t" "keys_apart t t'"
  shows "\<exists>r r'. fst (mpt_commit t) = Inr r \<and> fst (mpt_commit t') = Inr r'
    \<and> ((\<forall>key. mpt_get t key = mpt_get t' key) \<longrightarrow> r = r')
    \<and> (r = r' \<longrightarrow> (\<forall>key. mpt_get t key = mpt_get t' key)
         \<or> nodes_collide (trie_nodes (mpt_path_items t) \<union> trie_nodes (mpt_path_items t')))"
  using mpt_roots_equal_iff[OF assms nodes_collide_inj] mpt_equal_maps_equal_roots[OF assms]
    mpt_commit_root[OF assms(1)] mpt_commit_root[OF assms(2)] by auto

text \<open>Overwriting a value leaves no trace in the root, and another value gives another root.\<close>

theorem mpt_root_binding_witness:
  "\<exists>r r'. fst (mpt_commit (mpt_update [1] [2] (mpt_update [1] [3] (new_mpt Inr)))) = Inr r
     \<and> fst (mpt_commit (mpt_update [1] [2] (new_mpt Inr))) = Inr r
     \<and> fst (mpt_commit (mpt_update [1] [3] (new_mpt Inr))) = Inr r'
     \<and> (r = r' \<longrightarrow> nodes_collide {node_bytes [([0, 1], [2])], node_bytes [([0, 1], [3])]})"
proof -
  let ?t = "mpt_update [1] [2] (mpt_update [1] [3] (new_mpt Inr))" and ?u = "mpt_update [1] [2] (new_mpt Inr)"
    and ?w = "mpt_update [1] [3] (new_mpt Inr)"
  have e: "mpt_entries ?t = [([1], [2])]" "mpt_entries ?u = [([1], [2])]" "mpt_entries ?w = [([1], [3])]"
    "mpt_key_transform ?t = Inr" "mpt_key_transform ?u = Inr" "mpt_key_transform ?w = Inr"
    by (simp_all add: mpt_update_def new_mpt_def)
  have i: "mpt_path_items ?t = [([0, 1], [2])]" "mpt_path_items ?u = [([0, 1], [2])]" "mpt_path_items ?w = [([0, 1], [3])]"
    by (simp_all add: mpt_path_items_def mpt_sorted_def e bytes_to_nibbles_simps)
  have ok: "mpt_ok ?t" "mpt_ok ?u" "mpt_ok ?w" "keys_apart ?t ?u" "keys_apart ?t ?w"
    "mpt_key_transform ?u = mpt_key_transform ?t" "mpt_key_transform ?w = mpt_key_transform ?t"
    by (simp_all add: mpt_ok_def keys_apart_def e)
  have "mpt_get ?t = mpt_get ?u" by (simp add: mpt_get_def e fun_eq_iff)
  moreover have "mpt_get ?t [1] \<noteq> mpt_get ?w [1]" by (simp add: mpt_get_def e)
  ultimately show ?thesis
    using mpt_root_binding[OF ok(1,2,6,4)] mpt_root_binding[OF ok(1,3,7,5)] by (auto simp: i trie_nodes_single insert_commute)
qed

end
