(* ===== verification/State_Backends.thy ===== *)
theory State_Backends
  imports Merkle_Binding Evm_State
begin

text \<open>
  The state crate: accounts (\<open>state/account.py\<close>), the serialization of accounts and storage values
  and the trie keys (\<open>state/serialization.py\<close>), the storage map (\<open>state/storage.py\<close>), the two
  backends (\<open>state/backends/hashmap.py\<close>, \<open>state/backends/mpt.py\<close>) behind the interface of
  \<open>state/backends/base.py\<close>, and the state object with its snapshots (\<open>state/core.py\<close>); and the
  state root of the execution layer (\<open>execution/trie.py\<close>), which copies the state database of the
  interpreter into the trie backend. A backend is a record of its operations, as the abstract class is.
\<close>

section \<open>Accounts\<close>

record trie_account =
  ta_nonce :: u256
  ta_balance :: u256
  ta_code_hash :: hash
  ta_storage_root :: hash

definition default_trie_account :: trie_account where
  "default_trie_account =
     \<lparr>ta_nonce = 0, ta_balance = 0, ta_code_hash = EMPTY_CODE_HASH, ta_storage_root = EMPTY_TRIE_ROOT\<rparr>"

definition trie_account_is_empty :: "trie_account \<Rightarrow> bool" where
  "trie_account_is_empty acc \<longleftrightarrow>
     ta_nonce acc = 0 \<and> ta_balance acc = 0 \<and> ta_code_hash acc = EMPTY_CODE_HASH \<and> ta_storage_root acc = EMPTY_TRIE_ROOT"

text \<open>Arguments of type \<open>U256 | int\<close>.\<close>

definition state_coerce_u256 :: "operand \<Rightarrow> (py_error, u256) result" where
  "state_coerce_u256 value =
     (case value of OpU256 w \<Rightarrow> Inr w | OpInt v \<Rightarrow> mk_u256 v | OpOther \<Rightarrow> Inl TypeError)"

section \<open>Serialization\<close>

definition serialize_account :: "trie_account \<Rightarrow> (py_error, bytes) result" where
  "serialize_account acc =
     rlp_encode (ObjList
       [ObjInt (uint (ta_nonce acc)), ObjInt (uint (ta_balance acc)), ObjBytes (hash_bytes (ta_storage_root acc)),
        ObjBytes (hash_bytes (ta_code_hash acc))])"

definition u256_of_raw :: "bytes \<Rightarrow> (py_error, u256) result" where
  "u256_of_raw raw = (if raw \<noteq> [] then mk_u256 (be_int raw) else Inr 0)"

definition deserialize_account :: "bytes \<Rightarrow> (py_error, trie_account) result" where
  "deserialize_account payload =
     bindR (mapE (\<lambda>_. ValueError) (rlp_decode payload)) (\<lambda>v.
     case v of
       RList [RBytes nonce_raw, RBytes balance_raw, RBytes storage_root_raw, RBytes code_hash_raw] \<Rightarrow>
         if length storage_root_raw \<noteq> HASH_SIZE then Inl ValueError
         else if length code_hash_raw \<noteq> HASH_SIZE then Inl ValueError
         else
           bindR (u256_of_raw nonce_raw) (\<lambda>nonce.
           bindR (u256_of_raw balance_raw) (\<lambda>balance.
           bindR (mk_hash storage_root_raw) (\<lambda>storage_root.
           bindR (mk_hash code_hash_raw) (\<lambda>code_hash.
             Inr \<lparr>ta_nonce = nonce, ta_balance = balance, ta_code_hash = code_hash, ta_storage_root = storage_root\<rparr>))))
     | _ \<Rightarrow> Inl ValueError)"

definition serialize_storage_value :: "operand \<Rightarrow> (py_error, bytes) result" where
  "serialize_storage_value value = bindR (state_coerce_u256 value) (\<lambda>w. rlp_encode (ObjInt (uint w)))"

definition deserialize_storage_value :: "bytes \<Rightarrow> (py_error, u256) result" where
  "deserialize_storage_value payload =
     bindR (mapE (\<lambda>_. ValueError) (rlp_decode payload)) (\<lambda>v.
     case v of
       RList _ \<Rightarrow> Inl ValueError
     | RBytes bs \<Rightarrow>
         if bs = [] then Inr 0
         else if hd bs = 0 then Inl ValueError
         else mk_u256 (be_int bs))"

definition address_trie_key :: "bytes \<Rightarrow> (py_error, bytes) result" where
  "address_trie_key raw = (if length raw \<noteq> ADDRESS_SIZE then Inl ValueError else Inr (hash_bytes (keccak256 raw)))"

definition storage_trie_key :: "bytes \<Rightarrow> (py_error, bytes) result" where
  "storage_trie_key raw = (if length raw \<noteq> 32 then Inl ValueError else Inr (hash_bytes (keccak256 raw)))"

section \<open>The storage map\<close>

type_synonym storage_map = "(u256, u256) dict"

definition storage_map_get :: "u256 \<Rightarrow> storage_map \<Rightarrow> u256" where
  "storage_map_get key slots = (case dict_get slots key of None \<Rightarrow> 0 | Some v \<Rightarrow> v)"

definition storage_map_set :: "u256 \<Rightarrow> u256 \<Rightarrow> storage_map \<Rightarrow> storage_map" where
  "storage_map_set key value slots = (if value = 0 then dict_pop key slots else dict_put key value slots)"

definition storage_map_delete :: "u256 \<Rightarrow> storage_map \<Rightarrow> storage_map" where
  "storage_map_delete key slots = dict_pop key slots"

definition storage_map_items :: "storage_map \<Rightarrow> (u256 \<times> u256) list" where
  "storage_map_items slots = sort_key (\<lambda>entry. uint (fst entry)) slots"

definition storage_map_is_empty :: "storage_map \<Rightarrow> bool" where
  "storage_map_is_empty slots \<longleftrightarrow> slots = []"

section \<open>The interface of a backend\<close>

record 'b state_backend =
  sb_get_account :: "address \<Rightarrow> ('b, py_error, trie_account option) sem"
  sb_set_account :: "address \<Rightarrow> trie_account \<Rightarrow> ('b, py_error, unit) sem"
  sb_create_account :: "address \<Rightarrow> ('b, py_error, trie_account) sem"
  sb_account_exists :: "address \<Rightarrow> 'b \<Rightarrow> bool"
  sb_delete_account :: "address \<Rightarrow> 'b \<Rightarrow> 'b"
  sb_get_code :: "address \<Rightarrow> 'b \<Rightarrow> bytes"
  sb_set_code :: "address \<Rightarrow> bytes \<Rightarrow> ('b, py_error, hash) sem"
  sb_get_storage :: "address \<Rightarrow> u256 \<Rightarrow> ('b, py_error, u256) sem"
  sb_set_storage :: "address \<Rightarrow> u256 \<Rightarrow> u256 \<Rightarrow> ('b, py_error, unit) sem"
  sb_commit :: "('b, py_error, hash) sem"
  sb_state_root :: "'b \<Rightarrow> hash"

text \<open>
  The checks of \<open>set_account\<close>, the same in both backends: the code the record keeps, given the root of
  its storage and the record's current code hash and code.
\<close>

definition checked_account_code :: "trie_account \<Rightarrow> hash \<Rightarrow> hash \<Rightarrow> bytes \<Rightarrow> (py_error, bytes) result" where
  "checked_account_code acc current_storage_root current_code_hash current_code =
     (if ta_storage_root acc \<noteq> current_storage_root then Inl ValueError
      else if ta_code_hash acc \<noteq> current_code_hash then
        (if ta_code_hash acc = EMPTY_CODE_HASH then Inr [] else Inl ValueError)
      else Inr current_code)"

section \<open>The hash-map backend\<close>

record hash_record =
  hr_account :: trie_account
  hr_code :: bytes
  hr_storage :: storage_map

record hash_backend =
  hb_records :: "(address, hash_record) dict"
  hb_code_store :: "(hash, bytes) dict"
  hb_state_root :: hash

definition new_hash_record :: hash_record where
  "new_hash_record = \<lparr>hr_account = default_trie_account, hr_code = [], hr_storage = []\<rparr>"

definition new_hash_backend :: hash_backend where
  "new_hash_backend = \<lparr>hb_records = [], hb_code_store = [], hb_state_root = EMPTY_TRIE_ROOT\<rparr>"

definition hb_put :: "address \<Rightarrow> hash_record \<Rightarrow> hash_backend \<Rightarrow> hash_backend" where
  "hb_put a rec b = b\<lparr>hb_records := dict_put a rec (hb_records b)\<rparr>"

definition hb_ensure_record :: "address \<Rightarrow> hash_backend \<Rightarrow> hash_record \<times> hash_backend" where
  "hb_ensure_record a b =
     (case dict_get (hb_records b) a of
        None \<Rightarrow> (new_hash_record, hb_put a new_hash_record b)
      | Some rec \<Rightarrow> (rec, b))"

text \<open>The trie that \<open>_current_storage_root\<close> fills and commits.\<close>

fun fill_storage_trie :: "(u256 \<times> u256) list \<Rightarrow> mpt \<Rightarrow> (py_error, mpt) result" where
  "fill_storage_trie [] t = Inr t"
| "fill_storage_trie ((key, value) # items) t =
     bindR (serialize_storage_value (OpU256 value)) (\<lambda>payload.
       fill_storage_trie items (mpt_update (u256_bytes32 key) payload t))"

definition hb_current_storage_root :: "storage_map \<Rightarrow> (py_error, hash) result" where
  "hb_current_storage_root slots =
     bindR (fill_storage_trie (storage_map_items slots) (new_mpt storage_trie_key)) (\<lambda>t. fst (mpt_commit t))"

definition hb_materialize_account :: "hash_record \<Rightarrow> (py_error, trie_account) result" where
  "hb_materialize_account rec =
     bindR (hb_current_storage_root (hr_storage rec)) (\<lambda>root. Inr ((hr_account rec)\<lparr>ta_storage_root := root\<rparr>))"

definition hb_get_account :: "address \<Rightarrow> (hash_backend, py_error, trie_account option) sem" where
  "hb_get_account a b =
     (case dict_get (hb_records b) a of
        None \<Rightarrow> (Inr None, b)
      | Some rec \<Rightarrow> (bindR (hb_materialize_account rec) (\<lambda>acc. Inr (Some acc)), b))"

definition hb_set_account :: "address \<Rightarrow> trie_account \<Rightarrow> (hash_backend, py_error, unit) sem" where
  "hb_set_account a acc b =
     (let record = dict_get (hb_records b) a in
      case bindR (case record of None \<Rightarrow> Inr EMPTY_TRIE_ROOT | Some rec \<Rightarrow> hb_current_storage_root (hr_storage rec)) (\<lambda>root.
           bindR (checked_account_code acc root
               (case record of None \<Rightarrow> EMPTY_CODE_HASH | Some rec \<Rightarrow> ta_code_hash (hr_account rec))
               (case record of None \<Rightarrow> [] | Some rec \<Rightarrow> hr_code rec)) (\<lambda>code. Inr (root, code))) of
        Inl e \<Rightarrow> (Inl e, b)
      | Inr (root, code) \<Rightarrow>
          let (next_record, b') = hb_ensure_record a b in
          (Inr (), hb_put a (next_record\<lparr>hr_code := code, hr_account := acc\<lparr>ta_storage_root := root\<rparr>\<rparr>) b'))"

definition hb_create_account :: "address \<Rightarrow> (hash_backend, py_error, trie_account) sem" where
  "hb_create_account a =
     bindM (hb_get_account a) (\<lambda>found.
     case found of
       Some acc \<Rightarrow> retM acc
     | None \<Rightarrow> (\<lambda>b. let (rec, b') = hb_ensure_record a b in (hb_materialize_account rec, b')))"

definition hb_account_exists :: "address \<Rightarrow> hash_backend \<Rightarrow> bool" where
  "hb_account_exists a b \<longleftrightarrow> dict_get (hb_records b) a \<noteq> None"

definition hb_delete_account :: "address \<Rightarrow> hash_backend \<Rightarrow> hash_backend" where
  "hb_delete_account a b = b\<lparr>hb_records := dict_pop a (hb_records b)\<rparr>"

definition hb_get_code :: "address \<Rightarrow> hash_backend \<Rightarrow> bytes" where
  "hb_get_code a b = (case dict_get (hb_records b) a of None \<Rightarrow> [] | Some rec \<Rightarrow> hr_code rec)"

definition hb_set_code :: "address \<Rightarrow> bytes \<Rightarrow> (hash_backend, py_error, hash) sem" where
  "hb_set_code a bytecode b =
     (let (rec, b') = hb_ensure_record a b;
          code_hash = (if bytecode \<noteq> [] then keccak256 bytecode else EMPTY_CODE_HASH);
          b'' = hb_put a (rec\<lparr>hr_code := bytecode, hr_account := (hr_account rec)\<lparr>ta_code_hash := code_hash\<rparr>\<rparr>) b'
      in (Inr code_hash,
          if bytecode \<noteq> [] then b''\<lparr>hb_code_store := dict_put code_hash bytecode (hb_code_store b'')\<rparr> else b''))"

definition hb_get_storage :: "address \<Rightarrow> u256 \<Rightarrow> (hash_backend, py_error, u256) sem" where
  "hb_get_storage a key b =
     (case dict_get (hb_records b) a of
        None \<Rightarrow> (Inr 0, b)
      | Some rec \<Rightarrow> (Inr (storage_map_get key (hr_storage rec)), b))"

definition hb_set_storage :: "address \<Rightarrow> u256 \<Rightarrow> u256 \<Rightarrow> (hash_backend, py_error, unit) sem" where
  "hb_set_storage a key value b =
     (let (rec, b') = hb_ensure_record a b
      in (Inr (), hb_put a (rec\<lparr>hr_storage := storage_map_set key value (hr_storage rec)\<rparr>) b'))"

text \<open>The body of the loop of \<open>commit\<close> over the sorted addresses, with the account trie it fills.\<close>

definition hb_commit_record :: "address \<Rightarrow> mpt \<Rightarrow> (hash_backend, py_error, mpt) sem" where
  "hb_commit_record a account_trie b =
     (case dict_get (hb_records b) a of
        None \<Rightarrow> (Inl KeyError, b)
      | Some rec \<Rightarrow>
          (case hb_materialize_account rec of
             Inl e \<Rightarrow> (Inl e, b)
           | Inr materialized \<Rightarrow>
               (bindR (serialize_account materialized) (\<lambda>payload. Inr (mpt_update (address_bytes a) payload account_trie)),
                hb_put a (rec\<lparr>hr_account := materialized\<rparr>) b)))"

fun hb_commit_loop :: "address list \<Rightarrow> mpt \<Rightarrow> (hash_backend, py_error, mpt) sem" where
  "hb_commit_loop [] account_trie = retM account_trie"
| "hb_commit_loop (a # addresses) account_trie = bindM (hb_commit_record a account_trie) (hb_commit_loop addresses)"

definition hb_commit :: "(hash_backend, py_error, hash) sem" where
  "hb_commit b =
     bindM (hb_commit_loop (sort_key address_bytes (map fst (hb_records b))) (new_mpt address_trie_key)) (\<lambda>t.
     bindM (liftR (fst (mpt_commit t))) (\<lambda>root.
     seqM (modM (hb_state_root_update (\<lambda>_. root))) (retM root))) b"

definition hash_map_backend :: "hash_backend state_backend" where
  "hash_map_backend =
     \<lparr>sb_get_account = hb_get_account, sb_set_account = hb_set_account, sb_create_account = hb_create_account,
      sb_account_exists = hb_account_exists, sb_delete_account = hb_delete_account, sb_get_code = hb_get_code,
      sb_set_code = hb_set_code, sb_get_storage = hb_get_storage, sb_set_storage = hb_set_storage,
      sb_commit = hb_commit, sb_state_root = hb_state_root\<rparr>"

section \<open>The trie backend\<close>

record mpt_record =
  mr_account :: trie_account
  mr_code :: bytes
  mr_storage_trie :: mpt

record mpt_backend =
  mb_records :: "(address, mpt_record) dict"
  mb_account_trie :: mpt
  mb_code_store :: "(hash, bytes) dict"
  mb_state_root :: hash

definition new_mpt_record :: mpt_record where
  "new_mpt_record =
     \<lparr>mr_account = default_trie_account, mr_code = [], mr_storage_trie = new_mpt storage_trie_key\<rparr>"

definition new_mpt_backend :: mpt_backend where
  "new_mpt_backend =
     \<lparr>mb_records = [], mb_account_trie = new_mpt address_trie_key, mb_code_store = [], mb_state_root = EMPTY_TRIE_ROOT\<rparr>"

definition mb_put :: "address \<Rightarrow> mpt_record \<Rightarrow> mpt_backend \<Rightarrow> mpt_backend" where
  "mb_put a rec b = b\<lparr>mb_records := dict_put a rec (mb_records b)\<rparr>"

definition mb_ensure_record :: "address \<Rightarrow> mpt_backend \<Rightarrow> mpt_record \<times> mpt_backend" where
  "mb_ensure_record a b =
     (case dict_get (mb_records b) a of
        None \<Rightarrow> (new_mpt_record, mb_put a new_mpt_record b)
      | Some rec \<Rightarrow> (rec, b))"

text \<open>
  \<open>record.storage_trie.root_hash\<close> (or \<open>commit()\<close>): the trie object is part of the record and its node
  store changes.
\<close>

definition mb_storage_root :: "address \<Rightarrow> (mpt_backend, py_error, hash) sem" where
  "mb_storage_root a b =
     (case dict_get (mb_records b) a of
        None \<Rightarrow> (Inr EMPTY_TRIE_ROOT, b)
      | Some rec \<Rightarrow>
          let (root, t) = mpt_root (mr_storage_trie rec) in (root, mb_put a (rec\<lparr>mr_storage_trie := t\<rparr>) b))"

definition mb_materialize_account :: "address \<Rightarrow> mpt_record \<Rightarrow> (mpt_backend, py_error, trie_account) sem" where
  "mb_materialize_account a rec =
     bindM (mb_storage_root a) (\<lambda>root. retM ((mr_account rec)\<lparr>ta_storage_root := root\<rparr>))"

definition mb_get_account :: "address \<Rightarrow> (mpt_backend, py_error, trie_account option) sem" where
  "mb_get_account a b =
     (case dict_get (mb_records b) a of
        None \<Rightarrow> (Inr None, b)
      | Some rec \<Rightarrow> bindM (mb_materialize_account a rec) (\<lambda>acc. retM (Some acc)) b)"

definition mb_set_account :: "address \<Rightarrow> trie_account \<Rightarrow> (mpt_backend, py_error, unit) sem" where
  "mb_set_account a acc b =
     (let record = dict_get (mb_records b) a in
      bindM (mb_storage_root a) (\<lambda>root.
      bindM (liftR (checked_account_code acc root
               (case record of None \<Rightarrow> EMPTY_CODE_HASH | Some rec \<Rightarrow> ta_code_hash (mr_account rec))
               (case record of None \<Rightarrow> [] | Some rec \<Rightarrow> mr_code rec))) (\<lambda>code b.
        let (next_record, b') = mb_ensure_record a b in
        (Inr (), mb_put a (next_record\<lparr>mr_code := code, mr_account := acc\<lparr>ta_storage_root := root\<rparr>\<rparr>) b'))) b)"

definition mb_create_account :: "address \<Rightarrow> (mpt_backend, py_error, trie_account) sem" where
  "mb_create_account a =
     bindM (mb_get_account a) (\<lambda>found.
     case found of
       Some acc \<Rightarrow> retM acc
     | None \<Rightarrow> (\<lambda>b. let (rec, b') = mb_ensure_record a b in mb_materialize_account a rec b'))"

definition mb_account_exists :: "address \<Rightarrow> mpt_backend \<Rightarrow> bool" where
  "mb_account_exists a b \<longleftrightarrow> dict_get (mb_records b) a \<noteq> None"

definition mb_delete_account :: "address \<Rightarrow> mpt_backend \<Rightarrow> mpt_backend" where
  "mb_delete_account a b =
     b\<lparr>mb_records := dict_pop a (mb_records b), mb_account_trie := mpt_delete (address_bytes a) (mb_account_trie b)\<rparr>"

definition mb_get_code :: "address \<Rightarrow> mpt_backend \<Rightarrow> bytes" where
  "mb_get_code a b = (case dict_get (mb_records b) a of None \<Rightarrow> [] | Some rec \<Rightarrow> mr_code rec)"

definition mb_set_code :: "address \<Rightarrow> bytes \<Rightarrow> (mpt_backend, py_error, hash) sem" where
  "mb_set_code a bytecode b =
     (let (rec, b') = mb_ensure_record a b;
          code_hash = (if bytecode \<noteq> [] then keccak256 bytecode else EMPTY_CODE_HASH);
          b'' = mb_put a (rec\<lparr>mr_code := bytecode, mr_account := (mr_account rec)\<lparr>ta_code_hash := code_hash\<rparr>\<rparr>) b'
      in (Inr code_hash,
          if bytecode \<noteq> [] then b''\<lparr>mb_code_store := dict_put code_hash bytecode (mb_code_store b'')\<rparr> else b''))"

definition mb_get_storage :: "address \<Rightarrow> u256 \<Rightarrow> (mpt_backend, py_error, u256) sem" where
  "mb_get_storage a key b =
     (case dict_get (mb_records b) a of
        None \<Rightarrow> (Inr 0, b)
      | Some rec \<Rightarrow>
          (case mpt_get (mr_storage_trie rec) (u256_bytes32 key) of
             None \<Rightarrow> (Inr 0, b)
           | Some payload \<Rightarrow> (deserialize_storage_value payload, b)))"

definition mb_set_storage :: "address \<Rightarrow> u256 \<Rightarrow> u256 \<Rightarrow> (mpt_backend, py_error, unit) sem" where
  "mb_set_storage a key value b =
     (let (rec, b') = mb_ensure_record a b; raw_key = u256_bytes32 key in
      if value = 0 then (Inr (), mb_put a (rec\<lparr>mr_storage_trie := mpt_delete raw_key (mr_storage_trie rec)\<rparr>) b')
      else
        case serialize_storage_value (OpU256 value) of
          Inl e \<Rightarrow> (Inl e, b')
        | Inr payload \<Rightarrow>
            (Inr (), mb_put a (rec\<lparr>mr_storage_trie := mpt_update raw_key payload (mr_storage_trie rec)\<rparr>) b'))"

text \<open>The body of the loop of \<open>commit\<close> over the sorted addresses.\<close>

definition mb_commit_record :: "address \<Rightarrow> (mpt_backend, py_error, unit) sem" where
  "mb_commit_record a =
     bindM (mb_storage_root a) (\<lambda>root b.
       case dict_get (mb_records b) a of
         None \<Rightarrow> (Inl KeyError, b)
       | Some rec \<Rightarrow>
           let materialized = (mr_account rec)\<lparr>ta_storage_root := root\<rparr>;
               b' = mb_put a (rec\<lparr>mr_account := materialized\<rparr>) b in
           (case serialize_account materialized of
              Inl e \<Rightarrow> (Inl e, b')
            | Inr payload \<Rightarrow>
                (Inr (), b'\<lparr>mb_account_trie := mpt_update (address_bytes a) payload (mb_account_trie b')\<rparr>)))"

fun mb_commit_loop :: "address list \<Rightarrow> (mpt_backend, py_error, unit) sem" where
  "mb_commit_loop [] = retM ()"
| "mb_commit_loop (a # addresses) = seqM (mb_commit_record a) (mb_commit_loop addresses)"

definition mb_commit :: "(mpt_backend, py_error, hash) sem" where
  "mb_commit b =
     (let b = b\<lparr>mb_account_trie := mpt_clear (mb_account_trie b)\<rparr> in
      seqM (mb_commit_loop (sort_key address_bytes (map fst (mb_records b)))) (\<lambda>b.
        let (root, t) = mpt_commit (mb_account_trie b);
            b' = b\<lparr>mb_account_trie := t\<rparr> in
        case root of Inl e \<Rightarrow> (Inl e, b') | Inr r \<Rightarrow> (Inr r, b'\<lparr>mb_state_root := r\<rparr>)) b)"

definition trie_backend :: "mpt_backend state_backend" where
  "trie_backend =
     \<lparr>sb_get_account = mb_get_account, sb_set_account = mb_set_account, sb_create_account = mb_create_account,
      sb_account_exists = mb_account_exists, sb_delete_account = mb_delete_account, sb_get_code = mb_get_code,
      sb_set_code = mb_set_code, sb_get_storage = mb_get_storage, sb_set_storage = mb_set_storage,
      sb_commit = mb_commit, sb_state_root = mb_state_root\<rparr>"

section \<open>The state object\<close>

record 'b state_object =
  so_backend :: 'b
  so_snapshots :: "(int, 'b) dict"
  so_next_snapshot_id :: int

definition new_state :: "'b \<Rightarrow> 'b state_object" where
  "new_state b = \<lparr>so_backend = b, so_snapshots = [], so_next_snapshot_id = 1\<rparr>"

definition state_snapshot :: "'b state_object \<Rightarrow> int \<times> 'b state_object" where
  "state_snapshot s =
     (let i = so_next_snapshot_id s
      in (i, s\<lparr>so_snapshots := dict_put i (so_backend s) (so_snapshots s), so_next_snapshot_id := i + 1\<rparr>))"

definition state_revert :: "int \<Rightarrow> ('b state_object, py_error, unit) sem" where
  "state_revert snapshot_id s =
     (case dict_get (so_snapshots s) snapshot_id of
        None \<Rightarrow> (Inl ValueError, s)
      | Some b \<Rightarrow>
          (Inr (), s\<lparr>so_backend := b, so_snapshots := filter (\<lambda>(i, _). i \<le> snapshot_id) (so_snapshots s)\<rparr>))"

text \<open>An operation of the backend, run on the backend of the state.\<close>

definition on_backend :: "('b, py_error, 'a) sem \<Rightarrow> ('b state_object, py_error, 'a) sem" where
  "on_backend m s = (let (r, b) = m (so_backend s) in (r, s\<lparr>so_backend := b\<rparr>))"

definition state_get_balance :: "'b state_backend \<Rightarrow> address \<Rightarrow> ('b state_object, py_error, u256) sem" where
  "state_get_balance ops a =
     bindM (on_backend (sb_get_account ops a)) (\<lambda>found.
       retM (case found of None \<Rightarrow> 0 | Some acc \<Rightarrow> ta_balance acc))"

definition state_account_or_create :: "'b state_backend \<Rightarrow> address \<Rightarrow> ('b state_object, py_error, trie_account) sem" where
  "state_account_or_create ops a =
     bindM (on_backend (sb_get_account ops a)) (\<lambda>found.
       case found of Some acc \<Rightarrow> retM acc | None \<Rightarrow> on_backend (sb_create_account ops a))"

definition state_set_balance ::
  "'b state_backend \<Rightarrow> address \<Rightarrow> operand \<Rightarrow> ('b state_object, py_error, unit) sem" where
  "state_set_balance ops a value =
     bindM (state_account_or_create ops a) (\<lambda>acc.
     bindM (liftR (state_coerce_u256 value)) (\<lambda>v.
       on_backend (sb_set_account ops a (acc\<lparr>ta_balance := v\<rparr>))))"

definition state_increment_nonce :: "'b state_backend \<Rightarrow> address \<Rightarrow> ('b state_object, py_error, u256) sem" where
  "state_increment_nonce ops a =
     bindM (state_account_or_create ops a) (\<lambda>acc.
     bindM (liftR (checked_add (ta_nonce acc) (OpU256 u256_one))) (\<lambda>next_nonce.
     bindM (on_backend (sb_set_account ops a (acc\<lparr>ta_nonce := next_nonce\<rparr>))) (\<lambda>_. retM next_nonce)))"

definition state_get_code_hash :: "'b state_backend \<Rightarrow> address \<Rightarrow> ('b state_object, py_error, hash) sem" where
  "state_get_code_hash ops a =
     bindM (on_backend (sb_get_account ops a)) (\<lambda>found.
       retM (case found of None \<Rightarrow> EMPTY_CODE_HASH | Some acc \<Rightarrow> ta_code_hash acc))"

definition state_get_storage :: "'b state_backend \<Rightarrow> address \<Rightarrow> operand \<Rightarrow> ('b state_object, py_error, u256) sem" where
  "state_get_storage ops a key =
     bindM (liftR (state_coerce_u256 key)) (\<lambda>k. on_backend (sb_get_storage ops a k))"

definition state_set_storage ::
  "'b state_backend \<Rightarrow> address \<Rightarrow> operand \<Rightarrow> operand \<Rightarrow> ('b state_object, py_error, unit) sem" where
  "state_set_storage ops a key value =
     bindM (liftR (state_coerce_u256 key)) (\<lambda>k.
     bindM (liftR (state_coerce_u256 value)) (\<lambda>v. on_backend (sb_set_storage ops a k v)))"

section \<open>The state root of the execution layer\<close>

fun copy_storage :: "address \<Rightarrow> (int \<times> int) list \<Rightarrow> (mpt_backend, py_error, unit) sem" where
  "copy_storage a [] = retM ()"
| "copy_storage a ((slot, value) # items) =
     bindM (liftR (mk_u256 slot)) (\<lambda>k.
     bindM (liftR (mk_u256 value)) (\<lambda>v.
     seqM (mb_set_storage a k v) (copy_storage a items)))"

definition copy_account :: "address \<Rightarrow> account \<Rightarrow> (mpt_backend, py_error, unit) sem" where
  "copy_account a acc =
     (if account_is_empty acc then retM ()
      else
        bindM (mb_create_account a) (\<lambda>_.
        bindM (liftR (mk_u256 (acc_nonce acc))) (\<lambda>nonce.
        bindM (liftR (mk_u256 (acc_balance acc))) (\<lambda>balance.
        seqM (mb_set_account a \<lparr>ta_nonce = nonce, ta_balance = balance, ta_code_hash = EMPTY_CODE_HASH,
          ta_storage_root = EMPTY_TRIE_ROOT\<rparr>)
        (seqM (if acc_code acc \<noteq> [] then bindM (mb_set_code a (acc_code acc)) (\<lambda>_. retM ()) else retM ())
        (copy_storage a (storage_items False (acc_storage acc))))))))"

fun copy_accounts :: "(address \<times> account) list \<Rightarrow> (mpt_backend, py_error, unit) sem" where
  "copy_accounts [] = retM ()"
| "copy_accounts ((a, acc) # accounts) = seqM (copy_account a acc) (copy_accounts accounts)"

definition compute_state_root :: "statedb \<Rightarrow> (py_error, hash) result" where
  "compute_state_root db = fst (seqM (copy_accounts (statedb_accounts False db)) mb_commit new_mpt_backend)"

end
