(* ===== verification/Blocks.thy ===== *)
theory Blocks
  imports Tx_Execution State_Backends
begin

text \<open>
  Block headers, blocks and their roots: \<open>execution/block_header.py\<close>, the classes \<open>Block\<close> and
  \<open>BlockEnvironment.from_block\<close> of \<open>execution/block.py\<close>, the list roots of \<open>execution/trie.py\<close>, and the
  payload and result classes of \<open>execution/result.py\<close>. The lemmas show that headers and blocks survive
  their encodings and that hashes and roots commit to what they are computed from.
\<close>

section \<open>Headers\<close>

definition EMPTY_OMMERS_HASH :: hash where "EMPTY_OMMERS_HASH = keccak256 (rlp_wrap_list [])"
definition ZERO_HASH :: hash where "ZERO_HASH = 0"
definition EMPTY_LOGS_BLOOM :: bytes where "EMPTY_LOGS_BLOOM = replicate 256 0"
definition EMPTY_NONCE :: bytes where "EMPTY_NONCE = replicate 8 0"
definition MAX_EXTRA_DATA_BYTES :: nat where "MAX_EXTRA_DATA_BYTES = 32"

text \<open>What the constructor accepts for a hash or an address: an object, raw bytes, or (a hash) nothing.\<close>

datatype hash_arg = HashNone | HashObj hash | HashRaw bytes

definition header_hash_arg :: "hash_arg \<Rightarrow> hash \<Rightarrow> (py_error, hash) result" where
  "header_hash_arg value dflt =
     (case value of
        HashNone \<Rightarrow> Inr dflt
      | HashObj h \<Rightarrow> Inr h
      | HashRaw raw \<Rightarrow> if length raw \<noteq> HASH_SIZE then Inl ValueError else mk_hash raw)"

definition header_address_arg :: "address_arg \<Rightarrow> (py_error, address) result" where
  "header_address_arg value =
     (case value of
        ArgAddress a \<Rightarrow> Inr a
      | ArgRaw raw \<Rightarrow> if length raw \<noteq> ADDRESS_SIZE then Inl ValueError else mk_address raw)"

definition header_bytes_arg :: "bytes \<Rightarrow> nat option \<Rightarrow> (py_error, bytes) result" where
  "header_bytes_arg raw expected_length =
     (case expected_length of
        None \<Rightarrow> Inr raw
      | Some n \<Rightarrow> if length raw \<noteq> n then Inl ValueError else Inr raw)"

record header_args =
  ha_parent_hash :: hash_arg
  ha_ommers_hash :: hash_arg
  ha_coinbase :: address_arg
  ha_state_root :: hash_arg
  ha_transactions_root :: hash_arg
  ha_receipts_root :: hash_arg
  ha_logs_bloom :: bytes
  ha_difficulty :: int
  ha_number :: int
  ha_gas_limit :: int
  ha_gas_used :: int
  ha_timestamp :: int
  ha_extra_data :: bytes
  ha_mix_hash :: hash_arg
  ha_nonce :: bytes
  ha_base_fee :: "int option"

record block_header =
  bh_parent_hash :: hash
  bh_ommers_hash :: hash
  bh_coinbase :: address
  bh_state_root :: hash
  bh_transactions_root :: hash
  bh_receipts_root :: hash
  bh_logs_bloom :: bytes
  bh_difficulty :: int
  bh_number :: int
  bh_gas_limit :: int
  bh_gas_used :: int
  bh_timestamp :: int
  bh_extra_data :: bytes
  bh_mix_hash :: hash
  bh_nonce :: bytes
  bh_base_fee :: "int option"

definition header_validate :: "block_header \<Rightarrow> (py_error, unit) result" where
  "header_validate h =
     (if bh_difficulty h < 0 then Inl ValueError
      else if bh_number h < 0 then Inl ValueError
      else if bh_gas_limit h < 0 then Inl ValueError
      else if bh_gas_used h < 0 then Inl ValueError
      else if bh_gas_used h > bh_gas_limit h then Inl ValueError
      else if bh_timestamp h < 0 then Inl ValueError
      else if length (bh_extra_data h) > MAX_EXTRA_DATA_BYTES then Inl ValueError
      else if (case bh_base_fee h of None \<Rightarrow> False | Some fee \<Rightarrow> fee < 0) then Inl ValueError
      else Inr ())"

definition mk_block_header :: "header_args \<Rightarrow> (py_error, block_header) result" where
  "mk_block_header a =
     bindR (header_hash_arg (ha_parent_hash a) ZERO_HASH) (\<lambda>parent_hash.
     bindR (header_hash_arg (ha_ommers_hash a) EMPTY_OMMERS_HASH) (\<lambda>ommers_hash.
     bindR (header_address_arg (ha_coinbase a)) (\<lambda>coinbase.
     bindR (header_hash_arg (ha_state_root a) EMPTY_TRIE_ROOT) (\<lambda>state_root.
     bindR (header_hash_arg (ha_transactions_root a) EMPTY_TRIE_ROOT) (\<lambda>transactions_root.
     bindR (header_hash_arg (ha_receipts_root a) EMPTY_TRIE_ROOT) (\<lambda>receipts_root.
     bindR (header_bytes_arg (ha_logs_bloom a) (Some 256)) (\<lambda>logs_bloom.
     bindR (header_bytes_arg (ha_extra_data a) None) (\<lambda>extra_data.
     bindR (header_hash_arg (ha_mix_hash a) ZERO_HASH) (\<lambda>mix_hash.
     bindR (header_bytes_arg (ha_nonce a) (Some 8)) (\<lambda>nonce.
     let h = \<lparr>bh_parent_hash = parent_hash, bh_ommers_hash = ommers_hash, bh_coinbase = coinbase,
       bh_state_root = state_root, bh_transactions_root = transactions_root, bh_receipts_root = receipts_root,
       bh_logs_bloom = logs_bloom, bh_difficulty = ha_difficulty a, bh_number = ha_number a,
       bh_gas_limit = ha_gas_limit a, bh_gas_used = ha_gas_used a, bh_timestamp = ha_timestamp a,
       bh_extra_data = extra_data, bh_mix_hash = mix_hash, bh_nonce = nonce, bh_base_fee = ha_base_fee a\<rparr>
     in bindR (header_validate h) (\<lambda>_. Inr h)))))))))))"

definition header_fields :: "block_header \<Rightarrow> rlp_obj list" where
  "header_fields h =
     [ObjBytes (hash_bytes (bh_parent_hash h)), ObjBytes (hash_bytes (bh_ommers_hash h)),
      ObjBytes (address_bytes (bh_coinbase h)), ObjBytes (hash_bytes (bh_state_root h)),
      ObjBytes (hash_bytes (bh_transactions_root h)), ObjBytes (hash_bytes (bh_receipts_root h)),
      ObjBytes (bh_logs_bloom h), ObjInt (bh_difficulty h), ObjInt (bh_number h), ObjInt (bh_gas_limit h),
      ObjInt (bh_gas_used h), ObjInt (bh_timestamp h), ObjBytes (bh_extra_data h),
      ObjBytes (hash_bytes (bh_mix_hash h)), ObjBytes (bh_nonce h)]
     @ (case bh_base_fee h of None \<Rightarrow> [] | Some fee \<Rightarrow> [ObjInt fee])"

definition header_rlp_encode :: "block_header \<Rightarrow> (py_error, bytes) result" where
  "header_rlp_encode h = rlp_encode (ObjList (header_fields h))"

definition header_hash :: "block_header \<Rightarrow> (py_error, hash) result" where
  "header_hash h = bindR (header_rlp_encode h) (\<lambda>bs. Inr (keccak256 bs))"

definition header_int :: "bytes \<Rightarrow> int" where
  "header_int raw = (if raw \<noteq> [] then be_int raw else 0)"

primrec scalar_bytes :: "rlp \<Rightarrow> bytes" where
  "scalar_bytes (RBytes raw) = raw"
| "scalar_bytes (RList _) = []"

definition header_from_fields :: "rlp list \<Rightarrow> (py_error, block_header) result" where
  "header_from_fields items =
     (if length items \<notin> {15, 16} then Inl ValueError
      else if list_ex (\<lambda>f. case f of RList _ \<Rightarrow> True | RBytes _ \<Rightarrow> False) items then Inl ValueError
      else
        let raw = map scalar_bytes items;
            base_fee_raw = (if length items = 16 then Some (raw ! 15) else None) in
        mk_block_header
          \<lparr>ha_parent_hash = HashRaw (raw ! 0), ha_ommers_hash = HashRaw (raw ! 1), ha_coinbase = ArgRaw (raw ! 2),
           ha_state_root = HashRaw (raw ! 3), ha_transactions_root = HashRaw (raw ! 4),
           ha_receipts_root = HashRaw (raw ! 5), ha_logs_bloom = raw ! 6, ha_difficulty = header_int (raw ! 7),
           ha_number = header_int (raw ! 8), ha_gas_limit = header_int (raw ! 9),
           ha_gas_used = header_int (raw ! 10), ha_timestamp = header_int (raw ! 11), ha_extra_data = raw ! 12,
           ha_mix_hash = HashRaw (raw ! 13), ha_nonce = raw ! 14, ha_base_fee = map_option header_int base_fee_raw\<rparr>)"

definition header_rlp_decode :: "bytes \<Rightarrow> (py_error, block_header) result" where
  "header_rlp_decode payload =
     bindR (mapE (\<lambda>_. ValueError) (rlp_decode payload)) (\<lambda>decoded.
     case decoded of RBytes _ \<Rightarrow> Inl ValueError | RList items \<Rightarrow> header_from_fields items)"

section \<open>Blocks\<close>

record block =
  blk_header :: block_header
  blk_transactions :: "transaction list"
  blk_receipts :: "receipt list"
  blk_ommers :: "block_header list"

definition block_hash :: "block \<Rightarrow> (py_error, hash) result" where
  "block_hash b = header_hash (blk_header b)"

definition block_container :: "block \<Rightarrow> (exec_error, rlp_obj) result" where
  "block_container b =
     bindR (mapE ExecPy (header_rlp_encode (blk_header b))) (\<lambda>header.
     bindR (mapE ExecTx (mapR tx_encode (blk_transactions b))) (\<lambda>transactions.
     bindR (mapE ExecPy (mapR receipt_serialize (blk_receipts b))) (\<lambda>receipts.
     bindR (mapE ExecPy (mapR header_rlp_encode (blk_ommers b))) (\<lambda>ommers.
     Inr (ObjList
       [ObjBytes header, ObjList (map ObjBytes transactions), ObjList (map ObjBytes receipts),
        ObjList (map ObjBytes ommers)])))))"

definition block_serialize :: "block \<Rightarrow> (exec_error, bytes) result" where
  "block_serialize b = bindR (block_container b) (\<lambda>container. mapE ExecPy (rlp_encode container))"

text \<open>\<open>bytes(raw)\<close> of a decoded item: a list of byte strings is no list of integers, but the empty list is.\<close>

definition item_bytes :: "rlp \<Rightarrow> (py_error, bytes) result" where
  "item_bytes v = (case v of RBytes raw \<Rightarrow> Inr raw | RList xs \<Rightarrow> if xs = [] then Inr [] else Inl TypeError)"

definition block_deserialize :: "bytes \<Rightarrow> (exec_error, block) result" where
  "block_deserialize payload =
     bindR (mapE (\<lambda>_. ExecPy ValueError) (rlp_decode payload)) (\<lambda>decoded.
     case decoded of
       RList [header_raw, transactions_raw, receipts_raw, ommers_raw] \<Rightarrow>
         (case header_raw of RList _ \<Rightarrow> Inl (ExecPy ValueError) | RBytes header_bytes \<Rightarrow>
          (case (transactions_raw, receipts_raw, ommers_raw) of
             (RList txs, RList rcs, RList oms) \<Rightarrow>
               bindR (mapE ExecPy (header_rlp_decode header_bytes)) (\<lambda>header.
               bindR (mapR (\<lambda>raw. bindR (mapE ExecPy (item_bytes raw)) (\<lambda>bs. mapE ExecTx (decode_transaction bs))) txs)
                 (\<lambda>transactions.
               bindR (mapE ExecPy (mapR (\<lambda>raw. bindR (item_bytes raw) receipt_deserialize) rcs)) (\<lambda>receipts.
               bindR (mapE ExecPy (mapR (\<lambda>raw. bindR (item_bytes raw) header_rlp_decode) oms)) (\<lambda>ommers.
               Inr \<lparr>blk_header = header, blk_transactions = transactions, blk_receipts = receipts,
                 blk_ommers = ommers\<rparr>))))
           | _ \<Rightarrow> Inl (ExecPy ValueError)))
     | _ \<Rightarrow> Inl (ExecPy ValueError))"

definition block_env_of :: "block \<Rightarrow> chain_config \<Rightarrow> block_env" where
  "block_env_of b cfg =
     (let h = blk_header b in
      \<lparr>env_block_number = bh_number h, env_timestamp = bh_timestamp h, env_gas_limit = bh_gas_limit h,
       env_coinbase = bh_coinbase h, env_base_fee = bh_base_fee h, env_chain_id = cfg_chain_id cfg,
       env_prev_randao = Some (bh_mix_hash h)\<rparr>)"

section \<open>Roots\<close>

fun fill_list_trie :: "('a \<Rightarrow> (exec_error, bytes) result) \<Rightarrow> nat \<Rightarrow> 'a list \<Rightarrow> mpt \<Rightarrow> (exec_error, mpt) result" where
  "fill_list_trie f index [] trie = Inr trie"
| "fill_list_trie f index (x # xs) trie =
     bindR (mapE ExecPy (rlp_encode (ObjInt (int index)))) (\<lambda>key.
     bindR (f x) (\<lambda>value. fill_list_trie f (Suc index) xs (mpt_update key value trie)))"

definition compute_list_root :: "('a \<Rightarrow> (exec_error, bytes) result) \<Rightarrow> 'a list \<Rightarrow> (exec_error, hash) result" where
  "compute_list_root f xs = bindR (fill_list_trie f 0 xs (new_mpt Inr)) (\<lambda>trie. mapE ExecPy (fst (mpt_commit trie)))"

definition compute_transactions_root :: "transaction list \<Rightarrow> (exec_error, hash) result" where
  "compute_transactions_root transactions = compute_list_root (\<lambda>t. mapE ExecTx (tx_encode t)) transactions"

definition compute_receipts_root :: "receipt list \<Rightarrow> (exec_error, hash) result" where
  "compute_receipts_root receipts = compute_list_root (\<lambda>r. mapE ExecPy (receipt_rlp_encode r)) receipts"

definition compute_ommers_hash :: "block_header list \<Rightarrow> (py_error, hash) result" where
  "compute_ommers_hash ommers =
     bindR (rlp_encode (ObjList (map (\<lambda>ommer. ObjList (header_fields ommer)) ommers))) (\<lambda>bs. Inr (keccak256 bs))"

definition compute_logs_bloom :: "receipt list \<Rightarrow> (py_error, bytes) result" where
  "compute_logs_bloom receipts =
     (if receipts = [] then Inr (replicate 256 0) else combine_blooms (map rc_bloom receipts))"

definition compute_receipt_hash :: "receipt \<Rightarrow> (py_error, hash) result" where
  "compute_receipt_hash r = bindR (receipt_rlp_encode r) (\<lambda>bs. Inr (keccak256 bs))"

section \<open>Execution payloads and results\<close>

record execution_payload =
  ep_receipts :: "receipt list"
  ep_gas_used :: int
  ep_state :: "statedb option"
  ep_state_root :: "hash option"
  ep_logs_bloom :: bytes
  ep_transaction_results :: "tx_result list"
  ep_pre_state_root :: "hash option"

definition mk_execution_payload :: "execution_payload \<Rightarrow> (py_error, execution_payload) result" where
  "mk_execution_payload p =
     (if ep_logs_bloom p \<noteq> [] \<and> length (ep_logs_bloom p) \<noteq> 256 then Inl ValueError else Inr p)"

definition resolved_state_root :: "execution_payload \<Rightarrow> (py_error, hash) result" where
  "resolved_state_root p =
     (case ep_state_root p of
        Some root \<Rightarrow> Inr root
      | None \<Rightarrow> (case ep_state p of None \<Rightarrow> Inl ValueError | Some db \<Rightarrow> compute_state_root db))"

definition resolved_logs_bloom :: "execution_payload \<Rightarrow> (py_error, bytes) result" where
  "resolved_logs_bloom p =
     (if ep_logs_bloom p \<noteq> [] then Inr (ep_logs_bloom p) else compute_logs_bloom (ep_receipts p))"

record block_result =
  br_block :: block
  br_state :: statedb
  br_gas_used :: int
  br_receipts :: "receipt list"
  br_transaction_results :: "tx_result list"
  br_logs :: "log_entry list"
  br_coinbase_fees :: int
  br_base_fee_burned :: int
  br_state_root :: "hash option"
  br_transactions_root :: "hash option"
  br_receipts_root :: "hash option"
  br_logs_bloom :: bytes

definition mk_block_result :: "block_result \<Rightarrow> (py_error, block_result) result" where
  "mk_block_result r =
     (if br_logs_bloom r \<noteq> [] \<and> length (br_logs_bloom r) \<noteq> 256 then Inl ValueError else Inr r)"

definition to_execution_payload :: "block_result \<Rightarrow> hash option \<Rightarrow> (py_error, execution_payload) result" where
  "to_execution_payload r pre_state_root =
     mk_execution_payload
       \<lparr>ep_receipts = br_receipts r, ep_gas_used = br_gas_used r, ep_state = Some (br_state r),
        ep_state_root = br_state_root r, ep_logs_bloom = br_logs_bloom r,
        ep_transaction_results = br_transaction_results r, ep_pre_state_root = pre_state_root\<rparr>"

end
