(* ===== verification/Block_Execution.thy ===== *)
theory Block_Execution
  imports Blocks
begin

text \<open>
  Validation, execution and building of blocks: \<open>execution/block_validator.py\<close>,
  \<open>execution/block_validation.py\<close>, \<open>execution/block_executor.py\<close> and \<open>execution/block_builder.py\<close>.
  A method that may raise returns a sum; the working copy of the state that \<open>apply_block\<close> changes is its
  own, so the state it was given is an argument and never a result.
\<close>

section \<open>Block validator\<close>

datatype parent_ref = ParentBlock block | ParentHeader block_header

definition parent_header_of :: "parent_ref option \<Rightarrow> block_header option" where
  "parent_header_of parent =
     (case parent of None \<Rightarrow> None | Some (ParentBlock b) \<Rightarrow> Some (blk_header b) | Some (ParentHeader h) \<Rightarrow> Some h)"

definition validate_header :: "chain_config \<Rightarrow> block_header \<Rightarrow> (exec_error, unit) result" where
  "validate_header cfg h =
     bindR (mapE (\<lambda>_. BlockValidationError) (header_validate h)) (\<lambda>_.
       guardR (int (length (bh_extra_data h)) \<le> cfg_max_extra_data_bytes cfg) BlockValidationError)"

definition validate_roots :: "block \<Rightarrow> execution_payload option \<Rightarrow> (exec_error, unit) result" where
  "validate_roots b payload =
     (let h = blk_header b in
      bindR (compute_transactions_root (blk_transactions b)) (\<lambda>transactions_root.
      bindR (guardR (bh_transactions_root h = transactions_root) BlockValidationError) (\<lambda>_.
      bindR (compute_receipts_root (blk_receipts b)) (\<lambda>receipts_root.
      bindR (guardR (bh_receipts_root h = receipts_root) BlockValidationError) (\<lambda>_.
      bindR (mapE ExecPy (compute_logs_bloom (blk_receipts b))) (\<lambda>logs_bloom.
      bindR (guardR (bh_logs_bloom h = logs_bloom) BlockValidationError) (\<lambda>_.
      bindR (mapE ExecPy (compute_ommers_hash (blk_ommers b))) (\<lambda>ommers_hash.
      bindR (guardR (bh_ommers_hash h = ommers_hash) BlockValidationError) (\<lambda>_.
      case payload of
        None \<Rightarrow> Inr ()
      | Some p \<Rightarrow>
          bindR (mapE ExecPy (resolved_state_root p)) (\<lambda>root.
          guardR (bh_state_root h = root) BlockValidationError))))))))))"

fun check_cumulative :: "receipt list \<Rightarrow> int \<Rightarrow> (exec_error, int) result" where
  "check_cumulative [] cumulative = Inr cumulative"
| "check_cumulative (r # rs) cumulative =
     (if rc_cumulative_gas_used r \<noteq> cumulative + rc_gas_used r then Inl BlockValidationError
      else check_cumulative rs (cumulative + rc_gas_used r))"

definition validate_gas :: "block \<Rightarrow> execution_payload option \<Rightarrow> (exec_error, unit) result" where
  "validate_gas b payload =
     (let h = blk_header b in
      if bh_gas_used h > bh_gas_limit h then Inl BlockValidationError
      else if (case payload of None \<Rightarrow> False | Some p \<Rightarrow> bh_gas_used h \<noteq> ep_gas_used p) then Inl BlockValidationError
      else if blk_receipts b = [] then guardR (bh_gas_used h = 0) BlockValidationError
      else if length (blk_receipts b) \<noteq> length (blk_transactions b) then Inl BlockValidationError
      else bindR (check_cumulative (blk_receipts b) 0) (\<lambda>cumulative.
        guardR (cumulative = bh_gas_used h) BlockValidationError))"

definition validate_against_parent ::
  "chain_config \<Rightarrow> block \<Rightarrow> parent_ref option \<Rightarrow> (exec_error, unit) result" where
  "validate_against_parent cfg b parent =
     (case parent_header_of parent of
        None \<Rightarrow> Inr ()
      | Some ph \<Rightarrow>
          let h = blk_header b in
          bindR (mapE ExecPy (header_hash ph)) (\<lambda>parent_hash.
          if bh_parent_hash h \<noteq> parent_hash then Inl BlockValidationError
          else if bh_number h \<noteq> bh_number ph + 1 then Inl BlockValidationError
          else if bh_timestamp h < bh_timestamp ph then Inl BlockValidationError
          else
            let gas_limit_delta = \<bar>bh_gas_limit h - bh_gas_limit ph\<bar>;
                max_delta = max (bh_gas_limit ph div cfg_gas_limit_bound_divisor cfg) 1 in
            guardR (gas_limit_delta \<le> max_delta) BlockValidationError))"

text \<open>The base fee a block on the given parent must have; the builder computes the same.\<close>

definition expected_base_fee :: "chain_config \<Rightarrow> block_header option \<Rightarrow> (exec_error, int) result" where
  "expected_base_fee cfg parent =
     (case parent of
        None \<Rightarrow> Inr (cfg_initial_base_fee_per_gas cfg)
      | Some ph \<Rightarrow>
          let parent_base_fee = (case bh_base_fee ph of None \<Rightarrow> cfg_initial_base_fee_per_gas cfg | Some fee \<Rightarrow> fee) in
          mapE ExecPy (bindR (compute_gas_target (bh_gas_limit ph) (cfg_elasticity_multiplier cfg)) (\<lambda>gas_target.
            compute_next_base_fee parent_base_fee (bh_gas_used ph) gas_target (cfg_base_fee_max_change_denominator cfg))))"

definition validate_base_fee :: "chain_config \<Rightarrow> block \<Rightarrow> parent_ref option \<Rightarrow> (exec_error, unit) result" where
  "validate_base_fee cfg b parent =
     (let fee = bh_base_fee (blk_header b) in
      if cfg_fee_model cfg = LEGACY then guardR (fee = None) BlockValidationError
      else
        case fee of
          None \<Rightarrow> Inl BlockValidationError
        | Some base_fee \<Rightarrow>
            bindR (expected_base_fee cfg (parent_header_of parent)) (\<lambda>expected.
            guardR (base_fee = expected) BlockValidationError))"

definition validate_block_structure ::
  "chain_config \<Rightarrow> block \<Rightarrow> parent_ref option \<Rightarrow> execution_payload option \<Rightarrow> (exec_error, unit) result" where
  "validate_block_structure cfg b parent payload =
     bindR (validate_header cfg (blk_header b)) (\<lambda>_.
     bindR (validate_against_parent cfg b parent) (\<lambda>_.
     bindR (validate_base_fee cfg b parent) (\<lambda>_.
     bindR (validate_gas b payload) (\<lambda>_.
     validate_roots b payload))))"

definition validate_block_for_execution ::
  "block \<Rightarrow> block_header option \<Rightarrow> chain_config \<Rightarrow> (exec_error, unit) result" where
  "validate_block_for_execution b parent cfg =
     (let p = map_option ParentHeader parent in
      bindR (validate_header cfg (blk_header b)) (\<lambda>_.
      bindR (validate_against_parent cfg b p) (\<lambda>_.
      bindR (validate_base_fee cfg b p) (\<lambda>_.
      guardR (\<not> list_ex (\<lambda>t. uint (tx_gas_limit t) > bh_gas_limit (blk_header b)) (blk_transactions b))
        BlockValidationError))))"

section \<open>Block executor\<close>

text \<open>The variables of the loop over the transactions.\<close>

record block_acc =
  ac_cumulative_gas_used :: int
  ac_receipts :: "receipt list"
  ac_tx_results :: "tx_result list"
  ac_logs :: "log_entry list"
  ac_coinbase_fees :: int
  ac_base_fee_burned :: int

definition empty_acc :: block_acc where
  "empty_acc = \<lparr>ac_cumulative_gas_used = 0, ac_receipts = [], ac_tx_results = [], ac_logs = [],
     ac_coinbase_fees = 0, ac_base_fee_burned = 0\<rparr>"

fun block_loop ::
  "hashlib \<Rightarrow> nat \<Rightarrow> int \<Rightarrow> block_env \<Rightarrow> chain_config \<Rightarrow> zk_registry option \<Rightarrow> transaction list \<Rightarrow> block_acc
   \<Rightarrow> (statedb, exec_error, block_acc) sem" where
  "block_loop hl n gas_limit env cfg registry [] acc = retM acc"
| "block_loop hl n gas_limit env cfg registry (t # ts) acc =
     (let remaining_block_gas = gas_limit - ac_cumulative_gas_used acc in
      if uint (tx_gas_limit t) > remaining_block_gas then raiseM BlockGasExceededError
      else
        bindM (\<lambda>db. apply_transaction hl n db t env cfg registry (ac_cumulative_gas_used acc)) (\<lambda>res.
        let cumulative = ac_cumulative_gas_used acc + tr_gas_used res in
        if cumulative > gas_limit then raiseM BlockGasExceededError
        else block_loop hl n gas_limit env cfg registry ts
          \<lparr>ac_cumulative_gas_used = cumulative, ac_receipts = ac_receipts acc @ [tr_receipt res],
           ac_tx_results = ac_tx_results acc @ [res], ac_logs = ac_logs acc @ tr_logs res,
           ac_coinbase_fees = ac_coinbase_fees acc + tr_coinbase_fee res,
           ac_base_fee_burned = ac_base_fee_burned acc + tr_base_fee_burned res\<rparr>))"

definition conclude_block :: "block \<Rightarrow> block_acc \<Rightarrow> statedb \<Rightarrow> (exec_error, block_result) result" where
  "conclude_block b acc db =
     bindR (mapE ExecPy (compute_state_root db)) (\<lambda>state_root.
     bindR (compute_transactions_root (blk_transactions b)) (\<lambda>transactions_root.
     bindR (compute_receipts_root (ac_receipts acc)) (\<lambda>receipts_root.
     bindR (mapE ExecPy (compute_logs_bloom (ac_receipts acc))) (\<lambda>logs_bloom.
     mapE ExecPy (mk_block_result
       \<lparr>br_block = b, br_state = db, br_gas_used = ac_cumulative_gas_used acc, br_receipts = ac_receipts acc,
        br_transaction_results = ac_tx_results acc, br_logs = ac_logs acc, br_coinbase_fees = ac_coinbase_fees acc,
        br_base_fee_burned = ac_base_fee_burned acc, br_state_root = Some state_root,
        br_transactions_root = Some transactions_root, br_receipts_root = Some receipts_root,
        br_logs_bloom = logs_bloom\<rparr>)))))"

text \<open>
  The journal is committed before the roots are computed, so an exception they raise meets a \<open>revert\<close>
  of a checkpoint that is gone and is replaced by its \<open>ValueError\<close>.
\<close>

definition revert_block :: "int \<Rightarrow> journal \<Rightarrow> exec_error \<Rightarrow> exec_error" where
  "revert_block checkpoint j e = (case journal_revert checkpoint j of Inr _ \<Rightarrow> e | Inl e' \<Rightarrow> ExecPy e')"

definition apply_block ::
  "hashlib \<Rightarrow> nat \<Rightarrow> statedb \<Rightarrow> block \<Rightarrow> chain_config \<Rightarrow> block_header option \<Rightarrow> zk_registry option
   \<Rightarrow> (exec_error, block_result) result" where
  "apply_block hl n old_state b cfg parent registry =
     bindR (validate_block_for_execution b parent cfg) (\<lambda>_.
       let working_state = statedb_clone old_state;
           (checkpoint, j) = journal_checkpoint \<lparr>j_state = working_state, j_snapshots = []\<rparr>;
           (out, db) = block_loop hl n (bh_gas_limit (blk_header b)) (block_env_of b cfg) cfg registry
             (blk_transactions b) empty_acc (j_state j);
           j1 = j\<lparr>j_state := db\<rparr> in
       case out of
         Inl e \<Rightarrow> Inl (revert_block checkpoint j1 e)
       | Inr acc \<Rightarrow>
           (case journal_commit checkpoint j1 of
              Inl e \<Rightarrow> Inl (revert_block checkpoint j1 (ExecPy e))
            | Inr j2 \<Rightarrow>
                (case conclude_block b acc (j_state j2) of
                   Inl e \<Rightarrow> Inl (revert_block checkpoint j2 e)
                 | Inr result \<Rightarrow> Inr result)))"

section \<open>Block builder\<close>

datatype execution_outcome = OutcomePayload execution_payload | OutcomeResult block_result

definition normalize_execution_payload :: "execution_outcome \<Rightarrow> (py_error, execution_payload) result" where
  "normalize_execution_payload outcome =
     (case outcome of OutcomePayload p \<Rightarrow> Inr p | OutcomeResult r \<Rightarrow> to_execution_payload r None)"

definition build_block ::
  "chain_config \<Rightarrow> parent_ref option \<Rightarrow> transaction list \<Rightarrow> execution_outcome \<Rightarrow> int \<Rightarrow> int \<Rightarrow> address
   \<Rightarrow> bytes \<Rightarrow> block_header list \<Rightarrow> int \<Rightarrow> hash option \<Rightarrow> bytes \<Rightarrow> (exec_error, block) result" where
  "build_block cfg parent transactions outcome timestamp gas_limit beneficiary extra_data ommers difficulty mix_hash nonce =
     bindR (mapE ExecPy (normalize_execution_payload outcome)) (\<lambda>payload.
     let receipts = ep_receipts payload; ph = parent_header_of parent in
     bindR (guardR (length receipts = length transactions) (ExecPy ValueError)) (\<lambda>_.
     bindR (case ph of None \<Rightarrow> Inr 0 | Some h \<Rightarrow> mapE ExecPy (header_hash h)) (\<lambda>parent_hash.
     bindR (if cfg_fee_model cfg = EIP1559 then bindR (expected_base_fee cfg ph) (\<lambda>fee. Inr (Some fee)) else Inr None)
       (\<lambda>base_fee.
     bindR (mapE ExecPy (compute_ommers_hash ommers)) (\<lambda>ommers_hash.
     bindR (mapE ExecPy (resolved_state_root payload)) (\<lambda>state_root.
     bindR (compute_transactions_root transactions) (\<lambda>transactions_root.
     bindR (compute_receipts_root receipts) (\<lambda>receipts_root.
     bindR (mapE ExecPy (bindR (resolved_logs_bloom payload) (\<lambda>bloom.
         if bloom \<noteq> [] then Inr bloom else compute_logs_bloom receipts))) (\<lambda>logs_bloom.
     bindR (mapE ExecPy (mk_block_header
       \<lparr>ha_parent_hash = HashObj parent_hash, ha_ommers_hash = HashObj ommers_hash, ha_coinbase = ArgAddress beneficiary,
        ha_state_root = HashObj state_root, ha_transactions_root = HashObj transactions_root,
        ha_receipts_root = HashObj receipts_root, ha_logs_bloom = logs_bloom, ha_difficulty = difficulty,
        ha_number = (case ph of None \<Rightarrow> 0 | Some h \<Rightarrow> bh_number h + 1), ha_gas_limit = gas_limit,
        ha_gas_used = ep_gas_used payload, ha_timestamp = timestamp, ha_extra_data = extra_data,
        ha_mix_hash = HashObj (case mix_hash of None \<Rightarrow> 0 | Some h \<Rightarrow> h), ha_nonce = nonce, ha_base_fee = base_fee\<rparr>))
       (\<lambda>header.
     let b = \<lparr>blk_header = header, blk_transactions = transactions, blk_receipts = receipts, blk_ommers = ommers\<rparr> in
     bindR (validate_block_structure cfg b parent (Some payload)) (\<lambda>_. Inr b)))))))))))"

end
