(* ===== verification/State_Agreement.thy ===== *)
theory State_Agreement
  imports State_Backends
begin

text \<open>
  The two backends of the state crate implement one interface: whatever operations are run on them,
  they give the same answers and the same roots. The relation between a hash-map record and a trie
  record is that the trie holds the serialized slots; a locale carries the simulation from single
  operations to sequences.
\<close>

section \<open>Storage tries and storage maps\<close>

definition slot_payload :: "u256 \<Rightarrow> bytes" where
  "slot_payload v = rlp_ref (RBytes (int_bytes (uint v)))"

definition slot_entry :: "u256 \<times> u256 \<Rightarrow> bytes \<times> bytes" where
  "slot_entry p = (u256_bytes32 (fst p), slot_payload (snd p))"

lemma u256_bytes32_inj: "u256_bytes32 k = u256_bytes32 k' \<longleftrightarrow> k = k'"
proof
  assume "u256_bytes32 k = u256_bytes32 k'"
  then have "be_int (be_bytes 32 (uint k)) = be_int (be_bytes 32 (uint k'))" by (simp only: u256_bytes32_def)
  moreover have "be_int (be_bytes 32 (uint w)) = uint w" for w :: u256
    using uint_lt2p[of w] by (intro be_int_be_bytes_id) simp_all
  ultimately show "k = k'" by (simp add: word_uint_eq_iff)
qed simp

lemma u256_bytes32_length [simp]: "length (u256_bytes32 k) = 32"
  by (simp add: u256_bytes32_def)

lemma serialize_storage_value_word: "serialize_storage_value (OpU256 v) = Inr (slot_payload v)"
  using rlp_encode_image[of "ObjInt (uint v)"]
  by (simp add: serialize_storage_value_def state_coerce_u256_def slot_payload_def del: rlp_encode.simps)

lemma int_bytes_word_length: "length (int_bytes (uint (v :: u256))) \<le> 32"
  using uint_lt2p[of v] by (simp add: byte_length_le)

lemma slot_payload_length: "slot_payload v \<noteq> []" "length (slot_payload v) \<le> 33"
proof -
  show "slot_payload v \<noteq> []" by (simp only: slot_payload_def rlp_ref_nonempty not_False_eq_True)
  have "length (int_bytes (uint v)) \<le> 55" using int_bytes_word_length[of v] by simp
  then show "length (slot_payload v) \<le> 33"
    using int_bytes_word_length[of v] by (auto simp: slot_payload_def rlp_encode_bytes_def Let_def)
qed

lemma deserialize_slot_payload:
  assumes "v \<noteq> 0"
  shows "deserialize_storage_value (slot_payload v) = Inr v"
proof -
  have pos: "0 < uint v" using assms by (metis uint_0_iff uint_ge_0 order_le_less)
  have "rlp_decode (slot_payload v) = Inr (RBytes (int_bytes (uint v)))"
    using rlp_decode_ref[of "RBytes (int_bytes (uint v))"] int_bytes_word_length[of v] by (simp add: slot_payload_def)
  moreover have "int_bytes (uint v) \<noteq> []" using pos by simp
  moreover have "be_int (int_bytes (uint v)) = uint v" by (rule be_int_int_bytes) simp
  ultimately show ?thesis using hd_be_bytes_minimal[OF pos] by (simp add: deserialize_storage_value_def)
qed

definition trie_slots :: "mpt \<Rightarrow> storage_map \<Rightarrow> bool" where
  "trie_slots t slots \<longleftrightarrow> mpt_key_transform t = storage_trie_key \<and> mpt_entries t = map slot_entry slots
     \<and> dict_wf slots \<and> (\<forall>v \<in> snd ` set slots. v \<noteq> 0)"

lemma map_slot_get: "dict_get (map slot_entry slots) (u256_bytes32 k) = map_option slot_payload (dict_get slots k)"
  by (induction slots) (auto simp: slot_entry_def u256_bytes32_inj)

lemma map_slot_put: "dict_put (u256_bytes32 k) (slot_payload v) (map slot_entry slots) = map slot_entry (dict_put k v slots)"
  by (induction slots) (auto simp: slot_entry_def u256_bytes32_inj)

lemma map_slot_pop: "dict_pop (u256_bytes32 k) (map slot_entry slots) = map slot_entry (dict_pop k slots)"
  by (induction slots) (auto simp: slot_entry_def u256_bytes32_inj AList.delete_eq)

lemma map_slot_wf: "dict_wf (map slot_entry slots) \<longleftrightarrow> dict_wf slots"
proof -
  have "map fst (map slot_entry slots) = map u256_bytes32 (map fst slots)" by (simp add: slot_entry_def comp_def)
  then show ?thesis by (simp only: distinct_map[of u256_bytes32]) (simp add: inj_on_def u256_bytes32_inj)
qed

lemma trie_slots_new: "trie_slots (new_mpt storage_trie_key) []"
  by (simp add: trie_slots_def new_mpt_def)

lemma trie_slots_set:
  assumes "trie_slots t slots"
  shows "trie_slots (if v = 0 then mpt_delete (u256_bytes32 k) t else mpt_update (u256_bytes32 k) (slot_payload v) t)
    (storage_map_set k v slots)"
proof -
  have "x \<in> set slots" if "x \<in> set (dict_pop k slots)" for x using that by (auto simp: AList.delete_eq)
  then show ?thesis
    using assms by (auto simp: trie_slots_def storage_map_set_def mpt_delete_def mpt_update_def map_slot_put map_slot_pop
        dict_set_put)
qed

lemma trie_slots_ok: "trie_slots t slots \<Longrightarrow> mpt_ok t"
proof -
  have "length (slot_payload v) < 2 ^ 32" for v by (rule le_less_trans[OF slot_payload_length(2)]) simp
  then show "trie_slots t slots \<Longrightarrow> mpt_ok t"
    using slot_payload_length(1) map_slot_wf[of slots]
    by (auto simp: trie_slots_def mpt_ok_def slot_entry_def storage_trie_key_def simp del: map_map)
qed

lemma dict_put_new: "k \<notin> fst ` set d \<Longrightarrow> dict_put k v d = d @ [(k, v)]"
  by (induction d) auto

lemma fill_storage_trie_entries:
  assumes "dict_wf slots" "fst ` set (map slot_entry slots) \<inter> fst ` set (mpt_entries t) = {}"
  shows "fill_storage_trie slots t = Inr (t\<lparr>mpt_entries := mpt_entries t @ map slot_entry slots\<rparr>)"
  using assms
proof (induction slots arbitrary: t)
  case (Cons p slots)
  obtain k v where p: "p = (k, v)" by (cases p)
  have "fill_storage_trie slots (mpt_update (u256_bytes32 k) (slot_payload v) t)
      = Inr ((mpt_update (u256_bytes32 k) (slot_payload v) t)\<lparr>mpt_entries :=
          mpt_entries (mpt_update (u256_bytes32 k) (slot_payload v) t) @ map slot_entry slots\<rparr>)"
    using Cons.prems p
    by (intro Cons.IH) (auto simp: mpt_update_def dict_put_new slot_entry_def u256_bytes32_inj image_iff)
  then show ?case
    using Cons.prems p by (simp add: serialize_storage_value_word mpt_update_def dict_put_new slot_entry_def)
qed simp

lemma storage_keys_apart:
  assumes "mpt_key_transform t = storage_trie_key" "inj_on keccak256 (u256_bytes32 ` K)"
    "fst ` set (mpt_entries t) \<subseteq> u256_bytes32 ` K" "fst ` set (mpt_entries t') \<subseteq> u256_bytes32 ` K"
  shows "keys_apart t t'"
proof -
  have "inj_on storage_trie_key (u256_bytes32 ` K)"
    using assms(2) by (auto simp: inj_on_def storage_trie_key_def dest: hash_bytes_inj)
  then show ?thesis unfolding keys_apart_def assms(1) by (rule inj_on_subset) (use assms(3,4) in auto)
qed

lemma hash_map_root:
  assumes "trie_slots t slots" "fst ` set slots \<subseteq> K" "inj_on keccak256 (u256_bytes32 ` K)"
  shows "hb_current_storage_root slots = fst (mpt_commit t)"
proof -
  let ?s = "storage_map_items slots"
  let ?u = "(new_mpt storage_trie_key)\<lparr>mpt_entries := map slot_entry ?s\<rparr>"
  have t: "mpt_key_transform t = storage_trie_key" "mpt_entries t = map slot_entry slots" "dict_wf slots"
    using assms(1) by (simp_all add: trie_slots_def)
  have set: "set ?s = set slots" by (simp add: storage_map_items_def)
  have "distinct slots" "inj_on fst (set slots)" using t(3) by (simp_all add: distinct_map)
  then have wf: "dict_wf ?s" by (simp add: storage_map_items_def distinct_map)
  then have u: "trie_slots ?u ?s" using assms(1) set by (simp add: trie_slots_def new_mpt_def)
  have fill: "fill_storage_trie ?s (new_mpt storage_trie_key) = Inr ?u"
    using fill_storage_trie_entries[OF wf, of "new_mpt storage_trie_key"] by (simp add: new_mpt_def)
  have "keys_apart t t"
    using assms(2) by (intro storage_keys_apart[OF t(1) assms(3)]) (auto simp: t(2) slot_entry_def)
  then have "mpt_path_items t = mpt_path_items ?u"
    using t set by (intro equal_entries_equal_items trie_slots_ok[OF assms(1)] trie_slots_ok[OF u]) (simp_all add: new_mpt_def)
  then show ?thesis
    using mpt_commit_root[OF trie_slots_ok[OF assms(1)]] mpt_commit_root[OF trie_slots_ok[OF u]]
    by (simp add: hb_current_storage_root_def fill)
qed

lemma mpt_commit_cong:
  "mpt_entries t = mpt_entries t' \<Longrightarrow> mpt_key_transform t = mpt_key_transform t' \<Longrightarrow> fst (mpt_commit t) = fst (mpt_commit t')"
proof -
  assume eq: "mpt_entries t = mpt_entries t'" "mpt_key_transform t = mpt_key_transform t'"
  then have "mpt_sorted (t\<lparr>mpt_node_store := []\<rparr>) = mpt_sorted (t'\<lparr>mpt_node_store := []\<rparr>)" by (simp add: mpt_sorted_def)
  then show ?thesis using eq by (simp add: mpt_commit_def Let_def split: sum.split prod.split)
qed

lemma mpt_commit_keeps:
  "mpt_entries (snd (mpt_commit t)) = mpt_entries t" "mpt_key_transform (snd (mpt_commit t)) = mpt_key_transform t"
  by (simp_all add: mpt_commit_def Let_def split: sum.split prod.split)

lemma trie_slots_commit: "trie_slots t slots \<Longrightarrow> trie_slots (snd (mpt_commit t)) slots"
  by (simp add: trie_slots_def mpt_commit_keeps)

section \<open>Related dictionaries\<close>

abbreviation rel_dict :: "('v \<Rightarrow> 'w \<Rightarrow> bool) \<Rightarrow> ('k, 'v) dict \<Rightarrow> ('k, 'w) dict \<Rightarrow> bool" where
  "rel_dict Q \<equiv> list_all2 (rel_prod (=) Q)"

lemma rel_dict_get: "rel_dict Q d e \<Longrightarrow> rel_option Q (dict_get d k) (dict_get e k)"
  by (induction rule: list_all2_induct) auto

lemma rel_dict_put: "rel_dict Q d e \<Longrightarrow> Q v w \<Longrightarrow> rel_dict Q (dict_put k v d) (dict_put k w e)"
  by (induction rule: list_all2_induct) auto

lemma rel_dict_pop: "rel_dict Q d e \<Longrightarrow> rel_dict Q (dict_pop k d) (dict_pop k e)"
  by (induction rule: list_all2_induct) (auto simp: AList.delete_eq)

lemma rel_dict_keys: "rel_dict Q d e \<Longrightarrow> map fst d = map fst e"
  by (induction rule: list_all2_induct) auto

section \<open>Sequences of operations\<close>

text \<open>The calls of the interface and their answers.\<close>

datatype backend_call =
    GetAccount address | SetAccount address trie_account | CreateAccount address | AccountExists address
  | DeleteAccount address | GetCode address | SetCode address bytes | GetStorage address u256
  | SetStorage address u256 u256 | Commit | StateRoot

datatype backend_answer =
    AnAccount "trie_account option" | ABool bool | ABytes bytes | AHash hash | AWord u256 | ADone | ARaised py_error

definition answer :: "('a \<Rightarrow> backend_answer) \<Rightarrow> (py_error + 'a) \<times> 'b \<Rightarrow> backend_answer \<times> 'b" where
  "answer f r = (case fst r of Inl e \<Rightarrow> ARaised e | Inr x \<Rightarrow> f x, snd r)"

fun run_call :: "'b state_backend \<Rightarrow> backend_call \<Rightarrow> 'b \<Rightarrow> backend_answer \<times> 'b" where
  "run_call ops (GetAccount a) b = answer AnAccount (sb_get_account ops a b)"
| "run_call ops (SetAccount a acc) b = answer (\<lambda>_. ADone) (sb_set_account ops a acc b)"
| "run_call ops (CreateAccount a) b = answer (\<lambda>acc. AnAccount (Some acc)) (sb_create_account ops a b)"
| "run_call ops (AccountExists a) b = (ABool (sb_account_exists ops a b), b)"
| "run_call ops (DeleteAccount a) b = (ADone, sb_delete_account ops a b)"
| "run_call ops (GetCode a) b = (ABytes (sb_get_code ops a b), b)"
| "run_call ops (SetCode a c) b = answer AHash (sb_set_code ops a c b)"
| "run_call ops (GetStorage a k) b = answer AWord (sb_get_storage ops a k b)"
| "run_call ops (SetStorage a k v) b = answer (\<lambda>_. ADone) (sb_set_storage ops a k v b)"
| "run_call ops Commit b = answer AHash (sb_commit ops b)"
| "run_call ops StateRoot b = (AHash (sb_state_root ops b), b)"

fun run_calls :: "'b state_backend \<Rightarrow> backend_call list \<Rightarrow> 'b \<Rightarrow> backend_answer list \<times> 'b" where
  "run_calls ops [] b = ([], b)"
| "run_calls ops (c # cs) b =
     (let (x, b') = run_call ops c b; (xs, b'') = run_calls ops cs b' in (x # xs, b''))"

text \<open>A simulation between two implementations carries over from calls to sequences of calls.\<close>

locale backend_simulation =
  fixes ops1 :: "'b state_backend" and ops2 :: "'c state_backend"
    and related :: "'b \<Rightarrow> 'c \<Rightarrow> bool" and allowed :: "backend_call \<Rightarrow> bool"
  assumes call_agrees: "related b c \<Longrightarrow> allowed x \<Longrightarrow> fst (run_call ops1 x b) = fst (run_call ops2 x c)"
    and call_related: "related b c \<Longrightarrow> allowed x \<Longrightarrow> related (snd (run_call ops1 x b)) (snd (run_call ops2 x c))"
begin

lemma calls_agree:
  assumes "related b c" "\<forall>x \<in> set xs. allowed x"
  shows "fst (run_calls ops1 xs b) = fst (run_calls ops2 xs c) \<and> related (snd (run_calls ops1 xs b)) (snd (run_calls ops2 xs c))"
  using assms
proof (induction xs arbitrary: b c)
  case (Cons x xs)
  have x: "allowed x" using Cons.prems by simp
  have "related (snd (run_call ops1 x b)) (snd (run_call ops2 x c))" by (rule call_related[OF Cons.prems(1) x])
  from Cons.IH[OF this] Cons.prems(2) call_agrees[OF Cons.prems(1) x]
  show ?case by (simp add: Let_def case_prod_beta)
qed simp

end

section \<open>The simulation between the two backends\<close>

text \<open>\<open>K\<close> holds the slots in use; the hash function has no collision on their keys.\<close>

definition record_agrees :: "u256 set \<Rightarrow> hash_record \<Rightarrow> mpt_record \<Rightarrow> bool" where
  "record_agrees K hr mr \<longleftrightarrow> hr_account hr = mr_account mr \<and> hr_code hr = mr_code mr
     \<and> trie_slots (mr_storage_trie mr) (hr_storage hr) \<and> fst ` set (hr_storage hr) \<subseteq> K"

definition backend_agrees :: "u256 set \<Rightarrow> hash_backend \<Rightarrow> mpt_backend \<Rightarrow> bool" where
  "backend_agrees K hb mb \<longleftrightarrow> inj_on keccak256 (u256_bytes32 ` K)
     \<and> rel_dict (record_agrees K) (hb_records hb) (mb_records mb)
     \<and> hb_code_store hb = mb_code_store mb \<and> hb_state_root hb = mb_state_root mb
     \<and> mpt_key_transform (mb_account_trie mb) = address_trie_key"

definition slots_in :: "u256 set \<Rightarrow> backend_call \<Rightarrow> bool" where
  "slots_in K c \<longleftrightarrow> (case c of SetStorage a k v \<Rightarrow> k \<in> K | _ \<Rightarrow> True)"

lemma record_agrees_new: "record_agrees K new_hash_record new_mpt_record"
  by (simp add: record_agrees_def new_hash_record_def new_mpt_record_def trie_slots_new)

lemma backend_agrees_new: "inj_on keccak256 (u256_bytes32 ` K) \<Longrightarrow> backend_agrees K new_hash_backend new_mpt_backend"
  by (simp add: backend_agrees_def new_hash_backend_def new_mpt_backend_def) (simp add: new_mpt_def)

lemma agrees_get:
  assumes "backend_agrees K hb mb"
  obtains "dict_get (hb_records hb) a = None" "dict_get (mb_records mb) a = None"
  | hr mr where "dict_get (hb_records hb) a = Some hr" "dict_get (mb_records mb) a = Some mr" "record_agrees K hr mr"
  using assms rel_dict_get[of "record_agrees K" "hb_records hb" "mb_records mb" a]
  by (cases "dict_get (hb_records hb) a"; cases "dict_get (mb_records mb) a") (auto simp: backend_agrees_def)

lemma agrees_put:
  "backend_agrees K hb mb \<Longrightarrow> record_agrees K hr mr \<Longrightarrow> backend_agrees K (hb_put a hr hb) (mb_put a mr mb)"
  by (simp add: backend_agrees_def hb_put_def mb_put_def rel_dict_put)

lemma agrees_ensure:
  assumes "backend_agrees K hb mb"
  shows "record_agrees K (fst (hb_ensure_record a hb)) (fst (mb_ensure_record a mb))"
    "backend_agrees K (snd (hb_ensure_record a hb)) (snd (mb_ensure_record a mb))"
  using assms by (cases rule: agrees_get[OF assms, of a];
      simp add: hb_ensure_record_def mb_ensure_record_def record_agrees_new agrees_put)+

text \<open>The root of a record is the same on both sides, and computing it keeps the relation.\<close>

lemma agrees_root:
  assumes "backend_agrees K hb mb" "dict_get (hb_records hb) a = Some hr"
  shows "\<exists>root mb'. hb_current_storage_root (hr_storage hr) = Inr root \<and> mb_storage_root a mb = (Inr root, mb')
    \<and> backend_agrees K hb mb' \<and> (\<exists>mr. dict_get (mb_records mb') a = Some mr \<and> record_agrees K hr mr)"
proof (cases rule: agrees_get[OF assms(1), of a])
  case 1
  then show ?thesis using assms(2) by simp
next
  case (2 hr' mr)
  then have slots: "trie_slots (mr_storage_trie mr) (hr_storage hr)" "fst ` set (hr_storage hr) \<subseteq> K"
    and agree: "record_agrees K hr mr"
    using assms(2) by (simp_all add: record_agrees_def)
  let ?mr = "mr\<lparr>mr_storage_trie := snd (mpt_commit (mr_storage_trie mr))\<rparr>"
  have root: "hb_current_storage_root (hr_storage hr) = fst (mpt_commit (mr_storage_trie mr))"
    using assms(1) by (intro hash_map_root[OF slots]) (simp add: backend_agrees_def)
  have ok: "\<exists>root. fst (mpt_commit (mr_storage_trie mr)) = Inr root" using mpt_commit_root[OF trie_slots_ok[OF slots(1)]] by simp
  have "record_agrees K hr ?mr" using agree trie_slots_commit[OF slots(1)] by (simp add: record_agrees_def)
  moreover have "hb_put a hr hb = hb" using assms(2) by (simp add: hb_put_def update_triv)
  ultimately have "backend_agrees K hb (mb_put a ?mr mb)" using agrees_put[OF assms(1)] by metis
  moreover have "dict_get (mb_records (mb_put a ?mr mb)) a = Some ?mr" by (simp add: mb_put_def dict_simps)
  ultimately show ?thesis
    using root ok 2(2) \<open>record_agrees K hr ?mr\<close>
    by (auto simp: mb_storage_root_def mpt_root_def case_prod_beta)
qed

definition same_step :: "u256 set \<Rightarrow> ('a \<times> hash_backend) \<Rightarrow> ('a \<times> mpt_backend) \<Rightarrow> bool" where
  "same_step K r s \<longleftrightarrow> fst r = fst s \<and> backend_agrees K (snd r) (snd s)"

lemma get_account_agrees:
  assumes "backend_agrees K hb mb"
  shows "same_step K (hb_get_account a hb) (mb_get_account a mb)"
proof (cases rule: agrees_get[OF assms, of a])
  case 1
  then show ?thesis using assms by (simp add: same_step_def hb_get_account_def mb_get_account_def)
next
  case (2 hr mr)
  have "hr_account hr = mr_account mr" using 2(3) by (simp add: record_agrees_def)
  then show ?thesis
    using 2 agrees_root[OF assms 2(1)]
    by (auto simp: same_step_def hb_get_account_def mb_get_account_def hb_materialize_account_def mb_materialize_account_def
        sem_simps)
qed

lemma set_account_agrees:
  assumes "backend_agrees K hb mb"
  shows "same_step K (hb_set_account a acc hb) (mb_set_account a acc mb)"
proof (cases rule: agrees_get[OF assms, of a])
  case 1
  have en: "hb_ensure_record a hb = (new_hash_record, hb_put a new_hash_record hb)"
    "mb_ensure_record a mb = (new_mpt_record, mb_put a new_mpt_record mb)"
    using 1 by (simp_all add: hb_ensure_record_def mb_ensure_record_def)
  let ?root = "EMPTY_TRIE_ROOT"
  have "record_agrees K (new_hash_record\<lparr>hr_code := code, hr_account := acc\<lparr>ta_storage_root := ?root\<rparr>\<rparr>)
      (new_mpt_record\<lparr>mr_code := code, mr_account := acc\<lparr>ta_storage_root := ?root\<rparr>\<rparr>)" for code
    using record_agrees_new[of K] by (simp add: record_agrees_def)
  from agrees_put[OF agrees_put[OF assms record_agrees_new] this] show ?thesis
    using 1 assms
    by (auto simp: same_step_def hb_set_account_def mb_set_account_def mb_storage_root_def sem_simps Let_def en
        split: sum.split)
next
  case (2 hr mr)
  obtain root mb' mr' where root: "hb_current_storage_root (hr_storage hr) = Inr root" "mb_storage_root a mb = (Inr root, mb')"
    and agree: "backend_agrees K hb mb'" and mr': "dict_get (mb_records mb') a = Some mr'" "record_agrees K hr mr'"
    using agrees_root[OF assms 2(1)] by blast
  have en: "hb_ensure_record a hb = (hr, hb)" "mb_ensure_record a mb' = (mr', mb')"
    using 2 mr' by (simp_all add: hb_ensure_record_def mb_ensure_record_def)
  have same: "ta_code_hash (hr_account hr) = ta_code_hash (mr_account mr)" "hr_code hr = mr_code mr"
    using 2(3) by (simp_all add: record_agrees_def)
  have "record_agrees K (hr\<lparr>hr_code := code, hr_account := acc\<lparr>ta_storage_root := root\<rparr>\<rparr>)
      (mr'\<lparr>mr_code := code, mr_account := acc\<lparr>ta_storage_root := root\<rparr>\<rparr>)" for code
    using mr'(2) by (simp add: record_agrees_def)
  from agrees_put[OF agree this] show ?thesis
    using 2 agree
    by (auto simp: same_step_def hb_set_account_def mb_set_account_def root sem_simps Let_def en same split: sum.split)
qed

lemma materialize_agrees:
  assumes "backend_agrees K hb mb" "dict_get (hb_records hb) a = Some hr" "dict_get (mb_records mb) a = Some mr"
    "record_agrees K hr mr"
  shows "same_step K (hb_materialize_account hr, hb) (mb_materialize_account a mr mb)"
proof -
  have "hr_account hr = mr_account mr" using assms(4) by (simp add: record_agrees_def)
  then show ?thesis
    using agrees_root[OF assms(1,2)]
    by (auto simp: same_step_def hb_materialize_account_def mb_materialize_account_def sem_simps)
qed

lemma create_account_agrees:
  assumes "backend_agrees K hb mb"
  shows "same_step K (hb_create_account a hb) (mb_create_account a mb)"
proof (cases rule: agrees_get[OF assms, of a])
  case 1
  have "same_step K (hb_materialize_account new_hash_record, hb_put a new_hash_record hb)
      (mb_materialize_account a new_mpt_record (mb_put a new_mpt_record mb))"
    by (rule materialize_agrees[OF agrees_put[OF assms record_agrees_new] _ _ record_agrees_new])
      (simp_all add: hb_put_def mb_put_def dict_simps)
  then show ?thesis
    using 1 by (simp add: hb_create_account_def mb_create_account_def hb_get_account_def mb_get_account_def
        hb_ensure_record_def mb_ensure_record_def sem_simps)
next
  case (2 hr mr)
  have "\<exists>acc mb'. hb_get_account a hb = (Inr (Some acc), hb) \<and> mb_get_account a mb = (Inr (Some acc), mb') \<and> backend_agrees K hb mb'"
    using 2 agrees_root[OF assms 2(1)]
    by (auto simp: hb_get_account_def mb_get_account_def hb_materialize_account_def mb_materialize_account_def
        sem_simps record_agrees_def)
  then show ?thesis by (auto simp: same_step_def hb_create_account_def mb_create_account_def sem_simps)
qed

lemma set_code_agrees:
  assumes "backend_agrees K hb mb"
  shows "same_step K (hb_set_code a c hb) (mb_set_code a c mb)"
proof -
  let ?hr = "fst (hb_ensure_record a hb)" and ?mr = "fst (mb_ensure_record a mb)"
  let ?h = "if c \<noteq> [] then keccak256 c else EMPTY_CODE_HASH"
  have "record_agrees K (?hr\<lparr>hr_code := c, hr_account := (hr_account ?hr)\<lparr>ta_code_hash := ?h\<rparr>\<rparr>)
      (?mr\<lparr>mr_code := c, mr_account := (mr_account ?mr)\<lparr>ta_code_hash := ?h\<rparr>\<rparr>)"
    using agrees_ensure(1)[OF assms, of a] by (simp add: record_agrees_def)
  from agrees_put[OF agrees_ensure(2)[OF assms, of a] this, of a] show ?thesis
    by (auto simp: same_step_def hb_set_code_def mb_set_code_def Let_def case_prod_beta backend_agrees_def)
qed

lemma get_storage_agrees:
  assumes "backend_agrees K hb mb"
  shows "same_step K (hb_get_storage a k hb) (mb_get_storage a k mb)"
proof (cases rule: agrees_get[OF assms, of a])
  case 1
  then show ?thesis using assms by (simp add: same_step_def hb_get_storage_def mb_get_storage_def)
next
  case (2 hr mr)
  have slots: "mpt_entries (mr_storage_trie mr) = map slot_entry (hr_storage hr)" "\<forall>v \<in> snd ` set (hr_storage hr). v \<noteq> 0"
    using 2(3) by (simp_all add: record_agrees_def trie_slots_def)
  show ?thesis
  proof (cases "dict_get (hr_storage hr) k")
    case None
    then show ?thesis using 2 assms slots
      by (simp add: same_step_def hb_get_storage_def mb_get_storage_def storage_map_get_def mpt_get_def map_slot_get)
  next
    case (Some v)
    then have "v \<noteq> 0" using slots(2) by (force dest: map_of_SomeD)
    then show ?thesis using 2 assms slots(1) Some deserialize_slot_payload[of v]
      by (simp add: same_step_def hb_get_storage_def mb_get_storage_def storage_map_get_def mpt_get_def map_slot_get)
  qed
qed

lemma storage_map_set_keys: "fst ` set (storage_map_set k v slots) \<subseteq> insert k (fst ` set slots)"
  by (auto simp: storage_map_set_def AList.delete_eq dom_update simp del: image_iff)

lemma set_storage_agrees:
  assumes "backend_agrees K hb mb" "k \<in> K"
  shows "same_step K (hb_set_storage a k v hb) (mb_set_storage a k v mb)"
proof -
  let ?hr = "fst (hb_ensure_record a hb)" and ?mr = "fst (mb_ensure_record a mb)"
  let ?t = "if v = 0 then mpt_delete (u256_bytes32 k) (mr_storage_trie ?mr)
    else mpt_update (u256_bytes32 k) (slot_payload v) (mr_storage_trie ?mr)"
  have slots: "trie_slots (mr_storage_trie ?mr) (hr_storage ?hr)" "fst ` set (hr_storage ?hr) \<subseteq> K"
    using agrees_ensure(1)[OF assms(1), of a] by (simp_all add: record_agrees_def)
  have "fst ` set (storage_map_set k v (hr_storage ?hr)) \<subseteq> K"
    using storage_map_set_keys[of k v "hr_storage ?hr"] slots(2) assms(2) by blast
  then have "record_agrees K (?hr\<lparr>hr_storage := storage_map_set k v (hr_storage ?hr)\<rparr>) (?mr\<lparr>mr_storage_trie := ?t\<rparr>)"
    using agrees_ensure(1)[OF assms(1), of a] trie_slots_set[OF slots(1), where k = k and v = v]
    by (simp add: record_agrees_def)
  from agrees_put[OF agrees_ensure(2)[OF assms(1), of a] this, of a] show ?thesis
    by (auto simp: same_step_def hb_set_storage_def mb_set_storage_def Let_def case_prod_beta serialize_storage_value_word)
qed

lemma delete_account_agrees: "backend_agrees K hb mb \<Longrightarrow> backend_agrees K (hb_delete_account a hb) (mb_delete_account a mb)"
  by (simp add: backend_agrees_def hb_delete_account_def mb_delete_account_def rel_dict_pop mpt_delete_def)

subsection \<open>Commit\<close>

lemma serialize_account_Inr: "\<exists>payload. serialize_account acc = Inr payload"
  unfolding serialize_account_def by (subst rlp_encode_image) simp_all

lemma dict_put_same: "dict_get d a = Some v \<Longrightarrow> dict_put a w (dict_put a u d) = dict_put a w d"
  by (induction d) auto

text \<open>One account: both sides write the same entry into their account tries.\<close>

lemma commit_record_agrees:
  assumes "backend_agrees K hb mb" "mpt_entries t = mpt_entries (mb_account_trie mb)"
  shows "case hb_commit_record a t hb of
      (Inl e, hb') \<Rightarrow> \<exists>mb'. mb_commit_record a mb = (Inl e, mb') \<and> backend_agrees K hb' mb'
    | (Inr t', hb') \<Rightarrow> \<exists>mb'. mb_commit_record a mb = (Inr (), mb') \<and> backend_agrees K hb' mb'
        \<and> mpt_entries t' = mpt_entries (mb_account_trie mb') \<and> mpt_key_transform t' = mpt_key_transform t"
proof (cases rule: agrees_get[OF assms(1), of a])
  case 1
  then show ?thesis
    using assms by (simp add: hb_commit_record_def mb_commit_record_def mb_storage_root_def sem_simps)
next
  case (2 hr mr)
  obtain root mb' mr' where root: "hb_current_storage_root (hr_storage hr) = Inr root" "mb_storage_root a mb = (Inr root, mb')"
    and agree: "backend_agrees K hb mb'" and mr': "dict_get (mb_records mb') a = Some mr'" "record_agrees K hr mr'"
    using agrees_root[OF assms(1) 2(1)] by blast
  have trie: "mb_account_trie mb' = mb_account_trie mb"
    using root(2) 2(2) by (auto simp: mb_storage_root_def mb_put_def split: prod.splits)
  let ?acc = "(hr_account hr)\<lparr>ta_storage_root := root\<rparr>"
  obtain payload where payload: "serialize_account ?acc = Inr payload" using serialize_account_Inr by blast
  have "hr_account hr = mr_account mr'" using mr'(2) by (simp add: record_agrees_def)
  moreover have "record_agrees K (hr\<lparr>hr_account := ?acc\<rparr>) (mr'\<lparr>mr_account := ?acc\<rparr>)"
    using mr'(2) by (simp add: record_agrees_def)
  note agrees_put[OF agree this, of a]
  ultimately show ?thesis
    using 2 root mr' payload assms(2) trie
    by (auto simp: hb_commit_record_def hb_materialize_account_def mb_commit_record_def sem_simps Let_def
        mpt_update_def backend_agrees_def mb_put_def)
qed

lemma commit_loop_agrees:
  assumes "backend_agrees K hb mb" "mpt_entries t = mpt_entries (mb_account_trie mb)"
  shows "case hb_commit_loop addresses t hb of
      (Inl e, hb') \<Rightarrow> \<exists>mb'. mb_commit_loop addresses mb = (Inl e, mb') \<and> backend_agrees K hb' mb'
    | (Inr t', hb') \<Rightarrow> \<exists>mb'. mb_commit_loop addresses mb = (Inr (), mb') \<and> backend_agrees K hb' mb'
        \<and> mpt_entries t' = mpt_entries (mb_account_trie mb') \<and> mpt_key_transform t' = mpt_key_transform t"
  using assms
proof (induction addresses arbitrary: hb mb t)
  case Nil
  then show ?case by (simp add: retM_def)
next
  case (Cons a addresses)
  note step = commit_record_agrees[OF Cons.prems, of a]
  show ?case
  proof (cases "hb_commit_record a t hb")
    case (Pair r hb')
    show ?thesis
    proof (cases r)
      case (Inl e)
      then show ?thesis using step Pair by (auto simp: bindM_def seqM_def)
    next
      case (Inr t')
      then obtain mb' where mb': "mb_commit_record a mb = (Inr (), mb')" "backend_agrees K hb' mb'"
        "mpt_entries t' = mpt_entries (mb_account_trie mb')" "mpt_key_transform t' = mpt_key_transform t"
        using step Pair by auto
      from Cons.IH[OF mb'(2,3)] show ?thesis
        using Pair Inr mb'(1,4) by (simp add: bindM_def seqM_def split: prod.splits sum.splits)
    qed
  qed
qed

lemma commit_agrees:
  assumes "backend_agrees K hb mb"
  shows "same_step K (hb_commit hb) (mb_commit mb)"
proof -
  let ?mb = "mb\<lparr>mb_account_trie := mpt_clear (mb_account_trie mb)\<rparr>"
  let ?addresses = "sort_key address_bytes (map fst (hb_records hb))"
  have agree: "backend_agrees K hb ?mb" using assms by (simp add: backend_agrees_def mpt_clear_def)
  have keys: "map fst (hb_records hb) = map fst (mb_records mb)" using assms by (auto simp: backend_agrees_def dest: rel_dict_keys)
  have start: "mpt_entries (new_mpt address_trie_key) = mpt_entries (mb_account_trie ?mb)"
    by (simp add: new_mpt_def mpt_clear_def)
  note loop = commit_loop_agrees[OF agree start, of ?addresses]
  obtain r hb' where h: "hb_commit_loop ?addresses (new_mpt address_trie_key) hb = (r, hb')" by (meson surj_pair)
  show ?thesis
  proof (cases r)
    case (Inl e)
    then show ?thesis using loop h keys by (auto simp: same_step_def hb_commit_def mb_commit_def bindM_def seqM_def Let_def)
  next
    case (Inr t')
    then obtain mb' where mb': "mb_commit_loop ?addresses ?mb = (Inr (), mb')" "backend_agrees K hb' mb'"
      "mpt_entries t' = mpt_entries (mb_account_trie mb')" "mpt_key_transform t' = mpt_key_transform (new_mpt address_trie_key)"
      using loop h by auto
    have kt: "mpt_key_transform (mb_account_trie mb') = address_trie_key" using mb'(2) by (simp add: backend_agrees_def)
    have root: "fst (mpt_commit t') = fst (mpt_commit (mb_account_trie mb'))"
      using mb'(3,4) kt by (intro mpt_commit_cong) (simp_all add: new_mpt_def)
    have keep: "backend_agrees K hb' (mb'\<lparr>mb_account_trie := snd (mpt_commit (mb_account_trie mb'))\<rparr>)"
      using mb'(2) by (simp add: backend_agrees_def mpt_commit_keeps)
    show ?thesis
      using h Inr mb'(1) keys root keep
      by (auto simp: same_step_def hb_commit_def mb_commit_def sem_simps Let_def case_prod_beta backend_agrees_def
          split: sum.splits)
  qed
qed

lemmas same_step_rules = get_account_agrees set_account_agrees create_account_agrees set_code_agrees
  get_storage_agrees commit_agrees

lemma answer_same: "same_step K r s \<Longrightarrow> fst (answer f r) = fst (answer f s) \<and> backend_agrees K (snd (answer f r)) (snd (answer f s))"
  by (simp add: same_step_def answer_def)

lemma call_simulated:
  assumes "backend_agrees K hb mb" "slots_in K c"
  shows "fst (run_call hash_map_backend c hb) = fst (run_call trie_backend c mb)
    \<and> backend_agrees K (snd (run_call hash_map_backend c hb)) (snd (run_call trie_backend c mb))"
proof (cases c)
  case (AccountExists a)
  then show ?thesis using assms(1)
    by (cases rule: agrees_get[OF assms(1), of a])
      (simp_all add: hash_map_backend_def trie_backend_def hb_account_exists_def mb_account_exists_def)
next
  case (GetCode a)
  then show ?thesis using assms(1)
    by (cases rule: agrees_get[OF assms(1), of a])
      (simp_all add: hash_map_backend_def trie_backend_def hb_get_code_def mb_get_code_def record_agrees_def)
next
  case (DeleteAccount a)
  then show ?thesis using delete_account_agrees[OF assms(1)] by (simp add: hash_map_backend_def trie_backend_def)
next
  case (SetStorage a k v)
  then show ?thesis
    using answer_same[OF set_storage_agrees[OF assms(1)]] assms(2)
    by (simp add: hash_map_backend_def trie_backend_def slots_in_def)
next
  case StateRoot
  then show ?thesis using assms(1) by (simp add: hash_map_backend_def trie_backend_def backend_agrees_def)
qed (simp_all add: hash_map_backend_def trie_backend_def answer_same[OF same_step_rules(1)[OF assms(1)]]
    answer_same[OF same_step_rules(2)[OF assms(1)]] answer_same[OF same_step_rules(3)[OF assms(1)]]
    answer_same[OF same_step_rules(4)[OF assms(1)]] answer_same[OF same_step_rules(5)[OF assms(1)]]
    answer_same[OF same_step_rules(6)[OF assms(1)]])

interpretation two_backends: backend_simulation hash_map_backend trie_backend "backend_agrees K" "slots_in K"
  for K
  by unfold_locales (use call_simulated in blast)+

text \<open>
  C31. The hash-map backend and the trie backend cannot be told apart through the interface of the state
  crate: started empty, any sequence of calls gets the same answers from both, the storage roots in the
  accounts and the state roots of commits included, where the hash function has no collision on the
  storage keys that the calls write.
\<close>

theorem backends_agree:
  assumes "inj_on keccak256 (u256_bytes32 ` K)" "\<forall>c \<in> set calls. slots_in K c"
  shows "fst (run_calls hash_map_backend calls new_hash_backend) = fst (run_calls trie_backend calls new_mpt_backend)"
  using two_backends.calls_agree[OF backend_agrees_new[OF assms(1)] assms(2)] by blast

theorem backends_agree_witness:
  "fst (run_calls hash_map_backend [SetStorage 7 1 5, SetCode 7 [1], Commit, StateRoot, GetAccount 7] new_hash_backend)
   = fst (run_calls trie_backend [SetStorage 7 1 5, SetCode 7 [1], Commit, StateRoot, GetAccount 7] new_mpt_backend)"
  by (rule backends_agree[of "{1}"]) (simp_all add: slots_in_def)

end
