(* ===== verification/State_Root.thy ===== *)
theory State_Root
  imports State_Agreement
begin

text \<open>
  The state root of the execution layer (\<open>compute_state_root\<close> in \<open>execution/trie.py\<close>): copying the
  state database of the interpreter into the trie backend never raises, and the root it commits binds
  everything the interpreter can observe: nonces, balances, code and storage.
\<close>

section \<open>Copying one account\<close>

definition storage_slots :: "account \<Rightarrow> storage_map" where
  "storage_slots acc = map (\<lambda>(k, v). (word_of_int k, word_of_int v)) (storage_items False (acc_storage acc))"

definition copied_record :: "account \<Rightarrow> mpt_record \<Rightarrow> bool" where
  "copied_record acc mr \<longleftrightarrow>
     uint (ta_nonce (mr_account mr)) = acc_nonce acc \<and> uint (ta_balance (mr_account mr)) = acc_balance acc
     \<and> ta_code_hash (mr_account mr) = keccak256 (acc_code acc) \<and> trie_slots (mr_storage_trie mr) (storage_slots acc)"

lemma set_storage_items:
  "set (storage_items False st) = {(k, slot_current s) | k s. (k, s) \<in> set st \<and> slot_current s \<noteq> 0}"
  by (auto simp: storage_items_def)

lemma storage_items_range:
  assumes "storage_wf st" "(k, v) \<in> set (storage_items False st)"
  shows "word_range k" "word_range v" "v \<noteq> 0"
  using assms by (auto simp: storage_wf_def set_storage_items)

lemma storage_items_distinct: "storage_wf st \<Longrightarrow> dict_wf (storage_items False st)"
proof -
  assume wf: "storage_wf st"
  let ?l = "[(key, slot_current slot). (key, slot) \<leftarrow> st, False \<or> slot_current slot \<noteq> 0]"
  have "map fst ?l = map fst (filter (\<lambda>(k, s). slot_current s \<noteq> 0) st)" by (induction st) auto
  then have "dict_wf ?l" using wf by (simp add: storage_wf_def distinct_map_filter)
  then show ?thesis unfolding storage_items_def distinct_map by simp
qed

lemma word_of_int_range: "word_range v \<Longrightarrow> uint (word_of_int v :: u256) = v"
  by (simp add: word_range_def uint_word_of_int)

lemma mk_u256_range: "word_range v \<Longrightarrow> mk_u256 v = Inr (word_of_int v)"
  by (simp add: word_range_def mk_u256_word)

lemma storage_slots_wf:
  assumes "storage_wf (acc_storage acc)"
  shows "dict_wf (storage_slots acc)" "\<forall>v \<in> snd ` set (storage_slots acc). v \<noteq> 0"
proof -
  let ?w = "word_of_int :: int \<Rightarrow> u256"
  let ?items = "storage_items False (acc_storage acc)"
  have "inj_on ?w (fst ` set ?items)"
  proof (rule inj_onI)
    fix x y
    assume "x \<in> fst ` set ?items" "y \<in> fst ` set ?items" "?w x = ?w y"
    then show "x = y" using storage_items_range(1)[OF assms] word_of_int_range by (metis imageE prod.collapse)
  qed
  moreover have "map fst (storage_slots acc) = map ?w (map fst ?items)" by (simp add: storage_slots_def comp_def case_prod_unfold)
  ultimately show "dict_wf (storage_slots acc)" using storage_items_distinct[OF assms] by (simp only: distinct_map[of ?w] list.set_map)
  have "?w v \<noteq> 0" if "(k, v) \<in> set ?items" for k v
    using storage_items_range[OF assms that] word_of_int_range[of v] by auto
  then show "\<forall>v \<in> snd ` set (storage_slots acc). v \<noteq> 0" by (auto simp: storage_slots_def)
qed

lemma dict_put_last: "a \<notin> fst ` set d \<Longrightarrow> dict_put a w (d @ [(a, v)]) = d @ [(a, w)]"
  by (induction d) auto

lemma dict_get_last: "a \<notin> fst ` set d \<Longrightarrow> ([a \<mapsto> v] ++ dict_get d) a = Some v"
  by (simp add: map_add_Some_iff map_of_eq_None_iff)

text \<open>The last record of the backend is the one that is being filled.\<close>

lemma copy_storage_run:
  assumes "a \<notin> fst ` set rs" "mb_records b = rs @ [(a, mr)]" "trie_slots (mr_storage_trie mr) slots"
    "\<forall>(k, v) \<in> set items. word_range k \<and> word_range v \<and> v \<noteq> 0"
    "dict_wf (slots @ map (\<lambda>(k, v). (word_of_int k, word_of_int v)) items)"
  shows "\<exists>b' t. copy_storage a items b = (Inr (), b') \<and> mb_account_trie b' = mb_account_trie b
    \<and> mb_records b' = rs @ [(a, mr\<lparr>mr_storage_trie := t\<rparr>)]
    \<and> trie_slots t (slots @ map (\<lambda>(k, v). (word_of_int k, word_of_int v)) items)"
  using assms(2-)
proof (induction items arbitrary: b mr slots)
  case Nil
  then show ?case by (auto simp: retM_def intro!: exI[of _ "mr_storage_trie mr"])
next
  case (Cons p items)
  obtain k v where p: "p = (k, v)" by (cases p)
  let ?k = "word_of_int k :: u256" and ?v = "word_of_int v :: u256"
  have range: "word_range k" "word_range v" "v \<noteq> 0" using Cons.prems(3) p by auto
  then have v: "?v \<noteq> 0" using word_of_int_range[of v] by auto
  let ?t = "mpt_update (u256_bytes32 ?k) (slot_payload ?v) (mr_storage_trie mr)"
  let ?b = "mb_put a (mr\<lparr>mr_storage_trie := ?t\<rparr>) b"
  have ens: "mb_ensure_record a b = (mr, b)" using Cons.prems(1) assms(1) by (simp add: mb_ensure_record_def dict_get_last)
  have step: "mb_set_storage a ?k ?v b = (Inr (), ?b)"
    using v by (simp add: mb_set_storage_def Let_def ens serialize_storage_value_word)
  have recs: "mb_records ?b = rs @ [(a, mr\<lparr>mr_storage_trie := ?t\<rparr>)]"
    using Cons.prems(1) assms(1) by (simp add: mb_put_def dict_put_last)
  have "?k \<notin> fst ` set slots" using Cons.prems(4) p by auto
  then have slots: "trie_slots ?t (slots @ [(?k, ?v)])"
    using trie_slots_set[OF Cons.prems(2), where k = ?k and v = ?v] v by (simp add: storage_map_set_def dict_put_new)
  have "\<exists>b' t. copy_storage a items ?b = (Inr (), b') \<and> mb_account_trie b' = mb_account_trie ?b
    \<and> mb_records b' = rs @ [(a, mr\<lparr>mr_storage_trie := ?t\<rparr>\<lparr>mr_storage_trie := t\<rparr>)]
    \<and> trie_slots t ((slots @ [(?k, ?v)]) @ map (\<lambda>(k, v). (word_of_int k, word_of_int v)) items)"
    by (rule Cons.IH[OF recs]) (use slots Cons.prems(3,4) p in simp_all)
  then show ?case
    using range step p by (simp add: mk_u256_range sem_simps) (simp add: mb_put_def)
qed

lemma mpt_commit_new: "mpt_commit (new_mpt f) = (Inr EMPTY_TRIE_ROOT, new_mpt f)"
  by (simp add: mpt_commit_def new_mpt_def Let_def)

lemma copy_account_run:
  assumes "account_wf acc" "\<not> account_is_empty acc" "a \<notin> fst ` set (mb_records b)"
  shows "\<exists>b' mr. copy_account a acc b = (Inr (), b') \<and> mb_account_trie b' = mb_account_trie b
    \<and> mb_records b' = mb_records b @ [(a, mr)] \<and> copied_record acc mr"
proof -
  let ?rs = "mb_records b"
  have wf: "word_range (acc_nonce acc)" "word_range (acc_balance acc)" "storage_wf (acc_storage acc)"
    using assms(1) by (simp_all add: account_wf_def)
  have none: "dict_get ?rs a = None" using assms(3) by (simp add: map_of_eq_None_iff)
  let ?b1 = "b\<lparr>mb_records := ?rs @ [(a, new_mpt_record)]\<rparr>"
  have put: "mb_put a mr (b\<lparr>mb_records := ?rs @ [(a, mr')]\<rparr>) = b\<lparr>mb_records := ?rs @ [(a, mr)]\<rparr>" for mr mr'
    using assms(3) by (simp add: mb_put_def dict_put_last)
  have create: "mb_create_account a b = (Inr default_trie_account, ?b1)"
    using none assms(3)
    by (simp add: mb_create_account_def mb_get_account_def mb_ensure_record_def mb_materialize_account_def mb_storage_root_def
        sem_simps mb_put_def dict_put_new dict_get_last dict_put_last mpt_root_def mpt_commit_new new_mpt_record_def
        default_trie_account_def)
  let ?acc = "\<lparr>ta_nonce = word_of_int (acc_nonce acc), ta_balance = word_of_int (acc_balance acc),
    ta_code_hash = EMPTY_CODE_HASH, ta_storage_root = EMPTY_TRIE_ROOT\<rparr>"
  let ?mr = "new_mpt_record\<lparr>mr_account := ?acc\<rparr>"
  let ?b2 = "b\<lparr>mb_records := ?rs @ [(a, ?mr)]\<rparr>"
  have setacc: "mb_set_account a ?acc ?b1 = (Inr (), ?b2)"
    using assms(3)
    by (simp add: mb_set_account_def mb_storage_root_def mb_ensure_record_def sem_simps dict_get_last mpt_root_def
        mpt_commit_new put checked_account_code_def new_mpt_record_def default_trie_account_def)
  let ?mr3 = "?mr\<lparr>mr_code := acc_code acc, mr_account := ?acc\<lparr>ta_code_hash := keccak256 (acc_code acc)\<rparr>\<rparr>"
  have code: "\<exists>b3. (if acc_code acc \<noteq> [] then bindM (mb_set_code a (acc_code acc)) (\<lambda>_. retM ()) else retM ()) ?b2 = (Inr (), b3)
      \<and> mb_account_trie b3 = mb_account_trie b \<and> mb_records b3 = ?rs @ [(a, ?mr3)]"
    using assms(3)
    by (auto simp: mb_set_code_def mb_ensure_record_def sem_simps dict_get_last put Let_def EMPTY_CODE_HASH_def new_mpt_record_def)
  then obtain b3 where b3: "(if acc_code acc \<noteq> [] then bindM (mb_set_code a (acc_code acc)) (\<lambda>_. retM ()) else retM ()) ?b2 = (Inr (), b3)"
    "mb_account_trie b3 = mb_account_trie b" "mb_records b3 = ?rs @ [(a, ?mr3)]" by blast
  have new: "trie_slots (mr_storage_trie ?mr3) []" by (simp add: new_mpt_record_def trie_slots_new)
  have range: "\<forall>(k, v) \<in> set (storage_items False (acc_storage acc)). word_range k \<and> word_range v \<and> v \<noteq> 0"
    using storage_items_range[OF wf(3)] by blast
  have dist: "dict_wf ([] @ map (\<lambda>(k, v). (word_of_int k :: u256, word_of_int v :: u256)) (storage_items False (acc_storage acc)))"
    using storage_slots_wf(1)[OF wf(3)] by (simp add: storage_slots_def)
  obtain b4 t where b4: "copy_storage a (storage_items False (acc_storage acc)) b3 = (Inr (), b4)"
    "mb_account_trie b4 = mb_account_trie b3" "mb_records b4 = ?rs @ [(a, ?mr3\<lparr>mr_storage_trie := t\<rparr>)]"
    "trie_slots t (storage_slots acc)"
    using copy_storage_run[OF assms(3) b3(3) new range dist] unfolding append_Nil storage_slots_def[symmetric] by blast
  have "copied_record acc (?mr3\<lparr>mr_storage_trie := t\<rparr>)"
    using b4(4) wf by (simp add: copied_record_def word_of_int_range)
  moreover have "copy_account a acc b = (Inr (), b4)"
    using assms(2) create setacc b3(1) b4(1) wf by (simp add: copy_account_def mk_u256_range bindM_def seqM_def liftR_def)
  ultimately show ?thesis using b4(2,3) b3(2) by auto
qed

lemma copy_accounts_run:
  assumes "\<forall>(a, acc) \<in> set accounts. account_wf acc \<and> \<not> account_is_empty acc" "dict_wf (mb_records b @ map (\<lambda>(a, acc). (a, undefined)) accounts)"
  shows "\<exists>b' mrs. copy_accounts accounts b = (Inr (), b') \<and> mb_account_trie b' = mb_account_trie b
    \<and> mb_records b' = mb_records b @ mrs \<and> rel_dict copied_record accounts mrs"
  using assms
proof (induction accounts arbitrary: b)
  case Nil
  then show ?case by (simp add: retM_def)
next
  case (Cons p accounts)
  obtain a acc where p: "p = (a, acc)" by (cases p)
  obtain b1 mr where b1: "copy_account a acc b = (Inr (), b1)" "mb_account_trie b1 = mb_account_trie b"
    "mb_records b1 = mb_records b @ [(a, mr)]" "copied_record acc mr"
    using copy_account_run[of acc a b] Cons.prems p by auto
  have "dict_wf (mb_records b1 @ map (\<lambda>(a, acc). (a, undefined)) accounts)" using Cons.prems(2) b1(3) p by simp
  from Cons.IH[OF _ this] Cons.prems(1) obtain b2 mrs where b2: "copy_accounts accounts b1 = (Inr (), b2)"
    "mb_account_trie b2 = mb_account_trie b1" "mb_records b2 = mb_records b1 @ mrs" "rel_dict copied_record accounts mrs"
    by auto
  have "copy_accounts (p # accounts) b = (Inr (), b2)" using p b1(1) b2(1) by (simp add: bindM_def seqM_def)
  then show ?case using b1 b2 p by (intro exI[of _ b2] exI[of _ "(a, mr) # mrs"]) simp
qed

section \<open>Committing the copies\<close>

definition storage_trie :: "account \<Rightarrow> mpt" where
  "storage_trie acc = (new_mpt storage_trie_key)\<lparr>mpt_entries := map slot_entry (storage_slots acc)\<rparr>"

definition storage_root_of :: "account \<Rightarrow> hash" where
  "storage_root_of acc = keccak256 (node_bytes (mpt_path_items (storage_trie acc)))"

definition account_payload :: "account \<Rightarrow> bytes" where
  "account_payload acc =
     flat_ref [int_bytes (acc_nonce acc), int_bytes (acc_balance acc), hash_bytes (storage_root_of acc),
       hash_bytes (keccak256 (acc_code acc))]"

lemma mpt_path_items_cong:
  "mpt_entries t = mpt_entries t' \<Longrightarrow> mpt_key_transform t = mpt_key_transform t' \<Longrightarrow> mpt_path_items t = mpt_path_items t'"
  by (simp add: mpt_path_items_def mpt_sorted_def)

lemma storage_trie_slots: "account_wf acc \<Longrightarrow> trie_slots (storage_trie acc) (storage_slots acc)"
  using storage_slots_wf[of acc] by (simp add: storage_trie_def trie_slots_def new_mpt_def account_wf_def)

lemma copied_root:
  assumes "copied_record acc mr"
  shows "fst (mpt_commit (mr_storage_trie mr)) = Inr (storage_root_of acc)"
proof -
  have slots: "trie_slots (mr_storage_trie mr) (storage_slots acc)" using assms by (simp add: copied_record_def)
  then have "mpt_path_items (mr_storage_trie mr) = mpt_path_items (storage_trie acc)"
    by (intro mpt_path_items_cong) (simp_all add: trie_slots_def storage_trie_def new_mpt_def)
  then show ?thesis using mpt_commit_root[OF trie_slots_ok[OF slots]] by (simp add: storage_root_of_def)
qed

lemma copied_payload:
  assumes "copied_record acc mr"
  shows "serialize_account ((mr_account mr)\<lparr>ta_storage_root := storage_root_of acc\<rparr>) = Inr (account_payload acc)"
proof -
  let ?o = "ObjList [ObjInt (acc_nonce acc), ObjInt (acc_balance acc), ObjBytes (hash_bytes (storage_root_of acc)),
      ObjBytes (hash_bytes (keccak256 (acc_code acc)))]"
  have f: "uint (ta_nonce (mr_account mr)) = acc_nonce acc" "uint (ta_balance (mr_account mr)) = acc_balance acc"
    "ta_code_hash (mr_account mr) = keccak256 (acc_code acc)"
    using assms by (simp_all add: copied_record_def)
  have "0 \<le> acc_nonce acc" "0 \<le> acc_balance acc" using f(1,2) by (metis uint_ge_0)+
  then have "rlp_encode ?o = Inr (rlp_ref (rlp_image ?o))" by (intro rlp_encode_image) simp
  then show ?thesis using f by (simp add: serialize_account_def account_payload_def del: rlp_encode.simps)
qed

lemma commit_record_run:
  assumes "dict_get (mb_records b) a = Some mr" "copied_record acc mr"
  shows "\<exists>b'. mb_commit_record a b = (Inr (), b')
    \<and> mb_account_trie b' = mpt_update (address_bytes a) (account_payload acc) (mb_account_trie b)
    \<and> (\<forall>x. x \<noteq> a \<longrightarrow> dict_get (mb_records b') x = dict_get (mb_records b) x)"
  using copied_payload[OF assms(2)] copied_root[OF assms(2)] assms(1)
  by (auto simp: mb_commit_record_def mb_storage_root_def mpt_root_def sem_simps mb_put_def dict_simps Let_def case_prod_beta)

lemma commit_loop_run:
  assumes "distinct addresses" "\<forall>a \<in> set addresses. \<exists>mr. dict_get (mb_records b) a = Some mr \<and> copied_record (F a) mr"
    "\<forall>a \<in> set addresses. address_bytes a \<notin> fst ` set (mpt_entries (mb_account_trie b))"
  shows "\<exists>b'. mb_commit_loop addresses b = (Inr (), b')
    \<and> mpt_key_transform (mb_account_trie b') = mpt_key_transform (mb_account_trie b)
    \<and> mpt_entries (mb_account_trie b') = mpt_entries (mb_account_trie b)
        @ map (\<lambda>a. (address_bytes a, account_payload (F a))) addresses"
  using assms
proof (induction addresses arbitrary: b)
  case Nil
  then show ?case by (simp add: retM_def)
next
  case (Cons a addresses)
  obtain mr where mr: "dict_get (mb_records b) a = Some mr" "copied_record (F a) mr" using Cons.prems(2) by auto
  obtain b1 where b1: "mb_commit_record a b = (Inr (), b1)"
    "mb_account_trie b1 = mpt_update (address_bytes a) (account_payload (F a)) (mb_account_trie b)"
    "\<forall>x. x \<noteq> a \<longrightarrow> dict_get (mb_records b1) x = dict_get (mb_records b) x"
    using commit_record_run[OF mr] by blast
  have entries: "mpt_entries (mb_account_trie b1) = mpt_entries (mb_account_trie b) @ [(address_bytes a, account_payload (F a))]"
    using Cons.prems(3) b1(2) by (simp add: mpt_update_def dict_put_new)
  have rest: "\<forall>x \<in> set addresses. \<exists>mr. dict_get (mb_records b1) x = Some mr \<and> copied_record (F x) mr"
    using Cons.prems(1,2) b1(3) by auto
  have fresh: "\<forall>x \<in> set addresses. address_bytes x \<notin> fst ` set (mpt_entries (mb_account_trie b1))"
    using Cons.prems(1,3) entries by (auto simp: address_bytes_inj)
  have "distinct addresses" using Cons.prems(1) by simp
  from Cons.IH[OF this rest fresh] obtain b2 where b2: "mb_commit_loop addresses b1 = (Inr (), b2)"
    "mpt_key_transform (mb_account_trie b2) = mpt_key_transform (mb_account_trie b1)"
    "mpt_entries (mb_account_trie b2) = mpt_entries (mb_account_trie b1) @ map (\<lambda>a. (address_bytes a, account_payload (F a))) addresses"
    by blast
  then show ?case using b1 entries by (simp add: seqM_def bindM_def mpt_update_def)
qed

section \<open>The state root as a commitment\<close>

definition live_accounts :: "statedb \<Rightarrow> (address \<times> account) list" where
  "live_accounts db = filter (\<lambda>(a, acc). \<not> account_is_empty acc) db"

definition account_trie :: "statedb \<Rightarrow> mpt" where
  "account_trie db =
     (new_mpt address_trie_key)\<lparr>mpt_entries := map (\<lambda>(a, acc). (address_bytes a, account_payload acc)) (live_accounts db)\<rparr>"

lemma statedb_accounts_live:
  assumes "db_wf db"
  shows "set (statedb_accounts False db) = set (live_accounts db)" "dict_wf (statedb_accounts False db)" "dict_wf (live_accounts db)"
proof -
  let ?l = "[(a, account_clone acc). (a, acc) \<leftarrow> db, False \<or> \<not> account_is_empty acc]"
  have l: "?l = live_accounts db"
    using assms unfolding db_wf_def live_accounts_def by (induction db) (auto simp: account_clone_id)
  show wf: "dict_wf (live_accounts db)" using assms by (simp add: live_accounts_def db_wf_def distinct_map_filter)
  show "set (statedb_accounts False db) = set (live_accounts db)" unfolding statedb_accounts_def l by simp
  show "dict_wf (statedb_accounts False db)" using wf unfolding statedb_accounts_def l distinct_map by simp
qed

lemma flat_ref_length_le:
  assumes "length (concat (map rlp_encode_bytes xs)) \<le> n" "n < 256 ^ 8"
  shows "length (flat_ref xs) \<le> n + 9"
proof -
  let ?p = "concat (map rlp_encode_bytes xs)"
  have bound: "length ?p < 256 ^ 8" using assms by simp
  have "length (big_endian_length (length ?p)) \<le> 8" if "\<not> length ?p \<le> 55"
  proof -
    have "0 < length ?p" using that by linarith
    then show ?thesis using big_endian_length_pos(1)[OF _ bound] by (simp only: atLeastAtMost_iff)
  qed
  then have "length (rlp_header 0xC0 (length ?p)) \<le> 9" by (simp add: rlp_header_def)
  then show ?thesis using assms(1) by (simp add: rlp_wrap_list_header comp_def)
qed

lemma account_payload_length: "account_payload acc \<noteq> []" "account_wf acc \<Longrightarrow> length (account_payload acc) < 2 ^ 32"
proof -
  show "account_payload acc \<noteq> []" by (simp only: account_payload_def rlp_ref_nonempty not_False_eq_True)
  assume "account_wf acc"
  then have "length (int_bytes (acc_nonce acc)) \<le> 32" "length (int_bytes (acc_balance acc)) \<le> 32"
    by (auto simp: account_wf_def word_range_def intro!: byte_length_le)
  then have "length (rlp_encode_bytes (int_bytes (acc_nonce acc))) \<le> 41" "length (rlp_encode_bytes (int_bytes (acc_balance acc))) \<le> 41"
    using rlp_encode_bytes_length_le[of "int_bytes (acc_nonce acc)"] rlp_encode_bytes_length_le[of "int_bytes (acc_balance acc)"]
    by simp_all
  moreover have "length (rlp_encode_bytes (hash_bytes h)) \<le> 41" for h using rlp_encode_bytes_length_le[of "hash_bytes h"] by simp
  ultimately have "length (concat (map rlp_encode_bytes [int_bytes (acc_nonce acc), int_bytes (acc_balance acc),
      hash_bytes (storage_root_of acc), hash_bytes (keccak256 (acc_code acc))])) \<le> 41 + (41 + (41 + 41))"
    unfolding list.map concat.simps length_append append_Nil2 by (intro add_mono)
  then show "length (account_payload acc) < 2 ^ 32"
    unfolding account_payload_def by (intro le_less_trans[OF flat_ref_length_le[of _ 164]]) simp_all
qed

lemma account_trie_ok:
  assumes "db_wf db"
  shows "mpt_ok (account_trie db)"
proof -
  have "map fst (mpt_entries (account_trie db)) = map address_bytes (map fst (live_accounts db))"
    by (simp add: account_trie_def comp_def case_prod_unfold)
  moreover have "inj_on address_bytes X" for X by (simp add: inj_on_def address_bytes_inj)
  ultimately have "dict_wf (mpt_entries (account_trie db))"
    using statedb_accounts_live(3)[OF assms] by (simp only: distinct_map[of address_bytes])
  then show ?thesis
    using assms account_payload_length
    by (auto simp: mpt_ok_def account_trie_def live_accounts_def db_wf_def new_mpt_def address_trie_key_def ADDRESS_SIZE_def
        split: prod.splits)
qed

lemma account_keys_apart:
  assumes "inj_on keccak256 (address_bytes ` A)" "fst ` set (live_accounts db) \<subseteq> A" "fst ` set (live_accounts db') \<subseteq> A"
    "set (mpt_entries t) \<subseteq> set (mpt_entries (account_trie db))" "set (mpt_entries t') \<subseteq> set (mpt_entries (account_trie db'))"
    "mpt_key_transform t = address_trie_key"
  shows "keys_apart t t'"
proof -
  have inj: "inj_on address_trie_key (address_bytes ` A)"
    using assms(1) by (auto simp: inj_on_def address_trie_key_def ADDRESS_SIZE_def dest!: hash_bytes_inj)
  have entries: "fst ` set (mpt_entries (account_trie d)) = address_bytes ` fst ` set (live_accounts d)" for d
    by (simp add: account_trie_def image_image case_prod_unfold)
  have "fst ` set (mpt_entries t) \<subseteq> address_bytes ` A"
    using image_mono[OF assms(4), of fst] image_mono[OF assms(2), of address_bytes] unfolding entries by (rule subset_trans)
  moreover have "fst ` set (mpt_entries t') \<subseteq> address_bytes ` A"
    using image_mono[OF assms(5), of fst] image_mono[OF assms(3), of address_bytes] unfolding entries by (rule subset_trans)
  ultimately have "fst ` set (mpt_entries t) \<union> fst ` set (mpt_entries t') \<subseteq> address_bytes ` A" by (rule Un_least)
  with inj show ?thesis unfolding keys_apart_def assms(6) by (rule inj_on_subset)
qed

lemma compute_state_root_run:
  assumes "db_wf db" "inj_on keccak256 (address_bytes ` A)" "fst ` set (live_accounts db) \<subseteq> A"
  shows "compute_state_root db = fst (mpt_commit (account_trie db))"
proof -
  let ?l = "statedb_accounts False db"
  note live = statedb_accounts_live[OF assms(1)]
  have ok: "\<forall>(a, acc) \<in> set ?l. account_wf acc \<and> \<not> account_is_empty acc"
    using assms(1) live(1) by (auto simp: live_accounts_def db_wf_def)
  have wf: "dict_wf (mb_records new_mpt_backend @ map (\<lambda>(a, acc). (a, undefined)) ?l)"
    using live(2) by (simp add: new_mpt_backend_def comp_def case_prod_unfold)
  obtain b mrs where b: "copy_accounts ?l new_mpt_backend = (Inr (), b)" "mb_account_trie b = new_mpt address_trie_key"
    "mb_records b = mrs" "rel_dict copied_record ?l mrs"
    using copy_accounts_run[OF ok wf] by (auto simp: new_mpt_backend_def)
  let ?b = "b\<lparr>mb_account_trie := mpt_clear (mb_account_trie b)\<rparr>"
  let ?addresses = "sort_key address_bytes (map fst (mb_records b))"
  let ?F = "\<lambda>a. the (dict_get ?l a)"
  have keys: "map fst (mb_records b) = map fst ?l" using b(3,4) rel_dict_keys by metis
  have empty: "mpt_entries (mb_account_trie ?b) = []" "mpt_key_transform (mb_account_trie ?b) = address_trie_key"
    using b(2) by (simp_all add: mpt_clear_def new_mpt_def)
  have "distinct ?addresses" using live(2) by (simp add: keys)
  moreover have "\<forall>a \<in> set ?addresses. \<exists>mr. dict_get (mb_records ?b) a = Some mr \<and> copied_record (?F a) mr"
  proof
    fix a
    assume "a \<in> set ?addresses"
    then obtain acc where "dict_get ?l a = Some acc" using live(2) by (auto simp: keys)
    then show "\<exists>mr. dict_get (mb_records ?b) a = Some mr \<and> copied_record (?F a) mr"
      using rel_dict_get[OF b(4), of a] b(3) by (cases "dict_get mrs a") auto
  qed
  moreover have "\<forall>a \<in> set ?addresses. address_bytes a \<notin> fst ` set (mpt_entries (mb_account_trie ?b))" using empty by simp
  ultimately obtain b' where b': "mb_commit_loop ?addresses ?b = (Inr (), b')"
    "mpt_key_transform (mb_account_trie b') = address_trie_key"
    "mpt_entries (mb_account_trie b') = map (\<lambda>a. (address_bytes a, account_payload (?F a))) ?addresses"
    using commit_loop_run[of ?addresses ?b ?F] empty by auto
  have entries: "set (mpt_entries (mb_account_trie b')) = set (mpt_entries (account_trie db))"
  proof -
    have "set (mpt_entries (mb_account_trie b')) = (\<lambda>(a, acc). (address_bytes a, account_payload acc)) ` set ?l"
      using live(2) by (force simp: b'(3) keys)
    then show ?thesis using live(1) by (simp add: account_trie_def)
  qed
  have wf': "dict_wf (mpt_entries (mb_account_trie b'))"
    using live(2) by (simp add: b'(3) keys comp_def distinct_map inj_on_def address_bytes_inj)
  have ok': "mpt_ok (mb_account_trie b')"
    using account_trie_ok[OF assms(1)] wf' entries b'(2) by (simp add: mpt_ok_def account_trie_def new_mpt_def)
  have "mpt_path_items (mb_account_trie b') = mpt_path_items (account_trie db)"
    using entries b'(2) account_keys_apart[OF assms(2,3,3), of "mb_account_trie b'" "mb_account_trie b'"]
    by (intro equal_entries_equal_items[OF ok' account_trie_ok[OF assms(1)]]) (simp_all add: account_trie_def new_mpt_def)
  then have root: "fst (mpt_commit (mb_account_trie b')) = fst (mpt_commit (account_trie db))"
    using mpt_commit_root[OF ok'] mpt_commit_root[OF account_trie_ok[OF assms(1)]] by simp
  obtain r where r: "fst (mpt_commit (account_trie db)) = Inr r" using mpt_commit_root[OF account_trie_ok[OF assms(1)]] by blast
  have "fst (mb_commit b) = Inr r" using b'(1) root r by (simp add: mb_commit_def Let_def seqM_def bindM_def case_prod_beta)
  then show ?thesis using b(1) r by (simp add: compute_state_root_def seqM_def bindM_def)
qed

section \<open>What the roots tell apart\<close>

lemma slot_payload_inj: "slot_payload v = slot_payload w \<Longrightarrow> v \<noteq> 0 \<Longrightarrow> w \<noteq> 0 \<Longrightarrow> v = w"
  using deserialize_slot_payload by (metis sum.inject(2))

lemma storage_slots_get:
  assumes "storage_wf (acc_storage acc)"
  shows "storage_get (acc_storage acc) k
    = (case dict_get (storage_slots acc) (word_of_int k) of None \<Rightarrow> 0 | Some v \<Rightarrow> uint v)"
proof -
  let ?st = "acc_storage acc" and ?k = "storage_normalize k"
  have wf: "dict_wf ?st" "dict_wf (storage_slots acc)" using assms storage_slots_wf[OF assms] by (simp_all add: storage_wf_def)
  have k: "(word_of_int k :: u256) = word_of_int ?k" by (simp add: storage_normalize_eq word_of_int_eq_iff take_bit_eq_mod)
  have "(word_of_int ?k, w) \<in> set (storage_slots acc) \<longleftrightarrow> (\<exists>s. (?k, s) \<in> set ?st \<and> slot_current s \<noteq> 0 \<and> w = word_of_int (slot_current s))" for w
  proof
    assume "(word_of_int ?k, w) \<in> set (storage_slots acc)"
    then obtain x s where x: "(x, s) \<in> set ?st" "slot_current s \<noteq> 0" "w = word_of_int (slot_current s)"
      "(word_of_int ?k :: u256) = word_of_int x"
      by (auto simp: storage_slots_def set_storage_items)
    have "word_range x" using assms x(1) by (auto simp: storage_wf_def)
    then have "x = ?k" using x(4) word_of_int_range[of x] word_of_int_range[of ?k] by simp
    then show "\<exists>s. (?k, s) \<in> set ?st \<and> slot_current s \<noteq> 0 \<and> w = word_of_int (slot_current s)" using x by blast
  qed (force simp: storage_slots_def set_storage_items)
  then have mem: "dict_get (storage_slots acc) (word_of_int ?k) = Some w
      \<longleftrightarrow> (\<exists>s. dict_get ?st ?k = Some s \<and> slot_current s \<noteq> 0 \<and> w = word_of_int (slot_current s))" for w
    using wf by (simp add: map_of_eq_Some_iff)
  show ?thesis
  proof (cases "dict_get (storage_slots acc) (word_of_int ?k)")
    case None
    then have "dict_get ?st ?k = Some s \<Longrightarrow> slot_current s = 0" for s using mem by (metis option.distinct(1))
    then show ?thesis using None k by (simp add: storage_get_def storage_slot_def empty_slot_def split: option.splits)
  next
    case (Some w)
    then obtain s where s: "dict_get ?st ?k = Some s" "w = word_of_int (slot_current s)" using mem by blast
    have "word_range (slot_current s)" using assms s(1) by (auto simp: storage_wf_def dest: map_of_SomeD)
    then show ?thesis using Some s k by (simp add: storage_get_def storage_slot_def word_of_int_range)
  qed
qed

lemma equal_slots_iff:
  assumes "storage_wf (acc_storage acc)" "storage_wf (acc_storage acc')"
  shows "set (storage_slots acc) = set (storage_slots acc')
    \<longleftrightarrow> (\<forall>k. storage_get (acc_storage acc) k = storage_get (acc_storage acc') k)"
proof -
  let ?s = "storage_slots acc" and ?s' = "storage_slots acc'"
  have wf: "dict_wf ?s" "dict_wf ?s'" using assms storage_slots_wf(1) by blast+
  have "dict_get ?s = dict_get ?s'" if eq: "\<forall>k. storage_get (acc_storage acc) k = storage_get (acc_storage acc') k"
  proof
    fix w
    have nz: "dict_get (storage_slots a) w = Some v \<Longrightarrow> uint v \<noteq> 0" if "storage_wf (acc_storage a)" for a v
    proof -
      assume "dict_get (storage_slots a) w = Some v"
      then have "v \<in> snd ` set (storage_slots a)" by (metis map_of_SomeD rev_image_eqI snd_conv)
      then show "uint v \<noteq> 0" using storage_slots_wf(2)[OF that] by (metis uint_0_iff)
    qed
    show "dict_get ?s w = dict_get ?s' w"
      using eq[rule_format, of "uint w"] nz[OF assms(1)] nz[OF assms(2)]
      unfolding storage_slots_get[OF assms(1)] storage_slots_get[OF assms(2)] word_of_int_uint
      by (auto simp: word_uint_eq_iff split: option.splits)
  qed
  moreover have "dict_get ?s = dict_get ?s' \<longleftrightarrow> set ?s = set ?s'" using map_of_inject_set[OF wf] by blast
  ultimately show ?thesis using storage_slots_get[OF assms(1)] storage_slots_get[OF assms(2)] by metis
qed

lemma keys_apart_storage:
  assumes "inj_on keccak256 (u256_bytes32 ` K)" "fst ` set (storage_slots acc) \<subseteq> K" "fst ` set (storage_slots acc') \<subseteq> K"
  shows "keys_apart (storage_trie acc) (storage_trie acc')"
proof -
  have "inj_on storage_trie_key (u256_bytes32 ` K)"
    using assms(1) by (auto simp: inj_on_def storage_trie_key_def dest!: hash_bytes_inj)
  moreover have "fst ` set (mpt_entries (storage_trie a)) = u256_bytes32 ` fst ` set (storage_slots a)" for a
    by (simp add: storage_trie_def slot_entry_def image_image)
  then have "fst ` set (mpt_entries (storage_trie acc)) \<union> fst ` set (mpt_entries (storage_trie acc')) \<subseteq> u256_bytes32 ` K"
    using assms(2,3) by auto
  ultimately show ?thesis by (simp add: keys_apart_def storage_trie_def new_mpt_def inj_on_subset)
qed

lemma storage_root_equal_iff:
  assumes "account_wf acc" "account_wf acc'"
    "inj_on keccak256 (u256_bytes32 ` K)" "fst ` set (storage_slots acc) \<subseteq> K" "fst ` set (storage_slots acc') \<subseteq> K"
    "inj_on keccak256 (trie_nodes (mpt_path_items (storage_trie acc)) \<union> trie_nodes (mpt_path_items (storage_trie acc')))"
  shows "storage_root_of acc = storage_root_of acc'
    \<longleftrightarrow> (\<forall>k. storage_get (acc_storage acc) k = storage_get (acc_storage acc') k)"
proof -
  let ?t = "storage_trie acc" and ?t' = "storage_trie acc'"
  have wf: "storage_wf (acc_storage acc)" "storage_wf (acc_storage acc')" using assms(1,2) by (simp_all add: account_wf_def)
  note slots = storage_trie_slots[OF assms(1)] storage_trie_slots[OF assms(2)]
  note ok = trie_slots_ok[OF slots(1)] trie_slots_ok[OF slots(2)]
  have "storage_root_of acc = storage_root_of acc' \<longleftrightarrow> (\<forall>key. mpt_get ?t key = mpt_get ?t' key)"
    using mpt_roots_equal_iff[OF ok _ keys_apart_storage[OF assms(3-5)] assms(6)] mpt_commit_root[OF ok(1)] mpt_commit_root[OF ok(2)]
    by (simp add: storage_root_of_def) (simp add: storage_trie_def new_mpt_def)
  also have "\<dots> \<longleftrightarrow> slot_entry ` set (storage_slots acc) = slot_entry ` set (storage_slots acc')"
    unfolding equal_gets_equal_entries[OF ok] by (simp add: storage_trie_def)
  also have "\<dots> \<longleftrightarrow> set (storage_slots acc) = set (storage_slots acc')"
  proof (rule inj_on_image_eq_iff[of slot_entry "set (storage_slots acc) \<union> set (storage_slots acc')"])
    have "\<forall>v \<in> snd ` (set (storage_slots acc) \<union> set (storage_slots acc')). v \<noteq> 0"
      using storage_slots_wf(2)[OF wf(1)] storage_slots_wf(2)[OF wf(2)] by blast
    then show "inj_on slot_entry (set (storage_slots acc) \<union> set (storage_slots acc'))"
      by (force simp: inj_on_def slot_entry_def u256_bytes32_inj dest: slot_payload_inj)
  qed simp_all
  also have "\<dots> \<longleftrightarrow> (\<forall>k. storage_get (acc_storage acc) k = storage_get (acc_storage acc') k)" by (rule equal_slots_iff[OF wf])
  finally show ?thesis .
qed

text \<open>
  The byte strings of one kind that the two computations hash: address and slot keys, code, the nodes of
  the storage tries, the nodes of the account tries.
\<close>

definition live_set :: "statedb \<Rightarrow> statedb \<Rightarrow> (address \<times> account) set" where
  "live_set db db' = set (live_accounts db) \<union> set (live_accounts db')"

definition hashes_apart :: "statedb \<Rightarrow> statedb \<Rightarrow> bool" where
  "hashes_apart db db' \<longleftrightarrow>
     inj_on keccak256 (address_bytes ` fst ` live_set db db')
     \<and> inj_on keccak256 (acc_code ` snd ` live_set db db')
     \<and> inj_on keccak256 (u256_bytes32 ` (\<Union>acc \<in> snd ` live_set db db'. fst ` set (storage_slots acc)))
     \<and> inj_on keccak256 (\<Union>acc \<in> snd ` live_set db db'. trie_nodes (mpt_path_items (storage_trie acc)))
     \<and> inj_on keccak256 (trie_nodes (mpt_path_items (account_trie db)) \<union> trie_nodes (mpt_path_items (account_trie db')))"

definition same_contents :: "account \<Rightarrow> account \<Rightarrow> bool" where
  "same_contents acc acc' \<longleftrightarrow>
     acc_nonce acc = acc_nonce acc' \<and> acc_balance acc = acc_balance acc' \<and> acc_code acc = acc_code acc'
     \<and> (\<forall>k. storage_get (acc_storage acc) k = storage_get (acc_storage acc') k)"

lemma int_bytes_inj: "0 \<le> n \<Longrightarrow> 0 \<le> m \<Longrightarrow> int_bytes n = int_bytes m \<Longrightarrow> n = m"
  by (metis be_int_int_bytes)

lemma account_fields_small:
  assumes "account_wf acc"
  shows "flat_small [int_bytes (acc_nonce acc), int_bytes (acc_balance acc), hash_bytes (storage_root_of acc),
    hash_bytes (keccak256 (acc_code acc))]"
proof -
  have "length (int_bytes (acc_nonce acc)) \<le> 32" "length (int_bytes (acc_balance acc)) \<le> 32"
    using assms by (auto simp: account_wf_def word_range_def intro!: byte_length_le)
  then show ?thesis by (simp add: flat_small_def)
qed

lemma account_payload_equal_iff:
  assumes "hashes_apart db db'" "acc \<in> snd ` live_set db db'" "acc' \<in> snd ` live_set db db'" "account_wf acc" "account_wf acc'"
  shows "account_payload acc = account_payload acc' \<longleftrightarrow> same_contents acc acc'"
proof -
  let ?K = "\<Union>acc \<in> snd ` live_set db db'. fst ` set (storage_slots acc)"
  have nodes: "inj_on keccak256 (trie_nodes (mpt_path_items (storage_trie acc)) \<union> trie_nodes (mpt_path_items (storage_trie acc')))"
    using assms(1-3) unfolding hashes_apart_def by (blast intro: inj_on_subset)
  have keys: "inj_on keccak256 (u256_bytes32 ` ?K)" using assms(1) unfolding hashes_apart_def by blast
  have root: "storage_root_of acc = storage_root_of acc'
      \<longleftrightarrow> (\<forall>k. storage_get (acc_storage acc) k = storage_get (acc_storage acc') k)"
    using assms(2,3) by (intro storage_root_equal_iff[OF assms(4,5) keys _ _ nodes]) blast+
  have code: "keccak256 (acc_code acc) = keccak256 (acc_code acc') \<longleftrightarrow> acc_code acc = acc_code acc'"
    using assms(1-3) unfolding hashes_apart_def by (metis image_eqI inj_onD)
  have nonneg: "0 \<le> acc_nonce a" "0 \<le> acc_balance a" if "account_wf a" for a
    using that by (simp_all add: account_wf_def word_range_def)
  have "account_payload acc = account_payload acc'
      \<longleftrightarrow> int_bytes (acc_nonce acc) = int_bytes (acc_nonce acc') \<and> int_bytes (acc_balance acc) = int_bytes (acc_balance acc')
        \<and> hash_bytes (storage_root_of acc) = hash_bytes (storage_root_of acc')
        \<and> hash_bytes (keccak256 (acc_code acc)) = hash_bytes (keccak256 (acc_code acc'))"
    using flat_ref_inj[OF account_fields_small[OF assms(4)] account_fields_small[OF assms(5)]]
    unfolding account_payload_def by fastforce
  then show ?thesis
    using root code nonneg[OF assms(4)] nonneg[OF assms(5)]
    unfolding same_contents_def by (metis hash_bytes_inj int_bytes_inj)
qed

lemma same_contents_sym: "same_contents acc acc' \<longleftrightarrow> same_contents acc' acc"
  by (auto simp: same_contents_def)

lemma same_contents_trans: "same_contents acc acc' \<Longrightarrow> same_contents acc' acc'' \<Longrightarrow> same_contents acc acc''"
  by (simp add: same_contents_def)

lemma storage_items_nil_iff: "storage_items False (acc_storage acc) = [] \<longleftrightarrow> set (storage_slots acc) = {}"
  by (simp add: storage_slots_def)

lemma account_is_empty_iff:
  assumes "account_wf acc"
  shows "account_is_empty acc \<longleftrightarrow> same_contents acc new_account"
proof -
  have new: "storage_slots new_account = []" "acc_nonce new_account = 0" "acc_balance new_account = 0" "acc_code new_account = []"
    by (simp_all add: new_account_def mk_account_def storage_slots_def storage_items_def)
  have wf: "storage_wf (acc_storage acc)" "storage_wf (acc_storage new_account)"
    using assms new_account_wf by (simp_all add: account_wf_def)
  show ?thesis
    unfolding account_is_empty_def same_contents_def storage_items_nil_iff
    using equal_slots_iff[OF wf] by (simp add: new)
qed

lemma live_iff:
  assumes "db_wf db"
  shows "(a, acc) \<in> set (live_accounts db) \<longleftrightarrow> acct db a = acc \<and> \<not> account_is_empty acc"
proof -
  have "dict_wf db" using assms by (simp add: db_wf_def)
  moreover have "account_is_empty new_account" using account_is_empty_iff[OF new_account_wf] by (simp add: same_contents_def)
  moreover have "(a, acc) \<in> set db \<longleftrightarrow> dict_get db a = Some acc" using \<open>dict_wf db\<close> by simp
  ultimately show ?thesis by (auto simp: live_accounts_def acct_def simp del: map_of_eq_Some_iff split: option.splits)
qed

lemma account_entry_iff:
  assumes "db_wf db"
  shows "(address_bytes a, payload) \<in> set (mpt_entries (account_trie db))
    \<longleftrightarrow> \<not> account_is_empty (acct db a) \<and> payload = account_payload (acct db a)"
proof
  assume "(address_bytes a, payload) \<in> set (mpt_entries (account_trie db))"
  then show "\<not> account_is_empty (acct db a) \<and> payload = account_payload (acct db a)"
    using live_iff[OF assms] by (auto simp: account_trie_def address_bytes_inj)
next
  assume "\<not> account_is_empty (acct db a) \<and> payload = account_payload (acct db a)"
  moreover from this have "(a, acct db a) \<in> set (live_accounts db)" using live_iff[OF assms] by simp
  ultimately show "(address_bytes a, payload) \<in> set (mpt_entries (account_trie db))"
    by (auto simp: account_trie_def intro: rev_image_eqI)
qed

lemma live_setI: "db_wf db \<Longrightarrow> \<not> account_is_empty (acct db a) \<Longrightarrow> acct db a \<in> snd ` live_set db db'"
  "db_wf db' \<Longrightarrow> \<not> account_is_empty (acct db' a) \<Longrightarrow> acct db' a \<in> snd ` live_set db db'"
  using live_iff[of db a "acct db a"] live_iff[of db' a "acct db' a"] by (force simp: live_set_def)+

lemma account_entries_subset_iff:
  assumes "db_wf db" "db_wf db'" "hashes_apart db db'"
  shows "set (mpt_entries (account_trie db)) \<subseteq> set (mpt_entries (account_trie db'))
    \<longleftrightarrow> (\<forall>a. account_is_empty (acct db a) \<or> same_contents (acct db a) (acct db' a))"
proof -
  have "(address_bytes a, account_payload (acct db a)) \<in> set (mpt_entries (account_trie db')) \<longleftrightarrow> same_contents (acct db a) (acct db' a)"
    if live: "\<not> account_is_empty (acct db a)" for a
  proof (cases "account_is_empty (acct db' a)")
    case True
    then have "\<not> same_contents (acct db a) (acct db' a)"
      using live account_is_empty_iff[OF db_wf_acct[OF assms(1)]] account_is_empty_iff[OF db_wf_acct[OF assms(2)]]
      by (auto dest: same_contents_trans)
    then show ?thesis using True account_entry_iff[OF assms(2)] by simp
  next
    case False
    then show ?thesis
      using account_entry_iff[OF assms(2)]
        account_payload_equal_iff[OF assms(3) live_setI(1)[OF assms(1) live] live_setI(2)[OF assms(2) False]
          db_wf_acct[OF assms(1)] db_wf_acct[OF assms(2)]] by simp
  qed
  moreover have "set (mpt_entries (account_trie db))
      = (\<lambda>a. (address_bytes a, account_payload (acct db a))) ` {a. \<not> account_is_empty (acct db a)}"
  proof -
    have "\<exists>a. p = (address_bytes a, snd p)" if "p \<in> set (mpt_entries (account_trie db))" for p
      using that by (auto simp: account_trie_def)
    then show ?thesis using account_entry_iff[OF assms(1)] by (fastforce simp: image_iff)
  qed
  ultimately show ?thesis by auto
qed

lemma hashes_apart_sym: "hashes_apart db db' \<longleftrightarrow> hashes_apart db' db"
  by (simp add: hashes_apart_def live_set_def Un_commute)

text \<open>
  C15. The state root commits to the observable state: on well-formed state databases
  \<open>compute_state_root\<close> never raises, and with no hash collision among what the two computations
  hash, two databases have the same root exactly when the interpreter reads the same nonces, balances,
  code and storage from both, whatever empty accounts, original slot values or insertion order they hold.
\<close>

theorem state_root_commits:
  assumes "db_wf db" "db_wf db'" "hashes_apart db db'"
  shows "\<exists>r r'. compute_state_root db = Inr r \<and> compute_state_root db' = Inr r'
    \<and> (r = r' \<longleftrightarrow> (\<forall>a. get_nonce db a = get_nonce db' a \<and> get_balance db a = get_balance db' a
          \<and> get_code db a = get_code db' a \<and> (\<forall>k. get_storage db a k = get_storage db' a k)))"
proof -
  let ?A = "fst ` live_set db db'"
  have apart: "inj_on keccak256 (address_bytes ` ?A)"
    and nodes: "inj_on keccak256 (trie_nodes (mpt_path_items (account_trie db)) \<union> trie_nodes (mpt_path_items (account_trie db')))"
    using assms(3) unfolding hashes_apart_def by blast+
  have sub: "fst ` set (live_accounts db) \<subseteq> ?A" "fst ` set (live_accounts db') \<subseteq> ?A" by (auto simp: live_set_def)
  note ok = account_trie_ok[OF assms(1)] account_trie_ok[OF assms(2)]
  have trans: "mpt_key_transform (account_trie d) = address_trie_key" for d by (simp add: account_trie_def new_mpt_def)
  have keys: "keys_apart (account_trie db) (account_trie db')"
    by (rule account_keys_apart[OF apart sub subset_refl subset_refl trans])
  note runs = compute_state_root_run[OF assms(1) apart sub(1)] compute_state_root_run[OF assms(2) apart sub(2)]
  have "compute_state_root db = compute_state_root db'
      \<longleftrightarrow> set (mpt_entries (account_trie db)) = set (mpt_entries (account_trie db'))"
    using mpt_roots_equal_iff[OF ok _ keys nodes] equal_gets_equal_entries[OF ok] unfolding runs by (simp add: trans)
  also have "\<dots> \<longleftrightarrow> (\<forall>a. (account_is_empty (acct db a) \<or> same_contents (acct db a) (acct db' a))
      \<and> (account_is_empty (acct db' a) \<or> same_contents (acct db' a) (acct db a)))"
    using account_entries_subset_iff[OF assms] account_entries_subset_iff[OF assms(2,1)] assms(3) hashes_apart_sym
    by (simp add: set_eq_subset) blast
  also have "\<dots> \<longleftrightarrow> (\<forall>a. same_contents (acct db a) (acct db' a))"
    using account_is_empty_iff[OF db_wf_acct[OF assms(1)]] account_is_empty_iff[OF db_wf_acct[OF assms(2)]]
      same_contents_sym same_contents_trans by metis
  finally show ?thesis
    using mpt_commit_root[OF ok(1)] mpt_commit_root[OF ok(2)] unfolding runs by (simp add: db_readers same_contents_def)
qed

text \<open>
  A state and the same state after its slot was committed (its original value is the current one) and an
  empty account was touched.
\<close>

theorem state_root_commits_witness:
  "compute_state_root [(1, mk_account 1 7 [] [(1, \<lparr>slot_original = 0, slot_current = 5\<rparr>)])]
     = compute_state_root [(2, new_account), (1, mk_account 1 7 [] [(1, \<lparr>slot_original = 5, slot_current = 5\<rparr>)])]"
proof -
  let ?acc = "\<lambda>v. mk_account 1 7 [] [(1, \<lparr>slot_original = v, slot_current = 5\<rparr>)]"
  let ?db = "[(1 :: address, ?acc 0)]" and ?db' = "[(2 :: address, new_account), (1, ?acc 5)]"
  have wf: "db_wf ?db" "db_wf ?db'"
    using new_account_wf
    by (simp_all add: db_wf_def account_wf_def mk_account_def storage_wf_def word_range_def)
  have live: "live_accounts ?db = [(1, ?acc 0)]" "live_accounts ?db' = [(1, ?acc 5)]"
    by (simp_all add: live_accounts_def account_is_empty_def mk_account_def new_account_def storage_items_def)
  have slots: "storage_slots (?acc v) = [(1, 5)]" for v
    by (simp add: storage_slots_def storage_items_def mk_account_def)
  have storage: "storage_trie (?acc v) = storage_trie (?acc 0)" for v by (simp only: storage_trie_def slots)
  obtain s where s: "mpt_path_items (storage_trie (?acc 0)) = [s]"
    by (simp add: storage_trie_def slots mpt_path_items_def mpt_sorted_def slot_entry_def new_mpt_def storage_trie_key_def)
  have entries: "account_trie ?db' = account_trie ?db"
    by (simp add: account_trie_def live account_payload_def storage_root_of_def storage[of 5]) (simp add: mk_account_def)
  obtain p where p: "mpt_path_items (account_trie ?db) = [p]"
    by (simp add: account_trie_def live mpt_path_items_def mpt_sorted_def new_mpt_def address_trie_key_def ADDRESS_SIZE_def)
  have "hashes_apart ?db ?db'"
    by (simp add: hashes_apart_def live_set_def live slots storage[of 5] s p entries trie_nodes_single)
      (simp add: mk_account_def)
  from state_root_commits[OF wf this] show ?thesis
    by (auto simp: db_readers acct_def mk_account_def new_account_def storage_get_def storage_slot_def empty_slot_def)
qed

end
