(* ===== verification/Block_Binding.thy ===== *)
theory Block_Binding
  imports Blocks State_Root
begin

text \<open>
  What header hashes and roots commit to. A well-formed header is read back from its encoding, so two
  headers with one hash are equal unless the hash function collides on their encodings. The root of a
  list of transactions or receipts determines the list of their encodings in order and length.
\<close>

section \<open>Headers\<close>

definition header_wf :: "block_header \<Rightarrow> bool" where
  "header_wf h \<longleftrightarrow> header_validate h = Inr () \<and> length (bh_logs_bloom h) = 256 \<and> length (bh_nonce h) = 8"

definition header_small :: "block_header \<Rightarrow> bool" where
  "header_small h \<longleftrightarrow>
     (\<forall>v \<in> {bh_difficulty h, bh_number h, bh_gas_limit h, bh_gas_used h, bh_timestamp h} \<union> set_option (bh_base_fee h).
        v < 2 ^ 256)"

lemma header_wf_bounds:
  assumes "header_wf h"
  shows "0 \<le> bh_difficulty h" "0 \<le> bh_number h" "0 \<le> bh_gas_limit h" "0 \<le> bh_gas_used h" "bh_gas_used h \<le> bh_gas_limit h"
    "0 \<le> bh_timestamp h" "length (bh_extra_data h) \<le> 32" "bh_base_fee h = Some fee \<Longrightarrow> 0 \<le> fee"
  using assms by (auto simp: header_wf_def header_validate_def MAX_EXTRA_DATA_BYTES_def split: if_splits option.splits)

definition args_of_header :: "block_header \<Rightarrow> header_args" where
  "args_of_header h =
     \<lparr>ha_parent_hash = HashObj (bh_parent_hash h), ha_ommers_hash = HashObj (bh_ommers_hash h),
      ha_coinbase = ArgAddress (bh_coinbase h), ha_state_root = HashObj (bh_state_root h),
      ha_transactions_root = HashObj (bh_transactions_root h), ha_receipts_root = HashObj (bh_receipts_root h),
      ha_logs_bloom = bh_logs_bloom h, ha_difficulty = bh_difficulty h, ha_number = bh_number h,
      ha_gas_limit = bh_gas_limit h, ha_gas_used = bh_gas_used h, ha_timestamp = bh_timestamp h,
      ha_extra_data = bh_extra_data h, ha_mix_hash = HashObj (bh_mix_hash h), ha_nonce = bh_nonce h,
      ha_base_fee = bh_base_fee h\<rparr>"

lemma header_bytes_arg_Inr:
  "header_bytes_arg raw n = Inr bs \<longleftrightarrow> bs = raw \<and> (case n of None \<Rightarrow> True | Some k \<Rightarrow> length raw = k)"
  by (auto simp: header_bytes_arg_def split: option.splits)

lemma mk_block_header_wf: "mk_block_header a = Inr h \<Longrightarrow> header_wf h"
  by (auto simp: mk_block_header_def Let_def header_wf_def header_bytes_arg_Inr)

lemma mk_block_header_args: "header_wf h \<Longrightarrow> mk_block_header (args_of_header h) = Inr h"
  by (cases h) (simp add: mk_block_header_def args_of_header_def header_hash_arg_def header_address_arg_def
      header_bytes_arg_def header_wf_def Let_def)

lemma header_from_fields_wf: "header_from_fields items = Inr h \<Longrightarrow> header_wf h"
  by (auto simp only: header_from_fields_def Let_def sum.distinct dest: mk_block_header_wf split: if_splits)

lemma header_rlp_decode_wf: "header_rlp_decode bs = Inr h \<Longrightarrow> header_wf h"
proof -
  assume "header_rlp_decode bs = Inr h"
  then obtain v where "(case v of RBytes _ \<Rightarrow> Inl ValueError | RList items \<Rightarrow> header_from_fields items) = Inr h"
    by (auto simp: header_rlp_decode_def)
  then show "header_wf h" by (cases v) (auto dest: header_from_fields_wf)
qed

subsection \<open>Encoding\<close>

definition header_raw :: "block_header \<Rightarrow> bytes list" where
  "header_raw h =
     [hash_bytes (bh_parent_hash h), hash_bytes (bh_ommers_hash h), address_bytes (bh_coinbase h),
      hash_bytes (bh_state_root h), hash_bytes (bh_transactions_root h), hash_bytes (bh_receipts_root h),
      bh_logs_bloom h, int_bytes (bh_difficulty h), int_bytes (bh_number h), int_bytes (bh_gas_limit h),
      int_bytes (bh_gas_used h), int_bytes (bh_timestamp h), bh_extra_data h, hash_bytes (bh_mix_hash h), bh_nonce h]
     @ (case bh_base_fee h of None \<Rightarrow> [] | Some fee \<Rightarrow> [int_bytes fee])"

lemma header_image: "rlp_image (ObjList (header_fields h)) = RList (map RBytes (header_raw h))"
  by (simp add: header_fields_def header_raw_def split: option.splits)

lemma header_rlp_ok: "header_wf h \<Longrightarrow> rlp_ok (ObjList (header_fields h))"
  using header_wf_bounds[of h] by (auto simp: header_fields_def split: option.splits)

lemma int_bytes_word_le: "0 \<le> v \<Longrightarrow> v < 2 ^ 256 \<Longrightarrow> length (int_bytes v) \<le> 32"
  by (auto intro!: byte_length_le)

lemma header_raw_lengths:
  assumes "header_wf h" "header_small h" "x \<in> set (header_raw h)"
  shows "length x \<le> 32 \<or> length x = 256"
proof -
  note b = header_wf_bounds[OF assms(1)]
  have small: "v < 2 ^ 256"
    if "v \<in> {bh_difficulty h, bh_number h, bh_gas_limit h, bh_gas_used h, bh_timestamp h} \<union> set_option (bh_base_fee h)" for v
    using that assms(2) unfolding header_small_def by blast
  have ints: "length (int_bytes (bh_difficulty h)) \<le> 32" "length (int_bytes (bh_number h)) \<le> 32"
    "length (int_bytes (bh_gas_limit h)) \<le> 32" "length (int_bytes (bh_gas_used h)) \<le> 32"
    "length (int_bytes (bh_timestamp h)) \<le> 32"
    by (rule int_bytes_word_le; use b small in blast)+
  have fee: "length (int_bytes fee) \<le> 32" if "bh_base_fee h = Some fee" for fee
    by (rule int_bytes_word_le) (use that b(8) small in auto)
  have "length (bh_logs_bloom h) = 256" "length (bh_nonce h) = 8" using assms(1) by (simp_all add: header_wf_def)
  then show ?thesis
    using assms(3) b(7) ints fee
    by (cases "bh_base_fee h") (auto simp: header_raw_def simp del: be_bytes_length)
qed

lemma header_payload_length:
  assumes "header_wf h" "header_small h"
  shows "256 \<le> length (concat (map rlp_encode_bytes (header_raw h)))"
    "length (concat (map rlp_encode_bytes (header_raw h))) \<le> 16 * (2 ^ 40 + 9)"
    "length (concat (map rlp_encode_bytes (header_raw h))) < 256 ^ 8"
proof -
  have "256 \<le> length (rlp_encode_bytes (bh_logs_bloom h))"
    using assms(1) by (simp add: header_wf_def rlp_encode_bytes_def Let_def)
  then show "256 \<le> length (concat (map rlp_encode_bytes (header_raw h)))" by (simp add: header_raw_def)
  have "length x < 2 ^ 40" if "x \<in> set (header_raw h)" for x using header_raw_lengths[OF assms that] by auto
  then have "length (concat (map rlp_encode_bytes (header_raw h))) \<le> length (header_raw h) * (2 ^ 40 + 9)"
    by (intro flat_payload_le) blast
  also have "\<dots> \<le> 16 * (2 ^ 40 + 9)" by (intro mult_right_mono) (simp_all add: header_raw_def split: option.splits)
  finally show "length (concat (map rlp_encode_bytes (header_raw h))) \<le> 16 * (2 ^ 40 + 9)" .
  then show "length (concat (map rlp_encode_bytes (header_raw h))) < 256 ^ 8" by (rule le_less_trans) simp
qed

lemma header_clean:
  assumes "header_wf h" "header_small h"
  shows "rlp_fits (RList (map RBytes (header_raw h)))" "\<not> rlp_has55 (RList (map RBytes (header_raw h)))"
proof -
  have each: "length x < 256 ^ 8 \<and> length x \<noteq> 55" if "x \<in> set (header_raw h)" for x
    using header_raw_lengths[OF assms that] by auto
  then show "rlp_fits (RList (map RBytes (header_raw h)))" "\<not> rlp_has55 (RList (map RBytes (header_raw h)))"
    using header_payload_length[OF assms] by (auto simp: list_all_iff list_ex_iff comp_def)
qed

lemma header_encode:
  "header_wf h \<Longrightarrow> header_rlp_encode h = Inr (flat_ref (header_raw h))"
  using rlp_encode_image[OF header_rlp_ok] by (simp only: header_rlp_encode_def header_image)

lemma header_decode_raw:
  assumes "header_wf h"
  shows "header_from_fields (map RBytes (header_raw h)) = Inr h"
proof -
  note b = header_wf_bounds[OF assms]
  have int: "header_int (int_bytes v) = v" if "0 \<le> v" for v
    using that be_int_int_bytes[OF that] by (simp add: header_int_def del: be_bytes.simps)
  have mk: "header_validate h = Inr ()" "length (bh_logs_bloom h) = 256" "length (bh_nonce h) = 8"
    using assms by (simp_all add: header_wf_def)
  show ?thesis
  proof (cases "bh_base_fee h")
    case None
    then show ?thesis
      using b int mk
      by (cases h) (simp add: header_from_fields_def header_raw_def mk_block_header_def header_hash_arg_def
          header_address_arg_def header_bytes_arg_def HASH_SIZE_def ADDRESS_SIZE_def)
  next
    case (Some fee)
    then show ?thesis
      using b int mk
      by (cases h) (simp add: header_from_fields_def header_raw_def mk_block_header_def header_hash_arg_def
          header_address_arg_def header_bytes_arg_def HASH_SIZE_def ADDRESS_SIZE_def)
  qed
qed

lemma header_decode_encode:
  assumes "header_wf h" "header_small h"
  shows "header_rlp_decode (flat_ref (header_raw h)) = Inr h"
  using rlp_decode_ref[OF header_clean(1)[OF assms]] header_clean(2)[OF assms] header_decode_raw[OF assms(1)]
  by (simp add: header_rlp_decode_def del: rlp_has55.simps)

lemma header_hash_value: "header_wf h \<Longrightarrow> header_hash h = Inr (keccak256 (flat_ref (header_raw h)))"
  by (simp add: header_hash_def header_encode)

text \<open>The encoding determines the header, so a hash determines it where the hash function does not collide.\<close>

lemma header_encoding_inj:
  assumes "header_wf h" "header_small h" "header_wf h'" "header_small h'"
    "flat_ref (header_raw h) = flat_ref (header_raw h')"
  shows "h = h'"
  using header_decode_encode[OF assms(1,2)] header_decode_encode[OF assms(3,4)] assms(5) by (metis sum.inject(2))

section \<open>List roots\<close>

text \<open>The values stored for a list of already encoded elements.\<close>

definition index_key :: "nat \<Rightarrow> bytes" where
  "index_key index = rlp_encode_bytes (int_bytes (int index))"

definition index_entries :: "nat \<Rightarrow> bytes list \<Rightarrow> (bytes \<times> bytes) list" where
  "index_entries start vs = map (\<lambda>(i, value). (index_key (start + i), value)) (enumerate 0 vs)"

definition list_trie :: "bytes list \<Rightarrow> mpt" where
  "list_trie vs = (new_mpt Inr)\<lparr>mpt_entries := index_entries 0 vs\<rparr>"

lemma index_entries_Cons: "index_entries start (v # vs) = (index_key start, v) # index_entries (Suc start) vs"
proof -
  have "enumerate (Suc 0) vs = map (\<lambda>(i, v). (Suc i, v)) (enumerate 0 vs)"
    by (simp add: enumerate_eq_zip map_Suc_upt[symmetric] zip_map1 del: upt_Suc)
  then show ?thesis by (simp add: index_entries_def comp_def case_prod_unfold)
qed

lemma encode_index: "rlp_encode (ObjInt (int index)) = Inr (index_key index)"
  using rlp_encode_image[of "ObjInt (int index)"] by (simp add: index_key_def del: rlp_encode.simps)

lemma index_bytes_length: "i < 2 ^ 64 \<Longrightarrow> length (int_bytes (int i)) \<le> 8"
proof -
  assume "i < 2 ^ 64"
  then have "int i < 256 ^ 8" by simp
  then show ?thesis by (auto intro!: byte_length_le)
qed

lemma index_key_inj: "i < 2 ^ 64 \<Longrightarrow> j < 2 ^ 64 \<Longrightarrow> index_key i = index_key j \<Longrightarrow> i = j"
proof -
  assume bound: "i < 2 ^ 64" "j < 2 ^ 64" and eq: "index_key i = index_key j"
  have small: "length (int_bytes (int k)) < 256 ^ 8" if "k < 2 ^ 64" for k
    by (rule le_less_trans[OF index_bytes_length[OF that]]) simp
  have "int_bytes (int i) = int_bytes (int j)"
    using rlp_encode_bytes_prefix_free[OF small[OF bound(1)] small[OF bound(2)], of "[]" "[]"] eq by (simp add: index_key_def)
  then show "i = j" using int_bytes_inj by (metis of_nat_0_le_iff of_nat_eq_iff)
qed

lemma index_key_length: "i < 2 ^ 64 \<Longrightarrow> length (index_key i) < 2 ^ 8"
  using index_bytes_length[of i] by (auto simp: index_key_def rlp_encode_bytes_def Let_def)

lemma index_entries_keys: "fst ` set (index_entries start vs) = (\<lambda>i. index_key (start + i)) ` {..<length vs}"
proof -
  have "map fst (index_entries start vs) = map (\<lambda>i. index_key (start + i)) (map fst (enumerate 0 vs))"
    by (simp add: index_entries_def comp_def case_prod_unfold del: map_fst_enumerate)
  also have "\<dots> = map (\<lambda>i. index_key (start + i)) [0..<length vs]" by (simp only: map_fst_enumerate add_0)
  finally have "set (map fst (index_entries start vs)) = set (map (\<lambda>i. index_key (start + i)) [0..<length vs])" by (rule arg_cong)
  then show ?thesis by (simp add: atLeast0LessThan)
qed

lemma index_entries_get:
  assumes "start + i < 2 ^ 64" "start + length vs < 2 ^ 64"
  shows "dict_get (index_entries start vs) (index_key (start + i)) = (if i < length vs then Some (vs ! i) else None)"
  using assms
proof (induction vs arbitrary: start i)
  case (Cons v vs)
  show ?case
  proof (cases i)
    case (Suc j)
    have "index_key start \<noteq> index_key (start + i)" using Cons.prems index_key_inj[of start "start + i"] Suc by auto
    moreover have "dict_get (index_entries (Suc start) vs) (index_key (Suc start + j)) = (if j < length vs then Some (vs ! j) else None)"
      using Cons.prems Suc by (intro Cons.IH) simp_all
    ultimately show ?thesis using Suc by (simp add: index_entries_Cons)
  qed (simp add: index_entries_Cons)
qed (simp add: index_entries_def)

lemma index_entries_wf:
  assumes "start + length vs < 2 ^ 64"
  shows "dict_wf (index_entries start vs)"
  using assms
proof (induction vs arbitrary: start)
  case (Cons v vs)
  have "index_key start \<notin> fst ` set (index_entries (Suc start) vs)"
    using Cons.prems by (auto simp: index_entries_keys dest!: index_key_inj[rotated 2])
  then show ?case using Cons by (simp add: index_entries_Cons)
qed (simp add: index_entries_def)

lemma fill_list_trie_run:
  assumes "start + length xs < 2 ^ 64" "\<And>i. i < length xs \<Longrightarrow> index_key (start + i) \<notin> fst ` set (mpt_entries t)"
  shows "fill_list_trie f start xs t
    = bindR (mapR f xs) (\<lambda>vs. Inr (t\<lparr>mpt_entries := mpt_entries t @ index_entries start vs\<rparr>))"
  using assms
proof (induction xs arbitrary: start t)
  case Nil
  then show ?case by (simp add: index_entries_def)
next
  case (Cons x xs)
  show ?case
  proof (cases "f x")
    case (Inr v)
    let ?t = "mpt_update (index_key start) v t"
    have t: "?t = t\<lparr>mpt_entries := mpt_entries t @ [(index_key start, v)]\<rparr>"
    proof -
      have "index_key (start + 0) \<notin> fst ` set (mpt_entries t)" by (rule Cons.prems(2)) simp
      then show ?thesis by (simp add: mpt_update_def dict_put_new)
    qed
    have fresh: "index_key (Suc start + i) \<notin> fst ` set (mpt_entries ?t)" if i: "i < length xs" for i
    proof -
      have "index_key (Suc start + i) \<noteq> index_key start" using index_key_inj[of "Suc start + i" start] Cons.prems(1) i by auto
      moreover have "index_key (start + Suc i) \<notin> fst ` set (mpt_entries t)" by (rule Cons.prems(2)) (use i in simp)
      ultimately show "index_key (Suc start + i) \<notin> fst ` set (mpt_entries ?t)" by (simp add: t)
    qed
    have "fill_list_trie f (Suc start) xs ?t
        = bindR (mapR f xs) (\<lambda>vs. Inr (?t\<lparr>mpt_entries := mpt_entries ?t @ index_entries (Suc start) vs\<rparr>))"
      by (rule Cons.IH) (use Cons.prems(1) fresh in simp_all)
    then show ?thesis using Inr encode_index[of start] by (cases "mapR f xs") (simp_all add: t index_entries_Cons)
  qed (use encode_index[of start] in simp)
qed

lemma compute_list_root_eq:
  assumes "length xs < 2 ^ 64"
  shows "compute_list_root f xs = bindR (mapR f xs) (\<lambda>vs. mapE ExecPy (fst (mpt_commit (list_trie vs))))"
  using fill_list_trie_run[of 0 xs "new_mpt Inr" f] assms
  by (cases "mapR f xs") (simp_all add: compute_list_root_def list_trie_def new_mpt_def)

definition values_ok :: "bytes list \<Rightarrow> bool" where
  "values_ok vs \<longleftrightarrow> length vs < 2 ^ 32 \<and> (\<forall>v \<in> set vs. v \<noteq> [] \<and> length v < 2 ^ 32)"

lemma list_trie_ok:
  assumes "values_ok vs"
  shows "mpt_ok (list_trie vs)"
proof -
  have n: "0 + length vs < 2 ^ 64" using assms by (simp add: values_ok_def)
  have "snd ` set (index_entries 0 vs) \<subseteq> set vs" by (auto simp: index_entries_def in_set_enumerate_eq)
  then have "v \<noteq> [] \<and> length v < 2 ^ 32 \<and> length k < 2 ^ 31" if "(k, v) \<in> set (index_entries 0 vs)" for k v
  proof -
    assume sub: "snd ` set (index_entries 0 vs) \<subseteq> set vs"
    have "k \<in> fst ` set (index_entries 0 vs)" "v \<in> snd ` set (index_entries 0 vs)" using that by force+
    then obtain i where "k = index_key i" "i < length vs" "v \<in> set vs" using sub by (auto simp: index_entries_keys)
    moreover have "length (index_key i) < 2 ^ 31" using index_key_length[of i] n \<open>i < length vs\<close> by simp
    ultimately show ?thesis using assms by (simp add: values_ok_def)
  qed
  then show ?thesis using index_entries_wf[OF n] by (auto simp: mpt_ok_def list_trie_def new_mpt_def)
qed

lemma list_entries_inj:
  assumes "values_ok vs" "values_ok ws" "set (index_entries 0 vs) = set (index_entries 0 ws)"
  shows "vs = ws"
proof -
  have n: "length vs < 2 ^ 64" "length ws < 2 ^ 64" using assms(1,2) by (simp_all add: values_ok_def)
  have "dict_get (index_entries 0 vs) = dict_get (index_entries 0 ws)"
    using map_of_inject_set[OF index_entries_wf index_entries_wf, of 0 vs 0 ws] n assms(3) by simp
  then have get: "(if i < length vs then Some (vs ! i) else None) = (if i < length ws then Some (ws ! i) else None)"
    if "i < 2 ^ 64" for i
    using index_entries_get[of 0 i vs] index_entries_get[of 0 i ws] n that by simp
  have "length vs = length ws" using get[OF n(1)] get[OF n(2)] by (auto split: if_splits)
  moreover have "vs ! i = ws ! i" if "i < length vs" for i using get[of i] that n calculation by simp
  ultimately show ?thesis by (rule nth_equalityI)
qed

lemma list_roots_equal_iff:
  assumes "values_ok vs" "values_ok ws"
    and "inj_on keccak256 (trie_nodes (mpt_path_items (list_trie vs)) \<union> trie_nodes (mpt_path_items (list_trie ws)))"
  shows "fst (mpt_commit (list_trie vs)) = fst (mpt_commit (list_trie ws)) \<longleftrightarrow> vs = ws"
proof -
  note ok = list_trie_ok[OF assms(1)] list_trie_ok[OF assms(2)]
  have "fst (mpt_commit (list_trie vs)) = fst (mpt_commit (list_trie ws))
      \<longleftrightarrow> set (index_entries 0 vs) = set (index_entries 0 ws)"
    using mpt_roots_equal_iff[OF ok _ _ assms(3)] equal_gets_equal_entries[OF ok]
    by (simp add: list_trie_def new_mpt_def keys_apart_def)
  then show ?thesis using list_entries_inj[OF assms(1,2)] by auto
qed

section \<open>Round trips and commitments\<close>

text \<open>
  C33. A well-formed header whose integers fit 256 bits is encoded, read back unchanged, and hashed by its
  encoding; two such headers have equal encodings only if they are equal; and whatever the decoder
  accepts is well formed.
\<close>

theorem header_roundtrip:
  assumes "header_wf h" "header_small h" "header_wf h'" "header_small h'"
  shows "\<exists>bs. header_rlp_encode h = Inr bs \<and> header_rlp_decode bs = Inr h \<and> header_hash h = Inr (keccak256 bs)
    \<and> (header_rlp_encode h' = Inr bs \<longleftrightarrow> h' = h) \<and> (\<forall>raw g. header_rlp_decode raw = Inr g \<longrightarrow> header_wf g)"
  using header_encode[OF assms(1)] header_encode[OF assms(3)] header_decode_encode[OF assms(1,2)] header_hash_value[OF assms(1)]
    header_encoding_inj[OF assms(3,4,1,2)] header_rlp_decode_wf
  by (intro exI[of _ "flat_ref (header_raw h)"]) auto

definition tx_storable :: "transaction \<Rightarrow> bool" where
  "tx_storable t \<longleftrightarrow> tx_encodable t \<and> rlp_fits (rlp_image (tx_rlp_obj t)) \<and> \<not> rlp_has55 (rlp_image (tx_rlp_obj t))"

lemma tx_storable_decode: "tx_storable t \<Longrightarrow> \<exists>bs. tx_encode t = Inr bs \<and> decode_transaction bs = Inr t"
  using decode_encoded_transaction[of t] by (auto simp: tx_storable_def)

lemma rlp_ref_bytes_head:
  assumes "length x < 256 ^ 8"
  shows "uint (hd (rlp_ref (RBytes x))) < 0xC0"
proof (cases "length x = 1 \<and> uint (x ! 0) < 0x80")
  case True
  then show ?thesis by (cases x) (auto simp: rlp_encode_bytes_header)
next
  case False
  have "length (big_endian_length (length x)) \<le> 8" if "\<not> length x \<le> 55"
    using big_endian_length_pos(1)[OF _ assms] that by (cases x) auto
  then have "uint (hd (rlp_header 0x80 (length x))) < 0xC0"
    using rlp_header_hd(2)[of "0x80" "length x"] assms by (cases "length x \<le> 55") simp_all
  moreover have "rlp_ref (RBytes x) = rlp_header 0x80 (length x) @ x"
    unfolding rlp_ref.simps rlp_encode_bytes_header if_not_P[OF False] ..
  ultimately show ?thesis using rlp_header_hd(1)[of "0x80" "length x"] assms by (simp del: rlp_ref.simps)
qed

text \<open>
  The encoder tells all values apart, those the decoder refuses included: an encoding is no proper
  prefix of another one.
\<close>

lemma rlp_ref_prefix_free:
  assumes "rlp_fits v" "rlp_fits w" "rlp_ref v @ r = rlp_ref w @ s"
  shows "v = w \<and> r = s"
  using assms
proof (induction v arbitrary: w r s)
  case (RBytes x)
  show ?case
  proof (cases w)
    case (RBytes y)
    then show ?thesis using rlp_encode_bytes_prefix_free[of x y r s] RBytes.prems by simp
  next
    case (RList ws)
    then have "hd (rlp_ref (RBytes x)) = hd (rlp_ref (RList ws))"
      using RBytes.prems(3) rlp_ref_nonempty by (metis hd_append2)
    then show ?thesis
      using rlp_ref_list_head[of ws] rlp_ref_bytes_head[of x] RBytes.prems(1,2) RList by (simp del: rlp_ref.simps)
  qed
next
  case (RList vs)
  show ?case
  proof (cases w)
    case (RBytes y)
    then have "hd (rlp_ref (RBytes y)) = hd (rlp_ref (RList vs))"
      using RList.prems(3) rlp_ref_nonempty by (metis hd_append2)
    then show ?thesis
      using rlp_ref_list_head[of vs] rlp_ref_bytes_head[of y] RList.prems(1,2) RBytes by (simp del: rlp_ref.simps)
  next
    case (RList ws)
    let ?c = "\<lambda>zs. concat (map rlp_ref zs)"
    have fits: "length (?c vs) < 256 ^ 8" "length (?c ws) < 256 ^ 8" using RList RList.prems(1,2) by simp_all
    have "rlp_header 0xC0 (length (?c vs)) @ (?c vs @ r) = rlp_header 0xC0 (length (?c ws)) @ (?c ws @ s)"
      using RList.prems(3) RList by (simp add: rlp_wrap_list_header)
    from rlp_header_inj[OF _ fits this] have len: "length (?c vs) = length (?c ws)" "?c vs @ r = ?c ws @ s" by simp_all
    then have c: "?c vs = ?c ws" "r = s" by simp_all
    have "us = xs" if "?c us = ?c xs" "set us \<subseteq> set vs" "list_all rlp_fits us" "list_all rlp_fits xs" for us xs
      using that
    proof (induction us arbitrary: xs)
      case Nil
      then show ?case using rlp_ref_nonempty by (cases xs) auto
    next
      case (Cons u us)
      then obtain x xs' where xs: "xs = x # xs'" using rlp_ref_nonempty[of u] by (cases xs) auto
      have "u = x \<and> ?c us = ?c xs'" using Cons.prems xs by (intro RList.IH) auto
      then show ?case using Cons.IH[of xs'] Cons.prems xs by auto
    qed
    from this[of vs ws] c RList RList.prems(1,2) show ?thesis by simp
  qed
qed

subsection \<open>Encodings of transactions\<close>

lemma integer_bytes_inj: "0 \<le> a \<Longrightarrow> 0 \<le> b \<Longrightarrow> int_bytes a = int_bytes b \<longleftrightarrow> a = b"
  using be_int_int_bytes by metis

lemma word_bytes_inj: "int_bytes (uint v) = int_bytes (uint w) \<longleftrightarrow> v = (w :: u256)"
  by (simp add: integer_bytes_inj word_uint_eq_iff)

lemma destination_inj: "encode_destination a = encode_destination b \<longleftrightarrow> a = b"
  by (metis decode_destination_encode sum.inject(2))

lemma access_list_inj: "rlp_image (encode_access_list a) = rlp_image (encode_access_list b) \<longleftrightarrow> a = b"
  by (metis decode_access_list_image sum.inject(2))

lemma public_inputs_inj:
  "map (\<lambda>w. RBytes (int_bytes (uint w))) a = map (\<lambda>w. RBytes (int_bytes (uint (w :: u256)))) b \<longleftrightarrow> a = b"
proof
  assume e: "map (\<lambda>w. RBytes (int_bytes (uint w))) a = map (\<lambda>w. RBytes (int_bytes (uint w))) b"
  show "a = b" by (rule map_injective[OF e]) (auto simp: inj_on_def word_bytes_inj)
qed simp

lemma legacy_image_inj:
  assumes "tx_encodable (Legacy t)" "tx_encodable (Legacy u)"
    "rlp_image (tx_rlp_obj (Legacy t)) = rlp_image (tx_rlp_obj (Legacy u))"
  shows "t = u"
proof -
  obtain i j where rec: "legacy_recovery_id t = Inr (i, lt_chain_id t)" "legacy_recovery_id u = Inr (j, lt_chain_id u)"
    using assms(1,2) by (auto split: sum.splits)
  from legacy_recovery_v[OF rec(1)] legacy_recovery_v[OF rec(2)] obtain v r s v' r' s' where
    sig: "lt_v t = Some v" "lt_r t = Some r" "lt_s t = Some s" "0 \<le> v" "lt_v u = Some v'" "lt_r u = Some r'" "lt_s u = Some s'" "0 \<le> v'"
    by blast
  have fields: "lt_nonce t = lt_nonce u" "lt_gas_price t = lt_gas_price u" "lt_gas_limit t = lt_gas_limit u"
    "lt_to t = lt_to u" "lt_value t = lt_value u" "lt_data t = lt_data u" "v = v'" "r = r'" "s = s'"
    using assms(3) sig by (simp_all add: legacy_base_fields_def word_bytes_inj integer_bytes_inj destination_inj)
  then have "legacy_recovery_id t = legacy_recovery_id u" using sig by (simp add: legacy_recovery_id_def legacy_is_signed_def)
  then have "lt_chain_id t = lt_chain_id u" using rec by simp
  with fields sig show ?thesis by (intro legacy_tx.equality) simp_all
qed

lemma base_image_inj:
  assumes "eip1559_wf t" "eip1559_is_signed t" "0 \<le> the (et_v t)" "eip1559_wf u" "eip1559_is_signed u" "0 \<le> the (et_v u)"
    and "map rlp_image (eip1559_unsigned_rlp_fields t) = map rlp_image (eip1559_unsigned_rlp_fields u)"
    and "int_bytes (the (et_v t)) = int_bytes (the (et_v u))" "uint (the (et_r t)) = uint (the (et_r u))"
    "uint (the (et_s t)) = uint (the (et_s u))"
  shows "t = u"
proof -
  have "the (et_v t) = the (et_v u)" "the (et_r t) = the (et_r u)" "the (et_s t) = the (et_s u)"
    using assms(3,6,8-10) integer_bytes_inj by (simp_all add: word_uint_eq_iff)
  then have "et_v t = et_v u" "et_r t = et_r u" "et_s t = et_s u" using assms(2,5) by (auto simp: eip1559_is_signed_def)
  moreover have "et_chain_id t = et_chain_id u" "et_nonce t = et_nonce u"
    "et_max_priority_fee_per_gas t = et_max_priority_fee_per_gas u" "et_max_fee_per_gas t = et_max_fee_per_gas u"
    "et_gas_limit t = et_gas_limit u" "et_to t = et_to u" "et_value t = et_value u" "et_data t = et_data u"
    "et_access_list t = et_access_list u"
    using assms(1,4,7)
    by (simp_all add: eip1559_unsigned_rlp_fields_def eip1559_wf_def word_bytes_inj integer_bytes_inj destination_inj access_list_inj)
  ultimately show ?thesis by (intro eip1559_tx.equality) simp_all
qed

lemma eip1559_image_inj:
  assumes "tx_encodable (Eip1559 t)" "tx_encodable (Eip1559 u)"
    "rlp_image (tx_rlp_obj (Eip1559 t)) = rlp_image (tx_rlp_obj (Eip1559 u))"
  shows "t = u"
  using assms by (intro base_image_inj) (auto simp: word_bytes_inj)

lemma zk_image_inj:
  assumes "tx_encodable (Zk t)" "tx_encodable (Zk u)" "rlp_image (tx_rlp_obj (Zk t)) = rlp_image (tx_rlp_obj (Zk u))"
  shows "t = u"
proof -
  have image: "map rlp_image (zk_unsigned_rlp_fields z) = map rlp_image (eip1559_unsigned_rlp_fields (zt_base_tx z))
      @ [RBytes (int_bytes (proof_type_int (zkp_type (zt_proof z)))), RBytes (zkp_data (zt_proof z)),
         RList (map (\<lambda>w. RBytes (int_bytes (uint w))) (zt_public_inputs z))]" for z
    by (simp add: zk_unsigned_rlp_fields_def eip1559_unsigned_rlp_fields_def Let_def)
  have len: "length (map rlp_image (eip1559_unsigned_rlp_fields b)) = 9" for b by (simp add: eip1559_unsigned_rlp_fields_def)
  have "map rlp_image (eip1559_unsigned_rlp_fields (zt_base_tx t)) = map rlp_image (eip1559_unsigned_rlp_fields (zt_base_tx u))"
    "int_bytes (proof_type_int (zkp_type (zt_proof t))) = int_bytes (proof_type_int (zkp_type (zt_proof u)))"
    "zkp_data (zt_proof t) = zkp_data (zt_proof u)" "zt_public_inputs t = zt_public_inputs u"
    "int_bytes (the (et_v (zt_base_tx t))) = int_bytes (the (et_v (zt_base_tx u)))"
    "uint (the (et_r (zt_base_tx t))) = uint (the (et_r (zt_base_tx u)))"
    "uint (the (et_s (zt_base_tx t))) = uint (the (et_s (zt_base_tx u)))"
    using assms(3) len by (simp_all add: image public_inputs_inj word_bytes_inj append_eq_append_conv)
  moreover have "zt_base_tx t = zt_base_tx u"
    using assms(1,2) calculation by (intro base_image_inj) simp_all
  moreover have "zkp_type (zt_proof t) = zkp_type (zt_proof u)"
    using calculation(2) by (metis integer_bytes_inj proof_type_int_nonneg mk_proof_type_int sum.inject(2))
  ultimately show ?thesis by (intro zk_tx.equality zk_proof.equality) simp_all
qed

text \<open>The transactions that can be encoded, whatever the decoder of raw transactions says of them.\<close>

definition tx_committable :: "transaction \<Rightarrow> bool" where
  "tx_committable t \<longleftrightarrow> tx_encodable t \<and> rlp_fits (rlp_image (tx_rlp_obj t))
     \<and> length (rlp_ref (rlp_image (tx_rlp_obj t))) < 2 ^ 31"

lemma tx_encode_inj:
  assumes "tx_committable t" "tx_committable u" "tx_encode t = tx_encode u"
  shows "t = u"
proof -
  have enc: "tx_encodable t" "tx_encodable u" and fits: "rlp_fits (rlp_image (tx_rlp_obj t))" "rlp_fits (rlp_image (tx_rlp_obj u))"
    using assms(1,2) by (simp_all add: tx_committable_def)
  have legacy: "0xC0 \<le> uint (hd (rlp_ref (rlp_image (tx_rlp_obj (Legacy l)))))" if "rlp_fits (rlp_image (tx_rlp_obj (Legacy l)))" for l
  proof -
    obtain xs where "rlp_image (tx_rlp_obj (Legacy l)) = RList xs" by simp
    then show ?thesis using that rlp_ref_list_head[of xs] by (simp only: rlp_fits.simps)
  qed
  have types: "uint (word_of_int EIP1559_TRANSACTION_TYPE :: byte) = 2" "uint (word_of_int ZK_TRANSACTION_TYPE :: byte) = 0x7E"
    by (simp_all add: EIP1559_TRANSACTION_TYPE_def ZK_TRANSACTION_TYPE_def)
  have same: "rlp_image (tx_rlp_obj t) = rlp_image (tx_rlp_obj u)"
    if "rlp_ref (rlp_image (tx_rlp_obj t)) = rlp_ref (rlp_image (tx_rlp_obj u))"
    using rlp_ref_prefix_free[OF fits, of "[]" "[]"] that by simp
  have bytes: "(case tx_type_byte t of None \<Rightarrow> [] | Some b \<Rightarrow> [word_of_int b]) @ rlp_ref (rlp_image (tx_rlp_obj t))
      = (case tx_type_byte u of None \<Rightarrow> [] | Some b \<Rightarrow> [word_of_int b :: byte]) @ rlp_ref (rlp_image (tx_rlp_obj u))"
    using tx_encode_ref[OF enc(1)] tx_encode_ref[OF enc(2)] assms(3) by simp
  have "tx_type_byte t = tx_type_byte u"
    using arg_cong[OF bytes, of "\<lambda>b. uint (hd b)"] types fits
    by (cases t; cases u) (auto dest!: legacy simp del: rlp_ref.simps rlp_image.simps tx_rlp_obj.simps)
  then have image: "rlp_image (tx_rlp_obj t) = rlp_image (tx_rlp_obj u)" using bytes same by (auto split: option.splits)
  show ?thesis
    using \<open>tx_type_byte t = tx_type_byte u\<close> image enc legacy_image_inj eip1559_image_inj zk_image_inj types
    by (cases t; cases u) (auto simp del: rlp_image.simps tx_rlp_obj.simps tx_encodable.simps)
qed

lemma encodings_inj:
  assumes "\<forall>t \<in> set ts \<union> set us. tx_committable t" "mapR tx_encode ts = Inr vs" "mapR tx_encode us = Inr vs"
  shows "ts = us"
  using assms
proof (induction ts arbitrary: us vs)
  case Nil
  then show ?case by (cases us) auto
next
  case (Cons t ts)
  then obtain v vs' where v: "vs = v # vs'" "tx_encode t = Inr v" "mapR tx_encode ts = Inr vs'" by auto
  with Cons.prems(3) obtain u us' where u: "us = u # us'" "tx_encode u = Inr v" "mapR tx_encode us' = Inr vs'"
    by (cases us) auto
  then show ?case using Cons.IH[of us' vs'] Cons.prems(1) v tx_encode_inj[of t u] by simp
qed

lemma tx_committable_encodings:
  assumes "\<forall>t \<in> set ts. tx_committable t" "length ts < 2 ^ 32"
  shows "\<exists>vs. mapR tx_encode ts = Inr vs \<and> values_ok vs"
proof -
  have "\<exists>vs. mapR tx_encode xs = Inr vs \<and> length vs = length xs \<and> (\<forall>v \<in> set vs. v \<noteq> [] \<and> length v < 2 ^ 32)"
    if "\<forall>t \<in> set xs. tx_committable t" for xs
    using that
  proof (induction xs)
    case (Cons x xs)
    then obtain vs where vs: "mapR tx_encode xs = Inr vs" "length vs = length xs" "\<forall>v \<in> set vs. v \<noteq> [] \<and> length v < 2 ^ 32"
      by auto
    obtain v where "tx_encode x = Inr v" "v \<noteq> []" "length v < 2 ^ 32"
      using tx_encode_ref[of x] Cons.prems rlp_ref_nonempty[of "rlp_image (tx_rlp_obj x)"]
      by (auto simp: tx_committable_def split: option.splits simp del: rlp_ref.simps rlp_image.simps tx_rlp_obj.simps)
    with vs show ?case by auto
  qed simp
  from this[OF assms(1)] assms(2) show ?thesis by (auto simp: values_ok_def)
qed

text \<open>
  C32. The transactions root commits to the list of transactions. For lists of fewer than \<open>2 ^ 32\<close> signed
  transactions that the encoder accepts, each of less than \<open>2 ^ 31\<close> bytes and with any payload lengths,
  the root is computed without an exception, and two lists with one root are equal (same transactions,
  same order, same length), unless two different node encodings of their tries with the same hash are
  at hand.
\<close>

theorem transactions_root_commits:
  assumes "\<forall>t \<in> set ts \<union> set us. tx_committable t" "length ts < 2 ^ 32" "length us < 2 ^ 32"
  shows "\<exists>vs ws r r'. mapR tx_encode ts = Inr vs \<and> mapR tx_encode us = Inr ws
    \<and> compute_transactions_root ts = Inr r \<and> compute_transactions_root us = Inr r'
    \<and> (r = r' \<longrightarrow> ts = us
         \<or> nodes_collide (trie_nodes (mpt_path_items (list_trie vs)) \<union> trie_nodes (mpt_path_items (list_trie ws))))"
proof -
  obtain vs where vs: "mapR tx_encode ts = Inr vs" "values_ok vs" using tx_committable_encodings[of ts] assms by auto
  obtain ws where ws: "mapR tx_encode us = Inr ws" "values_ok ws" using tx_committable_encodings[of us] assms by auto
  have root: "compute_transactions_root xs = mapE ExecPy (fst (mpt_commit (list_trie zs)))"
    if "mapR tx_encode xs = Inr zs" "values_ok zs" for xs zs
  proof -
    have "mapR (\<lambda>t. mapE ExecTx (tx_encode t)) xs = Inr zs" using that(1) by (induction xs arbitrary: zs) auto
    moreover have "length xs < 2 ^ 64" using that mapR_length[OF that(1)] by (simp add: values_ok_def)
    ultimately show ?thesis by (simp add: compute_transactions_root_def compute_list_root_eq)
  qed
  have "vs = ws \<Longrightarrow> ts = us" using encodings_inj[OF assms(1)] vs(1) ws(1) by auto
  then show ?thesis
    using vs(1) ws(1) root[OF vs] root[OF ws] list_roots_equal_iff[OF vs(2) ws(2) nodes_collide_inj]
      mpt_commit_root[OF list_trie_ok[OF vs(2)]] mpt_commit_root[OF list_trie_ok[OF ws(2)]] by auto
qed

section \<open>Serialized blocks\<close>

definition receipt_carried :: "receipt \<Rightarrow> bool" where
  "receipt_carried r \<longleftrightarrow> receipt_storable r \<and> rlp_clean (receipt_rlp_payload r)
     \<and> (case receipt_rlp_encode r of Inl _ \<Rightarrow> False | Inr e \<Rightarrow> rlp_clean (receipt_container r e))"

lemma receipt_carried_decode: "receipt_carried r \<Longrightarrow> \<exists>bs. receipt_serialize r = Inr bs \<and> receipt_deserialize bs = Inr r"
  using deserialize_serialized_receipt[of r] by (auto simp: receipt_carried_def split: sum.splits)

definition block_carried :: "block \<Rightarrow> bool" where
  "block_carried b \<longleftrightarrow> (\<forall>h \<in> insert (blk_header b) (set (blk_ommers b)). header_wf h \<and> header_small h)
     \<and> (\<forall>t \<in> set (blk_transactions b). tx_storable t) \<and> (\<forall>r \<in> set (blk_receipts b). receipt_carried r)"

lemma mapR_inverse:
  assumes "\<forall>x \<in> set xs. \<exists>bs. f x = Inr bs \<and> g bs = Inr x"
  shows "\<exists>bss. mapR f xs = Inr bss \<and> mapR g bss = Inr xs"
  using assms
proof (induction xs)
  case (Cons x xs)
  then obtain bs bss where "f x = Inr bs" "g bs = Inr x" "mapR f xs = Inr bss" "mapR g bss = Inr xs" by auto
  then show ?case by auto
qed simp

lemma mapR_mapE_ext: "mapR (\<lambda>x. mapE h (f x)) xs = mapE h (mapR f xs)"
proof (induction xs)
  case (Cons x xs)
  then show ?case by (cases "f x"; cases "mapR f xs") auto
qed simp

text \<open>
  A block whose parts the formats can carry is serialized, and the container is read back as the same
  block: header, transactions, receipts and ommers (unless a part of the container has a payload of 55
  bytes, which the RLP decoder rejects).
\<close>

theorem block_deserialize_serialize:
  assumes "block_carried b" "block_container b = Inr c" "rlp_clean c"
  shows "\<exists>bs. block_serialize b = Inr bs \<and> block_deserialize bs = Inr b"
proof -
  have headers: "\<exists>bs. header_rlp_encode h = Inr bs \<and> header_rlp_decode bs = Inr h"
    if "h \<in> insert (blk_header b) (set (blk_ommers b))" for h
  proof -
    have "header_wf h" "header_small h" using assms(1) that by (auto simp: block_carried_def)
    then show ?thesis using header_encode header_decode_encode by blast
  qed
  obtain hb where hb: "header_rlp_encode (blk_header b) = Inr hb" "header_rlp_decode hb = Inr (blk_header b)" using headers by blast
  obtain oms where oms: "mapR header_rlp_encode (blk_ommers b) = Inr oms" "mapR header_rlp_decode oms = Inr (blk_ommers b)"
    using mapR_inverse[of "blk_ommers b" header_rlp_encode header_rlp_decode] headers by auto
  obtain txs where txs: "mapR tx_encode (blk_transactions b) = Inr txs" "mapR decode_transaction txs = Inr (blk_transactions b)"
    using mapR_inverse[of "blk_transactions b" tx_encode decode_transaction] tx_storable_decode assms(1)
    by (auto simp: block_carried_def)
  obtain rcs where rcs: "mapR receipt_serialize (blk_receipts b) = Inr rcs" "mapR receipt_deserialize rcs = Inr (blk_receipts b)"
    using mapR_inverse[of "blk_receipts b" receipt_serialize receipt_deserialize] receipt_carried_decode assms(1)
    by (auto simp: block_carried_def)
  have c: "c = ObjList [ObjBytes hb, ObjList (map ObjBytes txs), ObjList (map ObjBytes rcs), ObjList (map ObjBytes oms)]"
    using assms(2) hb oms txs rcs by (simp add: block_container_def)
  then have image: "rlp_image c = RList [RBytes hb, RList (map RBytes txs), RList (map RBytes rcs), RList (map RBytes oms)]"
    by simp
  have parts: "mapR (\<lambda>raw. bindR (mapE ExecPy (item_bytes raw)) (\<lambda>bs. mapE ExecTx (decode_transaction bs))) (map RBytes txs)
      = Inr (blk_transactions b)"
    "mapR (\<lambda>raw. bindR (item_bytes raw) receipt_deserialize) (map RBytes rcs) = Inr (blk_receipts b)"
    "mapR (\<lambda>raw. bindR (item_bytes raw) header_rlp_decode) (map RBytes oms) = Inr (blk_ommers b)"
    using txs rcs oms by (simp_all add: mapR_map item_bytes_def mapR_mapE_ext)
  have "block_deserialize (rlp_ref (rlp_image c)) = Inr b"
    using rlp_clean_roundtrip[OF assms(3)] hb(2) parts unfolding image
    by (cases b) (simp add: block_deserialize_def del: rlp_ref.simps mapR.simps)
  then show ?thesis using rlp_clean_roundtrip[OF assms(3)] assms(2) by (simp add: block_serialize_def)
qed

subsection \<open>Witnesses\<close>

definition demo_header :: block_header where
  "demo_header = \<lparr>bh_parent_hash = 0, bh_ommers_hash = EMPTY_OMMERS_HASH, bh_coinbase = 0x30, bh_state_root = EMPTY_TRIE_ROOT,
     bh_transactions_root = EMPTY_TRIE_ROOT, bh_receipts_root = EMPTY_TRIE_ROOT, bh_logs_bloom = replicate 256 0,
     bh_difficulty = 0, bh_number = 0, bh_gas_limit = 30000000, bh_gas_used = 0, bh_timestamp = 5, bh_extra_data = [],
     bh_mix_hash = 0, bh_nonce = replicate 8 0, bh_base_fee = Some 1000000000\<rparr>"

definition demo_block :: block where
  "demo_block = \<lparr>blk_header = demo_header, blk_transactions = [], blk_receipts = [], blk_ommers = []\<rparr>"

lemma demo_header_wf: "header_wf demo_header" "header_small demo_header"
  by (simp_all add: header_wf_def header_small_def header_validate_def demo_header_def MAX_EXTRA_DATA_BYTES_def)

theorem header_roundtrip_witness:
  "\<exists>bs. header_rlp_encode demo_header = Inr bs \<and> header_rlp_decode bs = Inr demo_header"
  using header_roundtrip[OF demo_header_wf demo_header_wf] by blast

definition demo_signed :: transaction where
  "demo_signed = Eip1559 (demo_tx\<lparr>et_v := Some 1, et_r := Some 7, et_s := Some 8\<rparr>)"

lemma demo_signed_storable:
  "tx_storable demo_signed" "length (rlp_ref (rlp_image (tx_rlp_obj demo_signed))) < 2 ^ 31"
  "\<exists>bs. tx_encode demo_signed = Inr bs \<and> values_ok [bs]"
proof -
  have enc: "tx_encodable demo_signed" by (simp add: eip1559_wf_def eip1559_is_signed_def demo_tx_def demo_signed_def)
  have img: "rlp_image (tx_rlp_obj demo_signed) = RList [RBytes [1], RBytes [], RBytes [1], RBytes [2], RBytes [3],
      RBytes [], RBytes [4], RBytes [5, 6], RList [], RBytes [1], RBytes [7], RBytes [8]]"
    by (simp add: eip1559_unsigned_rlp_fields_def demo_tx_def int_bytes_small encode_destination_def
        encode_access_list_def demo_signed_def)
  show "tx_storable demo_signed"
    using enc unfolding tx_storable_def img by (simp add: rlp_encode_bytes_def rlp_wrap_list_def Let_def)
  show "length (rlp_ref (rlp_image (tx_rlp_obj demo_signed))) < 2 ^ 31"
    unfolding img by (simp add: rlp_encode_bytes_def rlp_wrap_list_def Let_def)
  show "\<exists>bs. tx_encode demo_signed = Inr bs \<and> values_ok [bs]"
    using tx_encode_ref[OF enc] unfolding img
    by (simp add: demo_signed_def values_ok_def rlp_encode_bytes_def rlp_wrap_list_def Let_def)
qed

lemma demo_signed_committable: "tx_committable demo_signed"
  using demo_signed_storable(1,2) unfolding tx_committable_def tx_storable_def by blast

text \<open>A block with one transaction, the same transaction twice, and none.\<close>

theorem transactions_root_commits_witness:
  "\<exists>v r r2 r0. tx_encode demo_signed = Inr v \<and> compute_transactions_root [demo_signed] = Inr r
     \<and> compute_transactions_root [demo_signed, demo_signed] = Inr r2 \<and> compute_transactions_root [] = Inr r0
     \<and> (r = r2 \<longrightarrow> nodes_collide (trie_nodes (mpt_path_items (list_trie [v])) \<union> trie_nodes (mpt_path_items (list_trie [v, v]))))
     \<and> (r = r0 \<longrightarrow> nodes_collide (trie_nodes (mpt_path_items (list_trie [v])) \<union> trie_nodes (mpt_path_items (list_trie []))))"
  using transactions_root_commits[of "[demo_signed]" "[demo_signed, demo_signed]"]
    transactions_root_commits[of "[demo_signed]" "[]"] demo_signed_committable by auto

theorem block_deserialize_serialize_witness:
  "\<exists>bs. block_serialize demo_block = Inr bs \<and> block_deserialize bs = Inr demo_block"
proof -
  let ?e = "flat_ref (header_raw demo_header)"
  let ?c = "ObjList [ObjBytes ?e, ObjList [], ObjList [], ObjList []]"
  note payload = header_payload_length[OF demo_header_wf]
  have upper: "length ?e \<le> 16 * (2 ^ 40 + 9) + 9" by (rule flat_ref_length_le[OF payload(2)]) simp
  have lower: "256 \<le> length ?e" using payload(1) by (simp add: rlp_wrap_list_header comp_def)
  have "length ?e < 256 ^ 8" by (rule le_less_trans[OF upper]) simp
  from rlp_encode_bytes_length_le[OF this] upper
  have enc: "length (rlp_encode_bytes ?e) \<le> 16 * (2 ^ 40 + 9) + 18" by linarith
  have "256 \<le> length (rlp_encode_bytes ?e)" using lower by (simp add: rlp_encode_bytes_header del: rlp_ref.simps)
  then have "rlp_clean ?c"
    using lower enc \<open>length ?e < 256 ^ 8\<close>
    by (simp add: rlp_clean_def rlp_wrap_list_def del: rlp_ref.simps(2)) (simp add: rlp_wrap_list_def)
  moreover have "block_container demo_block = Inr ?c"
    by (simp add: block_container_def demo_block_def header_encode[OF demo_header_wf(1)])
  moreover have "block_carried demo_block" using demo_header_wf by (simp add: block_carried_def demo_block_def)
  ultimately show ?thesis by (intro block_deserialize_serialize)
qed

end
