(* ===== verification/Block_Props.thy ===== *)
theory Block_Props
  imports Block_Execution Block_Binding
begin

text \<open>
  What blocks guarantee: the gas and fee accounts of an executed block and the conservation of balances,
  totality of block execution, the agreement of builder, validator and executor, and the commitment of a
  block hash to the whole history below it.
\<close>

section \<open>The loop over the transactions\<close>

definition acc_of :: "block_acc \<Rightarrow> tx_result list \<Rightarrow> block_acc" where
  "acc_of acc rs =
     \<lparr>ac_cumulative_gas_used = ac_cumulative_gas_used acc + sum_list (map tr_gas_used rs),
      ac_receipts = ac_receipts acc @ map tr_receipt rs, ac_tx_results = ac_tx_results acc @ rs,
      ac_logs = ac_logs acc @ concat (map tr_logs rs),
      ac_coinbase_fees = ac_coinbase_fees acc + sum_list (map tr_coinbase_fee rs),
      ac_base_fee_burned = ac_base_fee_burned acc + sum_list (map tr_base_fee_burned rs)\<rparr>"

lemma block_loop_run:
  assumes "db_wf db" "env_ok env" "cfg_ok cfg"
    and "block_loop hl n gas_limit env cfg registry ts acc db = (Inr acc', db')"
    and "0 \<le> ac_cumulative_gas_used acc" "ac_cumulative_gas_used acc \<le> gas_limit"
  shows "\<exists>rs. acc' = acc_of acc rs \<and> length rs = length ts \<and> db_wf db'
    \<and> check_cumulative (map tr_receipt rs) (ac_cumulative_gas_used acc) = Inr (ac_cumulative_gas_used acc')
    \<and> ac_cumulative_gas_used acc \<le> ac_cumulative_gas_used acc' \<and> ac_cumulative_gas_used acc' \<le> gas_limit
    \<and> (total_balance db < 2 ^ 256 \<and> settled_storage db \<longrightarrow>
        settled_storage db' \<and> (\<forall>res \<in> set rs. 0 \<le> tr_gas_refunded res)
        \<and> total_balance db' + sum_list (map tr_base_fee_burned rs) = total_balance db
        \<and> sum_list (map tr_coinbase_fee rs) + sum_list (map tr_base_fee_burned rs) = sum_list (map tr_total_fee_paid rs)
        \<and> 0 \<le> sum_list (map tr_base_fee_burned rs))"
  using assms
proof (induction ts arbitrary: acc db)
  case Nil
  then have "acc' = acc_of acc [] \<and> db' = db" by (simp add: retM_def acc_of_def)
  then show ?case using Nil by (intro exI[of _ "[]"]) (simp add: acc_of_def)
next
  case (Cons t ts)
  obtain res db1 where res: "apply_transaction hl n db t env cfg registry (ac_cumulative_gas_used acc) = (Inr res, db1)"
    using Cons.prems(4) by (auto simp: Let_def bindM_def raiseM_def split: if_splits prod.splits sum.splits)
  let ?acc = "acc_of acc [res]"
  have limit: "ac_cumulative_gas_used ?acc \<le> gas_limit"
    and rest: "block_loop hl n gas_limit env cfg registry ts ?acc db1 = (Inr acc', db')"
    using Cons.prems(4) res by (auto simp: Let_def bindM_def raiseM_def acc_of_def split: if_splits)
  note eff = apply_transaction_effect[OF Cons.prems(1-3) res]
  have money: "tx_balanced db res db1" if "total_balance db < 2 ^ 256" "settled_storage db"
    using apply_transaction_money(1)[OF Cons.prems(1) that(2) Cons.prems(2,3) that(1), of hl n t registry "ac_cumulative_gas_used acc"]
    by (simp add: res)
  have "0 \<le> ac_cumulative_gas_used ?acc" using Cons.prems(5) eff(2) by (simp add: acc_of_def)
  from Cons.IH[OF eff(1) Cons.prems(2,3) rest this limit] obtain rs where
    rs: "acc' = acc_of ?acc rs" "length rs = length ts" "db_wf db'"
      "check_cumulative (map tr_receipt rs) (ac_cumulative_gas_used ?acc) = Inr (ac_cumulative_gas_used acc')"
      "ac_cumulative_gas_used ?acc \<le> ac_cumulative_gas_used acc'" "ac_cumulative_gas_used acc' \<le> gas_limit"
    and sums: "total_balance db1 < 2 ^ 256 \<and> settled_storage db1 \<longrightarrow>
        settled_storage db' \<and> (\<forall>res \<in> set rs. 0 \<le> tr_gas_refunded res)
        \<and> total_balance db' + sum_list (map tr_base_fee_burned rs) = total_balance db1
        \<and> sum_list (map tr_coinbase_fee rs) + sum_list (map tr_base_fee_burned rs) = sum_list (map tr_total_fee_paid rs)
        \<and> 0 \<le> sum_list (map tr_base_fee_burned rs)"
    by blast
  have "acc' = acc_of acc (res # rs)" using rs(1) by (simp add: acc_of_def)
  moreover have "check_cumulative (map tr_receipt (res # rs)) (ac_cumulative_gas_used acc) = Inr (ac_cumulative_gas_used acc')"
    using rs(4) eff(4,5) by (simp add: acc_of_def)
  moreover have "ac_cumulative_gas_used acc \<le> ac_cumulative_gas_used acc'" using rs(5) eff(2) by (simp add: acc_of_def)
  moreover have "settled_storage db' \<and> (\<forall>x \<in> set (res # rs). 0 \<le> tr_gas_refunded x)
      \<and> total_balance db' + sum_list (map tr_base_fee_burned (res # rs)) = total_balance db
      \<and> sum_list (map tr_coinbase_fee (res # rs)) + sum_list (map tr_base_fee_burned (res # rs))
        = sum_list (map tr_total_fee_paid (res # rs))
      \<and> 0 \<le> sum_list (map tr_base_fee_burned (res # rs))"
    if small: "total_balance db < 2 ^ 256" and settled: "settled_storage db"
  proof -
    have m: "settled_storage db1" "0 \<le> tr_gas_refunded res" "0 \<le> tr_base_fee_burned res"
      "tr_coinbase_fee res + tr_base_fee_burned res = tr_total_fee_paid res"
      "total_balance db1 + tr_base_fee_burned res = total_balance db"
      using money[OF small settled] by (simp_all add: tx_balanced_def)
    then show ?thesis using sums small by auto
  qed
  ultimately show ?case using rs(2,3,6) by (intro exI[of _ "res # rs"]) simp
qed

lemma statedb_clone_id: "db_wf db \<Longrightarrow> statedb_clone db = db"
  using snapshot_id[of db] by (simp add: statedb_clone_def statedb_snapshot_def)

text \<open>The journal of \<open>apply_block\<close> only matters for the exception that a failing root computation raises.\<close>

lemma apply_block_eq:
  assumes "db_wf db" "validate_block_for_execution b parent cfg = Inr ()"
  shows "apply_block hl n db b cfg parent registry =
    (case block_loop hl n (bh_gas_limit (blk_header b)) (block_env_of b cfg) cfg registry (blk_transactions b) empty_acc db of
       (Inl e, db') \<Rightarrow> Inl e
     | (Inr acc, db') \<Rightarrow> mapE (\<lambda>_. ExecPy ValueError) (conclude_block b acc db'))"
proof -
  obtain cp j where cj: "journal_checkpoint \<lparr>j_state = db, j_snapshots = []\<rparr> = (cp, j)"
    by (cases "journal_checkpoint \<lparr>j_state = db, j_snapshots = []\<rparr>")
  have j: "cp = 0" "j = \<lparr>j_state = db, j_snapshots = [db]\<rparr>"
    using cj snapshot_id[OF assms(1)] by (auto simp: journal_checkpoint_def)
  obtain out d where run: "block_loop hl n (bh_gas_limit (blk_header b)) (block_env_of b cfg) cfg registry
      (blk_transactions b) empty_acc db = (out, d)"
    by (cases "block_loop hl n (bh_gas_limit (blk_header b)) (block_env_of b cfg) cfg registry (blk_transactions b) empty_acc db")
  show ?thesis
    using assms(2) run
    by (cases out) (auto simp: apply_block_def statedb_clone_id[OF assms(1)] cj j revert_block_def journal_revert_def
        journal_commit_def mapE_def Let_def split: sum.splits)
qed

lemma apply_block_run:
  assumes "db_wf db" "apply_block hl n db b cfg parent registry = Inr r"
  obtains acc db' where "validate_block_for_execution b parent cfg = Inr ()"
    "block_loop hl n (bh_gas_limit (blk_header b)) (block_env_of b cfg) cfg registry (blk_transactions b) empty_acc db = (Inr acc, db')"
    "conclude_block b acc db' = Inr r"
proof -
  have valid: "validate_block_for_execution b parent cfg = Inr ()"
    using assms(2) by (auto simp: apply_block_def)
  show thesis
    using assms(2) unfolding apply_block_eq[OF assms(1) valid]
    by (auto intro!: that[OF valid] split: prod.splits sum.splits)
qed

lemma validated_header:
  assumes "validate_block_for_execution b parent cfg = Inr ()"
  shows "header_validate (blk_header b) = Inr ()" "env_ok (block_env_of b cfg)" "0 \<le> bh_gas_limit (blk_header b)"
  using assms
  by (auto simp: validate_block_for_execution_def validate_header_def header_validate_def env_ok_def block_env_of_def Let_def
      split: if_splits option.splits)

lemma conclude_block_fields:
  assumes "conclude_block b acc db' = Inr r"
  shows "br_block r = b" "br_state r = db'" "br_gas_used r = ac_cumulative_gas_used acc" "br_receipts r = ac_receipts acc"
    "br_transaction_results r = ac_tx_results acc" "br_coinbase_fees r = ac_coinbase_fees acc"
    "br_base_fee_burned r = ac_base_fee_burned acc" "br_logs r = ac_logs acc"
  using assms by (auto simp: conclude_block_def mk_block_result_def split: if_splits)

text \<open>
  C13. Accounts of a block. Executing a block charges its transactions one after the other within the gas
  limit of the header: the gas used is the sum over the results and the receipts carry the running total.
  The state it returns is well formed, the fees collected split into the coinbase's share and the burned
  base fee, no refund is negative, and all balances together lose exactly the burned fees. This needs
  balances whose sum fits a word and a state without pending storage clears, which the block leaves again.
\<close>

theorem apply_block_conserves:
  assumes "db_wf db" "settled_storage db" "cfg_ok cfg" "total_balance db < 2 ^ 256"
    and "apply_block hl n db b cfg parent registry = Inr r"
  shows "db_wf (br_state r) \<and> settled_storage (br_state r)
    \<and> (\<forall>res \<in> set (br_transaction_results r). 0 \<le> tr_gas_refunded res) \<and> total_balance (br_state r) + br_base_fee_burned r = total_balance db
    \<and> br_coinbase_fees r + br_base_fee_burned r = (\<Sum>res\<leftarrow>br_transaction_results r. tr_total_fee_paid res)
    \<and> br_gas_used r = (\<Sum>res\<leftarrow>br_transaction_results r. tr_gas_used res)
    \<and> 0 \<le> br_gas_used r \<and> br_gas_used r \<le> bh_gas_limit (blk_header b)
    \<and> br_receipts r = map tr_receipt (br_transaction_results r) \<and> check_cumulative (br_receipts r) 0 = Inr (br_gas_used r)
    \<and> length (br_receipts r) = length (blk_transactions b)"
proof -
  obtain acc db' where valid: "validate_block_for_execution b parent cfg = Inr ()"
    and loop: "block_loop hl n (bh_gas_limit (blk_header b)) (block_env_of b cfg) cfg registry (blk_transactions b) empty_acc db
        = (Inr acc, db')"
    and r: "conclude_block b acc db' = Inr r"
    using assms(1,5) by (rule apply_block_run)
  note v = validated_header[OF valid]
  note f = conclude_block_fields[OF r]
  have start: "0 \<le> ac_cumulative_gas_used empty_acc" "ac_cumulative_gas_used empty_acc \<le> bh_gas_limit (blk_header b)"
    using v(3) by (simp_all add: empty_acc_def)
  obtain rs where rs: "acc = acc_of empty_acc rs" "length rs = length (blk_transactions b)" "db_wf db'"
    "check_cumulative (map tr_receipt rs) 0 = Inr (ac_cumulative_gas_used acc)"
    "0 \<le> ac_cumulative_gas_used acc" "ac_cumulative_gas_used acc \<le> bh_gas_limit (blk_header b)"
    and sums: "settled_storage db'" "\<forall>res \<in> set rs. 0 \<le> tr_gas_refunded res"
      "total_balance db' + sum_list (map tr_base_fee_burned rs) = total_balance db
        \<and> sum_list (map tr_coinbase_fee rs) + sum_list (map tr_base_fee_burned rs) = sum_list (map tr_total_fee_paid rs)"
    using block_loop_run[OF assms(1) v(2) assms(3) loop start] assms(2,4) by (auto simp: empty_acc_def)
  have acc: "ac_tx_results acc = rs" "ac_receipts acc = map tr_receipt rs"
    "ac_cumulative_gas_used acc = sum_list (map tr_gas_used rs)" "ac_coinbase_fees acc = sum_list (map tr_coinbase_fee rs)"
    "ac_base_fee_burned acc = sum_list (map tr_base_fee_burned rs)"
    by (simp_all add: rs(1) acc_of_def empty_acc_def)
  show ?thesis
    using rs(2-6) sums by (simp_all add: f acc)
qed

section \<open>Totality\<close>

definition evm_free :: "(exec_error, 'a) result \<Rightarrow> bool" where
  "evm_free out \<longleftrightarrow> (\<forall>x. out \<noteq> Inl (ExecEvm x))"

lemma evm_free_bind: "evm_free r \<Longrightarrow> (\<And>x. evm_free (f x)) \<Longrightarrow> evm_free (bindR r f)"
  by (cases r) (auto simp: evm_free_def)

lemma evm_free_simps [simp]:
  "evm_free (Inr x)" "evm_free (mapE ExecPy q)" "evm_free (mapE ExecTx p)"
  "evm_free (Inl e) \<longleftrightarrow> (\<forall>x. e \<noteq> ExecEvm x)"
  by (auto simp: evm_free_def)

lemma validation_evm_free: "evm_free (bindR (validate_transaction t db env cfg registry) (\<lambda>v. deferred_zk_check v registry))"
proof -
  have zk: "evm_free (validate_zk_proof z registry)" for z
    by (auto simp: validate_zk_proof_def guardR_def intro!: evm_free_bind split: option.splits)
  have price: "evm_free (pricing_for_transaction cfg t env)"
    by (cases t) (auto simp: evm_free_def legacy_pricing_def eip1559_pricing_def Let_def split: option.splits if_splits)
  have "evm_free (validate_transaction t db env cfg registry)"
    using zk price
    by (auto simp: validate_transaction_def validate_supported_type_def validate_chain_id_def recover_sender_def
        validate_nonce_def guardR_def mapE_def Let_def intro!: evm_free_bind split: transaction.splits option.splits sum.splits if_splits)
  moreover have "evm_free (deferred_zk_check v registry)" for v
    using zk by (auto simp: deferred_zk_check_def intro!: evm_free_bind split: transaction.splits)
  ultimately show ?thesis by (rule evm_free_bind)
qed

lemma block_loop_total:
  assumes "db_wf db" "env_ok env" "cfg_ok cfg" "0 \<le> ac_cumulative_gas_used acc"
  shows "\<exists>m out. (\<forall>n \<ge> m. block_loop hl n gas_limit env cfg registry ts acc db = out) \<and> evm_free (fst out)"
  using assms
proof (induction ts arbitrary: acc db)
  case Nil
  then show ?case by (intro exI[of _ 0] exI[of _ "(Inr acc, db)"]) (simp add: retM_def)
next
  case (Cons t ts)
  let ?v = "bindR (validate_transaction t db env cfg registry) (\<lambda>v. deferred_zk_check v registry)"
  let ?loop = "\<lambda>n. block_loop hl n gas_limit env cfg registry (t # ts) acc db"
  show ?case
  proof (cases "uint (tx_gas_limit t) > gas_limit - ac_cumulative_gas_used acc")
    case True
    then have "\<forall>n \<ge> 0. ?loop n = (Inl BlockGasExceededError, db)" by (simp add: raiseM_def)
    then show ?thesis by (intro exI[of _ 0] exI[of _ "(Inl BlockGasExceededError, db)"]) simp
  next
    case fits: False
    note runs = apply_transaction_runs[OF Cons.prems, where t = t and registry = registry and hl = hl]
    show ?thesis
    proof (cases ?v)
      case (Inl e)
      then have "\<forall>n \<ge> 0. ?loop n = (Inl e, db)" using runs fits by (simp add: bindM_def Let_def)
      moreover have "evm_free (Inl e :: (exec_error, block_acc) result)"
        using validation_evm_free[of t db env cfg registry] Inl by (simp add: evm_free_def)
      ultimately show ?thesis by (intro exI[of _ 0] exI[of _ "(Inl e, db)"]) simp
    next
      case (Inr v)
      then obtain m res db1 where m: "\<And>n. m \<le> n \<Longrightarrow>
          apply_transaction hl n db t env cfg registry (ac_cumulative_gas_used acc) = (Inr res, db1)"
        using runs unfolding Inr sum.case by blast
      let ?acc = "acc_of acc [res]"
      have step: "?loop n = (if ac_cumulative_gas_used ?acc > gas_limit then (Inl BlockGasExceededError, db1)
          else block_loop hl n gas_limit env cfg registry ts ?acc db1)" if "m \<le> n" for n
        using m[OF that] fits by (simp add: bindM_def Let_def raiseM_def acc_of_def)
      show ?thesis
      proof (cases "ac_cumulative_gas_used ?acc > gas_limit")
        case True
        then show ?thesis using step by (intro exI[of _ m] exI[of _ "(Inl BlockGasExceededError, db1)"]) simp
      next
        case False
        note eff = apply_transaction_effect[OF Cons.prems(1-3) m[OF order_refl]]
        have "0 \<le> ac_cumulative_gas_used ?acc" using Cons.prems(4) eff(2) by (simp add: acc_of_def)
        from Cons.IH[OF eff(1) Cons.prems(2,3) this] obtain k out where
          k: "\<And>n. k \<le> n \<Longrightarrow> block_loop hl n gas_limit env cfg registry ts ?acc db1 = out" "evm_free (fst out)" by blast
        then have "\<forall>n \<ge> max m k. ?loop n = out" using step False by simp
        then show ?thesis using k(2) by blast
      qed
    qed
  qed
qed

text \<open>
  C19. Executing a block is total. On every well-formed state, whatever the block and its transactions, it
  either refuses the block with an exception of the validation or the gas limit, or returns a result: with
  enough fuel the outcome no longer depends on it, and no exception of the interpreter ever escapes.
\<close>

theorem apply_block_total:
  assumes "db_wf db" "cfg_ok cfg"
  shows "\<exists>m out. (\<forall>n \<ge> m. apply_block hl n db b cfg parent registry = out) \<and> (\<forall>x. out \<noteq> Inl (ExecEvm x))"
proof (cases "validate_block_for_execution b parent cfg")
  case (Inl e)
  have "evm_free (validate_block_for_execution b parent cfg)"
    by (auto simp: validate_block_for_execution_def validate_header_def validate_against_parent_def validate_base_fee_def
        expected_base_fee_def guardR_def mapE_def Let_def intro!: evm_free_bind split: option.splits sum.splits)
  then have "\<forall>x. e \<noteq> ExecEvm x" using Inl by simp
  moreover have "apply_block hl n db b cfg parent registry = Inl e" for n using Inl by (simp add: apply_block_def)
  ultimately show ?thesis by auto
next
  case (Inr u)
  then have valid: "validate_block_for_execution b parent cfg = Inr ()" by simp
  have "0 \<le> ac_cumulative_gas_used empty_acc" by (simp add: empty_acc_def)
  from block_loop_total[OF assms(1) validated_header(2)[OF valid] assms(2) this] obtain m out where
    m: "\<And>n. m \<le> n \<Longrightarrow> block_loop hl n (bh_gas_limit (blk_header b)) (block_env_of b cfg) cfg registry
        (blk_transactions b) empty_acc db = out" "evm_free (fst out)"
    by blast
  then have "\<exists>res. (\<forall>n \<ge> m. apply_block hl n db b cfg parent registry = res) \<and> (\<forall>x. res \<noteq> Inl (ExecEvm x))"
    unfolding apply_block_eq[OF assms(1) valid]
    by (cases out) (auto simp: evm_free_def mapE_def split: sum.splits)
  then show ?thesis by blast
qed

section \<open>Building a block\<close>

lemma guardR_Inr_unit: "guardR P e = Inr () \<longleftrightarrow> P"
  by simp

definition draft_ok :: "block \<Rightarrow> block_header option \<Rightarrow> bool" where
  "draft_ok b parent \<longleftrightarrow> length (bh_nonce (blk_header b)) = 8 \<and> (parent = None \<longrightarrow> bh_number (blk_header b) = 0)
     \<and> (\<forall>ommer \<in> set (blk_ommers b). header_wf ommer)"

definition build_from_draft ::
  "chain_config \<Rightarrow> block_header option \<Rightarrow> block \<Rightarrow> block_result \<Rightarrow> (exec_error, block) result" where
  "build_from_draft cfg parent b r =
     (let h = blk_header b in
      build_block cfg (map_option ParentHeader parent) (blk_transactions b) (OutcomeResult r) (bh_timestamp h)
        (bh_gas_limit h) (bh_coinbase h) (bh_extra_data h) (blk_ommers b) (bh_difficulty h) (Some (bh_mix_hash h))
        (bh_nonce h))"

lemma ommers_hash_returns: "\<forall>ommer \<in> set ommers. header_wf ommer \<Longrightarrow> \<exists>h. compute_ommers_hash ommers = Inr h"
proof -
  assume wf: "\<forall>ommer \<in> set ommers. header_wf ommer"
  have "rlp_ok (ObjList (map (\<lambda>ommer. ObjList (header_fields ommer)) ommers))"
    using wf header_rlp_ok by (auto simp: list_all_iff)
  from rlp_encode_image[OF this] show ?thesis by (simp add: compute_ommers_hash_def del: rlp_encode.simps)
qed

lemma logs_bloom_length: "compute_logs_bloom rs = Inr b \<Longrightarrow> length b = 256"
  by (auto simp: compute_logs_bloom_def combine_blooms_def split: if_splits)

text \<open>What the validation of the draft says about the header the builder makes.\<close>

lemma draft_parent:
  assumes "validate_block_for_execution b parent cfg = Inr ()"
  shows "\<exists>ph. (case parent of None \<Rightarrow> Inr 0 | Some h \<Rightarrow> mapE ExecPy (header_hash h)) = Inr ph
      \<and> (parent \<noteq> None \<longrightarrow> bh_parent_hash (blk_header b) = ph)"
    "parent = Some h \<Longrightarrow> bh_number (blk_header b) = bh_number h + 1 \<and> bh_timestamp h \<le> bh_timestamp (blk_header b)
      \<and> \<bar>bh_gas_limit (blk_header b) - bh_gas_limit h\<bar> \<le> max (bh_gas_limit h div cfg_gas_limit_bound_divisor cfg) 1"
    "(if cfg_fee_model cfg = EIP1559 then bindR (expected_base_fee cfg parent) (\<lambda>fee. Inr (Some fee)) else Inr None)
      = Inr (bh_base_fee (blk_header b))"
    "validate_header cfg (blk_header b) = Inr ()"
    "\<forall>t \<in> set (blk_transactions b). uint (tx_gas_limit t) \<le> bh_gas_limit (blk_header b)"
proof -
  have parent_of: "parent_header_of (map_option ParentHeader parent) = parent"
    by (simp add: parent_header_of_def split: option.splits)
  have steps: "validate_header cfg (blk_header b) = Inr ()"
    "validate_against_parent cfg b (map_option ParentHeader parent) = Inr ()"
    "validate_base_fee cfg b (map_option ParentHeader parent) = Inr ()"
    "\<forall>t \<in> set (blk_transactions b). uint (tx_gas_limit t) \<le> bh_gas_limit (blk_header b)"
    using assms by (auto simp: validate_block_for_execution_def Let_def list_ex_iff not_less)
  show "validate_header cfg (blk_header b) = Inr ()" "\<forall>t \<in> set (blk_transactions b). uint (tx_gas_limit t) \<le> bh_gas_limit (blk_header b)"
    by (fact steps)+
  show "\<exists>ph. (case parent of None \<Rightarrow> Inr 0 | Some h \<Rightarrow> mapE ExecPy (header_hash h)) = Inr ph
      \<and> (parent \<noteq> None \<longrightarrow> bh_parent_hash (blk_header b) = ph)"
    using steps(2) unfolding validate_against_parent_def parent_of
    by (auto simp: Let_def split: option.splits if_splits)
  show "parent = Some h \<Longrightarrow> bh_number (blk_header b) = bh_number h + 1 \<and> bh_timestamp h \<le> bh_timestamp (blk_header b)
      \<and> \<bar>bh_gas_limit (blk_header b) - bh_gas_limit h\<bar> \<le> max (bh_gas_limit h div cfg_gas_limit_bound_divisor cfg) 1"
    using steps(2) unfolding validate_against_parent_def parent_of by (auto simp: Let_def split: if_splits)
  show "(if cfg_fee_model cfg = EIP1559 then bindR (expected_base_fee cfg parent) (\<lambda>fee. Inr (Some fee)) else Inr None)
      = Inr (bh_base_fee (blk_header b))"
    using steps(3) unfolding validate_base_fee_def parent_of
    by (cases "cfg_fee_model cfg") (auto simp: Let_def split: option.splits)
qed

text \<open>The header of the built block: the draft's, with the fields that execution and the lists determine.\<close>

definition sealed :: "block \<Rightarrow> block_result \<Rightarrow> hash \<Rightarrow> hash \<Rightarrow> hash \<Rightarrow> hash \<Rightarrow> hash \<Rightarrow> block" where
  "sealed b r ph oh sr tr rr =
     b\<lparr>blk_header := (blk_header b)\<lparr>bh_parent_hash := ph, bh_ommers_hash := oh, bh_state_root := sr,
         bh_transactions_root := tr, bh_receipts_root := rr, bh_logs_bloom := br_logs_bloom r,
         bh_gas_used := br_gas_used r\<rparr>,
       blk_receipts := br_receipts r\<rparr>"

lemma sealed_fields:
  "blk_transactions (sealed b r ph oh sr tr rr) = blk_transactions b" "blk_ommers (sealed b r ph oh sr tr rr) = blk_ommers b"
  "block_env_of (sealed b r ph oh sr tr rr) cfg = block_env_of b cfg" "blk_receipts (sealed b r ph oh sr tr rr) = br_receipts r"
  "bh_state_root (blk_header (sealed b r ph oh sr tr rr)) = sr" "bh_gas_used (blk_header (sealed b r ph oh sr tr rr)) = br_gas_used r"
  "bh_gas_limit (blk_header (sealed b r ph oh sr tr rr)) = bh_gas_limit (blk_header b)"
  by (simp_all add: sealed_def block_env_of_def Let_def)

lemma sealed_prechecks:
  assumes valid: "validate_block_for_execution b parent cfg = Inr ()"
    and ph: "(case parent of None \<Rightarrow> Inr 0 | Some h \<Rightarrow> mapE ExecPy (header_hash h)) = Inr ph"
    and gas: "0 \<le> br_gas_used r" "br_gas_used r \<le> bh_gas_limit (blk_header b)"
  shows "header_validate (blk_header (sealed b r ph oh sr tr rr)) = Inr ()"
    "validate_header cfg (blk_header (sealed b r ph oh sr tr rr)) = Inr ()"
    "validate_against_parent cfg (sealed b r ph oh sr tr rr) (map_option ParentHeader parent) = Inr ()"
    "validate_base_fee cfg (sealed b r ph oh sr tr rr) (map_option ParentHeader parent) = Inr ()"
    "validate_block_for_execution (sealed b r ph oh sr tr rr) parent cfg = Inr ()"
proof -
  let ?s = "sealed b r ph oh sr tr rr"
  note draft = draft_parent[OF valid]
  show header: "header_validate (blk_header ?s) = Inr ()"
    using validated_header(1)[OF valid] gas by (auto simp: header_validate_def sealed_def split: if_splits)
  show vh: "validate_header cfg (blk_header ?s) = Inr ()"
    using draft(4) header by (simp add: validate_header_def sealed_def)
  show vp: "validate_against_parent cfg ?s (map_option ParentHeader parent) = Inr ()"
    using draft(2) ph
    by (auto simp: validate_against_parent_def parent_header_of_def sealed_def Let_def not_less split: option.splits)
  have "blk_header ?s = (blk_header b)\<lparr>bh_parent_hash := ph, bh_ommers_hash := oh, bh_state_root := sr,
      bh_transactions_root := tr, bh_receipts_root := rr, bh_logs_bloom := br_logs_bloom r, bh_gas_used := br_gas_used r\<rparr>"
    by (simp add: sealed_def)
  then show vf: "validate_base_fee cfg ?s (map_option ParentHeader parent) = Inr ()"
    using valid by (auto simp: validate_block_for_execution_def validate_base_fee_def Let_def)
  show "validate_block_for_execution ?s parent cfg = Inr ()"
    using vh vp vf draft(5) by (simp add: validate_block_for_execution_def sealed_fields Let_def list_ex_iff not_less)
qed

lemma build_from_draft_block:
  assumes wf: "db_wf db" "cfg_ok cfg" and draft: "draft_ok b parent"
    and run: "apply_block hl n db b cfg parent registry = Inr r"
  obtains ph oh sr tr rr where "build_from_draft cfg parent b r = Inr (sealed b r ph oh sr tr rr)"
    "br_state_root r = Some sr" "validate_block_for_execution (sealed b r ph oh sr tr rr) parent cfg = Inr ()"
proof -
  obtain acc db' where valid: "validate_block_for_execution b parent cfg = Inr ()"
    and loop: "block_loop hl n (bh_gas_limit (blk_header b)) (block_env_of b cfg) cfg registry (blk_transactions b) empty_acc db
        = (Inr acc, db')"
    and concl: "conclude_block b acc db' = Inr r"
    using wf(1) run by (rule apply_block_run)
  note v = validated_header[OF valid] and f = conclude_block_fields[OF concl]
  have start: "0 \<le> ac_cumulative_gas_used empty_acc" "ac_cumulative_gas_used empty_acc \<le> bh_gas_limit (blk_header b)"
    using v(3) by (simp_all add: empty_acc_def)
  obtain rs where rs: "acc = acc_of empty_acc rs" "length rs = length (blk_transactions b)"
    "check_cumulative (map tr_receipt rs) 0 = Inr (br_gas_used r)" "0 \<le> br_gas_used r"
    "br_gas_used r \<le> bh_gas_limit (blk_header b)"
    using block_loop_run[OF wf(1) v(2) wf(2) loop start] by (auto simp: empty_acc_def f)
  have receipts: "br_receipts r = map tr_receipt rs" by (simp add: f rs(1) acc_of_def empty_acc_def)
  obtain sr tr rr where roots: "br_state_root r = Some sr" "compute_transactions_root (blk_transactions b) = Inr tr"
    "compute_receipts_root (br_receipts r) = Inr rr" "compute_logs_bloom (br_receipts r) = Inr (br_logs_bloom r)"
    using concl f(4) by (auto simp: conclude_block_def mk_block_result_def split: if_splits)
  note bloom = logs_bloom_length[OF roots(4)]
  obtain oh where oh: "compute_ommers_hash (blk_ommers b) = Inr oh"
    using ommers_hash_returns[of "blk_ommers b"] draft by (auto simp: draft_ok_def)
  obtain ph where ph: "(case parent of None \<Rightarrow> Inr 0 | Some h \<Rightarrow> mapE ExecPy (header_hash h)) = Inr ph"
    using draft_parent(1)[OF valid] by blast
  let ?s = "sealed b r ph oh sr tr rr"
  note pre = sealed_prechecks[OF valid ph rs(4,5), of oh sr tr rr]
  let ?p = "\<lparr>ep_receipts = br_receipts r, ep_gas_used = br_gas_used r, ep_state = Some (br_state r),
        ep_state_root = br_state_root r, ep_logs_bloom = br_logs_bloom r,
        ep_transaction_results = br_transaction_results r, ep_pre_state_root = None\<rparr>"
  have payload: "to_execution_payload r None = Inr ?p"
    using bloom by (simp add: to_execution_payload_def mk_execution_payload_def)
  have "validate_gas ?s (Some ?p) = Inr ()"
    using rs(2-5) by (auto simp: validate_gas_def sealed_fields receipts Let_def)
  moreover have "validate_roots ?s (Some ?p) = Inr ()"
    using roots oh by (simp add: validate_roots_def sealed_fields resolved_state_root_def Let_def) (simp add: sealed_def)
  ultimately have struct_ok: "validate_block_structure cfg ?s (map_option ParentHeader parent) (Some ?p) = Inr ()"
    using pre(2-4) by (simp add: validate_block_structure_def)
  have number: "(case parent of None \<Rightarrow> 0 | Some h \<Rightarrow> bh_number h + 1) = bh_number (blk_header b)"
    using draft draft_parent(2)[OF valid] by (auto simp: draft_ok_def split: option.splits)
  have parent_of: "parent_header_of (map_option ParentHeader parent) = parent"
    by (simp add: parent_header_of_def split: option.splits)
  have mk: "mk_block_header
       \<lparr>ha_parent_hash = HashObj ph, ha_ommers_hash = HashObj oh, ha_coinbase = ArgAddress (bh_coinbase (blk_header b)),
        ha_state_root = HashObj sr, ha_transactions_root = HashObj tr, ha_receipts_root = HashObj rr,
        ha_logs_bloom = br_logs_bloom r, ha_difficulty = bh_difficulty (blk_header b),
        ha_number = bh_number (blk_header b), ha_gas_limit = bh_gas_limit (blk_header b),
        ha_gas_used = br_gas_used r, ha_timestamp = bh_timestamp (blk_header b), ha_extra_data = bh_extra_data (blk_header b),
        ha_mix_hash = HashObj (bh_mix_hash (blk_header b)), ha_nonce = bh_nonce (blk_header b),
        ha_base_fee = bh_base_fee (blk_header b)\<rparr> = Inr (blk_header ?s)"
    using pre(1) draft bloom
    by (cases "blk_header b") (simp add: mk_block_header_def header_hash_arg_def header_address_arg_def header_bytes_arg_def
        draft_ok_def sealed_def Let_def)
  have block: "\<lparr>blk_header = blk_header ?s, blk_transactions = blk_transactions b, blk_receipts = br_receipts r,
      blk_ommers = blk_ommers b\<rparr> = ?s"
    by (simp add: sealed_def)
  have "length (br_receipts r) = length (blk_transactions b)" "br_logs_bloom r \<noteq> []" using rs(2) bloom by (auto simp: receipts)
  then have "build_from_draft cfg parent b r = Inr ?s"
    using ph draft_parent(3)[OF valid] oh roots struct_ok
    by (simp add: build_from_draft_def build_block_def Let_def normalize_execution_payload_def payload parent_of number
        resolved_state_root_def resolved_logs_bloom_def mk block)
  then show thesis using roots(1) pre(5) by (rule that)
qed

lemma conclude_block_other:
  assumes "conclude_block b acc db = Inr r" "blk_transactions b' = blk_transactions b"
  shows "conclude_block b' acc db = Inr (r\<lparr>br_block := b'\<rparr>)"
proof -
  obtain sr tr rr lb where roots: "compute_state_root db = Inr sr" "compute_transactions_root (blk_transactions b) = Inr tr"
    "compute_receipts_root (ac_receipts acc) = Inr rr" "compute_logs_bloom (ac_receipts acc) = Inr lb"
    using assms(1) by (auto simp: conclude_block_def)
  show ?thesis
    using assms(1) unfolding conclude_block_def assms(2) roots
    by (cases "lb \<noteq> [] \<and> length lb \<noteq> 256") (simp_all only: mapE_simps bindR_simps mk_block_result_def block_result.simps
        if_True if_False sum.distinct sum.inject, auto)
qed

text \<open>
  C10. Producer and verifier agree. From any draft block that executes, the builder makes a block out of the
  result of the execution, never failing; the block carries the state root of the resulting state, and
  every node that executes it from the same state accepts it and computes the same result.
\<close>

theorem built_block_replays:
  assumes "db_wf db" "cfg_ok cfg" "draft_ok b parent" "apply_block hl n db b cfg parent registry = Inr r"
  shows "\<exists>b'. build_from_draft cfg parent b r = Inr b' \<and> blk_transactions b' = blk_transactions b
    \<and> br_state_root r = Some (bh_state_root (blk_header b')) \<and> bh_gas_used (blk_header b') = br_gas_used r
    \<and> apply_block hl n db b' cfg parent registry = Inr (r\<lparr>br_block := b'\<rparr>)"
proof -
  obtain acc db' where valid: "validate_block_for_execution b parent cfg = Inr ()"
    and loop: "block_loop hl n (bh_gas_limit (blk_header b)) (block_env_of b cfg) cfg registry (blk_transactions b) empty_acc db
        = (Inr acc, db')"
    and concl: "conclude_block b acc db' = Inr r"
    using assms(1,4) by (rule apply_block_run)
  obtain ph oh sr tr rr where s: "build_from_draft cfg parent b r = Inr (sealed b r ph oh sr tr rr)"
    "br_state_root r = Some sr" "validate_block_for_execution (sealed b r ph oh sr tr rr) parent cfg = Inr ()"
    by (rule build_from_draft_block[OF assms])
  let ?s = "sealed b r ph oh sr tr rr"
  have "conclude_block ?s acc db' = Inr (r\<lparr>br_block := ?s\<rparr>)"
    by (rule conclude_block_other[OF concl]) (simp add: sealed_fields)
  then have "apply_block hl n db ?s cfg parent registry = Inr (r\<lparr>br_block := ?s\<rparr>)"
    using loop unfolding apply_block_eq[OF assms(1) s(3)] by (simp add: sealed_fields)
  then show ?thesis using s by (intro exI[of _ ?s]) (simp add: sealed_fields)
qed

section \<open>Chains\<close>

text \<open>Blocks from the tip down to the genesis block (number 0), each validated against the one below it.\<close>

fun chain_valid :: "chain_config \<Rightarrow> block list \<Rightarrow> bool" where
  "chain_valid cfg [] \<longleftrightarrow> False"
| "chain_valid cfg [b] \<longleftrightarrow> bh_number (blk_header b) = 0"
| "chain_valid cfg (b # p # bs) \<longleftrightarrow>
     validate_block_structure cfg b (Some (ParentBlock p)) None = Inr () \<and> chain_valid cfg (p # bs)"

lemma chain_link:
  assumes "chain_valid cfg (b # p # bs)"
  shows "bh_number (blk_header b) = bh_number (blk_header p) + 1" "header_hash (blk_header p) = Inr (bh_parent_hash (blk_header b))"
    "bh_timestamp (blk_header p) \<le> bh_timestamp (blk_header b)"
  using assms
  by (auto simp: validate_block_structure_def validate_against_parent_def parent_header_of_def Let_def split: if_splits)

lemma chain_number: "chain_valid cfg (b # bs) \<Longrightarrow> bh_number (blk_header b) = int (length bs)"
proof (induction bs arbitrary: b)
  case (Cons p bs)
  then show ?case using chain_link(1)[OF Cons.prems] by simp
qed simp

definition headers_ok :: "block list \<Rightarrow> bool" where
  "headers_ok bs \<longleftrightarrow> (\<forall>b \<in> set bs. header_wf (blk_header b) \<and> header_small (blk_header b))"

definition header_collision :: "block list \<Rightarrow> block list \<Rightarrow> bool" where
  "header_collision bs cs \<longleftrightarrow> (\<exists>b \<in> set bs. \<exists>c \<in> set cs.
     header_rlp_encode (blk_header b) \<noteq> header_rlp_encode (blk_header c) \<and> block_hash b = block_hash c)"

lemma header_collision_Cons: "header_collision bs cs \<Longrightarrow> header_collision (b # bs) (c # cs)"
  by (auto simp: header_collision_def)

lemma same_hash_same_header:
  assumes "headers_ok (b # bs)" "headers_ok (c # cs)" "block_hash b = block_hash c" "\<not> header_collision (b # bs) (c # cs)"
  shows "blk_header b = blk_header c"
proof -
  have wf: "header_wf (blk_header b)" "header_small (blk_header b)" "header_wf (blk_header c)" "header_small (blk_header c)"
    using assms(1,2) by (simp_all add: headers_ok_def)
  have "header_rlp_encode (blk_header b) = header_rlp_encode (blk_header c)" using assms(3,4) by (auto simp: header_collision_def)
  then show ?thesis using header_encoding_inj[OF wf] header_encode[OF wf(1)] header_encode[OF wf(3)] by simp
qed

lemma chain_histories:
  assumes "chain_valid cfg (b # bs)" "chain_valid cfg' (c # cs)" "headers_ok (b # bs)" "headers_ok (c # cs)"
    "block_hash b = block_hash c" "\<not> header_collision (b # bs) (c # cs)"
  shows "map blk_header (b # bs) = map blk_header (c # cs)"
  using assms
proof (induction bs arbitrary: b c cs)
  case Nil
  note eq = same_hash_same_header[OF Nil.prems(3-6)]
  then have "length cs = 0" using chain_number[OF Nil.prems(1)] chain_number[OF Nil.prems(2)] by simp
  then show ?case using eq by simp
next
  case (Cons p bs)
  note eq = same_hash_same_header[OF Cons.prems(3-6)]
  have len: "length (p # bs) = length cs" using eq chain_number[OF Cons.prems(1)] chain_number[OF Cons.prems(2)] by simp
  then obtain q ds where cs: "cs = q # ds" by (cases cs) auto
  have "block_hash p = block_hash q"
    using chain_link(2)[OF Cons.prems(1)] chain_link(2)[OF Cons.prems(2)[unfolded cs]] eq by (simp add: block_hash_def)
  moreover have "\<not> header_collision (p # bs) (q # ds)" using Cons.prems(6) header_collision_Cons cs by blast
  moreover have "chain_valid cfg (p # bs)" "chain_valid cfg' (q # ds)" using Cons.prems(1,2) cs by simp_all
  moreover have "headers_ok (p # bs)" "headers_ok (q # ds)" using Cons.prems(3,4) cs by (simp_all add: headers_ok_def)
  ultimately have "map blk_header (p # bs) = map blk_header (q # ds)" by (intro Cons.IH)
  then show ?case using eq cs by simp
qed

text \<open>
  C16. The hash of a block determines its whole history. Two chains of blocks with well-formed headers, each
  block validated against its parent down to a genesis block, whose tips have the same hash, consist of
  the same headers, at the heights their numbers say and with timestamps that never decrease towards the
  tip; otherwise they exhibit two different header encodings with one Keccak-256 hash.
\<close>

theorem tip_hash_fixes_history:
  assumes "chain_valid cfg (b # bs)" "chain_valid cfg' (c # cs)" "headers_ok (b # bs)" "headers_ok (c # cs)"
    and "block_hash b = block_hash c"
  shows "header_collision (b # bs) (c # cs) \<or> map blk_header (b # bs) = map blk_header (c # cs)
    \<and> (\<forall>i < length (b # bs). bh_number (blk_header ((b # bs) ! i)) = int (length bs - i))
    \<and> sorted (map (\<lambda>x. bh_timestamp (blk_header x)) (rev (b # bs)))"
proof -
  have "(\<forall>i < length (b # bs). bh_number (blk_header ((b # bs) ! i)) = int (length bs - i))
      \<and> sorted (map (\<lambda>x. bh_timestamp (blk_header x)) (rev (b # bs)))"
    using assms(1)
  proof (induction bs arbitrary: b)
    case Nil
    then show ?case by simp
  next
    case (Cons p bs)
    then have IH: "\<forall>i < length (p # bs). bh_number (blk_header ((p # bs) ! i)) = int (length bs - i)"
      "sorted (map (\<lambda>x. bh_timestamp (blk_header x)) (rev (p # bs)))" by auto
    have "\<forall>x \<in> set (p # bs). bh_timestamp (blk_header x) \<le> bh_timestamp (blk_header p)"
      using IH(2) by (auto simp: sorted_append)
    then have "sorted (map (\<lambda>x. bh_timestamp (blk_header x)) (rev (b # p # bs)))"
      using IH(2) chain_link(3)[OF Cons.prems] by (fastforce simp: sorted_append)
    moreover have "bh_number (blk_header ((b # p # bs) ! i)) = int (length (p # bs) - i)" if "i < length (b # p # bs)" for i
      using that IH(1) chain_number[OF Cons.prems] by (cases i) auto
    ultimately show ?case by blast
  qed
  then show ?thesis using chain_histories[OF assms] by blast
qed

subsection \<open>Witnesses\<close>

definition one_account :: statedb where
  "one_account = [(0x10, mk_account 0 50000 [] [])]"

lemma one_account_facts: "db_wf one_account" "total_balance one_account = 50000" "\<exists>r. compute_state_root one_account = Inr r"
proof -
  show wf: "db_wf one_account"
    by (simp add: one_account_def db_wf_def account_wf_def mk_account_def storage_wf_def)
  show "total_balance one_account = 50000" by (simp add: one_account_def total_balance_def mk_account_def mask_small)
  have "fst ` set (live_accounts one_account) \<subseteq> {0x10}" by (auto simp: live_accounts_def one_account_def)
  from compute_state_root_run[OF wf _ this] mpt_commit_root[OF account_trie_ok[OF wf]]
  show "\<exists>r. compute_state_root one_account = Inr r" by simp
qed

lemma empty_list_root: "compute_transactions_root [] = Inr EMPTY_TRIE_ROOT" "compute_receipts_root [] = Inr EMPTY_TRIE_ROOT"
  by (simp_all add: compute_transactions_root_def compute_receipts_root_def compute_list_root_def mpt_commit_new)

lemma demo_block_valid: "validate_block_for_execution demo_block None default_chain_config = Inr ()"
  using demo_header_wf(1)
  by (simp add: validate_block_for_execution_def validate_header_def validate_against_parent_def validate_base_fee_def
      parent_header_of_def expected_base_fee_def demo_block_def header_wf_def Let_def)
    (simp add: demo_header_def default_chain_config_def DEFAULT_INITIAL_BASE_FEE_def expected_base_fee_def parent_header_of_def)

lemma demo_block_runs: "\<exists>r. apply_block demo_hashlib 0 one_account demo_block default_chain_config None None = Inr r
    \<and> br_transaction_results r = []"
proof -
  obtain sr where "compute_state_root one_account = Inr sr" using one_account_facts(3) by blast
  then show ?thesis
    unfolding apply_block_eq[OF one_account_facts(1) demo_block_valid]
    by (simp add: demo_block_def retM_def conclude_block_def empty_acc_def empty_list_root compute_logs_bloom_def mk_block_result_def)
qed

theorem apply_block_conserves_witness:
  "\<exists>r. apply_block demo_hashlib 0 one_account demo_block default_chain_config None None = Inr r
     \<and> total_balance (br_state r) + br_base_fee_burned r = 50000 \<and> br_gas_used r = 0"
proof -
  obtain r where r: "apply_block demo_hashlib 0 one_account demo_block default_chain_config None None = Inr r"
    "br_transaction_results r = []" using demo_block_runs by blast
  have small: "total_balance one_account < 2 ^ 256" by (simp add: one_account_facts(2))
  have settled: "settled_storage one_account" by (simp add: settled_storage_def one_account_def mk_account_def)
  from apply_block_conserves[OF one_account_facts(1) settled default_cfg_ok small r(1)] r show ?thesis
    by (simp add: one_account_facts(2))
qed

theorem apply_block_total_witness:
  "\<exists>m out. (\<forall>n \<ge> m. apply_block demo_hashlib n one_account demo_block default_chain_config None None = out)
     \<and> (\<forall>x. out \<noteq> Inl (ExecEvm x))"
  by (rule apply_block_total[OF one_account_facts(1) default_cfg_ok])

theorem built_block_replays_witness:
  "\<exists>r b'. apply_block demo_hashlib 0 one_account demo_block default_chain_config None None = Inr r
     \<and> apply_block demo_hashlib 0 one_account b' default_chain_config None None = Inr (r\<lparr>br_block := b'\<rparr>)
     \<and> br_state_root r = Some (bh_state_root (blk_header b'))"
proof -
  obtain r where r: "apply_block demo_hashlib 0 one_account demo_block default_chain_config None None = Inr r"
    using demo_block_runs by blast
  have "draft_ok demo_block None" by (simp add: draft_ok_def demo_block_def demo_header_def)
  from built_block_replays[OF one_account_facts(1) default_cfg_ok this r] r show ?thesis by blast
qed

definition demo_child :: block where
  "demo_child = demo_block\<lparr>blk_header := demo_header\<lparr>bh_parent_hash := keccak256 (flat_ref (header_raw demo_header)),
     bh_number := 1, bh_timestamp := 6, bh_base_fee := Some 875000000\<rparr>\<rparr>"

lemma demo_chain: "chain_valid default_chain_config [demo_child, demo_block]" "headers_ok [demo_child, demo_block]"
proof -
  have wf: "header_wf (blk_header demo_child)" "header_small (blk_header demo_child)"
    by (simp_all add: header_wf_def header_small_def header_validate_def demo_child_def demo_header_def MAX_EXTRA_DATA_BYTES_def)
  then show "headers_ok [demo_child, demo_block]"
    using demo_header_wf by (simp add: headers_ok_def) (simp add: demo_block_def)
  have "validate_header default_chain_config (blk_header demo_child) = Inr ()"
    using wf(1) by (simp add: validate_header_def header_wf_def) (simp add: demo_child_def demo_header_def default_chain_config_def)
  moreover have "validate_against_parent default_chain_config demo_child (Some (ParentBlock demo_block)) = Inr ()"
    by (simp add: validate_against_parent_def parent_header_of_def demo_block_def header_hash_value[OF demo_header_wf(1)] Let_def)
      (simp add: demo_child_def demo_header_def default_chain_config_def DEFAULT_GAS_LIMIT_BOUND_DIVISOR_def)
  moreover have "validate_base_fee default_chain_config demo_child (Some (ParentBlock demo_block)) = Inr ()"
    by (simp add: validate_base_fee_def parent_header_of_def demo_block_def expected_base_fee_def demo_child_def demo_header_def
        default_chain_config_def DEFAULT_ELASTICITY_MULTIPLIER_def DEFAULT_BASE_FEE_MAX_CHANGE_DENOMINATOR_def
        compute_gas_target_def compute_next_base_fee_def)
  moreover have "validate_gas demo_child None = Inr ()"
    by (simp add: validate_gas_def demo_child_def demo_block_def demo_header_def)
  moreover have "validate_roots demo_child None = Inr ()"
    by (simp add: validate_roots_def demo_child_def demo_block_def demo_header_def empty_list_root compute_logs_bloom_def
        compute_ommers_hash_def EMPTY_OMMERS_HASH_def)
  ultimately show "chain_valid default_chain_config [demo_child, demo_block]"
    by (simp add: validate_block_structure_def demo_block_def) (simp add: demo_header_def)
qed

theorem tip_hash_fixes_history_witness:
  "header_collision [demo_child, demo_block] [demo_child, demo_block]
   \<or> bh_timestamp (blk_header demo_block) \<le> bh_timestamp (blk_header demo_child) \<and> bh_number (blk_header demo_child) = 1"
  using tip_hash_fixes_history[OF demo_chain(1,1) demo_chain(2,2) refl] by fastforce

end
