(* ===== verification/Phantom_Json.thy ===== *)
theory Phantom_Json
  imports Keccak "HOL-Library.List_Lexorder" "HOL-Library.Char_ord"
begin

text \<open>
  The hashing of off-chain data, \<open>execution/phantom/hashing.py\<close>: objects are put in a normal form,
  written as compact JSON with sorted keys and hashed with Keccak-256. Strings are lists of the
  characters U+0000 to U+00FF; floating-point numbers do not occur in the payloads and have no
  constructor. Two values with the same text are the same value, so that a hash commits to what was
  hashed.
\<close>

section \<open>JSON values and their text\<close>

datatype json =
    JNull | JBool bool | JInt int | JStr string | JArr "json list" | JObj "(string \<times> json) list"

text \<open>\<open>_normalize\<close> after the objects have become JSON values: keys in order, at every level.\<close>

primrec json_normalize :: "json \<Rightarrow> json" where
  "json_normalize JNull = JNull"
| "json_normalize (JBool b) = JBool b"
| "json_normalize (JInt i) = JInt i"
| "json_normalize (JStr s) = JStr s"
| "json_normalize (JArr xs) = JArr (map json_normalize xs)"
| "json_normalize (JObj kvs) = JObj (sort_key fst (map (map_prod id json_normalize) kvs))"

definition digit_char :: "nat \<Rightarrow> char" where
  "digit_char d = ''0123456789'' ! d"

fun nat_text :: "nat \<Rightarrow> string" where
  "nat_text n = (if n < 10 then [digit_char n] else nat_text (n div 10) @ [digit_char (n mod 10)])"

declare nat_text.simps [simp del]

definition int_text :: "int \<Rightarrow> string" where
  "int_text i = (if i < 0 then ''-'' @ nat_text (nat (- i)) else nat_text (nat i))"

definition hex_digit :: "nat \<Rightarrow> char" where
  "hex_digit d = ''0123456789abcdef'' ! d"

text \<open>The escapes of \<open>json.dumps\<close> with \<open>ensure_ascii\<close>.\<close>

definition short_escapes :: "(char \<times> char) list" where
  "short_escapes = [(CHR 0x22, CHR 0x22), (CHR 0x5C, CHR 0x5C), (CHR 0x0A, CHR ''n''), (CHR 0x0D, CHR ''r''),
     (CHR 0x09, CHR ''t''), (CHR 0x0C, CHR ''f''), (CHR 0x08, CHR ''b'')]"

definition char_text :: "char \<Rightarrow> string" where
  "char_text c =
     (case map_of short_escapes c of
        Some e \<Rightarrow> [CHR 0x5C, e]
      | None \<Rightarrow>
          let n = of_char c :: nat in
          if 32 \<le> n \<and> n \<le> 126 then [c]
          else [CHR 0x5C, CHR ''u'', CHR ''0'', CHR ''0'', hex_digit (n div 16), hex_digit (n mod 16)])"

definition str_text :: "string \<Rightarrow> string" where
  "str_text s = [CHR 0x22] @ concat (map char_text s) @ [CHR 0x22]"

fun join_text :: "string list \<Rightarrow> string" where
  "join_text [] = ''''"
| "join_text [t] = t"
| "join_text (t # ts) = t @ '','' @ join_text ts"

primrec json_text :: "json \<Rightarrow> string" where
  "json_text JNull = ''null''"
| "json_text (JBool b) = (if b then ''true'' else ''false'')"
| "json_text (JInt i) = int_text i"
| "json_text (JStr s) = str_text s"
| "json_text (JArr xs) = ''['' @ join_text (map json_text xs) @ '']''"
| "json_text (JObj kvs) =
     ''{'' @ join_text (map (\<lambda>(k, t). str_text k @ '':'' @ t) (map (map_prod id json_text) kvs)) @ ''}''"

definition text_bytes :: "string \<Rightarrow> bytes" where
  "text_bytes t = map (\<lambda>c. word_of_nat (of_char c)) t"

definition canonical_json_bytes :: "json \<Rightarrow> bytes" where
  "canonical_json_bytes v = text_bytes (json_text (json_normalize v))"

definition phantom_hash :: "json \<Rightarrow> hash" where
  "phantom_hash v = keccak256 (canonical_json_bytes v)"

definition hash_secret :: "bytes \<Rightarrow> hash" where
  "hash_secret secret = keccak256 secret"

section \<open>The text determines the value\<close>

lemma digit_char_inj: "d < 10 \<Longrightarrow> e < 10 \<Longrightarrow> digit_char d = digit_char e \<Longrightarrow> d = e"
  by (auto simp: digit_char_def nth_eq_iff_index_eq)

definition is_digit :: "char \<Rightarrow> bool" where
  "is_digit c \<longleftrightarrow> c \<in> set ''0123456789''"

lemma is_digit_digit: "d < 10 \<Longrightarrow> is_digit (digit_char d)"
  unfolding is_digit_def digit_char_def by (rule nth_mem) simp

lemma nat_text_digits: "c \<in> set (nat_text n) \<Longrightarrow> is_digit c"
  by (induction n rule: nat_text.induct)
    (subst (asm) (2) nat_text.simps, auto simp: is_digit_digit split: if_splits)

lemma nat_text_nonempty [simp]: "nat_text n \<noteq> []"
  by (subst nat_text.simps) simp

text \<open>Reading the digits back.\<close>

definition digits_value :: "string \<Rightarrow> nat" where
  "digits_value ds = foldl (\<lambda>a c. 10 * a + (THE d. d < 10 \<and> digit_char d = c)) 0 ds"

lemma the_digit: "d < 10 \<Longrightarrow> (THE e. e < 10 \<and> digit_char e = digit_char d) = d"
  by (rule the_equality) (auto intro: digit_char_inj)

lemma digits_value_text: "digits_value (nat_text n) = n"
proof (induction n rule: nat_text.induct)
  case (1 n)
  show ?case
  proof (cases "n < 10")
    case True
    then show ?thesis by (subst nat_text.simps) (simp add: digits_value_def the_digit)
  next
    case False
    then have "digits_value (nat_text n) = 10 * digits_value (nat_text (n div 10)) + n mod 10"
      by (subst nat_text.simps) (simp add: digits_value_def the_digit)
    with 1 False show ?thesis by simp
  qed
qed

lemma nat_text_inj: "nat_text m = nat_text n \<Longrightarrow> m = n"
  by (metis digits_value_text)

text \<open>A number ends where the digits end.\<close>

definition stops :: "string \<Rightarrow> bool" where
  "stops r \<longleftrightarrow> (case r of [] \<Rightarrow> True | c # _ \<Rightarrow> \<not> is_digit c)"

lemma stops_simps [simp]: "stops []" "stops (c # r) \<longleftrightarrow> \<not> is_digit c"
  by (simp_all add: stops_def)

lemma takeWhile_digits:
  "(\<And>c. c \<in> set ds \<Longrightarrow> is_digit c) \<Longrightarrow> stops r \<Longrightarrow> takeWhile is_digit (ds @ r) = ds"
  by (induction ds) (auto simp: stops_def split: list.splits)

lemma nat_text_cancel:
  assumes "nat_text m @ r = nat_text n @ s" "stops r" "stops s"
  shows "m = n \<and> r = s"
proof -
  have "nat_text m = nat_text n"
    using assms takeWhile_digits[of "nat_text m" r] takeWhile_digits[of "nat_text n" s] nat_text_digits by metis
  with assms(1) show ?thesis using nat_text_inj by auto
qed

lemma hd_nat_text: "is_digit (hd (nat_text n))"
  by (rule nat_text_digits) (rule hd_in_set, simp)

lemma not_digit_punctuation [simp]:
  "\<not> is_digit CHR ''-''" "\<not> is_digit CHR '',''" "\<not> is_digit CHR '']''" "\<not> is_digit CHR ''}''"
  "\<not> is_digit CHR ''['' " "\<not> is_digit CHR ''{''" "\<not> is_digit CHR ''n''" "\<not> is_digit CHR ''t''"
  "\<not> is_digit CHR ''f''" "\<not> is_digit CHR 0x22"
  by (simp_all add: is_digit_def)


lemma hex_digit_inj: "d < 16 \<Longrightarrow> e < 16 \<Longrightarrow> hex_digit d = hex_digit e \<Longrightarrow> d = e"
  by (auto simp: hex_digit_def nth_eq_iff_index_eq)

lemma hex_pair_inj:
  fixes m n :: nat
  assumes "m < 256" "n < 256" "hex_digit (m div 16) = hex_digit (n div 16)" "hex_digit (m mod 16) = hex_digit (n mod 16)"
  shows "m = n"
proof -
  have "m div 16 = n div 16" "m mod 16 = n mod 16"
    using assms by (auto intro!: hex_digit_inj)
  then show ?thesis by (metis div_mult_mod_eq)
qed

lemma short_escapes_inj:
  "map_of short_escapes c = Some e \<Longrightarrow> map_of short_escapes d = Some e \<Longrightarrow> c = d"
  "map_of short_escapes c = Some e \<Longrightarrow> e \<noteq> CHR ''u''"
  by (auto simp: short_escapes_def split: if_splits)

lemma char_text_cases:
  obtains (short) e where "map_of short_escapes c = Some e" "char_text c = [CHR 0x5C, e]"
  | (plain) "c \<noteq> CHR 0x5C" "c \<noteq> CHR 0x22" "char_text c = [c]"
  | (coded) n where "n = of_char c" "n < 256"
      "char_text c = [CHR 0x5C, CHR ''u'', CHR ''0'', CHR ''0'', hex_digit (n div 16), hex_digit (n mod 16)]"
proof (cases "map_of short_escapes c")
  case None
  have bound: "(of_char c :: nat) < 256" by (rule nat_of_char_less_256)
  have special: "c \<noteq> CHR 0x5C" "c \<noteq> CHR 0x22" using None by (auto simp: short_escapes_def split: if_splits)
  show thesis
  proof (cases "32 \<le> (of_char c :: nat) \<and> (of_char c :: nat) \<le> 126")
    case True
    with None special show thesis by (intro plain) (simp_all add: char_text_def)
  next
    case False
    then have "char_text c = [CHR 0x5C, CHR ''u'', CHR ''0'', CHR ''0'',
        hex_digit ((of_char c :: nat) div 16), hex_digit ((of_char c :: nat) mod 16)]"
      using None unfolding char_text_def Let_def by (simp only: option.case if_False)
    from coded[OF refl bound this] show thesis .
  qed
qed (simp add: char_text_def short)

lemma char_text_cancel:
  assumes "char_text c @ r = char_text d @ s"
  shows "c = d \<and> r = s"
proof (cases c rule: char_text_cases)
  case (short e)
  with assms short_escapes_inj show ?thesis by (cases d rule: char_text_cases) auto
next
  case plain
  with assms show ?thesis by (cases d rule: char_text_cases) auto
next
  case (coded m)
  show ?thesis
  proof (cases d rule: char_text_cases)
    case (short e)
    with assms coded short_escapes_inj(2)[of d e] show ?thesis by auto
  next
    case plain
    with assms coded show ?thesis by auto
  next
    case n: (coded n)
    from assms n(3) coded(3) have "m = n" "r = s" using hex_pair_inj[OF coded(2) n(2)] by auto
    with coded(1) n(1) show ?thesis by simp
  qed
qed

lemma char_text_hd: "char_text c \<noteq> [] \<and> hd (char_text c) \<noteq> CHR 0x22"
  by (cases c rule: char_text_cases) auto

lemma chars_text_cancel:
  "concat (map char_text a) @ CHR 0x22 # r = concat (map char_text b) @ CHR 0x22 # s \<Longrightarrow> a = b \<and> r = s"
proof (induction a arbitrary: b)
  case Nil
  show ?case
  proof (cases b)
    case (Cons d b')
    with Nil char_text_hd[of d] show ?thesis by (cases "char_text d") auto
  qed (use Nil in simp)
next
  case (Cons c a)
  show ?case
  proof (cases b)
    case Nil
    with Cons.prems char_text_hd[of c] show ?thesis by (cases "char_text c") auto
  next
    case (Cons d b')
    with Cons.prems have "char_text c @ (concat (map char_text a) @ CHR 0x22 # r)
        = char_text d @ (concat (map char_text b') @ CHR 0x22 # s)" by simp
    from char_text_cancel[OF this] Cons.IH[of b'] Cons show ?thesis by simp
  qed
qed

lemma str_text_cancel: "str_text a @ r = str_text b @ s \<Longrightarrow> a = b \<and> r = s"
  using chars_text_cancel[of a r b s] by (simp add: str_text_def)

text \<open>
  A way to write values that can be told apart from what follows them: the text of a value is never
  a proper beginning of another's, as long as what follows does not go on with digits.
\<close>

definition cancels :: "('a \<Rightarrow> string) \<Rightarrow> 'a \<Rightarrow> bool" where
  "cancels f x \<longleftrightarrow> (\<forall>y r s. f x @ r = f y @ s \<longrightarrow> stops r \<longrightarrow> stops s \<longrightarrow> x = y \<and> r = s)"

lemma cancelsD: "cancels f x \<Longrightarrow> f x @ r = f y @ s \<Longrightarrow> stops r \<Longrightarrow> stops s \<Longrightarrow> x = y \<and> r = s"
  by (auto simp: cancels_def)

lemma join_text_Cons: "ts \<noteq> [] \<Longrightarrow> join_text (t # ts) = t @ '','' @ join_text ts"
  by (cases ts) auto

lemma join_text_cancel:
  assumes items: "\<And>x. x \<in> set xs \<Longrightarrow> cancels f x"
    and opens: "\<And>x. f x \<noteq> [] \<and> hd (f x) \<noteq> c" and c: "\<not> is_digit c" "c \<noteq> CHR '',''"
    and eq: "join_text (map f xs) @ c # r = join_text (map f ys) @ c # s"
  shows "xs = ys \<and> r = s"
  using items eq
proof (induction xs arbitrary: ys)
  case Nil
  show ?case
  proof (cases ys)
    case (Cons y ys')
    then have "hd (join_text (map f ys)) = hd (f y)" "join_text (map f ys) \<noteq> []"
      using opens[of y] by (cases ys'; simp)+
    with Nil.prems opens[of y] show ?thesis by (cases "join_text (map f ys)") auto
  qed (use Nil in simp)
next
  case (Cons x xs)
  have start: "\<exists>t. join_text (map f (z # zs)) @ c # q = f z @ t \<and> stops t \<and> t = (if zs = [] then c # q else CHR '','' # join_text (map f zs) @ c # q)" for z zs q
    using c by (cases "zs = []") (simp_all add: join_text_Cons)
  show ?case
  proof (cases ys)
    case Nil
    from Cons.prems(2) start[of x xs r] opens[of x] Nil show ?thesis
      by (cases "f x") (auto split: if_splits)
  next
    case (Cons y ys')
    have "cancels f x" using Cons.prems(1) by simp
    with Cons.prems(2) start[of x xs r] start[of y ys' s] Cons
    have xy: "x = y" and rest: "(if xs = [] then c # r else CHR '','' # join_text (map f xs) @ c # r)
        = (if ys' = [] then c # s else CHR '','' # join_text (map f ys') @ c # s)"
      using cancelsD[of f x] by metis+
    show ?thesis
    proof (cases "xs = [] \<or> ys' = []")
      case True
      with rest c xy Cons show ?thesis by (auto split: if_splits)
    next
      case False
      with rest have "join_text (map f xs) @ c # r = join_text (map f ys') @ c # s" by simp
      with Cons.IH[of ys'] Cons.prems(1) xy Cons show ?thesis by simp
    qed
  qed
qed

definition json_first :: "json \<Rightarrow> char \<Rightarrow> bool" where
  "json_first v c \<longleftrightarrow>
     (case v of JNull \<Rightarrow> c = CHR ''n'' | JBool b \<Rightarrow> c = (if b then CHR ''t'' else CHR ''f'')
      | JInt i \<Rightarrow> (if i < 0 then c = CHR ''-'' else is_digit c) | JStr _ \<Rightarrow> c = CHR 0x22
      | JArr _ \<Rightarrow> c = CHR ''['' | JObj _ \<Rightarrow> c = CHR ''{'')"

lemma json_text_first: "json_text v \<noteq> [] \<and> json_first v (hd (json_text v))"
  by (cases v) (auto simp: json_first_def int_text_def str_text_def hd_nat_text)

lemma json_first_closing: "\<not> json_first v CHR '']''" "\<not> json_first v CHR ''}''"
  by (cases v; simp add: json_first_def is_digit_def)+

lemma json_first_same:
  assumes "json_text v @ r = json_text w @ s"
  shows "\<exists>c. json_first v c \<and> json_first w c"
  using assms json_text_first[of v] json_text_first[of w] by (cases "json_text v"; cases "json_text w") auto

lemma json_text_opens: "json_text v \<noteq> [] \<and> hd (json_text v) \<noteq> CHR '']''"
  using json_text_first[of v] json_first_closing(1)[of v] by auto

definition member_text :: "string \<times> json \<Rightarrow> string" where
  "member_text = (\<lambda>(k, v). str_text k @ '':'' @ json_text v)"

lemma json_text_JObj: "json_text (JObj kvs) = ''{'' @ join_text (map member_text kvs) @ ''}''"
  by (simp add: member_text_def comp_def case_prod_unfold)

lemma member_text_opens: "member_text m \<noteq> [] \<and> hd (member_text m) \<noteq> CHR ''}''"
  by (cases m) (simp add: member_text_def str_text_def)

lemma member_text_cancels: "cancels json_text (snd m) \<Longrightarrow> cancels member_text m"
proof (cases m)
  case (Pair k v)
  assume v: "cancels json_text (snd m)"
  show ?thesis
    unfolding cancels_def
  proof (intro allI impI)
    fix y r s assume eq: "member_text m @ r = member_text y @ s" and stop: "stops r" "stops s"
    obtain l w where y: "y = (l, w)" by (cases y)
    have "str_text k @ ('':'' @ json_text v @ r) = str_text l @ ('':'' @ json_text w @ s)"
      using eq by (simp add: Pair y member_text_def)
    from str_text_cancel[OF this] cancelsD[OF v _ stop] show "m = y \<and> r = s"
      by (simp add: Pair y)
  qed
qed

lemma json_text_cancels: "cancels json_text v"
proof (induction v)
  case (JInt i)
  show ?case
    unfolding cancels_def
  proof (intro allI impI)
    fix w r s assume eq: "json_text (JInt i) @ r = json_text w @ s" and stop: "stops r" "stops s"
    obtain j where w: "w = JInt j"
      using json_first_same[OF eq] by (cases w) (auto simp: json_first_def is_digit_def split: if_splits)
    have sign: "i < 0 \<longleftrightarrow> j < 0"
      using json_first_same[OF eq] by (auto simp: w json_first_def is_digit_def split: if_splits)
    have "nat_text (nat \<bar>i\<bar>) @ r = nat_text (nat \<bar>j\<bar>) @ s"
      using eq sign by (cases "i < 0") (simp_all add: w int_text_def)
    from nat_text_cancel[OF this stop] sign show "JInt i = w \<and> r = s"
      by (cases "i < 0") (auto simp: w nat_eq_iff2 abs_if split: if_splits)
  qed
next
  case (JStr t)
  show ?case
    unfolding cancels_def
  proof (intro allI impI)
    fix w r s assume eq: "json_text (JStr t) @ r = json_text w @ s"
    obtain u where w: "w = JStr u"
      using json_first_same[OF eq] by (cases w) (auto simp: json_first_def is_digit_def split: if_splits)
    show "JStr t = w \<and> r = s" using eq str_text_cancel[of t r u s] by (simp add: w)
  qed
next
  case (JArr xs)
  show ?case
    unfolding cancels_def
  proof (intro allI impI)
    fix w r s assume eq: "json_text (JArr xs) @ r = json_text w @ s"
    obtain ys where w: "w = JArr ys"
      using json_first_same[OF eq] by (cases w) (auto simp: json_first_def is_digit_def split: if_splits)
    show "JArr xs = w \<and> r = s"
      using eq join_text_cancel[of xs json_text "CHR '']''" r ys s] JArr.IH json_text_opens by (simp add: w)
  qed
next
  case (JObj kvs)
  have items: "cancels member_text m" if "m \<in> set kvs" for m
    using member_text_cancels[of m] JObj.IH[of m "snd m"] that by (simp add: snds.simps)
  show ?case
    unfolding cancels_def
  proof (intro allI impI)
    fix w r s assume eq: "json_text (JObj kvs) @ r = json_text w @ s"
    obtain lws where w: "w = JObj lws"
      using json_first_same[OF eq] by (cases w) (auto simp: json_first_def is_digit_def split: if_splits)
    show "JObj kvs = w \<and> r = s"
      using eq join_text_cancel[of kvs member_text "CHR ''}''" r lws s] items member_text_opens
      unfolding w json_text_JObj by simp
  qed
next
  case JNull
  show ?case
    unfolding cancels_def
  proof (intro allI impI)
    fix w r s assume eq: "json_text JNull @ r = json_text w @ s"
    have w: "w = JNull"
      using json_first_same[OF eq] by (cases w) (auto simp: json_first_def is_digit_def split: if_splits)
    show "JNull = w \<and> r = s" using eq by (simp add: w)
  qed
next
  case (JBool b)
  show ?case
    unfolding cancels_def
  proof (intro allI impI)
    fix w r s assume eq: "json_text (JBool b) @ r = json_text w @ s"
    have w: "w = JBool b"
      using json_first_same[OF eq] by (cases w) (auto simp: json_first_def is_digit_def split: if_splits)
    show "JBool b = w \<and> r = s" using eq by (simp add: w)
  qed
qed

lemma json_text_inj: "json_text v = json_text w \<Longrightarrow> v = w"
  using cancelsD[OF json_text_cancels, of v "[]" w "[]"] by simp

lemma text_bytes_inj: "text_bytes t = text_bytes u \<Longrightarrow> t = u"
proof -
  have "inj (\<lambda>c::char. word_of_nat (of_char c) :: byte)"
  proof (rule injI)
    fix c d :: char assume "(word_of_nat (of_char c) :: byte) = word_of_nat (of_char d)"
    then have "unat (word_of_nat (of_char c) :: byte) = unat (word_of_nat (of_char d) :: byte)" by (rule arg_cong)
    then have "(of_char c :: nat) mod 256 = of_char d mod 256" by (simp only: unat_of_nat len_num1 len_bit0 power_numeral) simp
    then have "(of_char c :: nat) = of_char d"
      by (simp only: mod_less[OF nat_of_char_less_256])
    then show "c = d" by (simp only: of_char_eq_iff)
  qed
  then show "text_bytes t = text_bytes u \<Longrightarrow> t = u"
    unfolding text_bytes_def by (rule map_injective[rotated])
qed

lemma canonical_json_bytes_eq:
  "canonical_json_bytes v = canonical_json_bytes w \<longleftrightarrow> json_normalize v = json_normalize w"
  using text_bytes_inj json_text_inj by (fastforce simp: canonical_json_bytes_def)

end
