(* ===== verification/Phantom_Models.thy ===== *)
theory Phantom_Models
  imports Phantom_Json Signing
begin

text \<open>
  The data of the payment channels, \<open>execution/phantom/models.py\<close> and \<open>errors.py\<close>, and the signatures
  on it, \<open>signing.py\<close>: hash-locked transfers, channel states with their committed root, channels,
  routes, payments and the settlement operations. A constructor that validates its arguments is a
  function into a result. Balances are dictionaries keyed by address and sorted by the hexadecimal
  address, as \<open>_normalize_balances\<close> leaves them.
\<close>

section \<open>Errors\<close>

text \<open>
  \<open>PhantomPy\<close> is a builtin exception raised by the modelled code. \<open>SigningLoops\<close> is not an exception:
  it is the outcome of a call that never returns because the nonce search of a signature does not end.
\<close>

datatype phantom_error =
    ChannelValidationError | SignatureValidationError | ReplayAttackError | RouteNotFoundError
  | HTLCError | DisputeError | SettlementError | MempoolError
  | PhantomPy py_error | SigningLoops

section \<open>Addresses and balances\<close>

definition addr_hex :: "address \<Rightarrow> string" where
  "addr_hex a = to_hex (address_bytes a) True"

definition hash_hex :: "hash \<Rightarrow> string" where
  "hash_hex h = to_hex (hash_bytes h) True"

lemma addr_hex_inj [simp]: "addr_hex a = addr_hex b \<longleftrightarrow> a = b"
  unfolding addr_hex_def by (metis address_hex_roundtrip sum.inject(2))

lemma hash_hex_inj [simp]: "hash_hex a = hash_hex b \<longleftrightarrow> a = b"
  unfolding hash_hex_def by (metis hash_hex_roundtrip sum.inject(2))

text \<open>A participant as callers give it: an \<open>Address\<close> or its hexadecimal string.\<close>

datatype party = PartyAddr address | PartyHex string

definition normalize_address :: "party \<Rightarrow> (py_error, address) result" where
  "normalize_address p = (case p of PartyAddr a \<Rightarrow> Inr a | PartyHex s \<Rightarrow> address_from_hex s)"

type_synonym balances = "(address, int) dict"

fun normalize_entries :: "(party, int) dict \<Rightarrow> balances \<Rightarrow> (py_error, balances) result" where
  "normalize_entries [] normalized = Inr normalized"
| "normalize_entries ((p, amount) # entries) normalized =
     (if amount < 0 then Inl ValueError
      else bindR (normalize_address p) (\<lambda>a. normalize_entries entries (dict_put a amount normalized)))"

definition normalize_balances :: "(party, int) dict \<Rightarrow> (py_error, balances) result" where
  "normalize_balances d = bindR (normalize_entries d []) (\<lambda>n. Inr (sort_key (\<lambda>e. addr_hex (fst e)) n))"

text \<open>Balances that are keyed by address already.\<close>

definition as_parties :: "balances \<Rightarrow> (party, int) dict" where
  "as_parties d = map (\<lambda>(a, amount). (PartyAddr a, amount)) d"

definition balance_sum :: "balances \<Rightarrow> int" where
  "balance_sum d = sum_list (map snd d)"

definition ordered_pair :: "address \<Rightarrow> address \<Rightarrow> address \<times> address" where
  "ordered_pair a b = (if addr_hex a \<le> addr_hex b then (a, b) else (b, a))"

section \<open>Hash-locked transfers\<close>

datatype channel_status = ChannelOpen | ChannelClosing | ChannelClosed
datatype htlc_status = HtlcPending | HtlcClaimed | HtlcRefunded
datatype payment_status = PaymentPending | PaymentCompleted | PaymentRefunded | PaymentFailed

definition htlc_status_value :: "htlc_status \<Rightarrow> string" where
  "htlc_status_value s =
     (case s of HtlcPending \<Rightarrow> ''PENDING'' | HtlcClaimed \<Rightarrow> ''CLAIMED'' | HtlcRefunded \<Rightarrow> ''REFUNDED'')"

record htlc =
  hl_id :: string
  hl_hashlock :: hash
  hl_timelock :: int
  hl_amount :: int
  hl_sender :: address
  hl_receiver :: address
  hl_fee :: int
  hl_status :: htlc_status

definition mk_htlc :: "htlc \<Rightarrow> (py_error, htlc) result" where
  "mk_htlc h =
     (if hl_amount h \<le> 0 then Inl ValueError
      else if hl_fee h < 0 then Inl ValueError
      else if hl_timelock h \<le> 0 then Inl ValueError
      else Inr h)"

definition htlc_payload :: "htlc \<Rightarrow> json" where
  "htlc_payload h = JObj
     [(''htlc_id'', JStr (hl_id h)), (''hashlock'', JStr (hash_hex (hl_hashlock h))),
      (''timelock'', JInt (hl_timelock h)), (''amount'', JInt (hl_amount h)),
      (''sender'', JStr (addr_hex (hl_sender h))), (''receiver'', JStr (addr_hex (hl_receiver h))),
      (''fee'', JInt (hl_fee h)), (''status'', JStr (htlc_status_value (hl_status h)))]"

section \<open>Channel states\<close>

record channel_state =
  cs_channel_id :: string
  cs_nonce :: int
  cs_balances :: balances
  cs_htlcs :: "htlc list"
  cs_root :: hash
  cs_signatures :: "(string, string) dict"

definition balances_json :: "balances \<Rightarrow> json" where
  "balances_json d = JObj (map (\<lambda>(a, amount). (addr_hex a, JInt amount)) d)"

definition payload_of :: "string \<Rightarrow> int \<Rightarrow> balances \<Rightarrow> htlc list \<Rightarrow> (string \<times> json) list" where
  "payload_of channel_id nonce bals htlcs =
     [(''channel_id'', JStr channel_id), (''nonce'', JInt nonce), (''balances'', balances_json bals),
      (''active_htlcs'', JArr (map htlc_payload htlcs))]"

definition state_payload :: "channel_state \<Rightarrow> (string \<times> json) list" where
  "state_payload s = payload_of (cs_channel_id s) (cs_nonce s) (cs_balances s) (cs_htlcs s)"

definition mk_channel_state ::
  "string \<Rightarrow> int \<Rightarrow> (party, int) dict \<Rightarrow> htlc list \<Rightarrow> hash option \<Rightarrow> (string, string) dict
   \<Rightarrow> (py_error, channel_state) result" where
  "mk_channel_state channel_id nonce bals htlcs root signatures =
     (if nonce < 0 then Inl ValueError
      else bindR (normalize_balances bals) (\<lambda>normalized.
        let active = sort_key hl_id htlcs;
            computed = phantom_hash (JObj (payload_of channel_id nonce normalized active));
            given = (case root of None \<Rightarrow> computed | Some r \<Rightarrow> r)
        in if given \<noteq> computed then Inl ValueError
           else Inr \<lparr>cs_channel_id = channel_id, cs_nonce = nonce, cs_balances = normalized, cs_htlcs = active,
             cs_root = given, cs_signatures = sort_key fst signatures\<rparr>))"

definition state_participants :: "channel_state \<Rightarrow> address list" where
  "state_participants s = map fst (cs_balances s)"

definition total_state_balance :: "channel_state \<Rightarrow> int" where
  "total_state_balance s = balance_sum (cs_balances s)"

text \<open>\<open>clone\<close>: an absent argument keeps the field, and the root is computed again.\<close>

definition state_clone ::
  "channel_state \<Rightarrow> int option \<Rightarrow> (party, int) dict option \<Rightarrow> htlc list option \<Rightarrow> (string, string) dict option
   \<Rightarrow> (py_error, channel_state) result" where
  "state_clone s nonce bals htlcs signatures =
     mk_channel_state (cs_channel_id s)
       (case nonce of None \<Rightarrow> cs_nonce s | Some n \<Rightarrow> n)
       (case bals of None \<Rightarrow> as_parties (cs_balances s) | Some b \<Rightarrow> b)
       (case htlcs of None \<Rightarrow> cs_htlcs s | Some h \<Rightarrow> h)
       None
       (case signatures of None \<Rightarrow> cs_signatures s | Some g \<Rightarrow> g)"

section \<open>Channels\<close>

record channel =
  ch_id :: string
  ch_participants :: "address \<times> address"
  ch_balances :: balances
  ch_nonce :: int
  ch_root :: hash
  ch_open_block :: int
  ch_dispute_window :: int
  ch_status :: channel_status
  ch_escrow :: "address option"
  ch_latest :: channel_state
  ch_closing :: "channel_state option"
  ch_closing_started :: "int option"
  ch_max_htlcs :: int
  ch_fee_base :: int
  ch_fee_ppm :: int

abbreviation ch_members :: "channel \<Rightarrow> address list" where
  "ch_members c \<equiv> [fst (ch_participants c), snd (ch_participants c)]"

definition mk_channel ::
  "string \<Rightarrow> party \<times> party \<Rightarrow> (party, int) dict \<Rightarrow> int \<Rightarrow> hash \<Rightarrow> int \<Rightarrow> int \<Rightarrow> address option
   \<Rightarrow> channel_state option \<Rightarrow> int \<Rightarrow> int \<Rightarrow> int \<Rightarrow> (py_error, channel) result" where
  "mk_channel channel_id participants bals nonce root open_block dispute_window escrow latest max_htlcs fee_base fee_ppm =
     bindR (normalize_address (fst participants)) (\<lambda>a.
     bindR (normalize_address (snd participants)) (\<lambda>b.
     if a = b then Inl ValueError
     else bindR (normalize_balances bals) (\<lambda>normalized.
       if map fst normalized \<noteq> [fst (ordered_pair a b), snd (ordered_pair a b)] then Inl ValueError
       else bindR (case latest of Some s \<Rightarrow> Inr s
             | None \<Rightarrow> mk_channel_state channel_id nonce (as_parties normalized) [] None []) (\<lambda>state.
         if cs_root state \<noteq> root then Inl ValueError
         else Inr \<lparr>ch_id = channel_id, ch_participants = ordered_pair a b, ch_balances = normalized, ch_nonce = nonce,
           ch_root = root, ch_open_block = open_block, ch_dispute_window = dispute_window, ch_status = ChannelOpen,
           ch_escrow = escrow, ch_latest = state, ch_closing = None, ch_closing_started = None,
           ch_max_htlcs = max_htlcs, ch_fee_base = fee_base, ch_fee_ppm = fee_ppm\<rparr>))))"

definition total_capacity :: "channel \<Rightarrow> int" where
  "total_capacity c = balance_sum (ch_balances c)"

definition active_htlcs :: "channel \<Rightarrow> htlc list" where
  "active_htlcs c = cs_htlcs (ch_latest c)"

definition locked_by :: "address \<Rightarrow> htlc list \<Rightarrow> int" where
  "locked_by a hs = sum_list (map hl_amount (filter (\<lambda>h. hl_sender h = a \<and> hl_status h = HtlcPending) hs))"

definition locked_balance :: "channel \<Rightarrow> address \<Rightarrow> int" where
  "locked_balance c a = locked_by a (active_htlcs c)"

definition available_balance :: "channel \<Rightarrow> address \<Rightarrow> (py_error, int) result" where
  "available_balance c a =
     (case dict_get (ch_balances c) a of None \<Rightarrow> Inl KeyError | Some b \<Rightarrow> Inr (b - locked_balance c a))"

definition routing_fee :: "channel \<Rightarrow> int \<Rightarrow> int" where
  "routing_fee c amount =
     ch_fee_base c + (if ch_fee_ppm c \<noteq> 0 then (amount * ch_fee_ppm c + 999999) div 1000000 else 0)"

definition apply_state :: "channel_state \<Rightarrow> channel \<Rightarrow> channel" where
  "apply_state s c =
     c\<lparr>ch_latest := s, ch_balances := cs_balances s, ch_nonce := cs_nonce s, ch_root := cs_root s\<rparr>"

section \<open>Routes and payments\<close>

record channel_edge =
  ed_channel_id :: string
  ed_participants :: "address \<times> address"
  ed_capacity :: int
  ed_available :: balances
  ed_fee_base :: int
  ed_fee_ppm :: int
  ed_status :: channel_status

record route_hop =
  hop_channel_id :: string
  hop_sender :: address
  hop_receiver :: address
  hop_amount :: int
  hop_fee :: int
  hop_timelock :: int

record payment_route =
  pr_sender :: address
  pr_receiver :: address
  pr_amount :: int
  pr_total_amount :: int
  pr_hops :: "route_hop list"

record payment =
  py_id :: string
  py_route :: payment_route
  py_hashlock :: hash
  py_created_block :: int
  py_htlc_ids :: "string list"
  py_status :: payment_status
  py_secret :: "bytes option"
  py_failure_reason :: "string option"

section \<open>Settlement operations\<close>

datatype operation_type = OpOpenChannel | OpCooperativeClose | OpChallengeClose | OpFinalizeChannel | OpSubmitStateWithProof

definition operation_type_value :: "operation_type \<Rightarrow> string" where
  "operation_type_value t =
     (case t of OpOpenChannel \<Rightarrow> ''OPEN_CHANNEL'' | OpCooperativeClose \<Rightarrow> ''COOPERATIVE_CLOSE''
      | OpChallengeClose \<Rightarrow> ''CHALLENGE_CLOSE'' | OpFinalizeChannel \<Rightarrow> ''FINALIZE_CHANNEL''
      | OpSubmitStateWithProof \<Rightarrow> ''SUBMIT_STATE_WITH_PROOF'')"

type_synonym zk_json = "(string \<times> json) list"

record open_operation =
  oo_participants :: "party \<times> party"
  oo_deposits :: "(party, int) dict"
  oo_dispute_window :: int
  oo_fee_base :: int
  oo_fee_ppm :: int
  oo_channel_id_hint :: "string option"

datatype operation =
    OpenOp open_operation
  | CloseOp string channel_state
  | ChallengeOp string channel_state
  | FinalizeOp string
  | ProofOp string channel_state zk_json

definition op_type :: "operation \<Rightarrow> operation_type" where
  "op_type x =
     (case x of OpenOp _ \<Rightarrow> OpOpenChannel | CloseOp _ _ \<Rightarrow> OpCooperativeClose | ChallengeOp _ _ \<Rightarrow> OpChallengeClose
      | FinalizeOp _ \<Rightarrow> OpFinalizeChannel | ProofOp _ _ _ \<Rightarrow> OpSubmitStateWithProof)"

definition signed_state_json :: "channel_state \<Rightarrow> json" where
  "signed_state_json s =
     JObj (state_payload s @ [(''signatures'', JObj (map (\<lambda>(a, g). (a, JStr g)) (cs_signatures s)))])"

definition open_payload :: "open_operation \<Rightarrow> (py_error, json) result" where
  "open_payload x =
     bindR (normalize_address (fst (oo_participants x))) (\<lambda>a.
     bindR (normalize_address (snd (oo_participants x))) (\<lambda>b.
     bindR (normalize_balances (oo_deposits x)) (\<lambda>deposits. Inr (JObj
       [(''op_type'', JStr (operation_type_value OpOpenChannel)), (''participants'', JArr [JStr (addr_hex a), JStr (addr_hex b)]),
        (''deposits'', balances_json deposits), (''dispute_window'', JInt (oo_dispute_window x)),
        (''fee_base'', JInt (oo_fee_base x)), (''fee_ppm'', JInt (oo_fee_ppm x)),
        (''channel_id_hint'', (case oo_channel_id_hint x of None \<Rightarrow> JNull | Some h \<Rightarrow> JStr h))]))))"

definition op_payload :: "operation \<Rightarrow> (py_error, json) result" where
  "op_payload x =
     (let kind = (''op_type'', JStr (operation_type_value (op_type x))) in
      case x of
        OpenOp o' \<Rightarrow> open_payload o'
      | CloseOp cid s \<Rightarrow> Inr (JObj [kind, (''channel_id'', JStr cid), (''final_state'', signed_state_json s)])
      | ChallengeOp cid s \<Rightarrow> Inr (JObj [kind, (''channel_id'', JStr cid), (''state'', signed_state_json s)])
      | FinalizeOp cid \<Rightarrow> Inr (JObj [kind, (''channel_id'', JStr cid)])
      | ProofOp cid s proof \<Rightarrow>
          Inr (JObj [kind, (''channel_id'', JStr cid), (''state'', signed_state_json s), (''zk_proof'', JObj proof)]))"

record settlement_tx =
  stx_sender :: address
  stx_nonce :: int
  stx_operation :: operation
  stx_signature :: "string option"

definition mk_settlement_tx :: "party \<Rightarrow> int \<Rightarrow> operation \<Rightarrow> string option \<Rightarrow> (py_error, settlement_tx) result" where
  "mk_settlement_tx sender nonce x signature =
     bindR (normalize_address sender) (\<lambda>a.
     if nonce < 0 then Inl ValueError
     else Inr \<lparr>stx_sender = a, stx_nonce = nonce, stx_operation = x, stx_signature = signature\<rparr>)"

definition signing_payload :: "settlement_tx \<Rightarrow> (py_error, (string \<times> json) list) result" where
  "signing_payload t =
     bindR (op_payload (stx_operation t)) (\<lambda>x. Inr
       [(''sender'', JStr (addr_hex (stx_sender t))), (''nonce'', JInt (stx_nonce t)), (''operation'', x)])"

definition stx_signing_hash :: "settlement_tx \<Rightarrow> (py_error, hash) result" where
  "stx_signing_hash t = bindR (signing_payload t) (\<lambda>p. Inr (phantom_hash (JObj p)))"

definition stx_hash :: "settlement_tx \<Rightarrow> (py_error, hash) result" where
  "stx_hash t =
     bindR (signing_payload t) (\<lambda>p. Inr (phantom_hash (JObj (p @
       [(''signature'', (case stx_signature t of None \<Rightarrow> JNull | Some g \<Rightarrow> JStr g))]))))"

definition with_signature :: "settlement_tx \<Rightarrow> string \<Rightarrow> (py_error, settlement_tx) result" where
  "with_signature t g = mk_settlement_tx (PartyAddr (stx_sender t)) (stx_nonce t) (stx_operation t) (Some g)"

record phantom_receipt =
  pz_tx_hash :: hash
  pz_block_number :: int
  pz_sender :: address
  pz_success :: bool
  pz_result :: string
  pz_channel_id :: "string option"

section \<open>Signatures\<close>

text \<open>\<open>bytes.fromhex\<close> with its tolerance of white space between the bytes.\<close>

definition is_space :: "char \<Rightarrow> bool" where
  "is_space c \<longleftrightarrow> of_char c \<in> {9, 10, 11, 12, 13, 32 :: nat}"

fun spaced_fromhex :: "string \<Rightarrow> (py_error, bytes) result" where
  "spaced_fromhex [] = Inr []"
| "spaced_fromhex (c # cs) =
     (if is_space c then spaced_fromhex cs
      else case cs of
        [] \<Rightarrow> Inl ValueError
      | d # ds \<Rightarrow>
          (case (hex_value c, hex_value d) of
             (Some h, Some l) \<Rightarrow> bindR (spaced_fromhex ds) (\<lambda>bs. Inr (word_of_int (16 * h + l) # bs))
           | _ \<Rightarrow> Inl ValueError))"

definition sign_hash :: "keyed_hash \<Rightarrow> hash \<Rightarrow> int \<Rightarrow> (py_error, string) result option" where
  "sign_hash hmac h private_key =
     map_option (\<lambda>r. bindR r (\<lambda>sg. Inr (''0x'' @ bytes_hex (signature_to_bytes sg True))))
       (sign_message_hash hmac (hash_bytes h) private_key)"

definition recover_signer :: "hash \<Rightarrow> string \<Rightarrow> (py_error, address) result" where
  "recover_signer h signature =
     bindR (spaced_fromhex (if take 2 signature = ''0x'' then drop 2 signature else signature)) (\<lambda>raw.
     bindR (signature_from_bytes raw) (\<lambda>sg.
     bindR (recover_public_key (hash_bytes h) sg) address_from_public_key))"

definition verify_signature :: "hash \<Rightarrow> string \<Rightarrow> address \<Rightarrow> (phantom_error, unit) result" where
  "verify_signature h signature expected =
     bindR (mapE PhantomPy (recover_signer h signature)) (\<lambda>signer.
     guardR (signer = expected) SignatureValidationError)"

definition run_signer :: "(py_error, 'a) result option \<Rightarrow> (phantom_error, 'a) result" where
  "run_signer r = (case r of None \<Rightarrow> Inl SigningLoops | Some x \<Rightarrow> mapE PhantomPy x)"

definition sign_channel_state :: "keyed_hash \<Rightarrow> channel_state \<Rightarrow> int \<Rightarrow> (phantom_error, channel_state) result" where
  "sign_channel_state hmac s private_key =
     bindR (mapE PhantomPy (address_from_private_key private_key)) (\<lambda>signer.
     bindR (run_signer (sign_hash hmac (cs_root s) private_key)) (\<lambda>g.
     mapE PhantomPy (state_clone s None None None (Some (dict_put (addr_hex signer) g (cs_signatures s))))))"

definition sign_settlement_transaction :: "keyed_hash \<Rightarrow> settlement_tx \<Rightarrow> int \<Rightarrow> (phantom_error, settlement_tx) result" where
  "sign_settlement_transaction hmac t private_key =
     bindR (mapE PhantomPy (address_from_private_key private_key)) (\<lambda>sender.
     bindR (guardR (sender = stx_sender t) SignatureValidationError) (\<lambda>_.
     bindR (mapE PhantomPy (stx_signing_hash t)) (\<lambda>h.
     bindR (run_signer (sign_hash hmac h private_key)) (\<lambda>g.
     mapE PhantomPy (with_signature t g)))))"

section \<open>What the constructors establish\<close>

definition balances_ok :: "balances \<Rightarrow> bool" where
  "balances_ok d \<longleftrightarrow> sorted (map (\<lambda>e. addr_hex (fst e)) d) \<and> dict_wf d \<and> (\<forall>e \<in> set d. 0 \<le> snd e)"

definition state_wf :: "channel_state \<Rightarrow> bool" where
  "state_wf s \<longleftrightarrow> 0 \<le> cs_nonce s \<and> balances_ok (cs_balances s) \<and> sorted (map hl_id (cs_htlcs s))
     \<and> cs_root s = phantom_hash (JObj (state_payload s))"

lemma normalize_entries_ok:
  "normalize_entries es n = Inr m \<Longrightarrow> dict_wf n \<and> (\<forall>e \<in> set n. 0 \<le> snd e) \<Longrightarrow> dict_wf m \<and> (\<forall>e \<in> set m. 0 \<le> snd e)"
proof (induction es n rule: normalize_entries.induct)
  case (2 p amount entries n)
  from "2.prems"(1) obtain a where a: "normalize_address p = Inr a" "0 \<le> amount"
    "normalize_entries entries (dict_put a amount n) = Inr m"
    by (auto split: if_splits)
  have "dict_wf (dict_put a amount n) \<and> (\<forall>e \<in> set (dict_put a amount n). 0 \<le> snd e)"
    using "2.prems"(2) a(2) by (auto simp: dict_set_put)
  with "2.IH" a show ?case by auto
qed simp

lemma normalize_balances_ok: "normalize_balances d = Inr n \<Longrightarrow> balances_ok n"
  using normalize_entries_ok[of d "[]"]
  by (fastforce simp: normalize_balances_def balances_ok_def distinct_map)

lemma dict_put_fresh: "k \<notin> fst ` set d \<Longrightarrow> dict_put k v d = d @ [(k, v)]"
  by (induction d) auto

lemma normalize_entries_as_parties:
  "dict_wf (n @ d) \<Longrightarrow> \<forall>e \<in> set d. 0 \<le> snd e \<Longrightarrow> normalize_entries (as_parties d) n = Inr (n @ d)"
proof (induction d arbitrary: n)
  case (Cons e d)
  then have "normalize_entries (as_parties d) (n @ [e]) = Inr ((n @ [e]) @ d)" by (intro Cons.IH) auto
  moreover have "dict_put (fst e) (snd e) n = n @ [e]" using Cons.prems(1) by (subst dict_put_fresh) auto
  ultimately show ?case using Cons.prems(2) by (cases e) (simp add: as_parties_def normalize_address_def)
qed (simp add: as_parties_def)

lemma normalize_as_parties: "balances_ok d \<Longrightarrow> normalize_balances (as_parties d) = Inr d"
  using normalize_entries_as_parties[of "[]" d]
  by (simp add: normalize_balances_def balances_ok_def sorted_sort_id sort_key_id_if_sorted)

lemma mk_channel_state_Inr:
  assumes "mk_channel_state cid nonce bals htlcs root sigs = Inr s"
  shows "state_wf s" "cs_channel_id s = cid" "cs_nonce s = nonce" "normalize_balances bals = Inr (cs_balances s)"
    "cs_htlcs s = sort_key hl_id htlcs" "cs_signatures s = sort_key fst sigs"
  using assms normalize_balances_ok[of bals]
  by (auto simp: mk_channel_state_def state_wf_def state_payload_def Let_def split: if_splits)

lemma mk_channel_state_returns:
  "0 \<le> nonce \<Longrightarrow> balances_ok d \<Longrightarrow> \<exists>s. mk_channel_state cid nonce (as_parties d) htlcs None sigs = Inr s \<and> cs_balances s = d"
  by (simp add: mk_channel_state_def normalize_as_parties Let_def)

lemma state_clone_signatures:
  assumes "state_wf s"
  shows "state_clone s None None None (Some sigs) = Inr (s\<lparr>cs_signatures := sort_key fst sigs\<rparr>)"
  using assms
  by (simp add: state_clone_def mk_channel_state_def state_wf_def normalize_as_parties Let_def state_payload_def
      sort_key_id_if_sorted)

lemma balances_json_inj: "balances_json d = balances_json e \<Longrightarrow> d = e"
  unfolding balances_json_def
proof (induction d arbitrary: e)
  case (Cons x d)
  then show ?case by (cases e) (auto split: prod.splits)
qed simp

lemma htlc_status_value_inj: "htlc_status_value a = htlc_status_value b \<longleftrightarrow> a = b"
  by (cases a; cases b) (simp_all add: htlc_status_value_def)

lemma normalize_htlc_payload:
  "json_normalize (htlc_payload h) = JObj
     [(''amount'', JInt (hl_amount h)), (''fee'', JInt (hl_fee h)), (''hashlock'', JStr (hash_hex (hl_hashlock h))),
      (''htlc_id'', JStr (hl_id h)), (''receiver'', JStr (addr_hex (hl_receiver h))),
      (''sender'', JStr (addr_hex (hl_sender h))), (''status'', JStr (htlc_status_value (hl_status h))),
      (''timelock'', JInt (hl_timelock h))]"
  by (simp add: htlc_payload_def)

lemma normalize_htlc_inj: "json_normalize (htlc_payload g) = json_normalize (htlc_payload h) \<Longrightarrow> g = h"
  unfolding normalize_htlc_payload by (simp add: htlc_status_value_inj)

lemma normalize_balances_json:
  assumes "balances_ok d"
  shows "json_normalize (balances_json d) = balances_json d"
proof -
  let ?kvs = "map (\<lambda>(a, amount). (addr_hex a, JInt amount)) d"
  have same: "map (map_prod id json_normalize) ?kvs = ?kvs"
    by (induction d) auto
  have keys: "map fst ?kvs = map (\<lambda>e. addr_hex (fst e)) d"
    by (induction d) auto
  have "sorted (map fst ?kvs)" unfolding keys using assms by (simp add: balances_ok_def)
  then have "sort_key fst ?kvs = ?kvs" by (rule sort_key_id_if_sorted)
  then show ?thesis unfolding balances_json_def json_normalize.simps same by simp
qed

lemma normalize_state_payload:
  "json_normalize (JObj (state_payload s)) = JObj
     [(''active_htlcs'', JArr (map (\<lambda>h. json_normalize (htlc_payload h)) (cs_htlcs s))),
      (''balances'', json_normalize (balances_json (cs_balances s))),
      (''channel_id'', JStr (cs_channel_id s)), (''nonce'', JInt (cs_nonce s))]"
  by (simp add: state_payload_def payload_of_def comp_def)

text \<open>
  Signing a root therefore signs the channel, the nonce, the balances and the locked transfers, unless
  two different payloads with one Keccak-256 hash are exhibited.
\<close>

lemma state_root_binds:
  assumes "state_wf s" "state_wf t" "cs_root s = cs_root t"
  defines "p \<equiv> canonical_json_bytes (JObj (state_payload s))" and "q \<equiv> canonical_json_bytes (JObj (state_payload t))"
  shows "cs_channel_id s = cs_channel_id t \<and> cs_nonce s = cs_nonce t \<and> cs_balances s = cs_balances t
      \<and> cs_htlcs s = cs_htlcs t \<or> p \<noteq> q \<and> keccak256 p = keccak256 q"
proof (cases "p = q")
  case True
  then have eq: "json_normalize (JObj (state_payload s)) = json_normalize (JObj (state_payload t))"
    by (simp add: p_def q_def canonical_json_bytes_eq)
  have "balances_json (cs_balances s) = balances_json (cs_balances t)"
    using eq assms(1,2) unfolding normalize_state_payload by (simp add: normalize_balances_json state_wf_def)
  moreover have "map (\<lambda>h. json_normalize (htlc_payload h)) (cs_htlcs s) = map (\<lambda>h. json_normalize (htlc_payload h)) (cs_htlcs t)"
    using eq unfolding normalize_state_payload by simp
  then have "cs_htlcs s = cs_htlcs t"
    by (rule map_injective) (rule injI, rule normalize_htlc_inj)
  ultimately show ?thesis
    using eq balances_json_inj unfolding normalize_state_payload by simp
next
  case False
  with assms show ?thesis by (simp add: state_wf_def phantom_hash_def)
qed

end
