(* ===== verification/Phantom_Routing.thy ===== *)
theory Phantom_Routing
  imports Phantom_Models "HOL-Library.Product_Lexorder"
begin

text \<open>
  Routing over open channels, \<open>execution/phantom/routing.py\<close>, and the announcement registry of
  \<open>dht.py\<close>. The search runs backwards from the receiver with a priority queue of candidates. The
  queue is a list from which the least candidate is taken: two candidates in the queue never have the
  same key, because the key holds the channels of the path, so that \<open>heapq\<close> returns the same one.
  The search always ends; what it returns is a simple path of open channels with enough liquidity for
  the amount and the fees that have accumulated downstream.
\<close>

section \<open>Graph\<close>

record channel_graph =
  g_nodes :: "address set"
  g_channels :: "(string, channel) dict"

definition empty_graph :: channel_graph where
  "empty_graph = \<lparr>g_nodes = {}, g_channels = []\<rparr>"

definition by_channel_id :: "(string, channel) dict \<Rightarrow> channel list" where
  "by_channel_id d = sort_key ch_id (map snd d)"

definition available_balances :: "channel \<Rightarrow> (py_error, balances) result" where
  "available_balances c =
     mapR (\<lambda>p. bindR (available_balance c p) (\<lambda>b. Inr (p, b))) (ch_members c)"

definition edge_of :: "channel \<Rightarrow> (py_error, channel_edge) result" where
  "edge_of c = bindR (available_balances c) (\<lambda>available. Inr
     \<lparr>ed_channel_id = ch_id c, ed_participants = ch_participants c, ed_capacity = total_capacity c,
      ed_available = available, ed_fee_base = ch_fee_base c, ed_fee_ppm = ch_fee_ppm c, ed_status = ch_status c\<rparr>)"

definition edges :: "channel_graph \<Rightarrow> (py_error, channel_edge list) result" where
  "edges g = mapR edge_of (by_channel_id (g_channels g))"

definition sync_channel :: "channel \<Rightarrow> channel_graph \<Rightarrow> channel_graph" where
  "sync_channel c g =
     g\<lparr>g_channels := dict_put (ch_id c) c (g_channels g), g_nodes := g_nodes g \<union> set (ch_members c)\<rparr>"

definition remove_channel :: "string \<Rightarrow> channel_graph \<Rightarrow> channel_graph" where
  "remove_channel cid g =
     (case dict_get (g_channels g) cid of
        None \<Rightarrow> g
      | Some c \<Rightarrow>
          let others = dict_pop cid (g_channels g);
              shared = list_ex (\<lambda>active. list_ex (\<lambda>p. p \<in> set (ch_members active)) (ch_members c)) (map snd others)
          in if shared then g\<lparr>g_channels := others\<rparr>
             else g\<lparr>g_channels := others, g_nodes := g_nodes g - set (ch_members c)\<rparr>)"

definition channels_for :: "channel_graph \<Rightarrow> address \<Rightarrow> channel list" where
  "channels_for g p =
     filter (\<lambda>c. p \<in> set (ch_members c) \<and> ch_status c = ChannelOpen) (by_channel_id (g_channels g))"

section \<open>Announcements\<close>

record node_announcement =
  na_node :: address
  na_available :: bool

record dht =
  dht_nodes :: "(string, node_announcement) dict"
  dht_channels :: "(string, channel_edge) dict"

definition empty_dht :: dht where
  "empty_dht = \<lparr>dht_nodes = [], dht_channels = []\<rparr>"

definition publish_node :: "address \<Rightarrow> bool \<Rightarrow> dht \<Rightarrow> dht" where
  "publish_node a available d =
     d\<lparr>dht_nodes := dict_put (addr_hex a) \<lparr>na_node = a, na_available = available\<rparr> (dht_nodes d)\<rparr>"

text \<open>A \<open>ChannelAnnouncement\<close> has the fields of a \<open>ChannelEdge\<close>.\<close>

definition publish_channel :: "channel \<Rightarrow> (dht, py_error, unit) sem" where
  "publish_channel c =
     bindM (liftR (edge_of c)) (\<lambda>e.
     modM (\<lambda>d. fold (\<lambda>p. publish_node p True) (ch_members c)
       (d\<lparr>dht_channels := dict_put (ch_id c) e (dht_channels d)\<rparr>)))"

definition dht_get_channel :: "dht \<Rightarrow> string \<Rightarrow> channel_edge option" where
  "dht_get_channel d cid = dict_get (dht_channels d) cid"

definition dht_all_channels :: "dht \<Rightarrow> channel_edge list" where
  "dht_all_channels d = sort_key ed_channel_id (map snd (dht_channels d))"

definition dht_peers :: "dht \<Rightarrow> node_announcement list" where
  "dht_peers d = sort_key (\<lambda>n. addr_hex (na_node n)) (map snd (dht_nodes d))"

section \<open>Route search\<close>

record candidate =
  ca_score :: int
  ca_hop_count :: int
  ca_required :: int
  ca_sort_key :: "string list"
  ca_node :: address
  ca_path :: "route_hop list"

definition candidate_order :: "candidate \<Rightarrow> int \<times> int \<times> int \<times> string list" where
  "candidate_order c = (ca_score c, ca_hop_count c, ca_required c, ca_sort_key c)"

definition candidate_tuple :: "candidate \<Rightarrow> int \<times> int \<times> int" where
  "candidate_tuple c = (ca_score c, ca_hop_count c, ca_required c)"

fun least_candidate :: "candidate \<Rightarrow> candidate list \<Rightarrow> candidate" where
  "least_candidate c [] = c"
| "least_candidate c (d # ds) = least_candidate (if candidate_order d < candidate_order c then d else c) ds"

definition heap_pop :: "candidate list \<Rightarrow> candidate \<times> candidate list" where
  "heap_pop heap = (let c = least_candidate (hd heap) (tl heap) in (c, remove1 c heap))"

definition first_candidate :: "address \<Rightarrow> int \<Rightarrow> candidate" where
  "first_candidate receiver amount =
     \<lparr>ca_score = 0, ca_hop_count = 0, ca_required = amount, ca_sort_key = [addr_hex receiver], ca_node = receiver, ca_path = []\<rparr>"

definition visited_nodes :: "candidate \<Rightarrow> address list" where
  "visited_nodes c = ca_node c # concat (map (\<lambda>h. [hop_sender h, hop_receiver h]) (ca_path c))"

definition neighbor_of :: "channel \<Rightarrow> address \<Rightarrow> address" where
  "neighbor_of ch a = (if snd (ch_participants ch) = a then fst (ch_participants ch) else snd (ch_participants ch))"

type_synonym best_labels = "(address, int \<times> int \<times> int) dict"

text \<open>The candidate that a channel leads to, when it has the liquidity.\<close>

definition next_candidate :: "candidate \<Rightarrow> channel \<Rightarrow> int \<Rightarrow> candidate" where
  "next_candidate c ch available =
     (let neighbor = neighbor_of ch (ca_node c);
          fee = routing_fee ch (ca_required c);
          required = ca_required c + fee;
          spare = max 0 (available - required);
          path = \<lparr>hop_channel_id = ch_id ch, hop_sender = neighbor, hop_receiver = ca_node c, hop_amount = required,
            hop_fee = fee, hop_timelock = 0\<rparr> # ca_path c
      in \<lparr>ca_score = ca_score c + fee * 1000 + 100 + 1000000 div (spare + 1), ca_hop_count = ca_hop_count c + 1,
          ca_required = required, ca_sort_key = map hop_channel_id path, ca_node = neighbor, ca_path = path\<rparr>)"

fun expand ::
  "address \<Rightarrow> candidate \<Rightarrow> channel list \<Rightarrow> best_labels \<Rightarrow> candidate list
   \<Rightarrow> (phantom_error, best_labels \<times> candidate list) result" where
  "expand sender c [] best heap = Inr (best, heap)"
| "expand sender c (ch # chs) best heap =
     (let neighbor = neighbor_of ch (ca_node c) in
      if neighbor \<in> set (visited_nodes c) \<and> neighbor \<noteq> sender then expand sender c chs best heap
      else bindR (mapE PhantomPy (available_balance ch neighbor)) (\<lambda>available.
        let c' = next_candidate c ch available in
        if available < ca_required c' then expand sender c chs best heap
        else if (case dict_get best neighbor of None \<Rightarrow> False | Some t \<Rightarrow> t \<le> candidate_tuple c')
        then expand sender c chs best heap
        else expand sender c chs (dict_put neighbor (candidate_tuple c') best) (c' # heap)))"

definition candidate_weight :: "channel_graph \<Rightarrow> int \<Rightarrow> candidate \<Rightarrow> nat" where
  "candidate_weight g max_hops c = (length (g_channels g) + 2) ^ nat (max_hops - ca_hop_count c)"

definition heap_weight :: "channel_graph \<Rightarrow> int \<Rightarrow> candidate list \<Rightarrow> nat" where
  "heap_weight g max_hops heap = sum_list (map (candidate_weight g max_hops) heap)"

lemma least_candidate_in: "least_candidate c cs \<in> set (c # cs)"
proof (induction cs arbitrary: c)
  case (Cons d ds)
  show ?case using Cons.IH[of "if candidate_order d < candidate_order c then d else c"] by auto
qed simp

lemma heap_pop_in: "heap \<noteq> [] \<Longrightarrow> heap_pop heap = (c, rest) \<Longrightarrow> c \<in> set heap \<and> rest = remove1 c heap"
  using least_candidate_in[of "hd heap" "tl heap"] by (cases heap) (auto simp: heap_pop_def Let_def)

lemma heap_weight_pop: "c \<in> set heap \<Longrightarrow> heap_weight g m heap = candidate_weight g m c + heap_weight g m (remove1 c heap)"
  by (simp add: heap_weight_def sum_list_map_remove1)

lemma length_channels_for: "length (channels_for g p) \<le> length (g_channels g)"
  unfolding channels_for_def by (rule order_trans[OF length_filter_le]) (simp add: by_channel_id_def)

lemma next_candidate_fields:
  "ca_hop_count (next_candidate c ch b) = ca_hop_count c + 1"
  "ca_node (next_candidate c ch b) = neighbor_of ch (ca_node c)"
  "ca_required (next_candidate c ch b) = ca_required c + routing_fee ch (ca_required c)"
  by (simp_all add: next_candidate_def Let_def)

lemma expand_weight:
  assumes "expand sender c chs best heap = Inr (best', heap')" "ca_hop_count c < max_hops"
  shows "heap_weight g max_hops heap' \<le> heap_weight g max_hops heap
    + length chs * (length (g_channels g) + 2) ^ nat (max_hops - ca_hop_count c - 1)"
  using assms(1)
proof (induction chs arbitrary: best heap)
  case (Cons ch chs)
  let ?w = "(length (g_channels g) + 2) ^ nat (max_hops - ca_hop_count c - 1)"
  have step: "heap_weight g max_hops (next_candidate c ch b # h) = ?w + heap_weight g max_hops h" for b h
    by (simp add: heap_weight_def candidate_weight_def next_candidate_fields algebra_simps)
  from Cons.prems obtain b h where rest: "expand sender c chs b h = Inr (best', heap')"
    and h: "h = heap \<or> (\<exists>a. h = next_candidate c ch a # heap)"
    by (auto simp: Let_def split: if_splits option.splits)
  from Cons.IH[OF rest] h show ?case by (auto simp: step)
qed simp

function route_loop ::
  "channel_graph \<Rightarrow> address \<Rightarrow> address \<Rightarrow> int \<Rightarrow> int \<Rightarrow> best_labels \<Rightarrow> candidate list
   \<Rightarrow> (phantom_error, payment_route) result" where
  "route_loop g sender receiver amount max_hops best heap =
     (if heap = [] then Inl RouteNotFoundError
      else let (c, rest) = heap_pop heap in
        if (case dict_get best (ca_node c) of None \<Rightarrow> False | Some t \<Rightarrow> t < candidate_tuple c)
        then route_loop g sender receiver amount max_hops best rest
        else if ca_node c = sender
        then Inr \<lparr>pr_sender = sender, pr_receiver = receiver, pr_amount = amount, pr_total_amount = ca_required c,
          pr_hops = ca_path c\<rparr>
        else if ca_hop_count c \<ge> max_hops then route_loop g sender receiver amount max_hops best rest
        else case expand sender c (channels_for g (ca_node c)) best rest of
          Inl e \<Rightarrow> Inl e
        | Inr (best', heap') \<Rightarrow> route_loop g sender receiver amount max_hops best' heap')"
  by pat_completeness auto

lemma pop_weight:
  assumes "heap \<noteq> []" "heap_pop heap = (c, rest)"
  shows "heap_weight g m rest < heap_weight g m heap"
  using heap_pop_in[OF assms] heap_weight_pop[of c heap g m] by (auto simp: candidate_weight_def)

lemma expansion_weight:
  assumes "heap \<noteq> []" "heap_pop heap = (c, rest)" "ca_hop_count c < max_hops"
    and "expand sender c (channels_for g a) best rest = Inr (best', heap')"
  shows "heap_weight g max_hops heap' < heap_weight g max_hops heap"
proof -
  let ?n = "length (g_channels g)" and ?k = "nat (max_hops - ca_hop_count c - 1)"
  have "heap_weight g max_hops heap' \<le> heap_weight g max_hops rest + length (channels_for g a) * (?n + 2) ^ ?k"
    by (rule expand_weight[OF assms(4,3)])
  also have "\<dots> \<le> heap_weight g max_hops rest + ?n * (?n + 2) ^ ?k"
    by (simp add: length_channels_for)
  also have "\<dots> < heap_weight g max_hops rest + (?n + 2) * (?n + 2) ^ ?k" by simp
  also have "(?n + 2) * (?n + 2) ^ ?k = candidate_weight g max_hops c"
  proof -
    have "nat (max_hops - ca_hop_count c) = Suc ?k" using assms(3) by simp
    then show ?thesis by (simp only: candidate_weight_def power_Suc)
  qed
  finally show ?thesis using heap_pop_in[OF assms(1,2)] heap_weight_pop[of c heap g max_hops] by simp
qed

termination route_loop
  by (relation "measure (\<lambda>(g, _, _, _, max_hops, _, heap). heap_weight g max_hops heap)")
    (auto intro: pop_weight[OF _ sym] expansion_weight[OF _ sym])

declare route_loop.simps [simp del]

definition find_route :: "channel_graph \<Rightarrow> address \<Rightarrow> address \<Rightarrow> int \<Rightarrow> int \<Rightarrow> (phantom_error, payment_route) result" where
  "find_route g sender receiver amount max_hops =
     (if amount \<le> 0 then Inl RouteNotFoundError
      else if sender = receiver then Inl RouteNotFoundError
      else route_loop g sender receiver amount max_hops [] [first_candidate receiver amount])"

section \<open>What a route satisfies\<close>

text \<open>
  \<open>route_from g receiver amount node required path\<close>: the hops of \<open>path\<close> lead from \<open>node\<close> to the
  receiver through open channels of the graph that have the liquidity for what each hop forwards, the
  amount grows by the fee of every channel on the way back, and no node repeats.
\<close>

inductive route_from :: "channel_graph \<Rightarrow> address \<Rightarrow> int \<Rightarrow> address \<Rightarrow> int \<Rightarrow> route_hop list \<Rightarrow> bool"
  for g receiver amount where
  arrived: "route_from g receiver amount receiver amount []"
| forward: "\<lbrakk>route_from g receiver amount v m path; ch \<in> set (channels_for g v); u = neighbor_of ch v;
     u \<noteq> v; u \<notin> set (map hop_receiver path); available_balance ch u = Inr b; m + routing_fee ch m \<le> b\<rbrakk>
   \<Longrightarrow> route_from g receiver amount u (m + routing_fee ch m)
        (\<lparr>hop_channel_id = ch_id ch, hop_sender = u, hop_receiver = v, hop_amount = m + routing_fee ch m,
          hop_fee = routing_fee ch m, hop_timelock = 0\<rparr> # path)"

inductive_cases route_from_ConsE: "route_from g receiver amount u m (hop # path)"
inductive_simps route_from_Nil [simp]: "route_from g receiver amount u m []"

lemma route_from_nodes:
  "route_from g receiver amount u m path \<Longrightarrow>
     distinct (u # map hop_receiver path) \<and> last (u # map hop_receiver path) = receiver
     \<and> map hop_sender path @ [receiver] = u # map hop_receiver path"
  by (induction rule: route_from.induct) auto

definition candidate_ok :: "channel_graph \<Rightarrow> address \<Rightarrow> address \<Rightarrow> int \<Rightarrow> int \<Rightarrow> candidate \<Rightarrow> bool" where
  "candidate_ok g sender receiver amount max_hops c \<longleftrightarrow>
     route_from g receiver amount (ca_node c) (ca_required c) (ca_path c)
     \<and> sender \<notin> set (map hop_receiver (ca_path c))
     \<and> ca_hop_count c = int (length (ca_path c)) \<and> (ca_path c = [] \<or> ca_hop_count c \<le> max_hops)"

lemma visited_set: "set (visited_nodes c) = insert (ca_node c) (hop_sender ` set (ca_path c) \<union> hop_receiver ` set (ca_path c))"
  by (auto simp: visited_nodes_def)

lemma next_candidate_ok:
  assumes c: "candidate_ok g sender receiver amount max_hops c" "ca_node c \<noteq> sender" "ca_hop_count c < max_hops"
    and ch: "ch \<in> set (channels_for g (ca_node c))"
    and fresh: "\<not> (neighbor_of ch (ca_node c) \<in> set (visited_nodes c) \<and> neighbor_of ch (ca_node c) \<noteq> sender)"
    and b: "available_balance ch (neighbor_of ch (ca_node c)) = Inr b" "ca_required (next_candidate c ch b) \<le> b"
  shows "candidate_ok g sender receiver amount max_hops (next_candidate c ch b)"
proof -
  let ?u = "neighbor_of ch (ca_node c)"
  have new: "?u \<noteq> ca_node c" "?u \<notin> set (map hop_receiver (ca_path c))"
    using c fresh by (auto simp: candidate_ok_def visited_set)
  have "route_from g receiver amount (ca_node c) (ca_required c) (ca_path c)"
    using c by (simp add: candidate_ok_def)
  from route_from.forward[OF this ch refl new b(1)] b(2) c show ?thesis
    by (simp add: candidate_ok_def next_candidate_def Let_def)
qed

lemma expand_ok:
  assumes "expand sender c chs best heap = Inr (best', heap')" "set chs \<subseteq> set (channels_for g (ca_node c))"
    and c: "candidate_ok g sender receiver amount max_hops c" "ca_node c \<noteq> sender" "ca_hop_count c < max_hops"
    and "\<forall>d \<in> set heap. candidate_ok g sender receiver amount max_hops d"
  shows "\<forall>d \<in> set heap'. candidate_ok g sender receiver amount max_hops d"
  using assms(1,2,6)
proof (induction chs arbitrary: best heap)
  case (Cons ch chs)
  from Cons.prems(1) obtain b h where rest: "expand sender c chs b h = Inr (best', heap')"
    and h: "h = heap \<or> (\<exists>a. h = next_candidate c ch a # heap
      \<and> \<not> (neighbor_of ch (ca_node c) \<in> set (visited_nodes c) \<and> neighbor_of ch (ca_node c) \<noteq> sender)
      \<and> available_balance ch (neighbor_of ch (ca_node c)) = Inr a \<and> ca_required (next_candidate c ch a) \<le> a)"
    by (auto simp: Let_def split: if_splits option.splits)
  have "\<forall>d \<in> set h. candidate_ok g sender receiver amount max_hops d"
    using h Cons.prems(2,3) next_candidate_ok[OF c, of ch] by auto
  with Cons.IH[OF rest] Cons.prems(2) show ?case by auto
qed simp

definition route_ok :: "channel_graph \<Rightarrow> payment_route \<Rightarrow> int \<Rightarrow> bool" where
  "route_ok g r max_hops \<longleftrightarrow>
     route_from g (pr_receiver r) (pr_amount r) (pr_sender r) (pr_total_amount r) (pr_hops r)
     \<and> pr_hops r \<noteq> [] \<and> int (length (pr_hops r)) \<le> max_hops"

lemma route_loop_ok:
  "route_loop g sender receiver amount max_hops best heap = Inr r \<Longrightarrow> sender \<noteq> receiver
   \<Longrightarrow> \<forall>d \<in> set heap. candidate_ok g sender receiver amount max_hops d
   \<Longrightarrow> route_ok g r max_hops \<and> pr_sender r = sender \<and> pr_receiver r = receiver \<and> pr_amount r = amount"
proof (induction g sender receiver amount max_hops best heap rule: route_loop.induct)
  case (1 g sender receiver amount max_hops best heap)
  have heap: "heap \<noteq> []" using "1.prems"(1) by (auto simp: route_loop.simps)
  obtain c rest where pop: "heap_pop heap = (c, rest)" by (cases "heap_pop heap")
  have c: "candidate_ok g sender receiver amount max_hops c"
    and rest: "\<forall>d \<in> set rest. candidate_ok g sender receiver amount max_hops d"
    using heap_pop_in[OF heap pop] "1.prems"(3) set_remove1_subset by fastforce+
  consider (stale) "case dict_get best (ca_node c) of None \<Rightarrow> False | Some t \<Rightarrow> t < candidate_tuple c"
    | (found) "\<not> (case dict_get best (ca_node c) of None \<Rightarrow> False | Some t \<Rightarrow> t < candidate_tuple c)" "ca_node c = sender"
    | (long) "\<not> (case dict_get best (ca_node c) of None \<Rightarrow> False | Some t \<Rightarrow> t < candidate_tuple c)" "ca_node c \<noteq> sender"
        "ca_hop_count c \<ge> max_hops"
    | (grow) "\<not> (case dict_get best (ca_node c) of None \<Rightarrow> False | Some t \<Rightarrow> t < candidate_tuple c)" "ca_node c \<noteq> sender"
        "\<not> ca_hop_count c \<ge> max_hops"
    by linarith
  then show ?case
  proof cases
    case stale
    with "1.prems" heap pop have "route_loop g sender receiver amount max_hops best rest = Inr r"
      by (subst (asm) route_loop.simps) simp
    from "1.IH"(1)[OF heap pop[symmetric] refl stale this "1.prems"(2) rest] show ?thesis .
  next
    case found
    with "1.prems"(1) heap pop have r: "r = \<lparr>pr_sender = sender, pr_receiver = receiver, pr_amount = amount,
        pr_total_amount = ca_required c, pr_hops = ca_path c\<rparr>"
      by (subst (asm) route_loop.simps) simp
    from c found "1.prems"(2) show ?thesis by (auto simp: r route_ok_def candidate_ok_def)
  next
    case long
    with "1.prems" heap pop have "route_loop g sender receiver amount max_hops best rest = Inr r"
      by (subst (asm) route_loop.simps) simp
    from "1.IH"(2)[OF heap pop[symmetric] refl long this "1.prems"(2) rest] show ?thesis .
  next
    case grow
    with "1.prems"(1) heap pop obtain best' heap'
      where ex: "expand sender c (channels_for g (ca_node c)) best rest = Inr (best', heap')"
        and loop: "route_loop g sender receiver amount max_hops best' heap' = Inr r"
      by (subst (asm) route_loop.simps) (auto split: sum.splits)
    have "\<forall>d \<in> set heap'. candidate_ok g sender receiver amount max_hops d"
      using expand_ok[OF ex _ c] grow rest by auto
    from "1.IH"(3)[OF heap pop[symmetric] refl grow ex refl loop "1.prems"(2) this] show ?thesis .
  qed
qed

lemma find_route_ok:
  assumes "find_route g sender receiver amount max_hops = Inr r"
  shows "route_ok g r max_hops \<and> pr_sender r = sender \<and> pr_receiver r = receiver \<and> pr_amount r = amount \<and> 0 < amount"
proof -
  have loop: "route_loop g sender receiver amount max_hops [] [first_candidate receiver amount] = Inr r"
    and ne: "sender \<noteq> receiver" "0 < amount"
    using assms by (auto simp: find_route_def split: if_splits)
  have "candidate_ok g sender receiver amount max_hops (first_candidate receiver amount)"
    by (simp add: candidate_ok_def first_candidate_def arrived)
  with route_loop_ok[OF loop ne(1)] ne(2) show ?thesis by simp
qed

section \<open>A direct channel is enough\<close>

text \<open>
  Once the queue holds a candidate at the sender, the best label of the sender belongs to a candidate
  in the queue, so that the search returns a route.
\<close>

definition sender_label :: "address \<Rightarrow> best_labels \<Rightarrow> candidate list \<Rightarrow> bool" where
  "sender_label sender best heap \<longleftrightarrow>
     (\<forall>t. dict_get best sender = Some t \<longrightarrow> (\<exists>c \<in> set heap. ca_node c = sender \<and> candidate_tuple c = t))"

definition graph_ok :: "channel_graph \<Rightarrow> bool" where
  "graph_ok g \<longleftrightarrow> (\<forall>(cid, c) \<in> set (g_channels g). ch_id c = cid \<and> set (ch_members c) \<subseteq> dom (dict_get (ch_balances c)))"

lemma channels_for_in:
  "c \<in> set (channels_for g p) \<Longrightarrow> (\<exists>cid. (cid, c) \<in> set (g_channels g)) \<and> p \<in> set (ch_members c) \<and> ch_status c = ChannelOpen"
  by (auto simp: channels_for_def by_channel_id_def)

lemma neighbor_available:
  assumes "graph_ok g" "ch \<in> set (channels_for g p)"
  shows "\<exists>b. available_balance ch (neighbor_of ch p) = Inr b"
proof -
  have "neighbor_of ch p \<in> set (ch_members ch)" by (simp add: neighbor_of_def)
  then have "neighbor_of ch p \<in> dom (dict_get (ch_balances ch))"
    using assms channels_for_in[OF assms(2)] unfolding graph_ok_def by blast
  then show ?thesis by (auto simp: available_balance_def)
qed

definition pays_directly :: "candidate \<Rightarrow> address \<Rightarrow> channel \<Rightarrow> bool" where
  "pays_directly c sender ch \<longleftrightarrow> neighbor_of ch (ca_node c) = sender
     \<and> (\<exists>b. available_balance ch sender = Inr b \<and> ca_required c + routing_fee ch (ca_required c) \<le> b)"

lemma expand_step:
  assumes ok: "graph_ok g" and ch: "ch \<in> set (channels_for g (ca_node c))" and label: "sender_label sender best heap"
  shows "\<exists>best' heap'. expand sender c (ch # chs) best heap = expand sender c chs best' heap'
      \<and> sender_label sender best' heap' \<and> (dict_get best sender \<noteq> None \<longrightarrow> dict_get best' sender \<noteq> None)
      \<and> (pays_directly c sender ch \<longrightarrow> dict_get best' sender \<noteq> None)"
proof -
  let ?u = "neighbor_of ch (ca_node c)"
  obtain b where b: "available_balance ch ?u = Inr b"
    using neighbor_available[OF ok ch] by blast
  let ?c = "next_candidate c ch b"
  let ?known = "case dict_get best ?u of None \<Rightarrow> False | Some t \<Rightarrow> t \<le> candidate_tuple ?c"
  have known: "?known \<Longrightarrow> dict_get best ?u \<noteq> None" by (auto split: option.splits)
  have direct: "pays_directly c sender ch \<longleftrightarrow> ?u = sender \<and> ca_required ?c \<le> b"
    using b by (auto simp: pays_directly_def next_candidate_fields)
  show ?thesis
  proof (cases "?u \<in> set (visited_nodes c) \<and> ?u \<noteq> sender \<or> b < ca_required ?c \<or> ?known")
    case True
    then have "expand sender c (ch # chs) best heap = expand sender c chs best heap"
      using b by (simp add: Let_def) blast
    moreover have "pays_directly c sender ch \<longrightarrow> dict_get best sender \<noteq> None"
      using True direct known by auto
    ultimately show ?thesis using label by blast
  next
    case False
    then have "expand sender c (ch # chs) best heap
        = expand sender c chs (dict_put ?u (candidate_tuple ?c) best) (?c # heap)"
      using b by (simp add: Let_def) metis
    moreover have "sender_label sender (dict_put ?u (candidate_tuple ?c) best) (?c # heap)"
      using label by (auto simp: sender_label_def dict_simps next_candidate_fields)
    moreover have "dict_get best sender \<noteq> None \<or> pays_directly c sender ch
        \<longrightarrow> dict_get (dict_put ?u (candidate_tuple ?c) best) sender \<noteq> None"
      using direct by (auto simp: dict_simps candidate_tuple_def)
    ultimately show ?thesis by blast
  qed
qed

lemma expand_finds:
  assumes ok: "graph_ok g"
  shows "set chs \<subseteq> set (channels_for g (ca_node c)) \<Longrightarrow> sender_label sender best heap
    \<Longrightarrow> \<exists>best' heap'. expand sender c chs best heap = Inr (best', heap') \<and> sender_label sender best' heap'
      \<and> (dict_get best sender \<noteq> None \<or> (\<exists>ch \<in> set chs. pays_directly c sender ch) \<longrightarrow> dict_get best' sender \<noteq> None)"
proof (induction chs arbitrary: best heap)
  case (Cons ch chs)
  obtain best1 heap1 where step: "expand sender c (ch # chs) best heap = expand sender c chs best1 heap1"
    and label: "sender_label sender best1 heap1"
    and found: "dict_get best sender \<noteq> None \<or> pays_directly c sender ch \<longrightarrow> dict_get best1 sender \<noteq> None"
    using expand_step[OF ok _ Cons.prems(2), of ch c chs] Cons.prems(1) by (simp del: expand.simps) blast
  have chs: "set chs \<subseteq> set (channels_for g (ca_node c))" using Cons.prems(1) by simp
  from Cons.IH[OF chs label] found show ?case unfolding step by auto
qed simp

lemma sender_label_pop:
  assumes "sender_label sender best heap" "heap_pop heap = (c, rest)" "heap \<noteq> []"
    and "(case dict_get best (ca_node c) of None \<Rightarrow> False | Some t \<Rightarrow> t < candidate_tuple c) \<or> ca_node c \<noteq> sender"
  shows "sender_label sender best rest"
  unfolding sender_label_def
proof (intro allI impI)
  fix t assume t: "dict_get best sender = Some t"
  then obtain d where d: "d \<in> set heap" "ca_node d = sender" "candidate_tuple d = t"
    using assms(1) by (auto simp: sender_label_def)
  have "d \<noteq> c" using assms(4) d t by auto
  then show "\<exists>c \<in> set rest. ca_node c = sender \<and> candidate_tuple c = t"
    using d heap_pop_in[OF assms(3,2)] by auto
qed

lemma route_loop_finds:
  "graph_ok g \<Longrightarrow> sender_label sender best heap \<Longrightarrow> dict_get best sender \<noteq> None
   \<Longrightarrow> \<exists>r. route_loop g sender receiver amount max_hops best heap = Inr r"
proof (induction g sender receiver amount max_hops best heap rule: route_loop.induct)
  case (1 g sender receiver amount max_hops best heap)
  have heap: "heap \<noteq> []" using "1.prems"(2,3) by (auto simp: sender_label_def)
  obtain c rest where pop: "heap_pop heap = (c, rest)" by (cases "heap_pop heap")
  let ?stale = "case dict_get best (ca_node c) of None \<Rightarrow> False | Some t \<Rightarrow> t < candidate_tuple c"
  note rest = sender_label_pop[OF "1.prems"(2) pop heap]
  consider (stale) "?stale" | (found) "\<not> ?stale" "ca_node c = sender"
    | (long) "\<not> ?stale" "ca_node c \<noteq> sender" "ca_hop_count c \<ge> max_hops"
    | (grow) "\<not> ?stale" "ca_node c \<noteq> sender" "\<not> ca_hop_count c \<ge> max_hops"
    by linarith
  then show ?case
  proof cases
    case stale
    with "1.IH"(1)[OF heap pop[symmetric] refl stale "1.prems"(1) rest "1.prems"(3)] heap pop show ?thesis
      by (subst route_loop.simps) simp
  next
    case found
    with heap pop show ?thesis by (subst route_loop.simps) simp
  next
    case long
    with "1.IH"(2)[OF heap pop[symmetric] refl long "1.prems"(1) rest "1.prems"(3)] heap pop show ?thesis
      by (subst route_loop.simps) simp
  next
    case grow
    obtain best' heap' where ex: "expand sender c (channels_for g (ca_node c)) best rest = Inr (best', heap')"
      "sender_label sender best' heap'" "dict_get best' sender \<noteq> None"
      using expand_finds[OF "1.prems"(1) subset_refl, of sender best rest c] rest grow(2) "1.prems"(3) by blast
    with "1.IH"(3)[OF heap pop[symmetric] refl grow ex(1) refl "1.prems"(1)] grow heap pop show ?thesis
      by (subst route_loop.simps) simp
  qed
qed

lemma find_route_direct:
  assumes ok: "graph_ok g" and args: "0 < amount" "sender \<noteq> receiver" "1 \<le> max_hops"
    and ch: "ch \<in> set (channels_for g receiver)" "neighbor_of ch receiver = sender"
    and funds: "available_balance ch sender = Inr b" "amount + routing_fee ch amount \<le> b"
  shows "\<exists>r. find_route g sender receiver amount max_hops = Inr r"
proof -
  let ?c = "first_candidate receiver amount"
  have c: "ca_node ?c = receiver" "ca_required ?c = amount" "ca_hop_count ?c = 0" by (simp_all add: first_candidate_def)
  obtain best heap where ex: "expand sender ?c (channels_for g receiver) [] [] = Inr (best, heap)"
    and found: "sender_label sender best heap" "dict_get best sender \<noteq> None"
    using expand_finds[OF ok, of "channels_for g receiver" ?c sender "[]" "[]"] ch funds
    by (auto simp: c sender_label_def pays_directly_def)
  have "route_loop g sender receiver amount max_hops [] [?c] = route_loop g sender receiver amount max_hops best heap"
    by (subst route_loop.simps) (use args ex in \<open>simp add: heap_pop_def c\<close>)
  with route_loop_finds[OF ok found] args show ?thesis by (auto simp: find_route_def)
qed

section \<open>A route uses a channel once\<close>

lemma channels_for_ids:
  assumes "graph_ok g" "dict_wf (g_channels g)" "c \<in> set (channels_for g p)" "d \<in> set (channels_for g q)" "ch_id c = ch_id d"
  shows "c = d"
proof -
  obtain i where i: "(i, c) \<in> set (g_channels g)" using channels_for_in[OF assms(3)] by blast
  obtain j where j: "(j, d) \<in> set (g_channels g)" using channels_for_in[OF assms(4)] by blast
  have key: "ch_id x = k" if "(k, x) \<in> set (g_channels g)" for k x
    using bspec[OF assms(1)[unfolded graph_ok_def] that] by simp
  have "i = j" using key[OF i] key[OF j] assms(5) by simp
  with i j show ?thesis using eq_key_imp_eq_value[OF assms(2)] by metis
qed

lemma neighbor_members: "v \<in> set (ch_members ch) \<Longrightarrow> set (ch_members ch) = {neighbor_of ch v, v}"
  by (auto simp: neighbor_of_def)

lemma route_channels:
  "route_from g receiver amount u m path \<Longrightarrow> hop \<in> set path \<Longrightarrow>
     \<exists>ch v. ch \<in> set (channels_for g v) \<and> ch_id ch = hop_channel_id hop
       \<and> set (ch_members ch) = {hop_sender hop, hop_receiver hop} \<and> {hop_sender hop, hop_receiver hop} \<subseteq> insert u (set (map hop_receiver path))"
proof (induction rule: route_from.induct)
  case (forward v m path ch u b)
  show ?case
  proof (cases "hop \<in> set path")
    case True
    with forward.IH show ?thesis by fastforce
  next
    case False
    then have "hop_channel_id hop = ch_id ch" "hop_sender hop = u" "hop_receiver hop = v" using forward.prems by auto
    moreover have "set (ch_members ch) = {u, v}"
      using neighbor_members channels_for_in[OF forward.hyps(2)] forward.hyps(3) by metis
    ultimately show ?thesis using forward.hyps(2) by (intro exI[of _ ch] exI[of _ v]) auto
  qed
qed simp

lemma route_distinct_channels:
  assumes ok: "graph_ok g" "dict_wf (g_channels g)"
  shows "route_from g receiver amount u m path \<Longrightarrow> distinct (map hop_channel_id path)"
proof (induction rule: route_from.induct)
  case (forward v m path ch u b)
  have "ch_id ch \<noteq> hop_channel_id hop" if hop: "hop \<in> set path" for hop
  proof
    assume eq: "ch_id ch = hop_channel_id hop"
    obtain d w where d: "d \<in> set (channels_for g w)" "ch_id d = hop_channel_id hop"
      "set (ch_members d) \<subseteq> insert v (set (map hop_receiver path))"
      using route_channels[OF forward.hyps(1) hop] by metis
    have "d = ch" using channels_for_ids[OF ok d(1) forward.hyps(2)] d(2) eq by simp
    moreover have "u \<in> set (ch_members ch)"
      using neighbor_members channels_for_in[OF forward.hyps(2)] forward.hyps(3) by (metis insertI1)
    ultimately show False using d(3) forward.hyps(4,5) by auto
  qed
  with forward.IH show ?case by auto
qed simp

lemma expand_returns:
  assumes ok: "graph_ok g"
  shows "set chs \<subseteq> set (channels_for g (ca_node c)) \<Longrightarrow> \<exists>x. expand sender c chs best heap = Inr x"
proof (induction chs arbitrary: best heap)
  case (Cons ch chs)
  obtain b where b: "available_balance ch (neighbor_of ch (ca_node c)) = Inr b"
    using neighbor_available[OF ok] Cons.prems by fastforce
  have chs: "set chs \<subseteq> set (channels_for g (ca_node c))" using Cons.prems by simp
  show ?case using Cons.IH[OF chs] by (simp add: b Let_def)
qed simp

lemma route_loop_error:
  "graph_ok g \<Longrightarrow> route_loop g sender receiver amount max_hops best heap = Inl e \<Longrightarrow> e = RouteNotFoundError"
proof (induction g sender receiver amount max_hops best heap rule: route_loop.induct)
  case (1 g sender receiver amount max_hops best heap)
  show ?case
  proof (cases "heap = []")
    case True
    with "1.prems" show ?thesis by (simp add: route_loop.simps)
  next
    case False
    obtain c rest where pop: "heap_pop heap = (c, rest)" by (cases "heap_pop heap")
    let ?stale = "case dict_get best (ca_node c) of None \<Rightarrow> False | Some t \<Rightarrow> t < candidate_tuple c"
    obtain best' heap' where ex: "expand sender c (channels_for g (ca_node c)) best rest = Inr (best', heap')"
      using expand_returns[OF "1.prems"(1) subset_refl] by (metis prod.exhaust)
    consider (stale) "?stale" | (found) "\<not> ?stale" "ca_node c = sender"
      | (long) "\<not> ?stale" "ca_node c \<noteq> sender" "ca_hop_count c \<ge> max_hops"
      | (grow) "\<not> ?stale" "ca_node c \<noteq> sender" "\<not> ca_hop_count c \<ge> max_hops" by linarith
    then show ?thesis
    proof cases
      case stale
      with "1.IH"(1)[OF False pop[symmetric] refl stale "1.prems"(1)] "1.prems"(2) False pop show ?thesis
        by (subst (asm) (2) route_loop.simps) simp
    next
      case found
      with "1.prems"(2) False pop show ?thesis by (subst (asm) route_loop.simps) simp
    next
      case long
      with "1.IH"(2)[OF False pop[symmetric] refl long "1.prems"(1)] "1.prems"(2) False pop show ?thesis
        by (subst (asm) (2) route_loop.simps) simp
    next
      case grow
      with "1.IH"(3)[OF False pop[symmetric] refl grow ex refl "1.prems"(1)] "1.prems"(2) ex False pop show ?thesis
        by (subst (asm) (2) route_loop.simps) simp
    qed
  qed
qed

lemma find_route_error: "graph_ok g \<Longrightarrow> find_route g sender receiver amount max_hops = Inl e \<Longrightarrow> e = RouteNotFoundError"
  using route_loop_error by (auto simp: find_route_def split: if_splits)

end
