(* ===== verification/Phantom_Manager.thy ===== *)
theory Phantom_Manager
  imports Phantom_Routing Evm_State
begin

text \<open>
  The channel manager, \<open>execution/phantom/manager.py\<close>, with the proof hook of \<open>zk.py\<close>. Its methods
  mutate the manager and, for opening and settling, the chain state, and may raise half way: they are
  programs of the state-and-exception monad over the manager or over the pair of manager and chain.
  A channel object is shared by the manager and its routing graph, so the graph is a view of the
  manager's channels. The DHT is optional. The proof verifier, the keyed hash of the signatures and
  the random secret of a payment are arguments.
\<close>

section \<open>State\<close>

record manager =
  mg_max_htlcs :: int
  mg_max_route_length :: int
  mg_base_timelock :: int
  mg_timelock_delta :: int
  mg_max_horizon :: int
  mg_channels :: "(string, channel) dict"
  mg_payments :: "(string, payment) dict"
  mg_nodes :: "address set"
  mg_keys :: "(string, int) dict"
  mg_channel_sequence :: int
  mg_payment_sequence :: int
  mg_dht :: "dht option"

definition new_manager :: "int \<Rightarrow> int \<Rightarrow> int \<Rightarrow> int \<Rightarrow> int \<Rightarrow> dht option \<Rightarrow> manager" where
  "new_manager max_htlcs max_route base delta horizon d =
     \<lparr>mg_max_htlcs = max_htlcs, mg_max_route_length = max_route, mg_base_timelock = base, mg_timelock_delta = delta,
      mg_max_horizon = horizon, mg_channels = [], mg_payments = [], mg_nodes = {}, mg_keys = [],
      mg_channel_sequence = 0, mg_payment_sequence = 0, mg_dht = d\<rparr>"

definition graph_of :: "manager \<Rightarrow> channel_graph" where
  "graph_of m = \<lparr>g_nodes = mg_nodes m, g_channels = mg_channels m\<rparr>"

record manager_snapshot =
  sn_channels :: "(string, channel) dict"
  sn_payments :: "(string, payment) dict"
  sn_channel_sequence :: int
  sn_payment_sequence :: int

type_synonym 'a managing = "(manager, phantom_error, 'a) sem"
type_synonym 'a settling = "(manager \<times> statedb, phantom_error, 'a) sem"

definition on_manager :: "'a managing \<Rightarrow> 'a settling" where
  "on_manager f = (\<lambda>(m, db). case f m of (r, m') \<Rightarrow> (r, (m', db)))"

definition snapshot :: "manager \<Rightarrow> manager_snapshot" where
  "snapshot m = \<lparr>sn_channels = mg_channels m, sn_payments = mg_payments m,
     sn_channel_sequence = mg_channel_sequence m, sn_payment_sequence = mg_payment_sequence m\<rparr>"

definition on_dht :: "(dht, py_error, unit) sem \<Rightarrow> unit managing" where
  "on_dht f = (\<lambda>m. case mg_dht m of None \<Rightarrow> (Inr (), m)
     | Some d \<Rightarrow> (case f d of (r, d') \<Rightarrow> (mapE PhantomPy r, m\<lparr>mg_dht := Some d'\<rparr>)))"

definition publish :: "channel \<Rightarrow> unit managing" where
  "publish c = seqM (modM (\<lambda>m. m\<lparr>mg_nodes := mg_nodes m \<union> set (ch_members c)\<rparr>)) (on_dht (publish_channel c))"

fun publish_all :: "channel list \<Rightarrow> unit managing" where
  "publish_all [] = retM ()"
| "publish_all (c # cs) = seqM (publish c) (publish_all cs)"

definition rebuild_indexes :: "unit managing" where
  "rebuild_indexes = seqM (modM (\<lambda>m. m\<lparr>mg_nodes := {}\<rparr>)) (\<lambda>m. publish_all (map snd (mg_channels m)) m)"

definition restore :: "manager_snapshot \<Rightarrow> unit managing" where
  "restore sn = seqM (modM (\<lambda>m. m\<lparr>mg_channels := sn_channels sn, mg_payments := sn_payments sn,
     mg_channel_sequence := sn_channel_sequence sn, mg_payment_sequence := sn_payment_sequence sn\<rparr>)) rebuild_indexes"

text \<open>\<open>snapshot = self.snapshot(); try: ... except Exception: self.restore(snapshot); raise\<close>.\<close>

definition or_restore :: "'a managing \<Rightarrow> 'a managing" where
  "or_restore f = (\<lambda>m. case f m of
       (Inr x, m') \<Rightarrow> (Inr x, m')
     | (Inl e, m') \<Rightarrow> seqM (restore (snapshot m)) (raiseM e) m')"

definition register_signing_key :: "int \<Rightarrow> address managing" where
  "register_signing_key private_key =
     bindM (liftR (mapE PhantomPy (address_from_private_key private_key))) (\<lambda>a.
     seqM (modM (\<lambda>m. m\<lparr>mg_keys := dict_put (addr_hex a) private_key (mg_keys m)\<rparr>))
    (seqM (on_dht (modM (publish_node a True))) (retM a)))"

definition get_channel :: "string \<Rightarrow> channel managing" where
  "get_channel cid = (\<lambda>m. case dict_get (mg_channels m) cid of
     None \<Rightarrow> (Inl ChannelValidationError, m) | Some c \<Rightarrow> (Inr c, m))"

definition put_channel :: "string \<Rightarrow> channel \<Rightarrow> unit managing" where
  "put_channel cid c = modM (\<lambda>m. m\<lparr>mg_channels := dict_put cid c (mg_channels m)\<rparr>)"

definition list_channels :: "manager \<Rightarrow> channel list" where
  "list_channels m = by_channel_id (mg_channels m)"

definition list_payments :: "manager \<Rightarrow> payment list" where
  "list_payments m = sort_key py_id (map snd (mg_payments m))"

section \<open>Identifiers\<close>

definition next_channel_id :: "address \<times> address \<Rightarrow> int \<Rightarrow> string option \<Rightarrow> string managing" where
  "next_channel_id participants current_block hint =
     (case hint of Some h \<Rightarrow> retM h
      | None \<Rightarrow> seqM (modM (\<lambda>m. m\<lparr>mg_channel_sequence := mg_channel_sequence m + 1\<rparr>))
          (getM (\<lambda>m. hash_hex (phantom_hash (JObj
            [(''type'', JStr ''phantom_channel''),
             (''participants'', JArr [JStr (addr_hex (fst participants)), JStr (addr_hex (snd participants))]),
             (''sequence'', JInt (mg_channel_sequence m)), (''open_block'', JInt current_block)])))))"

definition next_payment_id :: "address \<Rightarrow> address \<Rightarrow> int \<Rightarrow> int \<Rightarrow> string managing" where
  "next_payment_id sender receiver amount current_block =
     seqM (modM (\<lambda>m. m\<lparr>mg_payment_sequence := mg_payment_sequence m + 1\<rparr>))
       (getM (\<lambda>m. hash_hex (phantom_hash (JObj
         [(''type'', JStr ''phantom_payment''), (''sender'', JStr (addr_hex sender)), (''receiver'', JStr (addr_hex receiver)),
          (''amount'', JInt amount), (''sequence'', JInt (mg_payment_sequence m)), (''block'', JInt current_block)]))))"

definition escrow_address :: "string \<Rightarrow> address" where
  "escrow_address cid = word_of_int (be_int (drop 12 (hash_bytes (phantom_hash (JObj [(''phantom_escrow'', JStr cid)])))))"

section \<open>Validation and signing of states\<close>

fun verify_all :: "channel_state \<Rightarrow> address list \<Rightarrow> (phantom_error, unit) result" where
  "verify_all s [] = Inr ()"
| "verify_all s (p # ps) =
     (case dict_get (cs_signatures s) (addr_hex p) of
        None \<Rightarrow> Inl (PhantomPy KeyError)
      | Some g \<Rightarrow> bindR (verify_signature (cs_root s) g p) (\<lambda>_. verify_all s ps))"

definition ensure_all_signatures :: "channel \<Rightarrow> channel_state \<Rightarrow> (phantom_error, unit) result" where
  "ensure_all_signatures c s =
     bindR (guardR (set (map fst (cs_signatures s)) = addr_hex ` set (ch_members c)) SignatureValidationError) (\<lambda>_.
     verify_all s (ch_members c))"

fun check_htlcs :: "address list \<Rightarrow> htlc list \<Rightarrow> string list \<Rightarrow> balances \<Rightarrow> (phantom_error, balances) result" where
  "check_htlcs members [] seen locked = Inr locked"
| "check_htlcs members (h # hs) seen locked =
     (if hl_status h \<noteq> HtlcPending then Inl HTLCError
      else if hl_id h \<in> set seen then Inl HTLCError
      else if hl_sender h \<notin> set members \<or> hl_receiver h \<notin> set members then Inl HTLCError
      else if hl_sender h = hl_receiver h then Inl HTLCError
      else case dict_get locked (hl_sender h) of
        None \<Rightarrow> Inl (PhantomPy KeyError)
      | Some amount \<Rightarrow> check_htlcs members hs (hl_id h # seen) (dict_put (hl_sender h) (amount + hl_amount h) locked))"

fun check_locked :: "balances \<Rightarrow> balances \<Rightarrow> (phantom_error, unit) result" where
  "check_locked bals [] = Inr ()"
| "check_locked bals ((p, locked) # rest) =
     (case dict_get bals p of
        None \<Rightarrow> Inl (PhantomPy KeyError)
      | Some b \<Rightarrow> if locked > b then Inl HTLCError else check_locked bals rest)"

definition validate_state :: "manager \<Rightarrow> channel \<Rightarrow> channel_state \<Rightarrow> int option \<Rightarrow> bool \<Rightarrow> (phantom_error, unit) result" where
  "validate_state m c s min_nonce strict_newer =
     bindR (guardR (cs_channel_id s = ch_id c) ChannelValidationError) (\<lambda>_.
     bindR (guardR (map fst (cs_balances s) = ch_members c) ChannelValidationError) (\<lambda>_.
     bindR (guardR (total_state_balance s = total_capacity c) ChannelValidationError) (\<lambda>_.
     bindR (case min_nonce of None \<Rightarrow> Inr ()
        | Some n \<Rightarrow> if strict_newer \<and> cs_nonce s \<le> n then Inl ReplayAttackError
            else if \<not> strict_newer \<and> cs_nonce s < n then Inl ReplayAttackError else Inr ()) (\<lambda>_.
     bindR (guardR (int (length (cs_htlcs s)) \<le> min (ch_max_htlcs c) (mg_max_htlcs m)) HTLCError) (\<lambda>_.
     bindR (check_htlcs (ch_members c) (cs_htlcs s) [] (map (\<lambda>p. (p, 0)) (ch_members c))) (\<lambda>locked.
     bindR (check_locked (cs_balances s) locked) (\<lambda>_.
     ensure_all_signatures c s)))))))"

fun sign_for :: "keyed_hash \<Rightarrow> (string, int) dict \<Rightarrow> address list \<Rightarrow> channel_state \<Rightarrow> (phantom_error, channel_state) result" where
  "sign_for hmac keys [] s = Inr s"
| "sign_for hmac keys (p # ps) s =
     (case dict_get keys (addr_hex p) of
        None \<Rightarrow> Inl SignatureValidationError
      | Some k \<Rightarrow> bindR (sign_channel_state hmac s k) (sign_for hmac keys ps))"

definition sign_state :: "keyed_hash \<Rightarrow> manager \<Rightarrow> channel \<Rightarrow> channel_state \<Rightarrow> (phantom_error, channel_state) result" where
  "sign_state hmac m c s = sign_for hmac (mg_keys m) (ch_members c) s"

definition build_signed_state ::
  "keyed_hash \<Rightarrow> string \<Rightarrow> (party, int) dict option \<Rightarrow> htlc list option \<Rightarrow> int option \<Rightarrow> channel_state managing" where
  "build_signed_state hmac cid bals htlcs nonce =
     bindM (get_channel cid) (\<lambda>c m. liftR
       (bindR (mapE PhantomPy (mk_channel_state (ch_id c)
          (case nonce of None \<Rightarrow> ch_nonce c + 1 | Some n \<Rightarrow> n)
          (case bals of None \<Rightarrow> as_parties (ch_balances c) | Some b \<Rightarrow> b)
          (case htlcs of None \<Rightarrow> active_htlcs c | Some h \<Rightarrow> h) None [])) (sign_state hmac m c)) m)"

section \<open>Opening a channel\<close>

definition deposit_of :: "(party, int) dict \<Rightarrow> address \<Rightarrow> int" where
  "deposit_of deposits a =
     (case dict_get deposits (PartyAddr a) of
        Some n \<Rightarrow> n
      | None \<Rightarrow> (case dict_get deposits (PartyHex (addr_hex a)) of Some n \<Rightarrow> n | None \<Rightarrow> 0))"

fun deposit_all :: "address \<Rightarrow> balances \<Rightarrow> unit settling" where
  "deposit_all escrow [] = retM ()"
| "deposit_all escrow ((p, amount) # rest) =
     (\<lambda>(m, db). case transfer p escrow amount db of
        (True, db') \<Rightarrow> deposit_all escrow rest (m, db')
      | (False, db') \<Rightarrow> (Inl ChannelValidationError, (m, db')))"

definition open_channel ::
  "party \<times> party \<Rightarrow> (party, int) dict \<Rightarrow> int \<Rightarrow> int \<Rightarrow> int \<Rightarrow> int \<Rightarrow> string option \<Rightarrow> channel settling" where
  "open_channel participants deposits dispute_window current_block fee_base fee_ppm hint =
     bindM (liftR (mapE PhantomPy (normalize_address (fst participants)))) (\<lambda>a.
     bindM (liftR (mapE PhantomPy (normalize_address (snd participants)))) (\<lambda>b.
     let pair = ordered_pair a b;
         bals = dict_put (snd pair) (deposit_of deposits (snd pair)) [(fst pair, deposit_of deposits (fst pair))] in
     seqM (guardM (\<forall>(p, amount) \<in> set bals. \<not> amount < 0) ChannelValidationError)
    (seqM (guardM (balance_sum bals > 0) ChannelValidationError)
    (seqM (guardM (dispute_window > 0) ChannelValidationError)
    (seqM (bindM (getM snd) (\<lambda>db. guardM (\<forall>(p, amount) \<in> set bals. \<not> get_balance db p < amount) ChannelValidationError))
    (bindM (on_manager (next_channel_id pair current_block hint)) (\<lambda>cid.
     let escrow = escrow_address cid in
     seqM (deposit_all escrow bals)
    (bindM (liftR (mapE PhantomPy (mk_channel_state cid 0 (as_parties bals) [] None []))) (\<lambda>initial.
     bindM (on_manager (getM mg_max_htlcs)) (\<lambda>max_htlcs.
     bindM (liftR (mapE PhantomPy (mk_channel cid (PartyAddr (fst pair), PartyAddr (snd pair)) (as_parties bals) 0
        (cs_root initial) current_block dispute_window (Some escrow) (Some initial) max_htlcs fee_base fee_ppm))) (\<lambda>c.
     seqM (on_manager (seqM (put_channel cid c) (publish c))) (retM c))))))))))))"

section \<open>Updates, closing and disputes\<close>

definition update_state :: "string \<Rightarrow> channel_state \<Rightarrow> channel managing" where
  "update_state cid s =
     bindM (get_channel cid) (\<lambda>c.
     seqM (guardM (ch_status c = ChannelOpen) ChannelValidationError)
    (seqM (\<lambda>m. liftR (validate_state m c s (Some (ch_nonce c)) True) m)
    (let c' = apply_state s c in
     seqM (put_channel cid c') (seqM (publish c') (retM c')))))"

fun pay_out :: "address \<Rightarrow> balances \<Rightarrow> unit settling" where
  "pay_out escrow [] = retM ()"
| "pay_out escrow ((p, amount) # rest) =
     (\<lambda>(m, db). case transfer escrow p amount db of
        (True, db') \<Rightarrow> pay_out escrow rest (m, db')
      | (False, db') \<Rightarrow> (Inl ChannelValidationError, (m, db')))"

definition settled :: "channel_state \<Rightarrow> int \<Rightarrow> channel \<Rightarrow> channel" where
  "settled final current_block c =
     apply_state final (c\<lparr>ch_closing := Some final, ch_closing_started := Some current_block, ch_status := ChannelClosed\<rparr>)"

definition settle_channel :: "string \<Rightarrow> channel \<Rightarrow> channel_state \<Rightarrow> int \<Rightarrow> channel settling" where
  "settle_channel cid c final current_block =
     (case ch_escrow c of
        None \<Rightarrow> raiseM ChannelValidationError
      | Some escrow \<Rightarrow>
          seqM (bindM (getM snd) (\<lambda>db. guardM (get_balance db escrow = total_state_balance final) ChannelValidationError))
         (seqM (pay_out escrow (cs_balances final))
         (let c' = settled final current_block c in
          seqM (on_manager (seqM (put_channel cid c') (publish c'))) (retM c'))))"

definition close_channel :: "string \<Rightarrow> channel_state \<Rightarrow> int \<Rightarrow> channel settling" where
  "close_channel cid final current_block =
     bindM (on_manager (get_channel cid)) (\<lambda>c.
     seqM (guardM (ch_status c \<noteq> ChannelClosed) DisputeError)
    (seqM (on_manager (\<lambda>m. liftR (validate_state m c final (Some (ch_nonce c)) False) m))
    (let c' = (if cs_nonce final > ch_nonce c then apply_state final c else c)\<lparr>ch_closing := Some final\<rparr> in
     seqM (on_manager (put_channel cid c')) (settle_channel cid c' final current_block))))"

definition challenge_close :: "string \<Rightarrow> channel_state \<Rightarrow> int \<Rightarrow> channel managing" where
  "challenge_close cid s current_block =
     bindM (get_channel cid) (\<lambda>c.
     seqM (guardM (ch_status c \<noteq> ChannelClosed) DisputeError)
    (let minimum = (case ch_closing c of Some s' \<Rightarrow> cs_nonce s' | None \<Rightarrow> ch_nonce c); strict = (ch_closing c \<noteq> None) in
     seqM (\<lambda>m. liftR (validate_state m c s (Some minimum) strict) m)
    (let c1 = (if cs_nonce s > ch_nonce c then apply_state s c else c);
         c' = c1\<lparr>ch_closing_started := (case ch_closing_started c1 of None \<Rightarrow> Some current_block | Some b \<Rightarrow> Some b),
                 ch_closing := Some s, ch_status := ChannelClosing\<rparr> in
     seqM (put_channel cid c') (seqM (publish c') (retM c')))))"

definition submit_newer_state :: "string \<Rightarrow> channel_state \<Rightarrow> int \<Rightarrow> channel managing" where
  "submit_newer_state cid s current_block =
     bindM (get_channel cid) (\<lambda>c.
     case (ch_status c = ChannelClosing, ch_closing c) of
       (True, Some closing) \<Rightarrow>
         (case ch_closing_started c of
            None \<Rightarrow> raiseM DisputeError
          | Some started \<Rightarrow>
              seqM (guardM (\<not> current_block > started + ch_dispute_window c) DisputeError)
             (seqM (\<lambda>m. liftR (validate_state m c s (Some (cs_nonce closing)) True) m)
             (let c1 = c\<lparr>ch_closing := Some s\<rparr>;
                  c' = (if cs_nonce s > ch_nonce c then apply_state s c1 else c1) in
              seqM (put_channel cid c') (seqM (publish c') (retM c')))))
     | _ \<Rightarrow> raiseM DisputeError)"

definition finalize_channel :: "string \<Rightarrow> int \<Rightarrow> channel settling" where
  "finalize_channel cid current_block =
     bindM (on_manager (get_channel cid)) (\<lambda>c.
     seqM (guardM (ch_status c \<noteq> ChannelClosed) DisputeError)
     (case (ch_status c = ChannelClosing, ch_closing c) of
        (True, Some closing) \<Rightarrow>
          (case ch_closing_started c of
             None \<Rightarrow> raiseM (PhantomPy AssertionError)
           | Some started \<Rightarrow>
               seqM (guardM (\<not> current_block \<le> started + ch_dispute_window c) DisputeError)
                 (settle_channel cid c closing current_block))
      | _ \<Rightarrow> raiseM DisputeError))"

type_synonym update_verifier = "channel \<Rightarrow> channel_state \<Rightarrow> zk_json \<Rightarrow> bool"

definition null_verify_update :: update_verifier where
  "null_verify_update c s proof = False"

definition submit_state_with_proof :: "update_verifier \<Rightarrow> string \<Rightarrow> channel_state \<Rightarrow> zk_json \<Rightarrow> channel managing" where
  "submit_state_with_proof verify cid s proof =
     bindM (get_channel cid) (\<lambda>c.
     seqM (guardM (verify c s proof) SignatureValidationError)
    (seqM (\<lambda>m. liftR (validate_state m c s (Some (ch_nonce c)) True) m)
    (let c' = apply_state s c in
     seqM (put_channel cid c') (seqM (publish c') (retM c')))))"

section \<open>Payments\<close>

definition manager_find_route :: "address \<Rightarrow> address \<Rightarrow> int \<Rightarrow> payment_route managing" where
  "manager_find_route sender receiver amount =
     (\<lambda>m. (find_route (graph_of m) sender receiver amount (mg_max_route_length m), m))"

definition find_pending_payment_by_hashlock :: "hash \<Rightarrow> payment managing" where
  "find_pending_payment_by_hashlock h =
     (\<lambda>m. case find (\<lambda>p. py_hashlock p = h \<and> py_status p = PaymentPending) (map snd (mg_payments m)) of
        None \<Rightarrow> (Inl HTLCError, m) | Some p \<Rightarrow> (Inr p, m))"

definition find_matching_htlc :: "channel \<Rightarrow> hash \<Rightarrow> (phantom_error, htlc) result" where
  "find_matching_htlc c h =
     (case find (\<lambda>x. hl_hashlock x = h \<and> hl_status x = HtlcPending) (active_htlcs c) of
        None \<Rightarrow> Inl HTLCError | Some x \<Rightarrow> Inr x)"

definition apply_signed_state :: "keyed_hash \<Rightarrow> string \<Rightarrow> channel \<Rightarrow> balances \<Rightarrow> htlc list \<Rightarrow> unit managing" where
  "apply_signed_state hmac cid c bals htlcs =
     bindM (liftR (mapE PhantomPy (mk_channel_state (ch_id c) (ch_nonce c + 1) (as_parties bals) htlcs None []))) (\<lambda>s.
     bindM (\<lambda>m. liftR (sign_state hmac m c s) m) (\<lambda>s'.
     seqM (\<lambda>m. liftR (validate_state m c s' (Some (ch_nonce c)) True) m)
    (let c' = apply_state s' c in seqM (put_channel cid c') (publish c'))))"

definition apply_htlc_add :: "keyed_hash \<Rightarrow> string \<Rightarrow> channel \<Rightarrow> htlc \<Rightarrow> unit managing" where
  "apply_htlc_add hmac cid c h =
     seqM (guardM (ch_status c = ChannelOpen) HTLCError)
    (bindM (liftR (mapE PhantomPy (available_balance c (hl_sender h)))) (\<lambda>available.
     seqM (guardM (\<not> available < hl_amount h) HTLCError)
    (bindM (getM mg_max_htlcs) (\<lambda>limit.
     seqM (guardM (\<not> int (length (active_htlcs c)) \<ge> min (ch_max_htlcs c) limit) HTLCError)
       (apply_signed_state hmac cid c (ch_balances c) (active_htlcs c @ [h]))))))"

text \<open>\<open>balances[k] += n\<close>.\<close>

definition bump :: "address \<Rightarrow> int \<Rightarrow> balances \<Rightarrow> (phantom_error, balances) result" where
  "bump k n bals = (case dict_get bals k of None \<Rightarrow> Inl (PhantomPy KeyError) | Some b \<Rightarrow> Inr (dict_put k (b + n) bals))"

definition without_htlc :: "string \<Rightarrow> htlc list \<Rightarrow> htlc list" where
  "without_htlc i hs = filter (\<lambda>x. hl_id x \<noteq> i) hs"

definition apply_htlc_claim :: "keyed_hash \<Rightarrow> string \<Rightarrow> channel \<Rightarrow> hash \<Rightarrow> int \<Rightarrow> unit managing" where
  "apply_htlc_claim hmac cid c hashlock current_block =
     bindM (liftR (find_matching_htlc c hashlock)) (\<lambda>h.
     seqM (guardM (\<not> current_block > hl_timelock h) HTLCError)
    (bindM (liftR (bindR (bump (hl_sender h) (- hl_amount h) (ch_balances c)) (bump (hl_receiver h) (hl_amount h)))) (\<lambda>bals.
     apply_signed_state hmac cid c bals (without_htlc (hl_id h) (active_htlcs c)))))"

definition apply_htlc_refund :: "keyed_hash \<Rightarrow> string \<Rightarrow> channel \<Rightarrow> hash \<Rightarrow> int \<Rightarrow> bool \<Rightarrow> unit managing" where
  "apply_htlc_refund hmac cid c hashlock current_block cascading =
     bindM (liftR (find_matching_htlc c hashlock)) (\<lambda>h.
     seqM (guardM (\<not> (\<not> cascading \<and> current_block \<le> hl_timelock h)) HTLCError)
       (apply_signed_state hmac cid c (ch_balances c) (without_htlc (hl_id h) (active_htlcs c))))"

definition payment_htlc_id :: "string \<Rightarrow> route_hop \<Rightarrow> hash \<Rightarrow> string" where
  "payment_htlc_id payment_id hop hashlock = hash_hex (phantom_hash (JObj
     [(''payment_id'', JStr payment_id), (''channel_id'', JStr (hop_channel_id hop)), (''amount'', JInt (hop_amount hop)),
      (''hashlock'', JStr (hash_hex hashlock))]))"

text \<open>The loop over the hops; \<open>remaining\<close> hops give the timelock of the first of them.\<close>

fun lock_hops ::
  "keyed_hash \<Rightarrow> string \<Rightarrow> hash \<Rightarrow> int \<Rightarrow> route_hop list \<Rightarrow> (route_hop list \<times> string list) managing" where
  "lock_hops hmac payment_id hashlock current_block [] = retM ([], [])"
| "lock_hops hmac payment_id hashlock current_block (hop # hops) =
     bindM (getM id) (\<lambda>m0.
     let timelock = current_block + mg_base_timelock m0 + int (length hops) * mg_timelock_delta m0 in
     seqM (guardM (\<not> timelock - current_block > mg_max_horizon m0) HTLCError)
    (let hid = payment_htlc_id payment_id hop hashlock in
     bindM (liftR (mapE PhantomPy (mk_htlc \<lparr>hl_id = hid, hl_hashlock = hashlock, hl_timelock = timelock,
       hl_amount = hop_amount hop, hl_sender = hop_sender hop, hl_receiver = hop_receiver hop, hl_fee = hop_fee hop,
       hl_status = HtlcPending\<rparr>))) (\<lambda>h.
     bindM (get_channel (hop_channel_id hop)) (\<lambda>c.
     seqM (apply_htlc_add hmac (hop_channel_id hop) c h)
    (bindM (lock_hops hmac payment_id hashlock current_block hops) (\<lambda>(timed, ids).
     retM (hop\<lparr>hop_timelock := timelock\<rparr> # timed, hid # ids)))))))"

definition initiate_payment :: "keyed_hash \<Rightarrow> address \<Rightarrow> address \<Rightarrow> int \<Rightarrow> int \<Rightarrow> bytes \<Rightarrow> (payment \<times> bytes) managing" where
  "initiate_payment hmac sender receiver amount current_block secret =
     bindM (manager_find_route sender receiver amount) (\<lambda>route.
     bindM (getM mg_max_route_length) (\<lambda>limit.
     seqM (guardM (\<not> int (length (pr_hops route)) > limit) HTLCError)
    (let hashlock = hash_secret secret in
     bindM (next_payment_id sender receiver amount current_block) (\<lambda>payment_id.
     or_restore (bindM (lock_hops hmac payment_id hashlock current_block (pr_hops route)) (\<lambda>(timed, ids).
       let p = \<lparr>py_id = payment_id, py_route = route\<lparr>pr_hops := timed\<rparr>, py_hashlock = hashlock,
             py_created_block = current_block, py_htlc_ids = ids, py_status = PaymentPending, py_secret = None,
             py_failure_reason = None\<rparr> in
       seqM (modM (\<lambda>m. m\<lparr>mg_payments := dict_put payment_id p (mg_payments m)\<rparr>)) (retM (p, secret))))))))"

fun over_hops :: "(string \<Rightarrow> channel \<Rightarrow> unit managing) \<Rightarrow> route_hop list \<Rightarrow> unit managing" where
  "over_hops f [] = retM ()"
| "over_hops f (hop # hops) =
     bindM (get_channel (hop_channel_id hop)) (\<lambda>c. seqM (f (hop_channel_id hop) c) (over_hops f hops))"

definition last_timelock :: "payment \<Rightarrow> (phantom_error, int) result" where
  "last_timelock p = (case pr_hops (py_route p) of [] \<Rightarrow> Inl (PhantomPy IndexError) | hops \<Rightarrow> Inr (hop_timelock (last hops)))"

definition put_payment :: "payment \<Rightarrow> unit managing" where
  "put_payment p = modM (\<lambda>m. m\<lparr>mg_payments := dict_put (py_id p) p (mg_payments m)\<rparr>)"

definition redeem_payment :: "keyed_hash \<Rightarrow> bytes \<Rightarrow> int \<Rightarrow> payment managing" where
  "redeem_payment hmac secret current_block =
     (let hashlock = hash_secret secret in
      bindM (find_pending_payment_by_hashlock hashlock) (\<lambda>p.
      bindM (liftR (last_timelock p)) (\<lambda>timelock.
      seqM (guardM (\<not> current_block > timelock) HTLCError)
     (or_restore
       (seqM (over_hops (\<lambda>cid c. apply_htlc_claim hmac cid c hashlock current_block) (rev (pr_hops (py_route p))))
       (let p' = p\<lparr>py_status := PaymentCompleted, py_secret := Some secret\<rparr> in seqM (put_payment p') (retM p')))))))"

definition refund_payment :: "keyed_hash \<Rightarrow> string \<Rightarrow> int \<Rightarrow> payment managing" where
  "refund_payment hmac payment_id current_block =
     bindM (getM (\<lambda>m. dict_get (mg_payments m) payment_id)) (\<lambda>found.
     case found of
       None \<Rightarrow> raiseM HTLCError
     | Some p \<Rightarrow>
         seqM (guardM (py_status p = PaymentPending) HTLCError)
        (bindM (liftR (last_timelock p)) (\<lambda>timelock.
         seqM (guardM (\<not> current_block \<le> timelock) HTLCError)
        (or_restore
          (seqM (over_hops (\<lambda>cid c. apply_htlc_refund hmac cid c (py_hashlock p) current_block True)
             (rev (pr_hops (py_route p))))
          (let p' = p\<lparr>py_status := PaymentRefunded\<rparr> in seqM (put_payment p') (retM p')))))))"

fun expire_loop :: "keyed_hash \<Rightarrow> int \<Rightarrow> payment list \<Rightarrow> payment list managing" where
  "expire_loop hmac current_block [] = retM []"
| "expire_loop hmac current_block (p # ps) =
     (if py_status p = PaymentPending then
        bindM (liftR (last_timelock p)) (\<lambda>timelock.
        if current_block > timelock then
          bindM (refund_payment hmac (py_id p) current_block) (\<lambda>q.
          bindM (expire_loop hmac current_block ps) (\<lambda>qs. retM (q # qs)))
        else expire_loop hmac current_block ps)
      else expire_loop hmac current_block ps)"

definition expire_payments :: "keyed_hash \<Rightarrow> int \<Rightarrow> payment list managing" where
  "expire_payments hmac current_block =
     bindM (getM list_payments) (expire_loop hmac current_block)"

section \<open>Settlement operations\<close>

fun local_approval :: "manager \<Rightarrow> (party, int) dict \<Rightarrow> address \<Rightarrow> address list \<Rightarrow> (phantom_error, unit) result" where
  "local_approval m deposits sender [] = Inr ()"
| "local_approval m deposits sender (p # ps) =
     (if p \<noteq> sender \<and> deposit_of deposits p > 0 \<and> addr_hex p \<notin> fst ` set (mg_keys m)
      then Inl SignatureValidationError else local_approval m deposits sender ps)"

definition require_member :: "address \<Rightarrow> string \<Rightarrow> unit settling" where
  "require_member sender cid =
     bindM (on_manager (get_channel cid)) (\<lambda>c. guardM (sender \<in> set (ch_members c)) SignatureValidationError)"

definition apply_operation :: "update_verifier \<Rightarrow> operation \<Rightarrow> int \<Rightarrow> address \<Rightarrow> channel settling" where
  "apply_operation verify x current_block sender =
     (case x of
        OpenOp q \<Rightarrow>
          bindM (liftR (mapE PhantomPy (normalize_address (fst (oo_participants q))))) (\<lambda>a.
          bindM (liftR (mapE PhantomPy (normalize_address (snd (oo_participants q))))) (\<lambda>b.
          let pair = ordered_pair a b in
          seqM (guardM (sender \<in> {fst pair, snd pair}) SignatureValidationError)
         (seqM (on_manager (\<lambda>m. liftR (local_approval m (oo_deposits q) sender [fst pair, snd pair]) m))
         (open_channel (oo_participants q) (oo_deposits q) (oo_dispute_window q) current_block (oo_fee_base q)
            (oo_fee_ppm q) (oo_channel_id_hint q)))))
      | CloseOp cid s \<Rightarrow> seqM (require_member sender cid) (close_channel cid s current_block)
      | ChallengeOp cid s \<Rightarrow> seqM (require_member sender cid) (on_manager (challenge_close cid s current_block))
      | FinalizeOp cid \<Rightarrow> seqM (require_member sender cid) (finalize_channel cid current_block)
      | ProofOp cid s proof \<Rightarrow> seqM (require_member sender cid) (on_manager (submit_state_with_proof verify cid s proof)))"

end
