(* ===== verification/Phantom_Settlement.thy ===== *)
theory Phantom_Settlement
  imports Phantom_Manager Block_Execution
begin

text \<open>
  The settlement layer of the channels, \<open>execution/phantom/settlement.py\<close>: a mempool of signed channel
  operations ordered by arrival and by nonce, and a chain that mines the pending operations into blocks
  on top of the state of the manager. An operation that raises is discarded and the chain state and the
  manager are restored.
\<close>

section \<open>Mempool\<close>

record pending_tx =
  pe_tx :: settlement_tx
  pe_insertion_id :: int

record mempool =
  mp_by_hash :: "(string, pending_tx) dict"
  mp_by_sender_nonce :: "(address \<times> int, pending_tx) dict"
  mp_next_insertion_id :: int

definition new_mempool :: mempool where
  "new_mempool = \<lparr>mp_by_hash = [], mp_by_sender_nonce = [], mp_next_insertion_id = 0\<rparr>"

definition mempool_size :: "mempool \<Rightarrow> int" where
  "mempool_size mp = int (length (mp_by_hash mp))"

definition get_by_sender_nonce :: "mempool \<Rightarrow> address \<Rightarrow> int \<Rightarrow> pending_tx option" where
  "get_by_sender_nonce mp a n = dict_get (mp_by_sender_nonce mp) (a, n)"

text \<open>The \<open>while\<close> loop of \<open>pending_nonce\<close>: it ends because it meets every key at most once.\<close>

function pending_nonce_from :: "(address \<times> int) list \<Rightarrow> address \<Rightarrow> int \<Rightarrow> int" where
  "pending_nonce_from ks a n = (if (a, n) \<in> set ks then pending_nonce_from ks a (n + 1) else n)"
  by pat_completeness auto

lemma pending_measure:
  "(a, n :: int) \<in> set ks \<Longrightarrow> length (filter (\<lambda>k. n + 1 \<le> snd k) ks) < length (filter (\<lambda>k. n \<le> snd k) ks)"
proof (induction ks)
  case (Cons k ks)
  have le: "length (filter (\<lambda>k. n + 1 \<le> snd k) xs) \<le> length (filter (\<lambda>k. n \<le> snd k) xs)" for xs :: "('x \<times> int) list"
    by (induction xs) auto
  show ?case
  proof (cases "k = (a, n)")
    case True
    then show ?thesis using le[of ks] by simp
  qed (use Cons in auto)
qed simp

termination pending_nonce_from
  by (relation "measure (\<lambda>(ks, a, n). length (filter (\<lambda>k. n \<le> snd k) ks))") (use pending_measure in auto)

declare pending_nonce_from.simps [simp del]

definition pending_nonce :: "mempool \<Rightarrow> address \<Rightarrow> int \<Rightarrow> int" where
  "pending_nonce mp a confirmed = pending_nonce_from (map fst (mp_by_sender_nonce mp)) a confirmed"

definition ordered :: "mempool \<Rightarrow> pending_tx list" where
  "ordered mp = sort_key pe_insertion_id (map snd (mp_by_hash mp))"

type_synonym 'a pooling = "(mempool, phantom_error, 'a) sem"

definition mempool_add :: "settlement_tx \<Rightarrow> statedb \<Rightarrow> pending_tx pooling" where
  "mempool_add t db =
     (case stx_signature t of
        None \<Rightarrow> raiseM MempoolError
      | Some g \<Rightarrow>
          bindM (liftR (mapE PhantomPy (stx_signing_hash t))) (\<lambda>h.
          seqM (liftR (verify_signature h g (stx_sender t)))
         (bindM (liftR (mapE PhantomPy (stx_hash t))) (\<lambda>th.
          bindM (getM id) (\<lambda>mp.
          seqM (guardM (hash_hex th \<notin> fst ` set (mp_by_hash mp)) MempoolError)
         (seqM (guardM (stx_nonce t = pending_nonce mp (stx_sender t) (get_nonce db (stx_sender t))) MempoolError)
         (let pending = \<lparr>pe_tx = t, pe_insertion_id = mp_next_insertion_id mp\<rparr> in
          seqM (modM (\<lambda>mp. mp\<lparr>mp_next_insertion_id := mp_next_insertion_id mp + 1,
            mp_by_hash := dict_put (hash_hex th) pending (mp_by_hash mp),
            mp_by_sender_nonce := dict_put (stx_sender t, stx_nonce t) pending (mp_by_sender_nonce mp)\<rparr>))
          (retM pending))))))))"

definition mempool_remove :: "settlement_tx \<Rightarrow> unit pooling" where
  "mempool_remove t =
     bindM (liftR (mapE PhantomPy (stx_hash t))) (\<lambda>th.
     modM (\<lambda>mp. case dict_get (mp_by_hash mp) (hash_hex th) of
         None \<Rightarrow> mp
       | Some p \<Rightarrow> mp\<lparr>mp_by_hash := dict_pop (hash_hex th) (mp_by_hash mp),
           mp_by_sender_nonce := dict_pop (stx_sender (pe_tx p), stx_nonce (pe_tx p)) (mp_by_sender_nonce mp)\<rparr>))"

fun mempool_clear :: "settlement_tx list \<Rightarrow> unit pooling" where
  "mempool_clear [] = retM ()"
| "mempool_clear (t # ts) = seqM (mempool_remove t) (mempool_clear ts)"

section \<open>Settlement chain\<close>

record phantom_block =
  pb_block :: block
  pb_post_state :: statedb
  pb_total_difficulty :: int
  pb_size :: int
  pb_transactions :: "settlement_tx list"
  pb_receipts :: "phantom_receipt list"

record settlement_chain =
  sc_manager :: manager
  sc_state :: statedb
  sc_config :: chain_config
  sc_mempool :: mempool
  sc_by_number :: "(int, phantom_block) dict"
  sc_by_hash :: "(string, phantom_block) dict"

datatype chain_error = ChainPhantom phantom_error | ChainExec exec_error

type_synonym 'a chaining = "(settlement_chain, chain_error, 'a) sem"

definition head_record :: "settlement_chain \<Rightarrow> (chain_error, phantom_block) result" where
  "head_record c =
     (if sc_by_number c = [] then Inl (ChainPhantom (PhantomPy ValueError))
      else case dict_get (sc_by_number c) (Max (set (map fst (sc_by_number c)))) of
        None \<Rightarrow> Inl (ChainPhantom (PhantomPy KeyError)) | Some r \<Rightarrow> Inr r)"

definition store_block :: "phantom_block \<Rightarrow> unit chaining" where
  "store_block r =
     seqM (modM (\<lambda>c. c\<lparr>sc_by_number := dict_put (bh_number (blk_header (pb_block r))) r (sc_by_number c)\<rparr>))
    (bindM (liftR (mapE (ChainExec \<circ> ExecPy) (block_hash (pb_block r)))) (\<lambda>h.
     modM (\<lambda>c. c\<lparr>sc_by_hash := dict_put (hash_hex h) r (sc_by_hash c), sc_state := statedb_clone (pb_post_state r)\<rparr>)))"

text \<open>The block over a post state: no transactions of the execution layer, so its roots are those of empty lists.\<close>

definition phantom_payload :: "statedb \<Rightarrow> execution_payload" where
  "phantom_payload db =
     \<lparr>ep_receipts = [], ep_gas_used = 0, ep_state = Some (statedb_clone db), ep_state_root = None, ep_logs_bloom = [],
      ep_transaction_results = [], ep_pre_state_root = None\<rparr>"

definition phantom_block_of ::
  "chain_config \<Rightarrow> phantom_block option \<Rightarrow> statedb \<Rightarrow> int \<Rightarrow> int \<Rightarrow> address \<Rightarrow> settlement_tx list \<Rightarrow> phantom_receipt list
   \<Rightarrow> (chain_error, phantom_block) result" where
  "phantom_block_of cfg parent db timestamp gas_limit beneficiary txs receipts =
     bindR (mapE (ChainExec \<circ> ExecPy) (mk_execution_payload (phantom_payload db))) (\<lambda>payload.
     bindR (mapE ChainExec (build_block cfg (map_option (\<lambda>r. ParentBlock (pb_block r)) parent) [] (OutcomePayload payload)
        timestamp gas_limit beneficiary [] [] 0 None (replicate 8 0))) (\<lambda>b.
     bindR (mapE ChainExec (block_serialize b)) (\<lambda>bs. Inr
       \<lparr>pb_block = b, pb_post_state = statedb_clone db,
        pb_total_difficulty = (case parent of None \<Rightarrow> 0 | Some r \<Rightarrow> pb_total_difficulty r) + bh_difficulty (blk_header b),
        pb_size = int (length bs), pb_transactions = txs, pb_receipts = receipts\<rparr>)))"

definition new_settlement_chain :: "manager \<Rightarrow> statedb option \<Rightarrow> chain_config \<Rightarrow> int \<Rightarrow> (chain_error, settlement_chain) result" where
  "new_settlement_chain m state cfg genesis_timestamp =
     (let db = (case state of None \<Rightarrow> [] | Some s \<Rightarrow> statedb_clone s);
          c = \<lparr>sc_manager = m, sc_state = db, sc_config = cfg, sc_mempool = new_mempool, sc_by_number = [], sc_by_hash = []\<rparr> in
      bindR (phantom_block_of cfg None db genesis_timestamp 30000000 0 [] []) (\<lambda>r.
      case store_block r c of (Inl e, c') \<Rightarrow> Inl e | (Inr u, c') \<Rightarrow> Inr c'))"

definition submit :: "settlement_tx \<Rightarrow> pending_tx chaining" where
  "submit t = bindM (\<lambda>c. liftR (head_record c) c) (\<lambda>r c.
     case mempool_add t (pb_post_state r) (sc_mempool c) of (res, mp) \<Rightarrow> (mapE ChainPhantom res, c\<lparr>sc_mempool := mp\<rparr>))"

definition receipt_by_tx_hash :: "settlement_chain \<Rightarrow> string \<Rightarrow> phantom_receipt option" where
  "receipt_by_tx_hash c key =
     find (\<lambda>r. hash_hex (pz_tx_hash r) = key) (concat (map (\<lambda>(n, r). pb_receipts r) (sc_by_number c)))"

section \<open>Mining\<close>

record mining =
  mn_included :: "settlement_tx list"
  mn_receipts :: "phantom_receipt list"
  mn_discarded :: "settlement_tx list"

definition settlement_receipt :: "settlement_tx \<Rightarrow> int \<Rightarrow> channel \<Rightarrow> hash \<Rightarrow> phantom_receipt" where
  "settlement_receipt t number c th =
     \<lparr>pz_tx_hash = th, pz_block_number = number, pz_sender = stx_sender t, pz_success = True,
      pz_result = operation_type_value (op_type (stx_operation t)), pz_channel_id = Some (ch_id c)\<rparr>"

text \<open>
  The body of the \<open>try\<close>, with the lists as they are when it raises: the transaction is appended to the
  included ones before its hash is taken for the receipt.
\<close>

definition mine_one :: "update_verifier \<Rightarrow> int \<Rightarrow> settlement_tx \<Rightarrow> mining \<Rightarrow> manager \<times> statedb
   \<Rightarrow> (phantom_error + unit) \<times> mining \<times> (manager \<times> statedb)" where
  "mine_one verify number t acc s =
     (case apply_operation verify (stx_operation t) number (stx_sender t) s of
        (Inl e, s') \<Rightarrow> (Inl e, acc, s')
      | (Inr c, (m', db')) \<Rightarrow>
          let db1 = increment_nonce (stx_sender t) db';
              acc1 = acc\<lparr>mn_included := mn_included acc @ [t]\<rparr> in
          (case stx_hash t of
             Inl e \<Rightarrow> (Inl (PhantomPy e), acc1, (m', db1))
           | Inr th \<Rightarrow> (Inr (), acc1\<lparr>mn_receipts := mn_receipts acc1 @ [settlement_receipt t number c th]\<rparr>, (m', db1))))"

fun mine_loop :: "update_verifier \<Rightarrow> int option \<Rightarrow> int \<Rightarrow> settlement_tx list \<Rightarrow> mining \<Rightarrow> manager \<times> statedb
   \<Rightarrow> (phantom_error + mining) \<times> (manager \<times> statedb)" where
  "mine_loop verify limit number [] acc s = (Inr acc, s)"
| "mine_loop verify limit number (t # ts) acc s =
     (if (case limit of None \<Rightarrow> False | Some k \<Rightarrow> int (length (mn_included acc)) \<ge> k) then (Inr acc, s)
      else let db0 = statedb_snapshot (snd s); sn = snapshot (fst s) in
        (case mine_one verify number t acc s of
           (Inr u, acc', s') \<Rightarrow> mine_loop verify limit number ts acc' s'
         | (Inl e, acc', (m', db')) \<Rightarrow>
             let acc1 = acc'\<lparr>mn_discarded := mn_discarded acc' @ [t]\<rparr>; db1 = statedb_restore db0 db' in
             (case restore sn m' of
                (Inl e', m1) \<Rightarrow> (Inl e', (m1, db1))
              | (Inr u, m1) \<Rightarrow>
                  (case stx_hash t of
                     Inl e' \<Rightarrow> (Inl (PhantomPy e'), (m1, db1))
                   | Inr th \<Rightarrow> mine_loop verify limit number ts acc1 (m1, db1)))))"

definition mine_pending_block :: "update_verifier \<Rightarrow> int option \<Rightarrow> phantom_block option chaining" where
  "mine_pending_block verify limit =
     (\<lambda>c. if ordered (sc_mempool c) = [] then (Inr None, c)
      else case head_record c of
        Inl e \<Rightarrow> (Inl e, c)
      | Inr tip \<Rightarrow>
          let header = blk_header (pb_block tip); number = bh_number header + 1 in
          (case mine_loop verify limit number (map pe_tx (ordered (sc_mempool c))) \<lparr>mn_included = [], mn_receipts = [], mn_discarded = []\<rparr>
              (sc_manager c, statedb_clone (pb_post_state tip)) of
             (Inl e, (m', db')) \<Rightarrow> (Inl (ChainPhantom e), c\<lparr>sc_manager := m'\<rparr>)
           | (Inr acc, (m', db')) \<Rightarrow>
               (case mempool_clear (mn_included acc @ mn_discarded acc) (sc_mempool c) of
                  (Inl e, mp) \<Rightarrow> (Inl (ChainPhantom e), c\<lparr>sc_manager := m', sc_mempool := mp\<rparr>)
                | (Inr u, mp) \<Rightarrow>
                    let c1 = c\<lparr>sc_manager := m', sc_mempool := mp\<rparr> in
                    if mn_included acc = [] then (Inr None, c1)
                    else (case phantom_block_of (sc_config c) (Some tip) db' (bh_timestamp header + 1) (bh_gas_limit header)
                              (bh_coinbase header) (mn_included acc) (mn_receipts acc) of
                            Inl e \<Rightarrow> (Inl e, c1)
                          | Inr r \<Rightarrow> seqM (store_block r) (retM (Some r)) c1))))"

end
