(* ===== verification/Phantom_Safety.thy ===== *)
theory Phantom_Safety
  imports Phantom_Manager Programs
begin

text \<open>
  What every operation of the channel manager upholds. A channel only ever takes on states that spend
  exactly its capacity, name its two participants and carry the signatures of both; its nonce grows
  with every such state until it is settled; its status only moves from open over closing to closed;
  and the chain neither gains nor loses balance. The operations are programs, so the proofs follow
  their structure through the rules of a locale of relations that programs keep.
\<close>

section \<open>Valid channels\<close>

definition authorised :: "channel \<Rightarrow> channel_state \<Rightarrow> bool" where
  "authorised c s \<longleftrightarrow> ensure_all_signatures c s = Inr ()"

definition htlcs_ok :: "channel \<Rightarrow> channel_state \<Rightarrow> bool" where
  "htlcs_ok c s \<longleftrightarrow>
     (\<forall>h \<in> set (cs_htlcs s). hl_status h = HtlcPending \<and> hl_sender h \<in> set (ch_members c)
        \<and> hl_receiver h \<in> set (ch_members c) \<and> hl_sender h \<noteq> hl_receiver h)
     \<and> distinct (map hl_id (cs_htlcs s))
     \<and> (\<forall>p \<in> set (ch_members c). \<exists>b. dict_get (cs_balances s) p = Some b \<and> locked_by p (cs_htlcs s) \<le> b)"

text \<open>A state the channel may be committed to: the opening state, or one that both participants signed.\<close>

definition committed :: "channel \<Rightarrow> channel_state \<Rightarrow> bool" where
  "committed c s \<longleftrightarrow> state_wf s \<and> cs_channel_id s = ch_id c \<and> map fst (cs_balances s) = ch_members c
     \<and> total_state_balance s = total_capacity c \<and> htlcs_ok c s
     \<and> (authorised c s \<or> cs_nonce s = 0 \<and> cs_htlcs s = [])"

definition channel_ok :: "string \<Rightarrow> channel \<Rightarrow> bool" where
  "channel_ok cid c \<longleftrightarrow> ch_id c = cid \<and> fst (ch_participants c) \<noteq> snd (ch_participants c)
     \<and> ch_balances c = cs_balances (ch_latest c) \<and> ch_nonce c = cs_nonce (ch_latest c)
     \<and> ch_root c = cs_root (ch_latest c) \<and> committed c (ch_latest c)
     \<and> (\<forall>s. ch_closing c = Some s \<longrightarrow> committed c s)
     \<and> (ch_status c = ChannelClosing \<longrightarrow> ch_closing c \<noteq> None \<and> ch_closing_started c \<noteq> None)
     \<and> ch_escrow c = Some (escrow_address cid)"

definition manager_ok :: "manager \<Rightarrow> bool" where
  "manager_ok m \<longleftrightarrow> dict_wf (mg_channels m) \<and> dict_wf (mg_payments m)
     \<and> (\<forall>(cid, c) \<in> set (mg_channels m). channel_ok cid c)
     \<and> (\<forall>(pid, p) \<in> set (mg_payments m). py_id p = pid)"

fun status_rank :: "channel_status \<Rightarrow> nat" where
  "status_rank ChannelOpen = 0"
| "status_rank ChannelClosing = 1"
| "status_rank ChannelClosed = 2"

definition same_terms :: "channel \<Rightarrow> channel \<Rightarrow> bool" where
  "same_terms c c' \<longleftrightarrow> ch_id c' = ch_id c \<and> ch_participants c' = ch_participants c \<and> ch_escrow c' = ch_escrow c
     \<and> ch_open_block c' = ch_open_block c \<and> ch_dispute_window c' = ch_dispute_window c
     \<and> ch_max_htlcs c' = ch_max_htlcs c \<and> ch_fee_base c' = ch_fee_base c \<and> ch_fee_ppm c' = ch_fee_ppm c
     \<and> total_capacity c' = total_capacity c"

text \<open>
  How an operation may change a channel. The nonce grows with the state, except in the step that
  settles the channel, which takes on the state it settles. Every state the channel then holds, as its
  latest or its closing state, was held before or carries all signatures, and is not older than both of
  the states held before.
\<close>

definition descends :: "channel \<Rightarrow> channel_state \<Rightarrow> bool" where
  "descends c s \<longleftrightarrow> (s = ch_latest c \<or> ch_closing c = Some s \<or> authorised c s)
     \<and> (\<exists>t. (t = ch_latest c \<or> ch_closing c = Some t) \<and> cs_nonce t \<le> cs_nonce s)"

definition evolves :: "channel \<Rightarrow> channel \<Rightarrow> bool" where
  "evolves c c' \<longleftrightarrow> same_terms c c' \<and> status_rank (ch_status c) \<le> status_rank (ch_status c')
     \<and> (ch_latest c' = ch_latest c \<or> committed c' (ch_latest c'))
     \<and> (\<forall>s. s = ch_latest c' \<or> ch_closing c' = Some s \<longrightarrow> descends c s)
     \<and> (ch_status c' = ChannelClosed \<and> ch_status c \<noteq> ChannelClosed
        \<or> ch_latest c' = ch_latest c \<and> ch_nonce c' = ch_nonce c
        \<or> ch_nonce c < ch_nonce c' \<and> authorised c' (ch_latest c'))"

lemma evolves_refl: "evolves c c"
  by (auto simp: evolves_def same_terms_def descends_def)

lemma committed_terms: "same_terms c c' \<Longrightarrow> committed c' s = committed c s"
  by (auto simp: same_terms_def committed_def authorised_def ensure_all_signatures_def htlcs_ok_def)

lemma authorised_terms: "same_terms c c' \<Longrightarrow> authorised c' s = authorised c s"
  by (auto simp: same_terms_def authorised_def ensure_all_signatures_def)

lemma same_terms_trans: "same_terms a b \<Longrightarrow> same_terms b c \<Longrightarrow> same_terms a c"
  by (simp add: same_terms_def)

lemma evolves_trans:
  assumes ab: "evolves a b" and bc: "evolves b c"
  shows "evolves a c"
proof -
  have terms: "same_terms a b" "same_terms b c" "same_terms a c"
    using ab bc same_terms_trans by (auto simp: evolves_def)
  have rank: "status_rank (ch_status a) \<le> status_rank (ch_status b)" "status_rank (ch_status b) \<le> status_rank (ch_status c)"
    using ab bc by (auto simp: evolves_def)
  have closed: "ch_status x = ChannelClosed \<longleftrightarrow> status_rank (ch_status x) = 2" for x :: channel
    by (cases "ch_status x") auto
  have small: "status_rank s \<le> 2" for s by (cases s) auto
  have stays: "ch_status b = ChannelClosed \<Longrightarrow> ch_status c = ChannelClosed"
    using rank closed small[of "ch_status c"] by auto
  have stays0: "ch_status a = ChannelClosed \<Longrightarrow> ch_status b = ChannelClosed"
    using rank closed small[of "ch_status b"] by auto
  have held: "descends a s" if "s = ch_latest c \<or> ch_closing c = Some s" for s
  proof -
    have b: "descends b s" using bc that unfolding evolves_def by blast
    then obtain t where t: "t = ch_latest b \<or> ch_closing b = Some t" "cs_nonce t \<le> cs_nonce s" by (auto simp: descends_def)
    have "descends a t" using ab t(1) unfolding evolves_def by blast
    then obtain u where u: "u = ch_latest a \<or> ch_closing a = Some u" "cs_nonce u \<le> cs_nonce t"
      unfolding descends_def by blast
    note u(1) order_trans[OF u(2) t(2)]
    moreover have "s = ch_latest a \<or> ch_closing a = Some s \<or> authorised a s"
      using b ab authorised_terms[OF terms(1)] by (auto simp: descends_def evolves_def)
    ultimately show ?thesis by (auto simp: descends_def)
  qed
  have latest: "ch_latest c = ch_latest a \<or> committed c (ch_latest c)"
    using ab bc committed_terms[OF terms(2), of "ch_latest b"] by (auto simp: evolves_def)
  consider (settles) "ch_status c = ChannelClosed \<and> ch_status a \<noteq> ChannelClosed"
    | (steps) "\<not> (ch_status b = ChannelClosed \<and> ch_status a \<noteq> ChannelClosed)"
        "\<not> (ch_status c = ChannelClosed \<and> ch_status b \<noteq> ChannelClosed)"
    using stays stays0 by blast
  then have "ch_status c = ChannelClosed \<and> ch_status a \<noteq> ChannelClosed
      \<or> ch_latest c = ch_latest a \<and> ch_nonce c = ch_nonce a
      \<or> ch_nonce a < ch_nonce c \<and> authorised c (ch_latest c)"
  proof cases
    case steps
    have "ch_latest b = ch_latest a \<and> ch_nonce b = ch_nonce a \<or> ch_nonce a < ch_nonce b \<and> authorised b (ch_latest b)"
      using ab steps(1) unfolding evolves_def by blast
    moreover have "ch_latest c = ch_latest b \<and> ch_nonce c = ch_nonce b \<or> ch_nonce b < ch_nonce c \<and> authorised c (ch_latest c)"
      using bc steps(2) unfolding evolves_def by blast
    ultimately show ?thesis using authorised_terms[OF terms(2), of "ch_latest b"] by auto
  qed blast
  then show ?thesis using terms(3) rank latest held unfolding evolves_def by simp
qed

section \<open>What validation establishes\<close>

lemma locked_by_simps [simp]:
  "locked_by p [] = 0"
  "locked_by p (h # hs) = (if hl_sender h = p \<and> hl_status h = HtlcPending then hl_amount h else 0) + locked_by p hs"
  by (simp_all add: locked_by_def)

lemma check_htlcs_Inr:
  "check_htlcs members hs seen locked = Inr locked' \<Longrightarrow>
     (\<forall>h \<in> set hs. hl_status h = HtlcPending \<and> hl_sender h \<in> set members \<and> hl_receiver h \<in> set members
        \<and> hl_sender h \<noteq> hl_receiver h)
     \<and> distinct (map hl_id hs) \<and> set (map hl_id hs) \<inter> set seen = {}
     \<and> (\<forall>p. dict_get locked' p = map_option (\<lambda>x. x + locked_by p hs) (dict_get locked p))"
proof (induction members hs seen locked rule: check_htlcs.induct)
  case (2 members h hs seen locked)
  from "2.prems" obtain amount where
    h: "hl_status h = HtlcPending" "hl_id h \<notin> set seen" "hl_sender h \<in> set members" "hl_receiver h \<in> set members"
       "hl_sender h \<noteq> hl_receiver h" and amount: "dict_get locked (hl_sender h) = Some amount"
    and rest: "check_htlcs members hs (hl_id h # seen) (dict_put (hl_sender h) (amount + hl_amount h) locked) = Inr locked'"
    by (auto split: if_splits option.splits)
  have "\<not> hl_status h \<noteq> HtlcPending" "\<not> (hl_sender h \<notin> set members \<or> hl_receiver h \<notin> set members)" using h by auto
  from "2.IH"[OF this(1) h(2) this(2) h(5) amount rest] h amount show ?case
    by (auto simp: dict_simps option.map_comp comp_def)
qed (simp add: option.map_id0 option.map_ident)

lemma check_locked_Inr:
  "check_locked bals ls = Inr u \<Longrightarrow> (p, l) \<in> set ls \<Longrightarrow> \<exists>b. dict_get bals p = Some b \<and> l \<le> b"
  by (induction bals ls rule: check_locked.induct) (auto split: option.splits if_splits)

lemma validate_state_committed:
  assumes "validate_state m c s n strict = Inr ()" "state_wf s"
  shows "committed c s" "authorised c s"
    and "n = Some k \<Longrightarrow> (if strict then k < cs_nonce s else k \<le> cs_nonce s)"
proof -
  obtain locked where checks: "cs_channel_id s = ch_id c" "map fst (cs_balances s) = ch_members c"
      "total_state_balance s = total_capacity c" "authorised c s"
    and locked: "check_htlcs (ch_members c) (cs_htlcs s) [] (map (\<lambda>p. (p, 0)) (ch_members c)) = Inr locked"
      "check_locked (cs_balances s) locked = Inr ()"
    using assms(1) by (auto simp: validate_state_def authorised_def split: option.splits if_splits)
  have "\<exists>b. dict_get (cs_balances s) p = Some b \<and> locked_by p (cs_htlcs s) \<le> b" if "p \<in> set (ch_members c)" for p
  proof -
    have "dict_get locked p = Some (locked_by p (cs_htlcs s))"
      using check_htlcs_Inr[OF locked(1)] that by auto
    then show ?thesis using check_locked_Inr[OF locked(2)] map_of_SomeD by fastforce
  qed
  then have "htlcs_ok c s"
    using check_htlcs_Inr[OF locked(1)] unfolding htlcs_ok_def by blast
  with checks assms(2) show "committed c s" "authorised c s" by (auto simp: committed_def)
  show "n = Some k \<Longrightarrow> (if strict then k < cs_nonce s else k \<le> cs_nonce s)"
    using assms(1) by (auto simp: validate_state_def split: if_splits)
qed

text \<open>A validated state is at least as new as the state it is measured against.\<close>

lemma validate_state_newer:
  assumes "validate_state m c s (Some (cs_nonce t)) strict = Inr u" "state_wf s" "t = ch_latest c \<or> ch_closing c = Some t"
  shows "\<exists>t. (t = ch_latest c \<or> ch_closing c = Some t) \<and> cs_nonce t \<le> cs_nonce s"
proof -
  have "cs_nonce t \<le> cs_nonce s"
    using validate_state_committed(3)[of m c s "Some (cs_nonce t)" strict "cs_nonce t"] assms(1,2) by (cases strict) auto
  with assms(3) show ?thesis by blast
qed

section \<open>The relation the manager's operations keep\<close>

definition guarded :: "manager \<Rightarrow> manager \<Rightarrow> bool" where
  "guarded m m' \<longleftrightarrow> (manager_ok m \<longrightarrow> manager_ok m'
     \<and> (\<forall>cid c. dict_get (mg_channels m) cid = Some c \<longrightarrow> (\<exists>c'. dict_get (mg_channels m') cid = Some c' \<and> evolves c c')))"

interpretation mgr: kept_relation guarded
proof
  show "guarded s s" for s by (auto simp: guarded_def intro: evolves_refl)
  show "guarded s t \<Longrightarrow> guarded t u \<Longrightarrow> guarded s u" for s t u
    unfolding guarded_def by (meson evolves_trans)
qed

lemma guarded_same: "mg_channels m' = mg_channels m \<Longrightarrow> mg_payments m' = mg_payments m \<Longrightarrow> guarded m m'"
  by (auto simp: guarded_def manager_ok_def intro: evolves_refl)

lemma publish_fields:
  "mg_channels (snd (publish c m)) = mg_channels m" "mg_payments (snd (publish c m)) = mg_payments m"
  "mg_max_htlcs (snd (publish c m)) = mg_max_htlcs m" "mg_keys (snd (publish c m)) = mg_keys m"
  "mg_base_timelock (snd (publish c m)) = mg_base_timelock m" "mg_timelock_delta (snd (publish c m)) = mg_timelock_delta m"
  by (simp_all add: publish_def on_dht_def sem_defs split: option.splits prod.splits)

lemma keeps_publish: "upholds guarded (publish c)"
  by (simp add: upholds_def guarded_same publish_fields)

lemma publish_all_fields:
  "mg_channels (snd (publish_all cs m)) = mg_channels m \<and> mg_payments (snd (publish_all cs m)) = mg_payments m"
proof (induction cs arbitrary: m)
  case (Cons c cs)
  show ?case
    using Cons[of "snd (publish c m)"] publish_fields[of c m]
    by (cases "publish c m"; cases "fst (publish c m)") (simp_all add: sem_defs)
qed (simp add: sem_defs)

lemma restore_fields:
  "mg_channels (snd (restore sn m)) = sn_channels sn" "mg_payments (snd (restore sn m)) = sn_payments sn"
  by (simp_all add: restore_def rebuild_indexes_def sem_defs publish_all_fields)

lemma or_restore_error:
  assumes "or_restore f m = (Inl e, m')"
  shows "mg_channels m' = mg_channels m \<and> mg_payments m' = mg_payments m"
  using assms restore_fields[of "snapshot m" "snd (f m)"]
  by (auto simp: or_restore_def sem_defs snapshot_def split: prod.splits sum.splits)

lemma keeps_or_restore: "upholds guarded f \<Longrightarrow> upholds guarded (or_restore f)"
  unfolding upholds_def
proof
  fix m assume f: "\<forall>m. guarded m (snd (f m))"
  show "guarded m (snd (or_restore f m))"
  proof (cases "fst (or_restore f m)")
    case (Inl e)
    with or_restore_error[of f m e "snd (or_restore f m)"] show ?thesis
      by (intro guarded_same) (simp_all add: prod_eq_iff)
  next
    case (Inr x)
    then have "or_restore f m = f m"
      by (auto simp: or_restore_def sem_defs split: prod.splits sum.splits)
    with f show ?thesis by simp
  qed
qed

lemma commit_channel:
  assumes "dict_get (mg_channels m) cid = Some c" "upholds guarded k"
    and "channel_ok cid c \<Longrightarrow> channel_ok cid c' \<and> evolves c c'"
  shows "guarded m (snd (seqM (put_channel cid c') k m))"
proof -
  let ?m = "m\<lparr>mg_channels := dict_put cid c' (mg_channels m)\<rparr>"
  have "guarded m ?m"
    unfolding guarded_def
  proof
    assume ok: "manager_ok m"
    then have "channel_ok cid c" using assms(1) by (auto simp: manager_ok_def dest: map_of_SomeD)
    from assms(3)[OF this] have c': "channel_ok cid c'" "evolves c c'" by simp_all
    have "manager_ok ?m" using ok c'(1) by (auto simp: manager_ok_def dict_set_put)
    moreover have "\<exists>d'. dict_get (mg_channels ?m) i = Some d' \<and> evolves d d'"
      if "dict_get (mg_channels m) i = Some d" for i d
      using that assms(1) c'(2) by (cases "i = cid") (simp_all add: dict_simps evolves_refl del: map_of_eq_Some_iff)
    ultimately show "manager_ok ?m \<and> (\<forall>i d. dict_get (mg_channels m) i = Some d
        \<longrightarrow> (\<exists>d'. dict_get (mg_channels ?m) i = Some d' \<and> evolves d d'))" by blast
  qed
  moreover have "guarded ?m (snd (k ?m))" using assms(2) by (simp add: upholds_def)
  ultimately have "guarded m (snd (k ?m))" by (rule mgr.trans)
  then show ?thesis by (simp add: put_channel_def sem_defs)
qed

lemma get_channel_Inr: "get_channel cid m = (Inr c, m') \<longleftrightarrow> m' = m \<and> dict_get (mg_channels m) cid = Some c"
  by (auto simp: get_channel_def split: option.splits)

lemma keeps_get_channel: "upholds guarded (get_channel cid)"
  by (auto simp: upholds_def get_channel_def mgr.refl split: option.splits)

lemma with_channel:
  "(\<And>c m. dict_get (mg_channels m) cid = Some c \<Longrightarrow> guarded m (snd (g c m))) \<Longrightarrow> upholds guarded (bindM (get_channel cid) g)"
  by (rule mgr.bind[OF keeps_get_channel]) (auto simp: get_channel_Inr)

subsection \<open>Channels after a step\<close>

lemma channel_ok_adopt:
  assumes "channel_ok cid c" "committed c s" "\<And>x. cl = Some x \<Longrightarrow> committed c x"
    and "st = ChannelClosing \<Longrightarrow> cl \<noteq> None \<and> sb \<noteq> None"
  shows "channel_ok cid (apply_state s c\<lparr>ch_closing := cl, ch_closing_started := sb, ch_status := st\<rparr>)"
    and "same_terms c (apply_state s c\<lparr>ch_closing := cl, ch_closing_started := sb, ch_status := st\<rparr>)"
proof -
  let ?c = "apply_state s c\<lparr>ch_closing := cl, ch_closing_started := sb, ch_status := st\<rparr>"
  show terms: "same_terms c ?c"
    using assms(2) by (auto simp: same_terms_def apply_state_def committed_def total_capacity_def total_state_balance_def)
  show "channel_ok cid ?c"
    using assms committed_terms[OF terms] by (auto simp: channel_ok_def apply_state_def)
qed

lemma channel_ok_stay:
  assumes "channel_ok cid c" "\<And>x. cl = Some x \<Longrightarrow> committed c x" "st = ChannelClosing \<Longrightarrow> cl \<noteq> None \<and> sb \<noteq> None"
  shows "channel_ok cid (c\<lparr>ch_closing := cl, ch_closing_started := sb, ch_status := st\<rparr>)"
    and "same_terms c (c\<lparr>ch_closing := cl, ch_closing_started := sb, ch_status := st\<rparr>)"
proof -
  let ?c = "c\<lparr>ch_closing := cl, ch_closing_started := sb, ch_status := st\<rparr>"
  show terms: "same_terms c ?c" by (simp add: same_terms_def total_capacity_def)
  show "channel_ok cid ?c" using assms committed_terms[OF terms] by (auto simp: channel_ok_def)
qed

text \<open>The step of the updates and disputes: the state becomes the closing state, the latest state, or both.\<close>

definition step_channel :: "channel_state \<Rightarrow> bool \<Rightarrow> channel_state option \<Rightarrow> int option \<Rightarrow> channel_status \<Rightarrow> channel \<Rightarrow> channel" where
  "step_channel s adopt cl sb st c = (if adopt then apply_state s c else c)\<lparr>ch_closing := cl, ch_closing_started := sb, ch_status := st\<rparr>"

lemma step_channel_ok:
  assumes "channel_ok cid c" "committed c s" "authorised c s"
    and "\<And>x. cl = Some x \<Longrightarrow> committed c x" "st = ChannelClosing \<Longrightarrow> cl \<noteq> None \<and> sb \<noteq> None"
    and "status_rank (ch_status c) \<le> status_rank st"
    and "cl = ch_closing c \<or> cl = Some s" "\<exists>t. (t = ch_latest c \<or> ch_closing c = Some t) \<and> cs_nonce t \<le> cs_nonce s"
    and "adopt \<Longrightarrow> ch_nonce c < cs_nonce s \<or> st = ChannelClosed \<and> ch_status c \<noteq> ChannelClosed"
  shows "channel_ok cid (step_channel s adopt cl sb st c) \<and> evolves c (step_channel s adopt cl sb st c)"
proof (cases adopt)
  case True
  have held: "descends c x" if "x = ch_latest c \<or> ch_closing c = Some x \<or> x = s" for x
    using that assms(3,8) by (auto simp: descends_def)
  let ?c = "apply_state s c\<lparr>ch_closing := cl, ch_closing_started := sb, ch_status := st\<rparr>"
  note ok = channel_ok_adopt[OF assms(1,2,4,5)]
  have "ch_latest ?c = s" "ch_nonce ?c = cs_nonce s" "ch_status ?c = st" by (simp_all add: apply_state_def)
  with ok assms True held committed_terms[OF ok(2)] authorised_terms[OF ok(2)] show ?thesis
    by (auto simp: step_channel_def evolves_def)
next
  case False
  have held: "descends c x" if "x = ch_latest c \<or> ch_closing c = Some x \<or> x = s" for x
    using that assms(3,8) by (auto simp: descends_def)
  with False channel_ok_stay[OF assms(1,4,5)] assms show ?thesis
    by (auto simp: step_channel_def evolves_def)
qed

lemma apply_as_step: "apply_state s c = step_channel s True (ch_closing c) (ch_closing_started c) (ch_status c) c"
  by (simp add: step_channel_def apply_state_def)

lemma apply_state_ok:
  assumes "channel_ok cid c" "validate_state m c s (Some (ch_nonce c)) True = Inr u" "state_wf s"
  shows "channel_ok cid (apply_state s c) \<and> evolves c (apply_state s c)"
  unfolding apply_as_step
  by (rule step_channel_ok)
    (use assms validate_state_committed[of m c s _ True] validate_state_newer[of m c s "ch_latest c" True]
      in \<open>auto simp: channel_ok_def\<close>)

subsection \<open>Updates and disputes\<close>

lemma keeps_commit: "upholds guarded (seqM (publish c) (retM x))"
  by (intro mgr.rules keeps_publish)

lemma keeps_update_state: "state_wf s \<Longrightarrow> upholds guarded (update_state cid s)"
  unfolding update_state_def Let_def
  by (rule with_channel)
    (intro mgr.at_guard mgr.at_check, rule commit_channel, assumption, rule keeps_commit, rule apply_state_ok)

lemma keeps_submit_state_with_proof: "state_wf s \<Longrightarrow> upholds guarded (submit_state_with_proof verify cid s proof)"
  unfolding submit_state_with_proof_def Let_def
  by (rule with_channel)
    (intro mgr.at_guard mgr.at_check, rule commit_channel, assumption, rule keeps_commit, rule apply_state_ok)

lemma keeps_challenge_close:
  assumes wf: "state_wf s"
  shows "upholds guarded (challenge_close cid s current_block)"
  unfolding challenge_close_def Let_def
proof (rule with_channel, intro mgr.at_guard mgr.at_check, rule commit_channel, assumption, rule keeps_commit, goal_cases)
  case (1 c m u)
  let ?sb = "Some (case ch_closing_started c of None \<Rightarrow> current_block | Some b \<Rightarrow> b)"
  have "channel_ok cid (step_channel s (cs_nonce s > ch_nonce c) (Some s) ?sb ChannelClosing c)
      \<and> evolves c (step_channel s (cs_nonce s > ch_nonce c) (Some s) ?sb ChannelClosing c)"
  proof (rule step_channel_ok)
    show "status_rank (ch_status c) \<le> status_rank ChannelClosing" using 1 by (cases "ch_status c") auto
    show "\<exists>t. (t = ch_latest c \<or> ch_closing c = Some t) \<and> cs_nonce t \<le> cs_nonce s"
      using 1 wf validate_state_newer[of m c s]
      by (cases "ch_closing c") (auto simp: channel_ok_def)
  qed (use 1 wf validate_state_committed[of m c s] in auto)
  moreover have "(if cs_nonce s > ch_nonce c then apply_state s c else c)
      \<lparr>ch_closing_started := (case ch_closing_started (if cs_nonce s > ch_nonce c then apply_state s c else c) of
          None \<Rightarrow> Some current_block | Some b \<Rightarrow> Some b), ch_closing := Some s, ch_status := ChannelClosing\<rparr>
      = step_channel s (cs_nonce s > ch_nonce c) (Some s) ?sb ChannelClosing c"
    by (cases c) (simp add: step_channel_def apply_state_def split: option.splits)
  ultimately show ?case by simp
qed

lemma keeps_submit_newer_state:
  assumes wf: "state_wf s"
  shows "upholds guarded (submit_newer_state cid s current_block)"
  unfolding submit_newer_state_def
proof (rule with_channel)
  fix c and m :: manager assume get: "dict_get (mg_channels m) cid = Some c"
  show "guarded m (snd ((case (ch_status c = ChannelClosing, ch_closing c) of
       (True, Some closing) \<Rightarrow>
         (case ch_closing_started c of None \<Rightarrow> raiseM DisputeError
          | Some started \<Rightarrow>
              seqM (guardM (\<not> current_block > started + ch_dispute_window c) DisputeError)
             (seqM (\<lambda>m. liftR (validate_state m c s (Some (cs_nonce closing)) True) m)
             (let c1 = c\<lparr>ch_closing := Some s\<rparr>; c' = (if cs_nonce s > ch_nonce c then apply_state s c1 else c1) in
              seqM (put_channel cid c') (seqM (publish c') (retM c')))))
     | _ \<Rightarrow> raiseM DisputeError) m))"
  proof (cases "ch_status c = ChannelClosing \<and> ch_closing c \<noteq> None \<and> ch_closing_started c \<noteq> None")
    case True
    then obtain closing started where cl: "ch_status c = ChannelClosing" "ch_closing c = Some closing"
      "ch_closing_started c = Some started" by auto
    have step: "channel_ok cid c' \<and> evolves c c'"
      if "validate_state m c s (Some (cs_nonce closing)) True = Inr u" "channel_ok cid c"
        and c': "c' = (if cs_nonce s > ch_nonce c then apply_state s (c\<lparr>ch_closing := Some s\<rparr>) else c\<lparr>ch_closing := Some s\<rparr>)"
      for u c'
    proof -
      have "c' = step_channel s (cs_nonce s > ch_nonce c) (Some s) (Some started) ChannelClosing c"
        using cl by (cases c) (simp add: c' step_channel_def apply_state_def)
      then show ?thesis
        using step_channel_ok[OF that(2), of s "Some s" ChannelClosing "Some started" "cs_nonce s > ch_nonce c"]
          validate_state_committed[of m c s] validate_state_newer[OF that(1) wf disjI2[OF cl(2)]] that(1) wf cl by auto
    qed
    show ?thesis
      by (simp only: cl Let_def simp_thms prod.case bool.case option.case)
        (intro mgr.at_guard mgr.at_check, rule commit_channel, rule get, rule keeps_commit, rule step, auto)
  next
    case False
    then show ?thesis by (auto simp: sem_defs mgr.refl split: option.splits bool.splits)
  qed
qed

subsection \<open>Payments\<close>

lemma sign_channel_state_fields:
  assumes "sign_channel_state hmac s k = Inr s'" "state_wf s"
  shows "state_wf s' \<and> (\<exists>sigs. s' = s\<lparr>cs_signatures := sigs\<rparr>)"
proof -
  obtain sigs where "state_clone s None None None (Some sigs) = Inr s'"
    using assms(1) by (auto simp: sign_channel_state_def)
  with state_clone_signatures[OF assms(2)] have "s' = s\<lparr>cs_signatures := sort_key fst sigs\<rparr>" by simp
  with assms(2) show ?thesis by (auto simp: state_wf_def state_payload_def)
qed

lemma sign_for_fields:
  "sign_for hmac keys ps s = Inr s' \<Longrightarrow> state_wf s \<Longrightarrow> state_wf s' \<and> (\<exists>sigs. s' = s\<lparr>cs_signatures := sigs\<rparr>)"
proof (induction ps arbitrary: s)
  case Nil
  then show ?case by (auto intro!: exI[of _ "cs_signatures s"])
next
  case (Cons p ps)
  from Cons.prems(1) obtain k t where t: "sign_channel_state hmac s k = Inr t" "sign_for hmac keys ps t = Inr s'"
    by (auto split: option.splits)
  from sign_channel_state_fields[OF t(1) Cons.prems(2)] Cons.IH[OF t(2)] show ?case by auto
qed

lemma at_signed_state:
  assumes "dict_get (mg_channels m) cid = Some c"
  shows "guarded m (snd (apply_signed_state hmac cid c bals htlcs m))"
  unfolding apply_signed_state_def Let_def
proof (intro mgr.at_lift mgr.at_reading mgr.at_check, rule commit_channel[OF assms keeps_publish], goal_cases)
  case (1 s s' u)
  have "state_wf s" using 1(1) mk_channel_state_Inr by auto
  then have "state_wf s'" using sign_for_fields[OF 1(2)[unfolded sign_state_def]] by blast
  with apply_state_ok[OF 1(4,3)] show ?case .
qed

lemma at_htlc_add: "dict_get (mg_channels m) cid = Some c \<Longrightarrow> guarded m (snd (apply_htlc_add hmac cid c h m))"
  unfolding apply_htlc_add_def by (intro mgr.at_guard mgr.at_lift mgr.at_get at_signed_state)

lemma at_htlc_claim: "dict_get (mg_channels m) cid = Some c \<Longrightarrow> guarded m (snd (apply_htlc_claim hmac cid c h b m))"
  unfolding apply_htlc_claim_def by (intro mgr.at_guard mgr.at_lift at_signed_state)

lemma at_htlc_refund: "dict_get (mg_channels m) cid = Some c \<Longrightarrow> guarded m (snd (apply_htlc_refund hmac cid c h b casc m))"
  unfolding apply_htlc_refund_def by (intro mgr.at_guard mgr.at_lift at_signed_state)

lemma keeps_over_hops:
  assumes "\<And>cid c m. dict_get (mg_channels m) cid = Some c \<Longrightarrow> guarded m (snd (f cid c m))"
  shows "upholds guarded (over_hops f hops)"
proof (induction hops)
  case (Cons hop hops)
  show ?case
    unfolding over_hops.simps by (rule with_channel) (intro mgr.at_seq assms Cons.IH)
qed (simp add: mgr.ret)

lemma keeps_lock_hops: "upholds guarded (lock_hops hmac pid h b hops)"
proof (induction hops)
  case (Cons hop hops)
  have rest: "upholds guarded (bindM (lock_hops hmac pid h b hops) (\<lambda>(timed, ids). retM (x timed, y ids)))" for x y
    by (rule mgr.bind_all[OF Cons.IH]) (auto intro: mgr.ret)
  show ?case
    unfolding lock_hops.simps Let_def
    by (intro mgr.bind_all mgr.seq mgr.get mgr.guard mgr.lift with_channel mgr.at_seq at_htlc_add rest)
qed (simp add: mgr.ret)

lemma keeps_put_payment: "upholds guarded (put_payment p)"
  by (auto simp: upholds_def put_payment_def sem_defs guarded_def manager_ok_def dict_set_put evolves_refl)

lemma keeps_next_payment_id: "upholds guarded (next_payment_id a b n k)"
  by (simp add: upholds_def next_payment_id_def sem_defs guarded_same)

lemma keeps_initiate_payment: "upholds guarded (initiate_payment hmac a b n k secret)"
proof -
  have stored: "upholds guarded (seqM (modM (\<lambda>m. m\<lparr>mg_payments := dict_put pid p (mg_payments m)\<rparr>)) (retM (p, secret)) :: (payment \<times> bytes) managing)"
    if "py_id p = pid" for pid p
    using keeps_put_payment[of p] that by (intro mgr.seq mgr.ret) (simp add: put_payment_def)
  have locked: "upholds guarded (or_restore (bindM (lock_hops hmac pid h k hops) (\<lambda>(timed, ids). f timed ids)))"
    if "\<And>timed ids. upholds guarded (f timed ids)" for pid h hops and f :: "route_hop list \<Rightarrow> string list \<Rightarrow> (payment \<times> bytes) managing"
    using that by (intro keeps_or_restore mgr.bind_all keeps_lock_hops) (auto split: prod.splits)
  show ?thesis
    unfolding initiate_payment_def Let_def
    by (intro mgr.bind_all mgr.seq mgr.get mgr.guard keeps_next_payment_id locked stored)
      (simp_all add: manager_find_route_def upholds_def mgr.refl)
qed

lemma keeps_redeem_payment: "upholds guarded (redeem_payment hmac secret b)"
  unfolding redeem_payment_def Let_def
  by (intro mgr.bind_all mgr.seq mgr.lift mgr.guard keeps_or_restore keeps_over_hops at_htlc_claim keeps_put_payment mgr.ret)
    (auto simp: find_pending_payment_by_hashlock_def upholds_def mgr.refl split: option.splits)

lemma keeps_refund_payment: "upholds guarded (refund_payment hmac pid b)"
proof -
  have found: "upholds guarded (seqM (guardM (py_status p = PaymentPending) HTLCError) (bindM (liftR (last_timelock p)) (\<lambda>t.
      seqM (guardM (\<not> b \<le> t) HTLCError) (or_restore (seqM (over_hops (\<lambda>cid c. apply_htlc_refund hmac cid c (py_hashlock p) b True)
        (rev (pr_hops (py_route p)))) (let p' = p\<lparr>py_status := PaymentRefunded\<rparr> in seqM (put_payment p') (retM p')))))))" for p
    unfolding Let_def
    by (intro mgr.bind_all mgr.seq mgr.lift mgr.guard keeps_or_restore keeps_over_hops at_htlc_refund keeps_put_payment mgr.ret)
  show ?thesis
    unfolding refund_payment_def
    by (intro mgr.bind_all mgr.get) (auto split: option.splits intro: mgr.raise found)
qed

lemma keeps_expire_payments: "upholds guarded (expire_payments hmac b)"
proof -
  have "upholds guarded (expire_loop hmac b ps)" for ps
    by (induction ps) (auto intro!: mgr.bind_all mgr.lift mgr.ret keeps_refund_payment mgr.branch)
  then show ?thesis unfolding expire_payments_def by (intro mgr.bind_all mgr.get)
qed

section \<open>Operations that move balances on the chain\<close>

definition supply_kept :: "statedb \<Rightarrow> statedb \<Rightarrow> bool" where
  "supply_kept db db' \<longleftrightarrow> (db_wf db \<and> total_balance db < 2 ^ 256 \<longrightarrow> db_wf db' \<and> total_balance db' = total_balance db)"

definition with_supply :: "(manager \<Rightarrow> manager \<Rightarrow> bool) \<Rightarrow> manager \<times> statedb \<Rightarrow> manager \<times> statedb \<Rightarrow> bool" where
  "with_supply R x y \<longleftrightarrow> R (fst x) (fst y) \<and> (manager_ok (fst x) \<longrightarrow> manager_ok (fst y) \<and> supply_kept (snd x) (snd y))"

text \<open>Opening adds a channel, or replaces one whose identifier is given again.\<close>

definition just_opened :: "string \<Rightarrow> channel \<Rightarrow> bool" where
  "just_opened cid c \<longleftrightarrow> channel_ok cid c \<and> ch_status c = ChannelOpen \<and> ch_nonce c = 0 \<and> ch_closing c = None
     \<and> active_htlcs c = [] \<and> 0 < total_capacity c \<and> 0 < ch_dispute_window c"

definition opens :: "manager \<Rightarrow> manager \<Rightarrow> bool" where
  "opens m m' \<longleftrightarrow> (manager_ok m \<longrightarrow> manager_ok m'
     \<and> (\<forall>cid c. dict_get (mg_channels m) cid = Some c \<longrightarrow>
          (\<exists>c'. dict_get (mg_channels m') cid = Some c' \<and> (c' = c \<or> just_opened cid c'))))"

lemma with_supply_relation: "kept_relation R \<Longrightarrow> kept_relation (with_supply R)"
  unfolding kept_relation_def with_supply_def supply_kept_def by (metis (no_types))

interpretation ops: kept_relation opens
proof
  show "opens s s" for s by (simp add: opens_def)
  show "opens s t \<Longrightarrow> opens t u \<Longrightarrow> opens s u" for s t u
    unfolding opens_def by (metis (no_types))
qed

interpretation settles: kept_relation "with_supply guarded"
  by (rule with_supply_relation) (rule mgr.kept_relation_axioms)

interpretation founding: kept_relation "with_supply opens"
  by (rule with_supply_relation) (rule ops.kept_relation_axioms)

lemma on_manager_run: "snd (on_manager f s) = (snd (f (fst s)), snd s)" "fst (on_manager f s) = fst (f (fst s))"
  by (simp_all add: on_manager_def split: prod.splits)

lemma keeps_on_manager:
  assumes "upholds guarded f"
  shows "upholds (with_supply guarded) (on_manager f)"
  using assms by (auto simp: upholds_def with_supply_def on_manager_run supply_kept_def guarded_def)

lemma at_on_manager:
  "guarded m (snd (f m)) \<Longrightarrow> with_supply guarded (m, db) (snd (on_manager f (m, db)))"
  by (auto simp: with_supply_def on_manager_run supply_kept_def guarded_def)

lemma with_channel_settling:
  "(\<And>c m db. dict_get (mg_channels m) cid = Some c \<Longrightarrow> with_supply guarded (m, db) (snd (g c (m, db))))
   \<Longrightarrow> upholds (with_supply guarded) (bindM (on_manager (get_channel cid)) g)"
  by (rule settles.bind[OF keeps_on_manager[OF keeps_get_channel]])
    (auto simp: on_manager_def get_channel_Inr split: prod.splits)

lemma supply_transfer: "0 \<le> v \<Longrightarrow> transfer a b v db = (r, db') \<Longrightarrow> supply_kept db db'"
  using db_wf_transfer[of db a b v] total_balance_transfer[of db v a b] by (auto simp: supply_kept_def)

lemma supply_trans: "supply_kept a b \<Longrightarrow> supply_kept b c \<Longrightarrow> supply_kept a c"
  by (auto simp: supply_kept_def)

lemma deposit_all_run:
  "\<forall>e \<in> set bals. 0 \<le> snd e \<Longrightarrow> deposit_all escrow bals (m, db) = (r, (m', db')) \<Longrightarrow> m' = m \<and> supply_kept db db'"
proof (induction bals arbitrary: db)
  case (Cons e rest)
  obtain p amount where e: "e = (p, amount)" by (cases e)
  obtain ok db1 where t: "transfer p escrow amount db = (ok, db1)" by (cases "transfer p escrow amount db")
  have s: "supply_kept db db1" using Cons.prems(1) supply_transfer[OF _ t] by (simp add: e)
  show ?case
  proof (cases ok)
    case True
    with Cons.prems t have "deposit_all escrow rest (m, db1) = (r, (m', db'))" by (simp add: e)
    with Cons.IH[of db1] Cons.prems(1) s show ?thesis by (auto intro: supply_trans)
  qed (use Cons.prems t s in \<open>auto simp: e\<close>)
qed (auto simp: sem_defs supply_kept_def)

lemma pay_out_run:
  "\<forall>e \<in> set bals. 0 \<le> snd e \<Longrightarrow> pay_out escrow bals (m, db) = (r, (m', db')) \<Longrightarrow> m' = m \<and> supply_kept db db'"
proof (induction bals arbitrary: db)
  case (Cons e rest)
  obtain p amount where e: "e = (p, amount)" by (cases e)
  obtain ok db1 where t: "transfer escrow p amount db = (ok, db1)" by (cases "transfer escrow p amount db")
  have s: "supply_kept db db1" using Cons.prems(1) supply_transfer[OF _ t] by (simp add: e)
  show ?case
  proof (cases ok)
    case True
    with Cons.prems t have "pay_out escrow rest (m, db1) = (r, (m', db'))" by (simp add: e)
    with Cons.IH[of db1] Cons.prems(1) s show ?thesis by (auto intro: supply_trans)
  qed (use Cons.prems t s in \<open>auto simp: e\<close>)
qed (auto simp: sem_defs supply_kept_def)

lemma supply_refl: "supply_kept db db"
  by (simp add: supply_kept_def)

lemma with_supply_guarded: "(manager_ok m \<Longrightarrow> guarded m m' \<and> supply_kept db db') \<Longrightarrow> with_supply guarded (m, db) (m', db')"
  by (auto simp: with_supply_def guarded_def)

lemma with_supply_vacuous: "\<not> manager_ok (fst x) \<Longrightarrow> with_supply guarded x y"
  by (simp add: with_supply_def guarded_def)

lemma channel_at: "manager_ok m \<Longrightarrow> dict_get (mg_channels m) cid = Some c \<Longrightarrow> channel_ok cid c"
  by (auto simp: manager_ok_def)

lemma settled_ok:
  assumes "channel_ok cid c" "committed c final" "ch_status c \<noteq> ChannelClosed"
  shows "channel_ok cid (settled final b c) \<and> (descends c final \<longrightarrow> evolves c (settled final b c))"
proof -
  have eq: "settled final b c = apply_state final c\<lparr>ch_closing := Some final, ch_closing_started := Some b, ch_status := ChannelClosed\<rparr>"
    by (cases c) (simp add: settled_def apply_state_def)
  have ok: "channel_ok cid (settled final b c)" and terms: "same_terms c (settled final b c)"
    unfolding eq using channel_ok_adopt[OF assms(1,2), of "Some final"] assms(2) by auto
  have "status_rank (ch_status c) \<le> 2" by (cases "ch_status c") auto
  then show ?thesis
    using ok terms committed_terms[OF terms] assms by (auto simp: evolves_def settled_def apply_state_def)
qed

lemma settle_channel_run:
  assumes "settle_channel cid c final b (m, db) = (r, (m', db'))" "\<forall>e \<in> set (cs_balances final). 0 \<le> snd e"
  shows "supply_kept db db' \<and> (m' = m \<or> m' = snd (seqM (put_channel cid (settled final b c)) (publish (settled final b c)) m))"
  using assms
  by (auto simp: settle_channel_def sem_defs Let_def on_manager_def supply_refl
      split: option.splits if_splits sum.splits prod.splits dest!: pay_out_run[rotated])

lemma at_settle:
  assumes get: "dict_get (mg_channels m) cid = Some c" and final: "channel_ok cid c \<Longrightarrow> committed c final \<and> descends c final"
    and open_: "ch_status c \<noteq> ChannelClosed"
  shows "with_supply guarded (m, db) (snd (settle_channel cid c final b (m, db)))"
proof (cases "settle_channel cid c final b (m, db)")
  case (fields r m' db')
  have "guarded m m' \<and> supply_kept db db'" if "manager_ok m"
  proof -
    have "committed c final" using final channel_at[OF that get] by simp
    then have "\<forall>e \<in> set (cs_balances final). 0 \<le> snd e"
      by (simp add: committed_def state_wf_def balances_ok_def)
    note run = settle_channel_run[OF fields this]
    have "guarded m (snd (seqM (put_channel cid (settled final b c)) (publish (settled final b c)) m))"
      by (rule commit_channel[OF get keeps_publish]) (use settled_ok final open_ in blast)
    with run show ?thesis using mgr.refl by auto
  qed
  then show ?thesis unfolding fields by (simp add: with_supply_guarded)
qed

lemma on_manager_check:
  "seqM (on_manager (\<lambda>m. liftR (r m) m)) f = seqM (\<lambda>s. liftR (r (fst s)) s) f"
  by (rule ext) (auto simp: sem_defs on_manager_def split: prod.splits sum.splits)

lemma keeps_close_channel:
  assumes wf: "state_wf final"
  shows "upholds (with_supply guarded) (close_channel cid final b)"
  unfolding close_channel_def Let_def on_manager_check
proof (rule with_channel_settling, intro settles.at_guard settles.at_check, goal_cases)
  case (1 c m db u)
  let ?c = "(if cs_nonce final > ch_nonce c then apply_state final c else c)\<lparr>ch_closing := Some final\<rparr>"
  let ?m = "m\<lparr>mg_channels := dict_put cid ?c (mg_channels m)\<rparr>"
  have step: "channel_ok cid ?c \<and> evolves c ?c \<and> committed ?c final \<and> descends ?c final" if "channel_ok cid c"
  proof -
    have eq: "?c = step_channel final (cs_nonce final > ch_nonce c) (Some final) (ch_closing_started c) (ch_status c) c"
      by (cases c) (simp add: step_channel_def apply_state_def)
    have v: "committed c final" "authorised c final"
      using validate_state_committed[OF _ wf, of m c "Some (ch_nonce c)" False] 1(3) by simp_all
    have "validate_state m c final (Some (cs_nonce (ch_latest c))) False = Inr u" using 1(3) that by (simp add: channel_ok_def)
    from validate_state_newer[OF this wf]
    have newer: "\<exists>t. (t = ch_latest c \<or> ch_closing c = Some t) \<and> cs_nonce t \<le> cs_nonce final" by blast
    have "channel_ok cid ?c \<and> evolves c ?c"
      unfolding eq by (rule step_channel_ok) (use that v newer in \<open>auto simp: channel_ok_def\<close>)
    moreover have "descends ?c final" by (auto simp: descends_def)
    ultimately show ?thesis using v(1) committed_terms[of c ?c] by (auto simp: evolves_def)
  qed
  have "guarded m (snd (seqM (put_channel cid ?c) (retM ()) m))"
    by (rule commit_channel[OF 1(1) mgr.ret]) (use step in blast)
  then have put: "with_supply guarded (m, db) (?m, db)"
    by (simp add: put_channel_def sem_defs with_supply_guarded supply_refl)
  have settle: "with_supply guarded (?m, db) (snd (settle_channel cid ?c final b (?m, db)))" if "manager_ok m"
  proof -
    have "committed ?c final \<and> descends ?c final" using step channel_at[OF that 1(1)] by simp
    then show ?thesis by (intro at_settle) (use 1(2) in \<open>simp_all add: dict_simps apply_state_def\<close>)
  qed
  have "seqM (on_manager (put_channel cid ?c)) (settle_channel cid ?c final b) (m, db) = settle_channel cid ?c final b (?m, db)"
    by (simp add: put_channel_def sem_defs on_manager_def)
  with settles.trans[OF put settle] show ?case by (cases "manager_ok m") (simp_all add: with_supply_vacuous)
qed

lemma keeps_finalize_channel: "upholds (with_supply guarded) (finalize_channel cid b)"
  unfolding finalize_channel_def
proof (rule with_channel_settling, rule settles.at_guard, goal_cases)
  case (1 c m db)
  show ?case
  proof (cases "ch_status c = ChannelClosing \<and> ch_closing c \<noteq> None \<and> ch_closing_started c \<noteq> None")
    case True
    then obtain closing started where cl: "ch_status c = ChannelClosing" "ch_closing c = Some closing"
      "ch_closing_started c = Some started" by auto
    show ?thesis
      by (simp only: cl simp_thms prod.case bool.case option.case)
        (intro settles.at_guard at_settle 1(1), use cl in \<open>auto simp: channel_ok_def descends_def\<close>)
  next
    case False
    then show ?thesis by (auto simp: sem_defs settles.refl split: option.splits bool.splits)
  qed
qed

lemma publish_opens: "upholds opens (publish c)"
  by (simp add: upholds_def opens_def manager_ok_def publish_fields)

lemma put_opens:
  assumes "manager_ok m \<Longrightarrow> just_opened cid c"
  shows "opens m (m\<lparr>mg_channels := dict_put cid c (mg_channels m)\<rparr>)"
proof -
  let ?m = "m\<lparr>mg_channels := dict_put cid c (mg_channels m)\<rparr>"
  have "manager_ok ?m" if "manager_ok m"
    using that assms by (auto simp: manager_ok_def dict_set_put just_opened_def)
  moreover have "\<exists>c'. dict_get (mg_channels ?m) i = Some c' \<and> (c' = d \<or> just_opened i c')"
    if "manager_ok m" "dict_get (mg_channels m) i = Some d" for i d
    using that assms by (cases "i = cid") (simp_all add: dict_simps del: map_of_eq_Some_iff)
  ultimately show ?thesis unfolding opens_def by blast
qed

lemma mk_channel_Inr:
  assumes "mk_channel cid (PartyAddr a, PartyAddr b) bals nonce root ob dw escrow (Some s) mh fb fp = Inr c"
  shows "c = \<lparr>ch_id = cid, ch_participants = ordered_pair a b, ch_balances = ch_balances c, ch_nonce = nonce, ch_root = root,
      ch_open_block = ob, ch_dispute_window = dw, ch_status = ChannelOpen, ch_escrow = escrow, ch_latest = s,
      ch_closing = None, ch_closing_started = None, ch_max_htlcs = mh, ch_fee_base = fb, ch_fee_ppm = fp\<rparr>"
    and "a \<noteq> b" "normalize_balances bals = Inr (ch_balances c)" "map fst (ch_balances c) = ch_members c" "cs_root s = root"
  using assms by (auto simp: mk_channel_def normalize_address_def split: if_splits)

lemma balance_sum_sort: "balance_sum (sort_key f d) = balance_sum d"
proof (induction d)
  case (Cons e d)
  have "balance_sum (insort_key f x xs) = snd x + balance_sum xs" for x xs
    by (induction xs) (simp_all add: balance_sum_def)
  with Cons show ?case by (simp add: balance_sum_def)
qed simp

lemma opened_channel:
  assumes state: "mk_channel_state cid 0 (as_parties bals) [] None [] = Inr s"
    and ch: "mk_channel cid (PartyAddr a, PartyAddr b) (as_parties bals) 0 (cs_root s) ob dw
      (Some (escrow_address cid)) (Some s) mh fb fp = Inr c"
    and bals: "dict_wf bals" "\<forall>e \<in> set bals. 0 \<le> snd e" "0 < balance_sum bals" and dw: "0 < dw"
  shows "just_opened cid c"
proof -
  note s = mk_channel_state_Inr[OF state]
  note c = mk_channel_Inr[OF ch]
  have same: "ch_balances c = cs_balances s" using s(4) c(3) by simp
  have norm: "ch_balances c = sort_key (\<lambda>e. addr_hex (fst e)) bals"
    using c(3) normalize_entries_as_parties[of "[]" bals] bals by (simp add: normalize_balances_def)
  have parts: "ch_id c = cid" "ch_participants c = ordered_pair a b" "ch_nonce c = 0" "ch_root c = cs_root s"
    "ch_dispute_window c = dw" "ch_status c = ChannelOpen" "ch_escrow c = Some (escrow_address cid)" "ch_latest c = s"
    "ch_closing c = None"
    by (subst c(1), simp)+
  have none: "cs_htlcs s = []" using s(5) by simp
  have "\<exists>x. dict_get (cs_balances s) p = Some x \<and> 0 \<le> x" if "p \<in> set (ch_members c)" for p
  proof -
    have "p \<in> fst ` set (cs_balances s)" using that c(4) same by (metis image_set)
    then obtain x where "dict_get (cs_balances s) p = Some x" by (auto dest: weak_map_of_SomeI)
    with s(1) show ?thesis by (auto simp: state_wf_def balances_ok_def)
  qed
  then have "htlcs_ok c s" by (simp add: htlcs_ok_def none)
  then have "committed c s"
    using s c(4) parts same none by (simp add: committed_def total_capacity_def total_state_balance_def)
  moreover have "fst (ch_participants c) \<noteq> snd (ch_participants c)"
    using c(2) parts(2) by (simp add: ordered_pair_def)
  ultimately have "channel_ok cid c" using parts same s by (simp add: channel_ok_def)
  moreover have "0 < total_capacity c" using bals(3) by (simp add: total_capacity_def norm balance_sum_sort)
  ultimately show ?thesis using parts dw none by (simp add: just_opened_def active_htlcs_def)
qed

lemma keeps_founding_manager: "upholds opens f \<Longrightarrow> upholds (with_supply opens) (on_manager f)"
  by (auto simp: upholds_def with_supply_def on_manager_run supply_refl opens_def)

lemma keeps_next_channel_id: "upholds opens (next_channel_id p b h)"
  by (auto simp: upholds_def next_channel_id_def sem_defs opens_def manager_ok_def split: option.splits)

lemma keeps_deposit_all:
  assumes "\<forall>e \<in> set bals. 0 \<le> snd e"
  shows "upholds (with_supply opens) (deposit_all escrow bals)"
  unfolding upholds_def
proof
  fix s :: "manager \<times> statedb"
  obtain m db where s: "s = (m, db)" by (cases s)
  obtain r m' db' where run: "deposit_all escrow bals (m, db) = (r, (m', db'))" by (metis prod.exhaust)
  show "with_supply opens s (snd (deposit_all escrow bals s))"
    using deposit_all_run[OF assms run] by (simp add: s run with_supply_def ops.refl)
qed

lemma keeps_open_channel: "upholds (with_supply opens) (open_channel participants deposits dw b fb fp hint)"
proof -
  have final: "upholds (with_supply opens) (seqM (on_manager (seqM (put_channel cid c) (publish c))) (retM c))"
    if "just_opened cid c" for cid c
  proof (intro founding.seq founding.ret keeps_founding_manager ops.seq publish_opens)
    show "upholds opens (put_channel cid c :: unit managing)"
      using put_opens[OF that] by (simp add: upholds_def put_channel_def sem_defs)
  qed
  have nonneg: "\<forall>e \<in> set d. 0 \<le> snd e" if "\<forall>(p, amount) \<in> set d. \<not> amount < 0" for d :: balances
    using that by fastforce
  have check: "upholds (with_supply opens) (bindM (getM snd) (\<lambda>db. guardM (P db) e))" for P e
    by (intro founding.bind_all founding.get founding.guard)
  show ?thesis
    unfolding open_channel_def Let_def
    by (intro founding.lifted founding.guarded_by founding.seq[OF check] founding.bind_all
        keeps_founding_manager keeps_next_channel_id founding.seq[OF keeps_deposit_all] ops.get final
        opened_channel nonneg) (assumption | simp)+
qed

section \<open>Settlement, exactly\<close>

lemma balance_sum_nonneg: "\<forall>e \<in> set bals. 0 \<le> snd e \<Longrightarrow> 0 \<le> balance_sum bals"
  unfolding balance_sum_def by (rule sum_list_nonneg) auto

lemma pay_out_exact:
  assumes "db_wf db" "total_balance db < 2 ^ 256" "dict_wf bals" "\<forall>e \<in> set bals. 0 \<le> snd e"
    "escrow \<notin> fst ` set bals" "balance_sum bals \<le> get_balance db escrow"
  shows "\<exists>db'. pay_out escrow bals (m, db) = (Inr (), (m, db')) \<and> db_wf db' \<and> total_balance db' = total_balance db
    \<and> (\<forall>a. get_balance db' a = get_balance db a - (if a = escrow then balance_sum bals else 0)
          + (case dict_get bals a of None \<Rightarrow> 0 | Some x \<Rightarrow> x))"
  using assms
proof (induction bals arbitrary: db)
  case Nil
  then show ?case by (auto simp: sem_defs balance_sum_def)
next
  case (Cons e rest)
  obtain p x where e: "e = (p, x)" by (cases e)
  obtain ok db1 where t: "transfer escrow p x db = (ok, db1)" by (cases "transfer escrow p x db")
  have x: "0 \<le> x" "escrow \<noteq> p" "\<forall>e \<in> set rest. 0 \<le> snd e" using Cons.prems(4,5) by (auto simp: e)
  have "x \<le> get_balance db escrow"
    using Cons.prems(6) balance_sum_nonneg[OF x(3)] by (simp add: e balance_sum_def)
  then have ok: "ok" using transfer_ok_iff[OF x(1), of escrow p db] t by simp
  note moved = transfer_moves[OF Cons.prems(1) x(1,2) Cons.prems(2), of db1]
  have t': "transfer escrow p x db = (True, db1)" using t ok by simp
  have wf: "db_wf db1" "total_balance db1 = total_balance db"
    using db_wf_transfer[OF Cons.prems(1), of escrow p x] total_balance_transfer[OF Cons.prems(1) x(1) Cons.prems(2), of escrow p] t
    by simp_all
  have "balance_sum rest \<le> get_balance db1 escrow"
    using Cons.prems(6) moved[OF t', of escrow] x(2) by (simp add: e balance_sum_def)
  then obtain db' where db': "pay_out escrow rest (m, db1) = (Inr (), (m, db'))" "db_wf db'" "total_balance db' = total_balance db1"
    and bal: "\<And>a. get_balance db' a = get_balance db1 a - (if a = escrow then balance_sum rest else 0)
          + (case dict_get rest a of None \<Rightarrow> 0 | Some x \<Rightarrow> x)"
    using Cons.IH[of db1] Cons.prems wf x by auto
  have "pay_out escrow (e # rest) (m, db) = (Inr (), (m, db'))" using t' db'(1) by (simp add: e)
  moreover have "get_balance db' a = get_balance db a - (if a = escrow then balance_sum (e # rest) else 0)
      + (case dict_get (e # rest) a of None \<Rightarrow> 0 | Some x \<Rightarrow> x)" for a
  proof -
    have "p \<notin> fst ` set rest" using Cons.prems(3) by (simp add: e)
    then have "dict_get rest p = None" by (simp add: map_of_eq_None_iff)
    then show ?thesis
      using bal[of a] moved[OF t', of a] x(2) by (auto simp: e balance_sum_def)
  qed
  ultimately show ?case using db'(2,3) wf(2) by auto
qed

lemma publish_returns:
  assumes "channel_ok cid c"
  shows "\<exists>m'. publish c m = (Inr (), m')"
proof -
  have "\<exists>b. available_balance c p = Inr b" if "p \<in> set (ch_members c)" for p
    using assms that by (auto simp: channel_ok_def committed_def htlcs_ok_def available_balance_def)
  then obtain b1 b2 where "available_balance c (fst (ch_participants c)) = Inr b1" "available_balance c (snd (ch_participants c)) = Inr b2"
    by fastforce
  then show ?thesis
    by (simp add: publish_def on_dht_def publish_channel_def edge_of_def available_balances_def sem_defs split: option.splits)
qed

lemma settle_channel_exact:
  assumes c: "channel_ok cid c" "committed c final" "ch_status c \<noteq> ChannelClosed"
    and db: "db_wf db" "total_balance db < 2 ^ 256" and apart: "escrow_address cid \<notin> set (ch_members c)"
  shows "if get_balance db (escrow_address cid) = total_capacity c
     then \<exists>m' db'. settle_channel cid c final b (m, db) = (Inr (settled final b c), (m', db'))
       \<and> dict_get (mg_channels m') cid = Some (settled final b c) \<and> total_balance db' = total_balance db \<and> db_wf db'
       \<and> (\<forall>a. get_balance db' a = (if a = escrow_address cid then 0 else get_balance db a)
             + (case dict_get (cs_balances final) a of None \<Rightarrow> 0 | Some x \<Rightarrow> x))
     else settle_channel cid c final b (m, db) = (Inl ChannelValidationError, (m, db))"
proof -
  let ?e = "escrow_address cid" and ?c = "settled final b c"
  have f: "ch_escrow c = Some ?e" "total_state_balance final = total_capacity c" "balances_ok (cs_balances final)"
    "map fst (cs_balances final) = ch_members c"
    using c by (auto simp: channel_ok_def committed_def state_wf_def)
  show ?thesis
  proof (cases "get_balance db ?e = total_capacity c")
    case True
    have "?e \<notin> fst ` set (cs_balances final)" using apart f(4) by (metis image_set)
    then obtain db' where pay: "pay_out ?e (cs_balances final) (m, db) = (Inr (), (m, db'))" "db_wf db'" "total_balance db' = total_balance db"
      and bal: "\<And>a. get_balance db' a = get_balance db a - (if a = ?e then balance_sum (cs_balances final) else 0)
          + (case dict_get (cs_balances final) a of None \<Rightarrow> 0 | Some x \<Rightarrow> x)"
      using pay_out_exact[OF db, of "cs_balances final" ?e m] f(2,3) True by (auto simp: balances_ok_def total_state_balance_def)
    let ?m = "m\<lparr>mg_channels := dict_put cid ?c (mg_channels m)\<rparr>"
    obtain m' where pub: "publish ?c ?m = (Inr (), m')" using publish_returns settled_ok[OF c] by blast
    have "dict_get (mg_channels m') cid = Some ?c" using publish_fields(1)[of ?c ?m] pub by (simp add: dict_simps)
    moreover have "settle_channel cid c final b (m, db) = (Inr ?c, (m', db'))"
      using True pay(1) pub f(1,2) by (simp add: settle_channel_def sem_defs on_manager_def put_channel_def Let_def)
    moreover have "get_balance db' a = (if a = ?e then 0 else get_balance db a)
             + (case dict_get (cs_balances final) a of None \<Rightarrow> 0 | Some x \<Rightarrow> x)" for a
      using bal[of a] True f(2) by (simp add: total_state_balance_def)
    ultimately show ?thesis using True pay(2,3) by auto
  next
    case False
    then show ?thesis using f(1,2) by (simp add: settle_channel_def sem_defs)
  qed
qed

end
