(* ===== verification/Phantom_Payments.thy ===== *)
theory Phantom_Payments
  imports Phantom_Safety
begin

text \<open>
  What a payment does to the channels of its route: locking adds one hash-locked transfer per hop with
  timelocks that fall towards the receiver, redeeming moves the amount of each hop and removes the
  transfer, refunding only removes it, and an exception in the middle leaves every channel and every
  payment as it was.
\<close>

lemma bindM_Inr: "bindM f g s = (Inr y, s') \<longleftrightarrow> (\<exists>x s1. f s = (Inr x, s1) \<and> g x s1 = (Inr y, s'))"
  by (auto simp: bindM_def split: prod.splits sum.splits)

lemma seqM_Inr: "seqM f g s = (Inr y, s') \<longleftrightarrow> (\<exists>s1. f s = (Inr (), s1) \<and> g s1 = (Inr y, s'))"
  by (simp add: seqM_def bindM_Inr)

lemma runs_simps:
  "modM f s = (Inr (), s1) \<longleftrightarrow> s1 = f s" "retM x s = (Inr y, s') \<longleftrightarrow> y = x \<and> s' = s"
  by (auto simp: sem_defs)

section \<open>A signed state of one channel\<close>

lemma normalize_entries_negative: "e \<in> set d \<Longrightarrow> snd e < 0 \<Longrightarrow> normalize_entries (as_parties d) n = Inl ValueError"
  by (induction d arbitrary: n) (auto simp: as_parties_def normalize_address_def)

lemma signed_state_effect:
  assumes run: "apply_signed_state hmac cid c bals htlcs m = (Inr (), m')" and bals: "dict_wf bals"
    and at: "dict_get (mg_channels m) cid = Some c"
  shows "\<exists>c'. mg_channels m' = dict_put cid c' (mg_channels m) \<and> mg_payments m' = mg_payments m
    \<and> dict_get (ch_balances c') = dict_get bals \<and> active_htlcs c' = sort_key hl_id htlcs
    \<and> ch_nonce c' = ch_nonce c + 1 \<and> authorised c' (ch_latest c') \<and> same_terms c c' \<and> ch_status c' = ch_status c
    \<and> mg_base_timelock m' = mg_base_timelock m \<and> mg_timelock_delta m' = mg_timelock_delta m"
proof -
  obtain s s' where s: "mk_channel_state (ch_id c) (ch_nonce c + 1) (as_parties bals) htlcs None [] = Inr s"
    and s': "sign_for hmac (mg_keys m) (ch_members c) s = Inr s'"
    and v: "validate_state m c s' (Some (ch_nonce c)) True = Inr ()"
    and m': "m' = snd (publish (apply_state s' c) (m\<lparr>mg_channels := dict_put cid (apply_state s' c) (mg_channels m)\<rparr>))"
    using run by (auto simp: apply_signed_state_def sem_defs sign_state_def put_channel_def Let_def split: sum.splits prod.splits)
  let ?c = "apply_state s' c"
  note s_fields = mk_channel_state_Inr[OF s]
  obtain sigs where sigs: "s' = s\<lparr>cs_signatures := sigs\<rparr>" and wf: "state_wf s'"
    using sign_for_fields[OF s' s_fields(1)] by blast
  have nonneg: "\<forall>e \<in> set bals. 0 \<le> snd e"
  proof (rule ccontr)
    assume "\<not> ?thesis"
    then obtain e where "e \<in> set bals" "snd e < 0" by (auto simp: not_le)
    then show False using s_fields(4) by (simp add: normalize_balances_def normalize_entries_negative)
  qed
  have "cs_balances s = sort_key (\<lambda>e. addr_hex (fst e)) bals"
    using s_fields(4) normalize_entries_as_parties[of "[]" bals] bals nonneg by (simp add: normalize_balances_def)
  moreover have "dict_get (sort_key f bals) = dict_get bals" for f :: "address \<times> int \<Rightarrow> string"
    using bals by (intro map_of_eqI) (auto simp: distinct_map)
  moreover have "authorised c s'" "committed c s'" using validate_state_committed[OF v wf] by simp_all
  moreover have terms: "same_terms c ?c"
    using validate_state_committed(1)[OF v wf]
    by (auto simp: same_terms_def apply_state_def committed_def total_capacity_def total_state_balance_def)
  ultimately show ?thesis
    using s_fields sigs authorised_terms[OF terms] publish_fields
    by (intro exI[of _ ?c]) (simp add: m' apply_state_def active_htlcs_def)
qed

text \<open>What one hop does to its channel.\<close>

definition locks :: "htlc \<Rightarrow> channel \<Rightarrow> channel \<Rightarrow> bool" where
  "locks h c c' \<longleftrightarrow> ch_status c = ChannelOpen \<and> ch_nonce c' = ch_nonce c + 1 \<and> authorised c' (ch_latest c')
     \<and> dict_get (ch_balances c') = dict_get (ch_balances c) \<and> set (active_htlcs c') = insert h (set (active_htlcs c))"

definition claims_htlc :: "hash \<Rightarrow> int \<Rightarrow> channel \<Rightarrow> channel \<Rightarrow> bool" where
  "claims_htlc hashlock block c c' \<longleftrightarrow> ch_nonce c' = ch_nonce c + 1 \<and> authorised c' (ch_latest c')
     \<and> (\<exists>h x y. h \<in> set (active_htlcs c) \<and> hl_hashlock h = hashlock \<and> block \<le> hl_timelock h
          \<and> dict_get (ch_balances c) (hl_sender h) = Some x \<and> dict_get (ch_balances c) (hl_receiver h) = Some y
          \<and> dict_get (ch_balances c') = (dict_get (ch_balances c))(hl_sender h \<mapsto> x - hl_amount h, hl_receiver h \<mapsto> y + hl_amount h)
          \<and> active_htlcs c' = without_htlc (hl_id h) (active_htlcs c))"

definition refunds_htlc :: "hash \<Rightarrow> channel \<Rightarrow> channel \<Rightarrow> bool" where
  "refunds_htlc hashlock c c' \<longleftrightarrow> ch_nonce c' = ch_nonce c + 1 \<and> authorised c' (ch_latest c')
     \<and> dict_get (ch_balances c') = dict_get (ch_balances c)
     \<and> (\<exists>h \<in> set (active_htlcs c). hl_hashlock h = hashlock \<and> active_htlcs c' = without_htlc (hl_id h) (active_htlcs c))"

lemma channel_ok_facts:
  assumes "channel_ok cid c"
  shows "dict_wf (ch_balances c)" "sorted (map hl_id (active_htlcs c))"
    "h \<in> set (active_htlcs c) \<Longrightarrow> hl_sender h \<noteq> hl_receiver h"
  using assms by (auto simp: channel_ok_def committed_def state_wf_def balances_ok_def active_htlcs_def htlcs_ok_def)

lemma sorted_without: "sorted (map hl_id hs) \<Longrightarrow> sort_key hl_id (without_htlc i hs) = without_htlc i hs"
  by (simp add: without_htlc_def sort_key_id_if_sorted sorted_filter)

lemma find_matching_htlc_Inr:
  "find_matching_htlc c hl = Inr h \<Longrightarrow> h \<in> set (active_htlcs c) \<and> hl_hashlock h = hl"
  by (auto simp: find_matching_htlc_def find_Some_iff split: option.splits)

lemma lock_effect:
  assumes "apply_htlc_add hmac cid c h m = (Inr (), m')" "dict_get (mg_channels m) cid = Some c" "channel_ok cid c"
  shows "\<exists>c'. mg_channels m' = dict_put cid c' (mg_channels m) \<and> mg_payments m' = mg_payments m \<and> locks h c c'
    \<and> mg_base_timelock m' = mg_base_timelock m \<and> mg_timelock_delta m' = mg_timelock_delta m"
proof -
  have open_: "ch_status c = ChannelOpen"
    and run: "apply_signed_state hmac cid c (ch_balances c) (active_htlcs c @ [h]) m = (Inr (), m')"
    using assms(1) by (auto simp: apply_htlc_add_def sem_defs split: sum.splits if_splits)
  from signed_state_effect[OF run channel_ok_facts(1)[OF assms(3)] assms(2)] open_ show ?thesis
    by (auto simp: locks_def)
qed

lemma claim_effect:
  assumes "apply_htlc_claim hmac cid c hl b m = (Inr (), m')" "dict_get (mg_channels m) cid = Some c" "channel_ok cid c"
  shows "\<exists>c'. mg_channels m' = dict_put cid c' (mg_channels m) \<and> mg_payments m' = mg_payments m \<and> claims_htlc hl b c c'"
proof -
  obtain h bals where h: "find_matching_htlc c hl = Inr h" "b \<le> hl_timelock h"
    and bals: "bindR (bump (hl_sender h) (- hl_amount h) (ch_balances c)) (bump (hl_receiver h) (hl_amount h)) = Inr bals"
    and run: "apply_signed_state hmac cid c bals (without_htlc (hl_id h) (active_htlcs c)) m = (Inr (), m')"
    using assms(1) by (auto simp: apply_htlc_claim_def sem_defs split: sum.splits if_splits)
  note hf = find_matching_htlc_Inr[OF h(1)]
  have ne: "hl_sender h \<noteq> hl_receiver h" using channel_ok_facts(3)[OF assms(3)] hf by blast
  obtain x y where xy: "dict_get (ch_balances c) (hl_sender h) = Some x" "dict_get (ch_balances c) (hl_receiver h) = Some y"
    and b: "bals = dict_put (hl_receiver h) (y + hl_amount h) (dict_put (hl_sender h) (x - hl_amount h) (ch_balances c))"
    using bals ne by (auto simp: bump_def dict_simps split: option.splits)
  have "dict_wf bals" using channel_ok_facts(1)[OF assms(3)] by (simp add: b)
  from signed_state_effect[OF run this assms(2)] xy hf h(2) sorted_without[OF channel_ok_facts(2)[OF assms(3)]]
  show ?thesis by (fastforce simp: claims_htlc_def b dict_simps)
qed

lemma refund_effect:
  assumes "apply_htlc_refund hmac cid c hl b casc m = (Inr (), m')" "dict_get (mg_channels m) cid = Some c" "channel_ok cid c"
  shows "\<exists>c'. mg_channels m' = dict_put cid c' (mg_channels m) \<and> mg_payments m' = mg_payments m \<and> refunds_htlc hl c c'"
proof -
  obtain h where h: "find_matching_htlc c hl = Inr h"
    and run: "apply_signed_state hmac cid c (ch_balances c) (without_htlc (hl_id h) (active_htlcs c)) m = (Inr (), m')"
    using assms(1) by (auto simp: apply_htlc_refund_def sem_defs split: sum.splits if_splits)
  from signed_state_effect[OF run channel_ok_facts(1)[OF assms(3)] assms(2)] find_matching_htlc_Inr[OF h]
    sorted_without[OF channel_ok_facts(2)[OF assms(3)]]
  show ?thesis by (fastforce simp: refunds_htlc_def)
qed

section \<open>All hops of a route\<close>

text \<open>An action on one channel with a known effect, and its run over the hops of a route.\<close>

locale hop_action =
  fixes f :: "string \<Rightarrow> channel \<Rightarrow> unit managing" and P :: "channel \<Rightarrow> channel \<Rightarrow> bool"
  assumes effect: "f cid c m = (Inr (), m') \<Longrightarrow> dict_get (mg_channels m) cid = Some c \<Longrightarrow> channel_ok cid c
      \<Longrightarrow> \<exists>c'. mg_channels m' = dict_put cid c' (mg_channels m) \<and> mg_payments m' = mg_payments m \<and> P c c'"
    and kept: "dict_get (mg_channels m) cid = Some c \<Longrightarrow> guarded m (snd (f cid c m))"
begin

lemma all_hops:
  "over_hops f hops m = (Inr (), m') \<Longrightarrow> manager_ok m \<Longrightarrow> distinct (map hop_channel_id hops) \<Longrightarrow>
    mg_payments m' = mg_payments m
    \<and> (\<forall>cid. cid \<notin> set (map hop_channel_id hops) \<longrightarrow> dict_get (mg_channels m') cid = dict_get (mg_channels m) cid)
    \<and> (\<forall>cid \<in> set (map hop_channel_id hops). \<exists>c c'. dict_get (mg_channels m) cid = Some c
         \<and> dict_get (mg_channels m') cid = Some c' \<and> P c c')"
proof (induction hops arbitrary: m)
  case (Cons hop hops)
  let ?i = "hop_channel_id hop" and ?ids = "set (map hop_channel_id hops)"
  from Cons.prems(1) obtain c m1 where c: "dict_get (mg_channels m) ?i = Some c" and f: "f ?i c m = (Inr (), m1)"
    and rest: "over_hops f hops m1 = (Inr (), m')"
    by (auto simp: sem_defs get_channel_def split: option.splits sum.splits prod.splits)
  obtain c' where c': "mg_channels m1 = dict_put ?i c' (mg_channels m)" "mg_payments m1 = mg_payments m" "P c c'"
    using effect[OF f c channel_at[OF Cons.prems(2) c]] by blast
  have lookup: "dict_get (mg_channels m1) cid = (if cid = ?i then Some c' else dict_get (mg_channels m) cid)" for cid
    by (simp add: c'(1) dict_simps)
  have new: "?i \<notin> ?ids" and rest_distinct: "distinct (map hop_channel_id hops)" using Cons.prems(3) by simp_all
  have "manager_ok m1" using kept[OF c] f Cons.prems(2) by (auto simp: guarded_def)
  note IH = Cons.IH[OF rest this rest_distinct]
  have same: "dict_get (mg_channels m') cid = (if cid = ?i then Some c' else dict_get (mg_channels m) cid)" if "cid \<notin> ?ids" for cid
    using IH that lookup by simp
  have "\<exists>d d'. dict_get (mg_channels m) cid = Some d \<and> dict_get (mg_channels m') cid = Some d' \<and> P d d'"
    if mem: "cid \<in> ?ids" for cid
  proof -
    have "cid \<noteq> ?i" using mem new by blast
    then have "dict_get (mg_channels m1) cid = dict_get (mg_channels m) cid" by (simp add: lookup)
    moreover obtain d d' where "dict_get (mg_channels m1) cid = Some d" "dict_get (mg_channels m') cid = Some d'" "P d d'"
      using bspec[OF conjunct2[OF conjunct2[OF IH]] mem] by (elim exE conjE)
    ultimately show ?thesis by (intro exI[of _ d] exI[of _ d'] conjI) simp_all
  qed
  moreover have "dict_get (mg_channels m') ?i = Some c'" using same[OF new] by simp
  moreover have "mg_payments m' = mg_payments m" using IH c'(2) by simp
  moreover have "dict_get (mg_channels m') cid = dict_get (mg_channels m) cid" if "cid \<notin> insert ?i ?ids" for cid
    using same[of cid] that by simp
  ultimately show ?case using c c'(3) by simp
qed (simp add: sem_defs)

end

interpretation claiming: hop_action "\<lambda>cid c. apply_htlc_claim hmac cid c hl b" "claims_htlc hl b" for hmac hl b
  by unfold_locales (rule claim_effect, assumption+, rule at_htlc_claim)

interpretation refunding: hop_action "\<lambda>cid c. apply_htlc_refund hmac cid c hl b casc" "refunds_htlc hl" for hmac hl b casc
  by unfold_locales (rule refund_effect, assumption+, rule at_htlc_refund)

section \<open>Locking the hops of a new payment\<close>

primrec timed_hops :: "int \<Rightarrow> int \<Rightarrow> int \<Rightarrow> route_hop list \<Rightarrow> route_hop list" where
  "timed_hops base delta block [] = []"
| "timed_hops base delta block (hop # hops) =
     hop\<lparr>hop_timelock := block + base + int (length hops) * delta\<rparr> # timed_hops base delta block hops"

definition hop_htlc :: "string \<Rightarrow> hash \<Rightarrow> route_hop \<Rightarrow> htlc" where
  "hop_htlc payment_id hashlock hop =
     \<lparr>hl_id = payment_htlc_id payment_id hop hashlock, hl_hashlock = hashlock, hl_timelock = hop_timelock hop,
      hl_amount = hop_amount hop, hl_sender = hop_sender hop, hl_receiver = hop_receiver hop, hl_fee = hop_fee hop,
      hl_status = HtlcPending\<rparr>"

lemma timed_hops_ids [simp]: "map hop_channel_id (timed_hops base delta block hops) = map hop_channel_id hops"
  by (induction hops) auto

lemma hop_htlc_timelock:
  "hop_htlc pid h (hop\<lparr>hop_timelock := t\<rparr>) = \<lparr>hl_id = payment_htlc_id pid hop h, hl_hashlock = h, hl_timelock = t,
      hl_amount = hop_amount hop, hl_sender = hop_sender hop, hl_receiver = hop_receiver hop, hl_fee = hop_fee hop,
      hl_status = HtlcPending\<rparr>"
  by (simp add: hop_htlc_def payment_htlc_id_def)

definition locked_on :: "string \<Rightarrow> hash \<Rightarrow> manager \<Rightarrow> manager \<Rightarrow> route_hop \<Rightarrow> bool" where
  "locked_on pid h m m' hop \<longleftrightarrow>
     (\<exists>c c'. dict_get (mg_channels m) (hop_channel_id hop) = Some c
        \<and> dict_get (mg_channels m') (hop_channel_id hop) = Some c' \<and> locks (hop_htlc pid h hop) c c')"

lemma lock_hops_Cons:
  assumes "lock_hops hmac pid h b (hop # hops) m = (Inr (timed, ids), m')"
  defines "hop' \<equiv> hop\<lparr>hop_timelock := b + mg_base_timelock m + int (length hops) * mg_timelock_delta m\<rparr>"
  obtains c m1 timed' ids' where "dict_get (mg_channels m) (hop_channel_id hop) = Some c"
    "apply_htlc_add hmac (hop_channel_id hop) c (hop_htlc pid h hop') m = (Inr (), m1)"
    "lock_hops hmac pid h b hops m1 = (Inr (timed', ids'), m')" "timed = hop' # timed'"
    "ids = payment_htlc_id pid hop h # ids'" "hop_timelock hop' - b \<le> mg_max_horizon m" "0 < hop_amount hop"
  using assms(1)
  by (auto simp: sem_defs Let_def get_channel_def mk_htlc_def hop'_def hop_htlc_timelock that
      split: option.splits sum.splits prod.splits if_splits)

lemma lock_hops_effect:
  "lock_hops hmac pid h b hops m = (Inr (timed, ids), m') \<Longrightarrow> manager_ok m \<Longrightarrow> distinct (map hop_channel_id hops) \<Longrightarrow>
     timed = timed_hops (mg_base_timelock m) (mg_timelock_delta m) b hops
     \<and> ids = map (\<lambda>hop. payment_htlc_id pid hop h) hops \<and> mg_payments m' = mg_payments m
     \<and> (\<forall>cid. cid \<notin> set (map hop_channel_id hops) \<longrightarrow> dict_get (mg_channels m') cid = dict_get (mg_channels m) cid)
     \<and> (\<forall>hop \<in> set timed. locked_on pid h m m' hop)"
proof (induction hops arbitrary: m timed ids)
  case (Cons hop hops)
  let ?i = "hop_channel_id hop"
  let ?hop = "hop\<lparr>hop_timelock := b + mg_base_timelock m + int (length hops) * mg_timelock_delta m\<rparr>"
  obtain c m1 timed' ids' where c: "dict_get (mg_channels m) ?i = Some c"
    and add: "apply_htlc_add hmac ?i c (hop_htlc pid h ?hop) m = (Inr (), m1)"
    and rest: "lock_hops hmac pid h b hops m1 = (Inr (timed', ids'), m')"
    and out: "timed = ?hop # timed'" "ids = payment_htlc_id pid hop h # ids'"
    using lock_hops_Cons[OF Cons.prems(1)] by metis
  obtain c' where c': "mg_channels m1 = dict_put ?i c' (mg_channels m)" "mg_payments m1 = mg_payments m"
    "locks (hop_htlc pid h ?hop) c c'" "mg_base_timelock m1 = mg_base_timelock m" "mg_timelock_delta m1 = mg_timelock_delta m"
    using lock_effect[OF add c channel_at[OF Cons.prems(2) c]] by blast
  have ok: "manager_ok m1" using at_htlc_add[OF c, of hmac "hop_htlc pid h ?hop"] add Cons.prems(2) by (auto simp: guarded_def)
  have new: "?i \<notin> set (map hop_channel_id hops)" and dist: "distinct (map hop_channel_id hops)" using Cons.prems(3) by simp_all
  note IH = Cons.IH[OF rest ok dist]
  have lookup: "dict_get (mg_channels m1) cid = (if cid = ?i then Some c' else dict_get (mg_channels m) cid)" for cid
    by (simp add: c'(1) dict_simps)
  have first: "locked_on pid h m m' ?hop"
    using c c'(3) IH new lookup[of ?i] by (simp add: locked_on_def)
  have others: "locked_on pid h m m' g" if g: "g \<in> set timed'" for g
  proof -
    have "hop_channel_id g \<in> set (map hop_channel_id timed')" using g by simp
    also have "map hop_channel_id timed' = map hop_channel_id hops" using IH by simp
    finally have "hop_channel_id g \<noteq> ?i" using new by metis
    then have "dict_get (mg_channels m1) (hop_channel_id g) = dict_get (mg_channels m) (hop_channel_id g)" by (simp add: lookup)
    moreover have "locked_on pid h m1 m' g" using IH g by blast
    ultimately show ?thesis by (simp add: locked_on_def)
  qed
  have frame: "dict_get (mg_channels m') cid = dict_get (mg_channels m) cid" if "cid \<notin> insert ?i (set (map hop_channel_id hops))" for cid
    using IH that lookup[of cid] by simp
  show ?case using IH c'(2,4,5) out first others frame by simp
qed (simp add: sem_defs)

end
