(* ===== verification/Phantom_Props.thy ===== *)
theory Phantom_Props
  imports Phantom_Payments
begin

text \<open>
  The properties of the payment channels: the invariant of every manager that can be reached by calls,
  what one call may do to a channel, what a finalised dispute pays, that payments lock, move and free
  their transfers on all hops or on none, what the root of a state commits to, and the soundness of
  the route search.
\<close>

section \<open>Calls of the manager\<close>

datatype channel_call =
    OpenCall "party \<times> party" "(party, int) dict" int int int "string option"
  | UpdateCall string channel_state
  | CloseCall string channel_state
  | ChallengeCall string channel_state
  | NewerCall string channel_state
  | FinalizeCall string
  | ProofCall string channel_state zk_json
  | InitiateCall address address int bytes
  | RedeemCall bytes
  | RefundCall string
  | ExpireCall
  | RegisterCall int
  | OperationCall operation address

definition forget :: "('s, 'e, 'a) sem \<Rightarrow> ('s, 'e, unit) sem" where
  "forget f = bindM f (\<lambda>_. retM ())"

definition run_channel_call :: "keyed_hash \<Rightarrow> update_verifier \<Rightarrow> int \<Rightarrow> channel_call \<Rightarrow> unit settling" where
  "run_channel_call hmac verify block call =
     (case call of
        OpenCall participants deposits dw fb fp hint \<Rightarrow> forget (open_channel participants deposits dw block fb fp hint)
      | UpdateCall cid s \<Rightarrow> forget (on_manager (update_state cid s))
      | CloseCall cid s \<Rightarrow> forget (close_channel cid s block)
      | ChallengeCall cid s \<Rightarrow> forget (on_manager (challenge_close cid s block))
      | NewerCall cid s \<Rightarrow> forget (on_manager (submit_newer_state cid s block))
      | FinalizeCall cid \<Rightarrow> forget (finalize_channel cid block)
      | ProofCall cid s proof \<Rightarrow> forget (on_manager (submit_state_with_proof verify cid s proof))
      | InitiateCall a b n secret \<Rightarrow> forget (on_manager (initiate_payment hmac a b n block secret))
      | RedeemCall secret \<Rightarrow> forget (on_manager (redeem_payment hmac secret block))
      | RefundCall pid \<Rightarrow> forget (on_manager (refund_payment hmac pid block))
      | ExpireCall \<Rightarrow> forget (on_manager (expire_payments hmac block))
      | RegisterCall k \<Rightarrow> forget (on_manager (register_signing_key k))
      | OperationCall x sender \<Rightarrow> forget (apply_operation verify x block sender))"

fun operation_states :: "operation \<Rightarrow> channel_state list" where
  "operation_states (CloseOp _ s) = [s]"
| "operation_states (ChallengeOp _ s) = [s]"
| "operation_states (ProofOp _ s _) = [s]"
| "operation_states (OpenOp _) = []"
| "operation_states (FinalizeOp _) = []"

fun call_states :: "channel_call \<Rightarrow> channel_state list" where
  "call_states (UpdateCall _ s) = [s]"
| "call_states (CloseCall _ s) = [s]"
| "call_states (ChallengeCall _ s) = [s]"
| "call_states (NewerCall _ s) = [s]"
| "call_states (ProofCall _ s _) = [s]"
| "call_states (OperationCall x _) = operation_states x"
| "call_states _ = []"

text \<open>The states handed to a call are \<open>ChannelState\<close> objects, which their constructor has validated.\<close>

definition call_wf :: "channel_call \<Rightarrow> bool" where
  "call_wf call \<longleftrightarrow> (\<forall>s \<in> set (call_states call). state_wf s)"

text \<open>The managers that calls reach, with the chain state beside them; a call may raise.\<close>

inductive reached :: "keyed_hash \<Rightarrow> update_verifier \<Rightarrow> manager \<times> statedb \<Rightarrow> manager \<times> statedb \<Rightarrow> bool"
  for hmac verify start where
  reached_start: "reached hmac verify start start"
| reached_call: "\<lbrakk>reached hmac verify start s; call_wf call; run_channel_call hmac verify block call s = (r, s')\<rbrakk>
    \<Longrightarrow> reached hmac verify start s'"

inductive_cases reached_cases: "reached hmac verify start s"

section \<open>One call\<close>

lemma run_forget: "snd (forget f s) = snd (f s)"
  by (cases "f s"; cases "fst (f s)") (simp_all add: forget_def sem_defs)

lemma keeps_forget: "upholds R f \<Longrightarrow> upholds R (forget f)"
  by (simp add: upholds_def run_forget)

lemma keeps_register: "upholds guarded (register_signing_key k)"
  by (auto simp: upholds_def register_signing_key_def sem_defs on_dht_def guarded_same mgr.refl
      split: sum.splits option.splits prod.splits)

lemma keeps_require_member: "upholds (with_supply guarded) (require_member sender cid)"
  unfolding require_member_def
  by (intro settles.bind_all keeps_on_manager keeps_get_channel settles.guard)

lemmas keeps_updates = keeps_update_state keeps_challenge_close keeps_submit_newer_state keeps_submit_state_with_proof
lemmas keeps_payments = keeps_initiate_payment keeps_redeem_payment keeps_refund_payment keeps_expire_payments keeps_register

definition may_open :: "channel_call \<Rightarrow> bool" where
  "may_open call \<longleftrightarrow> (case call of OpenCall _ _ _ _ _ _ \<Rightarrow> True | OperationCall (OpenOp _) _ \<Rightarrow> True | _ \<Rightarrow> False)"

lemma keeps_operation:
  assumes "\<forall>s \<in> set (operation_states x). state_wf s" "\<nexists>q. x = OpenOp q"
  shows "upholds (with_supply guarded) (apply_operation verify x block sender)"
  using assms unfolding apply_operation_def
  by (cases x) (auto intro!: settles.seq keeps_require_member keeps_on_manager keeps_updates
      intro: keeps_close_channel keeps_finalize_channel)

lemma keeps_open_operation: "upholds (with_supply opens) (apply_operation verify (OpenOp q) block sender)"
proof -
  have "upholds opens (\<lambda>m. liftR (local_approval m d sender ps) m)" for d ps
    by (rule ops.lift_reading)
  then show ?thesis
    unfolding apply_operation_def Let_def operation.case
    by (intro founding.bind_all founding.lift founding.seq founding.guard keeps_founding_manager keeps_open_channel)
qed

lemma channel_call_guarded:
  assumes "call_wf call" "\<not> may_open call"
  shows "upholds (with_supply guarded) (run_channel_call hmac verify block call)"
  using assms unfolding run_channel_call_def call_wf_def may_open_def
  by (cases call) (auto intro!: keeps_forget keeps_on_manager keeps_updates keeps_payments keeps_close_channel
      keeps_finalize_channel keeps_operation split: operation.splits)

lemma channel_call_opens: "may_open call \<Longrightarrow> upholds (with_supply opens) (run_channel_call hmac verify block call)"
  unfolding run_channel_call_def may_open_def
  by (cases call) (auto intro!: keeps_forget keeps_open_channel keeps_open_operation split: operation.splits)

lemma channel_call_effect:
  assumes "manager_ok m" "call_wf call" "run_channel_call hmac verify block call (m, db) = (r, (m', db'))"
  shows "manager_ok m' \<and> supply_kept db db' \<and>
    (\<forall>cid c. dict_get (mg_channels m) cid = Some c \<longrightarrow>
       (\<exists>c'. dict_get (mg_channels m') cid = Some c' \<and> (evolves c c' \<or> may_open call \<and> just_opened cid c')))"
proof (cases "may_open call")
  case True
  have "with_supply opens (m, db) (m', db')"
    using channel_call_opens[OF True, of hmac verify block, unfolded upholds_def, THEN spec, of "(m, db)"] assms(3) by simp
  with assms(1) True show ?thesis by (auto simp: with_supply_def opens_def intro: evolves_refl)
next
  case False
  have "with_supply guarded (m, db) (m', db')"
    using channel_call_guarded[OF assms(2) False, of hmac verify block, unfolded upholds_def, THEN spec, of "(m, db)"] assms(3)
    by simp
  with assms(1) show ?thesis by (auto simp: with_supply_def guarded_def)
qed

lemma reached_ok:
  "reached hmac verify start s \<Longrightarrow> manager_ok (fst start) \<Longrightarrow> manager_ok (fst s) \<and> supply_kept (snd start) (snd s)"
proof (induction rule: reached.induct)
  case (reached_call s call block r s')
  with channel_call_effect[of "fst s" call hmac verify block "snd s" r "fst s'" "snd s'"] show ?case
    by (auto intro: supply_trans)
qed (simp add: supply_refl)

lemma new_manager_ok: "manager_ok (new_manager a b c d e t)"
  by (simp add: new_manager_def manager_ok_def)

section \<open>The claims\<close>

text \<open>
  C12. From a new manager and any chain state, every sequence of calls, raising ones included, leads to
  a manager in which each channel has two distinct participants and the escrow of its identifier, its
  current balances are not negative, cover the amounts each participant has locked in pending
  transfers and are those of the latest state, whose root is the hash of its payload and which is
  either the opening state or signed by both participants; the state a dispute would settle pays out
  exactly the same total; and the balances on the chain add up to what they did.
\<close>

theorem reached_channels_valid:
  assumes "reached hmac verify (new_manager a b c d e t, db0) (m, db)"
  shows "(\<forall>cid ch. dict_get (mg_channels m) cid = Some ch \<longrightarrow>
      ch_id ch = cid \<and> fst (ch_participants ch) \<noteq> snd (ch_participants ch) \<and> ch_escrow ch = Some (escrow_address cid)
      \<and> ch_balances ch = cs_balances (ch_latest ch) \<and> map fst (ch_balances ch) = ch_members ch
      \<and> (\<forall>p \<in> set (ch_members ch). \<exists>x. dict_get (ch_balances ch) p = Some x \<and> 0 \<le> x \<and> locked_balance ch p \<le> x)
      \<and> ch_root ch = phantom_hash (JObj (state_payload (ch_latest ch)))
      \<and> (ensure_all_signatures ch (ch_latest ch) = Inr () \<or> ch_nonce ch = 0 \<and> active_htlcs ch = [])
      \<and> (\<forall>s. ch_closing ch = Some s \<longrightarrow> total_state_balance s = total_capacity ch \<and> map fst (cs_balances s) = ch_members ch))
    \<and> (db_wf db0 \<and> total_balance db0 < 2 ^ 256 \<longrightarrow> total_balance db = total_balance db0)"
proof -
  have ok: "manager_ok m" and money: "supply_kept db0 db"
    using reached_ok[OF assms] new_manager_ok by auto
  have "ch_id ch = cid \<and> fst (ch_participants ch) \<noteq> snd (ch_participants ch) \<and> ch_escrow ch = Some (escrow_address cid)
      \<and> ch_balances ch = cs_balances (ch_latest ch) \<and> map fst (ch_balances ch) = ch_members ch
      \<and> (\<forall>p \<in> set (ch_members ch). \<exists>x. dict_get (ch_balances ch) p = Some x \<and> 0 \<le> x \<and> locked_balance ch p \<le> x)
      \<and> ch_root ch = phantom_hash (JObj (state_payload (ch_latest ch)))
      \<and> (ensure_all_signatures ch (ch_latest ch) = Inr () \<or> ch_nonce ch = 0 \<and> active_htlcs ch = [])
      \<and> (\<forall>s. ch_closing ch = Some s \<longrightarrow> total_state_balance s = total_capacity ch \<and> map fst (cs_balances s) = ch_members ch)"
    if "dict_get (mg_channels m) cid = Some ch" for cid ch
  proof -
    have ch: "channel_ok cid ch" by (rule channel_at[OF ok that])
    then have latest: "committed ch (ch_latest ch)" by (simp add: channel_ok_def)
    then have "\<exists>x. dict_get (ch_balances ch) p = Some x \<and> 0 \<le> x \<and> locked_balance ch p \<le> x" if "p \<in> set (ch_members ch)" for p
      using that ch unfolding committed_def htlcs_ok_def state_wf_def balances_ok_def channel_ok_def locked_balance_def active_htlcs_def
      by (metis map_of_SomeD snd_conv)
    with ch latest show ?thesis
      by (auto simp: channel_ok_def committed_def state_wf_def authorised_def active_htlcs_def)
  qed
  moreover have "db_wf db0 \<and> total_balance db0 < 2 ^ 256 \<longrightarrow> total_balance db = total_balance db0"
    using money by (simp add: supply_kept_def)
  ultimately show ?thesis by blast
qed

text \<open>
  C35. What one call may do to a channel, whether it returns or raises. The channel stays, with its
  participants, escrow, fees, dispute window and capacity, and its status only moves forward. The state
  it then holds is the one it held, its closing state, or one that carries the signatures of all
  participants. Its nonce does not fall, except in a call that settles a channel in dispute: then it is at
  least the nonce of the closing state. A call that does not settle the channel leaves its state alone or
  raises its nonce with a state that all have signed. Only a call that opens a channel can put a new one
  in its place.
\<close>

theorem call_changes_channel:
  assumes "manager_ok m" "call_wf call" "run_channel_call hmac verify block call (m, db) = (r, (m', db'))"
    and "dict_get (mg_channels m) cid = Some ch"
  shows "\<exists>ch'. dict_get (mg_channels m') cid = Some ch' \<and>
    (ch_participants ch' = ch_participants ch \<and> ch_escrow ch' = ch_escrow ch
       \<and> ch_dispute_window ch' = ch_dispute_window ch \<and> ch_fee_base ch' = ch_fee_base ch \<and> ch_fee_ppm ch' = ch_fee_ppm ch
       \<and> total_capacity ch' = total_capacity ch \<and> status_rank (ch_status ch) \<le> status_rank (ch_status ch')
       \<and> (ch_latest ch' = ch_latest ch \<or> ch_closing ch = Some (ch_latest ch')
          \<or> ensure_all_signatures ch' (ch_latest ch') = Inr ())
       \<and> (ch_nonce ch \<le> ch_nonce ch'
          \<or> ch_status ch' = ChannelClosed \<and> ch_status ch \<noteq> ChannelClosed
            \<and> (\<exists>closing. ch_closing ch = Some closing \<and> cs_nonce closing \<le> ch_nonce ch'))
       \<and> (ch_status ch' = ChannelClosed \<and> ch_status ch \<noteq> ChannelClosed
          \<or> ch_latest ch' = ch_latest ch \<and> ch_nonce ch' = ch_nonce ch
          \<or> ch_nonce ch < ch_nonce ch' \<and> ensure_all_signatures ch' (ch_latest ch') = Inr ())
     \<or> may_open call \<and> just_opened cid ch')"
proof -
  obtain ch' where ch': "dict_get (mg_channels m') cid = Some ch'" "evolves ch ch' \<or> may_open call \<and> just_opened cid ch'"
    and "manager_ok m'"
    using channel_call_effect[OF assms(1-3)] assms(4) by blast
  then have nonces: "ch_nonce ch = cs_nonce (ch_latest ch)" "ch_nonce ch' = cs_nonce (ch_latest ch')"
    using channel_at[OF _ assms(4)] channel_at[OF _ ch'(1)] assms(1) by (simp_all add: channel_ok_def)
  have "ch_latest ch' = ch_latest ch \<or> ch_closing ch = Some (ch_latest ch') \<or> authorised ch' (ch_latest ch')"
    "\<exists>t. (t = ch_latest ch \<or> ch_closing ch = Some t) \<and> cs_nonce t \<le> cs_nonce (ch_latest ch')" if "evolves ch ch'"
    using that authorised_terms[of ch ch'] unfolding evolves_def descends_def by blast+
  note held = this
  have "ch_nonce ch \<le> ch_nonce ch' \<or> ch_status ch' = ChannelClosed \<and> ch_status ch \<noteq> ChannelClosed
      \<and> (\<exists>closing. ch_closing ch = Some closing \<and> cs_nonce closing \<le> ch_nonce ch')" if e: "evolves ch ch'"
  proof (cases "ch_nonce ch \<le> ch_nonce ch'")
    case False
    then have "ch_status ch' = ChannelClosed \<and> ch_status ch \<noteq> ChannelClosed" using e by (auto simp: evolves_def)
    moreover have "\<exists>closing. ch_closing ch = Some closing \<and> cs_nonce closing \<le> ch_nonce ch'"
      using held(2)[OF e] False unfolding nonces by blast
    ultimately show ?thesis by blast
  qed blast
  moreover have "ch_participants ch' = ch_participants ch" "ch_escrow ch' = ch_escrow ch"
    "ch_dispute_window ch' = ch_dispute_window ch" "ch_fee_base ch' = ch_fee_base ch" "ch_fee_ppm ch' = ch_fee_ppm ch"
    "total_capacity ch' = total_capacity ch" "status_rank (ch_status ch) \<le> status_rank (ch_status ch')"
    "ch_status ch' = ChannelClosed \<and> ch_status ch \<noteq> ChannelClosed \<or> ch_latest ch' = ch_latest ch \<and> ch_nonce ch' = ch_nonce ch
      \<or> ch_nonce ch < ch_nonce ch' \<and> authorised ch' (ch_latest ch')" if "evolves ch ch'"
    using that unfolding evolves_def same_terms_def by blast+
  ultimately show ?thesis
    using ch' held(1) unfolding authorised_def[symmetric] by blast
qed

text \<open>
  C18. Finalising a channel after its dispute window empties the escrow and pays each participant exactly
  what the closing state gives it, leaves every other account alone and marks the channel as closed
  with that state as its last one, and it does so precisely when the escrow account holds the capacity
  of the channel; otherwise it raises and changes nothing.
\<close>

theorem finalize_pays_closing_state:
  assumes "manager_ok m" "dict_get (mg_channels m) cid = Some c" "ch_status c = ChannelClosing"
    "ch_closing c = Some closing" "ch_closing_started c = Some started" "started + ch_dispute_window c < block"
    "db_wf db" "total_balance db < 2 ^ 256" "escrow_address cid \<notin> set (ch_members c)"
  shows "if get_balance db (escrow_address cid) = total_capacity c
     then \<exists>c' m' db'. finalize_channel cid block (m, db) = (Inr c', (m', db'))
       \<and> dict_get (mg_channels m') cid = Some c' \<and> ch_status c' = ChannelClosed \<and> ch_latest c' = closing
       \<and> (\<forall>a. get_balance db' a = (if a = escrow_address cid then 0 else get_balance db a)
             + (case dict_get (cs_balances closing) a of None \<Rightarrow> 0 | Some x \<Rightarrow> x))
       \<and> total_balance db' = total_balance db
     else finalize_channel cid block (m, db) = (Inl ChannelValidationError, (m, db))"
proof -
  have c: "channel_ok cid c" "committed c closing"
    using channel_at[OF assms(1,2)] assms(4) by (auto simp: channel_ok_def)
  have "finalize_channel cid block (m, db) = settle_channel cid c closing block (m, db)"
    using assms(2-6) by (simp add: finalize_channel_def sem_defs on_manager_def get_channel_def)
  moreover have "ch_status (settled closing block c) = ChannelClosed" "ch_latest (settled closing block c) = closing"
    by (simp_all add: settled_def apply_state_def)
  ultimately show ?thesis
    using settle_channel_exact[OF c _ assms(7-9), where b = block and m = m] assms(3) by (auto split: if_splits)
qed

lemma graph_of_ok: "manager_ok m \<Longrightarrow> graph_ok (graph_of m) \<and> dict_wf (g_channels (graph_of m))"
  by (fastforce simp: manager_ok_def graph_ok_def graph_of_def channel_ok_def committed_def htlcs_ok_def)

lemma or_restore_ok: "or_restore f m = (Inr x, m') \<Longrightarrow> f m = (Inr x, m')"
  by (auto simp: or_restore_def sem_defs split: prod.splits sum.splits)

lemma next_payment_id_run: "\<exists>pid. next_payment_id a b n k m = (Inr pid, m\<lparr>mg_payment_sequence := mg_payment_sequence m + 1\<rparr>)"
  by (simp add: next_payment_id_def sem_defs)

text \<open>
  C17. Starting a payment locks the whole route or nothing. When it returns, every hop of the route that
  was found has a new hash-locked transfer on its channel, in a state signed by both participants, for
  the amount of the hop and with a timelock that is one delta longer than that of the next hop; the
  payment is recorded as pending; no channel is used twice and every other channel is as it was. When
  it raises, all channels and payments are as they were.
\<close>

theorem initiate_payment_locks_route:
  assumes "manager_ok m"
  shows "case initiate_payment hmac a b n k secret m of
      (Inl e, m') \<Rightarrow> mg_channels m' = mg_channels m \<and> mg_payments m' = mg_payments m
    | (Inr (p, given), m') \<Rightarrow> \<exists>route. find_route (graph_of m) a b n (mg_max_route_length m) = Inr route
        \<and> pr_hops (py_route p) = timed_hops (mg_base_timelock m) (mg_timelock_delta m) k (pr_hops route)
        \<and> distinct (map hop_channel_id (pr_hops route)) \<and> given = secret
        \<and> py_hashlock p = hash_secret secret \<and> py_status p = PaymentPending
        \<and> mg_payments m' = dict_put (py_id p) p (mg_payments m)
        \<and> (\<forall>hop \<in> set (pr_hops (py_route p)). locked_on (py_id p) (hash_secret secret) m m' hop)
        \<and> (\<forall>cid. cid \<notin> set (map hop_channel_id (pr_hops route)) \<longrightarrow>
             dict_get (mg_channels m') cid = dict_get (mg_channels m) cid)"
proof (cases "find_route (graph_of m) a b n (mg_max_route_length m)")
  case (Inl e)
  then show ?thesis by (simp add: initiate_payment_def manager_find_route_def sem_defs)
next
  case (Inr route)
  obtain pid where pid: "next_payment_id a b n k m = (Inr pid, m\<lparr>mg_payment_sequence := mg_payment_sequence m + 1\<rparr>)"
    using next_payment_id_run by blast
  let ?m = "m\<lparr>mg_payment_sequence := mg_payment_sequence m + 1\<rparr>" and ?h = "hash_secret secret"
  define body where "body = bindM (lock_hops hmac pid ?h k (pr_hops route)) (\<lambda>(timed, ids).
       let p = \<lparr>py_id = pid, py_route = route\<lparr>pr_hops := timed\<rparr>, py_hashlock = ?h,
             py_created_block = k, py_htlc_ids = ids, py_status = PaymentPending, py_secret = None,
             py_failure_reason = None\<rparr> in
       seqM (modM (\<lambda>m. m\<lparr>mg_payments := dict_put pid p (mg_payments m)\<rparr>)) (retM (p, secret)))"
  have run: "initiate_payment hmac a b n k secret m = or_restore body ?m"
    using find_route_ok[OF Inr] Inr pid
    by (simp add: initiate_payment_def manager_find_route_def sem_defs route_ok_def body_def Let_def)
  have route: "distinct (map hop_channel_id (pr_hops route))"
    using route_distinct_channels graph_of_ok[OF assms] find_route_ok[OF Inr] by (auto simp: route_ok_def)
  have ok: "manager_ok ?m" using assms by (simp add: manager_ok_def)
  obtain r m' where out: "or_restore body ?m = (r, m')" by (cases "or_restore body ?m")
  show ?thesis
  proof (cases r)
    case (Inl e)
    then show ?thesis using or_restore_error[of body ?m e m'] out by (simp add: run)
  next
    case r: (Inr x)
    have "body ?m = (Inr x, m')" using or_restore_ok[of body ?m x m'] out r by simp
    then obtain timed ids m1 where lock: "lock_hops hmac pid ?h k (pr_hops route) ?m = (Inr (timed, ids), m1)"
      and x: "x = (\<lparr>py_id = pid, py_route = route\<lparr>pr_hops := timed\<rparr>, py_hashlock = ?h, py_created_block = k,
           py_htlc_ids = ids, py_status = PaymentPending, py_secret = None, py_failure_reason = None\<rparr>, secret)"
      and m': "m' = m1\<lparr>mg_payments := dict_put pid (fst x) (mg_payments m1)\<rparr>"
      by (auto simp: body_def bindM_Inr seqM_Inr runs_simps Let_def)
    note effect = lock_hops_effect[OF lock ok route]
    have "locked_on pid ?h m m' hop" if "hop \<in> set timed" for hop
      using effect that by (simp add: locked_on_def m')
    then show ?thesis
      using effect Inr route unfolding run out r by (simp add: x m')
  qed
qed

text \<open>
  C36. Revealing the secret of a pending payment moves its amount on every channel of its route or on
  none. When redeeming returns, the secret hashes to the payment's hashlock, the receiver's timelock
  has not passed, each channel of the route has, in a state signed by both participants, one matching
  transfer less and its amount moved from its sender to its receiver, the other channels are as they
  were and the payment is completed. When it raises, all channels and payments are as they were.
\<close>

theorem redeem_payment_moves_route:
  assumes "manager_ok m" "find_pending_payment_by_hashlock (hash_secret secret) m = (Inr p, m)"
    "distinct (map hop_channel_id (pr_hops (py_route p)))"
  shows "case redeem_payment hmac secret k m of
      (Inl e, m') \<Rightarrow> mg_channels m' = mg_channels m \<and> mg_payments m' = mg_payments m
    | (Inr p', m') \<Rightarrow> py_hashlock p = hash_secret secret \<and> k \<le> hop_timelock (last (pr_hops (py_route p)))
        \<and> p' = p\<lparr>py_status := PaymentCompleted, py_secret := Some secret\<rparr>
        \<and> mg_payments m' = dict_put (py_id p) p' (mg_payments m)
        \<and> (\<forall>cid. if cid \<in> set (map hop_channel_id (pr_hops (py_route p)))
             then \<exists>c c'. dict_get (mg_channels m) cid = Some c \<and> dict_get (mg_channels m') cid = Some c'
               \<and> claims_htlc (hash_secret secret) k c c'
             else dict_get (mg_channels m') cid = dict_get (mg_channels m) cid)"
proof -
  let ?h = "hash_secret secret" and ?hops = "pr_hops (py_route p)"
  let ?p = "p\<lparr>py_status := PaymentCompleted, py_secret := Some secret\<rparr>"
  let ?body = "seqM (over_hops (\<lambda>cid c. apply_htlc_claim hmac cid c ?h k) (rev ?hops)) (seqM (put_payment ?p) (retM ?p))"
  have hash: "py_hashlock p = ?h"
    using assms(2) by (auto simp: find_pending_payment_by_hashlock_def find_Some_iff split: option.splits)
  show ?thesis
  proof (cases "?hops \<noteq> [] \<and> k \<le> hop_timelock (last ?hops)")
    case False
    then show ?thesis using assms(2)
      by (auto simp: redeem_payment_def sem_defs last_timelock_def Let_def split: list.splits)
  next
    case True
    then have "last_timelock p = Inr (hop_timelock (last ?hops))" by (simp add: last_timelock_def split: list.splits)
    with True have run: "redeem_payment hmac secret k m = or_restore ?body m"
      using assms(2) by (simp add: redeem_payment_def bindM_def seqM_def liftR_def guardM_def retM_def Let_def)
    obtain r m' where out: "or_restore ?body m = (r, m')" by (cases "or_restore ?body m")
    show ?thesis
    proof (cases r)
      case (Inl e)
      then show ?thesis using or_restore_error[of ?body m e m'] out by (simp add: run)
    next
      case (Inr x)
      have "?body m = (Inr x, m')" using or_restore_ok[of ?body m x m'] out Inr by simp
      then obtain m1 where hops: "over_hops (\<lambda>cid c. apply_htlc_claim hmac cid c ?h k) (rev ?hops) m = (Inr (), m1)"
        and x: "x = ?p" "m' = m1\<lparr>mg_payments := dict_put (py_id p) ?p (mg_payments m1)\<rparr>"
        by (auto simp: seqM_Inr put_payment_def runs_simps)
      have "distinct (map hop_channel_id (rev ?hops))" using assms(3) by (simp add: rev_map[symmetric])
      note effect = claiming.all_hops[OF hops assms(1) this]
      show ?thesis using effect hash True unfolding run out Inr by (auto simp: x)
    qed
  qed
qed

text \<open>
  C37. Refunding a payment frees the transfer on every channel of its route or on none. When it returns,
  the payment was pending, the receiver's timelock has passed, each channel of the route has, in a
  state signed by both participants, one matching transfer less and its balances as they were, and the
  payment is refunded. When it raises, all channels and payments are as they were.
\<close>

theorem refund_payment_frees_route:
  assumes "manager_ok m" "dict_get (mg_payments m) pid = Some p" "distinct (map hop_channel_id (pr_hops (py_route p)))"
  shows "case refund_payment hmac pid k m of
      (Inl e, m') \<Rightarrow> mg_channels m' = mg_channels m \<and> mg_payments m' = mg_payments m
    | (Inr p', m') \<Rightarrow> py_status p = PaymentPending \<and> hop_timelock (last (pr_hops (py_route p))) < k
        \<and> p' = p\<lparr>py_status := PaymentRefunded\<rparr> \<and> mg_payments m' = dict_put pid p' (mg_payments m)
        \<and> (\<forall>cid. if cid \<in> set (map hop_channel_id (pr_hops (py_route p)))
             then \<exists>c c'. dict_get (mg_channels m) cid = Some c \<and> dict_get (mg_channels m') cid = Some c'
               \<and> refunds_htlc (py_hashlock p) c c'
             else dict_get (mg_channels m') cid = dict_get (mg_channels m) cid)"
proof -
  let ?hops = "pr_hops (py_route p)" and ?p = "p\<lparr>py_status := PaymentRefunded\<rparr>"
  let ?body = "seqM (over_hops (\<lambda>cid c. apply_htlc_refund hmac cid c (py_hashlock p) k True) (rev ?hops)) (seqM (put_payment ?p) (retM ?p))"
  have pid: "py_id p = pid" using assms(1,2) by (auto simp: manager_ok_def)
  have found: "refund_payment hmac pid k m = (seqM (guardM (py_status p = PaymentPending) HTLCError)
      (bindM (liftR (last_timelock p)) (\<lambda>t. seqM (guardM (\<not> k \<le> t) HTLCError) (or_restore ?body)))) m"
    by (simp only: refund_payment_def bindM_def getM_def assms(2) prod.case sum.case option.case Let_def)
  show ?thesis
  proof (cases "py_status p = PaymentPending \<and> ?hops \<noteq> [] \<and> hop_timelock (last ?hops) < k")
    case False
    then show ?thesis
      by (auto simp: found sem_defs last_timelock_def split: list.splits)
  next
    case True
    then have "last_timelock p = Inr (hop_timelock (last ?hops))" by (simp add: last_timelock_def split: list.splits)
    with True have run: "refund_payment hmac pid k m = or_restore ?body m"
      by (simp add: found bindM_def seqM_def liftR_def guardM_def retM_def)
    obtain r m' where out: "or_restore ?body m = (r, m')" by (cases "or_restore ?body m")
    show ?thesis
    proof (cases r)
      case (Inl e)
      then show ?thesis using or_restore_error[of ?body m e m'] out by (simp add: run)
    next
      case (Inr x)
      have "?body m = (Inr x, m')" using or_restore_ok[of ?body m x m'] out Inr by simp
      then obtain m1 where hops: "over_hops (\<lambda>cid c. apply_htlc_refund hmac cid c (py_hashlock p) k True) (rev ?hops) m = (Inr (), m1)"
        and x: "x = ?p" "m' = m1\<lparr>mg_payments := dict_put pid ?p (mg_payments m1)\<rparr>"
        using pid by (auto simp: seqM_Inr put_payment_def runs_simps)
      have "distinct (map hop_channel_id (rev ?hops))" using assms(3) by (simp add: rev_map[symmetric])
      note effect = refunding.all_hops[OF hops assms(1) this]
      show ?thesis using effect True unfolding run out Inr by (auto simp: x)
    qed
  qed
qed

text \<open>
  C38. The root that participants sign commits to the channel, the nonce, the balances and the locked
  transfers: two constructed states with the same root agree in all four, or their payloads are two
  different byte strings with the same Keccak-256 hash.
\<close>

theorem signed_root_commits:
  assumes "mk_channel_state i1 n1 b1 h1 r1 g1 = Inr s" "mk_channel_state i2 n2 b2 h2 r2 g2 = Inr t" "cs_root s = cs_root t"
  shows "i1 = i2 \<and> n1 = n2 \<and> cs_balances s = cs_balances t \<and> cs_htlcs s = cs_htlcs t
    \<or> (\<exists>x y. x \<noteq> y \<and> keccak256 x = keccak256 y \<and> x = canonical_json_bytes (JObj (state_payload s))
         \<and> y = canonical_json_bytes (JObj (state_payload t)))"
  using state_root_binds[OF mk_channel_state_Inr(1)[OF assms(1)] mk_channel_state_Inr(1)[OF assms(2)] assms(3)]
    mk_channel_state_Inr(2,3)[OF assms(1)] mk_channel_state_Inr(2,3)[OF assms(2)] by auto

text \<open>
  C39. The route search is total and sound, and finds direct channels. It returns a path of at most the
  given number of hops that visits no node and no channel twice, from the sender to the receiver,
  through open channels whose free balance on the sending side covers the amount that the hop forwards,
  which grows by the fee of each channel on the way back. The only error is that there is no route, and
  then the amount is not positive, the ends are equal, no hop is allowed or no channel between the two
  has the liquidity.
\<close>

theorem find_route_sound:
  assumes "graph_ok g" "dict_wf (g_channels g)"
  shows "case find_route g a b n max_hops of
      Inr r \<Rightarrow> route_from g b n a (pr_total_amount r) (pr_hops r) \<and> pr_hops r \<noteq> [] \<and> int (length (pr_hops r)) \<le> max_hops
        \<and> distinct (a # map hop_receiver (pr_hops r)) \<and> last (map hop_receiver (pr_hops r)) = b
        \<and> distinct (map hop_channel_id (pr_hops r)) \<and> pr_sender r = a \<and> pr_receiver r = b \<and> pr_amount r = n
    | Inl e \<Rightarrow> e = RouteNotFoundError \<and> (n \<le> 0 \<or> a = b \<or> max_hops < 1
        \<or> (\<forall>ch \<in> set (channels_for g b). neighbor_of ch b = a \<longrightarrow>
             (\<forall>free. available_balance ch a = Inr free \<longrightarrow> free < n + routing_fee ch n)))"
proof (cases "find_route g a b n max_hops")
  case (Inl e)
  moreover have "e = RouteNotFoundError" by (rule find_route_error[OF assms(1) Inl])
  moreover have "n \<le> 0 \<or> a = b \<or> max_hops < 1 \<or> (\<forall>ch \<in> set (channels_for g b). neighbor_of ch b = a \<longrightarrow>
             (\<forall>free. available_balance ch a = Inr free \<longrightarrow> free < n + routing_fee ch n))"
    using find_route_direct[OF assms(1), of n a b max_hops] Inl by (force simp: not_le not_less)
  ultimately show ?thesis by simp
next
  case (Inr r)
  have r: "route_ok g r max_hops" "pr_sender r = a" "pr_receiver r = b" "pr_amount r = n"
    using find_route_ok[OF Inr] by simp_all
  then have path: "route_from g b n a (pr_total_amount r) (pr_hops r)" by (simp add: route_ok_def)
  with route_from_nodes[OF path] route_distinct_channels[OF assms path] r Inr show ?thesis
    by (auto simp: route_ok_def)
qed

section \<open>Worked examples\<close>

text \<open>A channel between the two addresses after the escrow's, with 6 and 4 units, open or in dispute.\<close>

abbreviation demo_escrow :: address where "demo_escrow \<equiv> escrow_address ''c''"

definition demo_deposits :: balances where
  "demo_deposits = [(demo_escrow + 1, 6), (demo_escrow + 2, 4)]"

lemma word_shift_apart: "(x::address) + 1 \<noteq> x + 2" "(x::address) + 1 \<noteq> x" "(x::address) + 2 \<noteq> x"
  by simp_all

lemma demo_channel:
  "\<exists>c. just_opened ''c'' c \<and> set (ch_members c) = {demo_escrow + 1, demo_escrow + 2} \<and> total_capacity c = 10
     \<and> dict_get (ch_balances c) (demo_escrow + 1) = Some 6 \<and> dict_get (ch_balances c) (demo_escrow + 2) = Some 4
     \<and> ch_dispute_window c = 5 \<and> ch_fee_base c = 0 \<and> ch_fee_ppm c = 0"
proof -
  let ?a = "demo_escrow + 1" and ?b = "demo_escrow + 2"
  have wf: "dict_wf demo_deposits" "\<forall>e \<in> set demo_deposits. 0 \<le> snd e" "balance_sum demo_deposits = 10"
    by (simp_all add: demo_deposits_def balance_sum_def)
  define d where "d = sort_key (\<lambda>e. addr_hex (fst e)) demo_deposits"
  have norm: "normalize_balances (as_parties demo_deposits) = Inr d"
    using normalize_entries_as_parties[of "[]" demo_deposits] wf by (simp add: normalize_balances_def d_def)
  have keys: "map fst d = [fst (ordered_pair ?a ?b), snd (ordered_pair ?a ?b)]"
    by (simp add: d_def demo_deposits_def ordered_pair_def)
  obtain s where s: "mk_channel_state ''c'' 0 (as_parties demo_deposits) [] None [] = Inr s"
    by (simp add: mk_channel_state_def norm Let_def)
  obtain c where c: "mk_channel ''c'' (PartyAddr ?a, PartyAddr ?b) (as_parties demo_deposits) 0 (cs_root s) 0 5
      (Some demo_escrow) (Some s) 16 0 0 = Inr c"
    by (simp add: mk_channel_def normalize_address_def norm keys)
  note f = mk_channel_Inr[OF c]
  have parts: "ch_balances c = d" "ch_participants c = ordered_pair ?a ?b" "ch_dispute_window c = 5" "ch_fee_base c = 0" "ch_fee_ppm c = 0"
    using f(3) norm by (simp, (subst f(1), simp)+)
  have "just_opened ''c'' c" using opened_channel[OF s c wf(1,2)] wf(3) by simp
  moreover have "dict_get d = dict_get demo_deposits"
    unfolding d_def using wf(1) by (intro map_of_eqI) (auto simp: distinct_map)
  moreover have "total_capacity c = 10" by (simp add: total_capacity_def parts d_def balance_sum_sort wf(3))
  ultimately show ?thesis
    by (intro exI[of _ c]) (auto simp: parts demo_deposits_def ordered_pair_def)
qed

definition demo_manager :: "channel \<Rightarrow> (string, payment) dict \<Rightarrow> manager" where
  "demo_manager c ps = (new_manager 16 6 12 4 96 None)\<lparr>mg_channels := [(''c'', c)], mg_payments := ps\<rparr>"

lemma demo_manager_ok: "channel_ok ''c'' c \<Longrightarrow> (\<And>pid p. (pid, p) \<in> set ps \<Longrightarrow> py_id p = pid) \<Longrightarrow> dict_wf ps \<Longrightarrow> manager_ok (demo_manager c ps)"
  by (auto simp: demo_manager_def new_manager_def manager_ok_def)

definition in_dispute :: "channel \<Rightarrow> channel" where
  "in_dispute c = c\<lparr>ch_closing := Some (ch_latest c), ch_closing_started := Some 0, ch_status := ChannelClosing\<rparr>"

lemma in_dispute_ok: "channel_ok cid c \<Longrightarrow> channel_ok cid (in_dispute c)"
  using channel_ok_stay(1)[of cid c "Some (ch_latest c)" ChannelClosing "Some 0"]
  by (simp add: in_dispute_def channel_ok_def)

definition demo_ledger :: statedb where
  "demo_ledger = [(demo_escrow, mk_account 0 10 [] [])]"

lemma demo_ledger_ok: "db_wf demo_ledger" "total_balance demo_ledger = 10" "get_balance demo_ledger demo_escrow = 10"
  "a \<noteq> demo_escrow \<Longrightarrow> get_balance demo_ledger a = 0"
proof -
  have m: "10 AND UINT256_MASK = 10" by (simp add: mask_word_range word_range_def)
  show "db_wf demo_ledger" by (simp add: demo_ledger_def db_wf_def account_wf_def mk_account_def storage_wf_def)
  show "total_balance demo_ledger = 10" "get_balance demo_ledger demo_escrow = 10"
    "a \<noteq> demo_escrow \<Longrightarrow> get_balance demo_ledger a = 0"
    by (simp_all add: demo_ledger_def get_balance_def mk_account_def total_balance_def m)
qed

theorem finalize_pays_closing_state_witness:
  "\<exists>m c' m' db'. finalize_channel ''c'' 6 (m, demo_ledger) = (Inr c', (m', db')) \<and> ch_status c' = ChannelClosed
     \<and> get_balance db' demo_escrow = 0 \<and> get_balance db' (demo_escrow + 1) = 6 \<and> get_balance db' (demo_escrow + 2) = 4"
proof -
  obtain c where c: "just_opened ''c'' c" "set (ch_members c) = {demo_escrow + 1, demo_escrow + 2}" "total_capacity c = 10"
    "dict_get (ch_balances c) (demo_escrow + 1) = Some 6" "dict_get (ch_balances c) (demo_escrow + 2) = Some 4" "ch_dispute_window c = 5"
    using demo_channel by blast
  have ok: "channel_ok ''c'' c" using c(1) by (simp add: just_opened_def)
  let ?c = "in_dispute c" and ?m = "demo_manager (in_dispute c) []"
  have m: "manager_ok ?m" by (rule demo_manager_ok) (simp_all add: in_dispute_ok ok)
  have same: "cs_balances (ch_latest c) = ch_balances c" using ok by (simp add: channel_ok_def)
  have mem: "map fst (ch_balances c) = ch_members c" using ok by (simp add: channel_ok_def committed_def)
  have apart: "demo_escrow \<notin> set (ch_members c)" unfolding c(2) by simp
  then have "dict_get (ch_balances c) demo_escrow = None"
    using mem by (metis map_of_eq_None_iff image_set)
  then have none: "dict_get (cs_balances (ch_latest c)) demo_escrow = None" by (simp add: same)
  have at: "dict_get (mg_channels ?m) ''c'' = Some ?c" by (simp add: demo_manager_def)
  have d: "ch_status ?c = ChannelClosing" "ch_closing ?c = Some (ch_latest c)" "ch_closing_started ?c = Some 0"
    "0 + ch_dispute_window ?c < 6" "demo_escrow \<notin> set (ch_members ?c)" "total_capacity ?c = 10" "total_balance demo_ledger < 2 ^ 256"
    using apart c(3,6) demo_ledger_ok(2) by (simp_all add: in_dispute_def total_capacity_def)
  obtain c' m' db' where run: "finalize_channel ''c'' 6 (?m, demo_ledger) = (Inr c', (m', db'))" "ch_status c' = ChannelClosed"
    and bal: "\<forall>a. get_balance db' a = (if a = demo_escrow then 0 else get_balance demo_ledger a)
             + (case dict_get (cs_balances (ch_latest c)) a of None \<Rightarrow> 0 | Some x \<Rightarrow> x)"
    using finalize_pays_closing_state[OF m at d(1-4) demo_ledger_ok(1) d(7,5)] demo_ledger_ok(3) d(6) by auto
  have "get_balance db' demo_escrow = 0" "get_balance db' (demo_escrow + 1) = 6" "get_balance db' (demo_escrow + 2) = 4"
    using bal none c(4,5) demo_ledger_ok(4) same by simp_all
  with run show ?thesis by blast
qed

theorem reached_channels_valid_witness:
  "\<exists>m db. reached demo_hmac null_verify_update (new_manager 16 6 12 4 96 None, demo_ledger) (m, db) \<and> total_balance db = 10"
proof -
  have start: "reached demo_hmac null_verify_update (new_manager 16 6 12 4 96 None, demo_ledger) (new_manager 16 6 12 4 96 None, demo_ledger)"
    by (rule reached_start)
  have "run_channel_call demo_hmac null_verify_update 1 (FinalizeCall ''c'') (new_manager 16 6 12 4 96 None, demo_ledger)
      = (Inl ChannelValidationError, (new_manager 16 6 12 4 96 None, demo_ledger))"
    by (simp add: run_channel_call_def forget_def finalize_channel_def sem_defs on_manager_def get_channel_def new_manager_def)
  from reached_call[OF start _ this] have step: "reached demo_hmac null_verify_update (new_manager 16 6 12 4 96 None, demo_ledger)
      (new_manager 16 6 12 4 96 None, demo_ledger)"
    by (simp add: call_wf_def)
  show ?thesis
    using reached_channels_valid[OF step] step demo_ledger_ok(1,2) by auto
qed

theorem call_changes_channel_witness:
  "\<exists>m m' c c' db' r. run_channel_call demo_hmac null_verify_update 6 (FinalizeCall ''c'') (m, demo_ledger) = (r, (m', db'))
     \<and> dict_get (mg_channels m) ''c'' = Some c \<and> ch_status c = ChannelClosing
     \<and> dict_get (mg_channels m') ''c'' = Some c' \<and> total_capacity c' = total_capacity c"
proof -
  obtain c where c: "just_opened ''c'' c" using demo_channel by blast
  let ?m = "demo_manager (in_dispute c) []"
  have m: "manager_ok ?m" by (rule demo_manager_ok) (use c in \<open>simp_all add: in_dispute_ok just_opened_def\<close>)
  obtain r m' db' where run: "run_channel_call demo_hmac null_verify_update 6 (FinalizeCall ''c'') (?m, demo_ledger) = (r, (m', db'))"
    by (metis prod.exhaust)
  have at: "dict_get (mg_channels ?m) ''c'' = Some (in_dispute c)" by (simp add: demo_manager_def)
  have "ch_status (in_dispute c) = ChannelClosing" by (simp add: in_dispute_def)
  moreover have "\<not> may_open (FinalizeCall ''c'')" by (simp add: may_open_def)
  ultimately show ?thesis
    using call_changes_channel[OF m _ run at] run at by (auto simp: call_wf_def)
qed

theorem initiate_payment_locks_route_witness:
  "\<exists>m. mg_channels m \<noteq> [] \<and>
     (case initiate_payment demo_hmac (demo_escrow + 1) (demo_escrow + 2) 3 0 [] m of
        (Inl e, m') \<Rightarrow> mg_channels m' = mg_channels m
      | (Inr (p, given), m') \<Rightarrow> py_status p = PaymentPending \<and> mg_payments m' = [(py_id p, p)])"
proof -
  obtain c where c: "just_opened ''c'' c" using demo_channel by blast
  let ?m = "demo_manager c []"
  have m: "manager_ok ?m" by (rule demo_manager_ok) (use c in \<open>simp_all add: just_opened_def\<close>)
  have "mg_channels ?m \<noteq> []" "mg_payments ?m = []" by (simp_all add: demo_manager_def)
  then show ?thesis
    using initiate_payment_locks_route[OF m, where hmac = demo_hmac and a = "demo_escrow + 1" and b = "demo_escrow + 2" and n = 3 and k = 0
        and secret = "[]"]
    by (intro exI[of _ ?m]) (auto split: prod.splits sum.splits)
qed

definition demo_payment :: payment where
  "demo_payment =
     \<lparr>py_id = ''p'', py_route = \<lparr>pr_sender = 1, pr_receiver = 2, pr_amount = 3, pr_total_amount = 3,
        pr_hops = [\<lparr>hop_channel_id = ''c'', hop_sender = 1, hop_receiver = 2, hop_amount = 3, hop_fee = 0, hop_timelock = 12\<rparr>]\<rparr>,
      py_hashlock = hash_secret [7], py_created_block = 0, py_htlc_ids = [''h''], py_status = PaymentPending,
      py_secret = None, py_failure_reason = None\<rparr>"

theorem redeem_payment_moves_route_witness:
  "\<exists>m. mg_payments m = [(''p'', demo_payment)] \<and>
     (case redeem_payment demo_hmac [7] 5 m of
        (Inl e, m') \<Rightarrow> mg_payments m' = mg_payments m
      | (Inr p', m') \<Rightarrow> py_status p' = PaymentCompleted \<and> mg_payments m' = [(''p'', p')])"
proof -
  obtain c where c: "just_opened ''c'' c" using demo_channel by blast
  let ?m = "demo_manager c [(''p'', demo_payment)]"
  have m: "manager_ok ?m" by (rule demo_manager_ok) (use c in \<open>simp_all add: just_opened_def demo_payment_def\<close>)
  have f: "find_pending_payment_by_hashlock (hash_secret [7]) ?m = (Inr demo_payment, ?m)"
    by (simp add: find_pending_payment_by_hashlock_def demo_manager_def demo_payment_def)
  have d: "distinct (map hop_channel_id (pr_hops (py_route demo_payment)))" by (simp add: demo_payment_def)
  have p: "mg_payments ?m = [(''p'', demo_payment)]" "py_id demo_payment = ''p''" by (simp_all add: demo_manager_def demo_payment_def)
  show ?thesis
    using redeem_payment_moves_route[OF m f d, where hmac = demo_hmac and k = 5] p
    by (intro exI[of _ ?m]) (auto split: prod.splits sum.splits)
qed

theorem refund_payment_frees_route_witness:
  "\<exists>m. mg_payments m = [(''p'', demo_payment)] \<and>
     (case refund_payment demo_hmac ''p'' 13 m of
        (Inl e, m') \<Rightarrow> mg_payments m' = mg_payments m
      | (Inr p', m') \<Rightarrow> py_status p' = PaymentRefunded \<and> mg_payments m' = [(''p'', p')])"
proof -
  obtain c where c: "just_opened ''c'' c" using demo_channel by blast
  let ?m = "demo_manager c [(''p'', demo_payment)]"
  have m: "manager_ok ?m" by (rule demo_manager_ok) (use c in \<open>simp_all add: just_opened_def demo_payment_def\<close>)
  have p: "mg_payments ?m = [(''p'', demo_payment)]" "distinct (map hop_channel_id (pr_hops (py_route demo_payment)))"
    by (simp_all add: demo_manager_def demo_payment_def)
  then have f: "dict_get (mg_payments ?m) ''p'' = Some demo_payment" by simp
  show ?thesis
    using refund_payment_frees_route[OF m f p(2), where hmac = demo_hmac and k = 13] p
    by (intro exI[of _ ?m]) (auto split: prod.splits sum.splits)
qed

theorem signed_root_commits_witness:
  "\<exists>s t. mk_channel_state ''c'' 0 (as_parties demo_deposits) [] None [] = Inr s
     \<and> mk_channel_state ''c'' 0 (as_parties (rev demo_deposits)) [] None [] = Inr t \<and> cs_root s = cs_root t
     \<and> (cs_balances s = cs_balances t \<or> (\<exists>x y. x \<noteq> y \<and> keccak256 x = keccak256 y))"
proof -
  let ?d = "sort_key (\<lambda>e. addr_hex (fst e)) demo_deposits"
  have "sort_key (\<lambda>e. addr_hex (fst e)) (rev demo_deposits) = ?d"
    by (auto simp: demo_deposits_def)
  then have norm: "normalize_balances (as_parties demo_deposits) = Inr ?d" "normalize_balances (as_parties (rev demo_deposits)) = Inr ?d"
    using normalize_entries_as_parties[of "[]" demo_deposits] normalize_entries_as_parties[of "[]" "rev demo_deposits"]
    by (simp_all add: normalize_balances_def demo_deposits_def)
  obtain s where s: "mk_channel_state ''c'' 0 (as_parties demo_deposits) [] None [] = Inr s"
    by (simp add: mk_channel_state_def Let_def norm)
  then have t: "mk_channel_state ''c'' 0 (as_parties (rev demo_deposits)) [] None [] = Inr s"
    by (simp add: mk_channel_state_def Let_def norm)
  from signed_root_commits[OF s t refl] s t show ?thesis by blast
qed

theorem find_route_sound_witness:
  "\<exists>c r. find_route \<lparr>g_nodes = {}, g_channels = [(''c'', c)]\<rparr> (demo_escrow + 1) (demo_escrow + 2) 3 6 = Inr r
     \<and> pr_hops r \<noteq> [] \<and> distinct (map hop_channel_id (pr_hops r))"
proof -
  obtain c where c: "just_opened ''c'' c" "set (ch_members c) = {demo_escrow + 1, demo_escrow + 2}"
    "dict_get (ch_balances c) (demo_escrow + 1) = Some 6" "ch_fee_base c = 0" "ch_fee_ppm c = 0"
    using demo_channel by blast
  let ?g = "\<lparr>g_nodes = {}, g_channels = [(''c'', c)]\<rparr>"
  have ok: "channel_ok ''c'' c" "active_htlcs c = []" "ch_status c = ChannelOpen" using c(1) by (simp_all add: just_opened_def)
  have g: "graph_ok ?g" "dict_wf (g_channels ?g)"
    using ok(1) by (auto simp: graph_ok_def channel_ok_def committed_def htlcs_ok_def)
  have here: "c \<in> set (channels_for ?g (demo_escrow + 2))"
    using c(2) ok(3) by (auto simp: channels_for_def by_channel_id_def)
  have other: "neighbor_of c (demo_escrow + 2) = demo_escrow + 1"
    using c(2) word_shift_apart(1)[of demo_escrow] by (auto simp: neighbor_of_def doubleton_eq_iff)
  have free: "available_balance c (demo_escrow + 1) = Inr 6"
    using c(3) ok(2) by (simp add: available_balance_def locked_balance_def)
  have "\<exists>r. find_route ?g (demo_escrow + 1) (demo_escrow + 2) 3 6 = Inr r"
    by (rule find_route_direct[OF g(1) _ _ _ here other free]) (simp_all add: routing_fee_def c(4,5))
  then obtain r where r: "find_route ?g (demo_escrow + 1) (demo_escrow + 2) 3 6 = Inr r" by blast
  with find_route_sound[OF g, where a = "demo_escrow + 1" and b = "demo_escrow + 2" and n = 3 and max_hops = 6] show ?thesis by auto
qed

end
