(* ===== verification/Phantom_Pool.thy ===== *)
theory Phantom_Pool
  imports Phantom_Settlement Phantom_Props
begin

text \<open>
  The settlement mempool: the invariant that ties its two indexes together, and the rule by which it
  admits a transaction: the next nonce of its sender, after the confirmed one and all pending ones.
\<close>

section \<open>Invariant\<close>

definition hash_entry_ok :: "mempool \<Rightarrow> string \<Rightarrow> pending_tx \<Rightarrow> bool" where
  "hash_entry_ok mp h p \<longleftrightarrow> (\<exists>th. stx_hash (pe_tx p) = Inr th \<and> h = hash_hex th)
     \<and> dict_get (mp_by_sender_nonce mp) (stx_sender (pe_tx p), stx_nonce (pe_tx p)) = Some p
     \<and> pe_insertion_id p < mp_next_insertion_id mp"

definition nonce_entry_ok :: "mempool \<Rightarrow> address \<times> int \<Rightarrow> pending_tx \<Rightarrow> bool" where
  "nonce_entry_ok mp k p \<longleftrightarrow> k = (stx_sender (pe_tx p), stx_nonce (pe_tx p))
     \<and> (\<exists>h. dict_get (mp_by_hash mp) h = Some p)"

definition mempool_ok :: "mempool \<Rightarrow> bool" where
  "mempool_ok mp \<longleftrightarrow> dict_wf (mp_by_hash mp) \<and> dict_wf (mp_by_sender_nonce mp)
     \<and> (\<forall>h p. dict_get (mp_by_hash mp) h = Some p \<longrightarrow> hash_entry_ok mp h p)
     \<and> (\<forall>k p. dict_get (mp_by_sender_nonce mp) k = Some p \<longrightarrow> nonce_entry_ok mp k p)"

lemma mempool_entries:
  assumes "mempool_ok mp"
  shows "dict_get (mp_by_hash mp) h = Some p \<Longrightarrow> hash_entry_ok mp h p"
    and "dict_get (mp_by_sender_nonce mp) k = Some p \<Longrightarrow> nonce_entry_ok mp k p"
  using assms unfolding mempool_ok_def by blast+

text \<open>The next nonce: the first one from the confirmed nonce on that is not pending.\<close>

lemma pending_nonce_from_least:
  "n \<le> pending_nonce_from ks a n \<and> (a, pending_nonce_from ks a n) \<notin> set ks
   \<and> (\<forall>k. n \<le> k \<and> k < pending_nonce_from ks a n \<longrightarrow> (a, k) \<in> set ks)"
proof (induction ks a n rule: pending_nonce_from.induct)
  case (1 ks a n)
  then show ?case
  proof (cases "(a, n) \<in> set ks")
    case True
    have "(a, k) \<in> set ks" if "n \<le> k" "k < pending_nonce_from ks a (n + 1)" for k
      using 1[OF True] True that by (cases "k = n") auto
    with 1[OF True] show ?thesis unfolding pending_nonce_from.simps[of ks a n] by auto
  qed (auto simp: pending_nonce_from.simps[of ks a n])
qed

lemma sort_key_snoc: "(\<And>x. x \<in> set xs \<Longrightarrow> f x \<le> f y) \<Longrightarrow> sort_key f (xs @ [y]) = sort_key f xs @ [y]"
proof (induction xs)
  case (Cons x xs)
  have "insort_key f x (ys @ [y]) = insort_key f x ys @ [y]" if "f x \<le> f y" for ys
    using that by (induction ys) auto
  with Cons show ?case by simp
qed simp

lemma pool_put_new: "k \<notin> set (map fst d) \<Longrightarrow> dict_put k v d = d @ [(k, v)]"
  by (induction d) auto

section \<open>Operations\<close>

lemma mempool_add_Inr:
  "mempool_add t db mp = (Inr p, mp') \<longleftrightarrow>
     (\<exists>g h th. stx_signature t = Some g \<and> stx_signing_hash t = Inr h \<and> verify_signature h g (stx_sender t) = Inr ()
        \<and> stx_hash t = Inr th \<and> hash_hex th \<notin> fst ` set (mp_by_hash mp)
        \<and> stx_nonce t = pending_nonce mp (stx_sender t) (get_nonce db (stx_sender t))
        \<and> p = \<lparr>pe_tx = t, pe_insertion_id = mp_next_insertion_id mp\<rparr>
        \<and> mp' = mp\<lparr>mp_next_insertion_id := mp_next_insertion_id mp + 1,
            mp_by_hash := dict_put (hash_hex th) p (mp_by_hash mp),
            mp_by_sender_nonce := dict_put (stx_sender t, stx_nonce t) p (mp_by_sender_nonce mp)\<rparr>)"
  by (auto simp: mempool_add_def sem_defs Let_def split: option.splits sum.splits if_splits)

lemma mempool_add_Inl: "mempool_add t db mp = (Inl e, mp') \<Longrightarrow> mp' = mp"
  by (auto simp: mempool_add_def sem_defs Let_def split: option.splits sum.splits if_splits)

text \<open>Entries move between pools whose indexes agree on them.\<close>

lemma hash_entry_kept:
  "hash_entry_ok mp h q \<Longrightarrow> mp_next_insertion_id mp \<le> mp_next_insertion_id mp'
   \<Longrightarrow> dict_get (mp_by_sender_nonce mp') (stx_sender (pe_tx q), stx_nonce (pe_tx q))
       = dict_get (mp_by_sender_nonce mp) (stx_sender (pe_tx q), stx_nonce (pe_tx q)) \<Longrightarrow> hash_entry_ok mp' h q"
  by (simp add: hash_entry_ok_def)

lemma pending_nonce_free:
  "dict_get (mp_by_sender_nonce mp) (a, pending_nonce mp a n) = None"
  using pending_nonce_from_least[of n "map fst (mp_by_sender_nonce mp)" a]
  by (simp add: pending_nonce_def map_of_eq_None_iff)

lemma mempool_add_ok:
  assumes ok: "mempool_ok mp" and add: "mempool_add t db mp = (Inr p, mp')"
  shows "mempool_ok mp'"
proof -
  let ?k = "(stx_sender t, stx_nonce t)"
  obtain th where th: "stx_hash t = Inr th" "hash_hex th \<notin> fst ` set (mp_by_hash mp)"
    and nonce: "stx_nonce t = pending_nonce mp (stx_sender t) (get_nonce db (stx_sender t))"
    and p: "p = \<lparr>pe_tx = t, pe_insertion_id = mp_next_insertion_id mp\<rparr>"
    and mp': "mp' = mp\<lparr>mp_next_insertion_id := mp_next_insertion_id mp + 1,
            mp_by_hash := dict_put (hash_hex th) p (mp_by_hash mp), mp_by_sender_nonce := dict_put ?k p (mp_by_sender_nonce mp)\<rparr>"
    using add unfolding mempool_add_Inr by blast
  have free: "dict_get (mp_by_sender_nonce mp) ?k = None" unfolding nonce by (rule pending_nonce_free)
  have hash_free: "dict_get (mp_by_hash mp) (hash_hex th) = None"
    using th(2) by (simp add: map_of_eq_None_iff)
  have "hash_entry_ok mp' h q" if "dict_get (mp_by_hash mp') h = Some q" for h q
  proof (cases "h = hash_hex th")
    case True
    with that th(1) show ?thesis by (auto simp: mp' p hash_entry_ok_def dict_simps)
  next
    case False
    with that have old: "hash_entry_ok mp h q"
      by (intro mempool_entries[OF ok]) (simp add: mp' dict_simps del: map_of_eq_Some_iff)
    with free have "(stx_sender (pe_tx q), stx_nonce (pe_tx q)) \<noteq> ?k" by (auto simp: hash_entry_ok_def)
    then show ?thesis by (intro hash_entry_kept[OF old]) (auto simp: mp' dict_simps)
  qed
  moreover have "nonce_entry_ok mp' k q" if "dict_get (mp_by_sender_nonce mp') k = Some q" for k q
  proof (cases "k = ?k")
    case True
    with that show ?thesis by (auto simp: mp' p nonce_entry_ok_def dict_simps)
  next
    case False
    with that have "nonce_entry_ok mp k q"
      by (intro mempool_entries[OF ok]) (simp add: mp' dict_simps del: map_of_eq_Some_iff)
    then obtain h where "k = (stx_sender (pe_tx q), stx_nonce (pe_tx q))" and h: "dict_get (mp_by_hash mp) h = Some q"
      by (auto simp: nonce_entry_ok_def)
    moreover from h hash_free have "h \<noteq> hash_hex th" by auto
    ultimately show ?thesis unfolding nonce_entry_ok_def
      by (intro conjI exI[of _ h]) (simp_all add: mp' dict_simps del: map_of_eq_Some_iff)
  qed
  ultimately show ?thesis using ok by (simp add: mempool_ok_def mp')
qed

lemma mempool_remove_run:
  "mempool_remove t mp = (Inr (), mp') \<longleftrightarrow> (\<exists>th. stx_hash t = Inr th \<and>
     mp' = (case dict_get (mp_by_hash mp) (hash_hex th) of None \<Rightarrow> mp
       | Some p \<Rightarrow> mp\<lparr>mp_by_hash := dict_pop (hash_hex th) (mp_by_hash mp),
           mp_by_sender_nonce := dict_pop (stx_sender (pe_tx p), stx_nonce (pe_tx p)) (mp_by_sender_nonce mp)\<rparr>))"
  by (auto simp: mempool_remove_def sem_defs split: sum.splits option.splits)

lemma mempool_remove_ok:
  assumes ok: "mempool_ok mp"
  shows "mempool_ok (snd (mempool_remove t mp))"
proof (cases "\<exists>th p. stx_hash t = Inr th \<and> dict_get (mp_by_hash mp) (hash_hex th) = Some p")
  case False
  then have "snd (mempool_remove t mp) = mp"
    by (auto simp: mempool_remove_def sem_defs split: sum.splits option.splits)
  with ok show ?thesis by simp
next
  case True
  then obtain th p where th: "stx_hash t = Inr th" and p: "dict_get (mp_by_hash mp) (hash_hex th) = Some p" by blast
  let ?k = "(stx_sender (pe_tx p), stx_nonce (pe_tx p))"
  let ?mp = "mp\<lparr>mp_by_hash := dict_pop (hash_hex th) (mp_by_hash mp), mp_by_sender_nonce := dict_pop ?k (mp_by_sender_nonce mp)\<rparr>"
  have run: "snd (mempool_remove t mp) = ?mp"
    using th p by (simp add: mempool_remove_def sem_defs del: map_of_eq_Some_iff)
  have kp: "dict_get (mp_by_sender_nonce mp) ?k = Some p"
    using mempool_entries(1)[OF ok p] by (simp add: hash_entry_ok_def)
  have hp: "h = hash_hex th" if "dict_get (mp_by_hash mp) h = Some p" for h
  proof -
    have "\<exists>th. stx_hash (pe_tx p) = Inr th \<and> g = hash_hex th" if "dict_get (mp_by_hash mp) g = Some p" for g
      using mempool_entries(1)[OF ok that] by (simp add: hash_entry_ok_def)
    from this[OF that] this[OF p] show ?thesis by auto
  qed
  have "hash_entry_ok ?mp h q" if "dict_get (mp_by_hash ?mp) h = Some q" for h q
  proof -
    have h: "h \<noteq> hash_hex th" "dict_get (mp_by_hash mp) h = Some q"
      using that by (auto simp: dict_simps simp del: map_of_eq_Some_iff split: if_splits)
    from mempool_entries(1)[OF ok h(2)] have old: "hash_entry_ok mp h q" .
    with kp hp h have "(stx_sender (pe_tx q), stx_nonce (pe_tx q)) \<noteq> ?k"
      unfolding hash_entry_ok_def by (metis option.inject)
    then show ?thesis by (intro hash_entry_kept[OF old]) (auto simp: dict_simps)
  qed
  moreover have "nonce_entry_ok ?mp k q" if "dict_get (mp_by_sender_nonce ?mp) k = Some q" for k q
  proof -
    have k: "k \<noteq> ?k" "dict_get (mp_by_sender_nonce mp) k = Some q"
      using that by (auto simp: dict_simps simp del: map_of_eq_Some_iff split: if_splits)
    from mempool_entries(2)[OF ok k(2)] have "nonce_entry_ok mp k q" .
    then obtain h where q: "k = (stx_sender (pe_tx q), stx_nonce (pe_tx q))" and h: "dict_get (mp_by_hash mp) h = Some q"
      by (auto simp: nonce_entry_ok_def)
    with k(1) p have "h \<noteq> hash_hex th" by auto
    with q h show ?thesis by (auto simp: nonce_entry_ok_def dict_simps simp del: map_of_eq_Some_iff)
  qed
  ultimately show ?thesis using ok unfolding run by (simp add: mempool_ok_def del: map_of_eq_Some_iff)
qed

lemma mempool_clear_ok: "mempool_ok mp \<Longrightarrow> mempool_ok (snd (mempool_clear ts mp))"
proof (induction ts arbitrary: mp)
  case (Cons t ts)
  then show ?case using mempool_remove_ok[OF Cons.prems, of t]
    by (cases "mempool_remove t mp"; cases "fst (mempool_remove t mp)") (auto simp: sem_defs)
qed (simp add: sem_defs)

lemma new_mempool_ok: "mempool_ok new_mempool"
  by (simp add: mempool_ok_def new_mempool_def)

section \<open>Sequences of operations\<close>

datatype pool_call = AddCall settlement_tx statedb | RemoveCall settlement_tx

fun run_pool :: "pool_call list \<Rightarrow> mempool \<Rightarrow> mempool" where
  "run_pool [] mp = mp"
| "run_pool (AddCall t db # calls) mp = run_pool calls (snd (mempool_add t db mp))"
| "run_pool (RemoveCall t # calls) mp = run_pool calls (snd (mempool_remove t mp))"

lemma run_pool_ok: "mempool_ok mp \<Longrightarrow> mempool_ok (run_pool calls mp)"
proof (induction calls mp rule: run_pool.induct)
  case (2 t db calls mp)
  have "mempool_ok (snd (mempool_add t db mp))"
    using mempool_add_ok[OF 2(2), of t db] mempool_add_Inl[of t db mp] 2(2)
    by (cases "mempool_add t db mp"; cases "fst (mempool_add t db mp)") auto
  with 2(1) show ?case by simp
qed (simp_all add: mempool_remove_ok)

definition admission :: "settlement_tx \<Rightarrow> statedb \<Rightarrow> mempool \<Rightarrow> pending_tx \<Rightarrow> mempool \<Rightarrow> bool" where
  "admission t db mp p mp' \<longleftrightarrow> pe_tx p = t \<and> ordered mp' = ordered mp @ [p]
     \<and> (\<exists>g h. stx_signature t = Some g \<and> stx_signing_hash t = Inr h \<and> verify_signature h g (stx_sender t) = Inr ())
     \<and> get_nonce db (stx_sender t) \<le> stx_nonce t \<and> get_by_sender_nonce mp (stx_sender t) (stx_nonce t) = None
     \<and> list_all (\<lambda>k. get_by_sender_nonce mp (stx_sender t) k \<noteq> None) [get_nonce db (stx_sender t)..stx_nonce t - 1]
     \<and> get_by_sender_nonce mp' (stx_sender t) (stx_nonce t) = Some p \<and> mempool_size mp' = mempool_size mp + 1"

lemma admitted:
  assumes ok: "mempool_ok mp" and add: "mempool_add t db mp = (Inr p, mp')"
  shows "admission t db mp p mp'"
proof -
  obtain g h th where sig: "stx_signature t = Some g" "stx_signing_hash t = Inr h" "verify_signature h g (stx_sender t) = Inr ()"
    and th: "hash_hex th \<notin> set (map fst (mp_by_hash mp))"
    and nonce: "stx_nonce t = pending_nonce mp (stx_sender t) (get_nonce db (stx_sender t))"
    and p: "p = \<lparr>pe_tx = t, pe_insertion_id = mp_next_insertion_id mp\<rparr>"
    and mp': "mp' = mp\<lparr>mp_next_insertion_id := mp_next_insertion_id mp + 1,
            mp_by_hash := dict_put (hash_hex th) p (mp_by_hash mp),
            mp_by_sender_nonce := dict_put (stx_sender t, stx_nonce t) p (mp_by_sender_nonce mp)\<rparr>"
    using add unfolding mempool_add_Inr set_map by blast
  note least = pending_nonce_from_least[of "get_nonce db (stx_sender t)" "map fst (mp_by_sender_nonce mp)" "stx_sender t",
      folded pending_nonce_def, folded nonce]
  have put: "mp_by_hash mp' = mp_by_hash mp @ [(hash_hex th, p)]" using pool_put_new[OF th] by (simp add: mp')
  have "pe_insertion_id q \<le> pe_insertion_id p" if q: "q \<in> snd ` set (mp_by_hash mp)" for q
  proof -
    obtain h where "(h, q) \<in> set (mp_by_hash mp)" using q by force
    then have "dict_get (mp_by_hash mp) h = Some q" using ok by (simp add: mempool_ok_def)
    from mempool_entries(1)[OF ok this] show ?thesis by (simp add: hash_entry_ok_def p)
  qed
  then have "sort_key pe_insertion_id (map snd (mp_by_hash mp) @ [p]) = sort_key pe_insertion_id (map snd (mp_by_hash mp)) @ [p]"
    by (intro sort_key_snoc) simp
  then have "ordered mp' = ordered mp @ [p]" by (simp add: ordered_def put)
  moreover have "list_all (\<lambda>k. get_by_sender_nonce mp (stx_sender t) k \<noteq> None) [get_nonce db (stx_sender t)..stx_nonce t - 1]"
    using least by (auto simp: list_all_iff get_by_sender_nonce_def map_of_eq_None_iff)
  ultimately show ?thesis
    using sig least put
    by (simp add: admission_def p get_by_sender_nonce_def mempool_size_def map_of_eq_None_iff)
      (simp add: mp' p dict_simps)
qed

text \<open>
C34. After any sequence of additions and removals the two indexes of the settlement mempool hold the same
transactions, and an addition either raises and changes nothing, or its transaction is signed by its
sender, is not pending yet, carries exactly the next nonce (at least the confirmed one, free, and with
every nonce in between pending), and becomes the last one in mining order while all others stay.
\<close>

theorem mempool_admits_next_nonce:
  "let mp = run_pool calls new_mempool in
   mempool_ok mp \<and>
   (case mempool_add t db mp of
      (Inl e, mp') \<Rightarrow> mp' = mp
    | (Inr p, mp') \<Rightarrow>
        pe_tx p = t \<and> ordered mp' = ordered mp @ [p]
        \<and> (\<exists>g h. stx_signature t = Some g \<and> stx_signing_hash t = Inr h \<and> verify_signature h g (stx_sender t) = Inr ())
        \<and> get_nonce db (stx_sender t) \<le> stx_nonce t \<and> get_by_sender_nonce mp (stx_sender t) (stx_nonce t) = None
        \<and> list_all (\<lambda>k. get_by_sender_nonce mp (stx_sender t) k \<noteq> None) [get_nonce db (stx_sender t)..stx_nonce t - 1]
        \<and> get_by_sender_nonce mp' (stx_sender t) (stx_nonce t) = Some p \<and> mempool_size mp' = mempool_size mp + 1)"
proof -
  define mp where "mp = run_pool calls new_mempool"
  have ok: "mempool_ok mp" unfolding mp_def by (rule run_pool_ok[OF new_mempool_ok])
  obtain r mp' where add: "mempool_add t db mp = (r, mp')" by (cases "mempool_add t db mp")
  show ?thesis
  proof (cases r)
    case (Inl e)
    with ok mempool_add_Inl[of t db mp e mp'] add show ?thesis by (simp add: mp_def[symmetric] Let_def)
  next
    case (Inr p)
    with add have adm: "admission t db mp p mp'" by (intro admitted[OF ok]) simp
    show ?thesis
      unfolding mp_def[symmetric] Let_def add Inr prod.case sum.case
      by (rule conjI[OF ok adm[unfolded admission_def]])
  qed
qed

end
