(* ===== verification/Phantom_Mining.thy ===== *)
theory Phantom_Mining
  imports Phantom_Pool Block_Props
begin

text \<open>
  Mining of settlement transactions: what the loop over the pending transactions does to the manager and
  the chain state, and the chain of blocks that results.
\<close>

section \<open>Account nonces are left alone by the operations\<close>

definition same_nonces :: "manager \<times> statedb \<Rightarrow> manager \<times> statedb \<Rightarrow> bool" where
  "same_nonces x y \<longleftrightarrow> (\<forall>a. get_nonce (snd y) a = get_nonce (snd x) a)"

interpretation nonces: kept_relation same_nonces
  by unfold_locales (simp_all add: same_nonces_def)

lemma nonces_on_manager: "upholds same_nonces (on_manager f)"
  by (simp add: upholds_def same_nonces_def on_manager_run)

lemma nonces_update: "(\<And>acc. acc_nonce (f acc) = acc_nonce acc) \<Longrightarrow> get_nonce (update_account a f db) b = get_nonce db b"
  by (simp add: db_readers acct_update)

lemma nonces_transfer: "get_nonce (snd (transfer a b v db)) c = get_nonce db c"
proof -
  have get: "get_nonce (snd (get_or_create_account b db)) c = get_nonce db c" for b db
    unfolding get_or_create_as_update by (simp add: nonces_update)
  show ?thesis
    by (simp add: transfer_def set_balance_def subtract_balance_def add_balance_def Let_def nonces_update get split: prod.splits)
qed

lemma nonces_paying:
  assumes "upholds same_nonces k"
  shows "upholds same_nonces (\<lambda>(m, db). case transfer a b v db of
    (True, db') \<Rightarrow> k (m, db') | (False, db') \<Rightarrow> (Inl ChannelValidationError, (m, db')))"
  unfolding upholds_def
proof
  fix s :: "manager \<times> statedb"
  obtain m db where s: "s = (m, db)" by (cases s)
  obtain ok db' where t: "transfer a b v db = (ok, db')" by (cases "transfer a b v db")
  have "same_nonces (m, db) (m, db')" using nonces_transfer[of a b v db] by (simp add: same_nonces_def t)
  moreover have "same_nonces (m, db') (snd (k (m, db')))" by (rule nonces.at_keeps[OF assms])
  ultimately show "same_nonces s (snd ((\<lambda>(m, db). case transfer a b v db of
    (True, db') \<Rightarrow> k (m, db') | (False, db') \<Rightarrow> (Inl ChannelValidationError, (m, db'))) s))"
    by (cases ok) (auto simp: s t same_nonces_def)
qed

lemma nonces_deposit_all: "upholds same_nonces (deposit_all escrow bals)"
proof (induction bals)
  case (Cons e rest)
  from nonces_paying[OF this] show ?case by (cases e) simp
qed (simp add: nonces.ret)

lemma nonces_pay_out: "upholds same_nonces (pay_out escrow bals)"
proof (induction bals)
  case (Cons e rest)
  from nonces_paying[OF this] show ?case by (cases e) simp
qed (simp add: nonces.ret)

lemmas nonces_rules = nonces.rules nonces_on_manager nonces_deposit_all nonces_pay_out

lemma nonces_settle: "upholds same_nonces (settle_channel cid c final b)"
  unfolding settle_channel_def Let_def by (cases "ch_escrow c") (auto intro!: nonces_rules)

lemma nonces_operation: "upholds same_nonces (apply_operation verify x block sender)"
proof -
  have "upholds same_nonces (open_channel q d w b fb fp h)" for q d w b fb fp h
    unfolding open_channel_def Let_def by (intro nonces_rules)
  moreover have "upholds same_nonces (close_channel cid f b)" for cid f b
    unfolding close_channel_def Let_def by (intro nonces_rules nonces_settle)
  moreover have "upholds same_nonces (finalize_channel cid b)" for cid b
    unfolding finalize_channel_def
    by (intro nonces_rules) (auto split: bool.split option.split intro!: nonces_rules nonces_settle)
  ultimately show ?thesis
    unfolding apply_operation_def Let_def require_member_def
    by (cases x) (simp, intro nonces_rules | assumption | simp)+
qed

section \<open>The loop\<close>

definition stx_wf :: "settlement_tx \<Rightarrow> bool" where
  "stx_wf t \<longleftrightarrow> (\<forall>s \<in> set (operation_states (stx_operation t)). state_wf s)"

lemma operation_effect:
  assumes "stx_wf t" "manager_ok m" "apply_operation verify (stx_operation t) block sender (m, db) = (r, (m', db'))"
  shows "manager_ok m' \<and> supply_kept db db'"
proof (cases "\<exists>q. stx_operation t = OpenOp q")
  case True
  then obtain q where "stx_operation t = OpenOp q" by blast
  with keeps_open_operation[of verify q block sender] have "upholds (with_supply opens) (apply_operation verify (stx_operation t) block sender)"
    by simp
  from founding.at_keeps[OF this, where s = "(m, db)"] assms(2,3) show ?thesis by (simp add: with_supply_def)
next
  case False
  with assms(1) have "upholds (with_supply guarded) (apply_operation verify (stx_operation t) block sender)"
    by (intro keeps_operation) (simp_all add: stx_wf_def)
  from settles.at_keeps[OF this, where s = "(m, db)"] assms(2,3) show ?thesis by (simp add: with_supply_def)
qed

lemma manager_ok_same: "mg_channels m' = mg_channels m \<Longrightarrow> mg_payments m' = mg_payments m \<Longrightarrow> manager_ok m' = manager_ok m"
  by (simp add: manager_ok_def)

definition receipt_for :: "int \<Rightarrow> settlement_tx \<Rightarrow> phantom_receipt \<Rightarrow> bool" where
  "receipt_for number t r \<longleftrightarrow> stx_hash t = Inr (pz_tx_hash r) \<and> pz_block_number r = number \<and> pz_sender r = stx_sender t
     \<and> pz_success r \<and> pz_result r = operation_type_value (op_type (stx_operation t))"

definition sent_by :: "address \<Rightarrow> settlement_tx list \<Rightarrow> int" where
  "sent_by a ts = int (length (filter (\<lambda>t. stx_sender t = a) ts))"

text \<open>
  What a run of the loop has done: it split a prefix of the queue into the included transactions, each
  with its receipt, and the discarded ones; it kept the manager valid and the total balance; and the
  nonce of an account grew by the number of its included transactions.
\<close>

definition split_queue :: "int option \<Rightarrow> int \<Rightarrow> settlement_tx list \<Rightarrow> mining \<Rightarrow> mining \<Rightarrow> settlement_tx list
    \<Rightarrow> settlement_tx list \<Rightarrow> settlement_tx list \<Rightarrow> phantom_receipt list \<Rightarrow> bool" where
  "split_queue limit number ts acc acc' handled inc dis rs \<longleftrightarrow>
     take (length handled) ts = handled \<and> handled \<in> shuffles inc dis
     \<and> mn_included acc' = mn_included acc @ inc \<and> mn_discarded acc' = mn_discarded acc @ dis
     \<and> mn_receipts acc' = mn_receipts acc @ rs \<and> list_all2 (receipt_for number) inc rs
     \<and> (handled = ts \<or> (\<exists>k. limit = Some k \<and> k \<le> int (length (mn_included acc'))))"

definition mined :: "int option \<Rightarrow> int \<Rightarrow> settlement_tx list \<Rightarrow> mining \<Rightarrow> statedb \<Rightarrow> mining \<Rightarrow> manager \<Rightarrow> statedb \<Rightarrow> bool" where
  "mined limit number ts acc db acc' m' db' \<longleftrightarrow> manager_ok m' \<and> db_wf db' \<and> total_balance db' = total_balance db
     \<and> (\<exists>handled inc dis rs. split_queue limit number ts acc acc' handled inc dis rs
          \<and> (\<forall>a. get_nonce db' a = (get_nonce db a + sent_by a inc) mod 2 ^ 256))"

lemma mine_one_included:
  assumes ok: "stx_wf t" "manager_ok m" "db_wf db" "total_balance db < 2 ^ 256"
    and run: "mine_one verify number t acc (m, db) = (Inr (), acc', (m', db'))"
  shows "manager_ok m' \<and> db_wf db' \<and> total_balance db' = total_balance db
    \<and> mn_included acc' = mn_included acc @ [t] \<and> mn_discarded acc' = mn_discarded acc
    \<and> (\<exists>r. receipt_for number t r \<and> mn_receipts acc' = mn_receipts acc @ [r])
    \<and> (\<forall>a. get_nonce db' a = (get_nonce db a + sent_by a [t]) mod 2 ^ 256)"
proof -
  obtain c db1 th where op: "apply_operation verify (stx_operation t) number (stx_sender t) (m, db) = (Inr c, (m', db1))"
    and th: "stx_hash t = Inr th" and db': "db' = increment_nonce (stx_sender t) db1"
    and acc': "acc' = acc\<lparr>mn_included := mn_included acc @ [t], mn_receipts := mn_receipts acc @ [settlement_receipt t number c th]\<rparr>"
    using run by (auto simp: mine_one_def Let_def split: sum.splits prod.splits)
  from operation_effect[OF ok(1,2) op] ok(3,4) have db1: "manager_ok m'" "db_wf db1" "total_balance db1 = total_balance db"
    by (simp_all add: supply_kept_def)
  have same: "get_nonce db1 a = get_nonce db a" for a
    using nonces.at_keeps[OF nonces_operation[of verify "stx_operation t" number "stx_sender t"], where s = "(m, db)"] op
    by (simp add: same_nonces_def)
  have "get_nonce db' a = (get_nonce db a + sent_by a [t]) mod 2 ^ 256" for a
  proof (cases "stx_sender t = a")
    case True
    then show ?thesis using same[of a]
      by (simp add: db' increment_nonce_def db_readers acct_update mask_eq sent_by_def)
  next
    case False
    then show ?thesis using same[of a] db_wf_nonce[OF ok(3), of a]
      by (simp add: db' increment_nonce_def db_readers acct_update sent_by_def word_range_def)
  qed
  moreover have "db_wf db'" "total_balance db' = total_balance db"
    using db1 by (simp_all add: db' db_wf_increment)
  ultimately show ?thesis
    using db1(1) th by (auto simp: acc' receipt_for_def settlement_receipt_def)
qed

abbreviation limit_reached :: "int option \<Rightarrow> mining \<Rightarrow> bool" where
  "limit_reached limit acc \<equiv> (case limit of None \<Rightarrow> False | Some k \<Rightarrow> int (length (mn_included acc)) \<ge> k)"

text \<open>One round: the limit stops the loop, the transaction is included, or it is discarded without a trace.\<close>

lemma mine_loop_round:
  assumes run: "mine_loop verify limit number (t # ts) acc (m, db) = (Inr acc', (m', db'))" and wf: "db_wf db"
  shows "limit_reached limit acc \<and> acc' = acc \<and> m' = m \<and> db' = db
    \<or> (\<exists>acc1 m1 db1. mine_one verify number t acc (m, db) = (Inr (), acc1, (m1, db1))
         \<and> mine_loop verify limit number ts acc1 (m1, db1) = (Inr acc', (m', db')))
    \<or> (\<exists>m1. mg_channels m1 = mg_channels m \<and> mg_payments m1 = mg_payments m
         \<and> mine_loop verify limit number ts (acc\<lparr>mn_discarded := mn_discarded acc @ [t]\<rparr>) (m1, db) = (Inr acc', (m', db')))"
proof (cases "limit_reached limit acc")
  case True
  then show ?thesis using run by simp
next
  case going: False
  obtain r acc1 m1 db1 where one: "mine_one verify number t acc (m, db) = (r, acc1, (m1, db1))"
    by (metis prod.exhaust)
  show ?thesis
  proof (cases r)
    case (Inr u)
    then show ?thesis using going run one by simp
  next
    case (Inl e)
    obtain r2 m2 where undo: "restore (snapshot m) m1 = (r2, m2)" by (cases "restore (snapshot m) m1")
    obtain th where th: "stx_hash t = Inr th" and loop:
      "mine_loop verify limit number ts (acc1\<lparr>mn_discarded := mn_discarded acc1 @ [t]\<rparr>) (m2, statedb_restore (statedb_snapshot db) db1)
         = (Inr acc', (m', db'))"
      using going run one Inl undo by (auto simp: Let_def split: sum.splits)
    have "acc1 = acc" using one Inl th by (auto simp: mine_one_def Let_def split: sum.splits prod.splits)
    moreover have "statedb_restore (statedb_snapshot db) db1 = db"
      using restore_id[of "statedb_snapshot db" db1] snapshot_id[OF wf] wf by simp
    moreover have "mg_channels m2 = mg_channels m" "mg_payments m2 = mg_payments m"
      using restore_fields[of "snapshot m" m1] by (simp_all only: undo) (simp_all add: snapshot_def)
    ultimately show ?thesis using loop by auto
  qed
qed

lemma split_included:
  "split_queue limit number ts acc1 acc' handled inc dis rs \<Longrightarrow> mn_included acc1 = mn_included acc @ [t]
   \<Longrightarrow> mn_discarded acc1 = mn_discarded acc \<Longrightarrow> receipt_for number t r \<Longrightarrow> mn_receipts acc1 = mn_receipts acc @ [r]
   \<Longrightarrow> split_queue limit number (t # ts) acc acc' (t # handled) (t # inc) dis (r # rs)"
  by (auto simp: split_queue_def intro: Cons_in_shuffles_leftI)

lemma split_discarded:
  "split_queue limit number ts (acc\<lparr>mn_discarded := mn_discarded acc @ [t]\<rparr>) acc' handled inc dis rs
   \<Longrightarrow> split_queue limit number (t # ts) acc acc' (t # handled) inc (t # dis) rs"
  by (auto simp: split_queue_def intro: Cons_in_shuffles_rightI)

lemma mined_nothing:
  assumes "manager_ok m" "db_wf db" "ts = [] \<or> limit_reached limit acc"
  shows "mined limit number ts acc db acc m db"
proof -
  have "split_queue limit number ts acc acc [] [] [] []"
    using assms(3) by (auto simp: split_queue_def split: option.splits)
  moreover have "get_nonce db a = (get_nonce db a + sent_by a []) mod 2 ^ 256" for a
    using db_wf_nonce[OF assms(2), of a] by (simp add: sent_by_def word_range_def)
  ultimately show ?thesis using assms(1,2) unfolding mined_def by blast
qed

lemma mined_included:
  assumes t: "mn_included acc1 = mn_included acc @ [t]" "mn_discarded acc1 = mn_discarded acc"
      "receipt_for number t r" "mn_receipts acc1 = mn_receipts acc @ [r]" "total_balance db1 = total_balance db"
      "\<And>a. get_nonce db1 a = (get_nonce db a + sent_by a [t]) mod 2 ^ 256"
    and rest: "mined limit number ts acc1 db1 acc' m' db'"
  shows "mined limit number (t # ts) acc db acc' m' db'"
proof -
  obtain handled inc dis rs where parts: "split_queue limit number ts acc1 acc' handled inc dis rs"
    "\<forall>a. get_nonce db' a = (get_nonce db1 a + sent_by a inc) mod 2 ^ 256"
    using rest unfolding mined_def by blast
  have nonce: "get_nonce db' a = (get_nonce db a + sent_by a (t # inc)) mod 2 ^ 256" for a
  proof -
    have "sent_by a (t # inc) = sent_by a [t] + sent_by a inc" by (simp add: sent_by_def)
    then show ?thesis using parts(2) t(6)[of a] by (simp add: mod_simps add.assoc)
  qed
  note split = split_included[OF parts(1) t(1-4)]
  have kept: "manager_ok m'" "db_wf db'" "total_balance db' = total_balance db"
    using rest t(5) by (simp_all add: mined_def)
  show ?thesis unfolding mined_def by (intro conjI exI allI) (rule kept split nonce)+
qed

lemma mined_discarded:
  "mined limit number ts (acc\<lparr>mn_discarded := mn_discarded acc @ [t]\<rparr>) db acc' m' db' \<Longrightarrow> mined limit number (t # ts) acc db acc' m' db'"
  unfolding mined_def using split_discarded by blast

lemma mine_loop_mined:
  assumes "list_all stx_wf ts" "manager_ok m" "db_wf db" "total_balance db < 2 ^ 256"
    and "mine_loop verify limit number ts acc (m, db) = (Inr acc', (m', db'))"
  shows "mined limit number ts acc db acc' m' db'"
  using assms
proof (induction ts arbitrary: acc m db)
  case Nil
  then show ?case by (simp add: mined_nothing)
next
  case (Cons t ts)
  from Cons.prems(1) have t: "stx_wf t" "list_all stx_wf ts" by simp_all
  from mine_loop_round[OF Cons.prems(5,3)] show ?case
  proof (elim disjE exE conjE, goal_cases)
    case 1
    then show ?case using Cons.prems(2,3) by (simp add: mined_nothing)
  next
    case (2 acc1 m1 db1)
    from mine_one_included[OF t(1) Cons.prems(2-4) 2(1)] obtain r where one: "manager_ok m1" "db_wf db1"
      "total_balance db1 = total_balance db" "mn_included acc1 = mn_included acc @ [t]" "mn_discarded acc1 = mn_discarded acc"
      "receipt_for number t r" "mn_receipts acc1 = mn_receipts acc @ [r]"
      "\<forall>a. get_nonce db1 a = (get_nonce db a + sent_by a [t]) mod 2 ^ 256" by blast
    have "mined limit number ts acc1 db1 acc' m' db'"
      by (rule Cons.IH[OF t(2) one(1,2) _ 2(2)]) (use one(3) Cons.prems(4) in simp)
    then show ?case by (rule mined_included[OF one(4-7,3) one(8)[rule_format]])
  next
    case (3 m1)
    have "manager_ok m1" using 3(1,2) Cons.prems(2) manager_ok_same[of m1 m] by simp
    from Cons.IH[OF t(2) this Cons.prems(3,4) 3(3)] show ?case by (rule mined_discarded)
  qed
qed

text \<open>The manager stays valid also when the loop raises.\<close>

lemma mine_loop_manager:
  assumes "list_all stx_wf ts" "manager_ok m"
  shows "manager_ok (fst (snd (mine_loop verify limit number ts acc (m, db))))"
  using assms
proof (induction ts arbitrary: acc m db)
  case (Cons t ts)
  obtain r acc1 m1 db1 where one: "mine_one verify number t acc (m, db) = (r, acc1, (m1, db1))" by (metis prod.exhaust)
  obtain r0 m0 db0 where op: "apply_operation verify (stx_operation t) number (stx_sender t) (m, db) = (r0, (m0, db0))"
    by (metis prod.exhaust)
  have "m1 = m0" using one op by (auto simp: mine_one_def Let_def split: sum.splits prod.splits)
  with operation_effect[OF _ Cons.prems(2) op] Cons.prems(1) have m1: "manager_ok m1" by simp
  obtain r2 m2 where undo: "restore (snapshot m) m1 = (r2, m2)" by (cases "restore (snapshot m) m1")
  have "mg_channels m2 = mg_channels m" "mg_payments m2 = mg_payments m"
    using restore_fields[of "snapshot m" m1] by (simp_all only: undo) (simp_all add: snapshot_def)
  with Cons.prems(2) have m2: "manager_ok m2" using manager_ok_same[of m2 m] by simp
  have IH: "manager_ok (fst (snd (mine_loop verify limit number ts acc (m, db))))" if "manager_ok m" for acc m db
    using Cons.IH that Cons.prems(1) by simp
  show ?case
    using IH[OF m1] IH[OF m2] m2 Cons.prems(2) by (cases r; cases r2) (simp_all add: one undo Let_def split: sum.split)
qed simp

end
