(* ===== verification/Phantom_Chain.thy ===== *)
theory Phantom_Chain
  imports Phantom_Mining
begin

text \<open>
  The settlement chain as a whole: the invariant of every chain that submissions, mining and calls of the
  manager can reach from its genesis, which ties the channels, the mempool, the ledger and the blocks
  together.
\<close>

section \<open>Blocks of the chain\<close>

lemma validated_without_payload:
  "validate_block_structure cfg b parent (Some p) = Inr () \<Longrightarrow> validate_block_structure cfg b parent None = Inr ()"
  by (auto simp: validate_block_structure_def validate_gas_def validate_roots_def Let_def split: if_splits)

lemma build_block_links:
  assumes "build_block cfg parent txs (OutcomePayload payload) timestamp gas_limit beneficiary extra ommers difficulty mix nonce = Inr b"
  shows "validate_block_structure cfg b parent None = Inr ()"
    and "bh_number (blk_header b) = (case parent_header_of parent of None \<Rightarrow> 0 | Some h \<Rightarrow> bh_number h + 1)"
    and "resolved_state_root payload = Inr (bh_state_root (blk_header b))"
  using assms
  by (auto simp: build_block_def normalize_execution_payload_def Let_def mk_block_header_def header_hash_arg_def
      intro: validated_without_payload)

definition record_ok :: "int \<Rightarrow> phantom_block \<Rightarrow> bool" where
  "record_ok funds r \<longleftrightarrow> db_wf (pb_post_state r) \<and> total_balance (pb_post_state r) = funds
     \<and> compute_state_root (pb_post_state r) = Inr (bh_state_root (blk_header (pb_block r)))
     \<and> list_all2 (receipt_for (bh_number (blk_header (pb_block r)))) (pb_transactions r) (pb_receipts r)"

lemma phantom_block_links:
  assumes "phantom_block_of cfg parent db timestamp gas_limit beneficiary txs receipts = Inr r" "db_wf db"
  shows "pb_post_state r = db" "pb_transactions r = txs" "pb_receipts r = receipts"
    and "compute_state_root db = Inr (bh_state_root (blk_header (pb_block r)))"
    and "\<exists>h. block_hash (pb_block r) = Inr h"
    and "validate_block_structure cfg (pb_block r) (map_option (\<lambda>r. ParentBlock (pb_block r)) parent) None = Inr ()"
    and "bh_number (blk_header (pb_block r)) = (case parent of None \<Rightarrow> 0 | Some p \<Rightarrow> bh_number (blk_header (pb_block p)) + 1)"
proof -
  obtain b bs where b: "build_block cfg (map_option (\<lambda>r. ParentBlock (pb_block r)) parent) [] (OutcomePayload (phantom_payload db))
      timestamp gas_limit beneficiary [] [] 0 None (replicate 8 0) = Inr b" "block_serialize b = Inr bs"
    and r: "r = \<lparr>pb_block = b, pb_post_state = statedb_clone db,
      pb_total_difficulty = (case parent of None \<Rightarrow> 0 | Some r \<Rightarrow> pb_total_difficulty r) + bh_difficulty (blk_header b),
      pb_size = int (length bs), pb_transactions = txs, pb_receipts = receipts\<rparr>"
    using assms(1) by (auto simp: phantom_block_of_def mk_execution_payload_def phantom_payload_def)
  note links = build_block_links[OF b(1)]
  show "pb_post_state r = db" "pb_transactions r = txs" "pb_receipts r = receipts"
    by (simp_all add: r statedb_clone_id[OF assms(2)])
  show "compute_state_root db = Inr (bh_state_root (blk_header (pb_block r)))"
    using links(3) by (simp add: r resolved_state_root_def phantom_payload_def statedb_clone_id[OF assms(2)])
  show "\<exists>h. block_hash (pb_block r) = Inr h"
    using b(2) by (auto simp: r block_serialize_def block_container_def block_hash_def header_hash_def)
  show "validate_block_structure cfg (pb_block r) (map_option (\<lambda>r. ParentBlock (pb_block r)) parent) None = Inr ()"
    using links(1) by (simp add: r)
  show "bh_number (blk_header (pb_block r)) = (case parent of None \<Rightarrow> 0 | Some p \<Rightarrow> bh_number (blk_header (pb_block p)) + 1)"
    using links(2) by (cases parent) (simp_all add: r parent_header_of_def)
qed

section \<open>The invariant\<close>

text \<open>
  The records from the head down to the genesis: each block is valid on the one below, and its ledger
  differs from the one below in the nonces of the senders by the transactions mined in it.
\<close>

definition linked :: "phantom_block \<Rightarrow> phantom_block \<Rightarrow> bool" where
  "linked r p \<longleftrightarrow> pb_transactions r \<noteq> [] \<and> (\<forall>a. get_nonce (pb_post_state r) a
     = (get_nonce (pb_post_state p) a + sent_by a (pb_transactions r)) mod 2 ^ 256)"

fun records_ok :: "int \<Rightarrow> phantom_block list \<Rightarrow> bool" where
  "records_ok funds [] \<longleftrightarrow> True"
| "records_ok funds [r] \<longleftrightarrow> record_ok funds r \<and> pb_transactions r = []"
| "records_ok funds (r # p # rs) \<longleftrightarrow> record_ok funds r \<and> linked r p \<and> records_ok funds (p # rs)"

definition numbered :: "phantom_block list \<Rightarrow> (int, phantom_block) dict" where
  "numbered rs = map (\<lambda>r. (bh_number (blk_header (pb_block r)), r)) (rev rs)"

definition chain_ok :: "int \<Rightarrow> phantom_block list \<Rightarrow> settlement_chain \<Rightarrow> bool" where
  "chain_ok funds rs c \<longleftrightarrow> manager_ok (sc_manager c) \<and> mempool_ok (sc_mempool c)
     \<and> list_all (\<lambda>p. stx_wf (pe_tx p)) (map snd (mp_by_hash (sc_mempool c)))
     \<and> sc_by_number c = numbered rs \<and> rs \<noteq> [] \<and> chain_valid (sc_config c) (map pb_block rs) \<and> records_ok funds rs"

lemma numbered_keys: "chain_valid cfg (map pb_block rs) \<Longrightarrow> map fst (numbered rs) = map int [0..<length rs]"
proof (induction rs)
  case (Cons r rs)
  have "bh_number (blk_header (pb_block r)) = int (length rs)" using chain_number[of cfg "pb_block r"] Cons.prems by simp
  moreover have "map fst (numbered rs) = map int [0..<length rs]"
  proof (cases rs)
    case (Cons p ps)
    then have "chain_valid cfg (map pb_block rs)" using Cons.prems by simp
    then show ?thesis by (rule Cons.IH)
  qed (simp add: numbered_def)
  ultimately show ?case by (simp add: numbered_def)
qed simp

lemma numbered_distinct: "chain_valid cfg (map pb_block rs) \<Longrightarrow> distinct (map fst (numbered rs))"
proof -
  assume "chain_valid cfg (map pb_block rs)"
  then have "map fst (numbered rs) = map int [0..<length rs]" by (rule numbered_keys)
  moreover have "distinct (map int [0..<n])" for n by (simp add: distinct_map inj_on_def)
  ultimately show ?thesis by metis
qed

lemma head_of_chain:
  assumes "chain_ok funds (r # rs) c"
  shows "head_record c = Inr r"
proof -
  have cv: "chain_valid (sc_config c) (map pb_block (r # rs))" and by_number: "sc_by_number c = numbered (r # rs)"
    using assms by (simp_all add: chain_ok_def)
  have keys: "map fst (sc_by_number c) = map int [0..<Suc (length rs)]" using numbered_keys[OF cv] by_number by simp
  have "Max (set (map fst (sc_by_number c))) = int (length rs)"
    unfolding keys by (intro Max_eqI) auto
  moreover have "distinct (map fst (sc_by_number c))" using numbered_distinct[OF cv] by (simp add: by_number)
  moreover have "(int (length rs), r) \<in> set (sc_by_number c)"
    using chain_number[of "sc_config c" "pb_block r" "map pb_block rs"] cv by (simp add: by_number numbered_def)
  ultimately have "dict_get (sc_by_number c) (Max (set (map fst (sc_by_number c)))) = Some r" by simp
  moreover have "sc_by_number c \<noteq> []" using by_number by (simp add: numbered_def)
  ultimately show ?thesis by (simp add: head_record_def del: map_of_eq_Some_iff)
qed

lemma store_block_run:
  assumes "store_block r c = (res, c')" "block_hash (pb_block r) = Inr h"
  shows "res = Inr ()" "sc_manager c' = sc_manager c" "sc_mempool c' = sc_mempool c" "sc_config c' = sc_config c"
    "sc_by_number c' = dict_put (bh_number (blk_header (pb_block r))) r (sc_by_number c)"
    "sc_state c' = statedb_clone (pb_post_state r)"
  using assms by (auto simp: store_block_def sem_defs)

lemma chain_extended:
  assumes ok: "chain_ok funds (p # rs) c" and r: "record_ok funds r" "linked r p"
    and valid: "validate_block_structure (sc_config c) (pb_block r) (Some (ParentBlock (pb_block p))) None = Inr ()"
    and c': "sc_manager c' = sc_manager c" "sc_mempool c' = sc_mempool c" "sc_config c' = sc_config c"
      "sc_by_number c' = dict_put (bh_number (blk_header (pb_block r))) r (sc_by_number c)"
  shows "chain_ok funds (r # p # rs) c'"
proof -
  have cv: "chain_valid (sc_config c) (map pb_block (r # p # rs))" using ok valid by (simp add: chain_ok_def)
  from numbered_distinct[OF cv] have "bh_number (blk_header (pb_block r)) \<notin> set (map fst (numbered (p # rs)))" by (auto simp: numbered_def)
  from pool_put_new[OF this, of r] have "sc_by_number c' = numbered (r # p # rs)"
    using ok by (simp add: c' chain_ok_def) (simp add: numbered_def)
  then show ?thesis using ok cv r c' by (simp add: chain_ok_def)
qed

section \<open>Operations of the chain\<close>

lemma pool_entries_wf:
  "mempool_ok mp \<Longrightarrow> list_all (\<lambda>p. stx_wf (pe_tx p)) (map snd (mp_by_hash mp)) \<Longrightarrow> list_all stx_wf (map pe_tx (ordered mp))"
  by (simp add: list_all_iff ordered_def)

lemma pool_add_wf:
  assumes "mempool_add t db mp = (r, mp')" "stx_wf t" "list_all (\<lambda>p. stx_wf (pe_tx p)) (map snd (mp_by_hash mp))"
  shows "list_all (\<lambda>p. stx_wf (pe_tx p)) (map snd (mp_by_hash mp'))"
proof (cases r)
  case (Inl e)
  with assms mempool_add_Inl[of t db mp e mp'] show ?thesis by simp
next
  case (Inr p)
  with assms(1) obtain th where th: "hash_hex th \<notin> set (map fst (mp_by_hash mp))" and p: "pe_tx p = t"
    and mp': "mp_by_hash mp' = dict_put (hash_hex th) p (mp_by_hash mp)"
    unfolding set_map by (auto simp: mempool_add_Inr)
  show ?thesis using assms(2,3) p by (simp add: mp' pool_put_new[OF th])
qed

lemma pool_remove_wf:
  "list_all P (map snd (mp_by_hash mp)) \<Longrightarrow> list_all P (map snd (mp_by_hash (snd (mempool_remove t mp))))"
  unfolding mempool_remove_def
  by (auto simp: sem_defs list_all_iff AList.delete_eq split: sum.splits option.splits)

lemma pool_clear_wf:
  "list_all P (map snd (mp_by_hash mp)) \<Longrightarrow> list_all P (map snd (mp_by_hash (snd (mempool_clear ts mp))))"
proof (induction ts arbitrary: mp)
  case (Cons t ts)
  then show ?case using pool_remove_wf[OF Cons.prems, of t]
    by (cases "mempool_remove t mp"; cases "fst (mempool_remove t mp)") (simp_all add: sem_defs)
qed (simp add: sem_defs)

lemma submit_chain_ok:
  assumes ok: "chain_ok funds rs c" and t: "stx_wf t" and run: "submit t c = (r, c')"
  shows "chain_ok funds rs c'"
proof -
  obtain p ps where rs: "rs = p # ps" using ok by (cases rs) (simp_all add: chain_ok_def)
  obtain r0 mp where add: "mempool_add t (pb_post_state p) (sc_mempool c) = (r0, mp)"
    by (cases "mempool_add t (pb_post_state p) (sc_mempool c)")
  have c': "c' = c\<lparr>sc_mempool := mp\<rparr>"
    using run head_of_chain[of funds p ps c] ok rs by (simp add: submit_def sem_defs add)
  have "mempool_ok mp"
  proof (cases r0)
    case (Inl e)
    with mempool_add_Inl[of t "pb_post_state p" "sc_mempool c" e mp] add ok show ?thesis by (simp add: chain_ok_def)
  next
    case (Inr q)
    with mempool_add_ok[of "sc_mempool c" t "pb_post_state p" q mp] add ok show ?thesis by (simp add: chain_ok_def)
  qed
  with pool_add_wf[OF add t] ok show ?thesis by (simp add: c' chain_ok_def)
qed

lemma chain_ok_parts:
  assumes "chain_ok funds rs c" "manager_ok m" "mempool_ok mp" "list_all (\<lambda>p. stx_wf (pe_tx p)) (map snd (mp_by_hash mp))"
  shows "chain_ok funds rs (c\<lparr>sc_manager := m, sc_mempool := mp\<rparr>)"
  using assms by (simp add: chain_ok_def)

text \<open>What is left of \<open>mine_pending_block\<close> after the loop and the removal from the mempool.\<close>

lemma seal_chain_ok:
  assumes c: "chain_ok funds (p # ps) c" and db: "db_wf db" "total_balance db = funds"
    and acc: "list_all2 (receipt_for (bh_number (blk_header (pb_block p)) + 1)) txs receipts" "txs \<noteq> []"
      "\<forall>a. get_nonce db a = (get_nonce (pb_post_state p) a + sent_by a txs) mod 2 ^ 256"
    and run: "(case phantom_block_of (sc_config c) (Some p) db timestamp gas beneficiary txs receipts of
      Inl e \<Rightarrow> (Inl e, c) | Inr b \<Rightarrow> seqM (store_block b) (retM (Some b)) c) = (res, c')"
  shows "chain_ok funds (p # ps) c' \<or> (\<exists>b. res = Inr (Some b) \<and> chain_ok funds (b # p # ps) c')"
proof (cases "phantom_block_of (sc_config c) (Some p) db timestamp gas beneficiary txs receipts")
  case (Inl e)
  then show ?thesis using run c by simp
next
  case (Inr r)
  note links = phantom_block_links[OF Inr db(1)]
  from links(5) obtain h where h: "block_hash (pb_block r) = Inr h" by blast
  obtain stored c1 where store: "store_block r c = (stored, c1)" by (cases "store_block r c")
  note fields = store_block_run[OF store h]
  have "record_ok funds r" using links(4,7) db acc(1) by (simp add: record_ok_def links(1-3))
  moreover have "linked r p" using acc(2,3) by (simp add: linked_def links(1,2))
  moreover have "validate_block_structure (sc_config c) (pb_block r) (Some (ParentBlock (pb_block p))) None = Inr ()"
    using links(6) by simp
  ultimately have "chain_ok funds (r # p # ps) c1" by (rule chain_extended[OF c _ _ _ fields(2-5)])
  then show ?thesis using run Inr by (auto simp: sem_defs store fields(1))
qed

text \<open>Mining: the chain stays as it is, or it grows by the block that is returned.\<close>

lemma mine_chain_ok:
  assumes ok: "chain_ok funds rs c" and small: "funds < 2 ^ 256" and run: "mine_pending_block verify limit c = (r, c')"
  shows "chain_ok funds rs c' \<or> (\<exists>b. r = Inr (Some b) \<and> chain_ok funds (b # rs) c')"
proof -
  obtain p ps where rs: "rs = p # ps" using ok by (cases rs) (simp_all add: chain_ok_def)
  have hd: "head_record c = Inr p" using head_of_chain ok rs by simp
  have rp: "record_ok funds p" using ok rs by (cases ps) (simp_all add: chain_ok_def)
  then have db: "db_wf (pb_post_state p)" "total_balance (pb_post_state p) = funds" by (simp_all add: record_ok_def)
  have m: "manager_ok (sc_manager c)" and mp: "mempool_ok (sc_mempool c)"
    and pool: "list_all (\<lambda>p. stx_wf (pe_tx p)) (map snd (mp_by_hash (sc_mempool c)))"
    using ok by (simp_all add: chain_ok_def)
  let ?queue = "map pe_tx (ordered (sc_mempool c))" and ?empty = "\<lparr>mn_included = [], mn_receipts = [], mn_discarded = []\<rparr>"
  let ?number = "bh_number (blk_header (pb_block p)) + 1"
  have queue: "list_all stx_wf ?queue" by (rule pool_entries_wf[OF mp pool])
  obtain r1 m' db' where loop: "mine_loop verify limit ?number ?queue ?empty (sc_manager c, pb_post_state p) = (r1, (m', db'))"
    by (metis prod.exhaust)
  have m': "manager_ok m'" using mine_loop_manager[OF queue m, of verify limit ?number ?empty "pb_post_state p"] loop by simp
  show ?thesis
  proof (cases "ordered (sc_mempool c) = []")
    case True
    then show ?thesis using run ok by (simp add: mine_pending_block_def)
  next
    case pending: False
    show ?thesis
    proof (cases r1)
      case (Inl e)
      then have "c' = c\<lparr>sc_manager := m', sc_mempool := sc_mempool c\<rparr>"
        using run pending hd loop by (auto simp: mine_pending_block_def Let_def statedb_clone_id[OF db(1)])
      with chain_ok_parts[OF ok m' mp pool] show ?thesis by simp
    next
      case (Inr acc)
      obtain r2 mp' where clear: "mempool_clear (mn_included acc @ mn_discarded acc) (sc_mempool c) = (r2, mp')"
        by (cases "mempool_clear (mn_included acc @ mn_discarded acc) (sc_mempool c)")
      have mp': "mempool_ok mp'" "list_all (\<lambda>p. stx_wf (pe_tx p)) (map snd (mp_by_hash mp'))"
        using mempool_clear_ok[OF mp] pool_clear_wf[OF pool] clear by (metis snd_conv)+
      let ?c1 = "c\<lparr>sc_manager := m', sc_mempool := mp'\<rparr>"
      have c1: "chain_ok funds rs ?c1" by (rule chain_ok_parts[OF ok m' mp'])
      from loop Inr have loop': "mine_loop verify limit ?number ?queue ?empty (sc_manager c, pb_post_state p) = (Inr acc, (m', db'))"
        by simp
      from mine_loop_mined[OF queue m db(1) _ loop'] small db(2) have "mined limit ?number ?queue ?empty (pb_post_state p) acc m' db'"
        by simp
      then have db': "db_wf db'" "total_balance db' = funds" "list_all2 (receipt_for ?number) (mn_included acc) (mn_receipts acc)"
        "\<forall>a. get_nonce db' a = (get_nonce (pb_post_state p) a + sent_by a (mn_included acc)) mod 2 ^ 256"
        unfolding mined_def split_queue_def by (auto simp: db(2))
      show ?thesis
      proof (cases "\<exists>u. r2 = Inr u \<and> mn_included acc \<noteq> []")
        case False
        then have "c' = ?c1" using run pending hd loop Inr clear
          by (auto simp: mine_pending_block_def Let_def statedb_clone_id[OF db(1)] split: sum.splits if_splits)
        with c1 show ?thesis by simp
      next
        case True
        have rest: "(case phantom_block_of (sc_config c) (Some p) db' (bh_timestamp (blk_header (pb_block p)) + 1)
            (bh_gas_limit (blk_header (pb_block p))) (bh_coinbase (blk_header (pb_block p))) (mn_included acc) (mn_receipts acc) of
            Inl e \<Rightarrow> (Inl e, ?c1) | Inr b \<Rightarrow> seqM (store_block b) (retM (Some b)) ?c1) = (r, c')"
          using run pending hd loop Inr clear True
          by (auto simp: mine_pending_block_def Let_def statedb_clone_id[OF db(1)])
        show ?thesis
          unfolding rs by (rule seal_chain_ok[OF c1[unfolded rs] db'(1-3) _ db'(4)]) (use rest True in simp_all)
      qed
    qed
  qed
qed

section \<open>Reachable chains\<close>

datatype chain_call = SubmitTx settlement_tx | MineBlock "int option" | ManagerCall int channel_call

definition run_chain_call :: "keyed_hash \<Rightarrow> update_verifier \<Rightarrow> chain_call \<Rightarrow> settlement_chain \<Rightarrow> settlement_chain" where
  "run_chain_call hmac verify call c =
     (case call of
        SubmitTx t \<Rightarrow> snd (submit t c)
      | MineBlock limit \<Rightarrow> snd (mine_pending_block verify limit c)
      | ManagerCall block x \<Rightarrow>
          (case snd (run_channel_call hmac verify block x (sc_manager c, sc_state c)) of
             (m, db) \<Rightarrow> c\<lparr>sc_manager := m, sc_state := db\<rparr>))"

text \<open>The states inside submitted transactions and calls are \<open>ChannelState\<close> objects, validated when built.\<close>

definition chain_call_wf :: "chain_call \<Rightarrow> bool" where
  "chain_call_wf call = (case call of SubmitTx t \<Rightarrow> stx_wf t | MineBlock limit \<Rightarrow> True | ManagerCall block x \<Rightarrow> call_wf x)"

inductive chain_reached :: "keyed_hash \<Rightarrow> update_verifier \<Rightarrow> settlement_chain \<Rightarrow> settlement_chain \<Rightarrow> bool"
  for hmac verify start where
  chain_start: "chain_reached hmac verify start start"
| chain_step: "\<lbrakk>chain_reached hmac verify start c; chain_call_wf call\<rbrakk>
    \<Longrightarrow> chain_reached hmac verify start (run_chain_call hmac verify call c)"

inductive_cases chain_reached_cases: "chain_reached hmac verify start c"

lemma chain_call_ok:
  assumes ok: "chain_ok funds rs c" and small: "funds < 2 ^ 256" and call: "chain_call_wf call"
  shows "\<exists>new. chain_ok funds (new @ rs) (run_chain_call hmac verify call c)"
proof (cases call)
  case (SubmitTx t)
  with submit_chain_ok[OF ok, of t "fst (submit t c)" "snd (submit t c)"] call have
    "chain_ok funds ([] @ rs) (run_chain_call hmac verify call c)"
    by (simp add: run_chain_call_def chain_call_wf_def)
  then show ?thesis by blast
next
  case (MineBlock limit)
  from mine_chain_ok[OF ok small, of verify limit "fst (mine_pending_block verify limit c)" "snd (mine_pending_block verify limit c)"]
  have "chain_ok funds ([] @ rs) (run_chain_call hmac verify call c) \<or> (\<exists>b. chain_ok funds ([b] @ rs) (run_chain_call hmac verify call c))"
    by (auto simp: MineBlock run_chain_call_def)
  then show ?thesis by blast
next
  case (ManagerCall block x)
  obtain r m db where run: "run_channel_call hmac verify block x (sc_manager c, sc_state c) = (r, (m, db))" by (metis prod.exhaust)
  from channel_call_effect[OF _ _ run] ok call have "manager_ok m"
    by (simp add: chain_ok_def chain_call_wf_def ManagerCall)
  with ok have "chain_ok funds ([] @ rs) (run_chain_call hmac verify call c)"
    by (simp add: run_chain_call_def ManagerCall run chain_ok_def)
  then show ?thesis by blast
qed

lemma genesis_chain_ok:
  assumes m: "manager_ok m" and db: "db_wf db" and new: "new_settlement_chain m (Some db) cfg timestamp = Inr c"
  shows "\<exists>g. chain_ok (total_balance db) [g] c \<and> sc_config c = cfg"
proof -
  let ?c = "\<lparr>sc_manager = m, sc_state = db, sc_config = cfg, sc_mempool = new_mempool, sc_by_number = [], sc_by_hash = []\<rparr>"
  obtain r where r: "phantom_block_of cfg None db timestamp 30000000 0 [] [] = Inr r"
    and stored: "(case store_block r ?c of (Inl e, c') \<Rightarrow> Inl e | (Inr u, c') \<Rightarrow> Inr c') = Inr c"
    using new by (auto simp: new_settlement_chain_def Let_def statedb_clone_id[OF db])
  obtain res c1 where store: "store_block r ?c = (res, c1)" by (cases "store_block r ?c")
  note links = phantom_block_links[OF r db]
  from links(5) obtain h where h: "block_hash (pb_block r) = Inr h" by blast
  note fields = store_block_run[OF store h]
  have "c1 = c" using stored by (simp add: store fields(1))
  moreover have "record_ok (total_balance db) r" using links(4) db by (simp add: record_ok_def links(1-3))
  ultimately have "chain_ok (total_balance db) [r] c"
    using fields m links(7) new_mempool_ok by (auto simp: chain_ok_def numbered_def new_mempool_def links(2))
  with fields(4) \<open>c1 = c\<close> show ?thesis by auto
qed

lemma chain_reached_ok:
  "chain_reached hmac verify c0 c \<Longrightarrow> chain_ok funds rs c0 \<Longrightarrow> funds < 2 ^ 256
   \<Longrightarrow> \<exists>new. chain_ok funds (new @ rs) c"
proof (induction rule: chain_reached.induct)
  case (chain_step c call)
  then obtain new where "chain_ok funds (new @ rs) c" by blast
  from chain_call_ok[OF this chain_step.prems(2) chain_step.hyps(2), of hmac verify] show ?case
    by (metis append.assoc)
qed (auto intro: exI[of _ "[]"])

text \<open>
C11. Whatever transactions are submitted, mined and discarded and whatever is called on the manager, a settlement
chain consists of the blocks from its head down to its genesis, each valid on the one below: every ledger
holds exactly the genesis funds and is the one its block's state root commits to, every block carries one
receipt per transaction, the nonces of an account grow by its mined transactions, and channels and mempool
satisfy their invariants.
\<close>

theorem settlement_chain_invariant:
  assumes "manager_ok m" "db_wf db" "total_balance db < 2 ^ 256" "new_settlement_chain m (Some db) cfg timestamp = Inr c0"
    and "chain_reached hmac verify c0 c"
  shows "\<exists>rs. sc_by_number c = numbered rs \<and> head_record c = Inr (hd rs) \<and> chain_valid (sc_config c) (map pb_block rs)
    \<and> records_ok (total_balance db) rs \<and> manager_ok (sc_manager c) \<and> mempool_ok (sc_mempool c)"
proof -
  from genesis_chain_ok[OF assms(1,2,4)] obtain g where "chain_ok (total_balance db) [g] c0" by blast
  from chain_reached_ok[OF assms(5) this assms(3)] obtain rs where ok: "chain_ok (total_balance db) rs c" by blast
  then obtain r rest where "rs = r # rest" by (cases rs) (simp_all add: chain_ok_def)
  with head_of_chain[of "total_balance db" r rest c] ok show ?thesis
    by (intro exI[of _ rs]) (simp add: chain_ok_def)
qed

lemma demo_genesis: "\<exists>c. new_settlement_chain (new_manager 10 20 40 10 1000 None) (Some one_account) default_chain_config 0 = Inr c"
proof -
  note wf = one_account_facts(1)
  obtain sr where sr: "compute_state_root one_account = Inr sr" using one_account_facts(3) by blast
  define H where "H = \<lparr>bh_parent_hash = 0, bh_ommers_hash = EMPTY_OMMERS_HASH, bh_coinbase = 0,
       bh_state_root = sr, bh_transactions_root = EMPTY_TRIE_ROOT, bh_receipts_root = EMPTY_TRIE_ROOT,
       bh_logs_bloom = replicate 256 0, bh_difficulty = 0, bh_number = 0,
       bh_gas_limit = 30000000, bh_gas_used = 0, bh_timestamp = 0,
       bh_extra_data = [], bh_mix_hash = 0, bh_nonce = replicate 8 0, bh_base_fee = Some DEFAULT_INITIAL_BASE_FEE\<rparr>"
  define B where "B = \<lparr>blk_header = H, blk_transactions = [], blk_receipts = [], blk_ommers = []\<rparr>"
  have cfg: "cfg_fee_model default_chain_config = EIP1559" "expected_base_fee default_chain_config None = Inr DEFAULT_INITIAL_BASE_FEE"
    "cfg_max_extra_data_bytes default_chain_config = 32"
    by (simp_all add: default_chain_config_def expected_base_fee_def MAX_EXTRA_DATA_BYTES_def)
  have fee: "\<not> DEFAULT_INITIAL_BASE_FEE < 0" by (simp add: DEFAULT_INITIAL_BASE_FEE_def)
  have ok: "header_validate H = Inr ()" "header_wf H" "header_small H"
    using fee by (simp_all add: header_wf_def header_small_def header_validate_def H_def MAX_EXTRA_DATA_BYTES_def DEFAULT_INITIAL_BASE_FEE_def)
  have mk: "mk_block_header
      \<lparr>ha_parent_hash = HashObj 0, ha_ommers_hash = HashObj EMPTY_OMMERS_HASH, ha_coinbase = ArgAddress 0,
        ha_state_root = HashObj sr, ha_transactions_root = HashObj EMPTY_TRIE_ROOT, ha_receipts_root = HashObj EMPTY_TRIE_ROOT,
        ha_logs_bloom = replicate 256 0, ha_difficulty = 0, ha_number = 0, ha_gas_limit = 30000000, ha_gas_used = 0,
        ha_timestamp = 0, ha_extra_data = [], ha_mix_hash = HashObj 0, ha_nonce = replicate 8 0,
        ha_base_fee = Some DEFAULT_INITIAL_BASE_FEE\<rparr> = Inr H"
    using ok(1) by (simp add: mk_block_header_def header_hash_arg_def header_address_arg_def header_bytes_arg_def H_def)
  have root: "resolved_state_root (phantom_payload one_account) = Inr sr"
    using sr by (simp add: resolved_state_root_def phantom_payload_def statedb_clone_id[OF wf])
  have "validate_gas B (Some (phantom_payload one_account)) = Inr ()"
    by (simp add: validate_gas_def B_def H_def phantom_payload_def)
  moreover have "validate_roots B (Some (phantom_payload one_account)) = Inr ()"
    using root by (simp add: validate_roots_def B_def H_def empty_list_root compute_logs_bloom_def
        compute_ommers_hash_def EMPTY_OMMERS_HASH_def)
  moreover have "validate_header default_chain_config H = Inr ()"
    using ok(1) by (simp add: validate_header_def cfg H_def)
  moreover have "validate_base_fee default_chain_config B None = Inr ()"
    by (simp add: validate_base_fee_def parent_header_of_def cfg B_def H_def)
  ultimately have "validate_block_structure default_chain_config B None (Some (phantom_payload one_account)) = Inr ()"
    by (simp add: validate_block_structure_def B_def validate_against_parent_def parent_header_of_def)
  then have build: "build_block default_chain_config None [] (OutcomePayload (phantom_payload one_account)) 0 30000000 0 [] [] 0 None
      (replicate 8 0) = Inr B"
    using mk root
    by (simp add: build_block_def Let_def normalize_execution_payload_def phantom_payload_def parent_header_of_def cfg
        compute_ommers_hash_def EMPTY_OMMERS_HASH_def empty_list_root resolved_logs_bloom_def compute_logs_bloom_def B_def
        del: bindR_eq_Inr)
  have "\<exists>bs. block_serialize B = Inr bs"
    by (simp add: block_serialize_def block_container_def B_def header_encode[OF ok(2)])
  then obtain bs where ser: "block_serialize B = Inr bs" by blast
  have "\<exists>r. phantom_block_of default_chain_config None one_account 0 30000000 0 [] [] = Inr r"
    using build ser by (simp add: phantom_block_of_def mk_execution_payload_def phantom_payload_def)
  then obtain r where r: "phantom_block_of default_chain_config None one_account 0 30000000 0 [] [] = Inr r" by blast
  from phantom_block_links(5)[OF r wf] obtain h where "block_hash (pb_block r) = Inr h" by blast
  with r show ?thesis
    by (simp add: new_settlement_chain_def statedb_clone_id[OF wf] store_block_def sem_defs Let_def)
qed

theorem settlement_chain_invariant_witness:
  "\<exists>c rs. new_settlement_chain (new_manager 10 20 40 10 1000 None) (Some one_account) default_chain_config 0 = Inr c
     \<and> sc_by_number c = numbered rs \<and> records_ok 50000 rs"
proof -
  obtain c where c: "new_settlement_chain (new_manager 10 20 40 10 1000 None) (Some one_account) default_chain_config 0 = Inr c"
    using demo_genesis by blast
  have "total_balance one_account < 2 ^ 256" by (simp add: one_account_facts(2))
  from settlement_chain_invariant[OF new_manager_ok one_account_facts(1) this c chain_start] c show ?thesis
    by (auto simp: one_account_facts(2))
qed

end
