(* ===== verification/Consensus_Bft.thy ===== *)
theory Consensus_Bft
  imports Phantom_Json Signing
begin

text \<open>
  The voting of a committee on a block, \<open>consensus/networking/bft.py\<close>, with the data of \<open>types.py\<close> and the
  storing of finalised blocks in \<open>node.py\<close>. A node is its state; a handler is a program of the
  state-and-exception monad over one node that runs to its end. Calls of the network, the DHT and the
  gossip service are events in the order they are made. \<open>hashlib.sha256\<close> is the argument \<open>sha\<close>.
\<close>

section \<open>Data\<close>

type_synonym sha = "bytes \<Rightarrow> bytes"

definition payload_digest :: "sha \<Rightarrow> json \<Rightarrow> string" where
  "payload_digest sha v = bytes_hex (sha (canonical_json_bytes v))"

datatype message_type = BftPropose | BftPrevote | BftPrecommit | BftCommit

definition message_type_value :: "message_type \<Rightarrow> string" where
  "message_type_value t =
     (case t of BftPropose \<Rightarrow> ''BFT_PROPOSE'' | BftPrevote \<Rightarrow> ''BFT_PREVOTE'' | BftPrecommit \<Rightarrow> ''BFT_PRECOMMIT''
      | BftCommit \<Rightarrow> ''BFT_COMMIT'')"

record net_tx =
  nt_sender :: string
  nt_payload :: json
  nt_hash :: string

definition mk_net_tx :: "sha \<Rightarrow> string \<Rightarrow> json \<Rightarrow> string option \<Rightarrow> net_tx" where
  "mk_net_tx sha sender payload given =
     \<lparr>nt_sender = sender, nt_payload = payload,
      nt_hash = (case given of Some h \<Rightarrow> h
        | None \<Rightarrow> payload_digest sha (JObj [(''sender'', JStr sender), (''payload'', payload)]))\<rparr>"

definition net_tx_json :: "net_tx \<Rightarrow> json" where
  "net_tx_json t = JObj [(''sender'', JStr (nt_sender t)), (''payload'', nt_payload t), (''hash'', JStr (nt_hash t))]"

record net_block =
  nb_parent_hash :: string
  nb_transactions :: "net_tx list"
  nb_signatures :: "string list"
  nb_committee_id :: "string option"
  nb_proposer_id :: int
  nb_height :: int
  nb_members :: "int list"
  nb_hash :: string

text \<open>What the hash of a block covers: all of it but the signatures.\<close>

definition block_json :: "net_block \<Rightarrow> json" where
  "block_json b = JObj
     [(''parent_hash'', JStr (nb_parent_hash b)), (''transactions'', JArr (map net_tx_json (nb_transactions b))),
      (''committee_id'', (case nb_committee_id b of None \<Rightarrow> JNull | Some c \<Rightarrow> JStr c)),
      (''proposer_id'', JInt (nb_proposer_id b)), (''height'', JInt (nb_height b)),
      (''committee_members'', JArr (map JInt (nb_members b)))]"

definition block_digest :: "sha \<Rightarrow> net_block \<Rightarrow> string" where
  "block_digest sha b = payload_digest sha (block_json b)"

text \<open>\<open>Block(...)\<close> without a given hash.\<close>

definition mk_net_block :: "sha \<Rightarrow> net_block \<Rightarrow> net_block" where
  "mk_net_block sha b = b\<lparr>nb_hash := block_digest sha b\<rparr>"

definition with_signatures :: "string list \<Rightarrow> net_block \<Rightarrow> net_block" where
  "with_signatures sigs b = b\<lparr>nb_signatures := sigs\<rparr>"

text \<open>The scores inside a selection are not used by the voting.\<close>

record selection =
  se_committee_id :: string
  se_key :: string
  se_members :: "int list"
  se_candidates :: "int list"
  se_leader :: int

record vote =
  vt_phase :: message_type
  vt_block_hash :: string
  vt_committee_id :: string
  vt_voter :: int
  vt_signature :: string

datatype message_payload = Proposal net_block selection | VoteBy vote

record message =
  ms_type :: message_type
  ms_payload :: message_payload
  ms_sender :: int

record bft_result =
  bf_committee_id :: string
  bf_block_hash :: string
  bf_committed :: bool
  bf_signatures :: "string list"
  bf_members :: "int list"

text \<open>\<open>ss_future\<close>: no future, a pending one, or its result.\<close>

record session =
  ss_block :: net_block
  ss_selection :: selection
  ss_prevotes :: "(int, string) dict"
  ss_precommits :: "(int, string) dict"
  ss_commits :: "(int, string) dict"
  ss_prevote_sent :: bool
  ss_precommit_sent :: bool
  ss_commit_sent :: bool
  ss_finalized :: "net_block option"
  ss_future :: "bft_result option option"

definition new_session :: "net_block \<Rightarrow> selection \<Rightarrow> session" where
  "new_session b sel = \<lparr>ss_block = b, ss_selection = sel, ss_prevotes = [], ss_precommits = [], ss_commits = [],
     ss_prevote_sent = False, ss_precommit_sent = False, ss_commit_sent = False, ss_finalized = None, ss_future = None\<rparr>"

datatype event = Sent int message | StoredBlock string net_block | StoredTx string net_tx | Gossiped net_block

type_synonym session_key = "string \<times> string"

record node =
  nd_id :: int
  nd_malicious :: bool
  nd_secret :: bytes
  nd_sessions :: "(session_key, session) dict"
  nd_pending_votes :: "(session_key, vote list) dict"
  nd_pending_txs :: "(string, net_tx) dict"
  nd_blocks_by_hash :: "(string, net_block) dict"
  nd_blocks_by_height :: "(int, net_block) dict"
  nd_head_hash :: string
  nd_head_height :: int
  nd_events :: "event list"

type_synonym 'a noding = "(node, py_error, 'a) sem"

definition new_node :: "int \<Rightarrow> bool \<Rightarrow> bytes \<Rightarrow> node" where
  "new_node i malicious secret =
     \<lparr>nd_id = i, nd_malicious = malicious, nd_secret = secret, nd_sessions = [], nd_pending_votes = [], nd_pending_txs = [],
      nd_blocks_by_hash = [], nd_blocks_by_height = [], nd_head_hash = ''genesis'', nd_head_height = 0, nd_events = []\<rparr>"

section \<open>Votes and sessions\<close>

definition quorum_size :: "nat \<Rightarrow> nat" where
  "quorum_size member_count = (2 * member_count) div 3 + 1"

definition vote_key :: "vote \<Rightarrow> session_key" where
  "vote_key v = (vt_committee_id v, vt_block_hash v)"

text \<open>\<open>str.encode\<close> on characters up to U+00FF.\<close>

definition utf8_bytes :: "string \<Rightarrow> bytes" where
  "utf8_bytes t = concat (map (\<lambda>c. let n = of_char c :: nat in
     if n < 128 then [word_of_nat n] else [word_of_nat (192 + n div 64), word_of_nat (128 + n mod 64)]) t)"

definition sign_vote :: "sha \<Rightarrow> node \<Rightarrow> message_type \<Rightarrow> string \<Rightarrow> string \<Rightarrow> string" where
  "sign_vote sha n phase block_hash committee_id =
     bytes_hex (sha (nd_secret n @ utf8_bytes
       (int_text (nd_id n) @ '':'' @ message_type_value phase @ '':'' @ block_hash @ '':'' @ committee_id)))"

definition own_vote :: "sha \<Rightarrow> node \<Rightarrow> message_type \<Rightarrow> session_key \<Rightarrow> vote" where
  "own_vote sha n phase k =
     \<lparr>vt_phase = phase, vt_block_hash = snd k, vt_committee_id = fst k, vt_voter = nd_id n,
      vt_signature = sign_vote sha n phase (snd k) (fst k)\<rparr>"

definition put_session :: "session_key \<Rightarrow> session \<Rightarrow> unit noding" where
  "put_session k s = modM (\<lambda>n. n\<lparr>nd_sessions := dict_put k s (nd_sessions n)\<rparr>)"

definition log_event :: "event \<Rightarrow> unit noding" where
  "log_event e = modM (\<lambda>n. n\<lparr>nd_events := nd_events n @ [e]\<rparr>)"

definition get_or_create_session :: "net_block \<Rightarrow> selection \<Rightarrow> session noding" where
  "get_or_create_session b sel =
     (let k = (se_committee_id sel, nb_hash b) in
      bindM (getM (\<lambda>n. dict_get (nd_sessions n) k)) (\<lambda>found. case found of
        Some s \<Rightarrow> retM s
      | None \<Rightarrow> seqM (put_session k (new_session b sel)) (retM (new_session b sel))))"

definition validate_net_block :: "net_block \<Rightarrow> selection \<Rightarrow> node \<Rightarrow> bool" where
  "validate_net_block b sel n \<longleftrightarrow>
     nb_committee_id b = Some (se_committee_id sel) \<and> nb_members b = se_members sel
     \<and> distinct (map nt_hash (nb_transactions b)) \<and> nb_parent_hash b = nd_head_hash n
     \<and> nb_height b = nd_head_height n + 1"

text \<open>
  The start of the three vote handlers: a vote of an unknown session is buffered, a vote of a stranger
  is dropped, and otherwise the rest runs on the session.
\<close>

definition with_session :: "vote \<Rightarrow> (session \<Rightarrow> unit noding) \<Rightarrow> unit noding" where
  "with_session v k =
     (\<lambda>n. case dict_get (nd_sessions n) (vote_key v) of
        None \<Rightarrow> (Inr (), n\<lparr>nd_pending_votes := dict_put (vote_key v)
          ((case dict_get (nd_pending_votes n) (vote_key v) of None \<Rightarrow> [] | Some vs \<Rightarrow> vs) @ [v]) (nd_pending_votes n)\<rparr>)
      | Some s \<Rightarrow> if vt_voter v \<notin> set (se_members (ss_selection s)) then (Inr (), n) else k s n)"

fun send_all :: "message \<Rightarrow> int list \<Rightarrow> unit noding" where
  "send_all m [] = retM ()"
| "send_all m (i # is) =
     seqM (bindM (getM nd_id) (\<lambda>own. if i = own then retM () else log_event (Sent i m))) (send_all m is)"

definition broadcast_vote :: "(vote \<Rightarrow> unit noding) \<Rightarrow> vote \<Rightarrow> int list \<Rightarrow> unit noding" where
  "broadcast_vote handle_own v members =
     seqM (handle_own v)
    (bindM (getM nd_id) (\<lambda>own. send_all \<lparr>ms_type = vt_phase v, ms_payload = VoteBy v, ms_sender = own\<rparr> members))"

section \<open>Finalised blocks\<close>

definition apply_finalized_block :: "sha \<Rightarrow> net_block \<Rightarrow> unit noding" where
  "apply_finalized_block sha b =
     bindM (getM id) (\<lambda>n.
     if nb_height b \<le> nd_head_height n \<and> nb_hash b \<in> fst ` set (nd_blocks_by_hash n) then retM ()
     else seqM (guardM (nb_hash b = block_digest sha b) ValueError)
         (seqM (guardM (\<not> (nb_members b \<noteq> [] \<and> length (nb_signatures b) < quorum_size (length (nb_members b)))) ValueError)
         (modM (\<lambda>n. n\<lparr>nd_blocks_by_hash := dict_put (nb_hash b) b (nd_blocks_by_hash n),
            nd_blocks_by_height := dict_put (nb_height b) b (nd_blocks_by_height n),
            nd_pending_txs := fold (\<lambda>t. dict_pop (nt_hash t)) (nb_transactions b) (nd_pending_txs n),
            nd_head_height := (if nb_height b \<ge> nd_head_height n then nb_height b else nd_head_height n),
            nd_head_hash := (if nb_height b \<ge> nd_head_height n then nb_hash b else nd_head_hash n)\<rparr>))))"

text \<open>A gossiped block, \<open>Node._handle_block_gossip\<close>; forwarding it is an event.\<close>

definition handle_block_gossip :: "sha \<Rightarrow> net_block \<Rightarrow> unit noding" where
  "handle_block_gossip sha b =
     bindM (getM id) (\<lambda>n.
     if nb_hash b \<in> fst ` set (nd_blocks_by_hash n) then retM ()
     else if nb_members b \<noteq> [] \<and> length (nb_signatures b) < quorum_size (length (nb_members b)) then retM ()
     else seqM (apply_finalized_block sha b) (log_event (Gossiped b)))"

fun log_txs :: "net_tx list \<Rightarrow> unit noding" where
  "log_txs [] = retM ()"
| "log_txs (t # ts) = seqM (log_event (StoredTx (nt_hash t) t)) (log_txs ts)"

definition certificate :: "session \<Rightarrow> string list" where
  "certificate s = sort (map snd (ss_commits s))"

definition finalise_session :: "sha \<Rightarrow> session_key \<Rightarrow> session \<Rightarrow> unit noding" where
  "finalise_session sha k s =
     (let b = with_signatures (certificate s) (ss_block s) in
      seqM (put_session k (s\<lparr>ss_finalized := Some b\<rparr>))
     (seqM (apply_finalized_block sha b)
     (seqM (log_event (StoredBlock (nb_hash b) b))
     (seqM (log_txs (nb_transactions b)) (log_event (Gossiped b))))))"

definition resolve_future :: "session_key \<Rightarrow> unit noding" where
  "resolve_future k =
     modM (\<lambda>n. case dict_get (nd_sessions n) k of
         None \<Rightarrow> n
       | Some s \<Rightarrow> if ss_future s = Some None
           then n\<lparr>nd_sessions := dict_put k (s\<lparr>ss_future := Some (Some
             \<lparr>bf_committee_id = se_committee_id (ss_selection s), bf_block_hash = nb_hash (ss_block s), bf_committed = True,
              bf_signatures = certificate s, bf_members = se_members (ss_selection s)\<rparr>)\<rparr>) (nd_sessions n)\<rparr>
           else n)"

section \<open>Handlers\<close>

definition on_commit :: "sha \<Rightarrow> vote \<Rightarrow> unit noding" where
  "on_commit sha v =
     with_session v (\<lambda>s.
     let s1 = s\<lparr>ss_commits := dict_put (vt_voter v) (vt_signature v) (ss_commits s)\<rparr> in
     seqM (put_session (vote_key v) s1)
     (if length (ss_commits s1) < quorum_size (length (se_members (ss_selection s1))) then retM ()
      else seqM (if ss_finalized s1 = None then finalise_session sha (vote_key v) s1 else retM ())
        (resolve_future (vote_key v))))"

definition on_precommit :: "sha \<Rightarrow> vote \<Rightarrow> unit noding" where
  "on_precommit sha v =
     with_session v (\<lambda>s.
     let s1 = s\<lparr>ss_precommits := dict_put (vt_voter v) (vt_signature v) (ss_precommits s)\<rparr> in
     seqM (put_session (vote_key v) s1)
    (bindM (getM id) (\<lambda>n.
     if nd_malicious n \<or> ss_commit_sent s1 then retM ()
     else if length (ss_precommits s1) \<ge> quorum_size (length (se_members (ss_selection s1)))
     then seqM (put_session (vote_key v) (s1\<lparr>ss_commit_sent := True\<rparr>))
       (broadcast_vote (on_commit sha) (own_vote sha n BftCommit (vote_key v)) (se_members (ss_selection s1)))
     else retM ())))"

definition on_prevote :: "sha \<Rightarrow> vote \<Rightarrow> unit noding" where
  "on_prevote sha v =
     with_session v (\<lambda>s.
     let s1 = s\<lparr>ss_prevotes := dict_put (vt_voter v) (vt_signature v) (ss_prevotes s)\<rparr> in
     seqM (put_session (vote_key v) s1)
    (bindM (getM id) (\<lambda>n.
     if nd_malicious n \<or> ss_precommit_sent s1 then retM ()
     else if length (ss_prevotes s1) \<ge> quorum_size (length (se_members (ss_selection s1)))
     then seqM (put_session (vote_key v) (s1\<lparr>ss_precommit_sent := True\<rparr>))
       (broadcast_vote (on_precommit sha) (own_vote sha n BftPrecommit (vote_key v)) (se_members (ss_selection s1)))
     else retM ())))"

definition on_vote :: "sha \<Rightarrow> message_type \<Rightarrow> vote \<Rightarrow> unit noding" where
  "on_vote sha t v =
     (case t of BftPrevote \<Rightarrow> on_prevote sha v | BftPrecommit \<Rightarrow> on_precommit sha v | BftCommit \<Rightarrow> on_commit sha v
      | BftPropose \<Rightarrow> retM ())"

fun replay_votes :: "sha \<Rightarrow> vote list \<Rightarrow> unit noding" where
  "replay_votes sha [] = retM ()"
| "replay_votes sha (v # vs) = seqM (on_vote sha (vt_phase v) v) (replay_votes sha vs)"

definition replay_pending_votes :: "sha \<Rightarrow> session_key \<Rightarrow> unit noding" where
  "replay_pending_votes sha k =
     bindM (getM (\<lambda>n. dict_get (nd_pending_votes n) k)) (\<lambda>buffered.
     seqM (modM (\<lambda>n. n\<lparr>nd_pending_votes := dict_pop k (nd_pending_votes n)\<rparr>))
       (replay_votes sha (case buffered of None \<Rightarrow> [] | Some vs \<Rightarrow> vs)))"

text \<open>After the replay the session object is read again: the handlers have changed it.\<close>

definition on_propose :: "sha \<Rightarrow> net_block \<Rightarrow> selection \<Rightarrow> unit noding" where
  "on_propose sha b sel =
     (let k = (se_committee_id sel, nb_hash b) in
      bindM (getM nd_id) (\<lambda>own.
      if own \<notin> set (se_members sel) then retM ()
      else bindM (get_or_create_session b sel) (\<lambda>s0.
      bindM (getM id) (\<lambda>n.
      if nd_malicious n then retM ()
      else if \<not> validate_net_block b sel n then retM ()
      else seqM (replay_pending_votes sha k)
     (bindM (getM (\<lambda>n. case dict_get (nd_sessions n) k of None \<Rightarrow> s0 | Some s \<Rightarrow> s)) (\<lambda>s.
      if ss_prevote_sent s then retM ()
      else bindM (getM id) (\<lambda>n. seqM (put_session k (s\<lparr>ss_prevote_sent := True\<rparr>))
         (broadcast_vote (on_prevote sha) (own_vote sha n BftPrevote k) (se_members sel)))))))))"

definition handle_message :: "sha \<Rightarrow> message \<Rightarrow> unit noding" where
  "handle_message sha m =
     (case ms_payload m of
        Proposal b sel \<Rightarrow> if ms_type m = BftPropose then on_propose sha b sel else raiseM AssertionError
      | VoteBy v \<Rightarrow> if ms_type m = BftPropose then raiseM TypeError else on_vote sha (ms_type m) v)"

text \<open>
  \<open>finalize_block\<close> with the selected committee as argument: a node that is not the leader hands the
  block to the leader, if the network knows it; the leader proposes and waits.
\<close>

datatype finalising = Delegated int | Awaiting session_key

definition prepared_block :: "sha \<Rightarrow> net_block \<Rightarrow> selection \<Rightarrow> net_block" where
  "prepared_block sha b sel = mk_net_block sha
     \<lparr>nb_parent_hash = nb_parent_hash b, nb_transactions = nb_transactions b, nb_signatures = [],
      nb_committee_id = Some (se_committee_id sel), nb_proposer_id = se_leader sel, nb_height = nb_height b,
      nb_members = se_members sel, nb_hash = ''''\<rparr>"

definition finalize_block :: "sha \<Rightarrow> (int \<Rightarrow> bool) \<Rightarrow> net_block \<Rightarrow> selection \<Rightarrow> finalising noding" where
  "finalize_block sha known b sel =
     bindM (getM nd_id) (\<lambda>own.
     if own \<noteq> se_leader sel
     then if known (se_leader sel) then retM (Delegated (se_leader sel)) else raiseM ValueError
     else let p = prepared_block sha b sel; k = (se_committee_id sel, nb_hash p) in
       bindM (get_or_create_session p sel) (\<lambda>s.
       seqM (if ss_future s = None then put_session k (s\<lparr>ss_future := Some None\<rparr>) else retM ())
      (seqM (send_all \<lparr>ms_type = BftPropose, ms_payload = Proposal p sel, ms_sender = own\<rparr> (se_members sel))
      (seqM (on_propose sha p sel) (retM (Awaiting k))))))"

end
