(* ===== verification/Consensus_Net.thy ===== *)
theory Consensus_Net
  imports Consensus_Bft Programs
begin

text \<open>
  What the voting guarantees in a network where every node of the set \<open>H\<close> follows the code and everybody
  else sends what they like, messages get lost, repeated and reordered, and the only thing that is
  assumed is that a vote in the name of a node of \<open>H\<close> was sent by that node. The code does not check the
  signatures of votes, so this is an assumption about the network and not a consequence of the code.
\<close>

section \<open>Quorums\<close>

locale quorum_system =
  fixes q :: "nat \<Rightarrow> nat"
  assumes large: "2 * n < 3 * q n"
    and reachable_quorum: "3 * f < n \<Longrightarrow> q n \<le> n - f"
begin

lemma quorums_meet:
  assumes "finite M" "A \<subseteq> M" "B \<subseteq> M" "q (card M) \<le> card A" "q (card M) \<le> card B"
  shows "card M < 3 * card (A \<inter> B)"
proof -
  have "card A + card B = card (A \<union> B) + card (A \<inter> B)"
    using assms(1-3) by (intro card_Un_Int) (auto intro: finite_subset)
  moreover have "card (A \<union> B) \<le> card M" using assms(1-3) by (intro card_mono) auto
  ultimately show ?thesis using assms(4,5) large[of "card M"] by linarith
qed

lemma honest_in_quorum:
  assumes "finite M" "A \<subseteq> M" "q (card M) \<le> card A" "3 * card (M - H) < card M"
  shows "card M < 3 * card (A \<inter> H)"
proof -
  have "card A = card (A \<inter> H) + card (A - H)"
    using assms(1,2) by (metis card_Int_Diff finite_subset)
  moreover have "card (A - H) \<le> card (M - H)" using assms(1,2) by (intro card_mono) auto
  ultimately show ?thesis using assms(3,4) large[of "card M"] by linarith
qed

lemma honest_are_quorum: "finite M \<Longrightarrow> 3 * card (M - H) < card M \<Longrightarrow> q (card M) \<le> card (M \<inter> H)"
  using reachable_quorum[of "card (M - H)" "card M"] card_Int_Diff[of M H] by linarith

end

interpretation bft: quorum_system quorum_size
  by unfold_locales (auto simp: quorum_size_def)

section \<open>The invariant of a node\<close>

fun sent_flag :: "session \<Rightarrow> message_type \<Rightarrow> bool" where
  "sent_flag s BftPropose = False"
| "sent_flag s BftPrevote = ss_prevote_sent s"
| "sent_flag s BftPrecommit = ss_precommit_sent s"
| "sent_flag s BftCommit = ss_commit_sent s"

definition has_sent :: "node \<Rightarrow> message_type \<Rightarrow> session_key \<Rightarrow> bool" where
  "has_sent n t k \<longleftrightarrow> (\<exists>s. dict_get (nd_sessions n) k = Some s \<and> sent_flag s t)"

text \<open>\<open>W t j k\<close>: the node \<open>j\<close> elsewhere has sent its vote of kind \<open>t\<close> on \<open>k\<close>.\<close>

type_synonym sent_view = "message_type \<Rightarrow> int \<Rightarrow> session_key \<Rightarrow> bool"

definition vouched :: "int set \<Rightarrow> sent_view \<Rightarrow> node \<Rightarrow> message_type \<Rightarrow> int \<Rightarrow> session_key \<Rightarrow> bool" where
  "vouched H W n t j k \<longleftrightarrow> (j \<in> H \<longrightarrow> (if j = nd_id n then has_sent n t k else W t j k))"

definition tally_ok :: "(int \<Rightarrow> bool) \<Rightarrow> int list \<Rightarrow> (int, string) dict \<Rightarrow> bool" where
  "tally_ok P members votes \<longleftrightarrow> dict_wf votes \<and> fst ` set votes \<subseteq> set members \<and> (\<forall>j \<in> fst ` set votes. P j)"

abbreviation members_of :: "session \<Rightarrow> int list" where
  "members_of s \<equiv> se_members (ss_selection s)"

abbreviation quorum_of :: "session \<Rightarrow> nat" where
  "quorum_of s \<equiv> quorum_size (length (members_of s))"

text \<open>\<open>V k\<close>: the node has validated a proposal with key \<open>k\<close>.\<close>

definition session_inv :: "int set \<Rightarrow> sent_view \<Rightarrow> (session_key \<Rightarrow> bool) \<Rightarrow> node \<Rightarrow> session_key \<Rightarrow> session \<Rightarrow> bool" where
  "session_inv H W V n k s \<longleftrightarrow>
     tally_ok (\<lambda>j. vouched H W n BftPrevote j k) (members_of s) (ss_prevotes s)
     \<and> tally_ok (\<lambda>j. vouched H W n BftPrecommit j k) (members_of s) (ss_precommits s)
     \<and> tally_ok (\<lambda>j. vouched H W n BftCommit j k) (members_of s) (ss_commits s)
     \<and> (ss_prevote_sent s \<longrightarrow> V k)
     \<and> (ss_precommit_sent s \<longrightarrow> quorum_of s \<le> length (ss_prevotes s))
     \<and> (ss_commit_sent s \<longrightarrow> quorum_of s \<le> length (ss_precommits s))
     \<and> (\<forall>b. ss_finalized s = Some b \<longrightarrow> quorum_of s \<le> length (ss_commits s) \<and> quorum_of s \<le> length (nb_signatures b)
          \<and> nb_hash b = nb_hash (ss_block s))"

definition event_ok :: "node \<Rightarrow> event \<Rightarrow> bool" where
  "event_ok n e \<longleftrightarrow> (\<forall>i m v. e = Sent i m \<and> ms_payload m = VoteBy v \<longrightarrow>
     vt_voter v = nd_id n \<and> ms_type m = vt_phase v \<and> has_sent n (vt_phase v) (vote_key v))"

definition stored_ok :: "sha \<Rightarrow> string \<Rightarrow> net_block \<Rightarrow> bool" where
  "stored_ok sha h b \<longleftrightarrow> nb_hash b = h \<and> block_digest sha b = h
     \<and> (nb_members b = [] \<or> quorum_size (length (nb_members b)) \<le> length (nb_signatures b))"

definition node_inv :: "int set \<Rightarrow> sent_view \<Rightarrow> (session_key \<Rightarrow> bool) \<Rightarrow> sha \<Rightarrow> node \<Rightarrow> bool" where
  "node_inv H W V sha n \<longleftrightarrow>
     (\<forall>k s. dict_get (nd_sessions n) k = Some s \<longrightarrow> session_inv H W V n k s)
     \<and> (\<forall>k vs. dict_get (nd_pending_votes n) k = Some vs \<longrightarrow>
          (\<forall>v \<in> set vs. vote_key v = k \<and> vouched H W n (vt_phase v) (vt_voter v) k))
     \<and> (\<forall>e \<in> set (nd_events n). event_ok n e)
     \<and> (\<forall>h b. dict_get (nd_blocks_by_hash n) h = Some b \<longrightarrow> stored_ok sha h b)"

text \<open>What never changes back: the node itself, and the votes it has sent.\<close>

definition grows :: "node \<Rightarrow> node \<Rightarrow> bool" where
  "grows n n' \<longleftrightarrow> nd_id n' = nd_id n \<and> (\<forall>t k. has_sent n t k \<longrightarrow> has_sent n' t k)
     \<and> set (map fst (nd_sessions n)) \<subseteq> set (map fst (nd_sessions n'))"

definition node_kept :: "int set \<Rightarrow> sent_view \<Rightarrow> (session_key \<Rightarrow> bool) \<Rightarrow> sha \<Rightarrow> node \<Rightarrow> node \<Rightarrow> bool" where
  "node_kept H W V sha n n' \<longleftrightarrow> (node_inv H W V sha n \<longrightarrow> node_inv H W V sha n' \<and> grows n n')"

lemma grows_refl: "grows n n"
  by (simp add: grows_def)

lemma grows_trans:
  assumes ab: "grows a b" and bc: "grows b c"
  shows "grows a c"
  unfolding grows_def
proof (intro conjI allI impI)
  show "nd_id c = nd_id a" using ab bc by (simp add: grows_def)
  show "has_sent c t k" if "has_sent a t k" for t k
    using ab bc that unfolding grows_def by (elim conjE) blast
  show "set (map fst (nd_sessions a)) \<subseteq> set (map fst (nd_sessions c))"
    using ab bc unfolding grows_def by (elim conjE) (rule subset_trans)
qed

interpretation node: kept_relation "node_kept H W V sha" for H W V sha
  by unfold_locales (auto simp: node_kept_def grows_refl intro: grows_trans)

lemma vouched_grows: "grows n n' \<Longrightarrow> vouched H W n t j k \<Longrightarrow> vouched H W n' t j k"
  by (cases k) (auto simp: vouched_def grows_def)

lemma tally_mono: "tally_ok P ms votes \<Longrightarrow> (\<And>j. P j \<Longrightarrow> Q j) \<Longrightarrow> tally_ok Q ms votes"
  by (auto simp: tally_ok_def)

lemma session_inv_grows: "grows n n' \<Longrightarrow> session_inv H W V n k s \<Longrightarrow> session_inv H W V n' k s"
  unfolding session_inv_def by (auto intro: tally_mono vouched_grows)

lemma event_ok_grows: "grows n n' \<Longrightarrow> event_ok n e \<Longrightarrow> event_ok n' e"
  unfolding event_ok_def grows_def by metis

lemma node_invD:
  assumes "node_inv H W V sha n"
  shows "dict_get (nd_sessions n) k = Some s \<Longrightarrow> session_inv H W V n k s"
    and "dict_get (nd_pending_votes n) k = Some vs \<Longrightarrow> v \<in> set vs \<Longrightarrow> vote_key v = k \<and> vouched H W n (vt_phase v) (vt_voter v) k"
    and "e \<in> set (nd_events n) \<Longrightarrow> event_ok n e"
    and "dict_get (nd_blocks_by_hash n) h = Some b \<Longrightarrow> stored_ok sha h b"
  using assms unfolding node_inv_def by blast+

text \<open>Changes that leave the sessions alone.\<close>

lemma kept_outside:
  assumes "nd_id n' = nd_id n" "nd_sessions n' = nd_sessions n"
    and "node_inv H W V sha n \<Longrightarrow> \<forall>k vs. dict_get (nd_pending_votes n') k = Some vs \<longrightarrow>
          (\<forall>v \<in> set vs. vote_key v = k \<and> vouched H W n (vt_phase v) (vt_voter v) k)"
    and "node_inv H W V sha n \<Longrightarrow> \<forall>e \<in> set (nd_events n'). event_ok n e"
    and "node_inv H W V sha n \<Longrightarrow> \<forall>h b. dict_get (nd_blocks_by_hash n') h = Some b \<longrightarrow> stored_ok sha h b"
  shows "node_kept H W V sha n n'"
  unfolding node_kept_def
proof
  assume inv: "node_inv H W V sha n"
  have sent: "has_sent n' = has_sent n" by (intro ext) (simp add: has_sent_def assms(2))
  have "vouched H W n' = vouched H W n" by (intro ext) (simp add: vouched_def sent assms(1))
  moreover have "event_ok n' = event_ok n" by (intro ext) (simp add: event_ok_def sent assms(1))
  moreover have "session_inv H W V n' = session_inv H W V n" by (intro ext) (simp add: session_inv_def \<open>vouched H W n' = vouched H W n\<close>)
  ultimately show "node_inv H W V sha n' \<and> grows n n'"
    using inv assms(3-5)[OF inv] by (simp add: node_inv_def assms(2) grows_def assms(1) sent)
qed

text \<open>Changes of one session.\<close>

lemma kept_session:
  assumes old: "\<And>s t. dict_get (nd_sessions n) k = Some s \<Longrightarrow> sent_flag s t \<Longrightarrow> sent_flag s' t"
    and new: "node_inv H W V sha n \<Longrightarrow> grows n (n\<lparr>nd_sessions := dict_put k s' (nd_sessions n)\<rparr>)
      \<Longrightarrow> session_inv H W V (n\<lparr>nd_sessions := dict_put k s' (nd_sessions n)\<rparr>) k s'"
  shows "node_kept H W V sha n (n\<lparr>nd_sessions := dict_put k s' (nd_sessions n)\<rparr>)"
  unfolding node_kept_def
proof
  let ?n = "n\<lparr>nd_sessions := dict_put k s' (nd_sessions n)\<rparr>"
  assume inv: "node_inv H W V sha n"
  have "has_sent ?n t l" if "has_sent n t l" for t l
    using that old[of _ t] by (cases "l = k") (auto simp: has_sent_def dict_simps)
  moreover have "set (map fst d) \<subseteq> set (map fst (dict_put k s' d))" for d by (induction d) auto
  ultimately have g: "grows n ?n" unfolding grows_def by simp
  have "session_inv H W V ?n l s" if "dict_get (nd_sessions ?n) l = Some s" for l s
  proof (cases "l = k")
    case True
    with that new[OF inv g] show ?thesis by (simp add: dict_simps)
  next
    case False
    with that have "dict_get (nd_sessions n) l = Some s" by (simp add: dict_simps del: map_of_eq_Some_iff)
    from session_inv_grows[OF g node_invD(1)[OF inv this]] show ?thesis .
  qed
  moreover have "vote_key v = l \<and> vouched H W ?n (vt_phase v) (vt_voter v) l"
    if "dict_get (nd_pending_votes ?n) l = Some vs" "v \<in> set vs" for l vs v
    using node_invD(2)[OF inv, of l vs v] that vouched_grows[OF g] by simp
  moreover have "event_ok ?n e" if "e \<in> set (nd_events ?n)" for e
    using node_invD(3)[OF inv, of e] that event_ok_grows[OF g] by simp
  ultimately show "node_inv H W V sha ?n \<and> grows n ?n"
    using g node_invD(4)[OF inv] unfolding node_inv_def by simp
qed

section \<open>Handlers keep the invariant\<close>

lemma kept_log: "event_ok n e \<Longrightarrow> node_kept H W V sha n (snd (log_event e n))"
  by (rule kept_outside) (auto simp: log_event_def sem_defs dest: node_invD)

lemma kept_log_free: "(\<And>i m v. e \<noteq> Sent i m \<or> ms_payload m \<noteq> VoteBy v) \<Longrightarrow> upholds (node_kept H W V sha) (log_event e)"
  unfolding upholds_def by (intro allI kept_log) (auto simp: event_ok_def)

lemma kept_log_txs: "upholds (node_kept H W V sha) (log_txs ts)"
  by (induction ts) (auto intro!: node.ret node.seq kept_log_free)

lemma kept_apply_finalized: "upholds (node_kept H W V sha) (apply_finalized_block sha b)"
  unfolding upholds_def
proof
  fix n :: node
  show "node_kept H W V sha n (snd (apply_finalized_block sha b n))"
    by (rule kept_outside)
      (auto simp: apply_finalized_block_def sem_defs guardM_def dict_simps stored_ok_def not_less dest: node_invD split: if_splits)
qed

lemma kept_block_gossip: "upholds (node_kept H W V sha) (handle_block_gossip sha b)"
  unfolding handle_block_gossip_def
  by (intro node.bind_all node.get node.branch node.ret node.seq kept_apply_finalized kept_log_free) auto

lemma tally_put: "tally_ok P ms votes \<Longrightarrow> j \<in> set ms \<Longrightarrow> P j \<Longrightarrow> tally_ok P ms (dict_put j sig votes)"
  unfolding tally_ok_def by (auto simp: dict_set_put image_iff)

lemma length_put: "q \<le> length votes \<Longrightarrow> q \<le> length (dict_put j sig votes)"
proof -
  have "length votes \<le> length (dict_put j sig votes)" by (induction votes) auto
  then show "q \<le> length votes \<Longrightarrow> q \<le> length (dict_put j sig votes)" by simp
qed

lemma kept_put:
  assumes "dict_get (nd_sessions n) k = Some s" "\<And>t. sent_flag s t \<Longrightarrow> sent_flag s' t"
    and "\<And>n'. node_inv H W V sha n \<Longrightarrow> grows n n' \<Longrightarrow> has_sent n' = (\<lambda>t l. if l = k then sent_flag s' t else has_sent n t l)
      \<Longrightarrow> session_inv H W V n' k s \<Longrightarrow> session_inv H W V n' k s'"
  shows "node_kept H W V sha n (snd (put_session k s' n))"
proof -
  have "node_kept H W V sha n (n\<lparr>nd_sessions := dict_put k s' (nd_sessions n)\<rparr>)"
  proof (rule kept_session)
    show "sent_flag u t \<Longrightarrow> sent_flag s' t" if "dict_get (nd_sessions n) k = Some u" for u t
      using that assms(1,2) by simp
    assume inv: "node_inv H W V sha n" and g: "grows n (n\<lparr>nd_sessions := dict_put k s' (nd_sessions n)\<rparr>)"
    let ?n = "n\<lparr>nd_sessions := dict_put k s' (nd_sessions n)\<rparr>"
    have e: "has_sent ?n t l = (if l = k then sent_flag s' t else has_sent n t l)" for t l
      unfolding has_sent_def by (cases "l = k") (simp_all add: dict_simps del: map_of_eq_Some_iff)
    have sent: "has_sent ?n = (\<lambda>t l. if l = k then sent_flag s' t else has_sent n t l)"
      by (rule ext, rule ext, rule e)
    show "session_inv H W V ?n k s'"
      by (rule assms(3)[OF inv g sent session_inv_grows[OF g node_invD(1)[OF inv assms(1)]]])
  qed
  then show ?thesis by (simp add: put_session_def sem_defs)
qed

text \<open>Recording a vote that is vouched for.\<close>

lemma kept_record:
  assumes get: "dict_get (nd_sessions n) k = Some s" and j: "j \<in> set (members_of s)"
  shows "vouched H W n BftPrevote j k \<Longrightarrow>
      node_kept H W V sha n (snd (put_session k (s\<lparr>ss_prevotes := dict_put j sig (ss_prevotes s)\<rparr>) n))"
    and "vouched H W n BftPrecommit j k \<Longrightarrow>
      node_kept H W V sha n (snd (put_session k (s\<lparr>ss_precommits := dict_put j sig (ss_precommits s)\<rparr>) n))"
    and "vouched H W n BftCommit j k \<Longrightarrow>
      node_kept H W V sha n (snd (put_session k (s\<lparr>ss_commits := dict_put j sig (ss_commits s)\<rparr>) n))"
proof -
  have flags: "sent_flag (s\<lparr>ss_prevotes := x\<rparr>) t = sent_flag s t" "sent_flag (s\<lparr>ss_precommits := x\<rparr>) t = sent_flag s t"
    "sent_flag (s\<lparr>ss_commits := x\<rparr>) t = sent_flag s t" for t x by (cases t; simp)+
  show "node_kept H W V sha n (snd (put_session k (s\<lparr>ss_prevotes := dict_put j sig (ss_prevotes s)\<rparr>) n))"
    if v: "vouched H W n BftPrevote j k"
    by (rule kept_put[OF get]) (simp_all add: flags session_inv_def length_put tally_put[OF _ j] vouched_grows[OF _ v])
  show "node_kept H W V sha n (snd (put_session k (s\<lparr>ss_precommits := dict_put j sig (ss_precommits s)\<rparr>) n))"
    if v: "vouched H W n BftPrecommit j k"
    by (rule kept_put[OF get]) (simp_all add: flags session_inv_def length_put tally_put[OF _ j] vouched_grows[OF _ v])
  show "node_kept H W V sha n (snd (put_session k (s\<lparr>ss_commits := dict_put j sig (ss_commits s)\<rparr>) n))"
    if v: "vouched H W n BftCommit j k"
    by (rule kept_put[OF get]) (simp_all add: flags session_inv_def length_put tally_put[OF _ j] vouched_grows[OF _ v])
qed

text \<open>The start of a vote handler, and the ends that do nothing to the invariant.\<close>

lemma kept_with_session:
  assumes v: "vouched H W n (vt_phase v) (vt_voter v) (vote_key v)"
    and rest: "\<And>s. dict_get (nd_sessions n) (vote_key v) = Some s \<Longrightarrow> vt_voter v \<in> set (members_of s) \<Longrightarrow> node_kept H W V sha n (snd (k s n))"
  shows "node_kept H W V sha n (snd (with_session v k n))"
proof (cases "dict_get (nd_sessions n) (vote_key v)")
  case None
  let ?vs = "(case dict_get (nd_pending_votes n) (vote_key v) of None \<Rightarrow> [] | Some vs \<Rightarrow> vs) @ [v]"
  have "node_kept H W V sha n (n\<lparr>nd_pending_votes := dict_put (vote_key v) ?vs (nd_pending_votes n)\<rparr>)"
  proof (rule kept_outside)
    assume inv: "node_inv H W V sha n"
    note old = node_invD(2)[OF inv]
    have upd: "vote_key u = l \<and> vouched H W n (vt_phase u) (vt_voter u) l"
      if "dict_get (dict_put (vote_key v) ?vs (nd_pending_votes n)) l = Some us" "u \<in> set us" for l us u
    proof (cases "l = vote_key v")
      case True
      with that have "us = ?vs" by (simp add: dict_simps)
      with that(2) v True old[of "vote_key v"] show ?thesis by (auto split: option.splits)
    next
      case False
      with that(1) have "dict_get (nd_pending_votes n) l = Some us" by (simp add: dict_simps del: map_of_eq_Some_iff)
      from old[OF this that(2)] show ?thesis .
    qed
    show "\<forall>l us. dict_get (nd_pending_votes (n\<lparr>nd_pending_votes := dict_put (vote_key v) ?vs (nd_pending_votes n)\<rparr>)) l = Some us
        \<longrightarrow> (\<forall>u \<in> set us. vote_key u = l \<and> vouched H W n (vt_phase u) (vt_voter u) l)"
    proof -
      have pending: "nd_pending_votes (n\<lparr>nd_pending_votes := dict_put (vote_key v) ?vs (nd_pending_votes n)\<rparr>)
        = dict_put (vote_key v) ?vs (nd_pending_votes n)" by simp
      show ?thesis unfolding pending using upd by blast
    qed
  next
    assume inv: "node_inv H W V sha n"
    show "\<forall>e \<in> set (nd_events (n\<lparr>nd_pending_votes := dict_put (vote_key v) ?vs (nd_pending_votes n)\<rparr>)). event_ok n e"
      using node_invD(3)[OF inv] by simp
    show "\<forall>h b. dict_get (nd_blocks_by_hash (n\<lparr>nd_pending_votes := dict_put (vote_key v) ?vs (nd_pending_votes n)\<rparr>)) h = Some b
        \<longrightarrow> stored_ok sha h b"
      using node_invD(4)[OF inv] by simp
  qed simp_all
  with None show ?thesis by (simp add: with_session_def)
next
  case (Some s)
  then show ?thesis using rest[OF Some] node.refl by (simp add: with_session_def)
qed

lemma kept_resolve: "upholds (node_kept H W V sha) (resolve_future k)"
  unfolding upholds_def
proof
  fix n :: node
  show "node_kept H W V sha n (snd (resolve_future k n))"
  proof (cases "\<exists>s. dict_get (nd_sessions n) k = Some s \<and> ss_future s = Some None")
    case True
    then obtain s where s: "dict_get (nd_sessions n) k = Some s" "ss_future s = Some None" by blast
    let ?r = "\<lparr>bf_committee_id = se_committee_id (ss_selection s), bf_block_hash = nb_hash (ss_block s), bf_committed = True,
              bf_signatures = certificate s, bf_members = se_members (ss_selection s)\<rparr>"
    have "sent_flag (s\<lparr>ss_future := Some (Some ?r)\<rparr>) t = sent_flag s t" for t by (cases t) simp_all
    then have "node_kept H W V sha n (snd (put_session k (s\<lparr>ss_future := Some (Some ?r)\<rparr>) n))"
      by (intro kept_put[OF s(1)]) (simp_all add: session_inv_def)
    with s show ?thesis by (simp add: resolve_future_def put_session_def sem_defs del: map_of_eq_Some_iff)
  next
    case False
    then have "snd (resolve_future k n) = n" by (auto simp: resolve_future_def sem_defs split: option.splits)
    then show ?thesis by (simp add: node.refl)
  qed
qed

lemma kept_finalise:
  assumes get: "dict_get (nd_sessions n) k = Some s" and quorum: "quorum_of s \<le> length (ss_commits s)"
  shows "node_kept H W V sha n (snd (finalise_session sha k s n))"
proof -
  let ?b = "with_signatures (certificate s) (ss_block s)"
  have flags: "sent_flag (s\<lparr>ss_finalized := x\<rparr>) t = sent_flag s t" for t x by (cases t) simp_all
  have "node_kept H W V sha n (snd (put_session k (s\<lparr>ss_finalized := Some ?b\<rparr>) n))"
    by (rule kept_put[OF get]) (use quorum in \<open>simp_all add: flags session_inv_def with_signatures_def certificate_def\<close>)
  then show ?thesis
    unfolding finalise_session_def Let_def
    by (rule node.at_seq) (intro node.seq kept_apply_finalized kept_log_free kept_log_txs; simp)
qed

lemma kept_on_commit:
  assumes "vouched H W n BftCommit (vt_voter v) (vote_key v)" "vouched H W n (vt_phase v) (vt_voter v) (vote_key v)"
  shows "node_kept H W V sha n (snd (on_commit sha v n))"
  unfolding on_commit_def Let_def
proof (rule kept_with_session[OF assms(2)], rule node.at_then, goal_cases)
  case (1 s)
  then show ?case by (rule kept_record(3)[OF _ _ assms(1)])
next
  case (2 s n')
  let ?s = "s\<lparr>ss_commits := dict_put (vt_voter v) (vt_signature v) (ss_commits s)\<rparr>"
  have get: "dict_get (nd_sessions n') (vote_key v) = Some ?s"
    using 2(3) by (auto simp: put_session_def sem_defs dict_simps)
  show ?case
  proof (cases "length (ss_commits ?s) < quorum_of ?s")
    case True
    then show ?thesis by (simp add: node.refl sem_defs)
  next
    case False
    have "node_kept H W V sha n' (snd ((if ss_finalized ?s = None then finalise_session sha (vote_key v) ?s else retM ()) n'))"
      using kept_finalise[OF get] False by (simp add: node.refl sem_defs)
    with False show ?thesis by (simp add: node.at_seq[OF _ kept_resolve] del: bindR_eq_Inr)
  qed
qed

text \<open>Sending a vote that the node has marked as sent.\<close>

lemma kept_send_all:
  assumes "\<And>v. ms_payload m = VoteBy v \<Longrightarrow> vt_voter v = nd_id n \<and> ms_type m = vt_phase v \<and> has_sent n (vt_phase v) (vote_key v)"
  shows "node_kept H W V sha n (snd (send_all m is n))"
  using assms
proof (induction "is" arbitrary: n)
  case (Cons i "is")
  have "event_ok n (Sent i m)" using Cons.prems by (simp add: event_ok_def)
  then have log: "node_kept H W V sha n (snd ((bindM (getM nd_id) (\<lambda>own. if i = own then retM () else log_event (Sent i m))) n))"
    using kept_log[of n "Sent i m" H W V sha] by (simp add: sem_defs node.refl)
  show ?case
    unfolding send_all.simps
  proof (rule node.at_then, rule log, goal_cases)
    case (1 n')
    then have "nd_id n' = nd_id n" "nd_sessions n' = nd_sessions n"
      by (auto simp: sem_defs log_event_def split: if_splits)
    with Cons.prems show ?case by (intro Cons.IH) (simp add: has_sent_def)
  qed
qed (simp add: sem_defs node.refl)

lemma kept_broadcast:
  assumes own: "vt_voter v = nd_id n" and sent: "has_sent n (vt_phase v) (vote_key v)"
    and handle: "node_kept H W V sha n (snd (handle v n))"
  shows "node_kept H W V sha n (snd (broadcast_vote handle v members n))"
proof (cases "node_inv H W V sha n")
  case inv: True
  show ?thesis
    unfolding broadcast_vote_def
  proof (rule node.at_then, rule handle, rule node.at_get, rule kept_send_all, goal_cases)
    case (1 n' u)
    then have g: "grows n n'" and u: "u = v" using handle inv by (simp_all add: node_kept_def)
    from g have "nd_id n' = nd_id n" "has_sent n' (vt_phase v) (vote_key v)" using sent unfolding grows_def by blast+
    with own u show ?case by simp
  qed
qed (simp add: node_kept_def)

lemma own_vote_fields [simp]:
  "vt_phase (own_vote sha n t k) = t" "vt_voter (own_vote sha n t k) = nd_id n" "vote_key (own_vote sha n t k) = k"
  by (simp_all add: own_vote_def vote_key_def)

lemma vouched_own: "has_sent n t k \<Longrightarrow> vouched H W n t (nd_id n) k"
  by (simp add: vouched_def)

lemma put_session_get: "put_session k s n = (Inr (), n') \<Longrightarrow> dict_get (nd_sessions n') k = Some s \<and> nd_id n' = nd_id n"
  by (auto simp: put_session_def sem_defs dict_simps)

lemma put_session_sent: "put_session k s n = (Inr (), n') \<Longrightarrow> sent_flag s t \<Longrightarrow> has_sent n' t k"
  using put_session_get[of k s n n'] unfolding has_sent_def by blast

text \<open>
  The common end of the handlers of proposals, prevotes and precommits: the next vote is marked as sent
  in the session and broadcast, beginning with the node itself.
\<close>

lemma kept_cast:
  assumes get: "dict_get (nd_sessions n) k = Some s" and flags: "\<And>t. sent_flag s t \<Longrightarrow> sent_flag s' t" "sent_flag s' t"
    and inv: "\<And>n'. session_inv H W V n' k s \<Longrightarrow> session_inv H W V n' k s'"
    and handle: "\<And>n' v. vt_phase v = t \<Longrightarrow> vote_key v = k \<Longrightarrow> vouched H W n' t (vt_voter v) k \<Longrightarrow> node_kept H W V sha n' (snd (handle v n'))"
  shows "node_kept H W V sha n (snd (seqM (put_session k s') (broadcast_vote handle (own_vote sha n t k) members) n))"
proof (rule node.at_then, goal_cases)
  case 1
  show ?case by (rule kept_put[OF get flags(1)]) (assumption | rule inv)+
next
  case (2 n')
  have "has_sent n' t k" and id: "nd_id n' = nd_id n"
    using put_session_sent[OF 2 flags(2)] put_session_get[OF 2] by simp_all
  moreover from this have "vouched H W n' t (nd_id n) k" using vouched_own[of n' t k H W] by simp
  ultimately show ?case by (intro kept_broadcast handle) simp_all
qed

lemma kept_on_precommit:
  assumes "vouched H W n BftPrecommit (vt_voter v) (vote_key v)" "vouched H W n (vt_phase v) (vt_voter v) (vote_key v)"
  shows "node_kept H W V sha n (snd (on_precommit sha v n))"
  unfolding on_precommit_def Let_def
proof (rule kept_with_session[OF assms(2)], rule node.at_then, goal_cases)
  case (1 s)
  then show ?case by (rule kept_record(2)[OF _ _ assms(1)])
next
  case (2 s n')
  let ?s = "s\<lparr>ss_precommits := dict_put (vt_voter v) (vt_signature v) (ss_precommits s)\<rparr>"
  have flags: "sent_flag ?s t \<Longrightarrow> sent_flag (?s\<lparr>ss_commit_sent := True\<rparr>) t" for t by (cases t) simp_all
  note get = put_session_get[OF 2(3), THEN conjunct1]
  show ?case
    by (rule node.at_self, intro node.at_branch node.at_ret, rule kept_cast[OF get flags])
      (auto simp: session_inv_def intro: kept_on_commit)
qed

lemma kept_on_prevote:
  assumes "vouched H W n BftPrevote (vt_voter v) (vote_key v)" "vouched H W n (vt_phase v) (vt_voter v) (vote_key v)"
  shows "node_kept H W V sha n (snd (on_prevote sha v n))"
  unfolding on_prevote_def Let_def
proof (rule kept_with_session[OF assms(2)], rule node.at_then, goal_cases)
  case (1 s)
  then show ?case by (rule kept_record(1)[OF _ _ assms(1)])
next
  case (2 s n')
  let ?s = "s\<lparr>ss_prevotes := dict_put (vt_voter v) (vt_signature v) (ss_prevotes s)\<rparr>"
  have flags: "sent_flag ?s t \<Longrightarrow> sent_flag (?s\<lparr>ss_precommit_sent := True\<rparr>) t" for t by (cases t) simp_all
  note get = put_session_get[OF 2(3), THEN conjunct1]
  show ?case
    by (rule node.at_self, intro node.at_branch node.at_ret, rule kept_cast[OF get flags])
      (auto simp: session_inv_def intro: kept_on_precommit)
qed

lemma kept_on_vote:
  assumes "vouched H W n t (vt_voter v) (vote_key v)" "vouched H W n (vt_phase v) (vt_voter v) (vote_key v)"
  shows "node_kept H W V sha n (snd (on_vote sha t v n))"
  using assms by (cases t) (simp_all add: on_vote_def kept_on_prevote kept_on_precommit kept_on_commit node.at_ret)

lemma kept_replay:
  "\<forall>v \<in> set vs. vouched H W n (vt_phase v) (vt_voter v) (vote_key v) \<Longrightarrow> node_kept H W V sha n (snd (replay_votes sha vs n))"
proof (induction vs arbitrary: n)
  case (Cons v vs)
  have first: "node_kept H W V sha n (snd (on_vote sha (vt_phase v) v n))" using Cons.prems by (intro kept_on_vote) simp_all
  show ?case
  proof (cases "node_inv H W V sha n")
    case inv: True
    show ?thesis
      unfolding replay_votes.simps
    proof (rule node.at_then, rule first, rule Cons.IH, intro ballI)
      fix n' u assume "on_vote sha (vt_phase v) v n = (Inr (), n')" "u \<in> set vs"
      then show "vouched H W n' (vt_phase u) (vt_voter u) (vote_key u)"
        using first inv Cons.prems by (intro vouched_grows[of n n']) (simp_all add: node_kept_def)
    qed
  qed (simp add: node_kept_def)
qed (simp add: node.at_ret)

lemma kept_replay_pending: "upholds (node_kept H W V sha) (replay_pending_votes sha k)"
  unfolding upholds_def
proof
  fix n :: node
  let ?vs = "case dict_get (nd_pending_votes n) k of None \<Rightarrow> [] | Some vs \<Rightarrow> vs"
  let ?n = "n\<lparr>nd_pending_votes := dict_pop k (nd_pending_votes n)\<rparr>"
  show "node_kept H W V sha n (snd (replay_pending_votes sha k n))"
  proof (cases "node_inv H W V sha n")
    case inv: True
    note old = node_invD(2)[OF inv]
    have "node_kept H W V sha n ?n"
    proof (rule kept_outside)
      have "dict_get (nd_pending_votes n) l = Some us" if "dict_get (nd_pending_votes ?n) l = Some us" for l us
        using that by (simp add: dict_simps split: if_splits del: map_of_eq_Some_iff)
      then show "\<forall>l us. dict_get (nd_pending_votes ?n) l = Some us
          \<longrightarrow> (\<forall>u \<in> set us. vote_key u = l \<and> vouched H W n (vt_phase u) (vt_voter u) l)"
        using old by blast
      have "nd_events ?n = nd_events n" "nd_blocks_by_hash ?n = nd_blocks_by_hash n" by simp_all
      then show "\<forall>e \<in> set (nd_events ?n). event_ok n e"
        "\<forall>h b. dict_get (nd_blocks_by_hash ?n) h = Some b \<longrightarrow> stored_ok sha h b"
        using node_invD(3,4)[OF inv] by (simp_all only:) blast+
    qed simp_all
    moreover have "vouched H W ?n (vt_phase v) (vt_voter v) (vote_key v)" if "v \<in> set ?vs" for v
    proof -
      from that have "vouched H W n (vt_phase v) (vt_voter v) (vote_key v)"
        using old[of k ?vs v] by (cases "dict_get (nd_pending_votes n) k") auto
      with calculation inv show ?thesis by (intro vouched_grows[of n ?n]) (simp_all add: node_kept_def)
    qed
    then have "node_kept H W V sha ?n (snd (replay_votes sha ?vs ?n))" by (intro kept_replay) blast
    ultimately have "node_kept H W V sha n (snd (replay_votes sha ?vs ?n))" by (rule node.trans)
    then show ?thesis by (simp add: replay_pending_votes_def sem_defs)
  qed (simp add: node_kept_def)
qed

lemma kept_get_or_create: "upholds (node_kept H W V sha) (get_or_create_session b sel)"
  unfolding upholds_def
proof
  fix n :: node
  let ?k = "(se_committee_id sel, nb_hash b)"
  show "node_kept H W V sha n (snd (get_or_create_session b sel n))"
  proof (cases "dict_get (nd_sessions n) ?k")
    case None
    have "sent_flag (new_session b sel) t = False" for t by (cases t) (simp_all add: new_session_def)
    moreover have "session_inv H W V n' ?k (new_session b sel)" for n'
      by (simp add: session_inv_def new_session_def tally_ok_def)
    ultimately have "node_kept H W V sha n (n\<lparr>nd_sessions := dict_put ?k (new_session b sel) (nd_sessions n)\<rparr>)"
      using None by (intro kept_session) auto
    with None show ?thesis by (simp add: get_or_create_session_def Let_def put_session_def sem_defs)
  qed (simp add: get_or_create_session_def Let_def sem_defs node.refl)
qed

lemma get_or_create_run:
  "get_or_create_session b sel n = (Inr s, n') \<Longrightarrow>
     nd_head_hash n' = nd_head_hash n \<and> nd_head_height n' = nd_head_height n \<and> nd_id n' = nd_id n
     \<and> dict_get (nd_sessions n') (se_committee_id sel, nb_hash b) = Some s"
  by (auto simp: get_or_create_session_def Let_def put_session_def sem_defs dict_simps split: option.splits)

text \<open>A proposal: the prevote is only sent after the validation of the block.\<close>

lemma kept_on_propose:
  assumes valid: "validate_net_block b sel n \<Longrightarrow> V (se_committee_id sel, nb_hash b)"
  shows "node_kept H W V sha n (snd (on_propose sha b sel n))"
proof (cases "node_inv H W V sha n")
  case inv: True
  show ?thesis
    unfolding on_propose_def Let_def
  proof (rule node.at_get, intro node.at_branch node.at_ret, rule node.at_after,
      rule node.at_keeps[OF kept_get_or_create], rule node.at_self, intro node.at_branch node.at_ret, goal_cases)
    case (1 s0 n1)
    let ?k = "(se_committee_id sel, nb_hash b)"
    note run = get_or_create_run[OF 1(2)]
    have V: "V ?k" using valid 1(4) run by (simp add: validate_net_block_def)
    have inv1: "node_inv H W V sha n1"
      using node.at_keeps[OF kept_get_or_create[of H W V sha b sel], where s = n] inv 1(2) by (simp add: node_kept_def)
    show ?case
    proof (rule node.at_then, rule node.at_keeps[OF kept_replay_pending], goal_cases)
      case (1 n2)
      have "grows n1 n2"
        using node.at_keeps[OF kept_replay_pending[of H W V sha ?k], where s = n1] inv1 1 by (simp add: node_kept_def)
      moreover have "?k \<in> set (map fst (nd_sessions n1))" using run by (auto dest!: map_of_SomeD intro: rev_image_eqI)
      ultimately obtain s where s: "dict_get (nd_sessions n2) ?k = Some s"
        unfolding grows_def by (metis dict_get_dom not_None_eq subsetD)
      have flags: "sent_flag s t \<Longrightarrow> sent_flag (s\<lparr>ss_prevote_sent := True\<rparr>) t" for t by (cases t) simp_all
      show ?case
        by (rule node.at_get, simp only: s option.case, intro node.at_branch node.at_ret, rule node.at_self,
            rule kept_cast[OF s flags]) (auto simp: session_inv_def V intro: kept_on_prevote)
    qed
  qed
qed (simp add: node_kept_def)

end
