(* ===== verification/Consensus_Safety.thy ===== *)
theory Consensus_Safety
  imports Consensus_Net
begin

text \<open>
  Runs of a network of voting nodes and what holds in every state they reach: a finalised block carries
  a certificate of a quorum, more than a third of the committee are nodes that follow the code and sent
  a commit for it, and behind them stand as many that were given a proposal of it and accepted it. What the voting does
  not give is agreement on a height between different committees, shown by a run that forks.
\<close>

section \<open>Messages and proposals\<close>

definition message_ok :: "int set \<Rightarrow> sent_view \<Rightarrow> (session_key \<Rightarrow> bool) \<Rightarrow> node \<Rightarrow> message \<Rightarrow> bool" where
  "message_ok H W V n m = (case ms_payload m of
       VoteBy v \<Rightarrow> vouched H W n (ms_type m) (vt_voter v) (vote_key v) \<and> vouched H W n (vt_phase v) (vt_voter v) (vote_key v)
     | Proposal b sel \<Rightarrow> ms_type m = BftPropose \<and> validate_net_block b sel n \<longrightarrow> V (se_committee_id sel, nb_hash b))"

lemma kept_handle: "message_ok H W V n m \<Longrightarrow> node_kept H W V sha n (snd (handle_message sha m n))"
  by (cases "ms_payload m")
    (auto simp: message_ok_def handle_message_def kept_on_propose kept_on_vote raiseM_def node.refl)

lemma send_all_head:
  "nd_head_hash (snd (send_all m is n)) = nd_head_hash n \<and> nd_head_height (snd (send_all m is n)) = nd_head_height n"
proof (induction "is" arbitrary: n)
  case (Cons i "is")
  show ?case using Cons[of n] Cons[of "n\<lparr>nd_events := nd_events n @ [Sent i m]\<rparr>"]
    by (cases "i = nd_id n") (simp_all add: sem_defs log_event_def)
qed (simp add: sem_defs)

lemma kept_finalize_block:
  assumes V: "nd_id n = se_leader sel \<Longrightarrow> validate_net_block (prepared_block sha b sel) sel n
    \<Longrightarrow> V (se_committee_id sel, nb_hash (prepared_block sha b sel))"
  shows "node_kept H W V sha n (snd (finalize_block sha known b sel n))"
proof -
  let ?p = "prepared_block sha b sel" and ?k = "(se_committee_id sel, nb_hash (prepared_block sha b sel))"
  have future: "node_kept H W V sha n1 (snd ((if ss_future s = None then put_session ?k (s\<lparr>ss_future := Some None\<rparr>) else retM ()) n1))"
    if "dict_get (nd_sessions n1) ?k = Some s" for s n1
  proof -
    have "sent_flag (s\<lparr>ss_future := Some None\<rparr>) t = sent_flag s t" for t by (cases t) simp_all
    then have "node_kept H W V sha n1 (snd (put_session ?k (s\<lparr>ss_future := Some None\<rparr>) n1))"
      by (intro kept_put[OF that]) (simp_all add: session_inv_def)
    then show ?thesis by (simp add: node.at_ret)
  qed
  have head: "nd_head_hash n' = nd_head_hash n1 \<and> nd_head_height n' = nd_head_height n1"
    if "(if ss_future s = None then put_session ?k (s\<lparr>ss_future := Some None\<rparr>) else retM ()) n1 = (Inr (), n')" for s n1 n'
    using that by (auto simp: put_session_def sem_defs split: if_splits)
  show ?thesis
    unfolding finalize_block_def Let_def
  proof (rule node.at_get, rule node.at_branch, goal_cases)
    case 1
    show ?case by (cases "known (se_leader sel)") (simp_all add: node.at_ret raiseM_def node.refl)
  next
    case 2
    then have leader: "nd_id n = se_leader sel" by simp
    show ?case
    proof (rule node.at_after, rule node.at_keeps[OF kept_get_or_create], goal_cases)
      case (1 s n1)
      note run = get_or_create_run[OF 1]
      show ?case
      proof (rule node.at_then, rule future, rule run[THEN conjunct2, THEN conjunct2, THEN conjunct2], rule node.at_then,
          rule kept_send_all, simp, rule node.at_then, rule kept_on_propose, goal_cases)
        case (1 n2 n3)
        from head[OF 1(1)] send_all_head[of _ _ n2] 1(2) run
        have "nd_head_hash n3 = nd_head_hash n" "nd_head_height n3 = nd_head_height n" by (metis snd_conv)+
        with 1(3) have "validate_net_block ?p sel n" by (simp add: validate_net_block_def)
        then show ?case by (rule V[OF leader])
      next
        case (2 n2 n3 n4)
        show ?case by (rule node.at_ret)
      qed
    qed
  qed
qed

section \<open>Runs\<close>

type_synonym net = "int \<Rightarrow> node"

definition authentic :: "int set \<Rightarrow> net \<Rightarrow> message \<Rightarrow> bool" where
  "authentic H net m \<longleftrightarrow> (\<forall>v. ms_payload m = VoteBy v \<and> vt_voter v \<in> H \<longrightarrow>
     (\<exists>i m'. Sent i m' \<in> set (nd_events (net (vt_voter v))) \<and> ms_type m' = ms_type m \<and> ms_payload m' = VoteBy v))"

text \<open>What a node handles in one step: a message, the request to finalise a block, a gossiped block.\<close>

datatype node_input = Handles message | Leads "int \<Rightarrow> bool" net_block selection | Hears net_block

fun node_run :: "sha \<Rightarrow> node_input \<Rightarrow> node \<Rightarrow> node" where
  "node_run sha (Handles m) n = snd (handle_message sha m n)"
| "node_run sha (Leads known b sel) n = snd (finalize_block sha known b sel n)"
| "node_run sha (Hears b) n = snd (handle_block_gossip sha b n)"

definition fresh_net :: "int set \<Rightarrow> net \<Rightarrow> bool" where
  "fresh_net H net \<longleftrightarrow> (\<forall>i \<in> H. \<exists>secret. net i = new_node i False secret)"

text \<open>
  A run, with the log of what was handled, by whom and in which state, the last step first. Votes are the
  only restriction on messages: one in the name of a node of \<open>H\<close> arrives only if that node has sent it.
\<close>

type_synonym run_log = "(int \<times> node \<times> node_input) list"

inductive bft_run :: "int set \<Rightarrow> sha \<Rightarrow> net \<Rightarrow> net \<Rightarrow> run_log \<Rightarrow> bool" for H sha start where
  run_start: "fresh_net H start \<Longrightarrow> bft_run H sha start start []"
| run_step: "\<lbrakk>bft_run H sha start net log; i \<in> H; \<forall>m. inp = Handles m \<longrightarrow> authentic H net m\<rbrakk>
    \<Longrightarrow> bft_run H sha start (net(i := node_run sha inp (net i))) ((i, net i, inp) # log)"

inductive_cases bft_run_cases: "bft_run H sha start net log"

text \<open>The proposal that a step puts before the node, and the steps in which the node accepted one.\<close>

fun proposal_of :: "sha \<Rightarrow> node \<Rightarrow> node_input \<Rightarrow> (net_block \<times> selection) option" where
  "proposal_of sha n (Handles m) = (case ms_payload m of
     Proposal b sel \<Rightarrow> if ms_type m = BftPropose then Some (b, sel) else None | VoteBy v \<Rightarrow> None)"
| "proposal_of sha n (Leads known b sel) = (if nd_id n = se_leader sel then Some (prepared_block sha b sel, sel) else None)"
| "proposal_of sha n (Hears b) = None"

definition accepted :: "sha \<Rightarrow> run_log \<Rightarrow> int \<Rightarrow> session_key \<Rightarrow> bool" where
  "accepted sha log i k \<longleftrightarrow> (\<exists>n inp b sel. (i, n, inp) \<in> set log \<and> proposal_of sha n inp = Some (b, sel)
     \<and> k = (se_committee_id sel, nb_hash b) \<and> validate_net_block b sel n)"

definition view :: "net \<Rightarrow> sent_view" where
  "view net t j k = has_sent (net j) t k"

definition nets_ok :: "int set \<Rightarrow> sha \<Rightarrow> net \<Rightarrow> run_log \<Rightarrow> bool" where
  "nets_ok H sha net log \<longleftrightarrow> (\<forall>i \<in> H. nd_id (net i) = i \<and> node_inv H (view net) (accepted sha log i) sha (net i))"

lemma vouched_mono: "vouched H W n t j k \<Longrightarrow> (\<And>j. W t j k \<Longrightarrow> W' t j k) \<Longrightarrow> vouched H W' n t j k"
  by (auto simp: vouched_def)

lemma node_inv_mono:
  assumes inv: "node_inv H W V sha n" and W: "\<And>t j k. W t j k \<Longrightarrow> W' t j k" and V: "\<And>k. V k \<Longrightarrow> V' k"
  shows "node_inv H W' V' sha n"
proof -
  have "session_inv H W' V' n k s" if "session_inv H W V n k s" for k s
  proof -
    have tally: "tally_ok (\<lambda>j. vouched H W n t j k) ms votes \<Longrightarrow> tally_ok (\<lambda>j. vouched H W' n t j k) ms votes" for t ms votes
      by (erule tally_mono, erule vouched_mono, rule W)
    note Vk = V[of k]
    show ?thesis using that Vk unfolding session_inv_def by (elim conjE) (intro conjI tally impI; simp)
  qed
  moreover have "vouched H W' n t j k" if "vouched H W n t j k" for t j k
    using that W by (rule vouched_mono)
  ultimately show ?thesis
    using node_invD[OF inv] unfolding node_inv_def by blast
qed

lemma acceptedI:
  "proposal_of sha n inp = Some (b, sel) \<Longrightarrow> validate_net_block b sel n
   \<Longrightarrow> accepted sha ((i, n, inp) # log) i (se_committee_id sel, nb_hash b)"
  by (auto simp: accepted_def)

lemma accepted_mono: "accepted sha log i k \<Longrightarrow> accepted sha (x # log) i k"
  by (auto simp: accepted_def)

lemma authentic_ok:
  assumes ok: "nets_ok H sha net log" and i: "i \<in> H" and auth: "authentic H net m"
  shows "message_ok H (view net) (accepted sha ((i, net i, Handles m) # log) i) (net i) m"
proof (cases "ms_payload m")
  case (Proposal b sel)
  then show ?thesis using acceptedI[of sha "net i" "Handles m" b sel i log] by (auto simp: message_ok_def)
next
  case (VoteBy v)
  have sent: "has_sent (net (vt_voter v)) t (vote_key v)" if "vt_voter v \<in> H" "t = ms_type m \<or> t = vt_phase v" for t
  proof -
    from auth VoteBy that(1) obtain l m' where m': "Sent l m' \<in> set (nd_events (net (vt_voter v)))"
      "ms_type m' = ms_type m" "ms_payload m' = VoteBy v" unfolding authentic_def by blast
    have "node_inv H (view net) (accepted sha log (vt_voter v)) sha (net (vt_voter v))"
      using ok that(1) by (simp add: nets_ok_def)
    from node_invD(3)[OF this m'(1)] m'(2,3) that(2) show ?thesis by (auto simp: event_ok_def)
  qed
  have "nd_id (net i) = i" using ok i by (simp add: nets_ok_def)
  then have "vouched H (view net) (net i) t (vt_voter v) (vote_key v)" if "t = ms_type m \<or> t = vt_phase v" for t
    using sent[OF _ that] by (auto simp: vouched_def view_def)
  then show ?thesis by (simp add: message_ok_def VoteBy)
qed

lemma node_run_kept:
  assumes "nets_ok H sha net log" "i \<in> H" "\<forall>m. inp = Handles m \<longrightarrow> authentic H net m"
  shows "node_kept H (view net) (accepted sha ((i, net i, inp) # log) i) sha (net i) (node_run sha inp (net i))"
proof (cases inp)
  case (Handles m)
  with kept_handle[OF authentic_ok[OF assms(1,2)]] assms(3) show ?thesis by simp
next
  case (Leads known b sel)
  have "node_kept H (view net) (accepted sha ((i, net i, inp) # log) i) sha (net i) (snd (finalize_block sha known b sel (net i)))"
    by (rule kept_finalize_block, rule acceptedI) (simp_all add: Leads)
  with Leads show ?thesis by simp
next
  case (Hears b)
  with node.at_keeps[OF kept_block_gossip[of H "view net" "accepted sha ((i, net i, inp) # log) i" sha b], where s = "net i"]
  show ?thesis by simp
qed

lemma grows_sent: "grows n n' \<Longrightarrow> has_sent n t k \<Longrightarrow> has_sent n' t k"
  unfolding grows_def by blast

lemma bft_run_ok: "bft_run H sha start net log \<Longrightarrow> nets_ok H sha net log"
proof (induction rule: bft_run.induct)
  case run_start
  then show ?case
    by (auto simp: nets_ok_def fresh_net_def node_inv_def new_node_def)
next
  case (run_step net log i inp)
  let ?n = "node_run sha inp (net i)" and ?log = "(i, net i, inp) # log"
  let ?net = "net(i := ?n)"
  have inv: "nd_id (net j) = j \<and> node_inv H (view net) (accepted sha ?log j) sha (net j)" if "j \<in> H" for j
    using run_step.IH that node_inv_mono[where V = "accepted sha log j" and V' = "accepted sha ?log j"] accepted_mono
    unfolding nets_ok_def by blast
  from node_run_kept[OF run_step.IH run_step.hyps(2,3)] inv[OF run_step.hyps(2)]
  have n': "node_inv H (view net) (accepted sha ?log i) sha ?n" "grows (net i) ?n" by (simp_all add: node_kept_def)
  have view: "view ?net t j k" if "view net t j k" for t j k
    using that grows_sent[OF n'(2), of t k] by (cases "j = i") (simp_all add: view_def)
  have "nd_id (?net j) = j \<and> node_inv H (view ?net) (accepted sha ?log j) sha (?net j)" if j: "j \<in> H" for j
  proof (cases "j = i")
    case True
    have "nd_id ?n = i" using n'(2) inv[OF run_step.hyps(2)] by (simp add: grows_def)
    with True node_inv_mono[OF n'(1) view] show ?thesis by simp
  next
    case False
    with inv[OF j] node_inv_mono[OF inv[OF j, THEN conjunct2] view] show ?thesis by simp
  qed
  then show ?case unfolding nets_ok_def by blast
qed

section \<open>The claims\<close>

definition few_faulty :: "int set \<Rightarrow> session \<Rightarrow> bool" where
  "few_faulty H s \<longleftrightarrow> distinct (members_of s) \<and> 3 * card (set (members_of s) - H) < length (members_of s)"

text \<open>Those of a quorum of votes that follow the code have sent what was counted.\<close>

lemma honest_voters:
  assumes tally: "tally_ok (\<lambda>j. vouched H (view net) n t j k) (members_of s) votes" "quorum_of s \<le> length votes"
    and few: "few_faulty H s" and id: "net (nd_id n) = n"
  shows "length (members_of s) < 3 * card {j \<in> H \<inter> set (members_of s). has_sent (net j) t k}"
proof -
  let ?M = "set (members_of s)" and ?A = "fst ` set votes"
  have card: "card ?M = length (members_of s)" using few by (simp add: few_faulty_def distinct_card)
  have sub: "?A \<subseteq> ?M" "card ?A = length votes"
    using tally(1) distinct_card[of "map fst votes"] by (simp_all add: tally_ok_def)
  have "card ?M < 3 * card (?A \<inter> H)"
    by (rule bft.honest_in_quorum) (use sub tally(2) few card in \<open>simp_all add: few_faulty_def\<close>)
  moreover have "?A \<inter> H \<subseteq> {j \<in> H \<inter> ?M. has_sent (net j) t k}"
  proof
    fix j assume j: "j \<in> ?A \<inter> H"
    then have "vouched H (view net) n t j k" using tally(1) by (auto simp: tally_ok_def)
    with j sub id show "j \<in> {j \<in> H \<inter> ?M. has_sent (net j) t k}"
      by (auto simp: vouched_def view_def split: if_splits)
  qed
  then have "card (?A \<inter> H) \<le> card {j \<in> H \<inter> ?M. has_sent (net j) t k}" by (intro card_mono) auto
  ultimately show ?thesis using card by simp
qed

lemma third_nonempty: "(n::nat) < 3 * card A \<Longrightarrow> \<exists>x. x \<in> A"
  by (cases "A = {}") auto

text \<open>
C14. Voting, under the assumption that no vote is forged: a vote in the name of a node of \<open>H\<close> reaches another
node only if that node has sent it, which the code itself does not check. The nodes outside \<open>H\<close> may send
any other message, and messages may be lost, repeated and reordered. If less than a third of every committee
of a session lies outside \<open>H\<close>, then a block that a node of \<open>H\<close> has finalised in the session carries a
certificate of a quorum of its committee, more than a third of the committee are nodes of \<open>H\<close> that sent a
commit, and in a session of the same block more than a third of its committee are nodes of \<open>H\<close> that were
given a proposal of the block and accepted it: its committee, members and transactions were in order and it
extended the head that the node had at that time.
\<close>

theorem finalised_by_quorum:
  assumes run: "bft_run H sha start net log" and i: "i \<in> H"
    and s: "dict_get (nd_sessions (net i)) k = Some s" "ss_finalized s = Some b"
    and few: "\<And>j s. j \<in> H \<Longrightarrow> dict_get (nd_sessions (net j)) k = Some s \<Longrightarrow> few_faulty H s"
  shows "quorum_size (length (members_of s)) \<le> length (nb_signatures b)
    \<and> length (members_of s) < 3 * card {j \<in> H \<inter> set (members_of s). has_sent (net j) BftCommit k}
    \<and> (\<exists>j \<in> H. \<exists>u. dict_get (nd_sessions (net j)) k = Some u
          \<and> length (members_of u) < 3 * card {l \<in> H \<inter> set (members_of u). accepted sha log l k})"
proof -
  have ok: "nd_id (net j) = j" "node_inv H (view net) (accepted sha log j) sha (net j)" if "j \<in> H" for j
    using bft_run_ok[OF run] that by (simp_all add: nets_ok_def)
  have session: "session_inv H (view net) (accepted sha log j) (net j) k u" "few_faulty H u"
    if "j \<in> H" "dict_get (nd_sessions (net j)) k = Some u" for j u
    using node_invD(1)[OF ok(2)[OF that(1)] that(2)] few[OF that] by simp_all
  note voters = honest_voters[where net = net and k = k and H = H]
  have commits: "length (members_of s) < 3 * card {j \<in> H \<inter> set (members_of s). has_sent (net j) BftCommit k}"
    using session[OF i s(1)] s(2) ok(1)[OF i] by (intro voters[of "net i" _ _ "ss_commits s"]) (simp_all add: session_inv_def)
  then obtain j t where j: "j \<in> H" "dict_get (nd_sessions (net j)) k = Some t" "ss_commit_sent t"
    by (auto simp: has_sent_def dest!: third_nonempty)
  have "length (members_of t) < 3 * card {l \<in> H \<inter> set (members_of t). has_sent (net l) BftPrecommit k}"
    using session[OF j(1,2)] j(3) ok(1)[OF j(1)] by (intro voters[of "net j" _ _ "ss_precommits t"]) (simp_all add: session_inv_def)
  then obtain l u where l: "l \<in> H" "dict_get (nd_sessions (net l)) k = Some u" "ss_precommit_sent u"
    by (auto simp: has_sent_def dest!: third_nonempty)
  have "length (members_of u) < 3 * card {x \<in> H \<inter> set (members_of u). has_sent (net x) BftPrevote k}"
    using session[OF l(1,2)] l(3) ok(1)[OF l(1)] by (intro voters[of "net l" _ _ "ss_prevotes u"]) (simp_all add: session_inv_def)
  also have "card {x \<in> H \<inter> set (members_of u). has_sent (net x) BftPrevote k}
      \<le> card {x \<in> H \<inter> set (members_of u). accepted sha log x k}"
  proof (rule card_mono)
    show "{x \<in> H \<inter> set (members_of u). has_sent (net x) BftPrevote k} \<subseteq> {x \<in> H \<inter> set (members_of u). accepted sha log x k}"
    proof
      fix x assume x: "x \<in> {x \<in> H \<inter> set (members_of u). has_sent (net x) BftPrevote k}"
      then obtain w where "dict_get (nd_sessions (net x)) k = Some w" "ss_prevote_sent w" by (auto simp: has_sent_def)
      with session(1)[of x w] x have "accepted sha log x k" by (simp add: session_inv_def)
      with x show "x \<in> {x \<in> H \<inter> set (members_of u). accepted sha log x k}" by simp
    qed
  qed simp
  finally have "length (members_of u) < 3 * card {x \<in> H \<inter> set (members_of u). accepted sha log x k}" by simp
  moreover have "quorum_of s \<le> length (nb_signatures b)" using session(1)[OF i s(1)] s(2) by (simp add: session_inv_def)
  ultimately show ?thesis using commits l(1,2) by blast
qed

section \<open>Runs of committees of one\<close>

definition solo_selection :: "int \<Rightarrow> string \<Rightarrow> selection" where
  "solo_selection i cid = \<lparr>se_committee_id = cid, se_key = cid, se_members = [i], se_candidates = [i], se_leader = i\<rparr>"

definition solo_draft :: net_block where
  "solo_draft = \<lparr>nb_parent_hash = ''genesis'', nb_transactions = [], nb_signatures = [], nb_committee_id = None,
     nb_proposer_id = 0, nb_height = 1, nb_members = [], nb_hash = []\<rparr>"

lemma digest_unsigned: "block_digest sha (b\<lparr>nb_signatures := x\<rparr>) = block_digest sha b" "block_digest sha (b\<lparr>nb_hash := h\<rparr>) = block_digest sha b"
  by (simp_all add: block_digest_def block_json_def)

lemma solo_run:
  fixes sha i cid
  defines "p \<equiv> prepared_block sha solo_draft (solo_selection i cid)"
  shows "\<exists>n' s b. finalize_block sha known solo_draft (solo_selection i cid) (new_node i False secret) = (Inr (Awaiting (cid, nb_hash p)), n')
     \<and> nd_head_hash n' = nb_hash p \<and> nd_head_height n' = 1 \<and> nd_sessions n' = [((cid, nb_hash p), s)]
     \<and> ss_finalized s = Some b \<and> members_of s = [i] \<and> dict_get (nd_blocks_by_hash n') (nb_hash p) = Some b
     \<and> nb_committee_id b = Some cid"
proof -
  have digest: "block_digest sha p = nb_hash p"
    by (simp add: p_def prepared_block_def mk_net_block_def block_digest_def block_json_def)
  have fields: "nb_parent_hash p = ''genesis''" "nb_transactions p = []" "nb_committee_id p = Some cid" "nb_height p = 1" "nb_members p = [i]"
    by (simp_all add: p_def prepared_block_def mk_net_block_def solo_draft_def solo_selection_def)
  show ?thesis
    unfolding finalize_block_def p_def[symmetric] Let_def
    by (simp add: sem_defs solo_selection_def new_node_def get_or_create_session_def put_session_def new_session_def on_propose_def
        validate_net_block_def fields replay_pending_votes_def broadcast_vote_def on_prevote_def on_precommit_def on_commit_def
        with_session_def vote_key_def own_vote_def quorum_size_def finalise_session_def apply_finalized_block_def guardM_def
        log_event_def resolve_future_def with_signatures_def certificate_def digest_unsigned digest Let_def)
qed

lemma leader_runs:
  assumes "bft_run H sha start net log" "i \<in> H" "finalize_block sha known b sel (net i) = (r, n')"
  shows "bft_run H sha start (net(i := n')) ((i, net i, Leads known b sel) # log)"
  using run_step[OF assms(1,2), of "Leads known b sel"] assms(3) by simp

theorem finalised_by_quorum_witness:
  "\<exists>start net log k s b. bft_run {1} (\<lambda>x. x) start net log \<and> dict_get (nd_sessions (net 1)) k = Some s
     \<and> ss_finalized s = Some b \<and> 1 \<le> length (nb_signatures b) \<and> has_sent (net 1) BftCommit k \<and> accepted (\<lambda>x. x) log 1 k"
proof -
  let ?start = "\<lambda>i. new_node i False []" and ?sel = "solo_selection 1 ''a''"
  let ?k = "(''a'', nb_hash (prepared_block (\<lambda>x. x) solo_draft ?sel))"
  from solo_run[of "\<lambda>x. x" "\<lambda>i. True" 1 "''a''" "[]"] obtain n' s b where n':
    "finalize_block (\<lambda>x. x) (\<lambda>i. True) solo_draft ?sel (?start 1) = (Inr (Awaiting ?k), n')"
    "nd_sessions n' = [(?k, s)]" "ss_finalized s = Some b" "members_of s = [1]" by auto
  let ?net = "?start(1 := n')" and ?log = "[(1 :: int, ?start 1, Leads (\<lambda>i. True) solo_draft ?sel)]"
  have "fresh_net {1} ?start" by (auto simp: fresh_net_def)
  then have run: "bft_run {1} (\<lambda>x. x) ?start ?net ?log"
    by (rule leader_runs[OF run_start]) (use n'(1) in simp_all)
  have get: "dict_get (nd_sessions (?net 1)) ?k = Some s" by (simp add: n'(2))
  have "few_faulty {1} u" if "j \<in> {1}" "dict_get (nd_sessions (?net j)) ?k = Some u" for j u
    using that n'(2,4) by (auto simp: few_faulty_def)
  with finalised_by_quorum[where k = ?k and net = ?net and i = 1 and s = s and b = b, OF run _ get n'(3)]
  have "quorum_size (length (members_of s)) \<le> length (nb_signatures b)
     \<and> length (members_of s) < 3 * card {j \<in> {1} \<inter> set (members_of s). has_sent (?net j) BftCommit ?k}
     \<and> (\<exists>j \<in> {1}. \<exists>u. dict_get (nd_sessions (?net j)) ?k = Some u
          \<and> length (members_of u) < 3 * card {l \<in> {1} \<inter> set (members_of u). accepted (\<lambda>x. x) ?log l ?k})"
    by blast
  then have "1 \<le> length (nb_signatures b)" "has_sent (?net 1) BftCommit ?k" "accepted (\<lambda>x. x) ?log 1 ?k"
    using n'(4) by (auto simp: quorum_size_def dest!: third_nonempty)
  with run get n'(3) show ?thesis by (intro exI conjI)
qed

text \<open>
  The parent of a block and its height are only compared when it is proposed, and committees of different
  blocks differ: two nodes of \<open>H\<close> finalise different blocks of one height.
\<close>

lemma rival_committees_fork:
  "\<exists>start net log b c. bft_run {1, 2} sha start net log
     \<and> dict_get (nd_blocks_by_hash (net 1)) (nd_head_hash (net 1)) = Some b \<and> nb_committee_id b = Some ''a''
     \<and> dict_get (nd_blocks_by_hash (net 2)) (nd_head_hash (net 2)) = Some c \<and> nb_committee_id c = Some ''b''
     \<and> nd_head_height (net 1) = 1 \<and> nd_head_height (net 2) = 1"
proof -
  let ?start = "\<lambda>i. new_node i False []"
  from solo_run[of sha "\<lambda>i. True" 1 "''a''" "[]"] obtain n1 r1 b where n1:
    "finalize_block sha (\<lambda>i. True) solo_draft (solo_selection 1 ''a'') (?start 1) = (r1, n1)" "nd_head_height n1 = 1"
    "dict_get (nd_blocks_by_hash n1) (nd_head_hash n1) = Some b" "nb_committee_id b = Some ''a''" by auto
  from solo_run[of sha "\<lambda>i. True" 2 "''b''" "[]"] obtain n2 r2 c where n2:
    "finalize_block sha (\<lambda>i. True) solo_draft (solo_selection 2 ''b'') (?start 2) = (r2, n2)" "nd_head_height n2 = 1"
    "dict_get (nd_blocks_by_hash n2) (nd_head_hash n2) = Some c" "nb_committee_id c = Some ''b''" by auto
  let ?net = "?start(1 := n1)"
  have "fresh_net {1, 2} ?start" by (auto simp: fresh_net_def)
  then have "bft_run {1, 2} sha ?start ?net [(1, ?start 1, Leads (\<lambda>i. True) solo_draft (solo_selection 1 ''a''))]"
    by (rule leader_runs[OF run_start]) (use n1(1) in simp_all)
  then have "bft_run {1, 2} sha ?start (?net(2 := n2)) ((2, ?net 2, Leads (\<lambda>i. True) solo_draft (solo_selection 2 ''b''))
      # [(1, ?start 1, Leads (\<lambda>i. True) solo_draft (solo_selection 1 ''a''))])"
    by (rule leader_runs) (use n2(1) in simp_all)
  then show ?thesis
    using n1 n2 by (intro exI[of _ ?start] exI[of _ "?net(2 := n2)"] exI) auto
qed

end
