(* ===== verification/Spec2Isabelle.thy ===== *)
theory Spec2Isabelle
  imports Base_Props Evm_Props Block_Props Phantom_Chain Consensus_Safety
begin

text \<open>
  A verification development of Synapse-Chain: its execution layer, its payment channels and the voting
  of its committees, translated from the Python sources. Paths below are relative to
  \<open>src/execution/src/crates/\<close>, and \<open>execution/\<close> in front of a file name is short for
  \<open>execution/src/execution/\<close>.

  \<^bold>\<open>The program.\<close> Clients sign transactions (crate \<open>transactions\<close>, over the curve code of \<open>crypto\<close> and
  the encoding of \<open>encoding\<close>). A block carries a list of them. \<open>execution/block_builder.py\<close> builds
  blocks and \<open>execution/block_executor.py\<close> checks and executes them: every transaction is
  validated, pays its gas in advance, runs in the interpreter of the crate \<open>evm\<close> on a state database, and
  is settled; the block ends with the roots of its transactions, receipts and state, which are Merkle
  Patricia tries of the crate \<open>state\<close>. \<open>execution/phantom\<close> keeps payment channels over the same state
  database: two participants deposit into an escrow account, exchange signed states, route
  hash-locked payments over several channels, and close cooperatively or by a dispute with a window; a
  settlement chain mines the operations they submit. \<open>src/consensus\<close> lets a committee vote on a block
  in three rounds and stores the blocks that a quorum has certified.

  \<^bold>\<open>Conventions.\<close> \<open>Prelude\<close> has the shared vocabulary. A function that may raise returns
  \<open>(error, value) result\<close>; a method that changes its object and may raise half way is a function from the
  state to the outcome \<^emph>\<open>and\<close> the state, composed with \<open>bindM\<close>, \<open>seqM\<close> and \<open>guardM\<close>, so that what an
  exception leaves behind is visible. Dictionaries are association lists in insertion order, bytes are lists
  of \<open>8 word\<close>, a \<open>U256\<close> is a \<open>256 word\<close>, Python integers are \<open>int\<close>. Objects that the code shares and
  mutates are threaded through the calls in the order of the code. \<open>Programs\<close> has a locale of relations that
  a program keeps when its steps do, returning or raising; the channels, the settlement chain, the
  voting nodes and the refund counter interpret it.

  \<^bold>\<open>Base crates.\<close>
  \<^item> \<open>Primitives\<close>: \<open>primitives/types.py\<close>. \<open>Rlp\<close>: \<open>encoding/rlp.py\<close>. \<open>Keccak\<close>: \<open>crypto/keccak.py\<close>.
    \<open>Secp256k1\<close>: \<open>crypto/secp256k1.py\<close> and \<open>address.py\<close>. \<open>Signing\<close>: the nonce stream and
    \<open>sign_message_hash\<close>, whose loops are partial functions, since the stream of nonces has no end.
  \<^item> \<open>Base_Props\<close> and \<open>Signing\<close> show: encoding and decoding are inverse, except for payloads of exactly 55
    bytes, which the decoder refuses, and only canonical input is accepted; checked arithmetic fails exactly
    on overflow; signing uses the first usable nonce and its result satisfies the equations of ECDSA with the
    right recovery identifier.

  \<^bold>\<open>Interpreter\<close> (crate \<open>evm\<close>).
  \<^item> \<open>Evm_Base\<close>: opcodes, gas tables, helpers. \<open>Evm_State\<close>: \<open>storage.py\<close>, \<open>account.py\<close>, \<open>state.py\<close> and
    \<open>execution/journal.py\<close>. \<open>Evm_Machine\<close>: stack, memory, gas meter, frames, precompiled contracts.
    \<open>Interpreter\<close>: \<open>interpreter.py\<close>, one definition per opcode handler, calls, creations, dispatch and the
    loop. The loop takes fuel, one unit for each instruction and each level of nesting.
  \<^item> \<open>Interpreter_Inv\<close> has the contract of a state invariant as a locale and proves once that the whole
    interpreter keeps it; the interpretations are well-formedness, the total supply, the code of a deployed
    contract and, for static frames, the state itself. \<open>Interpreter_Term\<close> shows that more fuel never
    changes an outcome and that enough fuel exists for every gas limit, by a lexicographic measure of the
    remaining call depth, the gas and the distance to the end of the code. \<open>Evm_Props\<close> collects the
    promises. \<open>Refunds\<close> bounds the refund counter from below by the slots that are left cleared.

  \<^bold>\<open>Transactions and blocks.\<close>
  \<^item> \<open>Zk\<close>: the crate \<open>zk\<close>. \<open>Transactions\<close>: \<open>transactions/models.py\<close> and \<open>constants.py\<close>, with the
    round trip of the raw format and the sender of a signed transaction. \<open>Fees\<close>, \<open>Receipts\<close>: base fee, fee
    market, blooms and receipts of \<open>execution/\<close>. \<open>Tx_Execution\<close>: \<open>execution/tx_validation.py\<close> and
    \<open>state_transition.py\<close>, with totality, atomicity, the accounts of gas and fees and the conservation of
    balances. Conservation needs a state in which no storage slot waits to be cleared
    (\<open>settled_storage\<close>), which every committed transaction establishes again, and a total below \<open>2^256\<close>.
  \<^item> \<open>Merkle_Trie\<close>: \<open>state/trie.py\<close>. \<open>State_Backends\<close>: accounts, serialization, the two backends and the
    state object of the crate \<open>state\<close>, and the roots of \<open>execution/trie.py\<close>. \<open>Merkle_Binding\<close>,
    \<open>State_Root\<close>, \<open>Block_Binding\<close>: what roots and header hashes commit to, with hash collisions as an
    explicit alternative or hypothesis. \<open>State_Agreement\<close>: a locale of simulations between backends and
    its interpretation on the dictionary and the trie backend.
  \<^item> \<open>Blocks\<close>, \<open>Block_Execution\<close>: headers, blocks, validation, execution and building. \<open>Block_Props\<close>: totality,
    the accounts of a block, agreement of builder and executor, and the history that a tip hash fixes.

  \<^bold>\<open>Payment channels\<close> (\<open>execution/phantom\<close>).
  \<^item> \<open>Phantom_Json\<close>: \<open>hashing.py\<close>. \<open>Phantom_Models\<close>: \<open>models.py\<close>, \<open>signing.py\<close>. \<open>Phantom_Routing\<close>:
    \<open>routing.py\<close>, \<open>dht.py\<close>; its search is a total function, by a measure. \<open>Phantom_Manager\<close>: \<open>manager.py\<close>,
    every method. \<open>Phantom_Settlement\<close>: \<open>settlement.py\<close>.
  \<^item> \<open>Phantom_Safety\<close> and \<open>Phantom_Payments\<close> prove method by method what channels keep; \<open>Phantom_Props\<close> lifts it
    to all reachable managers and states what one call, a finalised dispute, a payment, a redemption and a
    refund do. \<open>Phantom_Pool\<close> is the mempool, \<open>Phantom_Mining\<close> and \<open>Phantom_Chain\<close> the invariant of
    every settlement chain that can be reached.

  \<^bold>\<open>Voting\<close> (\<open>src/consensus/src/consensus/networking\<close>: \<open>bft.py\<close>, \<open>types.py\<close>, \<open>node.py\<close>).
  \<^item> \<open>Consensus_Bft\<close>: sessions, proposals, the three rounds with their buffered votes, certificates, and the
    storing of finalised and gossiped blocks. A handler runs to its end before the next message of the node;
    what it sends is a list of events. \<open>Consensus_Net\<close> has the counting of quorums as a locale and the
    invariant of one node, \<open>Consensus_Safety\<close> the runs of a network: at each step a node of the set \<open>H\<close>
    handles a message, leads a proposal or hears a gossiped block; messages may be lost, repeated,
    reordered, or made up by the nodes outside \<open>H\<close>. The code does not check signatures of votes, so
    the runs assume that a vote in the name of a node of \<open>H\<close> was sent by it. Agreement between
    different committees does not hold, and a run that forks is shown.

  \<^bold>\<open>Parameters.\<close> Code outside the repository is an argument of the definitions that use it: SHA-256 and
  RIPEMD-160 (\<open>hl\<close>, \<open>sha\<close>), the keyed hash of the nonce stream (\<open>hmac\<close>), the proof verifiers
  (\<open>registry\<close>, \<open>verify\<close>), the random secret of a payment and the committee selections. Lemmas that need
  something of them say so, for instance that digests of the keyed hash have 32 bytes.

  \<^bold>\<open>Not modelled.\<close> Printing and JSON dictionaries of blocks, receipts and transactions; strings of the channels
  outside U+0000 to U+00FF and floating-point numbers in their payloads; key generation; trace
  sinks; the second transaction validator of the crate \<open>transactions\<close>, which the execution layer does not
  call; chain synchronisation, RPC, replay and contract tools, hooks and wrappers, launchers and clients,
  which are input and output around the parts above; and of \<open>src/consensus\<close> the scores and the
  selection of committees, which use floating-point numbers and the random generator of the standard
  library, and the services for gossip, storage and synchronisation.
\<close>

end
